(* ===== verification/Prelude.thy ===== *)
theory Prelude
  imports Main "HOL-Library.Word" "HOL-Library.Monad_Syntax"
begin

text \<open>
  Shared vocabulary of the development.

  \<^item> The machine types of the i386 build (\<^verbatim>\<open>include/depthos/stdtypes.h\<close>,
    \<^verbatim>\<open>include/depthos/stddef.h\<close>): \<open>unsigned long\<close>, \<open>size_t\<close> and \<open>uintptr_t\<close> are 32 bits wide,
    \<open>bool\<close> is \<open>uint8_t\<close>, and \<open>NULL\<close> is address 0.
  \<^item> The rounding and address macros of \<^verbatim>\<open>include/depthos/kernel.h\<close>, the error numbers of
    \<^verbatim>\<open>include/depthos/errno.h\<close>, and the small arithmetic helpers of \<^verbatim>\<open>lib/math.c\<close> and
    \<^verbatim>\<open>lib/stdbits.c\<close>.
  \<^item> \<open>for_upto\<close>, the counted loop \<^verbatim>\<open>for (i = 0; i < n; i++)\<close>, with its invariant rule.
  \<^item> The lemmas about words, lists and windows of consecutive indices that the components share.
\<close>

unbundle bit_operations_syntax

section \<open>Machine types\<close>

type_synonym u8 = "8 word"
type_synonym u16 = "16 word"
type_synonym u32 = "32 word"
type_synonym u64 = "64 word"
type_synonym size_t = "32 word"
type_synonym ptr = "32 word"
type_synonym cbool = "8 word"

abbreviation (input) NULL :: ptr where "NULL \<equiv> 0"

named_theorems word_nat "facts that move word arithmetic to the naturals"
named_theorems errno_defs "the numeric values of the error numbers"

section \<open>Error numbers\<close>

definition EINVAL :: int where [errno_defs]: "EINVAL = 1"
definition EOVERFLOW :: int where [errno_defs]: "EOVERFLOW = 2"
definition ENIMPL :: int where [errno_defs]: "ENIMPL = 4"
definition EFAULT :: int where [errno_defs]: "EFAULT = 5"
definition EAGAIN :: int where [errno_defs]: "EAGAIN = 10"
definition ENOIOCTL :: int where [errno_defs]: "ENOIOCTL = 12"
definition ENOENT :: int where [errno_defs]: "ENOENT = 8"
definition EBADF :: int where [errno_defs]: "EBADF = 9"
definition ENOTDIR :: int where [errno_defs]: "ENOTDIR = 11"
definition ENOTTY :: int where [errno_defs]: "ENOTTY = 12"
definition EMFILE :: int where [errno_defs]: "EMFILE = 13"
definition EEXIST :: int where [errno_defs]: "EEXIST = 15"
definition ENOMEM :: int where [errno_defs]: "ENOMEM = 16"
definition ERANGE :: int where [errno_defs]: "ERANGE = 17"
definition EADDRINUSE :: int where [errno_defs]: "EADDRINUSE = 18"
definition ECONNREFUSED :: int where [errno_defs]: "ECONNREFUSED = 19"
definition ENOTSOCK :: int where [errno_defs]: "ENOTSOCK = 20"

text \<open>\<open>ENOSYS\<close> is an alias of \<open>ENIMPL\<close> in the source.\<close>

abbreviation ENOSYS :: int where "ENOSYS \<equiv> ENIMPL"

section \<open>Address and rounding macros\<close>

definition ROUND_DOWN :: "u32 \<Rightarrow> u32 \<Rightarrow> u32" where
  "ROUND_DOWN x s = x - (x mod s)"

definition ROUND_UP :: "u32 \<Rightarrow> u32 \<Rightarrow> u32" where
  "ROUND_UP n s = ((n + s - 1) div s) * s"

definition VIRT_BASE :: u32 where
  "VIRT_BASE = 0xC0000000"

definition ADDR_TO_PHYS :: "u32 \<Rightarrow> u32" where
  "ADDR_TO_PHYS addr = addr - VIRT_BASE"

definition ADDR_TO_VIRT :: "u32 \<Rightarrow> u32" where
  "ADDR_TO_VIRT addr = addr + VIRT_BASE"

definition INVALID_ADDR :: u32 where
  "INVALID_ADDR = - 1"

definition PAGE_SIZE :: u32 where
  "PAGE_SIZE = 4096"

definition PAGE_TABLE_SIZE :: u32 where
  "PAGE_TABLE_SIZE = 1024"

definition PG_RND_DOWN :: "u32 \<Rightarrow> u32" where
  "PG_RND_DOWN a = ROUND_DOWN a PAGE_SIZE"

definition PG_RND_UP :: "u32 \<Rightarrow> u32" where
  "PG_RND_UP a = ROUND_UP a PAGE_SIZE"

definition PG_OFFSET :: "u32 \<Rightarrow> u32" where
  "PG_OFFSET a = a mod PAGE_SIZE"

lemma ADDR_TO_PHYS_VIRT [simp]: "ADDR_TO_PHYS (ADDR_TO_VIRT a) = a"
  by (simp add: ADDR_TO_PHYS_def ADDR_TO_VIRT_def)

lemma ADDR_TO_VIRT_PHYS [simp]: "ADDR_TO_VIRT (ADDR_TO_PHYS a) = a"
  by (simp add: ADDR_TO_PHYS_def ADDR_TO_VIRT_def)

section \<open>Small arithmetic helpers\<close>

text \<open>
  \<open>lib/math.c\<close>: C division truncates towards zero, so the quotient and the remainder are written
  out with absolute values. Division by zero is undefined in C; no caller passes a zero divisor.
\<close>

definition c_div :: "int \<Rightarrow> int \<Rightarrow> int" where
  "c_div a b = sgn a * sgn b * (\<bar>a\<bar> div \<bar>b\<bar>)"

definition c_mod :: "int \<Rightarrow> int \<Rightarrow> int" where
  "c_mod a b = a - c_div a b * b"

definition ceil_div :: "int \<Rightarrow> int \<Rightarrow> int" where
  "ceil_div a b = (let res = c_div a b in if c_mod a b \<noteq> 0 then res + 1 else res)"

text \<open>\<open>lib/stdbits.c\<close>: \<open>setbit\<close> returns the updated word, the source writes it through the pointer.\<close>

definition setbit :: "u32 \<Rightarrow> u32 \<Rightarrow> u32 \<Rightarrow> u32" where
  "setbit number off b =
     (let b = b AND push_bit 0 1
      in number XOR (((- b) XOR number) AND push_bit (unat off) 1))"

definition getbit :: "u32 \<Rightarrow> u32 \<Rightarrow> u32" where
  "getbit number off = drop_bit (unat off) number AND 1"

section \<open>Counted loops\<close>

text \<open>
  \<open>for_upto n f s\<close> is \<^verbatim>\<open>for (i = 0; i < n; i++) s = f(i, s)\<close> for a bound that the body does not
  change.
\<close>

definition for_upto :: "nat \<Rightarrow> (nat \<Rightarrow> 's \<Rightarrow> 's) \<Rightarrow> 's \<Rightarrow> 's" where
  "for_upto n f s = fold f [0..<n] s"

lemma for_upto_0 [simp]: "for_upto 0 f s = s"
  by (simp add: for_upto_def)

lemma for_upto_Suc [simp]: "for_upto (Suc n) f s = f n (for_upto n f s)"
  by (simp add: for_upto_def)

lemma for_upto_rule:
  assumes "P 0 s" and "\<And>i t. i < n \<Longrightarrow> P i t \<Longrightarrow> P (Suc i) (f i t)"
  shows "P n (for_upto n f s)"
proof -
  have "m \<le> n \<Longrightarrow> P m (for_upto m f s)" for m
    by (induction m) (auto intro: assms)
  then show ?thesis by simp
qed

lemma for_upto_inv:
  assumes "I s" and "\<And>i t. i < n \<Longrightarrow> I t \<Longrightarrow> I (f i t)"
  shows "I (for_upto n f s)"
  using for_upto_rule[of "\<lambda>_. I" s n f] assms by blast

text \<open>The same loop when an iteration can fault.\<close>

definition for_opt :: "nat \<Rightarrow> (nat \<Rightarrow> 's \<Rightarrow> 's option) \<Rightarrow> 's \<Rightarrow> 's option" where
  "for_opt n f s = fold (\<lambda>i so. so \<bind> f i) [0..<n] (Some s)"

lemma for_opt_0 [simp]: "for_opt 0 f s = Some s"
  by (simp add: for_opt_def)

lemma for_opt_Suc [simp]: "for_opt (Suc n) f s = for_opt n f s \<bind> f n"
  by (simp add: for_opt_def)

section \<open>Words\<close>

lemma unat_inc [word_nat]: "i < n \<Longrightarrow> unat (i + 1) = Suc (unat i)" for i n :: "'a::len word"
proof -
  assume "i < n"
  then have "Suc (unat i) \<le> unat n" by (simp add: word_less_nat_alt)
  also have "unat n < 2 ^ LENGTH('a)" by (rule unsigned_less)
  finally show ?thesis by (simp add: unat_word_ariths)
qed

lemma word_of_nat_unat_diff: "unat (j - x) < n \<Longrightarrow> j = x + of_nat (unat (j - x))" for j x :: "'a::len word"
  by simp

text \<open>A window of \<open>n\<close> consecutive indices starting at \<open>x\<close>, with wrap-around.\<close>

lemma in_window_Suc:
  fixes j x :: "'a::len word"
  assumes "Suc n \<le> 2 ^ LENGTH('a)"
  shows "unat (j - x) < Suc n \<longleftrightarrow> unat (j - x) < n \<or> j = x + of_nat n"
proof -
  have n: "unat (of_nat n :: 'a word) = n"
    using assms by (simp add: unsigned_of_nat take_bit_nat_eq_self)
  have "unat (j - x) = n \<longleftrightarrow> j - x = of_nat n"
    by (metis n word_unat_eq_iff)
  also have "\<dots> \<longleftrightarrow> j = x + of_nat n"
    by (auto simp: algebra_simps)
  finally show ?thesis by (auto simp: less_Suc_eq)
qed

lemma unat_diff_window:
  fixes j x :: "'a::len word"
  shows "x \<le> j \<Longrightarrow> unat (j - x) = unat j - unat x"
  by (simp add: unat_sub)

lemma unat_u32_bound: "unat (x :: u32) < 4294967296"
  using unsigned_less[of x] by simp

lemma of_nat_unat_u32 [word_nat]: "n < 4294967296 \<Longrightarrow> unat (of_nat n :: u32) = n"
  by (simp add: unsigned_of_nat take_bit_nat_eq_self)

lemma of_nat_neq_u32:
  assumes "m < n" and "n < 4294967296"
  shows "(of_nat m :: u32) \<noteq> of_nat n"
proof
  assume "(of_nat m :: u32) = of_nat n"
  then have "unat (of_nat m :: u32) = unat (of_nat n :: u32)" by (rule arg_cong)
  then show False using assms by (simp add: of_nat_unat_u32)
qed

text \<open>Stepping a pointer by one and then by \<open>n\<close>.\<close>

lemma add_of_nat_Suc: "p + of_nat (Suc n) = (p + 1) + of_nat n" for p :: "'a::len word"
  by (simp add: algebra_simps)

lemma eq_add_of_nat_iff: "n < 4294967296 \<Longrightarrow> b = p + of_nat n \<longleftrightarrow> unat (b - p) = n" for b p :: u32
  by (auto simp: of_nat_unat_u32)

lemma of_nat_mod_u32: "(of_nat (n mod 4294967296) :: u32) = of_nat n"
  by (simp add: word_unat_eq_iff unsigned_of_nat take_bit_nat_def)

text \<open>A 32-bit value read as a C \<open>int\<close>.\<close>

lemma int_wrap_u32:
  "n < 4294967296 \<Longrightarrow> (int n + 2147483648) mod 4294967296 - 2147483648 =
     (if n < 2147483648 then int n else int n - 4294967296)"
  using mod_pos_pos_trivial[of "int n + 2147483648" 4294967296]
    mod_pos_pos_trivial[of "int n - 2147483648" 4294967296]
    mod_add_self2[of "int n - 2147483648" 4294967296]
  by (auto simp: add.commute)

lemma sint_u32: "sint (x :: u32) = (if unat x < 2147483648 then int (unat x) else int (unat x) - 4294967296)"
proof -
  have "sint x = (int (unat x) + 2147483648) mod 4294967296 - 2147483648"
    by (simp add: sint_uint signed_take_bit_eq_take_bit_shift take_bit_eq_mod)
  then show ?thesis using int_wrap_u32[OF unat_u32_bound[of x]] by (rule trans)
qed

lemma sint_pos_iff: "0 < sint (x :: u32) \<longleftrightarrow> 0 < unat x \<and> unat x < 2147483648"
proof (cases "unat x < 2147483648")
  case True
  then show ?thesis unfolding sint_u32 if_P[OF True] by linarith
next
  case False
  then show ?thesis using unat_u32_bound[of x] unfolding sint_u32 if_not_P[OF False] by linarith
qed

text \<open>Widening and narrowing conversions.\<close>

lemma unat_ucast_simps [simp]:
  "unat (ucast (x :: u16) :: u32) = unat x"
  "unat (ucast (y :: u8) :: u32) = unat y"
  "unat (ucast (z :: u32) :: u16) = unat z mod 65536"
  "unat (ucast (z :: u32) :: u8) = unat z mod 256"
proof -
  have "unat x < 65536" "unat y < 256" using unsigned_less[of x, where 'a=nat] unsigned_less[of y, where 'a=nat] by simp_all
  then show "unat (ucast x :: u32) = unat x" "unat (ucast y :: u32) = unat y"
    by (simp_all add: unsigned_ucast_eq take_bit_eq_mod)
qed (simp_all add: unsigned_ucast_eq take_bit_eq_mod)

section \<open>Lists and small ranges\<close>

lemma all_less_2: "(\<forall>k < 2. P k) \<longleftrightarrow> P 0 \<and> P (1 :: nat)"
  by (auto simp: less_2_cases_iff)

lemma all_less_3: "(\<forall>k < 3. P k) \<longleftrightarrow> P 0 \<and> P 1 \<and> P (2 :: nat)"
  by (auto simp: numeral_3_eq_3 less_Suc_eq numeral_2_eq_2)

lemma nth_list_update_if: "i < length xs \<Longrightarrow> xs[i := v] ! j = (if i = j then v else xs ! j)"
  by (cases "i = j") simp_all

end
