(* ===== verification/Bitmap.thy ===== *)
theory Bitmap
  imports Prelude
begin

text \<open>
  The bitmap library (\<^verbatim>\<open>lib/bitmap.c\<close>, \<^verbatim>\<open>include/depthos/bitmap.h\<close>), which the physical memory manager
  and the kernel heap use to track pages.

  \<open>bits\<close> is the byte buffer that the \<open>bits\<close> pointer refers to; a write outside it is undefined in C,
  and \<open>bitmap_wf\<close> (the buffer has at least \<open>bitmap_byte_size\<close> bytes) rules such writes out. All index
  arithmetic is on 32-bit words, as in the source. The locale \<open>bit_store\<close> is what the clients rely on:
  the effect of the single-bit operations on \<open>test\<close>; the loops over windows of bits are proved once
  from those laws.
\<close>

section \<open>The operations\<close>

record bitmap =
  bits :: "u8 list"
  bsize :: size_t

definition bitmap_elem_size :: size_t where
  "bitmap_elem_size = 8"

definition bitmap_elem_index :: "size_t \<Rightarrow> size_t" where
  "bitmap_elem_index idx = idx div bitmap_elem_size"

definition bitmap_byte_size :: "bitmap \<Rightarrow> size_t" where
  "bitmap_byte_size bm = bitmap_elem_index (bsize bm - 1) + 1"

definition bitmap_elem_offset :: "size_t \<Rightarrow> size_t" where
  "bitmap_elem_offset idx = idx mod bitmap_elem_size"

definition bitmap_elem_mask :: "size_t \<Rightarrow> u8" where
  "bitmap_elem_mask idx = push_bit (unat (bitmap_elem_offset idx)) 1"

definition bitmap_in_bounds :: "bitmap \<Rightarrow> size_t \<Rightarrow> bool" where
  "bitmap_in_bounds bm idx \<longleftrightarrow> idx < bsize bm"

text \<open>\<open>memset(bm->bits, 0, bitmap_byte_size(bm))\<close>.\<close>

definition bitmap_init :: "bitmap \<Rightarrow> bitmap" where
  "bitmap_init bm =
     (let n = unat (bitmap_byte_size bm)
      in bm\<lparr>bits := replicate n 0 @ drop n (bits bm)\<rparr>)"

text \<open>
  \<open>blk\<close> is the content of the block that \<open>kmalloc\<close> returned for \<open>bitmap_elem_index (c - 1) + 1\<close> bytes;
  the source does not clear it.
\<close>

definition bitmap_create :: "size_t \<Rightarrow> u8 list \<Rightarrow> bitmap" where
  "bitmap_create c blk = \<lparr>bits = blk, bsize = c\<rparr>"

definition bitmap_mark :: "bitmap \<Rightarrow> size_t \<Rightarrow> bitmap" where
  "bitmap_mark bm i =
     (if \<not> bitmap_in_bounds bm i then bm
      else let k = unat (bitmap_elem_index i)
           in bm\<lparr>bits := (bits bm)[k := bits bm ! k OR bitmap_elem_mask i]\<rparr>)"

definition bitmap_reset :: "bitmap \<Rightarrow> size_t \<Rightarrow> bitmap" where
  "bitmap_reset bm i =
     (if \<not> bitmap_in_bounds bm i then bm
      else let k = unat (bitmap_elem_index i)
           in bm\<lparr>bits := (bits bm)[k := bits bm ! k AND NOT (bitmap_elem_mask i)]\<rparr>)"

definition bitmap_flip :: "bitmap \<Rightarrow> size_t \<Rightarrow> bitmap" where
  "bitmap_flip bm i =
     (if \<not> bitmap_in_bounds bm i then bm
      else let k = unat (bitmap_elem_index i)
           in bm\<lparr>bits := (bits bm)[k := bits bm ! k XOR bitmap_elem_mask i]\<rparr>)"

definition bitmap_test :: "bitmap \<Rightarrow> size_t \<Rightarrow> bool" where
  "bitmap_test bm i =
     (if \<not> bitmap_in_bounds bm i then False
      else (bits bm ! unat (bitmap_elem_index i)) AND bitmap_elem_mask i \<noteq> 0)"

definition bitmap_set :: "bitmap \<Rightarrow> cbool \<Rightarrow> size_t \<Rightarrow> bitmap" where
  "bitmap_set bm v idx =
     (let v = v AND 1 in if v \<noteq> 0 then bitmap_mark bm idx else bitmap_reset bm idx)"

text \<open>
  The loop counter is an \<open>int\<close> compared with two \<open>size_t\<close> values, so the comparison is unsigned; the
  bound \<open>bm->size - idx\<close> wraps when \<open>idx\<close> is past the end.
\<close>

definition bitmap_setmulti :: "bitmap \<Rightarrow> cbool \<Rightarrow> size_t \<Rightarrow> size_t \<Rightarrow> bitmap" where
  "bitmap_setmulti bm v idx c =
     for_upto (min (unat (bsize bm - idx)) (unat c))
       (\<lambda>i b. bitmap_set b v (idx + of_nat i)) bm"

text \<open>
  The scan loop: \<open>r\<close> is the start of the current run, \<open>rc\<close> its length. The result is the value that
  \<open>bitmap_scan\<close> returns, an \<open>ssize_t\<close> read as 32 bits; \<open>- 1\<close> is \<open>-EBITMAP\<close>.
\<close>

definition EBITMAP :: u32 where
  "EBITMAP = 1"

function bitmap_scan_loop ::
  "bitmap \<Rightarrow> size_t \<Rightarrow> size_t \<Rightarrow> cbool \<Rightarrow> size_t \<Rightarrow> size_t \<Rightarrow> size_t \<Rightarrow> u32" where
  "bitmap_scan_loop bm s n v i r rc =
     (if i < bsize bm then
        (if of_bool (bitmap_test bm (s + i)) \<noteq> v then bitmap_scan_loop bm s n v (i + 1) r 0
         else let r = (if rc = 0 then i else r); rc = rc + 1
              in if rc = n then r else bitmap_scan_loop bm s n v (i + 1) r rc)
      else - EBITMAP)"
  by pat_completeness auto
termination
  by (relation "measure (\<lambda>(bm, s, n, v, i, r, rc). unat (bsize bm) - unat i)")
    (auto simp: unat_inc word_less_nat_alt)

declare bitmap_scan_loop.simps [simp del]

definition bitmap_scan :: "bitmap \<Rightarrow> size_t \<Rightarrow> size_t \<Rightarrow> cbool \<Rightarrow> u32" where
  "bitmap_scan bm s n v = bitmap_scan_loop bm s n v 0 0 0"

text \<open>
  \<open>idx\<close> is declared \<open>size_t\<close>, so the test \<open>idx < 0\<close> is an unsigned comparison with zero, written out
  below as in the source.
\<close>

definition bitmap_scan_flip :: "bitmap \<Rightarrow> size_t \<Rightarrow> size_t \<Rightarrow> cbool \<Rightarrow> u32 \<times> bitmap" where
  "bitmap_scan_flip bm s n v =
     (let idx = bitmap_scan bm s n v
      in if idx < 0 then (idx, bm)
         else (idx, for_upto (unat n) (\<lambda>i b. bitmap_flip b (idx + of_nat i)) bm))"

text \<open>The characters that the dump functions print, one call of \<open>printk\<close> after the other.\<close>

definition dump_digit :: "bitmap \<Rightarrow> size_t \<Rightarrow> string" where
  "dump_digit bm i = (if bitmap_test bm i then ''1'' else ''0'')"

definition dump_end :: "bitmap \<Rightarrow> size_t \<Rightarrow> size_t" where
  "dump_end bm e = (if e < 0 \<or> e > bsize bm then bsize bm else e)"

definition bitmap_dump :: "bitmap \<Rightarrow> size_t \<Rightarrow> size_t \<Rightarrow> string" where
  "bitmap_dump bm s e =
     concat (map (\<lambda>i. dump_digit bm (of_nat i)) [unat s..<unat (dump_end bm e)]) @ [CHR 0x0A]"

definition bitmap_dump_pretty :: "bitmap \<Rightarrow> size_t \<Rightarrow> size_t \<Rightarrow> string" where
  "bitmap_dump_pretty bm s e =
     concat (map (\<lambda>i. dump_digit bm (of_nat i) @
       (if (i + 1) mod 8 = 0 \<and> of_nat i < bsize bm - 1 then '' '' else []))
       [unat s..<unat (dump_end bm e)]) @ [CHR 0x0A]"

section \<open>Single bits\<close>

definition bitmap_wf :: "bitmap \<Rightarrow> bool" where
  "bitmap_wf bm \<longleftrightarrow> bsize bm \<noteq> 0 \<and> unat (bitmap_byte_size bm) \<le> length (bits bm)"

lemmas bitmap_index_defs =
  bitmap_elem_index_def bitmap_elem_offset_def bitmap_elem_size_def bitmap_elem_mask_def

lemma unat_elem_index: "unat (bitmap_elem_index i) = unat i div 8"
  by (simp add: bitmap_index_defs unat_div_distrib)

lemma unat_elem_offset: "unat (bitmap_elem_offset i) = unat i mod 8"
  by (simp add: bitmap_index_defs unat_mod_distrib)

lemma unat_byte_size:
  assumes "bsize bm \<noteq> 0"
  shows "unat (bitmap_byte_size bm) = (unat (bsize bm) - 1) div 8 + 1"
proof -
  have "0 < unat (bsize bm)" using assms by (simp add: unat_gt_0)
  moreover have "unat (bsize bm - 1) = unat (bsize bm) - 1"
    using assms by (simp add: unat_minus_one)
  ultimately show ?thesis
    using unat_u32_bound[of "bsize bm"]
    by (simp add: bitmap_byte_size_def unat_word_ariths unat_elem_index)
qed

lemma elem_index_in_buffer:
  assumes "bitmap_wf bm" and "i < bsize bm"
  shows "unat (bitmap_elem_index i) < length (bits bm)"
proof -
  have "unat i \<le> unat (bsize bm) - 1"
    using assms(2) by (simp add: word_less_nat_alt)
  then have "unat i div 8 \<le> (unat (bsize bm) - 1) div 8" by (rule div_le_mono)
  then show ?thesis
    using assms(1) unat_byte_size[of bm] by (simp add: bitmap_wf_def unat_elem_index)
qed

lemma same_bit_iff:
  "unat (bitmap_elem_index i) = unat (bitmap_elem_index j) \<and>
   unat (bitmap_elem_offset i) = unat (bitmap_elem_offset j) \<longleftrightarrow> i = j"
proof -
  have "unat i div 8 = unat j div 8 \<and> unat i mod 8 = unat j mod 8 \<longleftrightarrow> unat i = unat j"
    by (metis div_mult_mod_eq)
  then show ?thesis
    by (simp add: unat_elem_index unat_elem_offset word_unat_eq_iff)
qed

lemma bit_elem_mask: "bit (bitmap_elem_mask i) k \<longleftrightarrow> k = unat (bitmap_elem_offset i)"
proof -
  have "unat (bitmap_elem_offset i) < 8" by (simp add: unat_elem_offset)
  then show ?thesis
    by (auto simp: bitmap_elem_mask_def bit_exp_iff)
qed

lemma bitmap_test_bit:
  "bitmap_test bm i \<longleftrightarrow> i < bsize bm \<and>
     bit (bits bm ! unat (bitmap_elem_index i)) (unat (bitmap_elem_offset i))"
proof -
  have "w AND bitmap_elem_mask i \<noteq> 0 \<longleftrightarrow> bit w (unat (bitmap_elem_offset i))" for w :: u8
    by (simp add: bitmap_elem_mask_def and_exp_eq_0_iff_not_bit)
  then show ?thesis by (auto simp: bitmap_test_def bitmap_in_bounds_def)
qed

lemma bitmap_test_in_bounds: "bitmap_test bm i \<Longrightarrow> i < bsize bm"
  by (simp add: bitmap_test_bit)

lemma bsize_ops [simp]:
  "bsize (bitmap_mark bm i) = bsize bm"
  "bsize (bitmap_reset bm i) = bsize bm"
  "bsize (bitmap_flip bm i) = bsize bm"
  "bsize (bitmap_set bm v i) = bsize bm"
  "bsize (bitmap_init bm) = bsize bm"
  by (simp_all add: bitmap_mark_def bitmap_reset_def bitmap_flip_def bitmap_set_def
      bitmap_init_def Let_def)

lemma length_bits_ops [simp]:
  "length (bits (bitmap_mark bm i)) = length (bits bm)"
  "length (bits (bitmap_reset bm i)) = length (bits bm)"
  "length (bits (bitmap_flip bm i)) = length (bits bm)"
  by (simp_all add: bitmap_mark_def bitmap_reset_def bitmap_flip_def Let_def)

lemma bitmap_wf_ops [simp]:
  "bitmap_wf (bitmap_mark bm i) = bitmap_wf bm"
  "bitmap_wf (bitmap_reset bm i) = bitmap_wf bm"
  "bitmap_wf (bitmap_flip bm i) = bitmap_wf bm"
  by (simp_all add: bitmap_wf_def bitmap_byte_size_def)

lemma bitmap_test_upd:
  assumes "bitmap_wf bm" and "i < bsize bm"
    and "\<And>k. bit (f (bits bm ! unat (bitmap_elem_index i))) k =
           (if k = unat (bitmap_elem_offset i) then b
            else bit (bits bm ! unat (bitmap_elem_index i)) k)"
  shows "bitmap_test (bm\<lparr>bits := (bits bm)[unat (bitmap_elem_index i) :=
           f (bits bm ! unat (bitmap_elem_index i))]\<rparr>) j =
         (if j = i then b else bitmap_test bm j)"
  using elem_index_in_buffer[OF assms(1,2)] same_bit_iff[of i j] assms(2,3)
  by (auto simp: bitmap_test_bit nth_list_update_if)

lemma bit_or_elem_mask:
  "bit (w OR bitmap_elem_mask i) k = (if k = unat (bitmap_elem_offset i) then True else bit w k)"
  by (auto simp: bit_simps bit_elem_mask)

lemma bit_and_not_elem_mask:
  "bit (w AND NOT (bitmap_elem_mask i)) k =
     (if k = unat (bitmap_elem_offset i) then False else bit w k)"
  by (auto simp: bit_simps bit_elem_mask dest: bit_imp_le_length)

lemma bit_xor_elem_mask:
  "bit (w XOR bitmap_elem_mask i) k =
     (if k = unat (bitmap_elem_offset i) then \<not> bit w (unat (bitmap_elem_offset i)) else bit w k)"
  by (auto simp: bit_simps bit_elem_mask)

lemma bitmap_test_mark:
  assumes "bitmap_wf bm"
  shows "bitmap_test (bitmap_mark bm i) j = (if j = i \<and> i < bsize bm then True else bitmap_test bm j)"
  using bitmap_test_upd[OF assms, of i "\<lambda>w. w OR bitmap_elem_mask i" True j]
  by (auto simp: bitmap_mark_def bitmap_in_bounds_def Let_def bit_or_elem_mask)

lemma bitmap_test_reset:
  assumes "bitmap_wf bm"
  shows "bitmap_test (bitmap_reset bm i) j = (if j = i then False else bitmap_test bm j)"
proof (cases "i < bsize bm")
  case True
  then show ?thesis
    using bitmap_test_upd[OF assms True, of "\<lambda>w. w AND NOT (bitmap_elem_mask i)" False j]
    by (simp add: bitmap_reset_def bitmap_in_bounds_def Let_def bit_and_not_elem_mask)
next
  case False
  then show ?thesis by (simp add: bitmap_reset_def bitmap_in_bounds_def bitmap_test_def)
qed

lemma bitmap_test_flip:
  assumes "bitmap_wf bm"
  shows "bitmap_test (bitmap_flip bm i) j =
    (if j = i \<and> i < bsize bm then \<not> bitmap_test bm i else bitmap_test bm j)"
proof (cases "i < bsize bm")
  case True
  then show ?thesis
    using bitmap_test_upd[OF assms True, of "\<lambda>w. w XOR bitmap_elem_mask i"
        "\<not> bit (bits bm ! unat (bitmap_elem_index i)) (unat (bitmap_elem_offset i))" j]
    by (simp add: bitmap_flip_def bitmap_in_bounds_def Let_def bit_xor_elem_mask bitmap_test_bit)
next
  case False
  then show ?thesis by (simp add: bitmap_flip_def bitmap_in_bounds_def)
qed

section \<open>The contract of a bit store\<close>

text \<open>
  What a client of the bitmap relies on. The window lemmas describe the counted loops of the clients:
  \<open>unat (j - x) < n\<close> says that \<open>j\<close> is one of the \<open>n\<close> indices \<open>x, x + 1, \<dots>\<close> (with wrap-around).
\<close>

locale bit_store =
  fixes mark :: "'b \<Rightarrow> u32 \<Rightarrow> 'b"
    and reset :: "'b \<Rightarrow> u32 \<Rightarrow> 'b"
    and flip :: "'b \<Rightarrow> u32 \<Rightarrow> 'b"
    and test :: "'b \<Rightarrow> u32 \<Rightarrow> bool"
    and cap :: "'b \<Rightarrow> u32"
    and wf :: "'b \<Rightarrow> bool"
  assumes wf_mark: "wf b \<Longrightarrow> wf (mark b i)"
    and wf_reset: "wf b \<Longrightarrow> wf (reset b i)"
    and wf_flip: "wf b \<Longrightarrow> wf (flip b i)"
    and cap_mark: "cap (mark b i) = cap b"
    and cap_reset: "cap (reset b i) = cap b"
    and cap_flip: "cap (flip b i) = cap b"
    and test_cap: "test b i \<Longrightarrow> i < cap b"
    and test_mark: "wf b \<Longrightarrow> test (mark b i) j = (if j = i \<and> i < cap b then True else test b j)"
    and test_reset: "wf b \<Longrightarrow> test (reset b i) j = (if j = i then False else test b j)"
    and test_flip: "wf b \<Longrightarrow>
      test (flip b i) j = (if j = i \<and> i < cap b then \<not> test b i else test b j)"
begin

lemma mark_window:
  fixes x :: u32
  assumes "wf b" and "n \<le> 4294967296"
  defines "b' \<equiv> for_upto n (\<lambda>i t. mark t (x + of_nat i)) b"
  shows "wf b' \<and> cap b' = cap b \<and>
    (\<forall>j. test b' j = (if unat (j - x) < n \<and> j < cap b then True else test b j))"
  unfolding b'_def
  by (rule for_upto_rule)
    (use assms(1,2) in \<open>auto simp: wf_mark cap_mark test_mark in_window_Suc\<close>)

lemma reset_window:
  fixes x :: u32
  assumes "wf b" and "n \<le> 4294967296"
  defines "b' \<equiv> for_upto n (\<lambda>i t. reset t (x + of_nat i)) b"
  shows "wf b' \<and> cap b' = cap b \<and>
    (\<forall>j. test b' j = (if unat (j - x) < n then False else test b j))"
  unfolding b'_def
  by (rule for_upto_rule)
    (use assms(1,2) in \<open>auto simp: wf_reset cap_reset test_reset in_window_Suc\<close>)

lemma flip_window:
  fixes x :: u32
  assumes "wf b" and "n \<le> 4294967296"
  defines "b' \<equiv> for_upto n (\<lambda>i t. flip t (x + of_nat i)) b"
  shows "wf b' \<and> cap b' = cap b \<and>
    (\<forall>j. test b' j = (if unat (j - x) < n \<and> j < cap b then \<not> test b j else test b j))"
  unfolding b'_def
proof (rule for_upto_rule, goal_cases)
  case 1
  show ?case using assms(1) by simp
next
  case (2 i t)
  have "Suc i \<le> 2 ^ LENGTH(32)" and fresh: "\<not> unat ((x + of_nat i) - x) < i"
    using 2(1) assms(2) by (simp_all add: of_nat_unat_u32)
  with 2 show ?case
    by (auto simp: wf_flip cap_flip test_flip in_window_Suc)
qed

end

interpretation bm: bit_store bitmap_mark bitmap_reset bitmap_flip bitmap_test bsize bitmap_wf
  by unfold_locales
    (simp_all add: bitmap_test_mark bitmap_test_reset bitmap_test_flip bitmap_test_in_bounds)

section \<open>Ranges of bits\<close>

lemma bitmap_set_cases:
  "bitmap_set bm v i = (if odd v then bitmap_mark bm i else bitmap_reset bm i)"
  by (simp add: bitmap_set_def Let_def and_one_eq mod2_eq_if)

lemma bitmap_set_loop:
  "for_upto n (\<lambda>i b. bitmap_set b v (x + of_nat i)) bm =
     (if odd v then for_upto n (\<lambda>i b. bitmap_mark b (x + of_nat i)) bm
      else for_upto n (\<lambda>i b. bitmap_reset b (x + of_nat i)) bm)"
  by (simp add: bitmap_set_cases)

lemma bitmap_setmulti_wf:
  assumes "bitmap_wf bm"
  shows "bitmap_wf (bitmap_setmulti bm v idx c)" and "bsize (bitmap_setmulti bm v idx c) = bsize bm"
  using bm.mark_window[OF assms, of "min (unat (bsize bm - idx)) (unat c)" idx]
    bm.reset_window[OF assms, of "min (unat (bsize bm - idx)) (unat c)" idx]
    unat_u32_bound[of c]
  by (auto simp: bitmap_setmulti_def bitmap_set_loop min_def split: if_splits)

lemma window_below:
  fixes idx j sz :: u32
  assumes "idx \<le> sz" and "j < sz"
  shows "unat (j - idx) < min (unat (sz - idx)) c \<longleftrightarrow> idx \<le> j \<and> unat j < unat idx + c"
proof (cases "idx \<le> j")
  case True
  then have "unat (j - idx) = unat j - unat idx" by (rule unat_sub)
  moreover have "unat (sz - idx) = unat sz - unat idx" using assms(1) by (rule unat_sub)
  ultimately show ?thesis
    using True assms by (auto simp: word_less_nat_alt word_le_nat_alt)
next
  case False
  then have "unat (j - idx) = unat j + 2 ^ LENGTH(32) - unat idx"
    by (simp add: unat_sub_if' word_le_nat_alt)
  moreover have "unat (sz - idx) = unat sz - unat idx" using assms(1) by (rule unat_sub)
  ultimately show ?thesis
    using False assms unat_u32_bound[of sz] by (auto simp: word_less_nat_alt word_le_nat_alt)
qed

text \<open>
  \<open>bitmap_setmulti\<close> sets the bits of the range, clipped to the bitmap, to the low bit of \<open>v\<close>, and leaves
  every other bit alone.
\<close>

lemma bitmap_test_setmulti:
  assumes "bitmap_wf bm" and "idx \<le> bsize bm"
  shows "bitmap_test (bitmap_setmulti bm v idx c) j =
    (if j < bsize bm \<and> idx \<le> j \<and> unat j < unat idx + unat c then odd v else bitmap_test bm j)"
proof -
  let ?n = "min (unat (bsize bm - idx)) (unat c)"
  have n: "?n \<le> 4294967296" using unat_u32_bound[of c] by simp
  have out: "\<not> bitmap_test bm j" if "\<not> j < bsize bm" using that bitmap_test_in_bounds by blast
  show ?thesis
    using bm.mark_window[OF assms(1) n, of idx] bm.reset_window[OF assms(1) n, of idx]
      window_below[OF assms(2), of j "unat c"] out
    by (auto simp: bitmap_setmulti_def bitmap_set_loop)
qed

section \<open>Scanning\<close>

definition bit_matches :: "bitmap \<Rightarrow> size_t \<Rightarrow> cbool \<Rightarrow> nat \<Rightarrow> bool" where
  "bit_matches bm s v k \<longleftrightarrow> of_bool (bitmap_test bm (s + of_nat k)) = v"

text \<open>\<open>bit_run bm s n v r\<close>: the \<open>n\<close> positions from \<open>r\<close> on, counted from \<open>s\<close>, all hold \<open>v\<close>.\<close>

definition bit_run :: "bitmap \<Rightarrow> size_t \<Rightarrow> nat \<Rightarrow> cbool \<Rightarrow> nat \<Rightarrow> bool" where
  "bit_run bm s n v r \<longleftrightarrow> r + n \<le> unat (bsize bm) \<and> (\<forall>k < n. bit_matches bm s v (r + k))"

text \<open>The loop invariant: the current run is maximal to the left and no earlier run is long enough.\<close>

definition scan_inv :: "bitmap \<Rightarrow> size_t \<Rightarrow> nat \<Rightarrow> cbool \<Rightarrow> nat \<Rightarrow> nat \<Rightarrow> nat \<Rightarrow> bool" where
  "scan_inv bm s n v i r rc \<longleftrightarrow>
     rc < n \<and> rc \<le> i \<and> (0 < rc \<longrightarrow> r + rc = i) \<and>
     (\<forall>k. i - rc \<le> k \<and> k < i \<longrightarrow> bit_matches bm s v k) \<and>
     (rc < i \<longrightarrow> \<not> bit_matches bm s v (i - rc - 1)) \<and>
     (\<forall>q. q + n \<le> i \<longrightarrow> \<not> bit_run bm s n v q)"

lemma scan_inv_miss:
  assumes "scan_inv bm s n v i r rc" and "\<not> bit_matches bm s v i"
  shows "scan_inv bm s n v (Suc i) r' 0"
proof -
  have "\<not> bit_run bm s n v q" if "q + n = Suc i" for q
  proof
    assume "bit_run bm s n v q"
    moreover have "0 < n" using assms(1) by (auto simp: scan_inv_def)
    ultimately have "bit_matches bm s v (q + (n - 1))"
      unfolding bit_run_def by (metis diff_less zero_less_one)
    moreover have "q + (n - 1) = i" using that \<open>0 < n\<close> by simp
    ultimately show False using assms(2) by simp
  qed
  then show ?thesis
    using assms by (auto simp: scan_inv_def le_Suc_eq)
qed

lemma scan_inv_hit:
  assumes inv: "scan_inv bm s n v i r rc" and m: "bit_matches bm s v i" and "Suc rc < n"
  shows "scan_inv bm s n v (Suc i) (if rc = 0 then i else r) (Suc rc)"
proof -
  have "\<not> bit_run bm s n v q" if q: "q + n = Suc i" for q
  proof
    assume run: "bit_run bm s n v q"
    have "rc < i" and "q \<le> i - rc - 1" and "i - rc - 1 < q + n" using q assms(3) by auto
    then have "bit_matches bm s v (i - rc - 1)"
      using run unfolding bit_run_def by (metis le_add_diff_inverse less_diff_conv2 nat_add_left_cancel_less)
    with inv \<open>rc < i\<close> show False by (simp add: scan_inv_def)
  qed
  moreover have "bit_matches bm s v k" if "Suc i - Suc rc \<le> k" "k < Suc i" for k
    using that inv m by (cases "k = i") (auto simp: scan_inv_def)
  ultimately show ?thesis
    using inv assms(3) by (auto simp: scan_inv_def le_Suc_eq)
qed

lemma scan_inv_found:
  assumes inv: "scan_inv bm s n v i r rc" and m: "bit_matches bm s v i" and "Suc rc = n"
    and "i < unat (bsize bm)"
  shows "bit_run bm s n v (i - rc)" and "\<And>q. bit_run bm s n v q \<Longrightarrow> i - rc \<le> q"
proof -
  have "bit_matches bm s v (i - rc + k)" if "k < n" for k
    using that inv m assms(3) by (cases "i - rc + k = i") (auto simp: scan_inv_def)
  then show "bit_run bm s n v (i - rc)"
    using inv assms(3,4) by (auto simp: bit_run_def scan_inv_def)
  show "i - rc \<le> q" if "bit_run bm s n v q" for q
    using that inv assms(3) by (force simp: scan_inv_def)
qed

definition scan_result :: "bitmap \<Rightarrow> size_t \<Rightarrow> nat \<Rightarrow> cbool \<Rightarrow> u32 \<Rightarrow> bool" where
  "scan_result bm s n v res \<longleftrightarrow>
     (if \<exists>q. bit_run bm s n v q
      then bit_run bm s n v (unat res) \<and> (\<forall>q. bit_run bm s n v q \<longrightarrow> unat res \<le> q)
      else res = - 1)"

lemma bitmap_scan_loop_result:
  "scan_inv bm s (unat n) v (unat i) (unat r) (unat rc) \<Longrightarrow>
   scan_result bm s (unat n) v (bitmap_scan_loop bm s n v i r rc)"
proof (induction bm s n v i r rc rule: bitmap_scan_loop.induct)
  case (1 bm s n v i r rc)
  let ?P = "bit_matches bm s v (unat i)"
  show ?case
  proof (cases "i < bsize bm")
    case False
    then have le: "unat (bsize bm) \<le> unat i" by (simp add: word_less_nat_alt)
    have "\<not> bit_run bm s (unat n) v q" for q
    proof (cases "q + unat n \<le> unat i")
      case True
      with "1.prems" show ?thesis unfolding scan_inv_def by blast
    next
      case False
      with le show ?thesis by (simp add: bit_run_def)
    qed
    with False show ?thesis
      by (simp add: bitmap_scan_loop.simps[of bm s n v i] scan_result_def EBITMAP_def)
  next
    case True
    have i1: "unat (i + 1) = Suc (unat i)" using True by (rule unat_inc)
    have "rc < n" using "1.prems" by (simp add: scan_inv_def word_less_nat_alt)
    then have rc1: "unat (rc + 1) = Suc (unat rc)" by (rule unat_inc)
    show ?thesis
    proof (cases ?P)
      case False
      then have "scan_inv bm s (unat n) v (unat (i + 1)) (unat r) (unat (0 :: u32))"
        using scan_inv_miss[OF "1.prems"] i1 by simp
      with False True "1.IH"(1) show ?thesis
        by (simp add: bitmap_scan_loop.simps[of bm s n v i] bit_matches_def)
    next
      case P: True
      let ?r = "if rc = 0 then i else r"
      have ur: "unat ?r = (if unat rc = 0 then unat i else unat r)" by (simp add: unat_eq_0)
      show ?thesis
      proof (cases "rc + 1 = n")
        case eq: True
        then have n: "Suc (unat rc) = unat n" using rc1 by simp
        have "unat ?r = unat i - unat rc"
          using "1.prems" ur by (auto simp: scan_inv_def)
        then have "scan_result bm s (unat n) v ?r"
          using scan_inv_found[OF "1.prems" P n] True
          by (auto simp: scan_result_def word_less_nat_alt)
        with eq True P show ?thesis
          by (simp add: bitmap_scan_loop.simps[of bm s n v i] bit_matches_def Let_def)
      next
        case neq: False
        then have "Suc (unat rc) < unat n"
          using \<open>rc < n\<close> rc1 by (metis Suc_lessI word_less_nat_alt word_unat_eq_iff)
        then have "scan_inv bm s (unat n) v (unat (i + 1)) (unat ?r) (unat (rc + 1))"
          using scan_inv_hit[OF "1.prems" P] i1 rc1 ur by simp
        with neq True P "1.IH"(2)[OF True _ refl refl] show ?thesis
          by (simp add: bitmap_scan_loop.simps[of bm s n v i] bit_matches_def Let_def)
      qed
    qed
  qed
qed

lemma bitmap_scan_result:
  assumes "n \<noteq> 0"
  shows "scan_result bm s (unat n) v (bitmap_scan bm s n v)"
  unfolding bitmap_scan_def
  by (rule bitmap_scan_loop_result)
    (use assms in \<open>auto simp: scan_inv_def unat_gt_0 unat_eq_0\<close>)

text \<open>\<open>bitmap_scan\<close> returns the start of the first run of \<open>n\<close> matching bits (counted from \<open>s\<close>) when
  one exists, and \<open>-EBITMAP\<close> otherwise.\<close>

lemma bitmap_scan_first_run:
  assumes "n \<noteq> 0"
  shows "scan_result bm s (unat n) v (bitmap_scan bm s n v)"
  using assms by (rule bitmap_scan_result)

lemma bitmap_scan_first_run_example:
  "scan_result \<lparr>bits = [0xF3], bsize = 8\<rparr> 0 2 0 (bitmap_scan \<lparr>bits = [0xF3], bsize = 8\<rparr> 0 2 0)"
  using bitmap_scan_first_run[of 2 "\<lparr>bits = [0xF3], bsize = 8\<rparr>" 0 0] by simp

section \<open>Scan and flip\<close>

lemma bitmap_scan_flip_unfold:
  "bitmap_scan_flip bm s n v =
     (bitmap_scan bm s n v,
      for_upto (unat n) (\<lambda>i b. bitmap_flip b (bitmap_scan bm s n v + of_nat i)) bm)"
  by (simp add: bitmap_scan_flip_def Let_def)

lemma bitmap_scan_flip_wf:
  assumes "bitmap_wf bm"
  shows "bitmap_wf (snd (bitmap_scan_flip bm s n v))"
    and "bsize (snd (bitmap_scan_flip bm s n v)) = bsize bm"
  using bm.flip_window[OF assms, of "unat n" "bitmap_scan bm s n v"] unat_u32_bound[of n]
  by (simp_all add: bitmap_scan_flip_unfold)

lemma bitmap_scan_flip_test:
  assumes "bitmap_wf bm"
  shows "bitmap_test (snd (bitmap_scan_flip bm s n v)) j =
    (if unat (j - bitmap_scan bm s n v) < unat n \<and> j < bsize bm
     then \<not> bitmap_test bm j else bitmap_test bm j)"
  using bm.flip_window[OF assms, of "unat n" "bitmap_scan bm s n v"] unat_u32_bound[of n]
  by (simp add: bitmap_scan_flip_unfold)

lemma window_no_wrap:
  fixes r j :: u32
  assumes "unat r + n \<le> 4294967296"
  shows "unat (j - r) < n \<longleftrightarrow> r \<le> j \<and> unat j < unat r + n"
proof (cases "r \<le> j")
  case True
  then show ?thesis by (auto simp: unat_sub word_le_nat_alt)
next
  case False
  then have "unat (j - r) = unat j + 2 ^ LENGTH(32) - unat r"
    by (simp add: unat_sub_if' word_le_nat_alt)
  then show ?thesis using False assms by (auto simp: word_le_nat_alt)
qed

text \<open>When a run of \<open>n\<close> equal bits exists, \<open>bitmap_scan_flip\<close> from index 0 finds the first one and
  inverts exactly that run.\<close>

lemma bitmap_scan_flip_success:
  assumes "bitmap_wf bm" and "n \<noteq> 0" and "bit_run bm 0 (unat n) v q"
    and "bitmap_scan_flip bm 0 n v = (idx, bm')"
  shows "bit_run bm 0 (unat n) v (unat idx) \<and> unat idx \<le> q \<and> bitmap_wf bm' \<and>
    (\<forall>j. bitmap_test bm' j =
       (if idx \<le> j \<and> unat j < unat idx + unat n then \<not> bitmap_test bm j else bitmap_test bm j))"
proof -
  have idx: "idx = bitmap_scan bm 0 n v" using assms(4) by (simp add: bitmap_scan_flip_unfold)
  have bm': "bm' = snd (bitmap_scan_flip bm 0 n v)" using assms(4) by simp
  have run: "bit_run bm 0 (unat n) v (unat idx)" "unat idx \<le> q"
    using bitmap_scan_result[OF assms(2), of bm 0 v] assms(3)
    by (auto simp: scan_result_def idx split: if_splits)
  then have le: "unat idx + unat n \<le> unat (bsize bm)" by (simp add: bit_run_def)
  then have "unat idx + unat n \<le> 4294967296" using unat_u32_bound[of "bsize bm"] by simp
  then have win: "unat (j - idx) < unat n \<longleftrightarrow> idx \<le> j \<and> unat j < unat idx + unat n" for j
    by (rule window_no_wrap)
  have "bitmap_test bm' j =
      (if idx \<le> j \<and> unat j < unat idx + unat n then \<not> bitmap_test bm j else bitmap_test bm j)" for j
    using bitmap_scan_flip_test[OF assms(1), of 0 n v j] le
    by (auto simp: bm' win word_less_nat_alt simp flip: idx)
  with run bitmap_scan_flip_wf(1)[OF assms(1)] show ?thesis by (simp add: bm')
qed

lemma bitmap_scan_flip_failure:
  assumes "bitmap_wf bm" and "n \<noteq> 0" and "\<not> (\<exists>q. bit_run bm 0 (unat n) v q)"
    and "bitmap_scan_flip bm 0 n v = (idx, bm')"
  shows "idx = - EBITMAP \<and>
    (\<forall>j. bitmap_test bm' j =
       (if j < bsize bm \<and> unat j + 1 < unat n then \<not> bitmap_test bm j else bitmap_test bm j))"
proof -
  have idx: "bitmap_scan bm 0 n v = - 1"
    using bitmap_scan_result[OF assms(2), of bm 0 v] assms(3) by (auto simp: scan_result_def)
  have bm': "bm' = snd (bitmap_scan_flip bm 0 n v)" using assms(4) by simp
  have "bitmap_test bm' j =
      (if j < bsize bm \<and> unat j + 1 < unat n then \<not> bitmap_test bm j else bitmap_test bm j)" for j
    using bitmap_scan_flip_test[OF assms(1), of 0 n v j] unat_inc[of j "bsize bm"]
    by (cases "j < bsize bm") (simp_all add: bm' idx)
  then show ?thesis using assms(4) idx by (simp add: bitmap_scan_flip_unfold EBITMAP_def)
qed

text \<open>When no such run exists the guard \<open>idx < 0\<close> does not fire, because \<open>idx\<close> is unsigned:
  \<open>bitmap_scan_flip\<close> returns \<open>-EBITMAP\<close> and still inverts the first \<open>n - 1\<close> bits of the bitmap.\<close>

lemma bitmap_scan_flip_failure_corrupts:
  assumes "bitmap_wf bm" and "n \<noteq> 0" and "\<not> (\<exists>q. bit_run bm 0 (unat n) v q)"
    and "bitmap_scan_flip bm 0 n v = (idx, bm')"
  shows "idx = - EBITMAP \<and>
    (\<forall>j. bitmap_test bm' j =
       (if j < bsize bm \<and> unat j + 1 < unat n then \<not> bitmap_test bm j else bitmap_test bm j))"
  by (rule bitmap_scan_flip_failure[OF assms])

lemma bitmap_scan_flip_failure_corrupts_example:
  "\<not> bitmap_test \<lparr>bits = [0x07], bsize = 4\<rparr> 3 \<and> bitmap_test \<lparr>bits = [0x07], bsize = 4\<rparr> 0 \<and>
   \<not> bitmap_test (snd (bitmap_scan_flip \<lparr>bits = [0x07], bsize = 4\<rparr> 0 2 0)) 0"
proof -
  let ?bm = "\<lparr>bits = [0x07], bsize = 4\<rparr> :: bitmap"
  have "\<not> bit_run ?bm 0 (unat (2 :: u32)) 0 q" for q
  proof
    assume run: "bit_run ?bm 0 (unat (2 :: u32)) 0 q"
    then have "q = 0 \<or> q = 1 \<or> q = 2" and "bit_matches ?bm 0 0 q"
      by (auto simp: bit_run_def dest: spec[of _ 0])
    then show False
      by (auto simp: bit_matches_def bitmap_test_def bitmap_in_bounds_def bitmap_index_defs)
  qed
  then show ?thesis
    using bitmap_scan_flip_failure_corrupts[of ?bm 2 0 "fst (bitmap_scan_flip ?bm 0 2 0)"
        "snd (bitmap_scan_flip ?bm 0 2 0)"]
    by (simp add: bitmap_wf_def bitmap_byte_size_def bitmap_index_defs bitmap_test_def
        bitmap_in_bounds_def)
qed

end
