(* ===== verification/Linked_List.thy ===== *)
theory Linked_List
  imports Prelude
begin

text \<open>
  The intrusive doubly linked list (\<^verbatim>\<open>lib/list.c\<close>, \<^verbatim>\<open>include/depthos/list.h\<close>) that the scheduler, the
  signal queues, the address spaces, the pipes and the sockets use.

  The entries live in an explicit store, a partial map from addresses to entries, because the
  operations mutate entries that several pointers share. Every operation returns an option: \<open>None\<close> is
  a dereference of \<open>NULL\<close> or of an address that holds no entry (and, for the traversals, a loop that
  does not end). \<open>dll h l xs\<close> says that the list header \<open>l\<close> and the store \<open>h\<close> represent the sequence of
  entries \<open>xs\<close>; each operation is proved to return and to implement the sequence operation.
\<close>

section \<open>Entries, headers and the store\<close>

record list_entry =
  le_value :: u64
  le_next :: ptr
  le_prev :: ptr

record clist =
  l_first :: ptr
  l_last :: ptr
  l_length :: size_t

type_synonym store = "ptr \<rightharpoonup> list_entry"

definition deref :: "store \<Rightarrow> ptr \<Rightarrow> list_entry option" where
  "deref h p = (if p = NULL then None else h p)"

definition set_next :: "store \<Rightarrow> ptr \<Rightarrow> ptr \<Rightarrow> store option" where
  "set_next h p v = do { e \<leftarrow> deref h p; Some (h(p \<mapsto> e\<lparr>le_next := v\<rparr>)) }"

definition set_prev :: "store \<Rightarrow> ptr \<Rightarrow> ptr \<Rightarrow> store option" where
  "set_prev h p v = do { e \<leftarrow> deref h p; Some (h(p \<mapsto> e\<lparr>le_prev := v\<rparr>)) }"

section \<open>The operations\<close>

definition list_init :: clist where
  "list_init = \<lparr>l_first = NULL, l_last = NULL, l_length = 0\<rparr>"

definition list_insert :: "clist \<Rightarrow> ptr \<Rightarrow> ptr \<Rightarrow> ptr \<Rightarrow> store \<Rightarrow> (clist \<times> store) option" where
  "list_insert l prev next entry h =
     (if entry = NULL then Some (l, h)
      else do {
        h \<leftarrow> set_prev h entry prev;
        h \<leftarrow> set_next h entry next;
        (l, h) \<leftarrow> (if next \<noteq> NULL then do { h \<leftarrow> set_prev h next entry; Some (l, h) }
                   else Some (l\<lparr>l_last := entry\<rparr>, h));
        (l, h) \<leftarrow> (if prev \<noteq> NULL then do { h \<leftarrow> set_next h prev entry; Some (l, h) }
                   else Some (l\<lparr>l_first := entry\<rparr>, h));
        Some (l\<lparr>l_length := l_length l + 1\<rparr>, h)
      })"

text \<open>
  \<open>entry\<close> is the address that \<open>kmalloc\<close> returned. The result of \<open>kmalloc\<close> is not checked, so a failed
  allocation is a write through \<open>NULL\<close>. The pointer fields of the fresh entry are whatever the memory
  held; \<open>list_insert\<close> overwrites both before anything reads them.
\<close>

definition list_insert_value ::
  "clist \<Rightarrow> ptr \<Rightarrow> ptr \<Rightarrow> u64 \<Rightarrow> ptr \<Rightarrow> store \<Rightarrow> (clist \<times> store) option" where
  "list_insert_value l prev next value entry h =
     (if entry = NULL then None
      else list_insert l prev next entry
             (h(entry \<mapsto> \<lparr>le_value = value, le_next = NULL, le_prev = NULL\<rparr>)))"

definition list_remove :: "clist \<Rightarrow> ptr \<Rightarrow> store \<Rightarrow> (clist \<times> store) option" where
  "list_remove l entry h =
     (if entry = NULL then Some (l, h)
      else do {
        e \<leftarrow> deref h entry;
        (l, h) \<leftarrow>
          (if le_prev e = NULL then do {
             h \<leftarrow> (if le_next e \<noteq> NULL then set_prev h (le_next e) NULL else Some h);
             Some (l\<lparr>l_first := le_next e\<rparr>, h) }
           else do {
             h \<leftarrow> set_next h (le_prev e) (le_next e);
             e \<leftarrow> deref h entry;
             h \<leftarrow> (if le_next e \<noteq> NULL then set_prev h (le_next e) (le_prev e) else Some h);
             Some (l, h) });
        e \<leftarrow> deref h entry;
        Some ((if le_next e = NULL then l\<lparr>l_last := le_prev e\<rparr> else l)
                \<lparr>l_length := l_length l - 1\<rparr>, h)
      })"

definition list_push :: "clist \<Rightarrow> u64 \<Rightarrow> ptr \<Rightarrow> store \<Rightarrow> (clist \<times> store) option" where
  "list_push l value entry h = list_insert_value l (l_last l) NULL value entry h"

definition list_push_front :: "clist \<Rightarrow> u64 \<Rightarrow> ptr \<Rightarrow> store \<Rightarrow> (clist \<times> store) option" where
  "list_push_front l value entry h = list_insert_value l NULL (l_first l) value entry h"

definition list_pop :: "clist \<Rightarrow> store \<Rightarrow> (ptr \<times> clist \<times> store) option" where
  "list_pop l h =
     (if l_last l = NULL then Some (NULL, l, h)
      else do {
        (l', h') \<leftarrow> list_remove l (l_last l) h;
        Some (l_last l, l', h')
      })"

definition list_pop_front :: "clist \<Rightarrow> store \<Rightarrow> (ptr \<times> clist \<times> store) option" where
  "list_pop_front l h =
     (if l_first l = NULL then Some (NULL, l, h)
      else do {
        (l', h') \<leftarrow> list_remove l (l_first l) h;
        Some (l_first l, l', h')
      })"

text \<open>\<open>list_foreach\<close> loops of \<open>list_remove_index\<close> and \<open>list_insert_index\<close>, from the entry \<open>item\<close> on.\<close>

partial_function (option) remove_index_loop ::
  "clist \<Rightarrow> size_t \<Rightarrow> size_t \<Rightarrow> ptr \<Rightarrow> store \<Rightarrow> (ptr \<times> clist \<times> store) option" where
  "remove_index_loop l index i item h =
     (if item = NULL then Some (NULL, l, h)
      else if i = index then do { (l', h') \<leftarrow> list_remove l item h; Some (item, l', h') }
      else do { e \<leftarrow> deref h item; remove_index_loop l index (i + 1) (le_next e) h })"

definition list_remove_index :: "clist \<Rightarrow> size_t \<Rightarrow> store \<Rightarrow> (ptr \<times> clist \<times> store) option" where
  "list_remove_index l index h = remove_index_loop l index 0 (l_first l) h"

text \<open>The counter \<open>i\<close> of \<open>list_insert_index\<close> is never incremented.\<close>

partial_function (option) insert_index_loop ::
  "clist \<Rightarrow> size_t \<Rightarrow> u64 \<Rightarrow> ptr \<Rightarrow> size_t \<Rightarrow> ptr \<Rightarrow> store \<Rightarrow> (ptr \<times> clist \<times> store) option" where
  "insert_index_loop l index value entry i item h =
     (if item = NULL then Some (NULL, l, h)
      else do {
        e \<leftarrow> deref h item;
        if i = index then do {
          (l', h') \<leftarrow> list_insert_value l item (le_next e) value entry h;
          Some (item, l', h') }
        else insert_index_loop l index value entry i (le_next e) h
      })"

definition list_insert_index ::
  "clist \<Rightarrow> size_t \<Rightarrow> u64 \<Rightarrow> ptr \<Rightarrow> store \<Rightarrow> (ptr \<times> clist \<times> store) option" where
  "list_insert_index l index value entry h = insert_index_loop l index value entry 0 (l_first l) h"

section \<open>Representation of a sequence\<close>

named_theorems dll_simps "segments of the doubly linked list"

definition first_of :: "ptr list \<Rightarrow> ptr \<Rightarrow> ptr" where
  "first_of xs d = (case xs of [] \<Rightarrow> d | x # _ \<Rightarrow> x)"

definition last_of :: "ptr list \<Rightarrow> ptr \<Rightarrow> ptr" where
  "last_of xs d = (if xs = [] then d else last xs)"

fun dll_seg :: "store \<Rightarrow> ptr \<Rightarrow> ptr list \<Rightarrow> ptr \<Rightarrow> bool" where
  "dll_seg h pv [] nx = True"
| "dll_seg h pv (x # xs) nx =
     (x \<noteq> NULL \<and>
      (case h x of None \<Rightarrow> False | Some e \<Rightarrow> le_prev e = pv \<and> le_next e = first_of xs nx) \<and>
      dll_seg h x xs nx)"

definition dll :: "store \<Rightarrow> clist \<Rightarrow> ptr list \<Rightarrow> bool" where
  "dll h l xs \<longleftrightarrow> dll_seg h NULL xs NULL \<and> distinct xs \<and>
     l_first l = first_of xs NULL \<and> l_last l = last_of xs NULL \<and> l_length l = of_nat (length xs)"

definition entry_value :: "store \<Rightarrow> ptr \<Rightarrow> u64" where
  "entry_value h p = (case h p of None \<Rightarrow> 0 | Some e \<Rightarrow> le_value e)"

lemma first_of_simps [simp]:
  "first_of [] d = d" "first_of (x # xs) d = x" "first_of (xs @ ys) d = first_of xs (first_of ys d)"
  by (auto simp: first_of_def split: list.splits)

lemma last_of_simps [simp]:
  "last_of [] d = d" "last_of (xs @ [y]) d = y" "last_of (x # xs) d = last_of xs x"
  "last_of (xs @ ys) d = last_of ys (last_of xs d)"
  by (auto simp: last_of_def)

lemma dll_seg_append [dll_simps]:
  "dll_seg h pv (xs @ ys) nx \<longleftrightarrow>
     dll_seg h pv xs (first_of ys nx) \<and> dll_seg h (last_of xs pv) ys nx"
  by (induction xs arbitrary: pv) (auto split: option.splits)

lemma dll_seg_frame:
  "(\<And>p. p \<in> set xs \<Longrightarrow> h' p = h p) \<Longrightarrow> dll_seg h' pv xs nx = dll_seg h pv xs nx"
  by (induction xs arbitrary: pv) auto

lemma dll_seg_upd [simp]: "p \<notin> set xs \<Longrightarrow> dll_seg (h(p \<mapsto> e)) pv xs nx = dll_seg h pv xs nx"
  by (rule dll_seg_frame) auto

lemma dll_seg_in_store: "dll_seg h pv xs nx \<Longrightarrow> p \<in> set xs \<Longrightarrow> p \<noteq> NULL \<and> (\<exists>e. h p = Some e)"
  by (induction xs arbitrary: pv) (auto split: option.splits)

lemma deref_Some: "deref h p = Some e \<longleftrightarrow> p \<noteq> NULL \<and> h p = Some e"
  by (simp add: deref_def)

lemma dll_empty [simp]: "dll h list_init []"
  by (simp add: dll_def list_init_def)

lemma dll_first_null: "dll h l xs \<Longrightarrow> l_first l = NULL \<longleftrightarrow> xs = []"
  by (cases xs) (auto simp: dll_def)

lemma dll_last_null: "dll h l xs \<Longrightarrow> l_last l = NULL \<longleftrightarrow> xs = []"
  by (cases xs rule: rev_cases) (auto simp: dll_def dll_simps)

section \<open>Insertion and removal implement the sequence operations\<close>

text \<open>
  \<open>list_frame S h h'\<close>: only entries in \<open>S\<close> changed, and no entry changed its value or appeared or
  vanished.
\<close>

definition list_frame :: "ptr set \<Rightarrow> store \<Rightarrow> store \<Rightarrow> bool" where
  "list_frame S h h' \<longleftrightarrow>
     (\<forall>p. p \<notin> S \<longrightarrow> h' p = h p) \<and> dom h' = dom h \<and> (\<forall>p. entry_value h' p = entry_value h p)"

lemma list_frame_refl [simp]: "list_frame S h h"
  by (simp add: list_frame_def)

lemma list_frame_upd:
  "list_frame S h h' \<Longrightarrow> p \<in> S \<Longrightarrow> h' p = Some e \<Longrightarrow> le_value e' = le_value e \<Longrightarrow>
   list_frame S h (h'(p \<mapsto> e'))"
  by (auto simp: list_frame_def entry_value_def dom_def split: option.splits)
    (metis option.distinct(1))+

lemmas dll_exec = set_prev_def set_next_def deref_def dll_simps

lemma list_insert_dll:
  assumes "dll h l (xs @ ys)" and "entry \<notin> set (xs @ ys)" and "entry \<noteq> NULL" and "h entry = Some e"
  shows "\<exists>l' h'. list_insert l (last_of xs NULL) (first_of ys NULL) entry h = Some (l', h') \<and>
    dll h' l' (xs @ entry # ys) \<and> list_frame (insert entry (set (xs @ ys))) h h'"
proof (cases xs rule: rev_cases; cases ys)
  assume [simp]: "xs = []" "ys = []"
  show ?thesis
    using assms by (auto simp: list_insert_def dll_def dll_exec intro!: list_frame_upd)
next
  fix b ys' assume [simp]: "xs = []" "ys = b # ys'"
  obtain eb where st: "h b = Some eb" "b \<noteq> NULL"
    using assms(1) by (auto simp: dll_def split: option.splits)
  show ?thesis
    using assms st by (auto simp: list_insert_def dll_def dll_exec intro!: list_frame_upd)
next
  fix a xs' assume [simp]: "xs = xs' @ [a]" "ys = []"
  obtain ea where st: "h a = Some ea" "a \<noteq> NULL"
    using assms(1) by (auto simp: dll_def dll_simps split: option.splits)
  show ?thesis
    using assms st by (auto simp: list_insert_def dll_def dll_exec intro!: list_frame_upd)
next
  fix a xs' b ys' assume [simp]: "xs = xs' @ [a]" "ys = b # ys'"
  obtain ea eb where st: "h a = Some ea" "a \<noteq> NULL" "h b = Some eb" "b \<noteq> NULL"
    using assms(1) by (auto simp: dll_def dll_simps split: option.splits)
  show ?thesis
    using assms st by (auto simp: list_insert_def dll_def dll_exec intro!: list_frame_upd)
qed

lemma list_remove_dll:
  assumes "dll h l (xs @ x # ys)"
  shows "\<exists>l' h'. list_remove l x h = Some (l', h') \<and>
    dll h' l' (xs @ ys) \<and> list_frame (set (xs @ ys)) h h'"
proof (cases xs rule: rev_cases; cases ys)
  assume [simp]: "xs = []" "ys = []"
  obtain e where st: "h x = Some e" "x \<noteq> NULL"
    using assms(1) by (auto simp: dll_def split: option.splits)
  show ?thesis
    using assms st by (auto simp: list_remove_def dll_def dll_exec)
next
  fix b ys' assume [simp]: "xs = []" "ys = b # ys'"
  obtain e eb where st: "h x = Some e" "x \<noteq> NULL" "h b = Some eb" "b \<noteq> NULL"
    using assms(1) by (auto simp: dll_def split: option.splits)
  show ?thesis
    using assms st by (auto simp: list_remove_def dll_def dll_exec intro!: list_frame_upd)
next
  fix a xs' assume [simp]: "xs = xs' @ [a]" "ys = []"
  obtain e ea where st: "h x = Some e" "x \<noteq> NULL" "h a = Some ea" "a \<noteq> NULL"
    using assms(1) by (auto simp: dll_def dll_simps split: option.splits)
  show ?thesis
    using assms st by (auto simp: list_remove_def dll_def dll_exec intro!: list_frame_upd)
next
  fix a xs' b ys' assume [simp]: "xs = xs' @ [a]" "ys = b # ys'"
  obtain e ea eb where st: "h x = Some e" "x \<noteq> NULL" "h a = Some ea" "a \<noteq> NULL"
      "h b = Some eb" "b \<noteq> NULL"
    using assms(1) by (auto simp: dll_def dll_simps split: option.splits)
  show ?thesis
    using assms st by (auto simp: list_remove_def dll_def dll_exec intro!: list_frame_upd)
qed

lemma dll_fresh_entry: "dll h l xs \<Longrightarrow> p \<notin> set xs \<Longrightarrow> dll (h(p \<mapsto> e)) l xs"
  by (simp add: dll_def)

lemma list_insert_value_dll:
  assumes "dll h l (xs @ ys)" and "p \<notin> set (xs @ ys)" and "p \<noteq> NULL"
  shows "\<exists>l' h'. list_insert_value l (last_of xs NULL) (first_of ys NULL) v p h = Some (l', h') \<and>
    dll h' l' (xs @ p # ys) \<and> entry_value h' p = v \<and>
    (\<forall>q. q \<noteq> p \<longrightarrow> entry_value h' q = entry_value h q) \<and>
    (\<forall>q. q \<notin> insert p (set (xs @ ys)) \<longrightarrow> h' q = h q)"
proof -
  let ?h = "h(p \<mapsto> \<lparr>le_value = v, le_next = NULL, le_prev = NULL\<rparr>)"
  have "dll ?h l (xs @ ys)" using assms(1,2) by (rule dll_fresh_entry)
  then obtain l' h' where "list_insert l (last_of xs NULL) (first_of ys NULL) p ?h = Some (l', h')"
      and "dll h' l' (xs @ p # ys)" and "list_frame (insert p (set (xs @ ys))) ?h h'"
    using list_insert_dll[of ?h l xs ys p] assms(2,3) by auto
  with assms(3) show ?thesis
    by (auto simp: list_insert_value_def list_frame_def entry_value_def)
qed

lemma list_push_dll:
  assumes "dll h l xs" and "p \<notin> set xs" and "p \<noteq> NULL"
  shows "\<exists>l' h'. list_push l v p h = Some (l', h') \<and> dll h' l' (xs @ [p]) \<and>
    (\<forall>q. entry_value h' q = (if q = p then v else entry_value h q)) \<and>
    (\<forall>q. q \<notin> insert p (set xs) \<longrightarrow> h' q = h q)"
proof -
  have "l_last l = last_of xs NULL" using assms(1) by (simp add: dll_def)
  then show ?thesis
    using list_insert_value_dll[of h l xs "[]" p v] assms by (auto simp: list_push_def)
qed

lemma list_push_front_dll:
  assumes "dll h l xs" and "p \<notin> set xs" and "p \<noteq> NULL"
  shows "\<exists>l' h'. list_push_front l v p h = Some (l', h') \<and> dll h' l' (p # xs) \<and>
    (\<forall>q. entry_value h' q = (if q = p then v else entry_value h q)) \<and>
    (\<forall>q. q \<notin> insert p (set xs) \<longrightarrow> h' q = h q)"
proof -
  have "l_first l = first_of xs NULL" using assms(1) by (simp add: dll_def)
  then show ?thesis
    using list_insert_value_dll[of h l "[]" xs p v] assms by (auto simp: list_push_front_def)
qed

lemma list_pop_front_dll:
  assumes "dll h l (x # xs)"
  shows "\<exists>l' h'. list_pop_front l h = Some (x, l', h') \<and> dll h' l' xs \<and> list_frame (set xs) h h'"
proof -
  have "l_first l = x" and "x \<noteq> NULL" using assms by (auto simp: dll_def)
  then show ?thesis
    using list_remove_dll[of h l "[]" x xs] assms by (auto simp: list_pop_front_def)
qed

lemma list_pop_dll:
  assumes "dll h l (xs @ [x])"
  shows "\<exists>l' h'. list_pop l h = Some (x, l', h') \<and> dll h' l' xs \<and> list_frame (set xs) h h'"
proof -
  have "l_last l = x" and "x \<noteq> NULL" using assms by (auto simp: dll_def dll_simps)
  then show ?thesis
    using list_remove_dll[of h l xs x "[]"] assms by (auto simp: list_pop_def)
qed

lemma list_pop_empty:
  assumes "dll h l []"
  shows "list_pop l h = Some (NULL, l, h)" and "list_pop_front l h = Some (NULL, l, h)"
  using assms by (auto simp: list_pop_def list_pop_front_def dll_def)

section \<open>The contract of a double-ended queue of entries\<close>

text \<open>
  The sequences of operations a client performs: \<open>run_push\<close> pushes values at given entry addresses,
  \<open>run_pop\<close> takes \<open>n\<close> entries off.
\<close>

primrec run_push ::
  "('l \<Rightarrow> u64 \<Rightarrow> ptr \<Rightarrow> 'h \<Rightarrow> ('l \<times> 'h) option) \<Rightarrow> (u64 \<times> ptr) list \<Rightarrow> 'l \<Rightarrow> 'h \<Rightarrow> ('l \<times> 'h) option"
  where
  "run_push push [] l h = Some (l, h)"
| "run_push push (vp # vps) l h = do { (l, h) \<leftarrow> push l (fst vp) (snd vp) h; run_push push vps l h }"

primrec run_pop ::
  "('l \<Rightarrow> 'h \<Rightarrow> (ptr \<times> 'l \<times> 'h) option) \<Rightarrow> nat \<Rightarrow> 'l \<Rightarrow> 'h \<Rightarrow> (ptr list \<times> 'l \<times> 'h) option" where
  "run_pop pop 0 l h = Some ([], l, h)"
| "run_pop pop (Suc n) l h = do {
     (p, l, h) \<leftarrow> pop l h;
     (ps, l, h) \<leftarrow> run_pop pop n l h;
     Some (p # ps, l, h) }"

locale entry_deque =
  fixes rep :: "'h \<Rightarrow> 'l \<Rightarrow> ptr list \<Rightarrow> bool"
    and val :: "'h \<Rightarrow> ptr \<Rightarrow> u64"
    and push :: "'l \<Rightarrow> u64 \<Rightarrow> ptr \<Rightarrow> 'h \<Rightarrow> ('l \<times> 'h) option"
    and push_front :: "'l \<Rightarrow> u64 \<Rightarrow> ptr \<Rightarrow> 'h \<Rightarrow> ('l \<times> 'h) option"
    and pop :: "'l \<Rightarrow> 'h \<Rightarrow> (ptr \<times> 'l \<times> 'h) option"
    and pop_front :: "'l \<Rightarrow> 'h \<Rightarrow> (ptr \<times> 'l \<times> 'h) option"
  assumes push_rep: "rep h l xs \<Longrightarrow> p \<notin> set xs \<Longrightarrow> p \<noteq> NULL \<Longrightarrow>
      \<exists>l' h'. push l v p h = Some (l', h') \<and> rep h' l' (xs @ [p]) \<and>
        (\<forall>q. val h' q = (if q = p then v else val h q))"
    and push_front_rep: "rep h l xs \<Longrightarrow> p \<notin> set xs \<Longrightarrow> p \<noteq> NULL \<Longrightarrow>
      \<exists>l' h'. push_front l v p h = Some (l', h') \<and> rep h' l' (p # xs) \<and>
        (\<forall>q. val h' q = (if q = p then v else val h q))"
    and pop_rep: "rep h l (xs @ [x]) \<Longrightarrow>
      \<exists>l' h'. pop l h = Some (x, l', h') \<and> rep h' l' xs \<and> (\<forall>q. val h' q = val h q)"
    and pop_front_rep: "rep h l (x # xs) \<Longrightarrow>
      \<exists>l' h'. pop_front l h = Some (x, l', h') \<and> rep h' l' xs \<and> (\<forall>q. val h' q = val h q)"
begin

lemma run_push_rep:
  "rep h l xs \<Longrightarrow> distinct (map snd vps) \<Longrightarrow> set (map snd vps) \<inter> set xs = {} \<Longrightarrow>
   NULL \<notin> set (map snd vps) \<Longrightarrow>
   \<exists>l' h'. run_push push vps l h = Some (l', h') \<and> rep h' l' (xs @ map snd vps) \<and>
     (\<forall>vp \<in> set vps. val h' (snd vp) = fst vp) \<and>
     (\<forall>q. q \<notin> set (map snd vps) \<longrightarrow> val h' q = val h q)"
proof (induction vps arbitrary: h l xs)
  case Nil
  then show ?case by simp
next
  case (Cons vp vps)
  obtain v p where vp: "vp = (v, p)" by (cases vp)
  obtain l1 h1 where 1: "push l v p h = Some (l1, h1)" "rep h1 l1 (xs @ [p])"
      "\<forall>q. val h1 q = (if q = p then v else val h q)"
    using push_rep[OF Cons.prems(1), of p v] Cons.prems(3,4) by (auto simp: vp)
  obtain l2 h2 where 2: "run_push push vps l1 h1 = Some (l2, h2)"
      "rep h2 l2 ((xs @ [p]) @ map snd vps)" "\<forall>vp \<in> set vps. val h2 (snd vp) = fst vp"
      "\<forall>q. q \<notin> set (map snd vps) \<longrightarrow> val h2 q = val h1 q"
    using Cons.IH[OF 1(2)] Cons.prems(2-4) by (auto simp: vp)
  have "p \<notin> set (map snd vps)" using Cons.prems(2) by (simp add: vp)
  with 1 2 show ?case by (auto simp: vp)
qed

lemma run_pop_front_rep:
  "rep h l (xs @ ys) \<Longrightarrow>
   \<exists>l' h'. run_pop pop_front (length xs) l h = Some (xs, l', h') \<and> rep h' l' ys \<and>
     (\<forall>q. val h' q = val h q)"
proof (induction xs arbitrary: h l)
  case Nil
  then show ?case by simp
next
  case (Cons x xs)
  then obtain l1 h1 where 1: "pop_front l h = Some (x, l1, h1)" "rep h1 l1 (xs @ ys)"
      "\<forall>q. val h1 q = val h q"
    using pop_front_rep[of h l x "xs @ ys"] by auto
  from Cons.IH[OF this(2)] this show ?case by auto
qed

lemma fifo:
  assumes "rep h l []" and "distinct (map snd vps)" and "NULL \<notin> set (map snd vps)"
  shows "\<exists>l1 h1 l2 h2. run_push push vps l h = Some (l1, h1) \<and>
    run_pop pop_front (length vps) l1 h1 = Some (map snd vps, l2, h2) \<and> rep h2 l2 [] \<and>
    map (val h2) (map snd vps) = map fst vps"
proof -
  obtain l1 h1 where 1: "run_push push vps l h = Some (l1, h1)" "rep h1 l1 (map snd vps)"
      "\<forall>vp \<in> set vps. val h1 (snd vp) = fst vp"
    using run_push_rep[OF assms(1,2)] assms(3) by auto
  with run_pop_front_rep[of h1 l1 "map snd vps" "[]"] show ?thesis by auto
qed

end

interpretation ll: entry_deque dll entry_value list_push list_push_front list_pop list_pop_front
proof unfold_locales
  fix h :: store and l xs x p v
  show "p \<notin> set xs \<Longrightarrow> p \<noteq> NULL \<Longrightarrow> \<exists>l' h'. list_push l v p h = Some (l', h') \<and>
      dll h' l' (xs @ [p]) \<and> (\<forall>q. entry_value h' q = (if q = p then v else entry_value h q))"
    if "dll h l xs" using list_push_dll[OF that] by blast
  show "p \<notin> set xs \<Longrightarrow> p \<noteq> NULL \<Longrightarrow> \<exists>l' h'. list_push_front l v p h = Some (l', h') \<and>
      dll h' l' (p # xs) \<and> (\<forall>q. entry_value h' q = (if q = p then v else entry_value h q))"
    if "dll h l xs" using list_push_front_dll[OF that] by blast
  show "\<exists>l' h'. list_pop l h = Some (x, l', h') \<and> dll h' l' xs \<and>
      (\<forall>q. entry_value h' q = entry_value h q)"
    if "dll h l (xs @ [x])" using list_pop_dll[OF that] by (auto simp: list_frame_def)
  show "\<exists>l' h'. list_pop_front l h = Some (x, l', h') \<and> dll h' l' xs \<and>
      (\<forall>q. entry_value h' q = entry_value h q)"
    if "dll h l (x # xs)" using list_pop_front_dll[OF that] by (auto simp: list_frame_def)
qed

section \<open>Indexed access\<close>

lemma dll_length_bound:
  assumes "dll h l xs"
  shows "length xs < 4294967296"
proof -
  have "NULL \<notin> set xs" and "distinct xs"
    using assms dll_seg_in_store[of h NULL xs NULL NULL] by (auto simp: dll_def)
  then have "length xs = card (set xs)" and "set xs \<subset> UNIV"
    by (auto simp: distinct_card)
  then have "length xs < card (UNIV :: ptr set)" by (simp add: psubset_card_mono)
  then show ?thesis by (simp add: card_word)
qed

lemma remove_index_loop_dll:
  "dll h l (xs @ ys) \<Longrightarrow> k < length ys \<Longrightarrow>
   \<exists>l' h'. remove_index_loop l (of_nat (length xs + k)) (of_nat (length xs)) (first_of ys NULL) h =
       Some (ys ! k, l', h') \<and> dll h' l' (xs @ take k ys @ drop (Suc k) ys)"
proof (induction ys arbitrary: xs k)
  case Nil
  then show ?case by simp
next
  case (Cons y ys)
  obtain e where y: "y \<noteq> NULL" "h y = Some e" "le_next e = first_of ys NULL"
    using Cons.prems(1) by (auto simp: dll_def dll_simps split: option.splits)
  show ?case
  proof (cases k)
    case 0
    then show ?thesis
      using y list_remove_dll[OF Cons.prems(1)] by (subst remove_index_loop.simps) auto
  next
    case (Suc j)
    have "length xs + k < 4294967296"
      using dll_length_bound[OF Cons.prems(1)] Cons.prems(2) by simp
    then have "of_nat (length xs) \<noteq> (of_nat (length xs + k) :: size_t)"
      using of_nat_neq_u32[of "length xs" "length xs + k"] Suc by simp
    moreover have "\<exists>l' h'. remove_index_loop l (of_nat (length (xs @ [y]) + j))
        (of_nat (length (xs @ [y]))) (first_of ys NULL) h = Some (ys ! j, l', h') \<and>
        dll h' l' ((xs @ [y]) @ take j ys @ drop (Suc j) ys)"
      using Cons.IH[of "xs @ [y]" j] Cons.prems Suc by simp
    ultimately show ?thesis
      using y Suc by (subst remove_index_loop.simps) (auto simp: deref_def add.commute)
  qed
qed

lemma remove_index_loop_past_end:
  "dll_seg h pv ys NULL \<Longrightarrow> (\<forall>k < length ys. i + of_nat k \<noteq> index) \<Longrightarrow>
   remove_index_loop l index i (first_of ys NULL) h = Some (NULL, l, h)"
proof (induction ys arbitrary: pv i)
  case Nil
  then show ?case by (subst remove_index_loop.simps) simp
next
  case (Cons y ys)
  have "i + 1 + of_nat k \<noteq> index" if "k < length ys" for k
    using Cons.prems(2)[rule_format, of "Suc k"] that by (simp add: algebra_simps)
  then have "remove_index_loop l index (i + 1) (first_of ys NULL) h = Some (NULL, l, h)"
    using Cons by (auto split: option.splits)
  moreover have "i \<noteq> index" using Cons.prems(2)[rule_format, of 0] by simp
  ultimately show ?case
    using Cons.prems(1) by (subst remove_index_loop.simps) (auto simp: deref_def split: option.splits)
qed

text \<open>\<open>list_remove_index\<close> takes out and returns exactly the entry at the given position; with a
  position past the end it returns \<open>NULL\<close> and changes nothing.\<close>

lemma list_remove_index_correct:
  assumes "dll h l xs"
  shows "if unat index < length xs
    then \<exists>l' h'. list_remove_index l index h = Some (xs ! unat index, l', h') \<and>
           dll h' l' (take (unat index) xs @ drop (Suc (unat index)) xs)
    else list_remove_index l index h = Some (NULL, l, h)"
proof (cases "unat index < length xs")
  case True
  then show ?thesis
    using remove_index_loop_dll[of h l "[]" xs "unat index"] assms
    by (auto simp: list_remove_index_def dll_def)
next
  case False
  then have "(0 :: size_t) + of_nat k \<noteq> index" if "k < length xs" for k
    using that dll_length_bound[OF assms] of_nat_unat_u32[of k] by auto
  then show ?thesis
    using False remove_index_loop_past_end[of h NULL xs 0 index l] assms
    by (simp add: list_remove_index_def dll_def)
qed

definition example_store :: store where
  "example_store = [1 \<mapsto> \<lparr>le_value = 10, le_next = 2, le_prev = 0\<rparr>, 2 \<mapsto> \<lparr>le_value = 20, le_next = 0, le_prev = 1\<rparr>]"

definition example_list :: clist where
  "example_list = \<lparr>l_first = 1, l_last = 2, l_length = 2\<rparr>"

lemma example_dll: "dll example_store example_list [1, 2]"
  by (simp add: dll_def example_store_def example_list_def)

lemma list_remove_index_correct_example:
  "\<exists>l' h'. list_remove_index example_list 1 example_store = Some (2, l', h') \<and> dll h' l' [1]"
  using list_remove_index_correct[OF example_dll, of 1] by simp

text \<open>\<open>list_insert_index\<close> never counts its position: for any index but 0 it returns \<open>NULL\<close> without
  inserting, and for index 0 it inserts after the first entry and returns that entry.\<close>

lemma list_insert_index_ignores_index:
  assumes "dll h l (x # xs)" and "p \<notin> set (x # xs)" and "p \<noteq> NULL"
  shows "if index = 0
    then \<exists>l' h'. list_insert_index l index v p h = Some (x, l', h') \<and> dll h' l' (x # p # xs)
    else list_insert_index l index v p h = Some (NULL, l, h)"
proof (cases "index = 0")
  case True
  obtain e where x: "x \<noteq> NULL" "h x = Some e" "le_next e = first_of xs NULL" "l_first l = x"
    using assms(1) by (auto simp: dll_def split: option.splits)
  then show ?thesis
    using True list_insert_value_dll[of h l "[x]" xs p v] assms
    by (simp add: list_insert_index_def insert_index_loop.simps deref_def) (auto simp: deref_def)
next
  case False
  have "dll_seg h pv ys NULL \<Longrightarrow>
      insert_index_loop l index v p 0 (first_of ys NULL) h = Some (NULL, l, h)" for pv ys
  proof (induction ys arbitrary: pv)
    case Nil
    then show ?case by (subst insert_index_loop.simps) simp
  next
    case (Cons y ys)
    then show ?case
      using False by (subst insert_index_loop.simps) (auto simp: deref_def split: option.splits)
  qed
  from this[of NULL "x # xs"] assms(1) False show ?thesis
    by (simp add: list_insert_index_def dll_def)
qed

lemma list_insert_index_ignores_index_example:
  "list_insert_index example_list 1 30 3 example_store = Some (NULL, example_list, example_store)"
  using list_insert_index_ignores_index[OF example_dll, of 3 1 30] by simp

text \<open>a value pushed at the back comes out at the front in order: pushing a list of values with
  \<open>list_push\<close> and taking them off with \<open>list_pop_front\<close> returns them first in, first out, and neither
  operation faults.\<close>

lemma list_fifo:
  assumes "distinct (map snd vps)" and "NULL \<notin> set (map snd vps)"
  shows "\<exists>l1 h1 l2 h2. run_push list_push vps list_init h = Some (l1, h1) \<and>
    run_pop list_pop_front (length vps) l1 h1 = Some (map snd vps, l2, h2) \<and> dll h2 l2 [] \<and>
    map (entry_value h2) (map snd vps) = map fst vps"
  using ll.fifo[OF dll_empty assms] .

lemma list_fifo_example:
  "\<exists>l1 h1 l2 h2. run_push list_push [(5, 1), (7, 2)] list_init Map.empty = Some (l1, h1) \<and>
    run_pop list_pop_front 2 l1 h1 = Some ([1, 2], l2, h2) \<and> map (entry_value h2) [1, 2] = [5, 7]"
  using list_fifo[of "[(5, 1), (7, 2)]" Map.empty] by (simp add: numeral_2_eq_2) blast

text \<open>\<open>list_insert\<close> between two neighbours and \<open>list_remove\<close> are inverse: both return, the list in
  between holds the new entry at that place, and afterwards the header and every entry of the list
  are as before.\<close>

lemma list_insert_remove_roundtrip:
  assumes "dll h l (xs @ ys)" and "entry \<notin> set (xs @ ys)" and "entry \<noteq> NULL" and "h entry = Some e"
  shows "\<exists>l1 h1 l2 h2. list_insert l (last_of xs NULL) (first_of ys NULL) entry h = Some (l1, h1) \<and>
    dll h1 l1 (xs @ entry # ys) \<and> list_remove l1 entry h1 = Some (l2, h2) \<and>
    dll h2 l2 (xs @ ys) \<and> l2 = l \<and> (\<forall>p \<in> set (xs @ ys). entry_value h2 p = entry_value h p)"
proof -
  obtain l1 h1 where 1: "list_insert l (last_of xs NULL) (first_of ys NULL) entry h = Some (l1, h1)"
      "dll h1 l1 (xs @ entry # ys)" "list_frame (insert entry (set (xs @ ys))) h h1"
    using list_insert_dll[OF assms] by blast
  obtain l2 h2 where 2: "list_remove l1 entry h1 = Some (l2, h2)" "dll h2 l2 (xs @ ys)"
      "list_frame (set (xs @ ys)) h1 h2"
    using list_remove_dll[OF 1(2)] by blast
  have "l2 = l" using assms(1) 2(2) by (cases l; cases l2) (simp add: dll_def)
  with 1 2 show ?thesis by (auto simp: list_frame_def)
qed

lemma list_insert_remove_roundtrip_example:
  "\<exists>l1 h1. list_insert example_list 1 2 3 (example_store(3 \<mapsto> \<lparr>le_value = 9, le_next = 0, le_prev = 0\<rparr>)) =
     Some (l1, h1) \<and> dll h1 l1 [1, 3, 2]"
  using list_insert_remove_roundtrip[of "example_store(3 \<mapsto> \<lparr>le_value = 9, le_next = 0, le_prev = 0\<rparr>)"
      example_list "[1]" "[2]" 3]
  by (auto simp: dll_fresh_entry example_dll)

end
