(* ===== verification/Memory.thy ===== *)
theory Memory
  imports Prelude
begin

text \<open>
  Byte-addressed kernel memory: a total function from 32-bit addresses to bytes, with little-endian
  32-bit loads and stores, and the two bulk operations of \<^verbatim>\<open>lib/string.c\<close> that every other component
  uses, \<open>memset\<close> and \<open>memcpy\<close>, written as the byte loops of the source.

  Addresses wrap around; \<open>unat (b - a) < n\<close> says that \<open>b\<close> lies in the region of \<open>n\<close> bytes from \<open>a\<close>.
\<close>

type_synonym mem = "u32 \<Rightarrow> u8"

definition in_region :: "u32 \<Rightarrow> nat \<Rightarrow> u32 \<Rightarrow> bool" where
  "in_region a n b \<longleftrightarrow> unat (b - a) < n"

definition regions_disjoint :: "u32 \<Rightarrow> nat \<Rightarrow> u32 \<Rightarrow> nat \<Rightarrow> bool" where
  "regions_disjoint a n b k \<longleftrightarrow> n \<le> unat (b - a) \<and> k \<le> unat (a - b)"

section \<open>Words in memory\<close>

definition load32 :: "mem \<Rightarrow> u32 \<Rightarrow> u32" where
  "load32 m a = ucast (m a) OR push_bit 8 (ucast (m (a + 1))) OR
     push_bit 16 (ucast (m (a + 2))) OR push_bit 24 (ucast (m (a + 3)))"

definition store32 :: "mem \<Rightarrow> u32 \<Rightarrow> u32 \<Rightarrow> mem" where
  "store32 m a v = m(a := ucast v, a + 1 := ucast (drop_bit 8 v),
     a + 2 := ucast (drop_bit 16 v), a + 3 := ucast (drop_bit 24 v))"

lemma load32_store32 [simp]: "load32 (store32 m a v) a = v"
proof (rule bit_word_eqI)
  fix n assume "n < LENGTH(32)"
  then consider "n < 8" | "8 \<le> n" "n < 16" | "16 \<le> n" "n < 24" | "24 \<le> n" "n < 32" by fastforce
  then show "bit (load32 (store32 m a v) a) n = bit v n"
    by cases (auto simp: load32_def store32_def bit_simps)
qed

lemma region_disjoint_neq:
  assumes "regions_disjoint a n b k" and "i < n" and "j < k" and "n \<le> 4294967296" and "k \<le> 4294967296"
  shows "a + of_nat i \<noteq> b + of_nat j"
proof
  assume eq: "a + of_nat i = b + of_nat j"
  show False
  proof (cases "j \<le> i")
    case True
    then have "b - a = of_nat (i - j)" using eq by (simp add: of_nat_diff algebra_simps)
    then have "unat (b - a) \<le> i" using assms(2,4) by (simp add: of_nat_unat_u32)
    with assms(1,2) show False by (simp add: regions_disjoint_def)
  next
    case False
    then have "a - b = of_nat (j - i)" using eq by (simp add: of_nat_diff algebra_simps)
    then have "unat (a - b) \<le> j" using assms(3,5) by (simp add: of_nat_unat_u32)
    with assms(1,3) show False by (simp add: regions_disjoint_def)
  qed
qed

lemma region_not_in:
  assumes "regions_disjoint a n b k" and "j < k" and "n \<le> 4294967296" and "k \<le> 4294967296"
  shows "\<not> in_region a n (b + of_nat j)"
proof
  assume r: "in_region a n (b + of_nat j)"
  have "b + of_nat j = a + of_nat (unat (b + of_nat j - a))" by simp
  with region_disjoint_neq[OF assms(1) _ assms(2-4), of "unat (b + of_nat j - a)"] r show False
    by (simp add: in_region_def)
qed

lemma regions_disjoint_sym: "regions_disjoint a n b k \<longleftrightarrow> regions_disjoint b k a n"
  by (auto simp: regions_disjoint_def)

lemma unat_diff_flip: "a \<noteq> b \<Longrightarrow> unat (a - b) = 4294967296 - unat (b - a)" for a b :: u32
  using unat_u32_bound[of a] unat_u32_bound[of b] by (auto simp: unat_sub_if' word_unat_eq_iff)

text \<open>A part of a region is disjoint from what the region is disjoint from.\<close>

lemma regions_disjoint_sub:
  assumes "regions_disjoint a n b k" and "i + n' \<le> n" and "0 < n'"
  shows "regions_disjoint (a + of_nat i) n' b k"
proof -
  have ab: "n \<le> unat (b - a)" "k \<le> unat (a - b)" using assms(1) by (auto simp: regions_disjoint_def)
  have "n < 4294967296" using ab(1) unat_u32_bound[of "b - a"] by simp
  then have i: "unat (of_nat i :: u32) = i" using assms(2) by (simp add: of_nat_unat_u32)
  have "a \<noteq> b" using ab(1) assms(2,3) by auto
  then have flip: "unat (a - b) = 4294967296 - unat (b - a)" by (rule unat_diff_flip)
  have "unat (b - a - of_nat i) = unat (b - a) - i"
    using i ab(1) assms(2) by (subst unat_sub) (simp_all add: word_le_nat_alt)
  moreover have "unat (a - b) + i < 4294967296" using flip ab assms(2,3) unat_u32_bound[of "b - a"] by linarith
  then have "unat (a - b + of_nat i) = unat (a - b) + i" using i by (simp add: unat_word_ariths)
  moreover have "b - (a + of_nat i) = b - a - of_nat i" by (simp only: diff_diff_eq)
  moreover have "a + of_nat i - b = a - b + of_nat i" by (simp only: diff_add_eq)
  ultimately show ?thesis using ab assms(2,3) unfolding regions_disjoint_def by presburger
qed

lemma regions_disjoint_nat:
  assumes "unat a + n \<le> unat b" and "unat b + k \<le> 4294967296" and "0 < n"
  shows "regions_disjoint a n b k"
proof -
  have ab: "unat (b - a) = unat b - unat a" using assms(1) by (intro unat_sub) (simp add: word_le_nat_alt)
  have "a \<noteq> b" using assms(1,3) by auto
  then have "unat (a - b) = 4294967296 - unat (b - a)" by (rule unat_diff_flip)
  with ab assms have "n \<le> unat (b - a)" "k \<le> unat (a - b)" by linarith+
  then show ?thesis by (simp add: regions_disjoint_def)
qed

lemma store32_outside: "\<not> in_region a 4 b \<Longrightarrow> store32 m a v b = m b"
  by (auto simp: store32_def in_region_def)

lemma load32_cong:
  assumes "\<And>i. i < 4 \<Longrightarrow> m (b + of_nat i) = m' (b + of_nat i)"
  shows "load32 m b = load32 m' b"
  using assms[of 0] assms[of 1] assms[of 2] assms[of 3] by (simp add: load32_def)

lemma load32_store32_other:
  assumes "regions_disjoint a 4 b 4"
  shows "load32 (store32 m a v) b = load32 m b"
  using assms by (intro load32_cong store32_outside) (simp add: region_not_in)

lemma in_region_nat:
  assumes "in_region a n b" and "unat a + n \<le> 4294967296"
  shows "unat a \<le> unat b" "unat b < unat a + n"
proof -
  have "unat b = unat (a + (b - a))" by simp
  also have "\<dots> = unat a + unat (b - a)"
    using assms by (subst unat_word_ariths) (simp add: in_region_def)
  finally show "unat a \<le> unat b" "unat b < unat a + n" using assms(1) by (auto simp: in_region_def)
qed

lemma load32_frame:
  assumes "\<And>b. unat x \<le> unat b \<Longrightarrow> unat b < unat x + 4 \<Longrightarrow> m' b = m b" and "unat x + 4 \<le> 4294967296"
  shows "load32 m' x = load32 m x"
proof (rule load32_cong)
  fix i :: nat assume i: "i < 4"
  then have "unat (x + of_nat i) = unat x + i"
    using assms(2) by (simp add: unat_word_ariths of_nat_unat_u32)
  then show "m' (x + of_nat i) = m (x + of_nat i)" using assms(1) i by simp
qed

section \<open>memset and memcpy\<close>

definition memset :: "mem \<Rightarrow> u32 \<Rightarrow> u8 \<Rightarrow> size_t \<Rightarrow> mem" where
  "memset m p c n = for_upto (unat n) (\<lambda>i m. m(p + of_nat i := c)) m"

definition memcpy :: "mem \<Rightarrow> u32 \<Rightarrow> u32 \<Rightarrow> size_t \<Rightarrow> mem" where
  "memcpy m dst src n = for_upto (unat n) (\<lambda>i m. m(dst + of_nat i := m (src + of_nat i))) m"

lemma memset_apply: "memset m p c n b = (if in_region p (unat n) b then c else m b)"
proof -
  have "k \<le> unat n \<Longrightarrow> for_upto k (\<lambda>i m. m(p + of_nat i := c)) m b =
      (if unat (b - p) < k then c else m b)" for k
  proof (induction k)
    case 0
    then show ?case by simp
  next
    case (Suc k)
    then have "Suc k \<le> 2 ^ LENGTH(32)" using unat_u32_bound[of n] by simp
    from in_window_Suc[OF this] Suc show ?case by auto
  qed
  then show ?thesis by (simp add: memset_def in_region_def)
qed

lemma memcpy_apply:
  assumes "regions_disjoint dst (unat n) src (unat n)"
  shows "memcpy m dst src n b =
    (if in_region dst (unat n) b then m (src + (b - dst)) else m b)"
proof -
  have "k \<le> unat n \<Longrightarrow> for_upto k (\<lambda>i m. m(dst + of_nat i := m (src + of_nat i))) m b =
      (if unat (b - dst) < k then m (src + (b - dst)) else m b)" for k b
  proof (induction k arbitrary: b)
    case 0
    then show ?case by simp
  next
    case (Suc k)
    have n: "unat n \<le> 4294967296" using unat_u32_bound[of n] by simp
    then have "Suc k \<le> 2 ^ LENGTH(32)" using Suc.prems by simp
    note win = in_window_Suc[OF this, of b dst]
    have "\<not> unat (src + of_nat k - dst) < k"
      using region_not_in[OF assms _ n n, of k] Suc.prems by (simp add: in_region_def)
    with Suc.IH[of "src + of_nat k"] Suc.IH[of b] Suc.prems win show ?case by auto
  qed
  then show ?thesis by (simp add: memcpy_def in_region_def)
qed

lemma load32_memset_zero:
  assumes "unat n \<le> 4294967292" and "unat (a - p) + 4 \<le> unat n"
  shows "load32 (memset m p 0 n) a = 0"
proof -
  have "in_region p (unat n) (a + of_nat i)" if "i < 4" for i
  proof -
    have "a + of_nat i - p = (a - p) + of_nat i" by (simp only: diff_add_eq)
    moreover have "unat ((a - p) + of_nat i) = unat (a - p) + i"
      using assms that by (simp add: unat_word_ariths of_nat_unat_u32)
    ultimately show ?thesis using assms that unfolding in_region_def by (metis add_less_cancel_left less_le_trans)
  qed
  from this[of 0] this[of 1] this[of 2] this[of 3] show ?thesis
    by (simp add: load32_def memset_apply)
qed

section \<open>Sequences of bytes\<close>

text \<open>Bytes stored at consecutive addresses.\<close>

definition put_bytes :: "mem \<Rightarrow> ptr \<Rightarrow> u8 list \<Rightarrow> mem" where
  "put_bytes m p d = for_upto (length d) (\<lambda>i m. m(p + of_nat i := d ! i)) m"

lemma put_bytes_apply:
  assumes "length d \<le> 4294967296"
  shows "put_bytes m p d b = (if unat (b - p) < length d then d ! unat (b - p) else m b)"
proof -
  have "k \<le> length d \<Longrightarrow> for_upto k (\<lambda>i m. m(p + of_nat i := d ! i)) m b =
      (if unat (b - p) < k then d ! unat (b - p) else m b)" for k
  proof (induction k)
    case (Suc k)
    then have le: "Suc k \<le> 2 ^ LENGTH(32)" using assms by simp
    have "b = p + of_nat k \<longleftrightarrow> unat (b - p) = k" using assms Suc.prems by (intro eq_add_of_nat_iff) simp
    with in_window_Suc[OF le, of b p] Suc show ?case by auto
  qed simp
  then show ?thesis by (simp add: put_bytes_def)
qed

end
