(* ===== verification/Cstring.thy ===== *)
theory Cstring
  imports Memory
begin

text \<open>
  The string functions of \<^verbatim>\<open>lib/string.c\<close> over byte memory. A pointer is an address, \<open>NULL\<close> is 0, and
  a loop over memory that holds no terminator does not return, which is the value \<open>None\<close>
  (\<open>partial_function (option)\<close>); loops with a byte count are total functions with a termination
  proof. A \<open>char\<close> is signed on i386, so it is compared as \<open>sint\<close>.

  \<open>cstr m p s\<close> says that memory holds the string \<open>s\<close> at \<open>p\<close>, terminator included; the lemmas give the
  result of each function on such strings.
\<close>

section \<open>Length, comparison and search\<close>

partial_function (option) strlen_loop :: "mem \<Rightarrow> ptr \<Rightarrow> ptr option" where
  "strlen_loop m s1 = (if m s1 \<noteq> 0 then strlen_loop m (s1 + 1) else Some s1)"

definition strlen :: "mem \<Rightarrow> ptr \<Rightarrow> size_t option" where
  "strlen m s = do { s1 \<leftarrow> strlen_loop m s; Some (s1 - s) }"

partial_function (option) strcmp :: "mem \<Rightarrow> ptr \<Rightarrow> ptr \<Rightarrow> int option" where
  "strcmp m a b =
     (if m a \<noteq> 0 \<and> m b \<noteq> 0 \<and> m a = m b then strcmp m (a + 1) (b + 1)
      else if m a = m b then Some 0
      else Some (sint (m a) - sint (m b)))"

partial_function (option) strchr :: "mem \<Rightarrow> ptr \<Rightarrow> int \<Rightarrow> ptr option" where
  "strchr m s c =
     (if m s \<noteq> 0 \<and> sint (m s) \<noteq> c then strchr m (s + 1) c
      else if m s = 0 then Some NULL
      else Some s)"

partial_function (option) strrchr_loop :: "mem \<Rightarrow> ptr \<Rightarrow> ptr \<Rightarrow> int \<Rightarrow> ptr option" where
  "strrchr_loop m s s1 c =
     (if s \<le> s1 \<and> sint (m s1) \<noteq> c then strrchr_loop m s (s1 - 1) c
      else if s1 < s then Some NULL
      else Some s1)"

definition strrchr :: "mem \<Rightarrow> ptr \<Rightarrow> int \<Rightarrow> ptr option" where
  "strrchr m s c = do { n \<leftarrow> strlen m s; strrchr_loop m s (s + n - 1) c }"

function memchr_loop :: "mem \<Rightarrow> ptr \<Rightarrow> ptr \<Rightarrow> int \<Rightarrow> ptr" where
  "memchr_loop m s e c =
     (if s \<noteq> e \<and> sint (m s) \<noteq> c then memchr_loop m (s + 1) e c
      else if s = e then NULL
      else s)"
  by pat_completeness auto
termination
proof (relation "measure (\<lambda>(m, s, e, c). unat (e - s))")
  fix m :: mem and s e :: ptr and c :: int
  assume "s \<noteq> e \<and> sint (m s) \<noteq> c"
  then have "e - s \<noteq> 0" by auto
  then have "unat (e - s - 1) < unat (e - s)"
    using measure_unat by blast
  then show "((m, s + 1, e, c), m, s, e, c) \<in> measure (\<lambda>(m, s, e, c). unat (e - s))"
    by (simp add: algebra_simps)
qed auto

definition memchr :: "mem \<Rightarrow> ptr \<Rightarrow> int \<Rightarrow> size_t \<Rightarrow> ptr" where
  "memchr m p c n = memchr_loop m p (p + n) c"

function memcmp :: "mem \<Rightarrow> ptr \<Rightarrow> ptr \<Rightarrow> size_t \<Rightarrow> int" where
  "memcmp m a b sz =
     (if sz \<noteq> 0 \<and> m a = m b then memcmp m (a + 1) (b + 1) (sz - 1)
      else if sz \<noteq> 0 then sint (m a) - sint (m b)
      else 0)"
  by pat_completeness auto
termination by (relation "measure (\<lambda>(m, a, b, sz). unat sz)") (auto intro: measure_unat)

declare memchr_loop.simps [simp del] memcmp.simps [simp del]

partial_function (option) strstr_loop :: "mem \<Rightarrow> ptr \<Rightarrow> ptr \<Rightarrow> size_t \<Rightarrow> ptr option" where
  "strstr_loop m haystack needle sz =
     (if memcmp m haystack needle sz \<noteq> 0
      then if m haystack = 0 then Some NULL else strstr_loop m (haystack + 1) needle sz
      else Some haystack)"

definition strstr :: "mem \<Rightarrow> ptr \<Rightarrow> ptr \<Rightarrow> ptr option" where
  "strstr m haystack needle = do { sz \<leftarrow> strlen m needle; strstr_loop m haystack needle sz }"

section \<open>Copying and splitting\<close>

partial_function (option) strcpy :: "mem \<Rightarrow> ptr \<Rightarrow> ptr \<Rightarrow> mem option" where
  "strcpy m dst src =
     (let m' = m(dst := m src)
      in if m' dst \<noteq> 0 then strcpy m' (dst + 1) (src + 1) else Some m')"

text \<open>
  \<open>strsplt\<close> is a \<^verbatim>\<open>do ... while\<close> loop: \<open>p\<close> is the pointer before \<^verbatim>\<open>++p\<close>, and \<open>c\<close> the number of
  pieces written so far. The piece number \<open>c\<close> goes to \<open>dest + buf_str_size * c\<close>.
\<close>

partial_function (option) strsplt_loop ::
    "mem \<Rightarrow> ptr \<Rightarrow> ptr \<Rightarrow> size_t \<Rightarrow> size_t \<Rightarrow> int \<Rightarrow> u32 \<Rightarrow> (mem \<times> u32) option" where
  "strsplt_loop m p dest buf_str_size n delim c =
     (let p = p + 1 in do {
        nxt \<leftarrow> strchr m p delim;
        if nxt = NULL \<or> (0 < n \<and> c = n)
        then do { m \<leftarrow> strcpy m (dest + buf_str_size * c) p; Some (m, c + 1) }
        else do {
          let m = memcpy m (dest + buf_str_size * c) p (nxt - p);
          let m = m(dest + buf_str_size * c + (nxt - p) := 0);
          p \<leftarrow> strchr m p delim;
          if p \<noteq> NULL then strsplt_loop m p dest buf_str_size n delim (c + 1)
          else Some (m, c + 1)
        }
      })"

definition strsplt ::
    "mem \<Rightarrow> ptr \<Rightarrow> ptr \<Rightarrow> size_t \<Rightarrow> size_t \<Rightarrow> int \<Rightarrow> (mem \<times> u32) option" where
  "strsplt m src dest buf_str_size n delim =
     strsplt_loop m (src - 1) dest buf_str_size n delim 0"

text \<open>
  \<open>strdup\<close> takes the address that \<open>kmalloc(strlen(s) + 1)\<close> returned as \<open>s1\<close>; the source writes
  through it without testing it for \<open>NULL\<close>.
\<close>

definition strdup :: "mem \<Rightarrow> ptr \<Rightarrow> ptr \<Rightarrow> (mem \<times> ptr) option" where
  "strdup m s s1 = do {
     n \<leftarrow> strlen m s;
     let m = memcpy m s1 s (n + 1);
     k \<leftarrow> strlen m s;
     Some (m(s1 + k := 0), s1)
   }"

section \<open>Strings in memory\<close>

primrec cstr :: "mem \<Rightarrow> ptr \<Rightarrow> u8 list \<Rightarrow> bool" where
  "cstr m p [] \<longleftrightarrow> m p = 0"
| "cstr m p (c # cs) \<longleftrightarrow> m p = c \<and> c \<noteq> 0 \<and> cstr m (p + 1) cs"

lemma cstr_nth: "cstr m p s \<Longrightarrow> i < length s \<Longrightarrow> m (p + of_nat i) = s ! i \<and> s ! i \<noteq> 0"
proof (induction s arbitrary: p i)
  case (Cons c s)
  then show ?case by (cases i) (auto simp: add_of_nat_Suc simp del: of_nat_Suc)
qed simp

lemma cstr_end: "cstr m p s \<Longrightarrow> m (p + of_nat (length s)) = 0"
  by (induction s arbitrary: p) (simp_all add: add_of_nat_Suc del: of_nat_Suc)

lemma cstr_nonzero: "cstr m p s \<Longrightarrow> 0 \<notin> set s"
  by (induction s arbitrary: p) auto

lemma cstr_drop: "cstr m p s \<Longrightarrow> k \<le> length s \<Longrightarrow> cstr m (p + of_nat k) (drop k s)"
proof (induction k arbitrary: p s)
  case (Suc k)
  then show ?case by (cases s) (simp_all add: add_of_nat_Suc del: of_nat_Suc)
qed simp

lemma cstr_iff:
  "cstr m p s \<longleftrightarrow> (\<forall>i < length s. m (p + of_nat i) = s ! i \<and> s ! i \<noteq> 0) \<and> m (p + of_nat (length s)) = 0"
  (is "_ \<longleftrightarrow> ?R")
proof
  show "cstr m p s \<Longrightarrow> ?R" by (simp add: cstr_nth cstr_end)
  show "?R \<Longrightarrow> cstr m p s"
  proof (induction s arbitrary: p)
    case (Cons c s)
    have "m (p + 1 + of_nat i) = s ! i \<and> s ! i \<noteq> 0" if "i < length s" for i
      using Cons.prems that by (auto dest!: spec[of _ "Suc i"] simp: add_of_nat_Suc simp del: of_nat_Suc)
    moreover have "m p = c \<and> c \<noteq> 0" using Cons.prems by (auto dest!: spec[of _ 0])
    ultimately show ?case using Cons.prems
      by (auto intro!: Cons.IH simp: add_of_nat_Suc simp del: of_nat_Suc)
  qed simp
qed

text \<open>A string ends before the address space wraps onto its own start.\<close>

lemma cstr_length: "cstr m p s \<Longrightarrow> length s < 4294967296"
proof (rule ccontr)
  assume s: "cstr m p s" and "\<not> length s < 4294967296"
  then have lt: "length s mod 4294967296 < length s"
    by (metis mod_less_divisor not_less order_less_le_trans zero_less_numeral)
  with cstr_end[OF s] cstr_nth[OF s lt] show False by (simp add: of_nat_mod_u32)
qed

lemma unat_cstr_length: "cstr m p s \<Longrightarrow> unat (of_nat (length s) :: u32) = length s"
  by (simp add: cstr_length of_nat_unat_u32)

lemma cstr_unique: "cstr m p s \<Longrightarrow> cstr m p t \<Longrightarrow> s = t"
proof (induction s arbitrary: p t)
  case Nil
  then show ?case by (cases t) auto
next
  case (Cons c s)
  then show ?case by (cases t) auto
qed

section \<open>What each function returns\<close>

lemma strlen_cstr: "cstr m p s \<Longrightarrow> strlen m p = Some (of_nat (length s))"
proof -
  have "cstr m q t \<Longrightarrow> strlen_loop m q = Some (q + of_nat (length t))" for q t
    by (induction t arbitrary: q)
      (simp_all add: strlen_loop.simps add_of_nat_Suc del: of_nat_Suc)
  then show "cstr m p s \<Longrightarrow> strlen m p = Some (of_nat (length s))"
    by (simp add: strlen_def)
qed

fun char_diff :: "u8 list \<Rightarrow> u8 list \<Rightarrow> int" where
  "char_diff (c # s) (d # t) = (if c = d then char_diff s t else sint c - sint d)"
| "char_diff (c # s) [] = sint c"
| "char_diff [] (d # t) = - sint d"
| "char_diff [] [] = 0"

lemma char_diff_zero: "0 \<notin> set s \<Longrightarrow> 0 \<notin> set t \<Longrightarrow> char_diff s t = 0 \<longleftrightarrow> s = t"
  by (induction s t rule: char_diff.induct) (auto simp: signed_eq_0_iff dest: signed_word_eqI)

lemma strcmp_char_diff: "cstr m a s \<Longrightarrow> cstr m b t \<Longrightarrow> strcmp m a b = Some (char_diff s t)"
  by (induction s t arbitrary: a b rule: char_diff.induct) (subst strcmp.simps; auto)+

lemma strcmp_eq_0: "cstr m a s \<Longrightarrow> cstr m b t \<Longrightarrow> strcmp m a b = Some 0 \<longleftrightarrow> s = t"
  using char_diff_zero[of s t] cstr_nonzero by (simp add: strcmp_char_diff)

lemma strchr_cstr:
  "cstr m p s \<Longrightarrow> strchr m p c =
     Some (if c \<in> sint ` set s then p + of_nat (length (takeWhile (\<lambda>x. sint x \<noteq> c) s)) else NULL)"
proof (induction s arbitrary: p)
  case Nil
  then show ?case by (simp add: strchr.simps)
next
  case (Cons d s)
  then show ?case
    by (subst strchr.simps) (auto simp: add_of_nat_Suc simp del: of_nat_Suc)
qed

lemma memcmp_eq_0: "memcmp m a b sz = 0 \<longleftrightarrow> (\<forall>i < unat sz. m (a + of_nat i) = m (b + of_nat i))"
proof (induction m a b sz rule: memcmp.induct)
  case (1 m a b sz)
  show ?case
  proof (cases "sz = 0")
    case True
    then show ?thesis by (simp add: memcmp.simps)
  next
    case False
    then have sz: "unat sz = Suc (unat (sz - 1))" by (simp add: unat_minus_one unat_gt_0)
    have split: "(\<forall>i < unat sz. m (a + of_nat i) = m (b + of_nat i)) \<longleftrightarrow>
        m a = m b \<and> (\<forall>i < unat (sz - 1). m (a + 1 + of_nat i) = m (b + 1 + of_nat i))"
      unfolding sz by (simp add: All_less_Suc2 add_of_nat_Suc del: of_nat_Suc)
    show ?thesis
      using 1 False unfolding split
      by (subst memcmp.simps) (auto dest: signed_word_eqI)
  qed
qed

lemma in_region_Suc:
  assumes "Suc n \<le> 4294967296"
  shows "in_region p (Suc n) b \<longleftrightarrow> b = p \<or> in_region (p + 1) n b"
proof (cases "b = p")
  case True
  then show ?thesis by (simp add: in_region_def)
next
  case False
  then have "unat (b - p) = Suc (unat (b - p - 1))"
    by (simp add: unat_minus_one unat_gt_0)
  then show ?thesis using False by (simp add: in_region_def diff_diff_eq)
qed

lemma cstr_upd_other: "\<not> in_region p (Suc (length s)) a \<Longrightarrow> length s < 4294967296 \<Longrightarrow> cstr (m(a := v)) p s = cstr m p s"
  by (induction s arbitrary: p) (auto simp: in_region_Suc)

lemma regions_disjoint_start:
  assumes "regions_disjoint a n b k" and "0 < n"
  shows "\<not> in_region b k a"
  using assms by (simp add: regions_disjoint_def in_region_def)

lemma regions_disjoint_shift:
  "regions_disjoint a (Suc n) b (Suc n) \<Longrightarrow> regions_disjoint (a + 1) n (b + 1) n"
  by (simp add: regions_disjoint_def)

lemma strcpy_cstr:
  assumes "cstr m src s" and "regions_disjoint dst (Suc (length s)) src (Suc (length s))"
  shows "strcpy m dst src =
    Some (\<lambda>b. if in_region dst (Suc (length s)) b then m (src + (b - dst)) else m b)"
  using assms
proof (induction s arbitrary: m dst src)
  case Nil
  then show ?case
    by (subst strcpy.simps) (auto simp: in_region_Suc in_region_def[of _ 0] fun_eq_iff)
next
  case (Cons c s)
  let ?m = "m(dst := m src)"
  have len: "Suc (length (c # s)) \<le> 4294967296"
    using cstr_length[OF Cons.prems(1)] by simp
  have out: "\<not> in_region src (Suc (length (c # s))) dst"
    using Cons.prems(2) by (rule regions_disjoint_start) simp
  then have "\<not> in_region (src + 1) (Suc (length s)) dst"
    using len in_region_Suc[of "Suc (length s)" src] by simp
  then have str: "cstr ?m (src + 1) s"
    using Cons.prems(1) len by (simp add: cstr_upd_other)
  have dis: "regions_disjoint (dst + 1) (Suc (length s)) (src + 1) (Suc (length s))"
    using Cons.prems(2) by (intro regions_disjoint_shift) simp
  have far: "src + (b - dst) \<noteq> dst" if "in_region dst (Suc (length (c # s))) b" for b
  proof
    assume "src + (b - dst) = dst"
    then have "dst - src = b - dst" by (metis add_diff_cancel_left')
    with that out show False by (simp add: in_region_def)
  qed
  have "strcpy m dst src = strcpy ?m (dst + 1) (src + 1)"
    using Cons.prems(1) by (subst strcpy.simps) simp
  also have "\<dots> = Some (\<lambda>b. if in_region (dst + 1) (Suc (length s)) b
      then ?m (src + 1 + (b - (dst + 1))) else ?m b)"
    by (rule Cons.IH[OF str dis])
  also have "\<dots> = Some (\<lambda>b. if in_region dst (Suc (length (c # s))) b then m (src + (b - dst)) else m b)"
    using far in_region_Suc[of "Suc (length s)" dst] len by (auto simp: fun_eq_iff algebra_simps)
  finally show ?case .
qed

lemma strcpy_copies:
  assumes "cstr m src s" and "regions_disjoint dst (Suc (length s)) src (Suc (length s))"
  shows "\<exists>m'. strcpy m dst src = Some m' \<and> cstr m' dst s \<and>
    (\<forall>b. \<not> in_region dst (Suc (length s)) b \<longrightarrow> m' b = m b)"
proof -
  have "in_region dst (Suc (length s)) (dst + of_nat i)" if "i \<le> length s" for i
    using that cstr_length[OF assms(1)] by (simp add: in_region_def of_nat_unat_u32)
  then have "cstr (\<lambda>b. if in_region dst (Suc (length s)) b then m (src + (b - dst)) else m b) dst s"
    using assms(1) unfolding cstr_iff by simp
  with strcpy_cstr[OF assms] show ?thesis by auto
qed

text \<open>\<open>strrchr\<close> scans backwards; it needs a string that does not start at address 0.\<close>

lemma strrchr_loop_prefix:
  assumes "\<forall>i < length s. m (p + of_nat i) = s ! i"
    and "p \<noteq> 0" and "unat p + length s \<le> 4294967296"
  shows "strrchr_loop m p (p + of_nat (length s) - 1) c =
    Some (if c \<in> sint ` set s
          then p + of_nat (length (dropWhile (\<lambda>x. sint x \<noteq> c) (rev s)) - 1) else NULL)"
  using assms
proof (induction s rule: rev_induct)
  case Nil
  then have "p - 1 < p" by (simp add: word_less_nat_alt unat_minus_one unat_gt_0)
  then show ?case by (subst strrchr_loop.simps) auto
next
  case (snoc x s)
  let ?q = "p + of_nat (length s)"
  have q: "m ?q = x" using snoc.prems(1) by (auto dest!: spec[of _ "length s"])
  have le: "p \<le> ?q"
    using snoc.prems(3) by (simp add: word_le_nat_alt unat_word_ariths of_nat_unat_u32)
  have pre: "\<forall>i < length s. m (p + of_nat i) = s ! i"
    using snoc.prems(1) by (auto simp: nth_append dest: less_SucI)
  have "strrchr_loop m p ?q c =
      (if sint x \<noteq> c then strrchr_loop m p (?q - 1) c else Some ?q)"
    using le q by (subst strrchr_loop.simps) (auto simp: not_less)
  with snoc.IH[OF pre snoc.prems(2)] snoc.prems(3) show ?case by (auto simp: image_iff)
qed

lemma strrchr_cstr:
  assumes "cstr m p s" and "p \<noteq> 0" and "unat p + length s \<le> 4294967296"
  shows "strrchr m p c = Some (if c \<in> sint ` set s
     then p + of_nat (length (dropWhile (\<lambda>x. sint x \<noteq> c) (rev s)) - 1) else NULL)"
  using strrchr_loop_prefix[OF _ assms(2,3)] cstr_nth[OF assms(1)]
  by (simp add: strrchr_def strlen_cstr[OF assms(1)])

text \<open>\<open>occurs_at nd hs k\<close>: the string \<open>nd\<close> occurs in \<open>hs\<close> at index \<open>k\<close>.\<close>

definition occurs_at :: "u8 list \<Rightarrow> u8 list \<Rightarrow> nat \<Rightarrow> bool" where
  "occurs_at nd hs k \<longleftrightarrow> k \<le> length hs \<and> take (length nd) (drop k hs) = nd"

lemma memcmp_prefix:
  assumes h: "cstr m a h" and nd: "cstr m b nd"
  shows "memcmp m a b (of_nat (length nd)) = 0 \<longleftrightarrow> take (length nd) h = nd"
proof -
  have "memcmp m a b (of_nat (length nd)) = 0 \<longleftrightarrow> (\<forall>i < length nd. m (a + of_nat i) = nd ! i)"
    using cstr_nth[OF nd] by (auto simp: memcmp_eq_0 unat_cstr_length[OF nd])
  also have "\<dots> \<longleftrightarrow> take (length nd) h = nd"
  proof
    assume eq: "\<forall>i < length nd. m (a + of_nat i) = nd ! i"
    have "length nd \<le> length h"
    proof (rule ccontr)
      assume "\<not> length nd \<le> length h"
      with eq cstr_end[OF h] cstr_nth[OF nd, of "length h"] show False by auto
    qed
    with eq cstr_nth[OF h] show "take (length nd) h = nd" by (simp add: list_eq_iff_nth_eq)
  next
    assume tk: "take (length nd) h = nd"
    then have "length nd \<le> length h" by (metis length_take min.absorb_iff2 nat_le_linear min_def)
    moreover have "\<forall>i < length nd. h ! i = nd ! i" using tk by (metis nth_take)
    ultimately show "\<forall>i < length nd. m (a + of_nat i) = nd ! i" using cstr_nth[OF h] by simp
  qed
  finally show ?thesis .
qed

definition first_occurrence :: "u8 list \<Rightarrow> u8 list \<Rightarrow> ptr \<Rightarrow> ptr \<Rightarrow> bool" where
  "first_occurrence nd h a r \<longleftrightarrow>
     (\<exists>k. occurs_at nd h k \<and> (\<forall>j < k. \<not> occurs_at nd h j) \<and> r = a + of_nat k)
     \<or> ((\<forall>k. \<not> occurs_at nd h k) \<and> r = NULL)"

lemma first_occurrence_Cons:
  assumes "first_occurrence nd h (a + 1) r" and zero: "\<not> occurs_at nd (c # h) 0"
  shows "first_occurrence nd (c # h) a r"
proof -
  have Suc: "occurs_at nd (c # h) (Suc k) \<longleftrightarrow> occurs_at nd h k" for k by (simp add: occurs_at_def)
  from assms(1) consider
    (found) k where "occurs_at nd h k" "\<forall>j < k. \<not> occurs_at nd h j" "r = a + 1 + of_nat k"
    | (none) "\<forall>k. \<not> occurs_at nd h k" "r = NULL"
    by (auto simp: first_occurrence_def)
  then show ?thesis
  proof cases
    case found
    then have "occurs_at nd (c # h) (Suc k) \<and> (\<forall>j < Suc k. \<not> occurs_at nd (c # h) j)"
      using Suc zero by (metis Suc_less_eq not0_implies_Suc)
    then show ?thesis using found(3) unfolding first_occurrence_def add_of_nat_Suc[symmetric] by blast
  next
    case none
    then show ?thesis using Suc zero unfolding first_occurrence_def by (metis not0_implies_Suc)
  qed
qed

lemma strstr_loop_first:
  assumes "cstr m a h" and "cstr m b nd"
  shows "\<exists>r. strstr_loop m a b (of_nat (length nd)) = Some r \<and> first_occurrence nd h a r"
  using assms
proof (induction h arbitrary: a)
  case Nil
  then show ?case
    using memcmp_prefix[OF Nil]
    by (subst strstr_loop.simps) (auto simp: occurs_at_def first_occurrence_def)
next
  case (Cons c h)
  note mp = memcmp_prefix[OF Cons.prems]
  show ?case
  proof (cases "memcmp m a b (of_nat (length nd)) = 0")
    case True
    then show ?thesis using mp
      by (subst strstr_loop.simps) (auto simp: occurs_at_def first_occurrence_def intro: exI[of _ 0])
  next
    case False
    then have "strstr_loop m a b (of_nat (length nd)) = strstr_loop m (a + 1) b (of_nat (length nd))"
      using Cons.prems(1) by (subst strstr_loop.simps) simp
    moreover have "\<not> occurs_at nd (c # h) 0" using False mp by (simp add: occurs_at_def)
    moreover have "cstr m (a + 1) h" using Cons.prems(1) by simp
    ultimately show ?thesis
      using Cons.IH[of "a + 1"] Cons.prems(2) first_occurrence_Cons by auto
  qed
qed

text \<open>
  \<open>strstr\<close> returns on every pair of terminated strings, and what it returns is the address of the
  first occurrence of the needle in the haystack, or \<open>NULL\<close> when the needle does not occur.
\<close>

lemma strstr_first_occurrence:
  assumes "cstr m a h" and "cstr m b nd"
  shows "\<exists>r. strstr m a b = Some r \<and> first_occurrence nd h a r"
  using strstr_loop_first[OF assms] strlen_cstr[OF assms(2)]
  by (auto simp: strstr_def)

definition example_strings :: mem where
  "example_strings = (\<lambda>_. 0)(100 := 97, 101 := 98, 102 := 97, 103 := 98, 104 := 99,
     200 := 97, 201 := 98, 202 := 99)"

lemma strstr_first_occurrence_example:
  "\<exists>r. strstr example_strings 100 200 = Some r
     \<and> first_occurrence [97, 98, 99] [97, 98, 97, 98, 99] 100 r"
  by (rule strstr_first_occurrence) (simp_all add: example_strings_def)

text \<open>
  Copying a string with \<open>strcpy\<close> to a disjoint buffer returns, leaves the destination holding the
  same string (so \<open>strcmp\<close> of the copy and the original is 0 and \<open>strlen\<close> is kept), and changes no
  byte outside the \<open>strlen + 1\<close> bytes of the destination.
\<close>

lemma strcpy_strcmp_roundtrip:
  assumes "cstr m src s" and "regions_disjoint dst (Suc (length s)) src (Suc (length s))"
  shows "\<exists>m'. strcpy m dst src = Some m' \<and> strcmp m' dst src = Some 0 \<and>
    strlen m' dst = strlen m src \<and> (\<forall>b. in_region dst (Suc (length s)) b \<or> m' b = m b)"
proof -
  obtain m' where m': "strcpy m dst src = Some m'" "cstr m' dst s"
    and frame: "\<forall>b. \<not> in_region dst (Suc (length s)) b \<longrightarrow> m' b = m b"
    using strcpy_copies[OF assms] by blast
  have "\<not> in_region dst (Suc (length s)) (src + of_nat i)" if "i \<le> length s" for i
    using region_not_in[OF assms(2)] that cstr_length[OF assms(1)] by simp
  then have "cstr m' src s" using assms(1) frame by (simp add: cstr_iff)
  with m' frame assms(1) show ?thesis by (auto simp: strcmp_eq_0 strlen_cstr)
qed

lemma strcpy_strcmp_roundtrip_example:
  "\<exists>m'. strcpy example_strings 300 100 = Some m' \<and> strcmp m' 300 100 = Some 0 \<and>
    strlen m' 300 = strlen example_strings 100 \<and>
    (\<forall>b. in_region 300 (Suc (length [97, 98, 97, 98, 99 :: u8])) b \<or> m' b = example_strings b)"
  by (rule strcpy_strcmp_roundtrip)
    (simp_all add: example_strings_def regions_disjoint_def)

end
