(* ===== verification/Strconv.thy ===== *)
theory Strconv
  imports Cstring
begin

text \<open>
  Number formatting, \<^verbatim>\<open>lib/strconv.c\<close>. The local buffer \<open>char c[33]\<close> is the list of digits written so
  far; writing at index 33 or dividing by zero is undefined in C, and the model faults (\<open>None\<close>) there.
  The accumulator is an \<open>int\<close>, so the loop test reads the 32-bit value as a signed number, while
  \<open>acc % base\<close> and \<open>acc /= base\<close> are unsigned because \<open>base\<close> is.
\<close>

definition itoa_digit :: "u32 \<Rightarrow> u8" where
  "itoa_digit d = (map (\<lambda>ch. of_nat (of_char ch)) ''0123456789abcdef'') ! unat d"

function itoa_loop :: "u32 \<Rightarrow> u32 \<Rightarrow> u8 list \<Rightarrow> u8 list option" where
  "itoa_loop acc base c =
     (if 0 < sint acc
      then if base = 0 \<or> 33 \<le> length c then None
           else itoa_loop (acc div base) base (c @ [itoa_digit (acc mod base)])
      else Some c)"
  by pat_completeness auto
termination by (relation "measure (\<lambda>(acc, base, c). 33 - length c)") auto

declare itoa_loop.simps [simp del]

definition itoa :: "mem \<Rightarrow> u32 \<Rightarrow> u32 \<Rightarrow> ptr \<Rightarrow> mem option" where
  "itoa m v base buf =
     (if v = 0 then Some (m(buf := 48, buf + 1 := 0))
      else if base > 16 then Some m
      else do {
        c \<leftarrow> itoa_loop v base [];
        if 33 \<le> length c then None
        else let i = length c; m = m(buf + of_nat i := 0)
             in Some (for_upto i (\<lambda>j m. m(buf + of_nat (i - 1 - j) := c ! j)) m)
      })"

section \<open>The digits\<close>

definition digit_val :: "u8 \<Rightarrow> nat" where
  "digit_val ch = (if unat ch \<le> 57 then unat ch - 48 else unat ch - 87)"

text \<open>The value of a numeral in positional notation, least significant digit first.\<close>

primrec le_value_of :: "nat \<Rightarrow> u8 list \<Rightarrow> nat" where
  "le_value_of base [] = 0"
| "le_value_of base (d # ds) = digit_val d + base * le_value_of base ds"

lemma digit_val_itoa_digit:
  assumes "unat d < 16"
  shows "digit_val (itoa_digit d) = unat d \<and> itoa_digit d \<noteq> 0"
proof -
  have "unat d \<in> set [0..<16]" using assms by simp
  then show ?thesis by (simp add: upt_rec) (auto simp: itoa_digit_def digit_val_def)
qed

lemma itoa_loop_digits:
  assumes "2 \<le> unat base" and "unat base \<le> 16"
    and "unat acc < 2 ^ n" and "length c + n \<le> 31"
  shows "\<exists>ds. itoa_loop acc base c = Some (c @ ds) \<and> length ds \<le> n \<and>
    le_value_of (unat base) ds = unat acc \<and> 0 \<notin> set ds \<and> (if acc = 0 then ds = [] else ds \<noteq> [] \<and> digit_val (last ds) \<noteq> 0)"
  using assms(3,4)
proof (induction n arbitrary: acc c)
  case 0
  then show ?case by (subst itoa_loop.simps) (simp add: unat_eq_0)
next
  case (Suc n)
  show ?case
  proof (cases "acc = 0")
    case True
    then show ?thesis by (subst itoa_loop.simps) simp
  next
    case False
    have "(2::nat) ^ Suc n \<le> 2 ^ 31" using Suc.prems(2) by (intro power_increasing) auto
    then have pos: "0 < sint acc"
      using Suc.prems(1) False by (simp add: sint_pos_iff unat_gt_0)
    let ?d = "itoa_digit (acc mod base)"
    have d: "digit_val ?d = unat acc mod unat base \<and> ?d \<noteq> 0"
      using digit_val_itoa_digit[of "acc mod base"] assms(1,2)
      by (simp add: unat_mod less_le_trans[OF mod_less_divisor])
    have "unat acc div unat base \<le> unat acc div 2" using assms(1) by (intro div_le_mono2) auto
    with Suc.prems(1) have lt: "unat (acc div base) < 2 ^ n" by (simp add: unat_div)
    have "length (c @ [?d]) + n \<le> 31" using Suc.prems(2) by simp
    from Suc.IH[OF lt this] obtain ds where
      ds: "itoa_loop (acc div base) base (c @ [?d]) = Some ((c @ [?d]) @ ds)" "length ds \<le> n"
        "le_value_of (unat base) ds = unat acc div unat base" "0 \<notin> set ds"
        "if acc div base = 0 then ds = [] else ds \<noteq> [] \<and> digit_val (last ds) \<noteq> 0"
      unfolding unat_div by blast
    have "itoa_loop acc base c = Some (c @ (?d # ds))"
      using pos ds(1) assms(1) Suc.prems(2) by (subst itoa_loop.simps) auto
    moreover have "digit_val (last (?d # ds)) \<noteq> 0"
    proof (cases "acc div base = 0")
      case True
      then have "unat acc < unat base" using assms(1) by (simp add: unat_eq_0[symmetric] unat_div div_eq_0_iff)
      then show ?thesis using True ds(5) d False by (simp add: unat_eq_0)
    qed (use ds(5) in auto)
    ultimately show ?thesis using ds(2-4) d False by (intro exI[of _ "?d # ds"]) auto
  qed
qed

section \<open>The buffer\<close>

text \<open>The second loop writes the digits back to front.\<close>

lemma for_upto_reverse:
  fixes buf :: u32
  assumes "k \<le> n" and "n < 4294967296"
  shows "for_upto k (\<lambda>j m. m(buf + of_nat (n - 1 - j) := c ! j)) m b =
    (if n - k \<le> unat (b - buf) \<and> unat (b - buf) < n then c ! (n - 1 - unat (b - buf)) else m b)"
  using assms(1)
proof (induction k)
  case (Suc k)
  let ?u = "unat (b - buf)"
  have eq: "b = buf + of_nat (n - 1 - k) \<longleftrightarrow> ?u = n - 1 - k"
    using assms(2) by (intro eq_add_of_nat_iff) simp
  have IH: "for_upto k (\<lambda>j m. m(buf + of_nat (n - 1 - j) := c ! j)) m b =
      (if n - k \<le> ?u \<and> ?u < n then c ! (n - 1 - ?u) else m b)"
    using Suc.prems by (intro Suc.IH) simp
  show ?case
    using Suc.prems by (subst for_upto_Suc, subst fun_upd_apply, subst eq, subst IH) auto
qed auto

lemma for_upto_reverse_cstr:
  assumes "length c < 4294967296" and "0 \<notin> set c"
  shows "cstr (for_upto (length c) (\<lambda>j m. m(buf + of_nat (length c - 1 - j) := c ! j))
     (m(buf + of_nat (length c) := 0))) buf (rev c)"
  unfolding cstr_iff
proof (intro conjI allI impI)
  fix i assume i: "i < length (rev c)"
  then show "for_upto (length c) (\<lambda>j m. m(buf + of_nat (length c - 1 - j) := c ! j))
      (m(buf + of_nat (length c) := 0)) (buf + of_nat i) = rev c ! i"
    using assms(1) by (subst for_upto_reverse) (auto simp: of_nat_unat_u32 rev_nth)
  show "rev c ! i \<noteq> 0" using i assms(2) by (metis nth_mem set_rev)
qed (use assms(1) in \<open>subst for_upto_reverse, auto simp: of_nat_unat_u32\<close>)

lemma itoa_result:
  assumes "itoa_loop v base [] = Some ds" and "length ds \<le> 31" and "0 \<notin> set ds" and "v \<noteq> 0" and "unat base \<le> 16"
  obtains m' where "itoa m v base buf = Some m'" and "cstr m' buf (rev ds)"
    and "\<And>b. in_region buf (Suc (length ds)) b \<or> m' b = m b"
proof
  let ?m = "for_upto (length ds) (\<lambda>j m. m(buf + of_nat (length ds - 1 - j) := ds ! j))
     (m(buf + of_nat (length ds) := 0))"
  have "\<not> 16 < base" using assms(5) by (auto simp: word_less_nat_alt)
  then show "itoa m v base buf = Some ?m" using assms(1,2,4) by (simp add: itoa_def Let_def)
  show "cstr ?m buf (rev ds)" by (rule for_upto_reverse_cstr) (use assms(2,3) in auto)
  show "in_region buf (Suc (length ds)) b \<or> ?m b = m b" for b
    using assms(2) by (subst for_upto_reverse) (auto simp: in_region_def of_nat_unat_u32)
qed

text \<open>
  For every positive value below \<open>2^31\<close> and base 2 to 16, \<open>itoa\<close> returns and leaves in the buffer
  a terminated numeral of at most 31 digits, without a leading zero, whose value in that base is the
  number; no byte beyond the numeral and its terminator is written.
\<close>

lemma itoa_positional:
  assumes "0 < unat v" and "unat v < 2147483648" and "2 \<le> unat base" and "unat base \<le> 16"
  shows "\<exists>m' ds. itoa m v base buf = Some m' \<and> cstr m' buf ds \<and> length ds \<le> 31 \<and>
    le_value_of (unat base) (rev ds) = unat v \<and> digit_val (hd ds) \<noteq> 0 \<and>
    (\<forall>b. in_region buf (Suc (length ds)) b \<or> m' b = m b)"
proof -
  obtain ds where ds: "itoa_loop v base [] = Some ds" "length ds \<le> 31"
      "le_value_of (unat base) ds = unat v" "0 \<notin> set ds" "ds \<noteq> []" "digit_val (last ds) \<noteq> 0"
    using itoa_loop_digits[of base v 31 "[]"] assms by (auto split: if_splits)
  have "v \<noteq> 0" using assms(1) by auto
  from itoa_result[OF ds(1,2,4) this assms(4), of m buf] show ?thesis
    using ds by (metis hd_rev length_rev rev_rev_ident)
qed

text \<open>
  A value of \<open>2^31\<close> or more is negative in the \<open>int\<close> accumulator, the digit loop never runs, and
  \<open>itoa\<close> leaves the empty string in the buffer although its parameter is unsigned.
\<close>

lemma itoa_large_empty:
  assumes "2147483648 \<le> unat v" and "unat base \<le> 16"
  shows "itoa m v base buf = Some (m(buf := 0))"
proof -
  have "\<not> 0 < sint v" using assms(1) by (simp add: sint_pos_iff)
  moreover have "v \<noteq> 0" "\<not> 16 < base" using assms by (auto simp: word_less_nat_alt)
  ultimately show ?thesis by (simp add: itoa_def itoa_loop.simps)
qed

lemma itoa_large_empty_example: "itoa (\<lambda>_. 7) 4294967295 10 1000 = Some ((\<lambda>_. 7)(1000 := 0))"
  by (rule itoa_large_empty) simp_all

end
