(* ===== verification/Ringbuffer.thy ===== *)
theory Ringbuffer
  imports Memory
begin

text \<open>
  The ring buffer of \<^verbatim>\<open>lib/ringbuffer.c\<close>: a record of indices over an array of \<open>max_size\<close> elements of
  \<open>elem_size\<close> bytes in memory. Division by zero (\<open>max_size = 0\<close>, or \<open>max_size + 1\<close> wrapping to 0)
  faults, which is \<open>None\<close>.

  The contract of a bounded FIFO queue is the locale \<open>bounded_queue\<close>; it is interpreted on
  \<open>ringbuffer_push\<close> and \<open>ringbuffer_pop\<close>, with the queue's contents read from memory.
\<close>

record ringbuffer =
  rb_data :: ptr
  elem_size :: size_t
  max_size :: size_t
  read_idx :: size_t
  write_idx :: size_t
  rb_size :: size_t

definition ringbuffer_at :: "ringbuffer \<Rightarrow> size_t \<Rightarrow> ptr" where
  "ringbuffer_at rb idx = rb_data rb + idx * elem_size rb"

definition ringbuffer_empty :: "ringbuffer \<Rightarrow> bool" where
  "ringbuffer_empty rb \<longleftrightarrow> rb_size rb = 0"

definition ringbuffer_full :: "ringbuffer \<Rightarrow> bool" where
  "ringbuffer_full rb \<longleftrightarrow> rb_size rb = max_size rb"

definition ringbuffer_init :: "mem \<Rightarrow> ringbuffer \<Rightarrow> cbool \<Rightarrow> mem \<times> ringbuffer" where
  "ringbuffer_init m rb zero =
     (let rb = rb\<lparr>read_idx := 0, write_idx := 0, rb_size := 0\<rparr>;
          rb = (if elem_size rb = 0 then rb\<lparr>elem_size := 1\<rparr> else rb)
      in (if zero \<noteq> 0 then memset m (rb_data rb) 0 (elem_size rb * max_size rb) else m, rb))"

text \<open>
  \<open>rbp\<close> and \<open>data\<close> are what the two \<open>kmalloc\<close> calls return, for the structure and for
  \<open>elem_size * max_size\<close> bytes; the fields the source has not assigned yet are those of the
  uninitialised structure \<open>rb\<close>.
\<close>

definition ringbuffer_create ::
    "mem \<Rightarrow> ptr \<Rightarrow> ringbuffer \<Rightarrow> ptr \<Rightarrow> size_t \<Rightarrow> size_t \<Rightarrow> (mem \<times> ringbuffer) option" where
  "ringbuffer_create m rbp rb data maxsz elemsz =
     (if rbp = NULL then None
      else Some (ringbuffer_init m (rb\<lparr>rb_data := data, max_size := maxsz, elem_size := elemsz\<rparr>) 1))"

definition ringbuffer_push :: "mem \<Rightarrow> ringbuffer \<Rightarrow> ptr \<Rightarrow> (mem \<times> ringbuffer \<times> ptr) option" where
  "ringbuffer_push m rb v =
     (let e = ringbuffer_at rb (write_idx rb);
          rb = rb\<lparr>write_idx := write_idx rb + 1\<rparr>;
          m = memcpy m e v (elem_size rb)
      in if max_size rb = 0 then None
         else let rb = rb\<lparr>write_idx := write_idx rb mod max_size rb\<rparr>;
                  rb = rb\<lparr>rb_size := rb_size rb + 1\<rparr>
              in if max_size rb + 1 = 0 then None
                 else Some (m, rb\<lparr>rb_size := rb_size rb mod (max_size rb + 1)\<rparr>, e))"

partial_function (option) ringbuffer_pushn_loop ::
    "mem \<Rightarrow> ringbuffer \<Rightarrow> ptr \<Rightarrow> ptr \<Rightarrow> (mem \<times> ringbuffer) option" where
  "ringbuffer_pushn_loop m rb data endp =
     (if data < endp
      then do { (m, rb, e) \<leftarrow> ringbuffer_push m rb data;
                ringbuffer_pushn_loop m rb (data + elem_size rb) endp }
      else Some (m, rb))"

definition ringbuffer_pushn :: "mem \<Rightarrow> ringbuffer \<Rightarrow> ptr \<Rightarrow> size_t \<Rightarrow> (mem \<times> ringbuffer) option" where
  "ringbuffer_pushn m rb data n = ringbuffer_pushn_loop m rb data (data + n * elem_size rb)"

definition ringbuffer_pop :: "ringbuffer \<Rightarrow> (ringbuffer \<times> ptr) option" where
  "ringbuffer_pop rb =
     (if ringbuffer_empty rb then Some (rb, NULL)
      else let e = ringbuffer_at rb (read_idx rb);
               rb = rb\<lparr>read_idx := read_idx rb + 1\<rparr>
           in if max_size rb = 0 then None
              else let rb = rb\<lparr>read_idx := read_idx rb mod max_size rb\<rparr>
                   in Some (rb\<lparr>rb_size := rb_size rb - 1\<rparr>, e))"

section \<open>The contract of a bounded queue\<close>

text \<open>
  \<open>arg s v\<close> is the element that the argument \<open>v\<close> of \<open>put\<close> denotes in state \<open>s\<close>, when it denotes one.
\<close>

locale bounded_queue =
  fixes invar :: "'s \<Rightarrow> bool"
    and elems :: "'s \<Rightarrow> 'e list"
    and capacity :: "'s \<Rightarrow> nat"
    and arg :: "'s \<Rightarrow> 'v \<Rightarrow> 'e option"
    and put :: "'s \<Rightarrow> 'v \<Rightarrow> 's option"
    and get :: "'s \<Rightarrow> ('e \<times> 's) option"
  assumes put_ok: "invar s \<Longrightarrow> arg s v = Some x \<Longrightarrow> length (elems s) < capacity s \<Longrightarrow>
      \<exists>s'. put s v = Some s' \<and> invar s' \<and> elems s' = elems s @ [x] \<and>
        capacity s' = capacity s \<and> arg s' = arg s"
    and get_ok: "invar s \<Longrightarrow> elems s = x # xs \<Longrightarrow>
      \<exists>s'. get s = Some (x, s') \<and> invar s' \<and> elems s' = xs \<and>
        capacity s' = capacity s \<and> arg s' = arg s"
begin

primrec put_all :: "'s \<Rightarrow> 'v list \<Rightarrow> 's option" where
  "put_all s [] = Some s"
| "put_all s (v # vs) = do { s \<leftarrow> put s v; put_all s vs }"

primrec get_all :: "'s \<Rightarrow> nat \<Rightarrow> ('e list \<times> 's) option" where
  "get_all s 0 = Some ([], s)"
| "get_all s (Suc n) = do { (x, s) \<leftarrow> get s; (xs, s) \<leftarrow> get_all s n; Some (x # xs, s) }"

lemma put_all_ok:
  assumes "invar s" and "map (arg s) vs = map Some xs" and "length (elems s) + length vs \<le> capacity s"
  shows "\<exists>s'. put_all s vs = Some s' \<and> invar s' \<and> elems s' = elems s @ xs \<and>
    capacity s' = capacity s \<and> arg s' = arg s"
  using assms
proof (induction vs arbitrary: s xs)
  case (Cons v vs)
  then obtain x ys where xs: "xs = x # ys" "arg s v = Some x" "map (arg s) vs = map Some ys"
    by (cases xs) auto
  obtain t where t: "put s v = Some t" "invar t" "elems t = elems s @ [x]"
      "capacity t = capacity s" "arg t = arg s"
    using put_ok[OF Cons.prems(1) xs(2)] Cons.prems(3) by auto
  from Cons.IH[of t ys] t xs(3) Cons.prems(3) show ?case by (auto simp: xs(1))
qed simp

lemma get_all_ok:
  assumes "invar s" and "n \<le> length (elems s)"
  shows "\<exists>s'. get_all s n = Some (take n (elems s), s') \<and> invar s' \<and> elems s' = drop n (elems s)"
  using assms
proof (induction n arbitrary: s)
  case (Suc n)
  then obtain x xs where xs: "elems s = x # xs" by (cases "elems s") auto
  obtain t where t: "get s = Some (x, t)" "invar t" "elems t = xs"
    using get_ok[OF Suc.prems(1) xs] by auto
  from Suc.IH[of t] t Suc.prems(2) xs show ?case by auto
qed simp

lemma fifo:
  assumes "invar s" and "map (arg s) vs = map Some xs" and "length (elems s) + length vs \<le> capacity s"
  shows "\<exists>s' s''. put_all s vs = Some s' \<and>
    get_all s' (length (elems s) + length vs) = Some (elems s @ xs, s'') \<and> elems s'' = []"
proof -
  obtain s' where s': "put_all s vs = Some s'" "invar s'" "elems s' = elems s @ xs"
    using put_all_ok[OF assms] by auto
  moreover have "length vs = length xs" using assms(2) by (metis length_map)
  ultimately show ?thesis using get_all_ok[OF s'(2), of "length (elems s) + length vs"] by auto
qed

end

section \<open>Contents and invariant\<close>

definition bytes_at :: "mem \<Rightarrow> ptr \<Rightarrow> nat \<Rightarrow> u8 list" where
  "bytes_at m p n = map (\<lambda>i. m (p + of_nat i)) [0..<n]"

definition rb_slot :: "ringbuffer \<Rightarrow> nat \<Rightarrow> ptr" where
  "rb_slot rb i = rb_data rb + of_nat (i * unat (elem_size rb))"

definition rb_wf :: "ringbuffer \<Rightarrow> bool" where
  "rb_wf rb \<longleftrightarrow> rb_data rb \<noteq> 0 \<and> 0 < elem_size rb \<and> 0 < max_size rb \<and> max_size rb + 1 \<noteq> 0 \<and>
     unat (rb_data rb) + unat (max_size rb) * unat (elem_size rb) \<le> 4294967296 \<and>
     read_idx rb < max_size rb \<and> write_idx rb < max_size rb \<and> rb_size rb \<le> max_size rb \<and>
     unat (write_idx rb) = (unat (read_idx rb) + unat (rb_size rb)) mod unat (max_size rb)"

definition rb_elems :: "mem \<Rightarrow> ringbuffer \<Rightarrow> u8 list list" where
  "rb_elems m rb =
     map (\<lambda>k. bytes_at m (rb_slot rb ((unat (read_idx rb) + k) mod unat (max_size rb))) (unat (elem_size rb)))
       [0..<unat (rb_size rb)]"

text \<open>An element to be pushed lies outside the buffer's own array.\<close>

definition rb_arg :: "mem \<Rightarrow> ringbuffer \<Rightarrow> ptr \<Rightarrow> u8 list option" where
  "rb_arg m rb v =
     (if regions_disjoint (rb_data rb) (unat (max_size rb) * unat (elem_size rb)) v (unat (elem_size rb))
      then Some (bytes_at m v (unat (elem_size rb))) else None)"

lemma bytes_at_cong: "(\<And>i. i < n \<Longrightarrow> m (p + of_nat i) = m' (q + of_nat i)) \<Longrightarrow> bytes_at m p n = bytes_at m' q n"
  by (simp add: bytes_at_def)

lemma length_bytes_at [simp]: "length (bytes_at m p n) = n"
  by (simp add: bytes_at_def)

lemma length_rb_elems [simp]: "length (rb_elems m rb) = unat (rb_size rb)"
  by (simp add: rb_elems_def)

lemma ringbuffer_at_slot: "ringbuffer_at rb i = rb_slot rb (unat i)"
  by (simp add: ringbuffer_at_def rb_slot_def)

lemma slot_bound:
  assumes "i < unat (max_size rb)" and "t < unat (elem_size rb)"
  shows "i * unat (elem_size rb) + t < unat (max_size rb) * unat (elem_size rb)"
proof -
  have "i * unat (elem_size rb) + t < Suc i * unat (elem_size rb)" using assms(2) by simp
  also have "\<dots> \<le> unat (max_size rb) * unat (elem_size rb)" using assms(1) by (intro mult_le_mono1) simp
  finally show ?thesis .
qed

lemma rb_wf_span: "rb_wf rb \<Longrightarrow> unat (max_size rb) * unat (elem_size rb) < 4294967296"
  by (auto simp: rb_wf_def unat_gt_0[symmetric])

lemma rb_slot_nonnull: "rb_wf rb \<Longrightarrow> i < unat (max_size rb) \<Longrightarrow> rb_slot rb i \<noteq> NULL"
proof
  assume wf: "rb_wf rb" and i: "i < unat (max_size rb)" and "rb_slot rb i = NULL"
  have "0 < unat (elem_size rb)"
    "unat (rb_data rb) + unat (max_size rb) * unat (elem_size rb) \<le> 4294967296"
    using wf by (auto simp: rb_wf_def word_less_nat_alt)
  with slot_bound[OF i, of 0] have "unat (rb_data rb) + i * unat (elem_size rb) < 4294967296" by linarith
  then have "unat (rb_slot rb i) = unat (rb_data rb) + i * unat (elem_size rb)"
    unfolding rb_slot_def by (subst unat_word_ariths) (simp add: of_nat_unat_u32 del: of_nat_mult)
  then show False using wf \<open>rb_slot rb i = NULL\<close> by (simp add: rb_wf_def unat_eq_0)
qed

lemma slot_region:
  assumes wf: "rb_wf rb" and i: "i < unat (max_size rb)" and j: "j < unat (max_size rb)"
    and t: "t < unat (elem_size rb)"
  shows "in_region (rb_slot rb i) (unat (elem_size rb)) (rb_slot rb j + of_nat t) \<longleftrightarrow> i = j"
proof
  let ?es = "unat (elem_size rb)"
  assume r: "in_region (rb_slot rb i) ?es (rb_slot rb j + of_nat t)"
  define u where "u = unat (rb_slot rb j + of_nat t - rb_slot rb i)"
  have u: "u < ?es" using r by (simp add: u_def in_region_def)
  have "rb_slot rb i + of_nat u = rb_slot rb j + of_nat t" by (simp add: u_def)
  then have "(of_nat (i * ?es + u) :: u32) = of_nat (j * ?es + t)"
    by (simp add: rb_slot_def add.assoc)
  moreover have "i * ?es + u < 4294967296" "j * ?es + t < 4294967296"
    using slot_bound[OF i u] slot_bound[OF j t] rb_wf_span[OF wf] by linarith+
  ultimately have "i * ?es + u = j * ?es + t" by (metis of_nat_unat_u32)
  then have "(i * ?es + u) div ?es = (j * ?es + t) div ?es" by simp
  then show "i = j" using u t by simp
next
  have "t < 4294967296" using t unat_u32_bound[of "elem_size rb"] by linarith
  then show "i = j \<Longrightarrow> in_region (rb_slot rb i) (unat (elem_size rb)) (rb_slot rb j + of_nat t)"
    using t by (simp add: in_region_def of_nat_unat_u32)
qed

lemma slot_disjoint:
  assumes "regions_disjoint (rb_data rb) (unat (max_size rb) * unat (elem_size rb)) v n"
    and "i < unat (max_size rb)" and "0 < elem_size rb"
  shows "regions_disjoint (rb_slot rb i) (unat (elem_size rb)) v n"
  unfolding rb_slot_def using assms slot_bound[OF assms(2), of "unat (elem_size rb) - 1"]
  by (intro regions_disjoint_sub[OF assms(1)]) (auto simp: word_less_nat_alt)

lemma slot_write:
  fixes m :: mem
  assumes wf: "rb_wf rb" and w: "w < unat (max_size rb)"
    and dis: "regions_disjoint (rb_data rb) (unat (max_size rb) * unat (elem_size rb)) v (unat (elem_size rb))"
  defines "m' \<equiv> memcpy m (rb_slot rb w) v (elem_size rb)"
  shows "j < unat (max_size rb) \<Longrightarrow> bytes_at m' (rb_slot rb j) (unat (elem_size rb)) =
      (if j = w then bytes_at m v (unat (elem_size rb)) else bytes_at m (rb_slot rb j) (unat (elem_size rb)))"
    and "regions_disjoint (rb_data rb) (unat (max_size rb) * unat (elem_size rb)) u n \<Longrightarrow>
      bytes_at m' u n = bytes_at m u n"
proof -
  have es: "0 < elem_size rb" using wf by (simp add: rb_wf_def)
  have m': "m' b = (if in_region (rb_slot rb w) (unat (elem_size rb)) b then m (v + (b - rb_slot rb w)) else m b)" for b
    unfolding m'_def by (rule memcpy_apply[OF slot_disjoint[OF dis w es]])
  show "j < unat (max_size rb) \<Longrightarrow> bytes_at m' (rb_slot rb j) (unat (elem_size rb)) =
      (if j = w then bytes_at m v (unat (elem_size rb)) else bytes_at m (rb_slot rb j) (unat (elem_size rb)))"
    using slot_region[OF wf w] by (auto intro!: bytes_at_cong simp: m')
  show "bytes_at m' u n = bytes_at m u n"
    if "regions_disjoint (rb_data rb) (unat (max_size rb) * unat (elem_size rb)) u n"
  proof (rule bytes_at_cong)
    fix i assume "i < n"
    moreover have "n \<le> 4294967296" "unat (elem_size rb) \<le> 4294967296"
      using that unat_u32_bound[of "rb_data rb - u"] unat_u32_bound[of "elem_size rb"]
      by (auto simp: regions_disjoint_def)
    ultimately have "\<not> in_region (rb_slot rb w) (unat (elem_size rb)) (u + of_nat i)"
      by (intro region_not_in[OF slot_disjoint[OF that w es]])
    then show "m' (u + of_nat i) = m (u + of_nat i)" by (simp add: m')
  qed
qed

section \<open>The ring buffer is a bounded queue\<close>

lemma ringbuffer_push_ok:
  assumes wf: "rb_wf rb" and x: "rb_arg m rb v = Some x" and room: "unat (rb_size rb) < unat (max_size rb)"
  shows "\<exists>m' rb'. ringbuffer_push m rb v = Some (m', rb', rb_slot rb (unat (write_idx rb))) \<and> rb_wf rb' \<and>
    rb_elems m' rb' = rb_elems m rb @ [x] \<and> max_size rb' = max_size rb \<and> elem_size rb' = elem_size rb \<and>
    rb_data rb' = rb_data rb \<and> (\<forall>u. rb_arg m' rb' u = rb_arg m rb u)"
proof -
  let ?w = "unat (write_idx rb)" and ?mx = "unat (max_size rb)" and ?es = "unat (elem_size rb)"
    and ?r = "unat (read_idx rb)" and ?n = "unat (rb_size rb)"
  let ?m = "memcpy m (rb_slot rb ?w) v (elem_size rb)"
  let ?rb = "rb\<lparr>write_idx := (write_idx rb + 1) mod max_size rb,
      rb_size := (rb_size rb + 1) mod (max_size rb + 1)\<rparr>"
  have nz: "max_size rb \<noteq> 0" "max_size rb + 1 \<noteq> 0" and lt: "write_idx rb < max_size rb" "rb_size rb < max_size rb"
    and w: "?w = (?r + ?n) mod ?mx"
    using wf room by (auto simp: rb_wf_def word_less_nat_alt)
  have dis: "regions_disjoint (rb_data rb) (?mx * ?es) v ?es" and xv: "x = bytes_at m v ?es"
    using x by (auto simp: rb_arg_def split: if_splits)
  have mx1: "unat (max_size rb + 1) = Suc ?mx" using nz(2) by (metis add.commute unatSuc)
  have n1: "unat (rb_size ?rb) = Suc ?n"
    using room mx1 unat_inc[OF lt(2)] by (simp add: unat_mod)
  have w1: "unat (write_idx ?rb) = (?r + Suc ?n) mod ?mx"
    using unat_inc[OF lt(1)] w by (simp add: unat_mod mod_Suc_eq)
  have "ringbuffer_push m rb v = Some (?m, ?rb, rb_slot rb ?w)"
    using nz by (simp add: ringbuffer_push_def ringbuffer_at_slot Let_def)
  moreover have "rb_wf ?rb"
    using wf w1 n1 room nz(1) unfolding rb_wf_def by (simp add: word_less_nat_alt word_le_nat_alt)
  moreover have "rb_elems ?m ?rb = rb_elems m rb @ [x]"
  proof -
    have slot: "rb_slot ?rb = rb_slot rb" by (simp add: rb_slot_def fun_eq_iff)
    have neq: "(?r + k) mod ?mx \<noteq> ?w" if "k < ?n" for k
    proof
      assume "(?r + k) mod ?mx = ?w"
      then have "(?r + ?n) mod ?mx = (?r + k) mod ?mx" using w by simp
      then have "?mx dvd ?n - k" using that by (simp add: mod_eq_dvd_iff_nat)
      then show False using that room by (auto dest: dvd_imp_le)
    qed
    note wr = slot_write(1)[OF wf _ dis, of ?w _ m]
    have wmx: "?w < ?mx" using lt(1) by (simp add: word_less_nat_alt)
    then have mxp: "0 < ?mx" by simp
    have "rb_elems ?m ?rb = map (\<lambda>k. bytes_at ?m (rb_slot rb ((?r + k) mod ?mx)) ?es) [0..<Suc ?n]"
      unfolding rb_elems_def n1 slot by simp
    also have "\<dots> = rb_elems m rb @ [bytes_at m v ?es]"
      using wr[OF wmx] neq mxp w[symmetric] by (simp add: rb_elems_def)
    finally show ?thesis using xv by simp
  qed
  moreover have "rb_arg ?m ?rb u = rb_arg m rb u" for u
    using slot_write(2)[OF wf _ dis, of ?w u ?es m] lt(1) by (simp add: rb_arg_def word_less_nat_alt)
  ultimately show ?thesis by (intro exI[of _ ?m] exI[of _ ?rb]) simp
qed

lemma ringbuffer_pop_ok:
  assumes wf: "rb_wf rb" and "rb_elems m rb = x # xs"
  shows "\<exists>rb'. ringbuffer_pop rb = Some (rb', rb_slot rb (unat (read_idx rb))) \<and> rb_wf rb' \<and>
    bytes_at m (rb_slot rb (unat (read_idx rb))) (unat (elem_size rb)) = x \<and>
    rb_elems m rb' = xs \<and> max_size rb' = max_size rb \<and> elem_size rb' = elem_size rb \<and> rb_data rb' = rb_data rb"
proof -
  let ?mx = "unat (max_size rb)" and ?r = "unat (read_idx rb)" and ?n = "unat (rb_size rb)"
  let ?rb = "rb\<lparr>read_idx := (read_idx rb + 1) mod max_size rb, rb_size := rb_size rb - 1\<rparr>"
  have len: "?n = Suc (length xs)" using assms(2) length_rb_elems[of m rb] by simp
  then have n0: "rb_size rb \<noteq> 0" by auto
  have lt: "read_idx rb < max_size rb" and nz: "max_size rb \<noteq> 0" using wf by (auto simp: rb_wf_def)
  then have rmx: "?r < ?mx" by (simp add: word_less_nat_alt)
  have r1: "unat (read_idx ?rb) = Suc ?r mod ?mx" using unat_inc[OF lt] by (simp add: unat_mod)
  have n1: "unat (rb_size ?rb) = length xs" using len n0 by (simp add: unat_minus_one)
  have slot: "rb_slot ?rb = rb_slot rb" by (simp add: rb_slot_def fun_eq_iff)
  have "ringbuffer_pop rb = Some (?rb, rb_slot rb ?r)"
    using n0 nz by (simp add: ringbuffer_pop_def ringbuffer_empty_def ringbuffer_at_slot Let_def)
  moreover have "rb_wf ?rb"
    using wf r1 n1 len rmx unfolding rb_wf_def
    by (simp add: word_less_nat_alt word_le_nat_alt mod_add_left_eq)
  moreover have all: "rb_elems m rb = bytes_at m (rb_slot rb ?r) (unat (elem_size rb)) # rb_elems m ?rb"
    unfolding rb_elems_def len n1 slot r1 map_upt_Suc using rmx by (simp add: mod_add_left_eq)
  ultimately show ?thesis using assms(2) by (intro exI[of _ ?rb]) simp
qed

definition rb_put :: "mem \<times> ringbuffer \<Rightarrow> ptr \<Rightarrow> (mem \<times> ringbuffer) option" where
  "rb_put s v = do { (m, rb, e) \<leftarrow> ringbuffer_push (fst s) (snd s) v; Some (m, rb) }"

definition rb_get :: "mem \<times> ringbuffer \<Rightarrow> (u8 list \<times> mem \<times> ringbuffer) option" where
  "rb_get s = do { (rb, e) \<leftarrow> ringbuffer_pop (snd s);
     if e = NULL then None else Some (bytes_at (fst s) e (unat (elem_size (snd s))), fst s, rb) }"

primrec rb_get_n :: "mem \<times> ringbuffer \<Rightarrow> nat \<Rightarrow> (u8 list list \<times> mem \<times> ringbuffer) option" where
  "rb_get_n s 0 = Some ([], s)"
| "rb_get_n s (Suc n) = do { (x, s) \<leftarrow> rb_get s; (xs, s) \<leftarrow> rb_get_n s n; Some (x # xs, s) }"

interpretation rbq: bounded_queue "\<lambda>s. rb_wf (snd s)" "\<lambda>s. rb_elems (fst s) (snd s)"
    "\<lambda>s. unat (max_size (snd s))" "\<lambda>s. rb_arg (fst s) (snd s)" rb_put rb_get
proof (unfold_locales, goal_cases)
  case (1 s v x)
  then show ?case using ringbuffer_push_ok[of "snd s" "fst s" v x] by (fastforce simp: rb_put_def)
next
  case (2 s x xs)
  then have "unat (read_idx (snd s)) < unat (max_size (snd s))" by (simp add: rb_wf_def word_less_nat_alt)
  with 2 have "rb_slot (snd s) (unat (read_idx (snd s))) \<noteq> NULL" by (intro rb_slot_nonnull)
  moreover obtain rb' where
    "ringbuffer_pop (snd s) = Some (rb', rb_slot (snd s) (unat (read_idx (snd s))))" "rb_wf rb'"
    "bytes_at (fst s) (rb_slot (snd s) (unat (read_idx (snd s)))) (unat (elem_size (snd s))) = x"
    "rb_elems (fst s) rb' = xs" "max_size rb' = max_size (snd s)"
    "elem_size rb' = elem_size (snd s)" "rb_data rb' = rb_data (snd s)"
    using ringbuffer_pop_ok[OF 2] by blast
  ultimately show ?case
    by (intro exI[of _ "(fst s, rb')"]) (auto simp: rb_get_def rb_arg_def fun_eq_iff)
qed

lemma rb_get_n_eq: "rb_get_n s n = rbq.get_all s n"
  by (induction n arbitrary: s) simp_all

lemma ringbuffer_push_elem_size:
  "ringbuffer_push m rb v = Some (m', rb', e) \<Longrightarrow> elem_size rb' = elem_size rb"
  by (auto simp: ringbuffer_push_def Let_def split: if_splits)

lemma pushn_loop_put_all:
  assumes "rbq.put_all (m, rb) (map (\<lambda>i. data + of_nat (i * es)) [0..<n]) = Some s'"
    and "es = unat (elem_size rb)" and "unat data + n * es < 4294967296" and "0 < es"
  shows "ringbuffer_pushn_loop m rb data (data + of_nat (n * es)) = Some s'"
  using assms
proof (induction n arbitrary: m rb data)
  case 0
  then show ?case by (simp add: ringbuffer_pushn_loop.simps)
next
  case (Suc n)
  have "map (\<lambda>i. data + of_nat (i * es)) [0..<Suc n] =
      data # map (\<lambda>i. (data + of_nat es) + of_nat (i * es)) [0..<n]"
    unfolding map_upt_Suc by (simp add: algebra_simps)
  with Suc.prems(1) obtain t where put: "rb_put (m, rb) data = Some t"
    and "rbq.put_all t (map (\<lambda>i. (data + of_nat es) + of_nat (i * es)) [0..<n]) = Some s'"
    by (simp only: rbq.put_all.simps bind_eq_Some_conv) blast
  moreover from put obtain m1 rb1 e where p: "ringbuffer_push m rb data = Some (m1, rb1, e)" "t = (m1, rb1)"
    by (auto simp: rb_put_def bind_eq_Some_conv)
  ultimately have rest: "rbq.put_all (m1, rb1) (map (\<lambda>i. (data + of_nat es) + of_nat (i * es)) [0..<n]) = Some s'"
    by simp
  have es1: "es = unat (elem_size rb1)" using ringbuffer_push_elem_size[OF p(1)] Suc.prems(2) by simp
  have bound: "unat data + Suc n * es < 4294967296" by (rule Suc.prems(3))
  then have step: "unat (data + of_nat es) = unat data + es"
    by (simp add: unat_word_ariths of_nat_unat_u32)
  have "unat (data + of_nat (Suc n * es)) = unat data + Suc n * es"
    using bound by (simp add: unat_word_ariths of_nat_unat_u32 del: of_nat_mult mult_Suc)
  then have "data < data + of_nat (Suc n * es)" using Suc.prems(4) by (simp add: word_less_nat_alt)
  moreover have "data + of_nat (Suc n * es) = (data + of_nat es) + of_nat (n * es)"
    by (simp add: algebra_simps)
  moreover have "elem_size rb1 = of_nat es" using es1 by simp
  moreover have "ringbuffer_pushn_loop m1 rb1 (data + of_nat es) ((data + of_nat es) + of_nat (n * es)) = Some s'"
    using bound step by (intro Suc.IH[OF rest es1 _ Suc.prems(4)]) simp
  ultimately show ?case using p by (subst ringbuffer_pushn_loop.simps) (simp add: add.assoc)
qed

lemma ringbuffer_pushn_ok:
  fixes m :: mem
  assumes wf: "rb_wf rb" and room: "unat (rb_size rb) + unat n \<le> unat (max_size rb)"
    and src: "unat data + unat n * unat (elem_size rb) < 4294967296"
    and dis: "regions_disjoint (rb_data rb) (unat (max_size rb) * unat (elem_size rb))
       data (unat n * unat (elem_size rb))"
  defines "xs \<equiv> map (\<lambda>i. bytes_at m (data + of_nat (i * unat (elem_size rb))) (unat (elem_size rb))) [0..<unat n]"
  shows "\<exists>m' rb'. ringbuffer_pushn m rb data n = Some (m', rb') \<and> rb_wf rb' \<and>
    rb_elems m' rb' = rb_elems m rb @ xs \<and> max_size rb' = max_size rb"
proof -
  let ?es = "unat (elem_size rb)"
  let ?vs = "map (\<lambda>i. data + of_nat (i * ?es)) [0..<unat n]"
  have es: "0 < ?es" using wf by (simp add: rb_wf_def word_less_nat_alt)
  have "rb_arg m rb (data + of_nat (i * ?es)) = Some (bytes_at m (data + of_nat (i * ?es)) ?es)"
    if "i < unat n" for i
  proof -
    have "Suc i * ?es \<le> unat n * ?es" using that by (intro mult_le_mono1) simp
    then have "regions_disjoint (data + of_nat (i * ?es)) ?es (rb_data rb) (unat (max_size rb) * ?es)"
      using es dis by (intro regions_disjoint_sub[of _ "unat n * ?es"]) (simp_all add: regions_disjoint_sym add.commute)
    then show ?thesis by (simp add: rb_arg_def regions_disjoint_sym)
  qed
  then have "map (rb_arg m rb) ?vs = map Some xs" by (simp add: xs_def)
  then obtain s' where s': "rbq.put_all (m, rb) ?vs = Some s'" "rb_wf (snd s')"
      "rb_elems (fst s') (snd s') = rb_elems m rb @ xs" "unat (max_size (snd s')) = unat (max_size rb)"
    using rbq.put_all_ok[of "(m, rb)" ?vs xs] wf room by auto
  have "n * elem_size rb = of_nat (unat n * ?es)" by simp
  then have "ringbuffer_pushn m rb data n = Some s'"
    unfolding ringbuffer_pushn_def using pushn_loop_put_all[OF s'(1) refl src es] by metis
  with s' show ?thesis by (intro exI[of _ "fst s'"] exI[of _ "snd s'"]) (simp add: word_unat_eq_iff)
qed

text \<open>
  Pushing a block of \<open>n\<close> elements that fits into a well-formed ring buffer and lies outside it, and
  then popping everything, returns the elements that were queued before followed by the \<open>n\<close> elements of
  the block, in order, and leaves the buffer empty: no element is lost, duplicated or reordered, whatever
  the position of the indices (wrap-around included).
\<close>

lemma ringbuffer_pushn_fifo:
  assumes "rb_wf rb" and "unat (rb_size rb) + unat n \<le> unat (max_size rb)"
    and "unat data + unat n * unat (elem_size rb) < 4294967296"
    and "regions_disjoint (rb_data rb) (unat (max_size rb) * unat (elem_size rb))
       data (unat n * unat (elem_size rb))"
  shows "\<exists>m' rb' s. ringbuffer_pushn m rb data n = Some (m', rb') \<and> rb_wf rb' \<and>
    rb_get_n (m', rb') (unat (rb_size rb) + unat n) =
      Some (rb_elems m rb @ map (\<lambda>i. bytes_at m (data + of_nat (i * unat (elem_size rb))) (unat (elem_size rb)))
        [0..<unat n], s) \<and> ringbuffer_empty (snd s)"
proof -
  obtain m' rb' where p: "ringbuffer_pushn m rb data n = Some (m', rb')" "rb_wf rb'"
    "rb_elems m' rb' = rb_elems m rb @
      map (\<lambda>i. bytes_at m (data + of_nat (i * unat (elem_size rb))) (unat (elem_size rb))) [0..<unat n]"
    using ringbuffer_pushn_ok[OF assms, of m] by blast
  then have "length (rb_elems m' rb') = unat (rb_size rb) + unat n" by (simp del: length_rb_elems) simp
  moreover have "rb_elems (fst s) (snd s) = [] \<Longrightarrow> ringbuffer_empty (snd s)" for s
    using length_rb_elems[of "fst s" "snd s"] by (simp add: ringbuffer_empty_def unat_eq_0)
  ultimately show ?thesis
    using rbq.get_all_ok[of "(m', rb')" "unat (rb_size rb) + unat n"] p by (auto simp: rb_get_n_eq)
qed

definition example_rb :: ringbuffer where
  "example_rb = \<lparr>rb_data = 1000, elem_size = 2, max_size = 3, read_idx = 2, write_idx = 0, rb_size = 1\<rparr>"

lemma ringbuffer_pushn_fifo_example:
  "\<exists>m' rb' s. ringbuffer_pushn (\<lambda>a. ucast a) example_rb 50 2 = Some (m', rb') \<and> rb_wf rb' \<and>
    rb_get_n (m', rb') (unat (rb_size example_rb) + unat (2 :: u32)) =
      Some (rb_elems (\<lambda>a. ucast a) example_rb @
        map (\<lambda>i. bytes_at (\<lambda>a. ucast a) (50 + of_nat (i * unat (elem_size example_rb))) (unat (elem_size example_rb)))
        [0..<unat (2 :: u32)], s) \<and> ringbuffer_empty (snd s)"
  by (rule ringbuffer_pushn_fifo) (simp_all add: example_rb_def rb_wf_def regions_disjoint_def)

text \<open>
  Pushing onto a full buffer does not fail and does not drop the oldest element: the size wraps to 0,
  so every queued element, the new one included, is lost.
\<close>

lemma ringbuffer_push_full_empties:
  assumes "rb_wf rb" and "ringbuffer_full rb"
  shows "\<exists>m' rb' e. ringbuffer_push m rb v = Some (m', rb', e) \<and> ringbuffer_empty rb' \<and> rb_elems m' rb' = []"
proof -
  have "max_size rb \<noteq> 0" "max_size rb + 1 \<noteq> 0" using assms(1) by (auto simp: rb_wf_def)
  then show ?thesis
    using assms(2) by (simp add: ringbuffer_push_def Let_def ringbuffer_full_def ringbuffer_empty_def rb_elems_def)
qed

lemma ringbuffer_push_full_empties_example:
  "\<exists>m' rb' e. ringbuffer_push (\<lambda>_. 0) (example_rb\<lparr>rb_size := 3, write_idx := 2\<rparr>) 50 = Some (m', rb', e) \<and>
    ringbuffer_empty rb' \<and> rb_elems m' rb' = []"
  by (rule ringbuffer_push_full_empties) (simp_all add: example_rb_def rb_wf_def ringbuffer_full_def)

text \<open>A buffer just created is well-formed and empty.\<close>

lemma ringbuffer_create_wf:
  assumes "rbp \<noteq> NULL" and "data \<noteq> NULL" and "maxsz \<noteq> 0" and "maxsz + 1 \<noteq> 0"
    and "unat data + unat maxsz * unat elemsz \<le> 4294967296" and "elemsz \<noteq> 0"
  shows "\<exists>m' rb'. ringbuffer_create m rbp rb data maxsz elemsz = Some (m', rb') \<and> rb_wf rb' \<and>
    ringbuffer_empty rb' \<and> max_size rb' = maxsz \<and> elem_size rb' = elemsz \<and> rb_data rb' = data"
  using assms
  by (simp add: ringbuffer_create_def ringbuffer_init_def Let_def rb_wf_def ringbuffer_empty_def word_neq_0_conv)

end
