(* ===== verification/Pmm.thy ===== *)
theory Pmm
  imports Bitmap
begin

text \<open>
  The physical frame allocator of \<^verbatim>\<open>mm/pmm.c\<close>: a bitmap with one bit per 4 KiB frame, set when the
  frame is in use. Its state is the pair of globals \<open>pmm_bitmap\<close> and \<open>pmm_initialised\<close>.

  The locale \<open>frame_allocator\<close> is the contract its clients rely on (paging, the heap); it is interpreted
  on \<open>pmm_alloc\<close> and \<open>pmm_free\<close>.
\<close>

record pmm =
  pmm_bitmap :: bitmap
  pmm_initialised :: bool

text \<open>
  \<open>blk\<close> is the memory that \<open>kimalloc\<close> hands out for the bitmap. The first 1024 frames (4 MiB, the
  kernel image) are flipped to used.
\<close>

definition pmm_init :: "pmm \<Rightarrow> size_t \<Rightarrow> size_t \<Rightarrow> u8 list \<Rightarrow> pmm" where
  "pmm_init p total_memory memory_size blk =
     (let memory_size = (if memory_size = 0 then total_memory else memory_size);
          bm = \<lparr>bits = blk, bsize = memory_size div 4096 + of_bool (memory_size mod 4096 \<noteq> 0)\<rparr>;
          bm = bitmap_init bm;
          bm = for_upto 1024 (\<lambda>i b. bitmap_flip b (of_nat i)) bm
      in p\<lparr>pmm_bitmap := bm, pmm_initialised := True\<rparr>)"

text \<open>\<open>idx\<close> is a \<open>size_t\<close>: the comparison with zero is unsigned, as in the source.\<close>

definition pmm_alloc :: "pmm \<Rightarrow> size_t \<Rightarrow> u32 \<times> pmm" where
  "pmm_alloc p count =
     (let (idx, bm) = bitmap_scan_flip (pmm_bitmap p) 0 count 0; p = p\<lparr>pmm_bitmap := bm\<rparr>
      in if idx < 0 then (idx, p) else (push_bit 12 idx, p))"

definition pmm_free :: "pmm \<Rightarrow> u32 \<Rightarrow> size_t \<Rightarrow> pmm" where
  "pmm_free p frame count =
     p\<lparr>pmm_bitmap := bitmap_setmulti (pmm_bitmap p) 0 (drop_bit 12 frame) count\<rparr>"

text \<open>\<open>pg\<close> is the page-table entry the source reads through its pointer argument.\<close>

definition pmm_free_desc :: "pmm \<Rightarrow> u32 \<Rightarrow> size_t \<Rightarrow> pmm" where
  "pmm_free_desc p pg count = pmm_free p (pg AND NOT 0xFFF) count"

definition pmm_set :: "pmm \<Rightarrow> u32 \<Rightarrow> size_t \<Rightarrow> cbool \<Rightarrow> pmm" where
  "pmm_set p frame count avail =
     p\<lparr>pmm_bitmap := bitmap_setmulti (pmm_bitmap p) (of_bool (avail = 0)) (drop_bit 12 frame) count\<rparr>"

definition pmm_dump :: "pmm \<Rightarrow> string" where
  "pmm_dump p = bitmap_dump (pmm_bitmap p) 0 (- 1)"

definition pmm_dump_pretty :: "pmm \<Rightarrow> string" where
  "pmm_dump_pretty p = bitmap_dump_pretty (pmm_bitmap p) 0 (- 1)"

section \<open>The contract of a frame allocator\<close>

definition free_run :: "(nat \<Rightarrow> bool) \<Rightarrow> nat \<Rightarrow> nat \<Rightarrow> nat \<Rightarrow> bool" where
  "free_run used tot n f \<longleftrightarrow> f + n \<le> tot \<and> (\<forall>k < n. \<not> used (f + k))"

locale frame_allocator =
  fixes invar :: "'s \<Rightarrow> bool"
    and frames :: "'s \<Rightarrow> nat"
    and used :: "'s \<Rightarrow> nat \<Rightarrow> bool"
    and alloc :: "'s \<Rightarrow> u32 \<Rightarrow> u32 \<times> 's"
    and free :: "'s \<Rightarrow> u32 \<Rightarrow> u32 \<Rightarrow> 's"
  assumes alloc_ok: "invar s \<Longrightarrow> n \<noteq> 0 \<Longrightarrow> free_run (used s) (frames s) (unat n) q \<Longrightarrow> alloc s n = (a, s') \<Longrightarrow>
      \<exists>f \<le> q. a = push_bit 12 (of_nat f) \<and> free_run (used s) (frames s) (unat n) f \<and> invar s' \<and>
        frames s' = frames s \<and> (\<forall>j. used s' j \<longleftrightarrow> used s j \<or> f \<le> j \<and> j < f + unat n)"
    and free_ok: "invar s \<Longrightarrow> f + unat n \<le> frames s \<Longrightarrow> s' = free s (push_bit 12 (of_nat f)) n \<Longrightarrow>
      invar s' \<and> frames s' = frames s \<and> (\<forall>j. used s' j \<longleftrightarrow> used s j \<and> \<not> (f \<le> j \<and> j < f + unat n))"
begin

lemma alloc_free_restores:
  assumes "invar s" and "n \<noteq> 0" and "free_run (used s) (frames s) (unat n) q"
    and "alloc s n = (a, s')"
  shows "used (free s' a n) j \<longleftrightarrow> used s j"
proof -
  obtain f where f: "a = push_bit 12 (of_nat f)" "free_run (used s) (frames s) (unat n) f" "invar s'"
      "frames s' = frames s" "\<forall>j. used s' j \<longleftrightarrow> used s j \<or> f \<le> j \<and> j < f + unat n"
    using alloc_ok[OF assms] by blast
  then have "used (free s' a n) j \<longleftrightarrow> used s' j \<and> \<not> (f \<le> j \<and> j < f + unat n)"
    using free_ok[of s' f n] by (auto simp: free_run_def)
  moreover have "f \<le> j \<and> j < f + unat n \<Longrightarrow> \<not> used s j"
    using f(2) by (auto simp: free_run_def dest: spec[of _ "j - f"])
  ultimately show ?thesis using f(5) by blast
qed

lemma alloc_twice_disjoint:
  assumes "invar s" and "n \<noteq> 0" and "k \<noteq> 0"
    and "free_run (used s) (frames s) (unat n) q" and "alloc s n = (a, s')"
    and "free_run (used s') (frames s') (unat k) r" and "alloc s' k = (b, s'')"
  shows "\<exists>f g. a = push_bit 12 (of_nat f) \<and> b = push_bit 12 (of_nat g) \<and>
    f + unat n \<le> frames s \<and> g + unat k \<le> frames s \<and> {f..<f + unat n} \<inter> {g..<g + unat k} = {}"
proof -
  obtain f where f: "a = push_bit 12 (of_nat f)" "free_run (used s) (frames s) (unat n) f" "invar s'"
      "frames s' = frames s" "\<forall>j. used s' j \<longleftrightarrow> used s j \<or> f \<le> j \<and> j < f + unat n"
    using alloc_ok[OF assms(1,2,4,5)] by blast
  obtain g where g: "b = push_bit 12 (of_nat g)" "free_run (used s') (frames s') (unat k) g"
    using alloc_ok[OF f(3) assms(3,6,7)] by blast
  have dis: "j \<notin> {g..<g + unat k}" if "j \<in> {f..<f + unat n}" for j
  proof
    assume "j \<in> {g..<g + unat k}"
    then have "\<not> used s' j" using g(2) by (auto simp: free_run_def dest: spec[of _ "j - g"])
    with that f(5) show False by auto
  qed
  have "f + unat n \<le> frames s \<and> g + unat k \<le> frames s" using f(2,4) g(2) by (simp add: free_run_def)
  with f(1) g(1) dis show ?thesis by blast
qed

end

section \<open>The bitmap implements the contract\<close>

text \<open>A 32-bit physical address space has at most \<open>2^20\<close> frames.\<close>

definition pmm_wf :: "pmm \<Rightarrow> bool" where
  "pmm_wf p \<longleftrightarrow> bitmap_wf (pmm_bitmap p) \<and> unat (bsize (pmm_bitmap p)) \<le> 1048576"

definition frame_count :: "pmm \<Rightarrow> nat" where
  "frame_count p = unat (bsize (pmm_bitmap p))"

definition frame_used :: "pmm \<Rightarrow> nat \<Rightarrow> bool" where
  "frame_used p f \<longleftrightarrow> f < frame_count p \<and> bitmap_test (pmm_bitmap p) (of_nat f)"

lemma unat_push_bit_12: "unat w < 1048576 \<Longrightarrow> unat (push_bit 12 w :: u32) = unat w * 4096"
  by (simp add: push_bit_eq_mult unat_word_ariths)

lemma unat_drop_bit_12: "unat (drop_bit 12 w :: u32) = unat w div 4096"
  by (simp add: drop_bit_eq_div unat_div)

lemma frame_number: "f < 1048576 \<Longrightarrow> drop_bit 12 (push_bit 12 (of_nat f :: u32)) = of_nat f"
  by (simp add: word_unat_eq_iff unat_drop_bit_12 unat_push_bit_12 of_nat_unat_u32)

lemma free_run_bit_run:
  "free_run (frame_used p) (frame_count p) n f \<longleftrightarrow> bit_run (pmm_bitmap p) 0 n 0 f"
  by (auto simp: free_run_def bit_run_def frame_used_def frame_count_def bit_matches_def)

lemma pmm_alloc_ok:
  assumes wf: "pmm_wf p" and n: "n \<noteq> 0" and run: "free_run (frame_used p) (frame_count p) (unat n) q"
    and al: "pmm_alloc p n = (a, p')"
  shows "\<exists>f \<le> q. a = push_bit 12 (of_nat f) \<and> free_run (frame_used p) (frame_count p) (unat n) f \<and> pmm_wf p' \<and>
    frame_count p' = frame_count p \<and> (\<forall>j. frame_used p' j \<longleftrightarrow> frame_used p j \<or> f \<le> j \<and> j < f + unat n)"
proof -
  obtain idx bm where sf: "bitmap_scan_flip (pmm_bitmap p) 0 n 0 = (idx, bm)" by fastforce
  have bw: "bitmap_wf (pmm_bitmap p)" using wf by (simp add: pmm_wf_def)
  have res: "bit_run (pmm_bitmap p) 0 (unat n) 0 (unat idx)" "unat idx \<le> q" "bitmap_wf bm"
      "\<forall>j. bitmap_test bm j = (if idx \<le> j \<and> unat j < unat idx + unat n
         then \<not> bitmap_test (pmm_bitmap p) j else bitmap_test (pmm_bitmap p) j)"
    using bitmap_scan_flip_success[OF bw n run[unfolded free_run_bit_run] sf] by auto
  have sz: "bsize bm = bsize (pmm_bitmap p)"
    using bitmap_scan_flip_wf(2)[OF bw, of 0 n 0] sf by simp
  have a: "a = push_bit 12 (of_nat (unat idx))" "p' = p\<lparr>pmm_bitmap := bm\<rparr>"
    using al sf by (auto simp: pmm_alloc_def)
  have fr: "free_run (frame_used p) (frame_count p) (unat n) (unat idx)" using res(1) free_run_bit_run by blast
  have "frame_used p' j \<longleftrightarrow> frame_used p j \<or> unat idx \<le> j \<and> j < unat idx + unat n" for j
  proof (cases "j < frame_count p")
    case True
    then have j: "unat (of_nat j :: u32) = j"
      using unat_u32_bound[of "bsize (pmm_bitmap p)"] by (simp add: frame_count_def of_nat_unat_u32)
    have "unat idx \<le> j \<and> j < unat idx + unat n \<Longrightarrow> \<not> frame_used p j"
      using fr by (auto simp: free_run_def dest: spec[of _ "j - unat idx"])
    then show ?thesis
      using True res(4) j sz by (auto simp: frame_used_def frame_count_def a(2) word_le_nat_alt)
  next
    case False
    then show ?thesis using fr sz by (auto simp: frame_used_def frame_count_def a(2) free_run_def)
  qed
  then show ?thesis
    using a fr res(2,3) wf sz
    by (intro exI[of _ "unat idx"]) (simp add: pmm_wf_def frame_count_def)
qed

lemma pmm_free_ok:
  assumes wf: "pmm_wf p" and f: "f + unat n \<le> frame_count p"
    and p': "p' = pmm_free p (push_bit 12 (of_nat f)) n"
  shows "pmm_wf p' \<and> frame_count p' = frame_count p \<and>
    (\<forall>j. frame_used p' j \<longleftrightarrow> frame_used p j \<and> \<not> (f \<le> j \<and> j < f + unat n))"
proof (cases "n = 0")
  case True
  then have "p' = p" using p' by (simp add: pmm_free_def bitmap_setmulti_def)
  then show ?thesis using True wf by simp
next
  case False
  have bw: "bitmap_wf (pmm_bitmap p)" and lim: "frame_count p \<le> 1048576"
    using wf by (auto simp: pmm_wf_def frame_count_def)
  have "0 < unat n" using False by (simp add: unat_gt_0)
  then have f20: "f < 1048576" using f lim by linarith
  then have fw: "drop_bit 12 (push_bit 12 (of_nat f)) = (of_nat f :: u32)" by (rule frame_number)
  have uf: "unat (of_nat f :: u32) = f" using f20 by (simp add: of_nat_unat_u32)
  then have le: "of_nat f \<le> bsize (pmm_bitmap p)" using f by (simp add: word_le_nat_alt frame_count_def)
  note tst = bitmap_test_setmulti[OF bw le, of 0 n]
  note wf' = bitmap_setmulti_wf[OF bw, of 0 "of_nat f" n]
  have "frame_used p' j \<longleftrightarrow> frame_used p j \<and> \<not> (f \<le> j \<and> j < f + unat n)" for j
  proof (cases "j < frame_count p")
    case True
    then have "unat (of_nat j :: u32) = j" using lim by (simp add: of_nat_unat_u32)
    then show ?thesis using True tst uf wf'
      by (auto simp: p' pmm_free_def fw frame_used_def frame_count_def word_le_nat_alt word_less_nat_alt)
  qed (use wf' in \<open>auto simp: p' pmm_free_def fw frame_used_def frame_count_def\<close>)
  then show ?thesis using wf wf' by (simp add: p' pmm_free_def fw pmm_wf_def frame_count_def)
qed

interpretation pm: frame_allocator pmm_wf frame_count frame_used pmm_alloc pmm_free
  by unfold_locales (fact pmm_alloc_ok, fact pmm_free_ok)

section \<open>Properties\<close>

text \<open>
  C39: When \<open>n\<close> consecutive free frames exist, \<open>pmm_alloc n\<close> returns the page-aligned address of the first
  such run, marks exactly those frames used and no other, and a second allocation gets frames disjoint
  from the first.
\<close>

theorem pmm_alloc_first_fit:
  assumes "pmm_wf p" and "n \<noteq> 0" and "k \<noteq> 0"
    and "free_run (frame_used p) (frame_count p) (unat n) q" and "pmm_alloc p n = (a, p')"
    and "free_run (frame_used p') (frame_count p') (unat k) r" and "pmm_alloc p' k = (b, p'')"
  shows "(\<exists>f \<le> q. a = push_bit 12 (of_nat f) \<and> free_run (frame_used p) (frame_count p) (unat n) f \<and>
      (\<forall>j. frame_used p' j \<longleftrightarrow> frame_used p j \<or> f \<le> j \<and> j < f + unat n)) \<and>
    (\<exists>f g. a = push_bit 12 (of_nat f) \<and> b = push_bit 12 (of_nat g) \<and>
      f + unat n \<le> frame_count p \<and> g + unat k \<le> frame_count p \<and> {f..<f + unat n} \<inter> {g..<g + unat k} = {})"
  using pm.alloc_ok[OF assms(1,2,4,5)] pm.alloc_twice_disjoint[OF assms] by blast

definition example_pmm :: pmm where
  "example_pmm = \<lparr>pmm_bitmap = \<lparr>bits = [0x03, 0], bsize = 16\<rparr>, pmm_initialised = True\<rparr>"

definition example_pmm' :: pmm where
  "example_pmm' = \<lparr>pmm_bitmap = \<lparr>bits = [0x0F, 0], bsize = 16\<rparr>, pmm_initialised = True\<rparr>"

lemma example_pmm_wf: "pmm_wf example_pmm"
  by (simp add: example_pmm_def pmm_wf_def bitmap_wf_def bitmap_byte_size_def bitmap_index_defs)

lemma example_pmm_alloc:
  "pmm_alloc example_pmm 2 = (0x2000, example_pmm')"
  "pmm_alloc example_pmm' 3 = (0x4000, \<lparr>pmm_bitmap = \<lparr>bits = [0x7F, 0], bsize = 16\<rparr>, pmm_initialised = True\<rparr>)"
  by code_simp+

lemma example_pmm_free:
  "free_run (frame_used example_pmm) (frame_count example_pmm) 2 9"
  "free_run (frame_used example_pmm') (frame_count example_pmm') 3 9"
  by (simp_all add: free_run_def example_pmm_def example_pmm'_def frame_used_def frame_count_def
      bitmap_test_def bitmap_in_bounds_def bitmap_index_defs all_less_2 all_less_3)

theorem pmm_alloc_first_fit_witness:
  "(\<exists>f \<le> 9. 0x2000 = push_bit 12 (of_nat f :: u32) \<and>
      free_run (frame_used example_pmm) (frame_count example_pmm) 2 f \<and>
      (\<forall>j. frame_used example_pmm' j \<longleftrightarrow> frame_used example_pmm j \<or> f \<le> j \<and> j < f + 2)) \<and>
    (\<exists>f g. 0x2000 = push_bit 12 (of_nat f :: u32) \<and> 0x4000 = push_bit 12 (of_nat g :: u32) \<and>
      f + 2 \<le> frame_count example_pmm \<and> g + 3 \<le> frame_count example_pmm \<and> {f..<f + 2} \<inter> {g..<g + 3} = {})"
  using pmm_alloc_first_fit[of example_pmm 2 3 9 "0x2000" example_pmm' 9 "0x4000"] example_pmm_wf example_pmm_alloc example_pmm_free by simp

text \<open>
  Freeing what \<open>pmm_alloc\<close> returned gives every frame back: the set of used frames is the one before
  the allocation.
\<close>

lemma pmm_alloc_free_roundtrip:
  assumes "pmm_wf p" and "n \<noteq> 0" and "free_run (frame_used p) (frame_count p) (unat n) q"
    and "pmm_alloc p n = (a, p')"
  shows "frame_used (pmm_free p' a n) = frame_used p"
  using pm.alloc_free_restores[OF assms] by blast

lemma pmm_alloc_free_roundtrip_example:
  "frame_used (pmm_free example_pmm' 0x2000 2) = frame_used example_pmm"
  using pmm_alloc_free_roundtrip[of example_pmm 2 9] example_pmm_wf example_pmm_alloc example_pmm_free by simp

text \<open>
  When memory is exhausted the test \<open>idx < 0\<close> of \<open>pmm_alloc\<close> cannot fire (\<open>idx\<close> is unsigned): the
  result is the page-aligned address \<open>0xFFFFF000\<close> and not an error value, and the \<open>n - 1\<close> lowest
  frames change their state, so frames that are in use become free.
\<close>

lemma pmm_alloc_exhausted:
  assumes "pmm_wf p" and "n \<noteq> 0" and "\<not> (\<exists>q. free_run (frame_used p) (frame_count p) (unat n) q)"
    and "pmm_alloc p n = (a, p')"
  shows "a = 0xFFFFF000 \<and>
    (\<forall>j. frame_used p' j = (if j < frame_count p \<and> j + 1 < unat n then \<not> frame_used p j else frame_used p j))"
proof -
  have bw: "bitmap_wf (pmm_bitmap p)" using assms(1) by (simp add: pmm_wf_def)
  obtain idx bm where sf: "bitmap_scan_flip (pmm_bitmap p) 0 n 0 = (idx, bm)" by fastforce
  note fail = bitmap_scan_flip_failure[OF bw assms(2) assms(3)[unfolded free_run_bit_run] sf]
  have sz: "bsize bm = bsize (pmm_bitmap p)" using bitmap_scan_flip_wf(2)[OF bw, of 0 n 0] sf by simp
  have "unat (of_nat j :: u32) = j" if "j < frame_count p" for j
    using that unat_u32_bound[of "bsize (pmm_bitmap p)"] by (simp add: frame_count_def of_nat_unat_u32)
  then show ?thesis using assms(4) sf fail sz
    by (auto simp: pmm_alloc_def EBITMAP_def frame_used_def frame_count_def word_less_nat_alt push_bit_eq_mult)
qed

lemma pmm_alloc_exhausted_example:
  "frame_used \<lparr>pmm_bitmap = \<lparr>bits = [0xFF], bsize = 8\<rparr>, pmm_initialised = True\<rparr> 0 \<and>
   \<not> frame_used (snd (pmm_alloc \<lparr>pmm_bitmap = \<lparr>bits = [0xFF], bsize = 8\<rparr>, pmm_initialised = True\<rparr> 2)) 0"
proof -
  let ?p = "\<lparr>pmm_bitmap = \<lparr>bits = [0xFF], bsize = 8\<rparr>, pmm_initialised = True\<rparr>"
  have "\<forall>q < 8. frame_used ?p q" "frame_count ?p = 8" by code_simp+
  moreover have "pmm_wf ?p"
    by (simp add: pmm_wf_def bitmap_wf_def bitmap_byte_size_def bitmap_index_defs)
  ultimately have "\<not> (\<exists>q. free_run (frame_used ?p) (frame_count ?p) (unat (2 :: u32)) q)"
    by (auto simp: free_run_def intro!: exI[of _ 0])
  from pmm_alloc_exhausted[OF \<open>pmm_wf ?p\<close> _ this, of "fst (pmm_alloc ?p 2)" "snd (pmm_alloc ?p 2)"]
    \<open>\<forall>q < 8. frame_used ?p q\<close> \<open>frame_count ?p = 8\<close> show ?thesis by simp
qed

text \<open>After initialisation exactly the first 4 MiB are in use.\<close>

lemma pmm_init_used:
  fixes p :: pmm and blk :: "u8 list"
  assumes "memory_size \<noteq> 0 \<or> total_memory \<noteq> 0"
  defines "p' \<equiv> pmm_init p total_memory memory_size blk"
  shows "pmm_wf p'" and "frame_used p' f \<longleftrightarrow> f < 1024 \<and> f < frame_count p'"
proof -
  define ms where "ms = (if memory_size = 0 then total_memory else memory_size)"
  define sz where "sz = ms div 4096 + of_bool (ms mod 4096 \<noteq> 0)"
  let ?bm = "bitmap_init \<lparr>bits = blk, bsize = sz\<rparr>"
  have ms: "0 < unat ms" using assms(1) by (auto simp: ms_def unat_gt_0)
  have d: "unat ms div 4096 < 1048576" using unat_u32_bound[of ms] by (simp add: div_less_iff_less_mult)
  then have sz: "unat sz = unat ms div 4096 + of_bool (unat ms mod 4096 \<noteq> 0)"
    unfolding sz_def by (subst unat_word_ariths) (auto simp: unat_div word_unat_eq_iff unat_mod)
  have pos: "0 < unat sz" "unat sz \<le> 1048576"
    using ms d unfolding sz by (auto simp: div_greater_zero_iff not_le)
  have wf: "bitmap_wf ?bm" using pos(1) by (auto simp: bitmap_wf_def bitmap_init_def Let_def bitmap_byte_size_def)
  have clear: "\<not> bitmap_test ?bm i" for i
  proof
    assume t: "bitmap_test ?bm i"
    then have "i < bsize ?bm" by (rule bitmap_test_in_bounds)
    then have "unat i \<le> unat sz - 1" by (simp add: word_less_nat_alt)
    then have "unat i div 8 < unat (bitmap_byte_size \<lparr>bits = blk, bsize = sz\<rparr>)"
      using pos(1) by (subst unat_byte_size) (auto intro: div_le_mono simp: less_Suc_eq_le)
    with t show False by (simp add: bitmap_test_bit bitmap_init_def Let_def unat_elem_index nth_append)
  qed
  define N :: nat where "N = 1024"
  have p': "p' = p\<lparr>pmm_bitmap := for_upto N (\<lambda>i b. bitmap_flip b (of_nat i)) ?bm, pmm_initialised := True\<rparr>"
    by (simp only: p'_def pmm_init_def Let_def ms_def sz_def N_def)
  have N: "N \<le> 4294967296" by (simp add: N_def)
  have flip: "bitmap_wf (pmm_bitmap p')" "bsize (pmm_bitmap p') = sz"
      "bitmap_test (pmm_bitmap p') j = (unat j < N \<and> j < sz)" for j
    using bm.flip_window[OF wf N, of 0] clear[of j] by (simp_all add: p')
  show "pmm_wf p'" using flip pos by (simp add: pmm_wf_def)
  show "frame_used p' f \<longleftrightarrow> f < 1024 \<and> f < frame_count p'"
  proof (cases "f < unat sz")
    case True
    then have "unat (of_nat f :: u32) = f" using pos(2) by (simp add: of_nat_unat_u32)
    then show ?thesis using flip(2) flip(3)[of "of_nat f"] True
      by (simp add: frame_used_def frame_count_def word_less_nat_alt N_def)
  next
    case False
    then show ?thesis using flip(2) by (simp add: frame_used_def frame_count_def)
  qed
qed

end
