(* ===== verification/Heap.thy ===== *)
theory Heap
  imports Memory Pmm
begin

text \<open>
  The kernel heap of \<^verbatim>\<open>mm/heap.c\<close>: a slab allocator over the pages of the heap window. A slab is a
  run of pages cut into objects of one size; the free objects of a slab are chained through their
  first word, which lives in kernel memory.

  \<^item> The array \<open>heap_cache\<close> and its counter \<open>heap_cache_size\<close> are one list of at most 256 slabs: the loops
    of the source never read the array beyond the counter. A pointer to a slab is its index.
  \<^item> A division by a zero object size faults (\<open>None\<close>).
  \<^item> An allocation of the boot allocator \<open>kimalloc\<close> moves \<open>imalloc_ptr\<close>.

  \<open>heap_inv\<close> is the invariant: every slab owns marked pages, the slabs do not overlap, and the free list
  of each slab is a duplicate-free chain through its own objects. From it follow the properties a client
  relies on: a live object is never handed out twice, allocation and release leave the other live objects
  alone, and writes inside live objects do not damage the heap.
\<close>

definition HEAP_SLAB_PAGES :: u32 where "HEAP_SLAB_PAGES = 4"
definition HEAP_LGSLAB_PAGES :: u32 where "HEAP_LGSLAB_PAGES = 10"
definition HEAP_BASE :: u32 where "HEAP_BASE = VIRT_BASE + 1 * 1024 * 4096"
definition HEAP_SIZE :: int where "HEAP_SIZE = 2 * 1024 * 4096"

record heap_slab =
  start :: ptr
  first :: ptr
  object_size :: u16
  inuse :: u16
  large :: cbool

record kheap =
  kheap_bitmap :: bitmap
  heap_cache :: "heap_slab list"
  imalloc_ptr :: ptr

section \<open>Operations\<close>

definition kimalloc :: "kheap \<Rightarrow> size_t \<Rightarrow> kheap \<times> ptr" where
  "kimalloc h count =
     (if count < 0 then (h, NULL)
      else (h\<lparr>imalloc_ptr := imalloc_ptr h + count\<rparr>, imalloc_ptr h))"

definition slab_has_addr :: "heap_slab \<Rightarrow> ptr \<Rightarrow> bool" where
  "slab_has_addr slab addr \<longleftrightarrow> start slab \<le> addr \<and>
     addr < start slab + (if large slab = 0 then HEAP_SLAB_PAGES else HEAP_LGSLAB_PAGES) * 4096"

text \<open>
  The loop of \<open>kheap_cache_grow\<close> that chains the \<open>n\<close> objects of a new slab, followed by the store that
  terminates the chain. \<open>current\<close> is the object written next.
\<close>

definition freelist_build :: "mem \<Rightarrow> ptr \<Rightarrow> u32 \<Rightarrow> nat \<Rightarrow> mem" where
  "freelist_build m strt sz n =
     (let (m, current) = for_upto (n - 1)
        (\<lambda>k (m, current). let nxt = strt + of_nat (k + 1) * sz in (store32 m current nxt, nxt))
        (m, strt)
      in store32 m current NULL)"

definition kheap_cache_grow ::
    "mem \<Rightarrow> kheap \<Rightarrow> u16 \<Rightarrow> cbool \<Rightarrow> (mem \<times> kheap \<times> nat option) option" where
  "kheap_cache_grow m h sz lg =
     (if length (heap_cache h) = 256 then Some (m, h, None)
      else
        let slab_size = (if lg = 0 then HEAP_SLAB_PAGES else HEAP_LGSLAB_PAGES);
            (page, bm) = bitmap_scan_flip (kheap_bitmap h) 0 slab_size 0;
            h = h\<lparr>kheap_bitmap := bm\<rparr>
        in if sint page < 0 then Some (m, h, None)
           else
             let strt = HEAP_BASE + push_bit 12 (ucast (ucast page :: u16));
                 sz = (if lg \<noteq> 0 then ucast (PG_RND_UP (ucast sz)) else sz);
                 slab_size = slab_size * 4096
             in if sz = 0 then None
                else
                  let m = freelist_build m strt (ucast sz) (unat (slab_size div ucast sz));
                      slab = \<lparr>start = strt, first = strt, object_size = sz, inuse = 0, large = lg\<rparr>
                  in Some (m, h\<lparr>heap_cache := heap_cache h @ [slab]\<rparr>, Some (length (heap_cache h))))"

text \<open>
  The source searches the cache for the slab pointer; a pointer that is not in the cache (\<open>NULL\<close>
  included) changes nothing. The last slab takes the place of the removed one.
\<close>

definition kheap_cache_shrink :: "kheap \<Rightarrow> nat option \<Rightarrow> kheap" where
  "kheap_cache_shrink h sp =
     (case sp of
        None \<Rightarrow> h
      | Some i \<Rightarrow>
          if i < length (heap_cache h) then
            let slab = heap_cache h ! i;
                bm = bitmap_setmulti (kheap_bitmap h) 0 ((start slab - HEAP_BASE) div 4096)
                       (if large slab = 0 then HEAP_SLAB_PAGES else HEAP_LGSLAB_PAGES);
                sz = length (heap_cache h) - 1;
                cache = (if i \<noteq> sz then (heap_cache h)[i := heap_cache h ! sz] else heap_cache h)
            in h\<lparr>kheap_bitmap := bm, heap_cache := take sz cache\<rparr>
          else h)"

text \<open>The best-fit search of \<open>kmalloc\<close> from slab \<open>i\<close> on; \<open>fit = 0\<close> means that none was found yet.\<close>

function kmalloc_search :: "heap_slab list \<Rightarrow> int \<Rightarrow> nat \<Rightarrow> int \<Rightarrow> nat \<Rightarrow> int \<times> nat" where
  "kmalloc_search cache sz i fit fit_idx =
     (if i < length cache then
        let slab = cache ! i in
        if first slab = NULL \<or> uint (object_size slab) < sz
        then kmalloc_search cache sz (i + 1) fit fit_idx
        else if fit = 0 \<or> uint (object_size slab) < fit
        then if uint (object_size slab) = sz then (uint (object_size slab), i)
             else kmalloc_search cache sz (i + 1) (uint (object_size slab)) i
        else kmalloc_search cache sz (i + 1) fit fit_idx
      else (fit, fit_idx))"
  by pat_completeness auto
termination by (relation "measure (\<lambda>(cache, sz, i, fit, fit_idx). length cache - i)") auto

declare kmalloc_search.simps [simp del]

text \<open>
  The argument is an \<open>int\<close>; it is compared as unsigned with \<open>sizeof\<close> and as signed elsewhere.
\<close>

definition kmalloc :: "mem \<Rightarrow> kheap \<Rightarrow> u32 \<Rightarrow> (mem \<times> kheap \<times> ptr) option" where
  "kmalloc m h sz =
     (if sz = 0 \<or> sint sz > sint (HEAP_LGSLAB_PAGES * PAGE_SIZE) then Some (m, h, NULL)
      else
        let sz = (if sz < 4 then 4 else sz);
            (fit, fit_idx) = kmalloc_search (heap_cache h) (sint sz) 0 0 0
        in do {
          (m, h, slab) \<leftarrow>
            (if fit \<noteq> 0 then Some (m, h, Some fit_idx)
             else kheap_cache_grow m h (ucast sz) (of_bool (sint sz \<ge> 1024)));
          case slab of
            None \<Rightarrow> Some (m, h, NULL)
          | Some i \<Rightarrow>
              let s = heap_cache h ! i;
                  s' = s\<lparr>inuse := inuse s + 1, first := load32 m (first s)\<rparr>
              in Some (m, h\<lparr>heap_cache := (heap_cache h)[i := s']\<rparr>, first s)
        })"

function kfree_search :: "heap_slab list \<Rightarrow> ptr \<Rightarrow> size_t \<Rightarrow> nat \<Rightarrow> nat option" where
  "kfree_search cache addr sz i =
     (if i < length cache then
        if ucast (object_size (cache ! i)) \<ge> sz \<and> slab_has_addr (cache ! i) addr then Some i
        else kfree_search cache addr sz (i + 1)
      else None)"
  by pat_completeness auto
termination by (relation "measure (\<lambda>(cache, addr, sz, i). length cache - i)") auto

declare kfree_search.simps [simp del]

definition kfree :: "mem \<Rightarrow> kheap \<Rightarrow> ptr \<Rightarrow> size_t \<Rightarrow> mem \<times> kheap" where
  "kfree m h addr sz =
     (if sz = 0 then (m, h)
      else
        let sz = (if sz < 4 then 4 else sz)
        in case kfree_search (heap_cache h) addr sz 0 of
             None \<Rightarrow> (m, h)
           | Some i \<Rightarrow>
               let s = heap_cache h ! i; s = s\<lparr>inuse := inuse s - 1\<rparr>
               in if first s = NULL
                  then (store32 m addr NULL, h\<lparr>heap_cache := (heap_cache h)[i := s\<lparr>first := addr\<rparr>]\<rparr>)
                  else if inuse s = 0
                  then (m, kheap_cache_shrink (h\<lparr>heap_cache := (heap_cache h)[i := s]\<rparr>) (Some i))
                  else (store32 m addr (first s), h\<lparr>heap_cache := (heap_cache h)[i := s\<lparr>first := addr\<rparr>]\<rparr>))"

text \<open>
  \<open>kheap_init\<close>: the marking loop passes a virtual page number to the bitmap, as in the source; \<open>blk\<close> is
  the memory \<open>kimalloc\<close> handed out for the bitmap.
\<close>

partial_function (option) kheap_mark_loop :: "kheap \<Rightarrow> ptr \<Rightarrow> kheap option" where
  "kheap_mark_loop h p =
     (if p < imalloc_ptr h
      then kheap_mark_loop (h\<lparr>kheap_bitmap := bitmap_mark (kheap_bitmap h) (drop_bit 12 p)\<rparr>) (p + 4096)
      else Some h)"

definition kheap_init :: "mem \<Rightarrow> kheap \<Rightarrow> pmm \<Rightarrow> u8 list \<Rightarrow> (mem \<times> kheap \<times> pmm) option" where
  "kheap_init m h p blk =
     (let total_page_count = word_of_int (ceil_div HEAP_SIZE (uint PAGE_SIZE));
          (h, addr) = kimalloc h (1 * total_page_count);
          h = h\<lparr>kheap_bitmap := bitmap_init \<lparr>bits = blk, bsize = total_page_count\<rparr>\<rparr>;
          p = pmm_set p (ADDR_TO_PHYS HEAP_BASE) total_page_count 0
      in do {
        h \<leftarrow> kheap_mark_loop h HEAP_BASE;
        (m, h, s1) \<leftarrow> kheap_cache_grow m h 8 0;
        (m, h, slab) \<leftarrow> kheap_cache_grow m h 16 1;
        (m, h, s2) \<leftarrow> kheap_cache_grow m h 32 1;
        let h = kheap_cache_shrink h slab;
        (m, h, s3) \<leftarrow> kheap_cache_grow m h 16 1;
        Some (m, h, p)
      })"

section \<open>The invariant\<close>

definition slab_pages :: "heap_slab \<Rightarrow> nat" where
  "slab_pages s = (if large s = 0 then 4 else 10)"

definition slab_count :: "heap_slab \<Rightarrow> nat" where
  "slab_count s = (slab_pages s * 4096) div unat (object_size s)"

definition slab_obj :: "heap_slab \<Rightarrow> nat \<Rightarrow> ptr" where
  "slab_obj s k = start s + of_nat (k * unat (object_size s))"

definition slab_objs :: "heap_slab \<Rightarrow> ptr set" where
  "slab_objs s = slab_obj s ` {..<slab_count s}"

primrec chain :: "mem \<Rightarrow> ptr \<Rightarrow> ptr list \<Rightarrow> bool" where
  "chain m p [] \<longleftrightarrow> p = NULL"
| "chain m p (x # xs) \<longleftrightarrow> p = x \<and> x \<noteq> NULL \<and> chain m (load32 m x) xs"

definition slab_at :: "heap_slab \<Rightarrow> nat \<Rightarrow> bool" where
  "slab_at s pg \<longleftrightarrow> start s = HEAP_BASE + of_nat (pg * 4096) \<and> pg + slab_pages s \<le> 2048"

definition slab_ok :: "bitmap \<Rightarrow> mem \<Rightarrow> heap_slab \<Rightarrow> ptr list \<Rightarrow> bool" where
  "slab_ok bm m s fl \<longleftrightarrow>
     (\<exists>pg. slab_at s pg \<and> (\<forall>k < slab_pages s. bitmap_test bm (of_nat (pg + k)))) \<and>
     4 \<le> unat (object_size s) \<and> unat (object_size s) \<le> slab_pages s * 4096 \<and>
     chain m (first s) fl \<and> distinct fl \<and> set fl \<subseteq> slab_objs s \<and>
     unat (inuse s) + length fl = slab_count s"

definition slab_disj :: "heap_slab \<Rightarrow> heap_slab \<Rightarrow> bool" where
  "slab_disj s t \<longleftrightarrow> unat (start s) + slab_pages s * 4096 \<le> unat (start t) \<or>
     unat (start t) + slab_pages t * 4096 \<le> unat (start s)"

definition heap_inv :: "mem \<Rightarrow> kheap \<Rightarrow> ptr list list \<Rightarrow> bool" where
  "heap_inv m h fls \<longleftrightarrow> bitmap_wf (kheap_bitmap h) \<and> bsize (kheap_bitmap h) = 2048 \<and>
     length fls = length (heap_cache h) \<and> length (heap_cache h) \<le> 256 \<and>
     (\<forall>i < length (heap_cache h). slab_ok (kheap_bitmap h) m (heap_cache h ! i) (fls ! i)) \<and>
     (\<forall>i < length (heap_cache h). \<forall>j < length (heap_cache h).
        i \<noteq> j \<longrightarrow> slab_disj (heap_cache h ! i) (heap_cache h ! j))"

text \<open>The live objects: those of some slab that are not on its free list, with their size in bytes.\<close>

definition live_objects :: "kheap \<Rightarrow> ptr list list \<Rightarrow> (ptr \<times> nat) set" where
  "live_objects h fls =
     (\<Union>i < length (heap_cache h).
        (slab_objs (heap_cache h ! i) - set (fls ! i)) \<times> {unat (object_size (heap_cache h ! i))})"

section \<open>Chains of free objects\<close>

lemma chain_cong: "(\<And>x. x \<in> set xs \<Longrightarrow> load32 m x = load32 m' x) \<Longrightarrow> chain m p xs = chain m' p xs"
  by (induction xs arbitrary: p) auto

lemma chain_map:
  assumes "i \<le> n" and "\<And>j. j < n \<Longrightarrow> ob j \<noteq> NULL"
    and "\<And>j. j < n \<Longrightarrow> load32 m (ob j) = (if Suc j < n then ob (Suc j) else NULL)"
  shows "chain m (if i < n then ob i else NULL) (map ob [i..<n])"
  using assms(1)
proof (induction "n - i" arbitrary: i)
  case (Suc d)
  then have i: "i < n" "d = n - Suc i" by auto
  have "chain m (if Suc i < n then ob (Suc i) else NULL) (map ob [Suc i..<n])"
    using i by (intro Suc.hyps(1)) auto
  then show ?case using i assms(2,3)[of i] by (simp add: upt_conv_Cons)
qed simp

lemma freelist_build_loop:
  fixes ob :: "nat \<Rightarrow> ptr"
  assumes dis: "\<And>i j. i < n \<Longrightarrow> j < n \<Longrightarrow> i \<noteq> j \<Longrightarrow> regions_disjoint (ob i) 4 (ob j) 4"
    and ob: "\<And>k. ob k = strt + of_nat k * sz" and k: "k < n"
  defines "step \<equiv> \<lambda>k (m, current). let nxt = strt + of_nat (k + 1) * sz in (store32 m current nxt, nxt)"
  shows "case for_upto k step (m, strt) of (m', current) \<Rightarrow> current = ob k \<and>
    (\<forall>j < k. load32 m' (ob j) = ob (Suc j)) \<and>
    (\<forall>b. (\<forall>j < k. \<not> in_region (ob j) 4 b) \<longrightarrow> m' b = m b)"
  using k
proof (induction k)
  case 0
  then show ?case by (simp add: ob)
next
  case (Suc k)
  obtain m1 c1 where r: "for_upto k step (m, strt) = (m1, c1)" by fastforce
  with Suc have IH: "c1 = ob k" "\<forall>j < k. load32 m1 (ob j) = ob (Suc j)"
      "\<forall>b. (\<forall>j < k. \<not> in_region (ob j) 4 b) \<longrightarrow> m1 b = m b" by auto
  have step: "for_upto (Suc k) step (m, strt) = (store32 m1 (ob k) (ob (Suc k)), ob (Suc k))"
    using r IH(1) by (simp add: step_def ob Let_def)
  have "load32 (store32 m1 (ob k) (ob (Suc k))) (ob j) = ob (Suc j)" if "j < Suc k" for j
    using that IH(2) dis[of k j] Suc.prems by (cases "j = k") (auto simp: load32_store32_other)
  moreover have "store32 m1 (ob k) (ob (Suc k)) b = m b" if "\<forall>j < Suc k. \<not> in_region (ob j) 4 b" for b
    using that IH(3) by (auto simp: store32_outside)
  ultimately show ?case unfolding step by auto
qed

lemma freelist_build_chain:
  fixes ob :: "nat \<Rightarrow> ptr"
  assumes dis: "\<And>i j. i < n \<Longrightarrow> j < n \<Longrightarrow> i \<noteq> j \<Longrightarrow> regions_disjoint (ob i) 4 (ob j) 4"
    and ob: "\<And>k. ob k = strt + of_nat k * sz" and nz: "\<And>k. k < n \<Longrightarrow> ob k \<noteq> NULL" and n: "0 < n"
  shows "chain (freelist_build m strt sz n) strt (map ob [0..<n])"
    and "(\<And>j. j < n \<Longrightarrow> \<not> in_region (ob j) 4 b) \<Longrightarrow> freelist_build m strt sz n b = m b"
proof -
  let ?step = "\<lambda>k (m, current). let nxt = strt + of_nat (k + 1) * sz in (store32 m current nxt, nxt)"
  obtain m1 c1 where r: "for_upto (n - 1) ?step (m, strt) = (m1, c1)" by fastforce
  have IH: "c1 = ob (n - 1)" "\<forall>j < n - 1. load32 m1 (ob j) = ob (Suc j)"
      "\<forall>b. (\<forall>j < n - 1. \<not> in_region (ob j) 4 b) \<longrightarrow> m1 b = m b"
    using freelist_build_loop[OF dis ob, of n "n - 1" m] r n by auto
  have m': "freelist_build m strt sz n = store32 m1 (ob (n - 1)) NULL"
    using r IH(1) by (simp add: freelist_build_def)
  have "load32 (freelist_build m strt sz n) (ob j) = (if Suc j < n then ob (Suc j) else NULL)" if "j < n" for j
  proof (cases "j = n - 1")
    case False
    then show ?thesis
      using that n IH(2) dis[of "n - 1" j] by (auto simp: m' load32_store32_other)
  qed (use n in \<open>simp add: m'\<close>)
  then show "chain (freelist_build m strt sz n) strt (map ob [0..<n])"
    using chain_map[of 0 n ob "freelist_build m strt sz n"] nz n by (simp add: ob)
  show "freelist_build m strt sz n b = m b" if "\<And>j. j < n \<Longrightarrow> \<not> in_region (ob j) 4 b"
    using that n IH(3) by (simp add: m' store32_outside)
qed

section \<open>Where objects lie\<close>

lemma HEAP_BASE_val: "HEAP_BASE = 0xC0400000"
  by (simp add: HEAP_BASE_def VIRT_BASE_def)

lemma slab_pages_bound: "slab_pages s \<le> 10" "0 < slab_pages s"
  by (simp_all add: slab_pages_def)

lemma unat_start:
  assumes "slab_at s pg"
  shows "unat (start s) = 3225419776 + pg * 4096"
  using assms by (simp add: slab_at_def HEAP_BASE_val unat_word_ariths of_nat_unat_u32)

lemma slab_at_bounds:
  assumes "slab_at s pg"
  shows "3225419776 \<le> unat (start s)" "unat (start s) + slab_pages s * 4096 \<le> 3233808384"
proof -
  have "pg + slab_pages s \<le> 2048" using assms by (simp add: slab_at_def)
  then show "3225419776 \<le> unat (start s)" "unat (start s) + slab_pages s * 4096 \<le> 3233808384"
    unfolding unat_start[OF assms] by linarith+
qed

lemma slab_obj_end:
  assumes "k < slab_count s"
  shows "k * unat (object_size s) + unat (object_size s) \<le> slab_pages s * 4096"
proof -
  have "Suc k * unat (object_size s) \<le> slab_count s * unat (object_size s)"
    using assms by (intro mult_le_mono1) simp
  also have "\<dots> \<le> slab_pages s * 4096" by (simp add: slab_count_def)
  finally show ?thesis by simp
qed

lemma unat_slab_obj:
  assumes "slab_at s pg" and "k < slab_count s"
  shows "unat (slab_obj s k) = unat (start s) + k * unat (object_size s)"
proof -
  have "k * unat (object_size s) \<le> 40960"
    using slab_obj_end[OF assms(2)] slab_pages_bound(1)[of s] by linarith
  then show ?thesis
    using slab_at_bounds[OF assms(1)] slab_obj_end[OF assms(2)] unfolding slab_obj_def
    by (subst unat_word_ariths) (simp add: of_nat_unat_u32 del: of_nat_mult)
qed

text \<open>Two regions of the address space that do not overlap, neither of them wrapping around.\<close>

definition obj_apart :: "ptr \<Rightarrow> nat \<Rightarrow> ptr \<Rightarrow> nat \<Rightarrow> bool" where
  "obj_apart a n b k \<longleftrightarrow> unat a + n \<le> 4294967296 \<and> unat b + k \<le> 4294967296 \<and>
     (unat a + n \<le> unat b \<or> unat b + k \<le> unat a)"

lemma obj_apart_regions: "obj_apart a n b k \<Longrightarrow> 0 < n \<Longrightarrow> 0 < k \<Longrightarrow> regions_disjoint a n b k"
  using regions_disjoint_nat[of a n b k] regions_disjoint_nat[of b k a n]
  by (auto simp: obj_apart_def regions_disjoint_sym)

lemma obj_apart_mono: "obj_apart a n b k \<Longrightarrow> n' \<le> n \<Longrightarrow> k' \<le> k \<Longrightarrow> obj_apart a n' b k'"
  by (auto simp: obj_apart_def)

lemma slab_obj_apart:
  assumes "slab_at s pg" and "i < slab_count s" and "j < slab_count s" and "i \<noteq> j"
  shows "obj_apart (slab_obj s i) (unat (object_size s)) (slab_obj s j) (unat (object_size s))"
proof -
  have "Suc i * unat (object_size s) \<le> j * unat (object_size s) \<or> Suc j * unat (object_size s) \<le> i * unat (object_size s)"
    using assms(4) by (metis mult_le_mono1 not_less_eq_eq le_antisym not_less_eq Suc_leI linorder_neqE_nat)
  then show ?thesis
    using slab_obj_end[OF assms(2)] slab_obj_end[OF assms(3)] slab_at_bounds[OF assms(1)]
    by (auto simp: obj_apart_def unat_slab_obj[OF assms(1,2)] unat_slab_obj[OF assms(1,3)])
qed

lemma slab_objs_apart:
  assumes "slab_at s pg" and "x \<in> slab_objs s" and "y \<in> slab_objs s" and "x \<noteq> y"
  shows "obj_apart x (unat (object_size s)) y (unat (object_size s))"
  using assms slab_obj_apart[OF assms(1)] by (auto simp: slab_objs_def)

lemma slabs_objs_apart:
  assumes "slab_at s pg" and "slab_at t pg'" and "slab_disj s t"
    and "x \<in> slab_objs s" and "y \<in> slab_objs t"
  shows "obj_apart x (unat (object_size s)) y (unat (object_size t))"
proof -
  obtain i j where i: "i < slab_count s" "x = slab_obj s i" and j: "j < slab_count t" "y = slab_obj t j"
    using assms(4,5) by (auto simp: slab_objs_def)
  show ?thesis
    using slab_obj_end[OF i(1)] slab_obj_end[OF j(1)] assms(3)
      slab_at_bounds[OF assms(1)] slab_at_bounds[OF assms(2)]
    unfolding obj_apart_def i(2) j(2) unat_slab_obj[OF assms(1) i(1)] unat_slab_obj[OF assms(2) j(1)] slab_disj_def
    by linarith
qed

lemma slab_objs_range:
  assumes "slab_at s pg" and "x \<in> slab_objs s"
  shows "unat (start s) \<le> unat x" "unat x + unat (object_size s) \<le> unat (start s) + slab_pages s * 4096" "x \<noteq> NULL"
proof -
  obtain i where i: "i < slab_count s" "x = slab_obj s i" using assms(2) by (auto simp: slab_objs_def)
  show "unat (start s) \<le> unat x" "unat x + unat (object_size s) \<le> unat (start s) + slab_pages s * 4096" "x \<noteq> NULL"
    using slab_obj_end[OF i(1)] slab_at_bounds[OF assms(1)] unat_slab_obj[OF assms(1) i(1)]
    by (auto simp: i(2))
qed

lemma inj_slab_obj: "slab_at s pg \<Longrightarrow> 0 < unat (object_size s) \<Longrightarrow> inj_on (slab_obj s) {..<slab_count s}"
  using slab_obj_apart[of s pg] by (fastforce simp: inj_on_def obj_apart_def)

lemma card_slab_objs: "slab_at s pg \<Longrightarrow> 0 < unat (object_size s) \<Longrightarrow> card (slab_objs s) = slab_count s"
  unfolding slab_objs_def by (simp add: card_image inj_slab_obj)

lemma slab_count_bound: "slab_count s \<le> 40960"
  using slab_pages_bound(1)[of s] by (simp add: slab_count_def div_le_dividend[THEN order_trans])

lemma slab_has_addr_objs:
  assumes "slab_at s pg"
  shows "slab_has_addr s x \<longleftrightarrow> unat (start s) \<le> unat x \<and> unat x < unat (start s) + slab_pages s * 4096"
proof -
  have "unat (start s + (if large s = 0 then HEAP_SLAB_PAGES else HEAP_LGSLAB_PAGES) * 4096) =
      unat (start s) + slab_pages s * 4096"
    using slab_at_bounds[OF assms]
    by (subst unat_word_ariths) (auto simp: slab_pages_def HEAP_SLAB_PAGES_def HEAP_LGSLAB_PAGES_def)
  then show ?thesis by (simp add: slab_has_addr_def word_le_nat_alt word_less_nat_alt)
qed

section \<open>Growing the cache\<close>

lemma ranges_apart:
  fixes p q :: nat
  assumes "\<forall>k < a. P (p + k)" and "\<forall>k < b. \<not> P (q + k)" and "0 < a" and "0 < b"
  shows "p + a \<le> q \<or> q + b \<le> p"
proof (rule ccontr)
  assume "\<not> (p + a \<le> q \<or> q + b \<le> p)"
  then have "max p q - p < a" "max p q - q < b" using assms(3,4) by (auto simp: max_def)
  with assms(1,2) have "P (p + (max p q - p))" "\<not> P (q + (max p q - q))" by blast+
  then show False by (simp add: max_def split: if_splits)
qed

lemma slab_ok_frame:
  assumes "slab_ok bm m s fl"
    and "\<And>pg k. slab_at s pg \<Longrightarrow> k < slab_pages s \<Longrightarrow> bitmap_test bm (of_nat (pg + k)) \<Longrightarrow> bitmap_test bm' (of_nat (pg + k))"
    and "\<And>x. x \<in> set fl \<Longrightarrow> load32 m' x = load32 m x"
  shows "slab_ok bm' m' s fl"
proof -
  have "chain m (first s) fl = chain m' (first s) fl" using assms(3) by (intro chain_cong) simp
  moreover obtain pg where "slab_at s pg" "\<forall>k < slab_pages s. bitmap_test bm (of_nat (pg + k))"
    using assms(1) by (auto simp: slab_ok_def)
  then have "slab_at s pg \<and> (\<forall>k < slab_pages s. bitmap_test bm' (of_nat (pg + k)))" using assms(2) by blast
  ultimately show ?thesis using assms(1) unfolding slab_ok_def by blast
qed

lemma slab_ok_at: "slab_ok bm m s fl \<Longrightarrow> \<exists>pg. slab_at s pg"
  by (auto simp: slab_ok_def)

text \<open>The object size a new slab gets: rounded up to pages for a large slab.\<close>

definition grown_size :: "u16 \<Rightarrow> cbool \<Rightarrow> u16" where
  "grown_size sz lg = (if lg \<noteq> 0 then ucast (PG_RND_UP (ucast sz)) else sz)"

definition new_slab :: "nat \<Rightarrow> u16 \<Rightarrow> cbool \<Rightarrow> heap_slab" where
  "new_slab pg sz lg = \<lparr>start = HEAP_BASE + of_nat (pg * 4096), first = HEAP_BASE + of_nat (pg * 4096),
     object_size = grown_size sz lg, inuse = 0, large = lg\<rparr>"

lemma new_slab_simps [simp]:
  "object_size (new_slab pg sz lg) = grown_size sz lg" "inuse (new_slab pg sz lg) = 0"
  "large (new_slab pg sz lg) = lg" "first (new_slab pg sz lg) = start (new_slab pg sz lg)"
  by (simp_all add: new_slab_def)

lemma page_start: "pg < 65536 \<Longrightarrow> push_bit 12 (ucast (ucast (of_nat pg :: u32) :: u16)) = (of_nat (pg * 4096) :: u32)"
proof -
  assume "pg < 65536"
  then have "ucast (ucast (of_nat pg :: u32) :: u16) = (of_nat pg :: u32)"
    by (simp add: word_unat_eq_iff of_nat_unat_u32)
  then show ?thesis by (simp add: push_bit_eq_mult)
qed

lemma grow_unfold:
  assumes "kheap_cache_grow m h sz lg = Some (m', h', Some i)" and "bsize (kheap_bitmap h) = 2048"
    and "bitmap_wf (kheap_bitmap h)"
  obtains pg where "bit_run (kheap_bitmap h) 0 (slab_pages (new_slab pg sz lg)) 0 pg"
    "i = length (heap_cache h)" "length (heap_cache h) \<noteq> 256"
    "m' = freelist_build m (start (new_slab pg sz lg)) (ucast (grown_size sz lg)) (slab_count (new_slab pg sz lg))"
    "heap_cache h' = heap_cache h @ [new_slab pg sz lg]"
    "\<And>j. bitmap_test (kheap_bitmap h') j \<longleftrightarrow> bitmap_test (kheap_bitmap h) j \<or>
       (pg \<le> unat j \<and> unat j < pg + slab_pages (new_slab pg sz lg))"
    "bitmap_wf (kheap_bitmap h')" "bsize (kheap_bitmap h') = 2048"
proof -
  let ?n = "if lg = 0 then HEAP_SLAB_PAGES else HEAP_LGSLAB_PAGES"
  have n: "unat ?n = (if lg = 0 then 4 else 10)" "?n \<noteq> 0"
    by (simp_all add: HEAP_SLAB_PAGES_def HEAP_LGSLAB_PAGES_def)
  obtain page bm where sf: "bitmap_scan_flip (kheap_bitmap h) 0 ?n 0 = (page, bm)" by fastforce
  have page: "0 \<le> sint page" and len: "length (heap_cache h) \<noteq> 256"
    using assms(1) sf by (auto simp: kheap_cache_grow_def Let_def split: if_splits)
  have "\<exists>q. bit_run (kheap_bitmap h) 0 (unat ?n) 0 q"
  proof (rule ccontr)
    assume "\<not> ?thesis"
    with bitmap_scan_flip_failure[OF assms(3) n(2) _ sf] have "page = - 1" by (simp add: EBITMAP_def)
    with page show False by simp
  qed
  then obtain q where q: "bit_run (kheap_bitmap h) 0 (unat ?n) 0 q" by blast
  have run: "bit_run (kheap_bitmap h) 0 (unat ?n) 0 (unat page)" "bitmap_wf bm"
    and tst: "\<And>j. bitmap_test bm j = (if page \<le> j \<and> unat j < unat page + unat ?n
       then \<not> bitmap_test (kheap_bitmap h) j else bitmap_test (kheap_bitmap h) j)"
    using bitmap_scan_flip_success[OF assms(3) n(2) q sf] by blast+
  have lim: "unat page + unat ?n \<le> 2048" using run(1) assms(2) by (simp add: bit_run_def)
  then have small: "unat page < 65536" by linarith
  have pages: "slab_pages (new_slab (unat page) sz lg) = unat ?n" using n by (simp add: slab_pages_def)
  have strt: "HEAP_BASE + push_bit 12 (ucast (ucast page :: u16)) = start (new_slab (unat page) sz lg)"
    using page_start[OF small] by (simp add: new_slab_def)
  have slab: "\<lparr>start = start (new_slab (unat page) sz lg), first = start (new_slab (unat page) sz lg),
      object_size = grown_size sz lg, inuse = 0, large = lg\<rparr> = new_slab (unat page) sz lg"
    by (simp add: new_slab_def)
  have nz: "grown_size sz lg \<noteq> 0" 
    using assms(1) sf page len by (auto simp: kheap_cache_grow_def Let_def grown_size_def[symmetric] split: if_splits)
  have cnt: "unat (?n * 4096 div ucast (grown_size sz lg)) = slab_count (new_slab (unat page) sz lg)"
    by (simp add: slab_count_def pages unat_div n HEAP_SLAB_PAGES_def HEAP_LGSLAB_PAGES_def)
  have res: "m' = freelist_build m (start (new_slab (unat page) sz lg)) (ucast (grown_size sz lg))
        (slab_count (new_slab (unat page) sz lg))"
      "h' = h\<lparr>kheap_bitmap := bm, heap_cache := heap_cache h @ [new_slab (unat page) sz lg]\<rparr>"
      "i = length (heap_cache h)"
    using assms(1) sf page len nz
    unfolding kheap_cache_grow_def Let_def grown_size_def[symmetric] by (auto simp: cnt strt slab)
  have bits: "bitmap_test (kheap_bitmap h') j \<longleftrightarrow> bitmap_test (kheap_bitmap h) j \<or>
     (unat page \<le> unat j \<and> unat j < unat page + unat ?n)" for j
  proof -
    have "\<not> bitmap_test (kheap_bitmap h) j" if "page \<le> j \<and> unat j < unat page + unat ?n"
    proof -
      have "unat j - unat page < unat ?n" "unat page \<le> unat j" using that by (auto simp: word_le_nat_alt)
      with run(1) have "bit_matches (kheap_bitmap h) 0 0 (unat page + (unat j - unat page))"
        unfolding bit_run_def by blast
      then show ?thesis using that by (simp add: bit_matches_def word_le_nat_alt)
    qed
    then show ?thesis using tst[of j] res(2) by (auto simp: word_le_nat_alt)
  qed
  show thesis
    by (rule that[of "unat page"])
      (use run bits len res assms(2) bitmap_scan_flip_wf(2)[OF assms(3), of 0 ?n 0] sf in \<open>simp_all add: pages\<close>)
qed

definition slab_range :: "heap_slab \<Rightarrow> ptr \<Rightarrow> bool" where
  "slab_range s b \<longleftrightarrow> unat (start s) \<le> unat b \<and> unat b < unat (start s) + slab_pages s * 4096"

lemma slab_ok_frame_mem:
  assumes "slab_ok bm m s fl" and "\<And>b. slab_range s b \<Longrightarrow> m' b = m b"
    and "\<And>pg k. slab_at s pg \<Longrightarrow> k < slab_pages s \<Longrightarrow> bitmap_test bm (of_nat (pg + k)) \<Longrightarrow> bitmap_test bm' (of_nat (pg + k))"
  shows "slab_ok bm' m' s fl"
proof (rule slab_ok_frame[OF assms(1)])
  fix x assume "x \<in> set fl"
  then have x: "x \<in> slab_objs s" and sz: "4 \<le> unat (object_size s)" using assms(1) by (auto simp: slab_ok_def)
  obtain pg where pg: "slab_at s pg" using slab_ok_at[OF assms(1)] by blast
  show "load32 m' x = load32 m x"
    using slab_objs_range[OF pg x] slab_at_bounds[OF pg] sz
    by (intro load32_frame assms(2)) (auto simp: slab_range_def)
qed (use assms(3) in blast)

lemma new_slab_ok:
  fixes m :: mem
  assumes pg: "slab_at s pg" and s: "s = new_slab pg sz lg" and sz: "4 \<le> unat (object_size s)"
    "unat (object_size s) \<le> slab_pages s * 4096"
    and bits: "\<And>k. k < slab_pages s \<Longrightarrow> bitmap_test bm (of_nat (pg + k))"
  defines "m' \<equiv> freelist_build m (start s) (ucast (object_size s)) (slab_count s)"
  shows "slab_ok bm m' s (map (slab_obj s) [0..<slab_count s])"
    and "\<not> slab_range s b \<Longrightarrow> m' b = m b"
proof -
  have ob: "slab_obj s k = start s + of_nat k * ucast (object_size s)" for k
    by (simp add: slab_obj_def unsigned_ucast_eq)
  have nz: "slab_obj s k \<noteq> NULL" if "k < slab_count s" for k
    using slab_objs_range(3)[OF pg] that by (auto simp: slab_objs_def)
  have n: "0 < slab_count s" using sz by (simp add: slab_count_def div_greater_zero_iff)
  have dis: "regions_disjoint (slab_obj s i) 4 (slab_obj s j) 4"
    if "i < slab_count s" "j < slab_count s" "i \<noteq> j" for i j
    using obj_apart_mono[OF slab_obj_apart[OF pg that]] sz by (intro obj_apart_regions) auto
  note fb = freelist_build_chain[OF dis ob nz n, where m = m, folded m'_def]
  have "distinct (map (slab_obj s) [0..<slab_count s])"
    using inj_slab_obj[OF pg] sz by (simp add: distinct_map atLeast0LessThan)
  then show "slab_ok bm m' s (map (slab_obj s) [0..<slab_count s])"
    using pg bits sz fb(1) by (auto simp: slab_ok_def s slab_objs_def)
  show "m' b = m b" if "\<not> slab_range s b"
  proof (rule fb(2))
    fix j assume j: "j < slab_count s"
    show "\<not> in_region (slab_obj s j) 4 b"
    proof
      assume r: "in_region (slab_obj s j) 4 b"
      have "slab_obj s j \<in> slab_objs s" using j by (simp add: slab_objs_def)
      note rg = slab_objs_range[OF pg this]
      show False using that in_region_nat[OF r] rg sz slab_at_bounds[OF pg] by (auto simp: slab_range_def)
    qed
  qed
qed

lemma kheap_cache_grow_inv:
  assumes inv: "heap_inv m h fls" and g: "kheap_cache_grow m h sz lg = Some (m', h', Some i)"
    and sz: "4 \<le> unat (grown_size sz lg)" "unat (grown_size sz lg) \<le> (if lg = 0 then 4 else 10) * 4096"
  obtains s where "i = length (heap_cache h)" "heap_cache h' = heap_cache h @ [s]"
    "object_size s = grown_size sz lg" "first s = start s"
    "heap_inv m' h' (fls @ [map (slab_obj s) [0..<slab_count s]])"
    "\<And>b. \<not> slab_range s b \<Longrightarrow> m' b = m b"
proof -
  have bm: "bsize (kheap_bitmap h) = 2048" "bitmap_wf (kheap_bitmap h)" and len: "length fls = length (heap_cache h)"
    and ok: "\<And>i. i < length (heap_cache h) \<Longrightarrow> slab_ok (kheap_bitmap h) m (heap_cache h ! i) (fls ! i)"
    and dj: "\<And>i j. i < length (heap_cache h) \<Longrightarrow> j < length (heap_cache h) \<Longrightarrow> i \<noteq> j \<Longrightarrow> slab_disj (heap_cache h ! i) (heap_cache h ! j)"
    and max: "length (heap_cache h) \<le> 256"
    using inv by (auto simp: heap_inv_def)
  from grow_unfold[OF g bm] obtain pg where
    run: "bit_run (kheap_bitmap h) 0 (slab_pages (new_slab pg sz lg)) 0 pg"
    and i: "i = length (heap_cache h)" "length (heap_cache h) \<noteq> 256"
    and m': "m' = freelist_build m (start (new_slab pg sz lg)) (ucast (grown_size sz lg)) (slab_count (new_slab pg sz lg))"
    and c: "heap_cache h' = heap_cache h @ [new_slab pg sz lg]"
    and bits: "\<And>j. bitmap_test (kheap_bitmap h') j \<longleftrightarrow> bitmap_test (kheap_bitmap h) j \<or>
       (pg \<le> unat j \<and> unat j < pg + slab_pages (new_slab pg sz lg))"
    and wf: "bitmap_wf (kheap_bitmap h')" "bsize (kheap_bitmap h') = 2048" by metis
  define s where "s = new_slab pg sz lg"
  have at: "slab_at s pg" using run bm(1) by (auto simp: slab_at_def s_def bit_run_def new_slab_def)
  have size: "4 \<le> unat (object_size s)" "unat (object_size s) \<le> slab_pages s * 4096"
    using sz by (auto simp: s_def slab_pages_def)
  have new: "bitmap_test (kheap_bitmap h') (of_nat (pg + k))" if "k < slab_pages s" for k
    using that at bits[of "of_nat (pg + k)"] by (simp add: slab_at_def s_def of_nat_unat_u32 del: of_nat_add)
  have ns: "slab_ok (kheap_bitmap h') m' s (map (slab_obj s) [0..<slab_count s])"
    "\<And>b. \<not> slab_range s b \<Longrightarrow> m' b = m b"
    using new_slab_ok[OF at s_def size new, where m = m] by (simp_all add: m' s_def)
  have apart: "slab_disj (heap_cache h ! k) s" if k: "k < length (heap_cache h)" for k
  proof -
    obtain q where q: "slab_at (heap_cache h ! k) q"
        "\<forall>t < slab_pages (heap_cache h ! k). bitmap_test (kheap_bitmap h) (of_nat (q + t))"
      using ok[OF k] by (auto simp: slab_ok_def)
    have "\<forall>t < slab_pages s. \<not> bitmap_test (kheap_bitmap h) (of_nat (pg + t))"
      using run by (simp add: bit_run_def bit_matches_def s_def)
    then have "q + slab_pages (heap_cache h ! k) \<le> pg \<or> pg + slab_pages s \<le> q"
      using q(2) slab_pages_bound by (intro ranges_apart[where P = "\<lambda>x. bitmap_test (kheap_bitmap h) (of_nat x)"]) auto
    then show ?thesis unfolding slab_disj_def unat_start[OF at] unat_start[OF q(1)] by linarith
  qed
  have old: "slab_ok (kheap_bitmap h') m' (heap_cache h ! k) (fls ! k)" if k: "k < length (heap_cache h)" for k
  proof (rule slab_ok_frame_mem[OF ok[OF k]])
    fix b assume "slab_range (heap_cache h ! k) b"
    then show "m' b = m b" using apart[OF k] by (intro ns(2)) (auto simp: slab_range_def slab_disj_def)
  qed (use bits in auto)
  have "heap_inv m' h' (fls @ [map (slab_obj s) [0..<slab_count s]])"
    unfolding heap_inv_def c s_def[symmetric] using wf len max i(2) old ns(1) apart dj
    by (auto simp: nth_append less_Suc_eq slab_disj_def)
  then show thesis using that[of s] i(1) c ns(2) by (simp add: s_def)
qed

section \<open>Allocation\<close>

definition slab_fits :: "int \<Rightarrow> heap_slab \<Rightarrow> bool" where
  "slab_fits sz s \<longleftrightarrow> first s \<noteq> NULL \<and> sz \<le> uint (object_size s)"

text \<open>What the search knows about the first \<open>i\<close> slabs: the best fit so far, or that none fits.\<close>

definition best_fit :: "heap_slab list \<Rightarrow> int \<Rightarrow> nat \<Rightarrow> int \<Rightarrow> nat \<Rightarrow> bool" where
  "best_fit cache sz i fit idx \<longleftrightarrow>
     (if fit = 0 then \<forall>k < i. \<not> slab_fits sz (cache ! k)
      else idx < length cache \<and> slab_fits sz (cache ! idx) \<and> fit = uint (object_size (cache ! idx)) \<and>
        (\<forall>k < i. slab_fits sz (cache ! k) \<longrightarrow> fit \<le> uint (object_size (cache ! k))))"

lemma kmalloc_search_best:
  assumes "\<forall>s \<in> set cache. 0 < uint (object_size s)" and "best_fit cache sz i fit idx" and "i \<le> length cache"
    and "kmalloc_search cache sz i fit idx = (fit', idx')"
  shows "best_fit cache sz (length cache) fit' idx'"
  using assms
proof (induction cache sz i fit idx rule: kmalloc_search.induct)
  case (1 cache sz i fit idx)
  show ?case
  proof (cases "i < length cache")
    case False
    then show ?thesis using "1.prems" by (simp add: kmalloc_search.simps)
  next
    case True
    let ?s = "cache ! i"
    have pos: "0 < uint (object_size ?s)" using "1.prems"(1) True by simp
    consider (no) "\<not> slab_fits sz ?s" | (worse) "slab_fits sz ?s" "\<not> (fit = 0 \<or> uint (object_size ?s) < fit)"
      | (exact) "slab_fits sz ?s" "fit = 0 \<or> uint (object_size ?s) < fit" "uint (object_size ?s) = sz"
      | (better) "slab_fits sz ?s" "fit = 0 \<or> uint (object_size ?s) < fit" "uint (object_size ?s) \<noteq> sz" by blast
    then show ?thesis
    proof cases
      case no
      then have c: "first ?s = NULL \<or> uint (object_size ?s) < sz" by (auto simp: slab_fits_def)
      have "best_fit cache sz (i + 1) fit idx"
        using "1.prems"(2) no by (auto simp: best_fit_def less_Suc_eq)
      then show ?thesis using "1.IH"(1)[OF True refl c] "1.prems"(1,4) True c
        by (simp add: kmalloc_search.simps[of cache sz i] Let_def)
    next
      case worse
      then have c: "\<not> (first ?s = NULL \<or> uint (object_size ?s) < sz)" by (auto simp: slab_fits_def)
      have "best_fit cache sz (i + 1) fit idx"
        using "1.prems"(2) worse(2) by (auto simp: best_fit_def less_Suc_eq)
      then show ?thesis using "1.IH"(3)[OF True refl c worse(2)] "1.prems"(1,4) True c worse(2)
        by (simp add: kmalloc_search.simps[of cache sz i] Let_def)
    next
      case exact
      then have "kmalloc_search cache sz i fit idx = (uint (object_size ?s), i)"
        using True by (simp add: kmalloc_search.simps[of cache sz i] Let_def slab_fits_def)
      then show ?thesis using "1.prems"(4) exact True pos by (auto simp: best_fit_def slab_fits_def)
    next
      case better
      then have c: "\<not> (first ?s = NULL \<or> uint (object_size ?s) < sz)" by (auto simp: slab_fits_def)
      have "best_fit cache sz (i + 1) (uint (object_size ?s)) i"
        using "1.prems"(2) better(1,2) True pos by (auto simp: best_fit_def less_Suc_eq split: if_splits)
      then show ?thesis using "1.IH"(2)[OF True refl c better(2,3)] "1.prems"(1,4) True c better(2,3)
        by (simp add: kmalloc_search.simps[of cache sz i] Let_def)
    qed
  qed
qed

lemma kmalloc_search_result:
  assumes "\<forall>s \<in> set cache. 0 < uint (object_size s)" and "kmalloc_search cache sz 0 0 0 = (fit, idx)"
  shows "best_fit cache sz (length cache) fit idx"
  by (rule kmalloc_search_best[OF assms(1) _ _ assms(2)]) (simp_all add: best_fit_def)

lemma heap_inv_disj:
  "heap_inv m h fls \<Longrightarrow> i < length (heap_cache h) \<Longrightarrow> j < length (heap_cache h) \<Longrightarrow> i \<noteq> j \<Longrightarrow>
   slab_disj (heap_cache h ! i) (heap_cache h ! j)"
  by (simp add: heap_inv_def)

lemma heap_inv_slab:
  "heap_inv m h fls \<Longrightarrow> i < length (heap_cache h) \<Longrightarrow> slab_ok (kheap_bitmap h) m (heap_cache h ! i) (fls ! i)"
  by (simp add: heap_inv_def)

lemma heap_objs_apart:
  assumes inv: "heap_inv m h fls" and i: "i < length (heap_cache h)" and j: "j < length (heap_cache h)"
    and x: "x \<in> slab_objs (heap_cache h ! i)" and y: "y \<in> slab_objs (heap_cache h ! j)" and ne: "x \<noteq> y \<or> i \<noteq> j"
  shows "obj_apart x (unat (object_size (heap_cache h ! i))) y (unat (object_size (heap_cache h ! j)))"
proof -
  have ok: "slab_ok (kheap_bitmap h) m (heap_cache h ! i) (fls ! i)" "slab_ok (kheap_bitmap h) m (heap_cache h ! j) (fls ! j)"
    using inv i j by (auto simp: heap_inv_def)
  obtain p q where p: "slab_at (heap_cache h ! i) p" and q: "slab_at (heap_cache h ! j) q"
    using slab_ok_at[OF ok(1)] slab_ok_at[OF ok(2)] by blast
  show ?thesis
  proof (cases "i = j")
    case True
    then show ?thesis using slab_objs_apart[OF p x] y ne by simp
  next
    case False
    then have "slab_disj (heap_cache h ! i) (heap_cache h ! j)" using inv i j by (simp add: heap_inv_def)
    then show ?thesis by (rule slabs_objs_apart[OF p q _ x y])
  qed
qed

text \<open>Changing the bookkeeping of one slab, with the memory it governs.\<close>

definition same_slab :: "heap_slab \<Rightarrow> heap_slab \<Rightarrow> bool" where
  "same_slab s t \<longleftrightarrow> start s = start t \<and> large s = large t \<and> object_size s = object_size t"

lemma same_slab_simps:
  assumes "same_slab s t"
  shows "slab_pages s = slab_pages t" "slab_count s = slab_count t" "slab_objs s = slab_objs t"
    "slab_at s pg = slab_at t pg" "slab_disj s r = slab_disj t r" "slab_disj r s = slab_disj r t"
    "slab_range s b = slab_range t b" "object_size s = object_size t"
  using assms
  by (simp_all add: same_slab_def slab_pages_def slab_count_def slab_objs_def slab_obj_def slab_at_def
      slab_disj_def slab_range_def)

lemma heap_inv_update:
  assumes inv: "heap_inv m h fls" and i: "i < length (heap_cache h)" and s: "same_slab s (heap_cache h ! i)"
    and ok: "slab_ok (kheap_bitmap h) m' s fl"
    and rest: "\<And>j. j < length (heap_cache h) \<Longrightarrow> j \<noteq> i \<Longrightarrow> slab_ok (kheap_bitmap h) m' (heap_cache h ! j) (fls ! j)"
  shows "heap_inv m' (h\<lparr>heap_cache := (heap_cache h)[i := s]\<rparr>) (fls[i := fl])"
proof -
  have "slab_disj (((heap_cache h)[i := s]) ! j) (((heap_cache h)[i := s]) ! k)"
    if "j < length (heap_cache h)" "k < length (heap_cache h)" "j \<noteq> k" for j k
    using inv i that by (cases "i = j"; cases "i = k") (simp_all add: heap_inv_def same_slab_simps[OF s])
  moreover have "slab_ok (kheap_bitmap h) m' (((heap_cache h)[i := s]) ! j) ((fls[i := fl]) ! j)"
    if "j < length (heap_cache h)" for j
    using inv that ok rest i by (cases "i = j") (simp_all add: heap_inv_def)
  ultimately show ?thesis using inv unfolding heap_inv_def by simp
qed

lemma UN_less_split: "i < n \<Longrightarrow> (\<Union>j < n. F j) = (\<Union>j \<in> {..<n} - {i}. F j) \<union> F i" for i :: nat
  by (auto; metis Diff_iff lessThan_iff singletonD)

lemma live_objects_update:
  assumes i: "i < length (heap_cache h)" and s: "same_slab s (heap_cache h ! i)" and len: "length fls = length (heap_cache h)"
  shows "live_objects (h\<lparr>heap_cache := (heap_cache h)[i := s]\<rparr>) (fls[i := fl]) =
    (\<Union>j \<in> {..<length (heap_cache h)} - {i}.
        (slab_objs (heap_cache h ! j) - set (fls ! j)) \<times> {unat (object_size (heap_cache h ! j))}) \<union>
    (slab_objs (heap_cache h ! i) - set fl) \<times> {unat (object_size (heap_cache h ! i))}"
proof -
  let ?f = "\<lambda>j. (slab_objs (((heap_cache h)[i := s]) ! j) - set ((fls[i := fl]) ! j)) \<times>
      {unat (object_size (((heap_cache h)[i := s]) ! j))}"
  let ?g = "\<lambda>j. (slab_objs (heap_cache h ! j) - set (fls ! j)) \<times> {unat (object_size (heap_cache h ! j))}"
  have "(\<Union>j < length (heap_cache h). ?f j) = (\<Union>j \<in> {..<length (heap_cache h)} - {i}. ?f j) \<union> ?f i"
    using i by (rule UN_less_split)
  also have "(\<Union>j \<in> {..<length (heap_cache h)} - {i}. ?f j) = (\<Union>j \<in> {..<length (heap_cache h)} - {i}. ?g j)"
    by (intro SUP_cong refl) auto
  also have "?f i = (slab_objs (heap_cache h ! i) - set fl) \<times> {unat (object_size (heap_cache h ! i))}"
    using i len by (simp add: same_slab_simps[OF s])
  finally show ?thesis by (simp add: live_objects_def)
qed

lemma live_objects_split:
  assumes i: "i < length (heap_cache h)"
  shows "live_objects h fls = (\<Union>j \<in> {..<length (heap_cache h)} - {i}.
        (slab_objs (heap_cache h ! j) - set (fls ! j)) \<times> {unat (object_size (heap_cache h ! j))}) \<union>
    (slab_objs (heap_cache h ! i) - set (fls ! i)) \<times> {unat (object_size (heap_cache h ! i))}"
  unfolding live_objects_def using i by (rule UN_less_split)

text \<open>Taking the first free object of slab \<open>i\<close>.\<close>

definition take_first :: "mem \<Rightarrow> kheap \<Rightarrow> nat \<Rightarrow> kheap" where
  "take_first m h i = (let s = heap_cache h ! i
     in h\<lparr>heap_cache := (heap_cache h)[i := s\<lparr>inuse := inuse s + 1, first := load32 m (first s)\<rparr>]\<rparr>)"

lemma take_first_slab_ok:
  assumes "slab_ok bm m s (x # fl)"
  shows "slab_ok bm m (s\<lparr>inuse := inuse s + 1, first := load32 m (first s)\<rparr>) fl"
proof -
  have "unat (inuse s) + length (x # fl) = slab_count s" using assms by (simp add: slab_ok_def)
  then have "unat (inuse s) + 1 < 2 ^ LENGTH(16)" using slab_count_bound[of s] by simp
  then have "unat (inuse s + 1) = unat (inuse s) + 1" by (simp add: unat_word_ariths)
  then show ?thesis using assms
    by (auto simp: slab_ok_def slab_at_def slab_pages_def slab_count_def slab_objs_def slab_obj_def)
qed

lemma take_first_inv:
  assumes inv: "heap_inv m h fls" and i: "i < length (heap_cache h)" and f: "first (heap_cache h ! i) \<noteq> NULL"
  defines "s \<equiv> heap_cache h ! i" and "p \<equiv> first (heap_cache h ! i)"
  shows "heap_inv m (take_first m h i) (fls[i := tl (fls ! i)])"
    and "live_objects (take_first m h i) (fls[i := tl (fls ! i)]) = insert (p, unat (object_size s)) (live_objects h fls)"
    and "\<And>b n. (b, n) \<in> live_objects h fls \<Longrightarrow> obj_apart p (unat (object_size s)) b n"
proof -
  have len: "length fls = length (heap_cache h)" and ok: "slab_ok (kheap_bitmap h) m s (fls ! i)"
    and all: "\<And>j. j < length (heap_cache h) \<Longrightarrow> slab_ok (kheap_bitmap h) m (heap_cache h ! j) (fls ! j)"
    using inv i by (auto simp: heap_inv_def s_def)
  then obtain fl where fl: "fls ! i = p # fl" using f by (cases "fls ! i") (auto simp: slab_ok_def s_def p_def)
  let ?s = "s\<lparr>inuse := inuse s + 1, first := load32 m (first s)\<rparr>"
  have ok': "slab_ok (kheap_bitmap h) m ?s fl" using take_first_slab_ok ok fl by simp
  have h': "take_first m h i = h\<lparr>heap_cache := (heap_cache h)[i := ?s]\<rparr>"
    by (simp add: take_first_def Let_def s_def)
  have same: "same_slab ?s (heap_cache h ! i)" by (simp add: same_slab_def s_def)
  show "heap_inv m (take_first m h i) (fls[i := tl (fls ! i)])"
    unfolding h' fl list.sel by (rule heap_inv_update[OF inv i same ok' all])
  have px: "p \<in> slab_objs s" "p \<notin> set fl" using ok fl by (auto simp: slab_ok_def)
  then show "live_objects (take_first m h i) (fls[i := tl (fls ! i)]) = insert (p, unat (object_size s)) (live_objects h fls)"
    unfolding h' live_objects_update[OF i same len] live_objects_split[OF i, of fls] by (auto simp: fl s_def)
  show "obj_apart p (unat (object_size s)) b n" if l: "(b, n) \<in> live_objects h fls" for b n
  proof -
    obtain j where j: "j < length (heap_cache h)" "b \<in> slab_objs (heap_cache h ! j)" "b \<notin> set (fls ! j)"
        "n = unat (object_size (heap_cache h ! j))" using l by (auto simp: live_objects_def)
    have "p \<noteq> b \<or> i \<noteq> j" using j(3) fl by auto
    then show ?thesis using heap_objs_apart[OF inv i j(1) _ j(2)] px(1) j(4) by (simp add: s_def)
  qed
qed

lemma unat_PG_RND_UP:
  assumes "unat x \<le> 40960"
  shows "unat (PG_RND_UP x) = (unat x + 4095) div 4096 * 4096"
proof -
  have "x + 4096 - 1 = x + 4095" by simp
  moreover have "unat (x + 4095) = unat x + 4095" using assms by (simp add: unat_word_ariths)
  moreover have "(unat x + 4095) div 4096 \<le> 10" using assms by (simp add: div_le_dividend less_mult_imp_div_less less_Suc_eq_le[symmetric])
  ultimately show ?thesis
    by (simp add: PG_RND_UP_def ROUND_UP_def PAGE_SIZE_def unat_word_ariths unat_div)
qed

lemma sint_small: "unat (x :: u32) \<le> 40960 \<Longrightarrow> sint x = int (unat x)"
  unfolding sint_u32 by simp

lemma grown_size_request:
  fixes sz :: u32
  assumes "4 \<le> unat sz" and "unat sz \<le> 40960"
  defines "lg \<equiv> of_bool (sint sz \<ge> 1024)"
  shows "unat sz \<le> unat (grown_size (ucast sz) lg)"
    and "unat (grown_size (ucast sz) lg) \<le> (if lg = 0 then 4 else 10) * 4096"
proof -
  have sz: "unat (ucast sz :: u16) = unat sz" using assms(2) by simp
  have "unat sz \<le> unat (grown_size (ucast sz) lg) \<and>
      unat (grown_size (ucast sz) lg) \<le> (if lg = 0 then 4 else 10) * 4096"
  proof (cases "1024 \<le> unat sz")
    case True
    then have "1024 \<le> sint sz" using sint_small[OF assms(2)] by linarith
    then have lg: "lg = 1" by (simp add: lg_def)
    define q where "q = (unat sz + 4095) div 4096"
    have q: "unat sz \<le> q * 4096" "q \<le> 10" using assms(2) unfolding q_def by linarith+
    have "unat (PG_RND_UP (ucast (ucast sz :: u16))) = q * 4096"
      unfolding q_def sz[symmetric] using assms(2) by (subst unat_PG_RND_UP) simp_all
    then have "unat (grown_size (ucast sz) lg) = q * 4096" using q(2) by (simp add: grown_size_def lg)
    then show ?thesis using q by (simp add: lg)
  next
    case False
    then have "\<not> 1024 \<le> sint sz" using sint_small[OF assms(2)] by linarith
    then have "lg = 0" by (simp add: lg_def)
    then show ?thesis using sz False by (simp add: grown_size_def)
  qed
  then show "unat sz \<le> unat (grown_size (ucast sz) lg)"
    "unat (grown_size (ucast sz) lg) \<le> (if lg = 0 then 4 else 10) * 4096" by auto
qed

text \<open>\<open>kmalloc\<close> on a valid request, with the search and the growth step separated.\<close>

definition request :: "u32 \<Rightarrow> u32" where
  "request sz = (if sz < 4 then 4 else sz)"

lemma request_bounds: "0 < unat sz \<Longrightarrow> unat sz \<le> 40960 \<Longrightarrow> 4 \<le> unat (request sz) \<and> unat sz \<le> unat (request sz) \<and> unat (request sz) \<le> 40960"
  by (auto simp: request_def word_less_nat_alt)

lemma kmalloc_unfold:
  assumes "0 < unat sz" and "unat sz \<le> 40960"
  shows "kmalloc m h sz =
    (case kmalloc_search (heap_cache h) (sint (request sz)) 0 0 0 of (fit, idx) \<Rightarrow> do {
       (m, h, slab) \<leftarrow> (if fit \<noteq> 0 then Some (m, h, Some idx)
          else kheap_cache_grow m h (ucast (request sz)) (of_bool (sint (request sz) \<ge> 1024)));
       case slab of None \<Rightarrow> Some (m, h, NULL)
       | Some i \<Rightarrow> Some (m, take_first m h i, first (heap_cache h ! i)) })"
proof -
  have "sint (HEAP_LGSLAB_PAGES * PAGE_SIZE) = 40960" by (simp add: HEAP_LGSLAB_PAGES_def PAGE_SIZE_def)
  moreover have "sint sz \<le> 40960" using sint_small[OF assms(2)] assms(2) by linarith
  ultimately have valid: "\<not> (sz = 0 \<or> sint sz > sint (HEAP_LGSLAB_PAGES * PAGE_SIZE))" using assms(1) by auto
  show ?thesis unfolding kmalloc_def if_not_P[OF valid] Let_def request_def take_first_def by (rule refl)
qed

lemma heap_inv_sizes: "heap_inv m h fls \<Longrightarrow> \<forall>s \<in> set (heap_cache h). 0 < uint (object_size s)"
proof
  fix s assume inv: "heap_inv m h fls" and "s \<in> set (heap_cache h)"
  then obtain i where "i < length (heap_cache h)" "s = heap_cache h ! i" by (auto simp: in_set_conv_nth)
  with inv have "4 \<le> unat (object_size s)" by (simp add: heap_inv_def slab_ok_def)
  moreover have "uint (object_size s) = int (unat (object_size s))" by simp
  ultimately show "0 < uint (object_size s)" by linarith
qed

lemma live_objects_in_slab:
  assumes inv: "heap_inv m h fls" and l: "(b, n) \<in> live_objects h fls" and a: "unat b \<le> unat a" "unat a < unat b + n"
  obtains j where "j < length (heap_cache h)" "slab_range (heap_cache h ! j) a"
proof -
  obtain j where j: "j < length (heap_cache h)" "b \<in> slab_objs (heap_cache h ! j)"
      "n = unat (object_size (heap_cache h ! j))" using l by (auto simp: live_objects_def)
  then have "slab_ok (kheap_bitmap h) m (heap_cache h ! j) (fls ! j)" using inv by (simp add: heap_inv_def)
  then obtain pg where pg: "slab_at (heap_cache h ! j) pg" using slab_ok_at by blast
  show thesis using that[OF j(1)] slab_objs_range[OF pg j(2)] a j(3) by (simp add: slab_range_def)
qed

text \<open>The postcondition of an allocation of at least \<open>sz\<close> bytes at \<open>p\<close>.\<close>

definition allocated :: "mem \<Rightarrow> kheap \<Rightarrow> ptr list list \<Rightarrow> nat \<Rightarrow> mem \<Rightarrow> kheap \<Rightarrow> ptr \<Rightarrow> ptr list list \<Rightarrow> nat \<Rightarrow> bool" where
  "allocated m h fls sz m' h' p fls' n \<longleftrightarrow>
     heap_inv m' h' fls' \<and> sz \<le> n \<and>
     live_objects h' fls' = insert (p, n) (live_objects h fls) \<and>
     (\<forall>(b, k) \<in> live_objects h fls. obj_apart p n b k \<and> (\<forall>a. unat b \<le> unat a \<and> unat a < unat b + k \<longrightarrow> m' a = m a))"

lemma allocated_nonnull: "allocated m h fls sz m' h' p fls' n \<Longrightarrow> p \<noteq> NULL"
proof -
  assume "allocated m h fls sz m' h' p fls' n"
  then have inv: "heap_inv m' h' fls'" and "(p, n) \<in> live_objects h' fls'" by (auto simp: allocated_def)
  then obtain j where j: "j < length (heap_cache h')" "p \<in> slab_objs (heap_cache h' ! j)"
    by (auto simp: live_objects_def)
  obtain pg where "slab_at (heap_cache h' ! j) pg" using slab_ok_at[OF heap_inv_slab[OF inv j(1)]] by blast
  from slab_objs_range(3)[OF this j(2)] show ?thesis .
qed

lemma kmalloc_fit:
  assumes inv: "heap_inv m h fls" and sz: "0 < unat sz" "unat sz \<le> 40960"
    and fit: "best_fit (heap_cache h) (sint (request sz)) (length (heap_cache h)) fit idx" "fit \<noteq> 0"
  shows "allocated m h fls (unat sz) m (take_first m h idx) (first (heap_cache h ! idx))
    (fls[idx := tl (fls ! idx)]) (unat (object_size (heap_cache h ! idx)))"
proof -
  have i: "idx < length (heap_cache h)" "first (heap_cache h ! idx) \<noteq> NULL"
      "sint (request sz) \<le> uint (object_size (heap_cache h ! idx))"
    using fit by (auto simp: best_fit_def slab_fits_def)
  note rb = request_bounds[OF sz]
  have "int (unat (request sz)) \<le> int (unat (object_size (heap_cache h ! idx)))"
    using i(3) sint_small[of "request sz"] rb by simp
  then have "unat sz \<le> unat (object_size (heap_cache h ! idx))" using rb by linarith
  then show ?thesis using take_first_inv[OF inv i(1,2)] unfolding allocated_def by auto
qed

lemma kmalloc_grow:
  assumes inv: "heap_inv m h fls" and sz: "0 < unat sz" "unat sz \<le> 40960"
    and g: "kheap_cache_grow m h (ucast (request sz)) (of_bool (sint (request sz) \<ge> 1024)) = Some (m', h1, Some i)"
  shows "\<exists>fls' n. allocated m h fls (unat sz) m' (take_first m' h1 i) (first (heap_cache h1 ! i)) fls' n"
proof -
  note rb = request_bounds[OF sz]
  have gs: "unat (request sz) \<le> unat (grown_size (ucast (request sz)) (of_bool (sint (request sz) \<ge> 1024)))"
      "unat (grown_size (ucast (request sz)) (of_bool (sint (request sz) \<ge> 1024)))
        \<le> (if (of_bool (sint (request sz) \<ge> 1024) :: cbool) = 0 then 4 else 10) * 4096"
    using grown_size_request[of "request sz"] rb by auto
  have "4 \<le> unat (grown_size (ucast (request sz)) (of_bool (sint (request sz) \<ge> 1024)))"
    using gs(1) rb by linarith
  from kheap_cache_grow_inv[OF inv g this gs(2)]
  obtain s where s: "i = length (heap_cache h)" "heap_cache h1 = heap_cache h @ [s]"
      "object_size s = grown_size (ucast (request sz)) (of_bool (sint (request sz) \<ge> 1024))" "first s = start s"
      "heap_inv m' h1 (fls @ [map (slab_obj s) [0..<slab_count s]])" "\<And>b. \<not> slab_range s b \<Longrightarrow> m' b = m b"
    by blast
  let ?fls = "fls @ [map (slab_obj s) [0..<slab_count s]]"
  have len: "length fls = length (heap_cache h)" using inv by (simp add: heap_inv_def)
  have i: "i < length (heap_cache h1)" "heap_cache h1 ! i = s" using s(1,2) by auto
  have ok: "slab_ok (kheap_bitmap h1) m' s (?fls ! i)" using s(5) i unfolding heap_inv_def by metis
  have nz: "first (heap_cache h1 ! i) \<noteq> NULL"
    using ok slab_at_bounds(1)[of s] s(4) i(2) by (auto simp: slab_ok_def)
  have live: "live_objects h1 ?fls = live_objects h fls"
    unfolding live_objects_split[OF i(1)] unfolding live_objects_def using s(1,2) len
    by (auto simp: nth_append slab_objs_def lessThan_Suc)
  have frame: "m' a = m a" if l: "(b, k) \<in> live_objects h fls" and a: "unat b \<le> unat a" "unat a < unat b + k" for a b k
  proof -
    obtain j where j: "j < length (heap_cache h)" "slab_range (heap_cache h ! j) a"
      using live_objects_in_slab[OF inv l a] by blast
    then have "slab_disj (heap_cache h1 ! j) (heap_cache h1 ! i)"
      using i(1) s(1,2) by (intro heap_inv_disj[OF s(5)]) auto
    then have "slab_disj (heap_cache h ! j) s" using j(1) i(2) s(2) by (simp add: nth_append)
    then show ?thesis using j(2) by (intro s(6)) (auto simp: slab_disj_def slab_range_def)
  qed
  have "unat sz \<le> unat (object_size s)" unfolding s(3) using gs(1) rb by linarith
  then show ?thesis
    using take_first_inv[OF s(5) i(1) nz] live frame unfolding allocated_def i(2) by blast
qed

lemma kheap_cache_grow_null:
  assumes "bitmap_wf (kheap_bitmap h)" and "kheap_cache_grow m h sz lg = Some (m', h', None)"
  shows "length (heap_cache h) = 256 \<or> \<not> (\<exists>q. bit_run (kheap_bitmap h) 0 (if lg = 0 then 4 else 10) 0 q \<and> q < 2147483648)"
proof (rule ccontr)
  let ?n = "if lg = 0 then HEAP_SLAB_PAGES else HEAP_LGSLAB_PAGES"
  assume neg: "\<not> ?thesis"
  have n: "(if lg = 0 then 4 else 10) = unat ?n" by (simp add: HEAP_SLAB_PAGES_def HEAP_LGSLAB_PAGES_def)
  from neg obtain q where q: "bit_run (kheap_bitmap h) 0 (unat ?n) 0 q" "q < 2147483648" and len: "length (heap_cache h) \<noteq> 256"
    unfolding n by blast
  obtain page bm where sf: "bitmap_scan_flip (kheap_bitmap h) 0 ?n 0 = (page, bm)" by fastforce
  have "?n \<noteq> 0" by (simp add: HEAP_SLAB_PAGES_def HEAP_LGSLAB_PAGES_def)
  then have "unat page \<le> q" using bitmap_scan_flip_success[OF assms(1) _ q(1) sf] by blast
  then have "\<not> sint page < 0" using q(2) unfolding sint_u32 by simp
  then show False using assms(2) len sf by (auto simp: kheap_cache_grow_def Let_def split: if_splits)
qed

lemma kheap_cache_grow_defined:
  assumes "grown_size sz lg \<noteq> 0"
  shows "\<exists>m' h' r. kheap_cache_grow m h sz lg = Some (m', h', r)"
  using assms unfolding kheap_cache_grow_def Let_def grown_size_def[symmetric]
  by (auto split: prod.splits)

lemma kmalloc_cases:
  assumes inv: "heap_inv m h fls" and sz: "0 < unat sz" "unat sz \<le> 40960"
  obtains (ok) m' h' p fls' n where "kmalloc m h sz = Some (m', h', p)" "p \<noteq> NULL" "allocated m h fls (unat sz) m' h' p fls' n"
  | (null) m' h' where "kmalloc m h sz = Some (m', h', NULL)" "\<forall>s \<in> set (heap_cache h). \<not> slab_fits (sint (request sz)) s"
      "length (heap_cache h) = 256 \<or>
       \<not> (\<exists>q. bit_run (kheap_bitmap h) 0 (if unat (request sz) < 1024 then 4 else 10) 0 q)"
proof -
  obtain fit idx where se: "kmalloc_search (heap_cache h) (sint (request sz)) 0 0 0 = (fit, idx)" by fastforce
  note best = kmalloc_search_result[OF heap_inv_sizes[OF inv] se]
  note unf = kmalloc_unfold[OF sz, of m h, unfolded se]
  note rb = request_bounds[OF sz]
  have bm: "bitmap_wf (kheap_bitmap h)" "bsize (kheap_bitmap h) = 2048" using inv by (auto simp: heap_inv_def)
  have lg: "(if (of_bool (1024 \<le> sint (request sz)) :: cbool) = 0 then 4 else 10) = (if unat (request sz) < 1024 then 4 else (10 :: nat))"
  proof -
    have "1024 \<le> sint (request sz) \<longleftrightarrow> \<not> unat (request sz) < 1024" using sint_small[of "request sz"] rb by linarith
    then show ?thesis by simp
  qed
  show thesis
  proof (cases "fit = 0")
    case False
    have "first (heap_cache h ! idx) \<noteq> NULL" using best False by (simp add: best_fit_def slab_fits_def)
    then show thesis using ok[OF _ _ kmalloc_fit[OF inv sz best False]] unf False by simp
  next
    case True
    have nofit: "\<forall>s \<in> set (heap_cache h). \<not> slab_fits (sint (request sz)) s"
      using best True by (auto simp: best_fit_def in_set_conv_nth)
    let ?g = "kheap_cache_grow m h (ucast (request sz)) (of_bool (1024 \<le> sint (request sz)))"
    have "4 \<le> unat (grown_size (ucast (request sz)) (of_bool (1024 \<le> sint (request sz))))"
      using grown_size_request(1)[of "request sz"] rb by linarith
    then have "grown_size (ucast (request sz)) (of_bool (1024 \<le> sint (request sz))) \<noteq> 0" by auto
    then obtain m1 h1 r where g: "?g = Some (m1, h1, r)" using kheap_cache_grow_defined by blast
    show thesis
    proof (cases r)
      case None
      have "length (heap_cache h) = 256 \<or> \<not> (\<exists>q. bit_run (kheap_bitmap h) 0 (if unat (request sz) < 1024 then 4 else 10) 0 q)"
        using kheap_cache_grow_null[OF bm(1) g[unfolded None]] bm(2) unfolding lg by (auto simp: bit_run_def)
      then show thesis using null[OF _ nofit] unf True g None by simp
    next
      case (Some i)
      obtain fls' n where al: "allocated m h fls (unat sz) m1 (take_first m1 h1 i) (first (heap_cache h1 ! i)) fls' n"
        using kmalloc_grow[OF inv sz g[unfolded Some]] by blast
      have "first (heap_cache h1 ! i) \<noteq> NULL" using al allocated_nonnull by blast
      then show thesis using ok[OF _ _ al] unf True g Some by simp
    qed
  qed
qed

lemma kmalloc_allocated:
  assumes "heap_inv m h fls" and "0 < unat sz" and "unat sz \<le> 40960"
    and "kmalloc m h sz = Some (m', h', p)" and "p \<noteq> NULL"
  shows "\<exists>fls' n. allocated m h fls (unat sz) m' h' p fls' n"
  by (rule kmalloc_cases[OF assms(1-3)]) (use assms(4,5) in auto)

section \<open>Release\<close>

lemma kfree_search_unique:
  assumes "i < length cache" and "j \<le> i"
    and "sz \<le> ucast (object_size (cache ! i)) \<and> slab_has_addr (cache ! i) addr"
    and "\<And>k. k < i \<Longrightarrow> \<not> slab_has_addr (cache ! k) addr"
  shows "kfree_search cache addr sz j = Some i"
  using assms(2)
proof (induction "i - j" arbitrary: j)
  case 0
  then show ?case using assms by (subst kfree_search.simps) simp
next
  case (Suc d)
  then have "j < i" by simp
  then have "kfree_search cache addr sz j = kfree_search cache addr sz (j + 1)"
    using assms(1,4) by (subst kfree_search.simps) simp
  then show ?case using Suc.hyps(1)[of "j + 1"] Suc.hyps(2) \<open>j < i\<close> by simp
qed

lemma kfree_search_live:
  assumes inv: "heap_inv m h fls" and i: "i < length (heap_cache h)"
    and a: "addr \<in> slab_objs (heap_cache h ! i)" and sz: "unat sz \<le> unat (object_size (heap_cache h ! i))"
  shows "kfree_search (heap_cache h) addr sz 0 = Some i"
proof (rule kfree_search_unique[OF i])
  obtain pg where pg: "slab_at (heap_cache h ! i) pg" using slab_ok_at[OF heap_inv_slab[OF inv i]] by blast
  have "4 \<le> unat (object_size (heap_cache h ! i))" using heap_inv_slab[OF inv i] by (simp add: slab_ok_def)
  then have rg: "unat (start (heap_cache h ! i)) \<le> unat addr"
      "unat addr < unat (start (heap_cache h ! i)) + slab_pages (heap_cache h ! i) * 4096"
    using slab_objs_range[OF pg a] by linarith+
  then show "sz \<le> ucast (object_size (heap_cache h ! i)) \<and> slab_has_addr (heap_cache h ! i) addr"
    using sz by (simp add: slab_has_addr_objs[OF pg] word_le_nat_alt)
  fix k assume k: "k < i"
  obtain q where q: "slab_at (heap_cache h ! k) q" using slab_ok_at[OF heap_inv_slab[OF inv, of k]] k i by auto
  show "\<not> slab_has_addr (heap_cache h ! k) addr"
    using heap_inv_disj[OF inv _ i, of k] k i rg by (auto simp: slab_has_addr_objs[OF q] slab_disj_def)
qed simp

text \<open>The postcondition of the release of the object of \<open>n\<close> bytes at \<open>p\<close>.\<close>

definition released :: "mem \<Rightarrow> kheap \<Rightarrow> ptr list list \<Rightarrow> ptr \<Rightarrow> nat \<Rightarrow> mem \<Rightarrow> kheap \<Rightarrow> ptr list list \<Rightarrow> bool" where
  "released m h fls p n m' h' fls' \<longleftrightarrow>
     heap_inv m' h' fls' \<and> live_objects h' fls' = live_objects h fls - {(p, n)} \<and>
     (\<forall>(b, k) \<in> live_objects h fls - {(p, n)}. \<forall>a. unat b \<le> unat a \<and> unat a < unat b + k \<longrightarrow> m' a = m a)"

definition give_back :: "kheap \<Rightarrow> nat \<Rightarrow> ptr \<Rightarrow> kheap" where
  "give_back h i addr = h\<lparr>heap_cache := (heap_cache h)[i := (heap_cache h ! i)\<lparr>inuse := inuse (heap_cache h ! i) - 1, first := addr\<rparr>]\<rparr>"

lemma slab_inuse_pos:
  assumes "slab_ok bm m s fl" and "addr \<in> slab_objs s" and "addr \<notin> set fl"
  shows "0 < unat (inuse s)" and "unat (inuse s) = 1 \<Longrightarrow> slab_objs s - set fl = {addr}"
proof -
  obtain pg where pg: "slab_at s pg" using slab_ok_at[OF assms(1)] by blast
  have sub: "set fl \<subseteq> slab_objs s" and d: "distinct fl" and cnt: "unat (inuse s) + length fl = slab_count s"
    and sz: "4 \<le> unat (object_size s)" using assms(1) by (auto simp: slab_ok_def)
  have fin: "finite (slab_objs s)" by (simp add: slab_objs_def)
  have "card (slab_objs s) = slab_count s" using card_slab_objs[OF pg] sz by simp
  then have c: "card (slab_objs s - set fl) = unat (inuse s)"
    using card_Diff_subset[OF _ sub] d cnt distinct_card by fastforce
  have addr: "addr \<in> slab_objs s - set fl" using assms(2,3) by simp
  then show "0 < unat (inuse s)" using c fin by (metis card_gt_0_iff empty_iff finite_Diff)
  show "slab_objs s - set fl = {addr}" if "unat (inuse s) = 1"
    using c that addr by (metis card_1_singletonE singletonD)
qed

lemma give_back_slab_ok:
  assumes "slab_ok bm m s fl" and "same_slab s' s" and "addr \<in> slab_objs s" "addr \<notin> set fl" "addr \<noteq> NULL"
    and "first s' = addr" "load32 m addr = first s" "unat (inuse s') + 1 = unat (inuse s)"
  shows "slab_ok bm m s' (addr # fl)"
  using assms unfolding slab_ok_def by (simp add: same_slab_simps[OF assms(2)])

lemma give_back_released:
  assumes inv: "heap_inv m h fls" and i: "i < length (heap_cache h)"
    and a: "addr \<in> slab_objs (heap_cache h ! i)" "addr \<notin> set (fls ! i)"
  defines "s \<equiv> heap_cache h ! i"
  shows "released m h fls addr (unat (object_size s)) (store32 m addr (first s)) (give_back h i addr)
    (fls[i := addr # fls ! i])"
proof -
  let ?m = "store32 m addr (first s)" and ?s = "s\<lparr>inuse := inuse s - 1, first := addr\<rparr>"
  have ok: "slab_ok (kheap_bitmap h) m s (fls ! i)" using heap_inv_slab[OF inv i] by (simp add: s_def)
  then obtain pg where pg: "slab_at s pg" using slab_ok_at by blast
  have sz: "4 \<le> unat (object_size s)" using ok by (simp add: slab_ok_def)
  have len: "length fls = length (heap_cache h)" using inv by (simp add: heap_inv_def)
  have same: "same_slab ?s (heap_cache h ! i)" by (simp add: same_slab_def s_def)
  have other: "load32 ?m x = load32 m x" if "j < length (heap_cache h)" "x \<in> set (fls ! j)" for j x
  proof -
    have x: "x \<in> slab_objs (heap_cache h ! j)" "4 \<le> unat (object_size (heap_cache h ! j))"
      using heap_inv_slab[OF inv that(1)] that(2) by (auto simp: slab_ok_def)
    have "addr \<noteq> x \<or> i \<noteq> j" using a(2) that(2) by auto
    then have "obj_apart addr 4 x 4"
      using obj_apart_mono[OF heap_objs_apart[OF inv i that(1) a(1) x(1)]] sz x(2) by (simp add: s_def)
    then show ?thesis by (intro load32_store32_other obj_apart_regions) simp_all
  qed
  have rest: "slab_ok (kheap_bitmap h) ?m (heap_cache h ! j) (fls ! j)" if "j < length (heap_cache h)" for j
    using slab_ok_frame[OF heap_inv_slab[OF inv that]] other[OF that] by simp
  have inuse: "unat (inuse s - 1) = unat (inuse s) - 1"
    using slab_inuse_pos(1)[OF ok] a by (simp add: s_def unat_minus_one unat_gt_0)
  have "slab_ok (kheap_bitmap h) ?m ?s (addr # fls ! i)"
    by (rule give_back_slab_ok[OF rest[OF i] same])
      (use a slab_objs_range(3)[OF pg] slab_inuse_pos(1)[OF ok] inuse in \<open>simp_all add: s_def\<close>)
  then have inv': "heap_inv ?m (give_back h i addr) (fls[i := addr # fls ! i])"
    using heap_inv_update[OF inv i same _ rest] by (simp add: give_back_def s_def)
  have new: "(addr, unat (object_size (heap_cache h ! i))) \<notin> (\<Union>j \<in> {..<length (heap_cache h)} - {i}.
        (slab_objs (heap_cache h ! j) - set (fls ! j)) \<times> {unat (object_size (heap_cache h ! j))})"
    using heap_objs_apart[OF inv i _ a(1)] sz by (fastforce simp: obj_apart_def s_def)
  have "live_objects (give_back h i addr) (fls[i := addr # fls ! i]) = live_objects h fls - {(addr, unat (object_size s))}"
    unfolding give_back_def s_def[symmetric] live_objects_update[OF i same len] live_objects_split[OF i, of fls]
    using a new by (auto simp: s_def)
  moreover have "?m b = m b"
    if l: "(c, k) \<in> live_objects h fls - {(addr, unat (object_size s))}" and b: "unat c \<le> unat b" "unat b < unat c + k" for b c k
  proof -
    obtain j where j: "j < length (heap_cache h)" "c \<in> slab_objs (heap_cache h ! j)"
        "k = unat (object_size (heap_cache h ! j))" using l by (auto simp: live_objects_def)
    have "obj_apart addr (unat (object_size s)) c k"
      using heap_objs_apart[OF inv i j(1) a(1) j(2)] l j(3) by (auto simp: s_def)
    then have "\<not> in_region addr 4 b" using b sz in_region_nat[of addr 4 b] by (auto simp: obj_apart_def)
    then show ?thesis by (rule store32_outside)
  qed
  ultimately show ?thesis using inv' unfolding released_def by auto
qed

text \<open>Removing slot \<open>i\<close> of the cache by moving the last slot into its place.\<close>

definition remove_at :: "nat \<Rightarrow> 'a list \<Rightarrow> 'a list" where
  "remove_at i xs = take (length xs - 1) (if i \<noteq> length xs - 1 then xs[i := xs ! (length xs - 1)] else xs)"

lemma length_remove_at [simp]: "length (remove_at i xs) = length xs - 1"
  by (simp add: remove_at_def)

definition moved :: "nat \<Rightarrow> nat \<Rightarrow> nat \<Rightarrow> nat" where
  "moved n i j = (if j = i then n - 1 else j)"

lemma nth_remove_at: "j < length xs - 1 \<Longrightarrow> i < length xs \<Longrightarrow> remove_at i xs ! j = xs ! moved (length xs) i j"
  by (auto simp: remove_at_def moved_def)

lemma moved_bij: "i < n \<Longrightarrow> bij_betw (moved n i) {..<n - 1} ({..<n} - {i})"
  unfolding bij_betw_def
proof
  assume i: "i < n"
  then show "inj_on (moved n i) {..<n - 1}" by (auto simp: inj_on_def moved_def)
  show "moved n i ` {..<n - 1} = {..<n} - {i}"
  proof
    show "moved n i ` {..<n - 1} \<subseteq> {..<n} - {i}" using i by (auto simp: moved_def)
    show "{..<n} - {i} \<subseteq> moved n i ` {..<n - 1}"
    proof
      fix j assume j: "j \<in> {..<n} - {i}"
      show "j \<in> moved n i ` {..<n - 1}"
      proof (cases "j = n - 1")
        case True
        then show ?thesis using j i by (intro image_eqI[of _ _ i]) (auto simp: moved_def)
      next
        case False
        then show ?thesis using j by (intro image_eqI[of _ _ j]) (auto simp: moved_def)
      qed
    qed
  qed
qed

lemma kheap_cache_shrink_eq:
  assumes "i < length (heap_cache h)"
  shows "kheap_cache_shrink (h\<lparr>heap_cache := (heap_cache h)[i := (heap_cache h ! i)\<lparr>inuse := v\<rparr>]\<rparr>) (Some i) =
    h\<lparr>kheap_bitmap := bitmap_setmulti (kheap_bitmap h) 0 ((start (heap_cache h ! i) - HEAP_BASE) div 4096)
        (if large (heap_cache h ! i) = 0 then HEAP_SLAB_PAGES else HEAP_LGSLAB_PAGES),
      heap_cache := remove_at i (heap_cache h)\<rparr>"
proof -
  have "take (length (heap_cache h) - 1) ((heap_cache h)[length (heap_cache h) - 1 := t]) =
      take (length (heap_cache h) - 1) (heap_cache h)" for t by simp
  then show ?thesis using assms
    by (auto simp: kheap_cache_shrink_def Let_def remove_at_def nth_list_update)
qed

lemma shrink_bits:
  assumes bm: "bitmap_wf bm" "bsize bm = 2048" and pg: "slab_at s pg"
  defines "bm' \<equiv> bitmap_setmulti bm 0 ((start s - HEAP_BASE) div 4096) (if large s = 0 then HEAP_SLAB_PAGES else HEAP_LGSLAB_PAGES)"
  shows "bitmap_wf bm'" "bsize bm' = 2048"
    and "bitmap_test bm' j \<longleftrightarrow> bitmap_test bm j \<and> \<not> (pg \<le> unat j \<and> unat j < pg + slab_pages s)"
proof -
  have lim: "pg + slab_pages s \<le> 2048" and st: "start s - HEAP_BASE = of_nat (pg * 4096)"
    using pg by (auto simp: slab_at_def)
  have "unat ((start s - HEAP_BASE) div 4096) = pg"
    unfolding st using lim by (simp add: unat_div of_nat_unat_u32 del: of_nat_mult)
  moreover have "unat (if large s = 0 then HEAP_SLAB_PAGES else HEAP_LGSLAB_PAGES) = slab_pages s"
    by (simp add: slab_pages_def HEAP_SLAB_PAGES_def HEAP_LGSLAB_PAGES_def)
  moreover have "(start s - HEAP_BASE) div 4096 \<le> bsize bm" using calculation(1) lim bm(2) by (simp add: word_le_nat_alt)
  ultimately show "bitmap_test bm' j \<longleftrightarrow> bitmap_test bm j \<and> \<not> (pg \<le> unat j \<and> unat j < pg + slab_pages s)"
    unfolding bm'_def using bitmap_test_in_bounds[of bm j] lim
    by (subst bitmap_test_setmulti[OF bm(1)]) (auto simp: word_le_nat_alt word_less_nat_alt bm(2))
  show "bitmap_wf bm'" "bsize bm' = 2048" using bitmap_setmulti_wf[OF bm(1)] bm(2) by (simp_all add: bm'_def)
qed

lemma shrink_released:
  assumes inv: "heap_inv m h fls" and i: "i < length (heap_cache h)"
    and a: "slab_objs (heap_cache h ! i) - set (fls ! i) = {addr}"
  defines "n \<equiv> unat (object_size (heap_cache h ! i))"
  shows "released m h fls addr n m
    (kheap_cache_shrink (h\<lparr>heap_cache := (heap_cache h)[i := (heap_cache h ! i)\<lparr>inuse := v\<rparr>]\<rparr>) (Some i)) (remove_at i fls)"
proof -
  let ?h = "kheap_cache_shrink (h\<lparr>heap_cache := (heap_cache h)[i := (heap_cache h ! i)\<lparr>inuse := v\<rparr>]\<rparr>) (Some i)"
  let ?s = "heap_cache h ! i" and ?N = "length (heap_cache h)"
  have ok: "slab_ok (kheap_bitmap h) m ?s (fls ! i)" using heap_inv_slab[OF inv i] .
  have len: "length fls = ?N" and bm: "bitmap_wf (kheap_bitmap h)" "bsize (kheap_bitmap h) = 2048"
    and max: "?N \<le> 256" using inv by (auto simp: heap_inv_def)
  obtain pg where pg: "slab_at ?s pg" using slab_ok_at[OF ok] by blast
  note bits = shrink_bits[OF bm pg]
  have c: "heap_cache ?h = remove_at i (heap_cache h)"
    and b: "kheap_bitmap ?h = bitmap_setmulti (kheap_bitmap h) 0 ((start ?s - HEAP_BASE) div 4096)
        (if large ?s = 0 then HEAP_SLAB_PAGES else HEAP_LGSLAB_PAGES)"
    using kheap_cache_shrink_eq[OF i, of v] by simp_all
  have mv: "moved ?N i j < ?N" "moved ?N i j \<noteq> i" if "j < ?N - 1" for j
    using that i by (auto simp: moved_def)
  have nthc: "heap_cache ?h ! j = heap_cache h ! moved ?N i j" "remove_at i fls ! j = fls ! moved ?N i j"
    if "j < ?N - 1" for j
    using that i len by (simp_all add: c nth_remove_at)
  have keep: "slab_ok (kheap_bitmap ?h) m (heap_cache h ! k) (fls ! k)" if k: "k < ?N" "k \<noteq> i" for k
  proof (rule slab_ok_frame[OF heap_inv_slab[OF inv k(1)]])
    fix q t assume q: "slab_at (heap_cache h ! k) q" "t < slab_pages (heap_cache h ! k)"
      "bitmap_test (kheap_bitmap h) (of_nat (q + t))"
    have "q + t < 2048" using q(1,2) by (simp add: slab_at_def)
    then have u: "unat (of_nat (q + t) :: u32) = q + t" by (simp add: of_nat_unat_u32 del: of_nat_add)
    have "q + slab_pages (heap_cache h ! k) \<le> pg \<or> pg + slab_pages ?s \<le> q"
      using heap_inv_disj[OF inv k(1) i k(2)] unfolding slab_disj_def unat_start[OF pg] unat_start[OF q(1)] by linarith
    then show "bitmap_test (kheap_bitmap ?h) (of_nat (q + t))"
      using q(2,3) u unfolding b bits(3) by auto
  qed simp
  have inj: "moved ?N i j \<noteq> moved ?N i k" if "j < ?N - 1" "k < ?N - 1" "j \<noteq> k" for j k
    using moved_bij[OF i] that by (auto simp: bij_betw_def inj_on_def)
  have "heap_inv m ?h (remove_at i fls)"
    unfolding heap_inv_def using bits(1,2) len max keep mv inj heap_inv_disj[OF inv] nthc
    by (simp add: b c)
  moreover have "live_objects ?h (remove_at i fls) = live_objects h fls - {(addr, n)}"
  proof -
    let ?g = "\<lambda>j. (slab_objs (heap_cache h ! j) - set (fls ! j)) \<times> {unat (object_size (heap_cache h ! j))}"
    have "live_objects ?h (remove_at i fls) = (\<Union>j < ?N - 1. ?g (moved ?N i j))"
      unfolding live_objects_def using nthc by (auto simp: c)
    also have "\<dots> = (\<Union>k \<in> moved ?N i ` {..<?N - 1}. ?g k)" by blast
    also have "\<dots> = (\<Union>k \<in> {..<?N} - {i}. ?g k)" using moved_bij[OF i] by (simp add: bij_betw_def)
    also have "\<dots> = live_objects h fls - {(addr, n)}"
    proof -
      have "(addr, n) \<notin> (\<Union>k \<in> {..<?N} - {i}. ?g k)"
        using heap_objs_apart[OF inv i, of _ addr addr] a ok by (fastforce simp: obj_apart_def n_def slab_ok_def)
      then show ?thesis unfolding live_objects_split[OF i, of fls] using a by (auto simp: n_def)
    qed
    finally show ?thesis .
  qed
  ultimately show ?thesis by (auto simp: released_def)
qed

lemma kfree_released:
  assumes inv: "heap_inv m h fls" and l: "(addr, n) \<in> live_objects h fls" and sz: "0 < unat sz" "unat sz \<le> n"
    and k: "kfree m h addr sz = (m', h')"
  shows "\<exists>fls'. released m h fls addr n m' h' fls'"
proof -
  obtain i where i: "i < length (heap_cache h)" "addr \<in> slab_objs (heap_cache h ! i)" "addr \<notin> set (fls ! i)"
      "n = unat (object_size (heap_cache h ! i))" using l by (auto simp: live_objects_def)
  let ?s = "heap_cache h ! i"
  have ok: "slab_ok (kheap_bitmap h) m ?s (fls ! i)" using heap_inv_slab[OF inv i(1)] .
  have "unat (request sz) \<le> n" using sz i(4) ok by (simp add: request_def slab_ok_def)
  then have se: "kfree_search (heap_cache h) addr (request sz) 0 = Some i"
    using kfree_search_live[OF inv i(1,2)] i(4) by simp
  note pos = slab_inuse_pos[OF ok i(2,3)]
  have "sz \<noteq> 0" using sz(1) by auto
  then have eq: "kfree m h addr sz =
      (if first ?s \<noteq> NULL \<and> inuse ?s - 1 = 0
       then (m, kheap_cache_shrink (h\<lparr>heap_cache := (heap_cache h)[i := ?s\<lparr>inuse := inuse ?s - 1\<rparr>]\<rparr>) (Some i))
       else (store32 m addr (first ?s), give_back h i addr))"
    using se unfolding kfree_def request_def[symmetric] by (simp add: Let_def give_back_def)
  show ?thesis
  proof (cases "first ?s \<noteq> NULL \<and> inuse ?s - 1 = 0")
    case True
    then have "unat (inuse ?s) = 1" by simp
    then show ?thesis using shrink_released[OF inv i(1) pos(2)] eq True k i(4) by auto
  next
    case False
    then show ?thesis using give_back_released[OF inv i(1-3)] eq k i(4) by auto
  qed
qed

section \<open>The contract of an object allocator\<close>

text \<open>
  What every kernel component that calls \<open>kmalloc\<close> and \<open>kfree\<close> relies on: a state with a set of live
  blocks, allocation that adds one block apart from all the others, release that removes one, and both
  leaving the contents of the other live blocks alone.
\<close>

definition same_bytes :: "mem \<Rightarrow> mem \<Rightarrow> ptr \<Rightarrow> nat \<Rightarrow> bool" where
  "same_bytes m m' b k \<longleftrightarrow> (\<forall>a. unat b \<le> unat a \<and> unat a < unat b + k \<longrightarrow> m' a = m a)"

locale object_allocator =
  fixes invar :: "'s \<Rightarrow> bool"
    and live :: "'s \<Rightarrow> (ptr \<times> nat) set"
    and memory :: "'s \<Rightarrow> mem"
    and valid :: "u32 \<Rightarrow> bool"
    and alloc :: "'s \<Rightarrow> u32 \<Rightarrow> ('s \<times> ptr) option"
    and release :: "'s \<Rightarrow> ptr \<Rightarrow> u32 \<Rightarrow> 's"
  assumes valid_pos: "valid n \<Longrightarrow> 0 < unat n"
    and alloc_ok: "invar s \<Longrightarrow> valid n \<Longrightarrow> alloc s n = Some (s', p) \<Longrightarrow> p \<noteq> NULL \<Longrightarrow>
      invar s' \<and> (\<exists>k. unat n \<le> k \<and> (p, k) \<notin> live s \<and> live s' = insert (p, k) (live s) \<and>
        (\<forall>(b, j) \<in> live s. obj_apart p k b j \<and> same_bytes (memory s) (memory s') b j))"
    and release_ok: "invar s \<Longrightarrow> (p, k) \<in> live s \<Longrightarrow> 0 < unat n \<Longrightarrow> unat n \<le> k \<Longrightarrow>
      invar (release s p n) \<and> live (release s p n) = live s - {(p, k)} \<and>
        (\<forall>(b, j) \<in> live s - {(p, k)}. same_bytes (memory s) (memory (release s p n)) b j)"
begin

lemma alloc_release_restores:
  assumes "invar s" and "valid n" and "alloc s n = Some (s', p)" and "p \<noteq> NULL"
  shows "invar (release s' p n) \<and> live (release s' p n) = live s \<and>
    (\<forall>(b, j) \<in> live s. same_bytes (memory s) (memory (release s' p n)) b j)"
proof -
  obtain k where k: "invar s'" "unat n \<le> k" "(p, k) \<notin> live s" "live s' = insert (p, k) (live s)"
      "\<forall>(b, j) \<in> live s. obj_apart p k b j \<and> same_bytes (memory s) (memory s') b j"
    using alloc_ok[OF assms] by blast
  have "invar (release s' p n) \<and> live (release s' p n) = live s' - {(p, k)} \<and>
      (\<forall>(b, j) \<in> live s' - {(p, k)}. same_bytes (memory s') (memory (release s' p n)) b j)"
    using release_ok[OF k(1) _ valid_pos[OF assms(2)] k(2)] k(4) by blast
  then show ?thesis using k(3-5) by (fastforce simp: same_bytes_def)
qed

lemma alloc_twice_apart:
  assumes "invar s" and "valid n" and "alloc s n = Some (s', p)" and "p \<noteq> NULL"
    and "valid n'" and "alloc s' n' = Some (s'', q)" and "q \<noteq> NULL"
  shows "\<exists>k k'. unat n \<le> k \<and> unat n' \<le> k' \<and> (p, k) \<in> live s'' \<and> (q, k') \<in> live s'' \<and> obj_apart q k' p k"
proof -
  obtain k where k: "invar s'" "unat n \<le> k" "live s' = insert (p, k) (live s)"
    using alloc_ok[OF assms(1-4)] by blast
  obtain k' where k': "unat n' \<le> k'" "live s'' = insert (q, k') (live s')"
      "\<forall>(b, j) \<in> live s'. obj_apart q k' b j \<and> same_bytes (memory s') (memory s'') b j"
    using alloc_ok[OF k(1) assms(5-7)] by blast
  then have "obj_apart q k' p k" using k(3) by auto
  with k k' show ?thesis by auto
qed

end

text \<open>The free lists are determined by the memory, so the live blocks are a function of the state.\<close>

lemma chain_unique: "chain m p xs \<Longrightarrow> chain m p ys \<Longrightarrow> xs = ys"
proof (induction xs arbitrary: p ys)
  case Nil
  then show ?case by (cases ys) auto
next
  case (Cons x xs)
  then show ?case by (cases ys) auto
qed

lemma heap_inv_unique:
  assumes "heap_inv m h fls" and "heap_inv m h fls'"
  shows "fls = fls'"
proof (rule nth_equalityI)
  show "length fls = length fls'" using assms by (simp add: heap_inv_def)
  fix i assume "i < length fls"
  then have "i < length (heap_cache h)" using assms(1) by (simp add: heap_inv_def)
  then show "fls ! i = fls' ! i"
    using heap_inv_slab[OF assms(1)] heap_inv_slab[OF assms(2)] chain_unique by (metis slab_ok_def)
qed

definition heap_ok :: "mem \<times> kheap \<Rightarrow> bool" where
  "heap_ok s \<longleftrightarrow> (\<exists>fls. heap_inv (fst s) (snd s) fls)"

definition heap_live :: "mem \<times> kheap \<Rightarrow> (ptr \<times> nat) set" where
  "heap_live s = {x. \<exists>fls. heap_inv (fst s) (snd s) fls \<and> x \<in> live_objects (snd s) fls}"

lemma heap_live_eq:
  assumes "heap_inv m h fls"
  shows "heap_live (m, h) = live_objects h fls"
proof -
  have "heap_inv m h fls' \<longleftrightarrow> fls' = fls" for fls' using heap_inv_unique assms by blast
  then show ?thesis by (simp add: heap_live_def)
qed

definition valid_request :: "u32 \<Rightarrow> bool" where
  "valid_request n \<longleftrightarrow> 0 < unat n \<and> unat n \<le> 40960"

definition kmalloc_st :: "mem \<times> kheap \<Rightarrow> u32 \<Rightarrow> ((mem \<times> kheap) \<times> ptr) option" where
  "kmalloc_st s n = do { (m, h, p) \<leftarrow> kmalloc (fst s) (snd s) n; Some ((m, h), p) }"

definition kfree_st :: "mem \<times> kheap \<Rightarrow> ptr \<Rightarrow> u32 \<Rightarrow> mem \<times> kheap" where
  "kfree_st s p n = kfree (fst s) (snd s) p n"

lemma allocated_ok:
  assumes inv: "heap_inv m h fls" and al: "allocated m h fls sz m' h' p fls' n" and "0 < sz"
  shows "heap_ok (m', h') \<and> (\<exists>k. sz \<le> k \<and> (p, k) \<notin> heap_live (m, h) \<and> heap_live (m', h') = insert (p, k) (heap_live (m, h)) \<and>
     (\<forall>(b, j) \<in> heap_live (m, h). obj_apart p k b j \<and> same_bytes m m' b j))"
proof -
  have "heap_inv m' h' fls'" "sz \<le> n" "live_objects h' fls' = insert (p, n) (live_objects h fls)"
    and ap: "\<forall>(b, k) \<in> live_objects h fls. obj_apart p n b k \<and> same_bytes m m' b k"
    using al by (auto simp: allocated_def same_bytes_def)
  moreover have "(p, n) \<notin> live_objects h fls"
    using ap \<open>sz \<le> n\<close> \<open>0 < sz\<close> by (auto simp: obj_apart_def)
  ultimately show ?thesis using heap_live_eq[OF inv] heap_live_eq[of m' h' fls'] by (auto simp: heap_ok_def)
qed

interpretation kh: object_allocator heap_ok heap_live fst valid_request kmalloc_st kfree_st
proof (unfold_locales, goal_cases)
  case (2 s n s' p)
  obtain m h m' h' where s: "s = (m, h)" "s' = (m', h')" by fastforce
  obtain fls where inv: "heap_inv m h fls" using 2(1) by (auto simp: heap_ok_def s)
  have n: "0 < unat n" "unat n \<le> 40960" using 2(2) by (auto simp: valid_request_def)
  have k: "kmalloc m h n = Some (m', h', p)" using 2(3) by (auto simp: kmalloc_st_def s bind_eq_Some_conv)
  from kmalloc_cases[OF inv n] obtain fls' j where "allocated m h fls (unat n) m' h' p fls' j"
    by cases (use k 2(4) in auto)
  from allocated_ok[OF inv this n(1)] show ?case by (simp add: s)
next
  case (3 s p k n)
  obtain m h where s: "s = (m, h)" by fastforce
  obtain m' h' where f: "kfree m h p n = (m', h')" by fastforce
  obtain fls where inv: "heap_inv m h fls" using 3(1) by (auto simp: heap_ok_def s)
  have l: "(p, k) \<in> live_objects h fls" using 3(2) heap_live_eq[OF inv] by (simp add: s)
  obtain fls' where "released m h fls p k m' h' fls'" using kfree_released[OF inv l 3(3,4) f] by blast
  then show ?case using heap_live_eq[OF inv] heap_live_eq[of m' h' fls'] f
    by (auto simp: s kfree_st_def released_def same_bytes_def heap_ok_def)
qed (simp add: valid_request_def)

section \<open>Properties\<close>


definition empty_heap :: kheap where
  "empty_heap = \<lparr>kheap_bitmap = \<lparr>bits = replicate 256 0, bsize = 2048\<rparr>, heap_cache = [], imalloc_ptr = 0xC0200000\<rparr>"

lemma empty_heap_inv: "heap_inv m empty_heap []"
  by (simp add: heap_inv_def empty_heap_def bitmap_wf_def bitmap_byte_size_def bitmap_index_defs)


text \<open>
  C2: Releasing a live block with a size that is not larger than the block removes exactly that block from
  the live blocks (whichever of the three branches of \<open>kfree\<close> runs: first free object, empty slab returned
  to the page bitmap, or pushed on the free list), keeps the invariant and the contents of the other
  live blocks.
\<close>

theorem kfree_correct:
  assumes "heap_inv m h fls" and "(addr, n) \<in> live_objects h fls" and "0 < unat sz" and "unat sz \<le> n"
    and "kfree m h addr sz = (m', h')"
  shows "\<exists>fls'. heap_inv m' h' fls' \<and> live_objects h' fls' = live_objects h fls - {(addr, n)} \<and>
    (\<forall>(b, k) \<in> live_objects h fls - {(addr, n)}. same_bytes m m' b k)"
  using kfree_released[OF assms] by (simp add: released_def same_bytes_def)

definition one_object_heap :: kheap where
  "one_object_heap = \<lparr>kheap_bitmap = \<lparr>bits = 0x0F # replicate 255 0, bsize = 2048\<rparr>,
     heap_cache = [\<lparr>start = HEAP_BASE, first = NULL, object_size = 16384, inuse = 1, large = 0\<rparr>],
     imalloc_ptr = 0xC0200000\<rparr>"

lemma one_object_heap_inv: "heap_inv m one_object_heap [[]]"
proof -
  have "bitmap_test (kheap_bitmap one_object_heap) (of_nat (0 + k))" if "k < 4" for k :: nat
  proof -
    have "k = 0 \<or> k = 1 \<or> k = 2 \<or> k = 3" using that by auto
    then show ?thesis
      by (auto simp: one_object_heap_def bitmap_test_def bitmap_in_bounds_def bitmap_index_defs)
  qed
  moreover have "bitmap_wf (kheap_bitmap one_object_heap)"
    by (simp add: one_object_heap_def bitmap_wf_def bitmap_byte_size_def bitmap_index_defs)
  ultimately show ?thesis
    by (auto simp: heap_inv_def one_object_heap_def slab_ok_def slab_at_def slab_pages_def slab_count_def
        intro!: exI[of _ 0])
qed

theorem kfree_correct_witness:
  "\<exists>fls'. heap_inv (fst (kfree (\<lambda>_. 0) one_object_heap HEAP_BASE 16384)) (snd (kfree (\<lambda>_. 0) one_object_heap HEAP_BASE 16384)) fls' \<and>
    live_objects (snd (kfree (\<lambda>_. 0) one_object_heap HEAP_BASE 16384)) fls' =
      live_objects one_object_heap [[]] - {(HEAP_BASE, 16384)} \<and>
    (\<forall>(b, k) \<in> live_objects one_object_heap [[]] - {(HEAP_BASE, 16384)}.
       same_bytes (\<lambda>_. 0) (fst (kfree (\<lambda>_. 0) one_object_heap HEAP_BASE 16384)) b k)"
  by (rule kfree_correct[OF one_object_heap_inv])
    (simp_all add: live_objects_def one_object_heap_def slab_objs_def slab_count_def slab_pages_def slab_obj_def)

text \<open>
  C3: Two blocks obtained from \<open>kmalloc\<close> one after the other never overlap, and a block that is allocated and
  then released with the requested size leaves the set of live blocks and the contents of every live block
  as they were.
\<close>

theorem kmalloc_kfree_roundtrip:
  assumes "heap_ok (m, h)" and "valid_request n" and "kmalloc m h n = Some (m', h', p)" and "p \<noteq> NULL"
  shows "heap_live (kfree m' h' p n) = heap_live (m, h) \<and> heap_ok (kfree m' h' p n) \<and>
    (\<forall>(b, j) \<in> heap_live (m, h). same_bytes m (fst (kfree m' h' p n)) b j) \<and>
    (\<forall>n' m'' h'' q. valid_request n' \<and> kmalloc m' h' n' = Some (m'', h'', q) \<and> q \<noteq> NULL \<longrightarrow>
       (\<exists>k k'. unat n \<le> k \<and> unat n' \<le> k' \<and> (p, k) \<in> heap_live (m'', h'') \<and> (q, k') \<in> heap_live (m'', h'') \<and>
          obj_apart q k' p k))"
proof -
  have st: "kmalloc_st (m, h) n = Some ((m', h'), p)" using assms(3) by (simp add: kmalloc_st_def)
  have "\<exists>k k'. unat n \<le> k \<and> unat n' \<le> k' \<and> (p, k) \<in> heap_live (m'', h'') \<and> (q, k') \<in> heap_live (m'', h'') \<and> obj_apart q k' p k"
    if "valid_request n'" "kmalloc m' h' n' = Some (m'', h'', q)" "q \<noteq> NULL" for n' m'' h'' q
    using kh.alloc_twice_apart[OF assms(1,2) st assms(4) that(1) _ that(3), of "(m'', h'')"] that(2)
    by (simp add: kmalloc_st_def)
  then show ?thesis using kh.alloc_release_restores[OF assms(1,2) st assms(4)] by (auto simp: kfree_st_def)
qed

definition one_free_heap :: kheap where
  "one_free_heap = one_object_heap\<lparr>heap_cache :=
     [\<lparr>start = HEAP_BASE, first = HEAP_BASE, object_size = 16384, inuse = 0, large = 0\<rparr>]\<rparr>"

lemma one_free_heap_inv: "heap_inv (\<lambda>_. 0) one_free_heap [[HEAP_BASE]]"
proof -
  have "slab_ok (kheap_bitmap one_object_heap) (\<lambda>_. 0)
      \<lparr>start = HEAP_BASE, first = NULL, object_size = 16384, inuse = 1, large = 0\<rparr> []"
    using heap_inv_slab[OF one_object_heap_inv, of 0] by (simp add: one_object_heap_def)
  then have "slab_ok (kheap_bitmap one_object_heap) (\<lambda>_. 0)
      \<lparr>start = HEAP_BASE, first = HEAP_BASE, object_size = 16384, inuse = 0, large = 0\<rparr> [HEAP_BASE]"
    by (auto simp: slab_ok_def slab_at_def slab_pages_def slab_count_def slab_objs_def slab_obj_def
        load32_def HEAP_BASE_val)
  then show ?thesis using one_object_heap_inv[of "\<lambda>_. 0"] by (simp add: heap_inv_def one_free_heap_def one_object_heap_def)
qed

lemma one_free_heap_kmalloc: "kmalloc (\<lambda>_. 0) one_free_heap 100 = Some ((\<lambda>_. 0), one_object_heap, HEAP_BASE)"
  by (simp add: kmalloc_def kmalloc_search.simps one_free_heap_def one_object_heap_def HEAP_BASE_val
      HEAP_LGSLAB_PAGES_def PAGE_SIZE_def load32_def)

theorem kmalloc_kfree_roundtrip_witness:
  "heap_live (kfree (\<lambda>_. 0) one_object_heap HEAP_BASE 100) = heap_live ((\<lambda>_. 0), one_free_heap)"
proof -
  have "heap_ok (\<lambda>_. 0, one_free_heap)" using one_free_heap_inv by (auto simp: heap_ok_def)
  from kmalloc_kfree_roundtrip[OF this _ one_free_heap_kmalloc] show ?thesis
    by (simp add: valid_request_def HEAP_BASE_val)
qed

lemma heap_inv_client_writes:
  assumes "heap_inv m h fls"
    and "\<And>a. m' a \<noteq> m a \<Longrightarrow> \<exists>(b, k) \<in> live_objects h fls. unat b \<le> unat a \<and> unat a < unat b + k"
  shows "heap_inv m' h fls \<and> heap_live (m', h) = heap_live (m, h)"
proof -
  have "load32 m' x = load32 m x" if i: "i < length (heap_cache h)" and x: "x \<in> set (fls ! i)" for i x
  proof -
    have ok: "slab_ok (kheap_bitmap h) m (heap_cache h ! i) (fls ! i)" using heap_inv_slab[OF assms(1) i] .
    then have xo: "x \<in> slab_objs (heap_cache h ! i)" and sz: "4 \<le> unat (object_size (heap_cache h ! i))"
      using x by (auto simp: slab_ok_def)
    obtain pg where pg: "slab_at (heap_cache h ! i) pg" using slab_ok_at[OF ok] by blast
    show ?thesis
    proof (rule load32_frame, rule ccontr)
      fix b assume b: "unat x \<le> unat b" "unat b < unat x + 4" "m' b \<noteq> m b"
      obtain c k where c: "(c, k) \<in> live_objects h fls" "unat c \<le> unat b" "unat b < unat c + k" using assms(2)[OF b(3)] by auto
      then obtain j where j: "j < length (heap_cache h)" "c \<in> slab_objs (heap_cache h ! j)" "c \<notin> set (fls ! j)"
          "k = unat (object_size (heap_cache h ! j))" by (auto simp: live_objects_def)
      have "x \<noteq> c \<or> i \<noteq> j" using j(3) x by auto
      from heap_objs_apart[OF assms(1) i j(1) xo j(2) this] show False
        using b(1,2) c(2,3) j(4) sz by (auto simp: obj_apart_def)
    qed (use slab_objs_range[OF pg xo] slab_at_bounds[OF pg] sz in linarith)
  qed
  then have "slab_ok (kheap_bitmap h) m' (heap_cache h ! i) (fls ! i)" if "i < length (heap_cache h)" for i
    using slab_ok_frame[OF heap_inv_slab[OF assms(1) that]] that by simp
  then have "heap_inv m' h fls" using assms(1) by (simp add: heap_inv_def)
  then show ?thesis using heap_live_eq assms(1) by simp
qed



end
