(* ===== verification/Heap_Pages.thy ===== *)
theory Heap_Pages
  imports Heap
begin

text \<open>
  Page-sized blocks of the heap. A large slab holds objects whose size is a multiple of the page size and a
  small slab holds objects below 1024 bytes; this shape is kept by every operation, so that a request of
  1024 bytes or more is served with a page-aligned block. Paging relies on it for its tables.
\<close>

definition slab_shaped :: "heap_slab \<Rightarrow> bool" where
  "slab_shaped s \<longleftrightarrow> (if large s = 0 then unat (object_size s) < 1024 else 4096 dvd unat (object_size s))"

definition heap_shaped :: "kheap \<Rightarrow> bool" where
  "heap_shaped h \<longleftrightarrow> (\<forall>s \<in> set (heap_cache h). slab_shaped s)"

lemma heap_shaped_nth: "heap_shaped h \<Longrightarrow> i < length (heap_cache h) \<Longrightarrow> slab_shaped (heap_cache h ! i)"
  by (simp add: heap_shaped_def)

lemma same_slab_shaped: "same_slab s t \<Longrightarrow> slab_shaped s = slab_shaped t"
  by (simp add: same_slab_def slab_shaped_def)

lemma heap_shaped_update:
  assumes "heap_shaped h" and "same_slab s (heap_cache h ! i)"
  shows "heap_shaped (h\<lparr>heap_cache := (heap_cache h)[i := s]\<rparr>)"
proof (cases "i < length (heap_cache h)")
  case True
  then have "slab_shaped s" using same_slab_shaped[OF assms(2)] heap_shaped_nth[OF assms(1)] by simp
  then show ?thesis using assms(1) set_update_subset_insert[of "heap_cache h" i s] by (auto simp: heap_shaped_def)
qed (use assms(1) in \<open>simp add: heap_shaped_def list_update_beyond\<close>)

lemma take_first_shaped: "heap_shaped h \<Longrightarrow> heap_shaped (take_first m h i)"
  unfolding take_first_def Let_def by (rule heap_shaped_update) (simp_all add: same_slab_def)

lemma grown_slab_shaped:
  fixes sz :: u32
  assumes "4 \<le> unat sz" and "unat sz \<le> 40960"
  shows "slab_shaped (new_slab pg (ucast sz) (of_bool (sint sz \<ge> 1024)))"
proof (cases "1024 \<le> unat sz")
  case True
  then have lg: "1024 \<le> sint sz" using sint_small[OF assms(2)] by linarith
  define q where "q = (unat sz + 4095) div 4096"
  have q: "q \<le> 10" using assms(2) unfolding q_def by linarith
  have "unat (PG_RND_UP (ucast (ucast sz :: u16))) = q * 4096"
    using assms(2) by (subst unat_PG_RND_UP) (simp_all add: q_def)
  then have "unat (grown_size (ucast sz) 1) = q * 4096" using q by (simp add: grown_size_def)
  then show ?thesis using lg by (simp add: slab_shaped_def)
next
  case False
  then have "\<not> 1024 \<le> sint sz" using sint_small[OF assms(2)] by linarith
  then show ?thesis using False by (simp add: slab_shaped_def grown_size_def)
qed

lemma grow_shaped:
  fixes sz :: u32
  assumes "heap_inv m h fls" and "heap_shaped h" and "4 \<le> unat sz" and "unat sz \<le> 40960"
    and "kheap_cache_grow m h (ucast sz) (of_bool (sint sz \<ge> 1024)) = Some (m', h', Some i)"
  shows "heap_shaped h'"
proof -
  have "bsize (kheap_bitmap h) = 2048" "bitmap_wf (kheap_bitmap h)" using assms(1) by (auto simp: heap_inv_def)
  from grow_unfold[OF assms(5) this] obtain pg where
    "heap_cache h' = heap_cache h @ [new_slab pg (ucast sz) (of_bool (sint sz \<ge> 1024))]" by metis
  then show ?thesis using assms(2) grown_slab_shaped[OF assms(3,4)] by (auto simp: heap_shaped_def)
qed

lemma kmalloc_shaped:
  assumes inv: "heap_inv m h fls" and sh: "heap_shaped h" and sz: "0 < unat sz" "unat sz \<le> 40960"
    and k: "kmalloc m h sz = Some (m', h', p)" and p: "p \<noteq> NULL"
  shows "heap_shaped h'"
proof -
  obtain fit idx where se: "kmalloc_search (heap_cache h) (sint (request sz)) 0 0 0 = (fit, idx)" by fastforce
  note unf = kmalloc_unfold[OF sz, of m h, unfolded se]
  show ?thesis
  proof (cases "fit = 0")
    case False
    then show ?thesis using unf k take_first_shaped[OF sh] by auto
  next
    case True
    let ?g = "kheap_cache_grow m h (ucast (request sz)) (of_bool (sint (request sz) \<ge> 1024))"
    have "?g \<bind> (\<lambda>(m, h, slab). case slab of None \<Rightarrow> Some (m, h, NULL)
        | Some i \<Rightarrow> Some (m, take_first m h i, first (heap_cache h ! i))) = Some (m', h', p)"
      using unf k True by simp
    then obtain m1 h1 i where g: "?g = Some (m1, h1, Some i)" "h' = take_first m1 h1 i"
      using p by (auto simp: bind_eq_Some_conv split: option.splits)
    then show ?thesis using grow_shaped[OF inv sh _ _ g(1)] request_bounds[OF sz] take_first_shaped by auto
  qed
qed

text \<open>The live blocks of a well-shaped heap that are at least 1024 bytes long start at a page boundary.\<close>

lemma live_page_aligned:
  assumes inv: "heap_inv m h fls" and sh: "heap_shaped h" and l: "(p, n) \<in> live_objects h fls" and n: "1024 \<le> n"
  shows "4096 dvd unat p" and "3225419776 \<le> unat p" and "unat p + n \<le> 3233808384"
proof -
  obtain j where j: "j < length (heap_cache h)" "p \<in> slab_objs (heap_cache h ! j)" "n = unat (object_size (heap_cache h ! j))"
    using l by (auto simp: live_objects_def)
  obtain pg where pg: "slab_at (heap_cache h ! j) pg" using slab_ok_at[OF heap_inv_slab[OF inv j(1)]] by blast
  obtain k where k: "k < slab_count (heap_cache h ! j)" "p = slab_obj (heap_cache h ! j) k"
    using j(2) by (auto simp: slab_objs_def)
  have "4096 dvd n" using heap_shaped_nth[OF sh j(1)] n j(3) by (auto simp: slab_shaped_def split: if_splits)
  moreover have "unat p = 3225419776 + pg * 4096 + k * n"
    using unat_slab_obj[OF pg k(1)] unat_start[OF pg] k(2) j(3) by simp
  moreover have "(4096 :: nat) dvd 3225419776" by simp
  ultimately show "4096 dvd unat p" by (metis dvd_add dvd_triv_right dvd_mult)
  show "3225419776 \<le> unat p" "unat p + n \<le> 3233808384"
    using slab_objs_range[OF pg j(2)] slab_at_bounds[OF pg] j(3) by linarith+
qed

end
