(* ===== verification/Paging.thy ===== *)
theory Paging
  imports Heap_Pages
begin

text \<open>
  Two-level i386 page tables, \<^verbatim>\<open>mm/paging.c\<close> and \<^verbatim>\<open>include/depthos/paging.h\<close>. Directories and tables are
  pages of kernel memory, reached through the linear map \<open>ADDR_TO_VIRT\<close>; the state holds the memory, the
  heap that provides the tables and the frame allocator that provides the pages.

  A panic (\<open>out of memory\<close>) and the dereference of a \<open>NULL\<close> page pointer are \<open>None\<close>. The memory is
  indexed by linear kernel addresses, so that the byte at physical address \<open>p\<close> is at \<open>ADDR_TO_VIRT p\<close>.

  \<open>page_entry\<close> is the abstract view of a directory, the entry of every page; \<open>pgd_inv\<close> says that the
  tables of the user half are distinct live pages of the heap. The refinement lemmas state that mapping and
  unmapping update this view at exactly the page concerned.
\<close>

section \<open>Entries and indices\<close>

definition PTE_EXTRACT_ADDR :: "u32 \<Rightarrow> u32" where
  "PTE_EXTRACT_ADDR v = (drop_bit 12 v AND 0xFFFFF) * PAGE_SIZE"

definition PDE_EXTRACT_ADDR :: "u32 \<Rightarrow> u32" where
  "PDE_EXTRACT_ADDR v = (drop_bit 12 v AND 0xFFFFF) * PAGE_SIZE"

definition make_pte :: "u32 \<Rightarrow> cbool \<Rightarrow> cbool \<Rightarrow> u32" where
  "make_pte frame write user =
     push_bit 0 (1 AND 1) OR push_bit 3 (1 AND 1) OR push_bit 1 (ucast (write AND 1)) OR
     push_bit 2 (ucast (user AND 1)) OR (frame AND push_bit 12 0xFFFFF)"

definition make_pde :: "u32 \<Rightarrow> cbool \<Rightarrow> cbool \<Rightarrow> u32" where
  "make_pde frame write user =
     push_bit 0 (1 AND 1) OR push_bit 3 (1 AND 1) OR push_bit 1 (ucast (write AND 1)) OR
     push_bit 2 (ucast (user AND 1)) OR (frame AND push_bit 12 0xFFFFF)"

definition pde_index :: "u32 \<Rightarrow> size_t" where
  "pde_index addr = addr div (PAGE_SIZE * PAGE_TABLE_SIZE)"

definition pte_index :: "u32 \<Rightarrow> size_t" where
  "pte_index addr = (addr div PAGE_SIZE) mod PAGE_TABLE_SIZE"

section \<open>Looking up pages\<close>

definition get_pagetable :: "mem \<Rightarrow> ptr \<Rightarrow> u32 \<Rightarrow> ptr" where
  "get_pagetable m pgd vaddr =
     (let pde = load32 m (pgd + 4 * pde_index vaddr);
          addr = PDE_EXTRACT_ADDR pde
      in if addr = 0 then NULL else ADDR_TO_VIRT addr)"

definition get_page :: "mem \<Rightarrow> ptr \<Rightarrow> u32 \<Rightarrow> ptr" where
  "get_page m pgd vaddr =
     (if pde_index vaddr > 1024 \<or> pte_index vaddr > 1024 then NULL
      else let pde = get_pagetable m pgd vaddr
           in if pde = NULL then NULL else pde + 4 * pte_index vaddr)"

definition get_phys_addr :: "mem \<Rightarrow> bool \<Rightarrow> ptr \<Rightarrow> u32 \<Rightarrow> u32" where
  "get_phys_addr m paging_enabled pgd vaddr =
     (if \<not> paging_enabled then ADDR_TO_PHYS vaddr
      else let pte = get_page m pgd vaddr
           in if pte = NULL then INVALID_ADDR
              else PTE_EXTRACT_ADDR (load32 m pte) + PG_OFFSET vaddr)"

section \<open>Changing the tables\<close>

record pgstate =
  pg_mem :: mem
  pg_heap :: kheap
  pg_pmm :: pmm

text \<open>\<open>kmalloc\<close> and \<open>kfree\<close> on the state; a fault of \<open>kmalloc\<close> is \<open>None\<close>.\<close>

definition st_kmalloc :: "pgstate \<Rightarrow> u32 \<Rightarrow> (pgstate \<times> ptr) option" where
  "st_kmalloc st sz = do {
     (m, h, p) \<leftarrow> kmalloc (pg_mem st) (pg_heap st) sz;
     Some (st\<lparr>pg_mem := m, pg_heap := h\<rparr>, p) }"

definition st_kfree :: "pgstate \<Rightarrow> ptr \<Rightarrow> u32 \<Rightarrow> pgstate" where
  "st_kfree st p sz = (let (m, h) = kfree (pg_mem st) (pg_heap st) p sz in st\<lparr>pg_mem := m, pg_heap := h\<rparr>)"

text \<open>\<open>memset\<close> and \<open>memcpy\<close> do not test their pointer: \<open>kmalloc\<close> failing is the fault \<open>None\<close>.\<close>

definition create_pgd :: "pgstate \<Rightarrow> ptr \<Rightarrow> (pgstate \<times> ptr) option" where
  "create_pgd st kernel_pgd = do {
     (st, pgd) \<leftarrow> st_kmalloc st 4096;
     if pgd = NULL then None
     else let m = memset (pg_mem st) pgd 0 4096;
              m = memcpy m (pgd + 4 * pde_index VIRT_BASE) (kernel_pgd + 4 * pde_index VIRT_BASE)
                    (4096 - pde_index VIRT_BASE * 4)
          in Some (st\<lparr>pg_mem := m\<rparr>, pgd) }"

definition dup_pgd :: "pgstate \<Rightarrow> ptr \<Rightarrow> (pgstate \<times> ptr) option" where
  "dup_pgd st original = do {
     (st, pgd) \<leftarrow> st_kmalloc st 4096;
     if pgd = NULL then None
     else Some (st\<lparr>pg_mem := memcpy (pg_mem st) pgd original 4096\<rparr>, pgd) }"

definition turn_page :: "mem \<Rightarrow> ptr \<Rightarrow> mem" where
  "turn_page m p = store32 m p (load32 m p AND push_bit 0 (of_bool (push_bit 0 (load32 m p) = 0)))"

definition map_page :: "pgstate \<Rightarrow> ptr \<Rightarrow> u32 \<Rightarrow> u32 \<Rightarrow> cbool \<Rightarrow> pgstate option" where
  "map_page st pgd vaddr phys user =
     (let ti = pde_index vaddr in do {
        st \<leftarrow>
          (if ti \<noteq> 0 \<and> PDE_EXTRACT_ADDR (load32 (pg_mem st) (pgd + 4 * ti)) = 0
           then do {
             (st, tb) \<leftarrow> st_kmalloc st PAGE_SIZE;
             if tb = NULL then None
             else let m = memset (pg_mem st) tb 0 PAGE_SIZE
                  in Some (st\<lparr>pg_mem := store32 m (pgd + 4 * pde_index vaddr) (make_pde (ADDR_TO_PHYS tb) 1 user)\<rparr>) }
           else Some st);
        let pg = get_page (pg_mem st) pgd vaddr;
        if pg = NULL then None
        else Some (st\<lparr>pg_mem := store32 (pg_mem st) pg (make_pte phys 1 user)\<rparr>) })"

definition unmap_page :: "mem \<Rightarrow> ptr \<Rightarrow> u32 \<Rightarrow> mem" where
  "unmap_page m pgd vaddr =
     (if get_page m pgd vaddr = NULL then m else store32 m (get_page m pgd vaddr) 0)"

definition unmap_table :: "pgstate \<Rightarrow> ptr \<Rightarrow> u32 \<Rightarrow> pgstate" where
  "unmap_table st pgd vaddr =
     (if pde_index vaddr \<ge> 1024 then st
      else let taddr = push_bit 12 (drop_bit 12 (load32 (pg_mem st) (pgd + 4 * pde_index vaddr)))
           in if taddr = 0 then st
              else let taddr = ADDR_TO_VIRT taddr;
                       st = st\<lparr>pg_mem := store32 (pg_mem st) (pgd + 4 * pde_index vaddr) 0\<rparr>
                   in st_kfree st taddr PAGE_SIZE)"

text \<open>The loop \<^verbatim>\<open>for (int i = 0; i < npages; i++)\<close> compares as unsigned; a fault of an iteration stops it.\<close>

primrec map_addr_loop :: "nat \<Rightarrow> u32 \<Rightarrow> pgstate \<Rightarrow> ptr \<Rightarrow> u32 \<Rightarrow> u32 \<Rightarrow> cbool \<Rightarrow> cbool \<Rightarrow> pgstate option" where
  "map_addr_loop 0 i st pgd vaddr pstart user overwrite = Some st"
| "map_addr_loop (Suc n) i st pgd vaddr pstart user overwrite =
     (let page = get_page (pg_mem st) pgd (vaddr + i * PAGE_SIZE)
      in if page \<noteq> NULL \<and> load32 (pg_mem st) page \<noteq> 0 \<and> overwrite = 0
         then map_addr_loop n (i + 1) st pgd vaddr pstart user overwrite
         else do {
           st \<leftarrow> map_page st pgd (vaddr + i * PAGE_SIZE) (pstart + i * PAGE_SIZE) user;
           map_addr_loop n (i + 1) st pgd vaddr pstart user overwrite })"

definition map_addr_fixed :: "pgstate \<Rightarrow> ptr \<Rightarrow> u32 \<Rightarrow> u32 \<Rightarrow> size_t \<Rightarrow> cbool \<Rightarrow> cbool \<Rightarrow> pgstate option" where
  "map_addr_fixed st pgd vaddr pstart npages user overwrite =
     (let vaddr = PG_RND_DOWN vaddr
      in map_addr_loop (unat npages) 0 st pgd vaddr pstart user overwrite)"

text \<open>\<open>phys_start\<close> is unsigned, so \<open>phys_start < 0\<close> is never true; the test is kept as it is written.\<close>

definition map_addr :: "pgstate \<Rightarrow> ptr \<Rightarrow> u32 \<Rightarrow> size_t \<Rightarrow> cbool \<Rightarrow> cbool \<Rightarrow> (pgstate \<times> u32) option" where
  "map_addr st pgd vaddr npages user overwrite =
     (let vaddr = PG_RND_DOWN vaddr;
          (phys_start, p) = pmm_alloc (pg_pmm st) npages;
          st = st\<lparr>pg_pmm := p\<rparr>
      in if phys_start < 0 then Some (st, 0)
         else do {
           st \<leftarrow> map_addr_fixed st pgd vaddr phys_start npages user overwrite;
           Some (st, phys_start) })"

text \<open>The three loops of \<open>unmap_addr\<close>; near the top of the address space \<open>cur\<close> can wrap around for ever.\<close>

partial_function (option) unmap_pages_loop :: "pgstate \<Rightarrow> ptr \<Rightarrow> u32 \<Rightarrow> u32 \<Rightarrow> u32 \<Rightarrow> (pgstate \<times> u32) option" where
  "unmap_pages_loop st pgd cur lim endp =
     (if cur < lim \<and> cur < endp
      then unmap_pages_loop (st\<lparr>pg_mem := unmap_page (pg_mem st) pgd cur\<rparr>) pgd (cur + PAGE_SIZE) lim endp
      else Some (st, cur))"

partial_function (option) unmap_tables_loop :: "pgstate \<Rightarrow> ptr \<Rightarrow> u32 \<Rightarrow> u32 \<Rightarrow> u32 \<Rightarrow> (pgstate \<times> u32) option" where
  "unmap_tables_loop st pgd cur lim endp =
     (if cur < lim \<and> cur < endp
      then unmap_tables_loop (unmap_table st pgd cur) pgd (cur + PAGE_SIZE * PAGE_TABLE_SIZE) lim endp
      else Some (st, cur))"

definition unmap_addr :: "pgstate \<Rightarrow> ptr \<Rightarrow> u32 \<Rightarrow> size_t \<Rightarrow> cbool \<Rightarrow> pgstate option" where
  "unmap_addr st pgd vaddr npages freetbl =
     (let cur = vaddr; endp = vaddr + npages * PAGE_SIZE in do {
        (st, cur) \<leftarrow>
          (if freetbl \<noteq> 0
           then do {
             (st, cur) \<leftarrow> unmap_pages_loop st pgd cur (ROUND_UP vaddr (PAGE_TABLE_SIZE * PAGE_SIZE)) endp;
             unmap_tables_loop st pgd cur (ROUND_DOWN endp (PAGE_TABLE_SIZE * PAGE_SIZE)) endp }
           else Some (st, cur));
        (st, cur) \<leftarrow> unmap_pages_loop st pgd cur endp endp;
        Some st })"

section \<open>Copying an address space\<close>

text \<open>
  \<open>clone_pgd\<close> copies pages by switching the directory: with directory \<open>pgd\<close> active, the byte at user
  address \<open>v\<close> is the byte of the frame that the tables of \<open>pgd\<close> name. \<open>buffer\<close> lies in the kernel half,
  which every directory maps alike.
\<close>

definition user_addr :: "mem \<Rightarrow> ptr \<Rightarrow> u32 \<Rightarrow> ptr" where
  "user_addr m pgd v = ADDR_TO_VIRT (PTE_EXTRACT_ADDR (load32 m (get_page m pgd v)) + PG_OFFSET v)"

definition copy_from_user :: "mem \<Rightarrow> ptr \<Rightarrow> ptr \<Rightarrow> u32 \<Rightarrow> nat \<Rightarrow> mem" where
  "copy_from_user m pgd buf v n =
     for_upto n (\<lambda>k m. m(buf + of_nat k := m (user_addr m pgd (v + of_nat k)))) m"

definition copy_to_user :: "mem \<Rightarrow> ptr \<Rightarrow> u32 \<Rightarrow> ptr \<Rightarrow> nat \<Rightarrow> mem" where
  "copy_to_user m pgd v buf n =
     for_upto n (\<lambda>k m. m(user_addr m pgd (v + of_nat k) := m (buf + of_nat k))) m"

definition clone_page :: "ptr \<Rightarrow> ptr \<Rightarrow> ptr \<Rightarrow> ptr \<Rightarrow> nat \<Rightarrow> nat \<Rightarrow> pgstate \<Rightarrow> pgstate option" where
  "clone_page original pgd table buffer i j st =
     (let v = of_nat i * 1024 * 4096 + of_nat j * 4096;
          page = get_page (pg_mem st) original v
      in if page = NULL then None
         else if load32 (pg_mem st) page = 0 then Some st
         else
           let (frame, pm) = pmm_alloc (pg_pmm st) 1;
               pte = load32 (pg_mem st) page;
               m = store32 (pg_mem st) (table + 4 * of_nat j)
                     (make_pte frame (ucast (getbit pte 1)) (ucast (getbit pte 2)));
               m = copy_from_user m original buffer v 4096;
               m = copy_to_user m pgd v buffer 4096
           in Some (st\<lparr>pg_mem := m, pg_pmm := pm\<rparr>))"

definition clone_table :: "ptr \<Rightarrow> ptr \<Rightarrow> ptr \<Rightarrow> nat \<Rightarrow> pgstate \<Rightarrow> pgstate option" where
  "clone_table original pgd buffer i st =
     (let pde = load32 (pg_mem st) (original + 4 * of_nat i)
      in if pde = 0 \<or> of_nat i * 1024 * 4096 \<ge> VIRT_BASE then Some st
         else do {
           (st, table) \<leftarrow> st_kmalloc st 4096;
           if table = NULL then None
           else
             let m = memset (pg_mem st) table 0 4096;
                 m = store32 m (pgd + 4 * of_nat i)
                       (make_pde (ADDR_TO_PHYS table) (of_bool (pde AND push_bit 1 1 \<noteq> 0))
                         (of_bool (pde AND push_bit 2 1 \<noteq> 0)))
             in for_opt 1024 (clone_page original pgd table buffer i) (st\<lparr>pg_mem := m\<rparr>) })"

definition clone_pgd :: "pgstate \<Rightarrow> ptr \<Rightarrow> (pgstate \<times> ptr) option" where
  "clone_pgd st original = do {
     (st, pgd) \<leftarrow> dup_pgd st original;
     (st, buffer) \<leftarrow> st_kmalloc st 4096;
     st \<leftarrow> for_opt 1024 (clone_table original pgd buffer) st;
     Some (st_kfree st buffer 4096, pgd) }"

section \<open>Entries\<close>

lemma extract_addr: "PTE_EXTRACT_ADDR v = v AND NOT (mask 12)" "PDE_EXTRACT_ADDR v = v AND NOT (mask 12)"
proof -
  have "(drop_bit 12 v AND 0xFFFFF) * 4096 = push_bit 12 (drop_bit 12 v AND mask 20)"
    by (simp add: push_bit_eq_mult mask_eq_exp_minus_1)
  also have "\<dots> = v AND NOT (mask 12)"
    by (rule bit_word_eqI) (auto simp: bit_simps)
  finally show "PTE_EXTRACT_ADDR v = v AND NOT (mask 12)" "PDE_EXTRACT_ADDR v = v AND NOT (mask 12)"
    by (simp_all add: PTE_EXTRACT_ADDR_def PDE_EXTRACT_ADDR_def PAGE_SIZE_def)
qed

lemma page_bits_clear: "4096 dvd unat (f :: u32) \<Longrightarrow> f AND mask 12 = 0"
proof -
  assume "4096 dvd unat f"
  moreover have "f AND mask 12 = f mod 4096" by (simp add: take_bit_eq_mask[symmetric] take_bit_eq_mod)
  ultimately have "unat (f AND mask 12) = 0" by (simp add: unat_mod)
  then show ?thesis by (simp only: unsigned_eq_0_iff)
qed

lemma make_pte_eq: "make_pte f w u = make_pde f w u"
  by (simp add: make_pte_def make_pde_def)

lemma extract_make_pte:
  "PTE_EXTRACT_ADDR (make_pte f w u) = f AND NOT (mask 12)"
proof -
  have m20: "(0xFFFFF :: u32) = mask 20" by (simp add: mask_eq_exp_minus_1)
  have "bit (make_pte f w u) n = bit f n" if "12 \<le> n" "n < 32" for n
    unfolding make_pte_def m20 bit_or_iff bit_push_bit_iff bit_and_iff bit_mask_iff bit_1_iff bit_unsigned_iff
    using that by auto
  then have "make_pte f w u AND NOT (mask 12) = f AND NOT (mask 12)"
    by (intro bit_word_eqI) (auto simp: bit_and_iff bit_not_iff bit_mask_iff)
  then show ?thesis by (simp add: extract_addr)
qed

lemma extract_make_pte_aligned:
  assumes "4096 dvd unat f"
  shows "PTE_EXTRACT_ADDR (make_pte f w u) = f" "PDE_EXTRACT_ADDR (make_pde f w u) = f"
proof -
  have "f AND NOT (mask 12) = f"
    using page_bits_clear[OF assms] bit_eq_iff[of "f AND mask 12" 0]
    by (intro bit_word_eqI) (auto simp: bit_and_iff bit_not_iff bit_mask_iff)
  then show "PTE_EXTRACT_ADDR (make_pte f w u) = f" "PDE_EXTRACT_ADDR (make_pde f w u) = f"
    using extract_make_pte[of f w u] by (simp_all add: extract_addr make_pte_eq)
qed

section \<open>The abstract view and the invariant\<close>

definition page_entry :: "mem \<Rightarrow> ptr \<Rightarrow> u32 \<Rightarrow> u32" where
  "page_entry m pgd v = (if get_page m pgd v = NULL then 0 else load32 m (get_page m pgd v))"

definition same_page :: "u32 \<Rightarrow> u32 \<Rightarrow> bool" where
  "same_page v w \<longleftrightarrow> v div PAGE_SIZE = w div PAGE_SIZE"

definition table_frame :: "mem \<Rightarrow> ptr \<Rightarrow> nat \<Rightarrow> u32" where
  "table_frame m pgd i = PDE_EXTRACT_ADDR (load32 m (pgd + 4 * of_nat i))"

definition page_block :: "(ptr \<times> nat) set \<Rightarrow> ptr \<Rightarrow> bool" where
  "page_block L p \<longleftrightarrow> (\<exists>n \<ge> 4096. (p, n) \<in> L)"

text \<open>
  The directory and the tables of the user half (768 entries) are live page blocks of the heap, and no
  two of them are the same page.
\<close>

definition tables_ok :: "mem \<Rightarrow> (ptr \<times> nat) set \<Rightarrow> ptr \<Rightarrow> bool" where
  "tables_ok m L pgd \<longleftrightarrow> page_block L pgd \<and>
     (\<forall>i < 768. table_frame m pgd i \<noteq> 0 \<longrightarrow>
        page_block L (ADDR_TO_VIRT (table_frame m pgd i)) \<and> ADDR_TO_VIRT (table_frame m pgd i) \<noteq> pgd) \<and>
     (\<forall>i < 768. \<forall>j < 768. i \<noteq> j \<and> table_frame m pgd i \<noteq> 0 \<longrightarrow> table_frame m pgd i \<noteq> table_frame m pgd j)"

definition pgd_inv :: "pgstate \<Rightarrow> ptr list list \<Rightarrow> ptr \<Rightarrow> bool" where
  "pgd_inv st fls pgd \<longleftrightarrow> heap_inv (pg_mem st) (pg_heap st) fls \<and> heap_shaped (pg_heap st) \<and>
     tables_ok (pg_mem st) (live_objects (pg_heap st) fls) pgd"

lemma unat_pde_index: "unat (pde_index v) = unat v div 4194304"
  by (simp add: pde_index_def PAGE_SIZE_def PAGE_TABLE_SIZE_def unat_div)

lemma unat_pte_index: "unat (pte_index v) = unat v div 4096 mod 1024"
  by (simp add: pte_index_def PAGE_SIZE_def PAGE_TABLE_SIZE_def unat_div unat_mod)

lemma pde_index_user: "unat v < 3221225472 \<Longrightarrow> unat (pde_index v) < 768"
  by (simp add: unat_pde_index div_less_iff_less_mult)

lemma pte_index_bound: "unat (pte_index v) < 1024"
  by (simp add: unat_pte_index)

lemma same_page_index:
  "same_page v w \<longleftrightarrow> unat (pde_index v) = unat (pde_index w) \<and> unat (pte_index v) = unat (pte_index w)"
proof -
  have "x div 4194304 = x div 4096 div 1024" for x :: nat by (simp add: div_mult2_eq[symmetric])
  then have "unat v div 4096 = unat w div 4096 \<longleftrightarrow>
      unat v div 4194304 = unat w div 4194304 \<and> unat v div 4096 mod 1024 = unat w div 4096 mod 1024"
    by (metis div_mult_mod_eq)
  then show ?thesis
    by (simp add: same_page_def PAGE_SIZE_def unat_pde_index unat_pte_index word_unat_eq_iff unat_div)
qed

lemma get_page_eq:
  "get_page m pgd v = (if table_frame m pgd (unat (pde_index v)) = 0 then NULL
     else let t = ADDR_TO_VIRT (table_frame m pgd (unat (pde_index v)))
          in if t = NULL then NULL else t + 4 * of_nat (unat (pte_index v)))"
proof -
  have "unat (pde_index v) \<le> 1024" using unat_u32_bound[of v] by (simp add: unat_pde_index)
  then have "\<not> pde_index v > 1024" "\<not> pte_index v > 1024"
    using pte_index_bound[of v] by (auto simp: word_less_nat_alt)
  then show ?thesis by (simp add: get_page_def get_pagetable_def table_frame_def Let_def)
qed

text \<open>Words in two different slots of page blocks do not interfere.\<close>

lemma slot_unat:
  fixes p :: ptr
  assumes "unat p + 4096 \<le> 4294967296" and "k < 1024"
  shows "unat (p + 4 * of_nat k) = unat p + 4 * k"
proof -
  have "p + 4 * of_nat k = p + of_nat (4 * k)" by simp
  then show ?thesis using assms by (simp add: unat_word_ariths of_nat_unat_u32 del: of_nat_mult)
qed

lemma slot_other:
  assumes "obj_apart p 4096 q 4096 \<or> p = q \<and> unat p + 4096 \<le> 4294967296" and "k < 1024" and "l < 1024"
    and "p \<noteq> q \<or> k \<noteq> l"
  shows "load32 (store32 m (p + 4 * of_nat k) v) (q + 4 * of_nat l) = load32 m (q + 4 * of_nat l)"
proof (rule load32_store32_other, rule obj_apart_regions)
  have b: "unat p + 4096 \<le> 4294967296" "unat q + 4096 \<le> 4294967296" using assms(1) by (auto simp: obj_apart_def)
  show "obj_apart (p + 4 * of_nat k) 4 (q + 4 * of_nat l) 4"
    using assms b unfolding obj_apart_def slot_unat[OF b(1) assms(2)] slot_unat[OF b(2) assms(3)] by auto
qed simp_all

lemma page_block_facts:
  assumes "heap_inv m h fls" and "heap_shaped h" and "page_block (live_objects h fls) p"
  shows "4096 dvd unat p" "3225419776 \<le> unat p" "unat p + 4096 \<le> 3233808384"
proof -
  obtain n where n: "4096 \<le> n" "(p, n) \<in> live_objects h fls" using assms(3) by (auto simp: page_block_def)
  have "1024 \<le> n" using n(1) by simp
  from live_page_aligned[OF assms(1,2) n(2) this] n(1)
  show "4096 dvd unat p" "3225419776 \<le> unat p" "unat p + 4096 \<le> 3233808384" by linarith+
qed

lemma page_block_apart:
  assumes "heap_inv m h fls" and "page_block (live_objects h fls) p" and "page_block (live_objects h fls) q" and "p \<noteq> q"
  shows "obj_apart p 4096 q 4096"
proof -
  obtain n k where n: "4096 \<le> n" "(p, n) \<in> live_objects h fls" and k: "4096 \<le> k" "(q, k) \<in> live_objects h fls"
    using assms(2,3) by (auto simp: page_block_def)
  obtain i where i: "i < length (heap_cache h)" "p \<in> slab_objs (heap_cache h ! i)" "n = unat (object_size (heap_cache h ! i))"
    using n(2) by (auto simp: live_objects_def)
  obtain j where j: "j < length (heap_cache h)" "q \<in> slab_objs (heap_cache h ! j)" "k = unat (object_size (heap_cache h ! j))"
    using k(2) by (auto simp: live_objects_def)
  have "obj_apart p n q k" using heap_objs_apart[OF assms(1) i(1) j(1) i(2) j(2)] assms(4) i(3) j(3) by simp
  then show ?thesis using n(1) k(1) by (rule obj_apart_mono)
qed

section \<open>Writing one entry\<close>

lemma tables_ok_frames:
  assumes "\<And>i. i < 768 \<Longrightarrow> table_frame m' pgd i = table_frame m pgd i"
  shows "tables_ok m' L pgd = tables_ok m L pgd"
  unfolding tables_ok_def using assms by simp

lemma virt_frame_inj: "ADDR_TO_VIRT a = ADDR_TO_VIRT b \<longleftrightarrow> a = b"
  by (simp add: ADDR_TO_VIRT_def)

text \<open>
  A store into the slot of \<open>v\<close> in an existing table changes the entry of that page and of no other, and
  keeps the tables.
\<close>

lemma entry_store:
  fixes e :: u32
  assumes inv: "heap_inv m0 h fls" and sh: "heap_shaped h" and ok: "tables_ok m (live_objects h fls) pgd"
    and v: "unat v < 3221225472" and g: "get_page m pgd v \<noteq> NULL"
  defines "m' \<equiv> store32 m (get_page m pgd v) e"
  shows "i < 768 \<Longrightarrow> table_frame m' pgd i = table_frame m pgd i"
    and "unat w < 3221225472 \<Longrightarrow> page_entry m' pgd w = (if same_page v w then e else page_entry m pgd w)"
    and "unat w < 3221225472 \<Longrightarrow> get_page m' pgd w = get_page m pgd w"
proof -
  let ?L = "live_objects h fls" and ?pv = "unat (pde_index v)" and ?tv = "unat (pte_index v)"
  let ?t = "\<lambda>i. ADDR_TO_VIRT (table_frame m pgd i)"
  have pv: "?pv < 768" using v by (rule pde_index_user)
  have tf: "table_frame m pgd ?pv \<noteq> 0" and gp: "get_page m pgd v = ?t ?pv + 4 * of_nat ?tv"
    using g by (auto simp: get_page_eq Let_def split: if_splits)
  have bp: "page_block ?L pgd" and bt: "page_block ?L (?t ?pv)" and ne: "?t ?pv \<noteq> pgd"
    using ok pv tf by (auto simp: tables_ok_def)
  have "load32 m' (pgd + 4 * of_nat i) = load32 m (pgd + 4 * of_nat i)" if "i < 768" for i
    unfolding m'_def gp using that ne
    by (intro slot_other[OF disjI1[OF page_block_apart[OF inv bt bp ne]] pte_index_bound]) auto
  then have fr: "table_frame m' pgd i = table_frame m pgd i" if "i < 768" for i
    unfolding table_frame_def using that by simp
  then show "i < 768 \<Longrightarrow> table_frame m' pgd i = table_frame m pgd i" .
  have gw: "get_page m' pgd w = get_page m pgd w" if "unat w < 3221225472" for w
    using fr[OF pde_index_user[OF that]] by (simp add: get_page_eq)
  then show "unat w < 3221225472 \<Longrightarrow> get_page m' pgd w = get_page m pgd w" .
  show "page_entry m' pgd w = (if same_page v w then e else page_entry m pgd w)" if w: "unat w < 3221225472"
  proof (cases "same_page v w")
    case True
    then have "unat (pde_index w) = ?pv" "unat (pte_index w) = ?tv" by (auto simp: same_page_index)
    then have "get_page m pgd w = get_page m pgd v" by (simp only: get_page_eq)
    then show ?thesis using True g gw[OF w] by (simp add: page_entry_def m'_def)
  next
    case False
    let ?pw = "unat (pde_index w)" and ?tw = "unat (pte_index w)"
    show ?thesis
    proof (cases "get_page m pgd w = NULL")
      case True
      then show ?thesis using False gw[OF w] by (simp add: page_entry_def)
    next
      case ex: False
      then have tw: "table_frame m pgd ?pw \<noteq> 0" and gpw: "get_page m pgd w = ?t ?pw + 4 * of_nat ?tw"
        by (auto simp: get_page_eq Let_def split: if_splits)
      have pw: "?pw < 768" using w by (rule pde_index_user)
      have bw: "page_block ?L (?t ?pw)" using ok pw tw by (simp add: tables_ok_def)
      have dif: "?t ?pv \<noteq> ?t ?pw \<or> ?tv \<noteq> ?tw"
      proof (cases "?pv = ?pw")
        case True
        then show ?thesis using False by (simp add: same_page_index)
      next
        case False
        then show ?thesis using ok pv pw tf by (auto simp: tables_ok_def virt_frame_inj)
      qed
      have "unat (?t ?pv) + 4096 \<le> 4294967296" using page_block_facts[OF inv sh bt] by linarith
      then have "obj_apart (?t ?pv) 4096 (?t ?pw) 4096 \<or> ?t ?pv = ?t ?pw \<and> unat (?t ?pv) + 4096 \<le> 4294967296"
        using page_block_apart[OF inv bt bw] by blast
      from slot_other[OF this pte_index_bound pte_index_bound dif, of m e]
      show ?thesis using False ex gw[OF w] by (simp add: page_entry_def m'_def gp gpw)
    qed
  qed
qed

section \<open>Adding a table\<close>

lemma page_write_inv:
  assumes inv: "heap_inv m h fls" and bp: "page_block (live_objects h fls) p"
    and wr: "\<And>a. m' a \<noteq> m a \<Longrightarrow> unat p \<le> unat a \<and> unat a < unat p + 4096"
  shows "heap_inv m' h fls"
proof -
  obtain n where n: "4096 \<le> n" "(p, n) \<in> live_objects h fls" using bp by (auto simp: page_block_def)
  have "\<exists>(b, k) \<in> live_objects h fls. unat b \<le> unat a \<and> unat a < unat b + k" if "m' a \<noteq> m a" for a
    using wr[OF that] n by (intro bexI[of _ "(p, n)"]) auto
  then show ?thesis using heap_inv_client_writes[OF inv] by blast
qed

lemma slot_write_range:
  assumes "unat p + 4096 \<le> 4294967296" and "k < 1024" and "store32 m (p + 4 * of_nat k) v a \<noteq> m a"
  shows "unat p \<le> unat a \<and> unat a < unat p + 4096"
proof -
  have "in_region (p + 4 * of_nat k) 4 a" using assms(3) store32_outside by metis
  from in_region_nat[OF this] show ?thesis using assms(1,2) slot_unat[OF assms(1,2)] by linarith
qed

lemma memset_page_range:
  assumes "unat p + 4096 \<le> 4294967296" and "memset m p c 4096 a \<noteq> m a"
  shows "unat p \<le> unat a \<and> unat a < unat p + 4096"
proof -
  have "in_region p 4096 a" using assms(2) by (auto simp: memset_apply split: if_splits)
  from in_region_nat[OF this] show ?thesis using assms(1) by linarith
qed

lemma slot_write_inv:
  assumes "heap_inv m h fls" and "page_block (live_objects h fls) p" and "unat p + 4096 \<le> 4294967296" and "k < 1024"
  shows "heap_inv (store32 m (p + 4 * of_nat k) v) h fls"
  by (rule page_write_inv[OF assms(1,2)]) (rule slot_write_range[OF assms(3,4)])

lemma memset_page_inv:
  assumes "heap_inv m h fls" and "page_block (live_objects h fls) p" and "unat p + 4096 \<le> 4294967296"
  shows "heap_inv (memset m p c 4096) h fls"
  by (rule page_write_inv[OF assms(1,2)]) (rule memset_page_range[OF assms(3)])

lemma slot_load_frame:
  assumes "unat q + 4096 \<le> 4294967296" and "l < 1024"
    and "\<And>a. unat q \<le> unat a \<Longrightarrow> unat a < unat q + 4096 \<Longrightarrow> m' a = m a"
  shows "load32 m' (q + 4 * of_nat l) = load32 m (q + 4 * of_nat l)"
  using assms slot_unat[OF assms(1,2)] by (intro load32_frame assms(3)) linarith+

lemma pde_slot: "4 * pde_index v = 4 * of_nat (unat (pde_index v))"
  by simp

lemma page_entry_cong:
  assumes "table_frame m' pgd (unat (pde_index w)) = table_frame m pgd (unat (pde_index w))"
    and "table_frame m pgd (unat (pde_index w)) \<noteq> 0 \<Longrightarrow>
      load32 m' (ADDR_TO_VIRT (table_frame m pgd (unat (pde_index w))) + 4 * of_nat (unat (pte_index w))) =
      load32 m (ADDR_TO_VIRT (table_frame m pgd (unat (pde_index w))) + 4 * of_nat (unat (pte_index w)))"
  shows "page_entry m' pgd w = page_entry m pgd w"
  using assms unfolding page_entry_def get_page_eq by (auto simp: Let_def)

lemma phys_of_block:
  assumes "4096 dvd unat p" and "3225419776 \<le> unat p"
  shows "4096 dvd unat (ADDR_TO_PHYS p)" "ADDR_TO_PHYS p \<noteq> 0"
proof -
  have "unat (ADDR_TO_PHYS p) = unat p - 3221225472"
    using assms(2) by (simp add: ADDR_TO_PHYS_def VIRT_BASE_def unat_sub word_le_nat_alt)
  moreover have "(4096 :: nat) dvd 3221225472" by simp
  ultimately show "4096 dvd unat (ADDR_TO_PHYS p)" using assms by (metis dvd_diff_nat)
  show "ADDR_TO_PHYS p \<noteq> 0" using \<open>unat (ADDR_TO_PHYS p) = _\<close> assms(2) by auto
qed

lemma new_table:
  fixes user :: cbool
  assumes inv: "pgd_inv st fls pgd" and v: "unat v < 3221225472"
    and none: "table_frame (pg_mem st) pgd (unat (pde_index v)) = 0"
    and k: "st_kmalloc st PAGE_SIZE = Some (st1, tb)" and tb: "tb \<noteq> NULL"
  defines "m2 \<equiv> store32 (memset (pg_mem st1) tb 0 PAGE_SIZE) (pgd + 4 * pde_index v) (make_pde (ADDR_TO_PHYS tb) 1 user)"
  shows "\<exists>fls'. pgd_inv (st1\<lparr>pg_mem := m2\<rparr>) fls' pgd" and "get_page m2 pgd v \<noteq> NULL"
    and "unat w < 3221225472 \<Longrightarrow> page_entry m2 pgd w = page_entry (pg_mem st) pgd w"
proof -
  let ?m = "pg_mem st" and ?h = "pg_heap st" and ?L = "live_objects (pg_heap st) fls" and ?pv = "unat (pde_index v)"
  let ?m1 = "pg_mem st1" and ?h1 = "pg_heap st1"
  have hi: "heap_inv ?m ?h fls" and sh: "heap_shaped ?h" and ok: "tables_ok ?m ?L pgd"
    using inv by (auto simp: pgd_inv_def)
  have km: "kmalloc ?m ?h 4096 = Some (?m1, ?h1, tb)"
    using k by (auto simp: st_kmalloc_def PAGE_SIZE_def bind_eq_Some_conv)
  obtain fls1 n where al: "allocated ?m ?h fls 4096 ?m1 ?h1 tb fls1 n"
    using kmalloc_allocated[OF hi _ _ km tb] by auto
  have sh1: "heap_shaped ?h1" using kmalloc_shaped[OF hi sh _ _ km tb] by simp
  have hi1: "heap_inv ?m1 ?h1 fls1" and n: "4096 \<le> n" and L1: "live_objects ?h1 fls1 = insert (tb, n) ?L"
    and fr: "\<And>b j. (b, j) \<in> ?L \<Longrightarrow> obj_apart tb n b j \<and> same_bytes ?m ?m1 b j"
    using al by (auto simp: allocated_def same_bytes_def)
  let ?L1 = "live_objects ?h1 fls1"
  have up: "page_block ?L1 q" if "page_block ?L q" for q using that L1 by (auto simp: page_block_def)
  have btb: "page_block ?L1 tb" using n L1 by (auto simp: page_block_def)
  note ptb = page_block_facts[OF hi1 sh1 btb]
  have ntb: "q \<noteq> tb" if q: "page_block ?L q" for q
    using q fr n unfolding page_block_def obj_apart_def by fastforce
  have old: "load32 (memset ?m1 tb 0 PAGE_SIZE) (q + 4 * of_nat l) = load32 ?m (q + 4 * of_nat l)"
    if q: "page_block ?L q" and l: "l < 1024" for q l
  proof (rule slot_load_frame[OF _ l])
    show "unat q + 4096 \<le> 4294967296" using page_block_facts[OF hi sh q] by linarith
    fix a :: ptr assume a: "unat q \<le> unat a" "unat a < unat q + 4096"
    obtain j where j: "4096 \<le> j" "(q, j) \<in> ?L" using q by (auto simp: page_block_def)
    have ap: "obj_apart tb 4096 q 4096" using page_block_apart[OF hi1 btb up[OF q]] ntb[OF q] by simp
    have "memset ?m1 tb 0 4096 a = ?m1 a"
      by (rule ccontr, drule memset_page_range[rotated]) (use ptb a ap in \<open>auto simp: obj_apart_def\<close>)
    also have "?m1 a = ?m a" using fr[OF j(2)] a j(1) by (simp add: same_bytes_def)
    finally show "memset ?m1 tb 0 PAGE_SIZE a = ?m a" by (simp add: PAGE_SIZE_def)
  qed
  have bp: "page_block ?L pgd" using ok by (simp add: tables_ok_def)
  have pv: "?pv < 768" using v by (rule pde_index_user)
  have pgd4: "unat pgd + 4096 \<le> 4294967296" using page_block_facts[OF hi sh bp] by linarith
  have m2: "m2 = store32 (memset ?m1 tb 0 PAGE_SIZE) (pgd + 4 * of_nat ?pv) (make_pde (ADDR_TO_PHYS tb) 1 user)"
    by (simp add: m2_def)
  have ph: "PDE_EXTRACT_ADDR (make_pde (ADDR_TO_PHYS tb) 1 user) = ADDR_TO_PHYS tb" "ADDR_TO_PHYS tb \<noteq> 0"
    using phys_of_block[OF ptb(1,2)] extract_make_pte_aligned by auto
  have frames: "table_frame m2 pgd i = (if i = ?pv then ADDR_TO_PHYS tb else table_frame ?m pgd i)" if "i < 768" for i
  proof (cases "i = ?pv")
    case True
    then show ?thesis using ph(1) by (simp add: table_frame_def m2)
  next
    case False
    have "load32 m2 (pgd + 4 * of_nat i) = load32 (memset ?m1 tb 0 PAGE_SIZE) (pgd + 4 * of_nat i)"
      unfolding m2 using pv that False pgd4 by (intro slot_other) auto
    then show ?thesis using old[OF bp, of i] that False by (simp add: table_frame_def)
  qed
  have tbl: "page_block ?L (ADDR_TO_VIRT (table_frame ?m pgd i))" "ADDR_TO_VIRT (table_frame ?m pgd i) \<noteq> pgd"
    if "i < 768" "table_frame ?m pgd i \<noteq> 0" for i
    using ok that by (auto simp: tables_ok_def)
  have "tables_ok m2 ?L1 pgd"
  proof -
    have "page_block ?L1 (ADDR_TO_VIRT (table_frame m2 pgd i)) \<and> ADDR_TO_VIRT (table_frame m2 pgd i) \<noteq> pgd"
      if "i < 768" "table_frame m2 pgd i \<noteq> 0" for i
      using frames[OF that(1)] that tbl[OF that(1)] up btb ntb[OF bp] by (auto split: if_splits)
    moreover have "table_frame m2 pgd i \<noteq> table_frame m2 pgd j"
      if "i < 768" "j < 768" "i \<noteq> j" "table_frame m2 pgd i \<noteq> 0" for i j
    proof -
      have "table_frame ?m pgd i \<noteq> 0 \<longrightarrow> table_frame ?m pgd i \<noteq> ADDR_TO_PHYS tb" if "i < 768" for i
        using tbl(1)[OF that] ntb by fastforce
      then show ?thesis
        using frames[OF that(1)] frames[OF that(2)] that ok ph(2) unfolding tables_ok_def by (metis (no_types, lifting))
    qed
    ultimately show ?thesis using up[OF bp] unfolding tables_ok_def by blast
  qed
  moreover have "heap_inv m2 ?h1 fls1"
  proof -
    have "unat tb + 4096 \<le> 4294967296" using ptb by linarith
    then have "heap_inv (memset ?m1 tb 0 PAGE_SIZE) ?h1 fls1"
      unfolding PAGE_SIZE_def by (rule memset_page_inv[OF hi1 btb])
    then show ?thesis unfolding m2 using pv by (intro slot_write_inv[OF _ up[OF bp] pgd4]) simp_all
  qed
  ultimately show "\<exists>fls'. pgd_inv (st1\<lparr>pg_mem := m2\<rparr>) fls' pgd" using sh1 by (auto simp: pgd_inv_def)
  show "get_page m2 pgd v \<noteq> NULL"
    using frames[OF pv] ph(2) slot_unat[of tb "unat (pte_index v)"] ptb pte_index_bound[of v] tb
    by (auto simp: get_page_eq Let_def) 
  show "page_entry m2 pgd w = page_entry ?m pgd w" if w: "unat w < 3221225472"
  proof -
    let ?pw = "unat (pde_index w)" and ?tw = "unat (pte_index w)"
    have pw: "?pw < 768" using w by (rule pde_index_user)
    show ?thesis
    proof (cases "?pw = ?pv")
      case False
      have "load32 m2 (ADDR_TO_VIRT (table_frame ?m pgd ?pw) + 4 * of_nat ?tw) =
          load32 ?m (ADDR_TO_VIRT (table_frame ?m pgd ?pw) + 4 * of_nat ?tw)" if tf: "table_frame ?m pgd ?pw \<noteq> 0"
      proof -
        have "load32 m2 (ADDR_TO_VIRT (table_frame ?m pgd ?pw) + 4 * of_nat ?tw) =
            load32 (memset ?m1 tb 0 PAGE_SIZE) (ADDR_TO_VIRT (table_frame ?m pgd ?pw) + 4 * of_nat ?tw)"
          unfolding m2 using tbl[OF pw tf] page_block_apart[OF hi bp tbl(1)[OF pw tf]] pv pte_index_bound[of w]
          by (intro slot_other) auto
        then show ?thesis using old[OF tbl(1)[OF pw tf] pte_index_bound] by simp
      qed
      then show ?thesis using frames[OF pw] False by (intro page_entry_cong) auto
    next
      case True
      have "page_entry ?m pgd w = 0" using none True by (simp add: page_entry_def get_page_eq)
      moreover have "load32 m2 (tb + 4 * of_nat ?tw) = 0"
      proof -
        have "load32 m2 (tb + 4 * of_nat ?tw) = load32 (memset ?m1 tb 0 PAGE_SIZE) (tb + 4 * of_nat ?tw)"
          unfolding m2 using page_block_apart[OF hi1 up[OF bp] btb] ntb[OF bp] pv pte_index_bound[of w]
          by (intro slot_other) auto
        also have "\<dots> = 0"
          using pte_index_bound[of w] slot_unat[of 0 ?tw]
          by (intro load32_memset_zero) (simp_all add: PAGE_SIZE_def)
        finally show ?thesis .
      qed
      ultimately show ?thesis using frames[OF pw] True ph(2) by (auto simp: page_entry_def get_page_eq Let_def)
    qed
  qed
qed

section \<open>Refinement of the mapping operations\<close>

lemma entry_write_inv:
  assumes inv: "pgd_inv st fls pgd" and v: "unat v < 3221225472" and g: "get_page (pg_mem st) pgd v \<noteq> NULL"
  shows "pgd_inv (st\<lparr>pg_mem := store32 (pg_mem st) (get_page (pg_mem st) pgd v) e\<rparr>) fls pgd"
proof -
  let ?m = "pg_mem st" and ?h = "pg_heap st" and ?L = "live_objects (pg_heap st) fls" and ?pv = "unat (pde_index v)"
  have hi: "heap_inv ?m ?h fls" and sh: "heap_shaped ?h" and ok: "tables_ok ?m ?L pgd"
    using inv by (auto simp: pgd_inv_def)
  have tf: "table_frame ?m pgd ?pv \<noteq> 0" and gp: "get_page ?m pgd v = ADDR_TO_VIRT (table_frame ?m pgd ?pv) + 4 * of_nat (unat (pte_index v))"
    using g by (auto simp: get_page_eq Let_def split: if_splits)
  have bt: "page_block ?L (ADDR_TO_VIRT (table_frame ?m pgd ?pv))"
    using ok tf pde_index_user[OF v] by (simp add: tables_ok_def)
  have "unat (ADDR_TO_VIRT (table_frame ?m pgd ?pv)) + 4096 \<le> 4294967296" using page_block_facts[OF hi sh bt] by linarith
  then have "heap_inv (store32 ?m (get_page ?m pgd v) e) ?h fls"
    unfolding gp by (rule slot_write_inv[OF hi bt _ pte_index_bound])
  moreover have "tables_ok (store32 ?m (get_page ?m pgd v) e) ?L pgd"
    using entry_store(1)[OF hi sh ok v g] ok tables_ok_frames by blast
  ultimately show ?thesis using sh by (simp add: pgd_inv_def)
qed

definition out_of_tables :: "pgstate \<Rightarrow> ptr \<Rightarrow> u32 \<Rightarrow> bool" where
  "out_of_tables st pgd v \<longleftrightarrow> get_page (pg_mem st) pgd v = NULL \<and>
     (pde_index v = 0 \<or> (\<exists>st'. st_kmalloc st PAGE_SIZE = Some (st', NULL)))"

lemma get_page_null:
  assumes "pgd_inv st fls pgd" and "unat v < 3221225472"
  shows "get_page (pg_mem st) pgd v = NULL \<longleftrightarrow> table_frame (pg_mem st) pgd (unat (pde_index v)) = 0"
proof
  assume n: "get_page (pg_mem st) pgd v = NULL"
  show "table_frame (pg_mem st) pgd (unat (pde_index v)) = 0"
  proof (rule ccontr)
    let ?t = "ADDR_TO_VIRT (table_frame (pg_mem st) pgd (unat (pde_index v)))"
    assume tf: "table_frame (pg_mem st) pgd (unat (pde_index v)) \<noteq> 0"
    then have "page_block (live_objects (pg_heap st) fls) ?t"
      using assms pde_index_user[OF assms(2)] by (simp add: pgd_inv_def tables_ok_def)
    then have b: "3225419776 \<le> unat ?t" "unat ?t + 4096 \<le> 4294967296"
      using page_block_facts[of "pg_mem st" "pg_heap st" fls ?t] assms(1) by (auto simp: pgd_inv_def)
    then have "unat (?t + 4 * of_nat (unat (pte_index v))) \<noteq> 0" "?t \<noteq> 0"
      using slot_unat[OF b(2) pte_index_bound[of v]] by auto
    then show False using n tf by (auto simp: get_page_eq Let_def split: if_splits)
  qed
qed (simp add: get_page_eq)

lemma st_kmalloc_defined:
  assumes "pgd_inv st fls pgd"
  shows "\<exists>st' p. st_kmalloc st PAGE_SIZE = Some (st', p)"
proof -
  have "heap_inv (pg_mem st) (pg_heap st) fls" using assms by (simp add: pgd_inv_def)
  then show ?thesis
    by (rule kmalloc_cases[of _ _ _ 4096]) (auto simp: st_kmalloc_def PAGE_SIZE_def)
qed

lemma map_page_existing:
  assumes inv: "pgd_inv st fls pgd" and v: "unat v < 3221225472" and g: "get_page (pg_mem st) pgd v \<noteq> NULL"
  shows "map_page st pgd v phys user =
    Some (st\<lparr>pg_mem := store32 (pg_mem st) (get_page (pg_mem st) pgd v) (make_pte phys 1 user)\<rparr>)"
  using get_page_null[OF inv v] g by (simp add: map_page_def table_frame_def)

lemma map_page_refines:
  assumes inv: "pgd_inv st fls pgd" and v: "unat v < 3221225472"
  shows "case map_page st pgd v phys user of
      None \<Rightarrow> out_of_tables st pgd v
    | Some st' \<Rightarrow> (\<exists>fls'. pgd_inv st' fls' pgd) \<and> pg_pmm st' = pg_pmm st \<and>
        (\<forall>w. unat w < 3221225472 \<longrightarrow> page_entry (pg_mem st') pgd w =
           (if same_page v w then make_pte phys 1 user else page_entry (pg_mem st) pgd w))"
proof (cases "get_page (pg_mem st) pgd v = NULL")
  case False
  have hi: "heap_inv (pg_mem st) (pg_heap st) fls" "heap_shaped (pg_heap st)"
      "tables_ok (pg_mem st) (live_objects (pg_heap st) fls) pgd" using inv by (auto simp: pgd_inv_def)
  show ?thesis using map_page_existing[OF inv v False, of phys user] entry_store(2)[OF hi v False] entry_write_inv[OF inv v False] by auto
next
  case True
  then have none: "table_frame (pg_mem st) pgd (unat (pde_index v)) = 0" using get_page_null[OF inv v] by simp
  then have tf: "PDE_EXTRACT_ADDR (load32 (pg_mem st) (pgd + 4 * pde_index v)) = 0" by (simp add: table_frame_def)
  obtain st1 tb where k: "st_kmalloc st PAGE_SIZE = Some (st1, tb)" using st_kmalloc_defined[OF inv] by blast
  show ?thesis
  proof (cases "pde_index v = 0 \<or> tb = NULL")
    case True
    then have "map_page st pgd v phys user = None"
      using tf k \<open>get_page (pg_mem st) pgd v = NULL\<close> by (auto simp: map_page_def Let_def)
    then show ?thesis using True k \<open>get_page (pg_mem st) pgd v = NULL\<close> by (auto simp: out_of_tables_def)
  next
    case False
    let ?m2 = "store32 (memset (pg_mem st1) tb 0 PAGE_SIZE) (pgd + 4 * pde_index v) (make_pde (ADDR_TO_PHYS tb) 1 user)"
    have tb: "tb \<noteq> NULL" using False by simp
    note nt = new_table[OF inv v none k tb, where user = user]
    obtain fls2 where inv2: "pgd_inv (st1\<lparr>pg_mem := ?m2\<rparr>) fls2 pgd" using nt(1) by blast
    have g2: "get_page (pg_mem (st1\<lparr>pg_mem := ?m2\<rparr>)) pgd v \<noteq> NULL" using nt(2) by simp
    have hi: "heap_inv ?m2 (pg_heap st1) fls2" "heap_shaped (pg_heap st1)"
        "tables_ok ?m2 (live_objects (pg_heap st1) fls2) pgd" using inv2 by (auto simp: pgd_inv_def)
    have "map_page st pgd v phys user =
        Some (st1\<lparr>pg_mem := store32 ?m2 (get_page ?m2 pgd v) (make_pte phys 1 user)\<rparr>)"
      using tf k False nt(2) by (simp add: map_page_def Let_def)
    moreover have "pg_pmm st1 = pg_pmm st" using k by (auto simp: st_kmalloc_def bind_eq_Some_conv)
    ultimately show ?thesis
      using entry_store(2)[OF hi v nt(2)] entry_write_inv[OF inv2 v g2] nt(3) by auto
  qed
qed

lemma unmap_page_refines:
  assumes inv: "pgd_inv st fls pgd" and v: "unat v < 3221225472"
  shows "pgd_inv (st\<lparr>pg_mem := unmap_page (pg_mem st) pgd v\<rparr>) fls pgd"
    and "unat w < 3221225472 \<Longrightarrow> page_entry (unmap_page (pg_mem st) pgd v) pgd w =
      (if same_page v w then 0 else page_entry (pg_mem st) pgd w)"
proof -
  have hi: "heap_inv (pg_mem st) (pg_heap st) fls" "heap_shaped (pg_heap st)"
      "tables_ok (pg_mem st) (live_objects (pg_heap st) fls) pgd" using inv by (auto simp: pgd_inv_def)
  show "pgd_inv (st\<lparr>pg_mem := unmap_page (pg_mem st) pgd v\<rparr>) fls pgd"
    using inv entry_write_inv[OF inv v] by (simp add: unmap_page_def)
  show "page_entry (unmap_page (pg_mem st) pgd v) pgd w = (if same_page v w then 0 else page_entry (pg_mem st) pgd w)"
    if w: "unat w < 3221225472"
  proof (cases "get_page (pg_mem st) pgd v = NULL")
    case True
    have "page_entry (pg_mem st) pgd w = 0" if "same_page v w"
      using True get_page_null[OF inv v] that by (simp add: page_entry_def get_page_eq same_page_index)
    then show ?thesis using True by (simp add: unmap_page_def)
  next
    case False
    then show ?thesis using entry_store(2)[OF hi v False w, of 0] by (simp add: unmap_page_def)
  qed
qed

text \<open>The abstract effect of mapping \<open>n\<close> pages from page-aligned \<open>v\<close> on.\<close>

definition page_offset :: "u32 \<Rightarrow> u32 \<Rightarrow> nat" where
  "page_offset v w = unat w div 4096 - unat v div 4096"

definition in_pages :: "u32 \<Rightarrow> nat \<Rightarrow> u32 \<Rightarrow> bool" where
  "in_pages v n w \<longleftrightarrow> unat v div 4096 \<le> unat w div 4096 \<and> unat w div 4096 < unat v div 4096 + n"

definition map_range :: "(u32 \<Rightarrow> u32) \<Rightarrow> u32 \<Rightarrow> nat \<Rightarrow> u32 \<Rightarrow> cbool \<Rightarrow> cbool \<Rightarrow> u32 \<Rightarrow> u32" where
  "map_range e v n p user overwrite w =
     (if in_pages v n w \<and> (overwrite \<noteq> 0 \<or> e w = 0)
      then make_pte (p + of_nat (page_offset v w) * PAGE_SIZE) 1 user else e w)"

lemma same_page_nat: "same_page v w \<longleftrightarrow> unat v div 4096 = unat w div 4096"
  by (simp add: same_page_def PAGE_SIZE_def word_unat_eq_iff unat_div)

lemma page_step:
  fixes v :: u32
  assumes "unat v + Suc n * 4096 \<le> 3221225472"
  shows "unat (v + 4096) = unat v + 4096"
  using assms by (simp add: unat_word_ariths)

lemma make_pte_nonzero: "make_pte p w u \<noteq> 0"
proof
  assume "make_pte p w u = 0"
  then have "\<not> bit (make_pte p w u) 0" by simp
  then show False
    unfolding make_pte_def bit_or_iff bit_push_bit_iff bit_and_iff bit_1_iff by simp
qed

lemma map_addr_loop_refines:
  assumes "pgd_inv st fls pgd" and "unat (vaddr + i * PAGE_SIZE) + n * 4096 \<le> 3221225472"
    and "map_addr_loop n i st pgd vaddr pstart user overwrite = Some st'"
  shows "(\<exists>fls'. pgd_inv st' fls' pgd) \<and> pg_pmm st' = pg_pmm st \<and>
    (\<forall>w. unat w < 3221225472 \<longrightarrow> page_entry (pg_mem st') pgd w =
       map_range (page_entry (pg_mem st) pgd) (vaddr + i * PAGE_SIZE) n (pstart + i * PAGE_SIZE) user overwrite w)"
  using assms
proof (induction n arbitrary: i st fls)
  case 0
  then show ?case by (auto simp: map_range_def in_pages_def)
next
  case (Suc n)
  let ?v = "vaddr + i * PAGE_SIZE" and ?p = "pstart + i * PAGE_SIZE"
  have v: "unat ?v < 3221225472" using Suc.prems(2) by simp
  have nxt: "vaddr + (i + 1) * PAGE_SIZE = ?v + 4096" "pstart + (i + 1) * PAGE_SIZE = ?p + 4096"
    by (simp_all add: PAGE_SIZE_def algebra_simps)
  have step: "unat (?v + 4096) = unat ?v + 4096" using page_step[OF Suc.prems(2)] .
  have bound: "unat (vaddr + (i + 1) * PAGE_SIZE) + n * 4096 \<le> 3221225472"
    unfolding nxt step using Suc.prems(2) by simp
  have page: "unat (?v + 4096) div 4096 = Suc (unat ?v div 4096)" unfolding step by simp
  have split: "map_range e ?v (Suc n) ?p user overwrite w =
      (if same_page ?v w \<and> (overwrite \<noteq> 0 \<or> e w = 0) then make_pte ?p 1 user
       else map_range e (?v + 4096) n (?p + 4096) user overwrite w)" for e w
  proof (cases "same_page ?v w")
    case True
    then have "page_offset ?v w = 0" "in_pages ?v (Suc n) w" "\<not> in_pages (?v + 4096) n w"
      unfolding same_page_nat in_pages_def page_offset_def page by auto
    then show ?thesis using True by (simp add: map_range_def)
  next
    case False
    then have ip: "in_pages ?v (Suc n) w \<longleftrightarrow> in_pages (?v + 4096) n w"
      unfolding same_page_nat in_pages_def page by auto
    have "of_nat (page_offset ?v w) * PAGE_SIZE = 4096 + of_nat (page_offset (?v + 4096) w) * PAGE_SIZE"
      if "in_pages (?v + 4096) n w"
    proof -
      have "page_offset ?v w = Suc (page_offset (?v + 4096) w)"
        using that unfolding in_pages_def page_offset_def page by linarith
      then show ?thesis by (simp add: PAGE_SIZE_def algebra_simps)
    qed
    then show ?thesis using False ip by (auto simp: map_range_def add.assoc)
  qed
  let ?skip = "get_page (pg_mem st) pgd ?v \<noteq> NULL \<and> load32 (pg_mem st) (get_page (pg_mem st) pgd ?v) \<noteq> 0 \<and> overwrite = 0"
  have skip: "?skip \<longleftrightarrow> page_entry (pg_mem st) pgd ?v \<noteq> 0 \<and> overwrite = 0" by (simp add: page_entry_def)
  have samee: "page_entry (pg_mem st) pgd w = page_entry (pg_mem st) pgd ?v" if "same_page ?v w" for w
    using that by (simp only: page_entry_def get_page_eq same_page_index)
  show ?case
  proof (cases ?skip)
    case True
    then have "map_addr_loop n (i + 1) st pgd vaddr pstart user overwrite = Some st'" using Suc.prems(3) by (simp add: Let_def)
    from Suc.IH[OF Suc.prems(1) bound this] show ?thesis
      unfolding nxt split using True[unfolded skip] samee by auto
  next
    case False
    then obtain st1 where mp: "map_page st pgd ?v ?p user = Some st1"
        "map_addr_loop n (i + 1) st1 pgd vaddr pstart user overwrite = Some st'"
      using Suc.prems(3) by (auto simp: Let_def bind_eq_Some_conv split: if_splits)
    obtain fls1 where inv1: "pgd_inv st1 fls1 pgd" and pm: "pg_pmm st1 = pg_pmm st"
      and e1: "\<And>w. unat w < 3221225472 \<Longrightarrow> page_entry (pg_mem st1) pgd w =
           (if same_page ?v w then make_pte ?p 1 user else page_entry (pg_mem st) pgd w)"
      using map_page_refines[OF Suc.prems(1) v, of ?p user] mp(1) by auto
    have outside: "same_page ?v w \<Longrightarrow> \<not> in_pages (?v + 4096) n w" for w
      unfolding same_page_nat in_pages_def page by auto
    from Suc.IH[OF inv1 bound mp(2)] show ?thesis
      unfolding nxt split using False[unfolded skip] samee pm
      by (auto simp: e1 map_range_def make_pte_nonzero outside)
  qed
qed

lemma PG_RND_UP_nat:
  assumes "unat n \<le> 3221225472"
  shows "unat (PG_RND_UP n) = (unat n + 4095) div 4096 * 4096"
proof -
  have "unat (n + 4096 - 1) = unat n + 4095"
  proof -
    have "n + 4096 - 1 = n + 4095" by simp
    then show ?thesis using assms by (simp add: unat_word_ariths)
  qed
  then show ?thesis using assms unfolding PG_RND_UP_def ROUND_UP_def PAGE_SIZE_def
    by (simp add: unat_word_ariths unat_div)
qed

lemma PG_RND_DOWN_page: "unat (PG_RND_DOWN w) = unat w div 4096 * 4096"
proof -
  have "w mod 4096 \<le> w" by (simp add: word_le_nat_alt unat_mod)
  then have "unat (w - w mod 4096) = unat w - unat w mod 4096" by (subst unat_sub) (simp_all add: unat_mod)
  also have "\<dots> = unat w div 4096 * 4096" by (rule minus_mod_eq_div_mult)
  finally show ?thesis unfolding PG_RND_DOWN_def ROUND_DOWN_def PAGE_SIZE_def .
qed

lemma PG_RND_DOWN_aligned: "4096 dvd unat v \<Longrightarrow> PG_RND_DOWN v = v"
proof -
  assume "4096 dvd unat v"
  then have "unat (v mod 4096) = 0" by (simp add: unat_mod)
  then have "v mod 4096 = 0" by (simp only: unsigned_eq_0_iff)
  then show ?thesis by (simp add: PG_RND_DOWN_def ROUND_DOWN_def PAGE_SIZE_def)
qed

lemma get_phys_of_entry:
  assumes "page_entry m pgd w \<noteq> 0"
  shows "get_phys_addr m True pgd w = PTE_EXTRACT_ADDR (page_entry m pgd w) + PG_OFFSET w"
  using assms by (auto simp: page_entry_def get_phys_addr_def Let_def split: if_splits)

lemma page_decompose:
  fixes v w :: u32
  assumes "4096 dvd unat v" and "in_pages v n w"
  shows "w = v + of_nat (page_offset v w) * PAGE_SIZE + PG_OFFSET w"
proof -
  have "unat w = unat v + page_offset v w * 4096 + unat w mod 4096"
    using assms unfolding in_pages_def page_offset_def
    by (metis (no_types, lifting) add.commute div_mult_mod_eq dvd_div_mult_self le_add_diff_inverse add_mult_distrib)
  then have "w = of_nat (unat v + page_offset v w * 4096 + unat w mod 4096)" by (metis word_unat_eq_iff word_nat_cases of_nat_unat ucast_id)
  also have "\<dots> = v + of_nat (page_offset v w) * PAGE_SIZE + PG_OFFSET w"
  proof -
    have "(of_nat (unat w mod 4096) :: u32) = w mod 4096" by (simp add: word_unat_eq_iff unat_mod of_nat_unat_u32)
    then show ?thesis by (simp add: PG_OFFSET_def PAGE_SIZE_def)
  qed
  finally show ?thesis .
qed

lemma map_addr_fixed_phys:
  assumes inv: "pgd_inv st fls pgd" and v: "4096 dvd unat v" "unat v + unat n * 4096 \<le> 3221225472"
    and p: "4096 dvd unat p" "unat p + unat n * 4096 \<le> 4294967296"
    and ma: "map_addr_fixed st pgd v p n user overwrite = Some st'" and ow: "overwrite \<noteq> 0"
  shows "in_pages v (unat n) w \<Longrightarrow> get_phys_addr (pg_mem st') True pgd w = p + (w - v) \<and> page_entry (pg_mem st') pgd w \<noteq> 0"
    and "\<not> in_pages v (unat n) w \<Longrightarrow> unat w < 3221225472 \<Longrightarrow> page_entry (pg_mem st') pgd w = page_entry (pg_mem st) pgd w"
    and "(\<exists>fls'. pgd_inv st' fls' pgd) \<and> pg_pmm st' = pg_pmm st"
proof -
  have loop: "map_addr_loop (unat n) 0 st pgd v p user overwrite = Some st'"
    using ma by (simp add: map_addr_fixed_def PG_RND_DOWN_aligned[OF v(1)])
  have ref: "(\<exists>fls'. pgd_inv st' fls' pgd) \<and> pg_pmm st' = pg_pmm st"
      "\<And>w. unat w < 3221225472 \<Longrightarrow> page_entry (pg_mem st') pgd w = map_range (page_entry (pg_mem st) pgd) v (unat n) p user overwrite w"
    using map_addr_loop_refines[OF inv _ loop] v(2) by auto
  then show "(\<exists>fls'. pgd_inv st' fls' pgd) \<and> pg_pmm st' = pg_pmm st" by blast
  show "page_entry (pg_mem st') pgd w = page_entry (pg_mem st) pgd w" if "\<not> in_pages v (unat n) w" "unat w < 3221225472"
    using ref(2)[OF that(2)] that(1) by (simp add: map_range_def)
  show "get_phys_addr (pg_mem st') True pgd w = p + (w - v) \<and> page_entry (pg_mem st') pgd w \<noteq> 0"
    if ip: "in_pages v (unat n) w"
  proof -
    let ?k = "page_offset v w"
    obtain q where q: "unat v = 4096 * q" using v(1) by blast
    have k: "?k < unat n" using ip by (auto simp: in_pages_def page_offset_def)
    have "unat w div 4096 < q + unat n" using ip q by (simp add: in_pages_def)
    then have "unat w < (q + unat n) * 4096" by (simp add: div_less_iff_less_mult)
    also have "\<dots> = unat v + unat n * 4096" by (simp add: q algebra_simps)
    finally have w: "unat w < 3221225472" using v(2) by linarith
    have e: "page_entry (pg_mem st') pgd w = make_pte (p + of_nat ?k * PAGE_SIZE) 1 user"
      using ref(2)[OF w] ip ow by (simp add: map_range_def)
    have "unat p + ?k * 4096 < 4294967296" using k p(2) by (meson add_less_cancel_left less_le_trans mult_less_mono1 zero_less_numeral)
    moreover have "p + of_nat ?k * PAGE_SIZE = p + of_nat (?k * 4096)" by (simp add: PAGE_SIZE_def)
    ultimately have "unat (p + of_nat ?k * PAGE_SIZE) = unat p + ?k * 4096"
      by (simp add: unat_word_ariths of_nat_unat_u32 del: of_nat_mult)
    then have "4096 dvd unat (p + of_nat ?k * PAGE_SIZE)" using p(1) by simp
    then have "PTE_EXTRACT_ADDR (page_entry (pg_mem st') pgd w) = p + of_nat ?k * PAGE_SIZE"
      unfolding e by (rule extract_make_pte_aligned)
    moreover have nz: "page_entry (pg_mem st') pgd w \<noteq> 0" unfolding e by (rule make_pte_nonzero)
    ultimately have "get_phys_addr (pg_mem st') True pgd w = p + of_nat ?k * PAGE_SIZE + PG_OFFSET w"
      by (simp add: get_phys_of_entry)
    moreover have "w - v = of_nat ?k * PAGE_SIZE + PG_OFFSET w"
      using page_decompose[OF v(1) ip] by (metis add.assoc add_diff_cancel_left')
    ultimately show ?thesis using nz by (simp add: add.assoc)
  qed
qed

lemma map_addr_fresh:
  assumes "pgd_inv st fls pgd" and "pmm_wf (pg_pmm st)" and "n \<noteq> 0"
    and "free_run (frame_used (pg_pmm st)) (frame_count (pg_pmm st)) (unat n) q"
    and "4096 dvd unat v" and "unat v + unat n * 4096 \<le> 3221225472" and "overwrite \<noteq> 0"
    and "map_addr st pgd v n user overwrite = Some (st', phys)"
  shows "\<exists>f. phys = push_bit 12 (of_nat f) \<and>
    free_run (frame_used (pg_pmm st)) (frame_count (pg_pmm st)) (unat n) f \<and>
    (\<forall>j. f \<le> j \<and> j < f + unat n \<longrightarrow> frame_used (pg_pmm st') j) \<and>
    (\<forall>w. in_pages v (unat n) w \<longrightarrow> get_phys_addr (pg_mem st') True pgd w = phys + (w - v) \<and> page_entry (pg_mem st') pgd w \<noteq> 0) \<and>
    (\<forall>w. unat w < 3221225472 \<and> \<not> in_pages v (unat n) w \<longrightarrow>
       page_entry (pg_mem st') pgd w = page_entry (pg_mem st) pgd w) \<and>
    (\<exists>fls'. pgd_inv st' fls' pgd) \<and> pmm_wf (pg_pmm st') \<and> (\<forall>j. frame_used (pg_pmm st) j \<longrightarrow> frame_used (pg_pmm st') j)"
proof -
  obtain a p' where al: "pmm_alloc (pg_pmm st) n = (a, p')" by fastforce
  obtain f where f: "a = push_bit 12 (of_nat f)" "free_run (frame_used (pg_pmm st)) (frame_count (pg_pmm st)) (unat n) f"
      "\<forall>j. frame_used p' j \<longleftrightarrow> frame_used (pg_pmm st) j \<or> f \<le> j \<and> j < f + unat n" "pmm_wf p'"
    using pm.alloc_ok[OF assms(2,3,4) al] by blast
  let ?st = "st\<lparr>pg_pmm := p'\<rparr>"
  have ma: "map_addr_fixed ?st pgd v a n user overwrite = Some st'" "phys = a"
    using assms(8) al PG_RND_DOWN_aligned[OF assms(5)] by (auto simp: map_addr_def bind_eq_Some_conv)
  have inv: "pgd_inv ?st fls pgd" using assms(1) by (simp add: pgd_inv_def)
  have fl: "f + unat n \<le> 1048576" using f(2) assms(2) by (simp add: free_run_def pmm_wf_def frame_count_def)
  have "0 < unat n" using assms(3) by (simp add: unat_gt_0)
  then have "f < 1048576" using fl by linarith
  then have ua: "unat a = f * 4096" unfolding f(1) by (simp add: unat_push_bit_12 of_nat_unat_u32)
  have p: "4096 dvd unat a" "unat a + unat n * 4096 \<le> 4294967296" using fl by (auto simp: ua)
  note ph = map_addr_fixed_phys[OF inv assms(5,6) p ma(1) assms(7)]
  have "pg_pmm st' = p'" using ph(3) by simp
  then show ?thesis using f ph ma(2) by (intro exI[of _ f]) auto
qed

section \<open>Properties\<close>

text \<open>
  C5: \<open>map_page\<close> implements the update of the abstract page map. When it returns, the entry of the page of \<open>v\<close>
  is the new one, every other user page keeps its entry (also when a new table had to be allocated and
  cleared), and the directory invariant holds again. It fails only when the page has no table and none can
  be had: the heap is exhausted, or \<open>v\<close> lies in the first 4 MiB.
\<close>

theorem map_page_view:
  assumes "pgd_inv st fls pgd" and "unat v < 3221225472"
  shows "case map_page st pgd v phys user of
      None \<Rightarrow> out_of_tables st pgd v
    | Some st' \<Rightarrow> (\<exists>fls'. pgd_inv st' fls' pgd) \<and>
        (\<forall>w. unat w < 3221225472 \<longrightarrow> page_entry (pg_mem st') pgd w =
           (if same_page v w then make_pte phys 1 user else page_entry (pg_mem st) pgd w))"
  using map_page_refines[OF assms, of phys user] by (auto split: option.splits)

definition example_pg :: pgstate where
  "example_pg = \<lparr>pg_mem = (\<lambda>_. 0),
     pg_heap = \<lparr>kheap_bitmap = \<lparr>bits = 0xFF # 0x03 # replicate 254 0, bsize = 2048\<rparr>,
       heap_cache = [\<lparr>start = HEAP_BASE, first = NULL, object_size = 40960, inuse = 1, large = 1\<rparr>],
       imalloc_ptr = 0xC0200000\<rparr>,
     pg_pmm = example_pmm\<rparr>"

lemma example_pg_inv: "pgd_inv example_pg [[]] HEAP_BASE"
proof -
  have "bitmap_test (kheap_bitmap (pg_heap example_pg)) (of_nat (0 + k))" if "k < 10" for k :: nat
  proof -
    have "k \<in> {0, 1, 2, 3, 4, 5, 6, 7, 8, 9}" using that by auto
    then show ?thesis
      by (auto simp: example_pg_def bitmap_test_def bitmap_in_bounds_def bitmap_index_defs)
  qed
  moreover have "bitmap_wf (kheap_bitmap (pg_heap example_pg))"
    by (simp add: example_pg_def bitmap_wf_def bitmap_byte_size_def bitmap_index_defs)
  ultimately have "heap_inv (pg_mem example_pg) (pg_heap example_pg) [[]]"
    by (auto simp: heap_inv_def example_pg_def slab_ok_def slab_at_def slab_pages_def slab_count_def
        intro!: exI[of _ 0])
  moreover have "tables_ok (pg_mem example_pg) (live_objects (pg_heap example_pg) [[]]) HEAP_BASE"
    by (auto simp: tables_ok_def page_block_def table_frame_def example_pg_def load32_def extract_addr
        live_objects_def slab_objs_def slab_count_def slab_pages_def slab_obj_def intro!: exI[of _ 40960])
  moreover have "heap_shaped (pg_heap example_pg)" by (simp add: heap_shaped_def slab_shaped_def example_pg_def)
  ultimately show ?thesis by (simp add: pgd_inv_def)
qed

theorem map_page_view_witness:
  "case map_page example_pg HEAP_BASE 0x08000000 0x5000 1 of
      None \<Rightarrow> out_of_tables example_pg HEAP_BASE 0x08000000
    | Some st' \<Rightarrow> (\<exists>fls'. pgd_inv st' fls' HEAP_BASE) \<and>
        (\<forall>w. unat w < 3221225472 \<longrightarrow> page_entry (pg_mem st') HEAP_BASE w =
           (if same_page 0x08000000 w then make_pte 0x5000 1 1 else page_entry (pg_mem example_pg) HEAP_BASE w))"
  by (rule map_page_view[OF example_pg_inv]) simp

definition example_table :: pgstate where
  "example_table = \<lparr>pg_mem = store32 (\<lambda>_. 0) (HEAP_BASE + 4 * of_nat 32) 0x0040500F,
     pg_heap = \<lparr>kheap_bitmap = \<lparr>bits = 0xFF # 0x03 # replicate 254 0, bsize = 2048\<rparr>,
       heap_cache = [\<lparr>start = HEAP_BASE, first = NULL, object_size = 20480, inuse = 2, large = 1\<rparr>],
       imalloc_ptr = 0xC0200000\<rparr>,
     pg_pmm = example_pmm\<rparr>"

lemma example_table_live:
  "live_objects (pg_heap example_table) [[]] = {(HEAP_BASE, 20480), (HEAP_BASE + 20480, 20480)}"
proof -
  have "{..<2 :: nat} = {0, 1}" by auto
  then show ?thesis
    by (auto simp: live_objects_def example_table_def slab_objs_def slab_count_def slab_pages_def slab_obj_def)
qed

lemma example_table_frame: "i < 768 \<Longrightarrow> table_frame (pg_mem example_table) HEAP_BASE i = (if i = 32 then 0x405000 else 0)"
proof -
  assume i: "i < 768"
  have "unat HEAP_BASE + 4096 \<le> 4294967296" by (simp add: HEAP_BASE_val)
  then have "load32 (pg_mem example_table) (HEAP_BASE + 4 * of_nat i) = (if i = 32 then 0x0040500F else load32 (\<lambda>_. 0) (HEAP_BASE + 4 * of_nat i))"
    using slot_other[of HEAP_BASE HEAP_BASE 32 i "\<lambda>_. 0" "0x0040500F"] i
    by (cases "i = 32") (simp_all only: example_table_def pgstate.simps load32_store32, simp_all)
  then show ?thesis by (simp add: table_frame_def load32_def PDE_EXTRACT_ADDR_def PAGE_SIZE_def)
qed

lemma example_table_inv: "pgd_inv example_table [[]] HEAP_BASE"
proof -
  have "slab_ok (kheap_bitmap (pg_heap example_table)) (pg_mem example_table) (heap_cache (pg_heap example_table) ! 0) []"
    using heap_inv_slab[of "pg_mem example_pg" "pg_heap example_pg" "[[]]" 0] example_pg_inv
    by (auto simp: pgd_inv_def example_table_def example_pg_def slab_ok_def slab_at_def slab_pages_def slab_count_def)
  then have "heap_inv (pg_mem example_table) (pg_heap example_table) [[]]"
    using example_pg_inv by (auto simp: pgd_inv_def heap_inv_def example_table_def example_pg_def)
  moreover have "ADDR_TO_VIRT 0x405000 = HEAP_BASE + 20480" by (simp add: ADDR_TO_VIRT_def VIRT_BASE_def HEAP_BASE_val)
  then have "tables_ok (pg_mem example_table) (live_objects (pg_heap example_table) [[]]) HEAP_BASE"
    unfolding tables_ok_def example_table_live
    by (auto simp: example_table_frame page_block_def split: if_splits)
  moreover have "heap_shaped (pg_heap example_table)" by (simp add: heap_shaped_def slab_shaped_def example_table_def)
  ultimately show ?thesis by (simp add: pgd_inv_def)
qed

lemma example_table_page: "get_page (pg_mem example_table) HEAP_BASE 0x08000000 = 0xC0405000"
  by (simp add: get_page_eq unat_pde_index unat_pte_index example_table_frame ADDR_TO_VIRT_def VIRT_BASE_def)

lemma example_table_map:
  "map_page example_table HEAP_BASE 0x08000000 p u =
     Some (example_table\<lparr>pg_mem := store32 (pg_mem example_table) 0xC0405000 (make_pte p 1 u)\<rparr>)"
  using map_page_existing[OF example_table_inv, of "0x08000000" p u] example_table_page by simp

text \<open>
  C6: \<open>map_addr\<close> end to end: when the frame allocator has a run of \<open>n\<close> free frames, the returned physical address
  starts such a run, those frames are in use afterwards, every address of the \<open>n\<close> pages translates to the
  corresponding address of the run (\<open>get_phys_addr\<close>), and all other user pages keep their entries.
\<close>

theorem map_addr_maps_fresh_frames:
  assumes "pgd_inv st fls pgd" and "pmm_wf (pg_pmm st)" and "n \<noteq> 0"
    and "free_run (frame_used (pg_pmm st)) (frame_count (pg_pmm st)) (unat n) q"
    and "4096 dvd unat v" and "unat v + unat n * 4096 \<le> 3221225472" and "overwrite \<noteq> 0"
    and "map_addr st pgd v n user overwrite = Some (st', phys)"
  shows "\<exists>f. phys = push_bit 12 (of_nat f) \<and>
    free_run (frame_used (pg_pmm st)) (frame_count (pg_pmm st)) (unat n) f \<and>
    (\<forall>j. f \<le> j \<and> j < f + unat n \<longrightarrow> frame_used (pg_pmm st') j) \<and>
    (\<forall>w. in_pages v (unat n) w \<longrightarrow> get_phys_addr (pg_mem st') True pgd w = phys + (w - v)) \<and>
    (\<forall>w. unat w < 3221225472 \<and> \<not> in_pages v (unat n) w \<longrightarrow>
       page_entry (pg_mem st') pgd w = page_entry (pg_mem st) pgd w)"
  using map_addr_fresh[OF assms] by blast

lemma example_table_map_addr:
  "map_addr example_table HEAP_BASE 0x08000000 1 1 1 =
     Some (example_table\<lparr>pg_pmm := snd (pmm_alloc example_pmm 1),
       pg_mem := store32 (pg_mem example_table) 0xC0405000 (make_pte 0x2000 1 1)\<rparr>, 0x2000)"
proof -
  define r where "r = snd (pmm_alloc example_pmm 1)"
  have "fst (pmm_alloc example_pmm 1) = 0x2000" by code_simp
  then have al: "pmm_alloc example_pmm 1 = (0x2000, r)" by (simp add: r_def prod_eq_iff)
  have "pg_pmm example_table = example_pmm" by (simp add: example_table_def)
  moreover have "map_page (example_table\<lparr>pg_pmm := q\<rparr>) HEAP_BASE 0x08000000 p u =
     Some (example_table\<lparr>pg_pmm := q, pg_mem := store32 (pg_mem example_table) 0xC0405000 (make_pte p 1 u)\<rparr>)" for p q u
    using map_page_existing[of "example_table\<lparr>pg_pmm := q\<rparr>" "[[]]" HEAP_BASE "0x08000000" p u]
      example_table_inv example_table_page by (simp add: pgd_inv_def)
  ultimately show ?thesis using al
    by (simp add: map_addr_def map_addr_fixed_def Let_def PG_RND_DOWN_def ROUND_DOWN_def PAGE_SIZE_def)
qed

theorem map_addr_maps_fresh_frames_witness:
  "\<exists>f. 0x2000 = push_bit 12 (of_nat f :: u32) \<and>
    free_run (frame_used example_pmm) (frame_count example_pmm) 1 f"
proof -
  have "free_run (frame_used (pg_pmm example_table)) (frame_count (pg_pmm example_table)) (unat (1 :: u32)) 9"
    using example_pmm_free(1) by (auto simp: free_run_def example_table_def all_less_2)
  from map_addr_maps_fresh_frames[OF example_table_inv _ _ this _ _ _ example_table_map_addr] example_pmm_wf
  show ?thesis by (auto simp: example_table_def)
qed

text \<open>
  C7: \<open>unmap_page\<close> clears the entry of exactly one page and keeps the directory invariant; mapping a page and
  unmapping it restores the abstract page map when the page was unmapped before.
\<close>

theorem unmap_page_view:
  assumes "pgd_inv st fls pgd" and "unat v < 3221225472" and "unat w < 3221225472"
    and "map_page st pgd v phys user = Some st'" and "page_entry (pg_mem st) pgd v = 0"
  shows "page_entry (unmap_page (pg_mem st') pgd v) pgd w = page_entry (pg_mem st) pgd w \<and>
    (\<exists>fls'. pgd_inv (st'\<lparr>pg_mem := unmap_page (pg_mem st') pgd v\<rparr>) fls' pgd)"
proof -
  obtain fls1 where inv1: "pgd_inv st' fls1 pgd"
    and e1: "page_entry (pg_mem st') pgd w = (if same_page v w then make_pte phys 1 user else page_entry (pg_mem st) pgd w)"
    using map_page_refines[OF assms(1,2), of phys user] assms(3,4) by auto
  have "page_entry (pg_mem st) pgd w = 0" if "same_page v w"
  proof -
    have "page_entry (pg_mem st) pgd w = page_entry (pg_mem st) pgd v"
      using that by (simp only: page_entry_def get_page_eq same_page_index)
    then show ?thesis using assms(5) by simp
  qed
  then show ?thesis using unmap_page_refines[OF inv1 assms(2)] assms(3) e1 by auto
qed

theorem unmap_page_view_witness:
  "page_entry (unmap_page (store32 (pg_mem example_table) 0xC0405000 (make_pte 0x5000 1 1)) HEAP_BASE 0x08000000)
     HEAP_BASE 0x08000123 = page_entry (pg_mem example_table) HEAP_BASE 0x08000123"
proof -
  have "load32 (pg_mem example_table) 0xC0405000 = 0"
    unfolding example_table_def pgstate.simps
    by (subst load32_store32_other) (simp_all add: regions_disjoint_def HEAP_BASE_val load32_def)
  then have "page_entry (pg_mem example_table) HEAP_BASE 0x08000000 = 0"
    by (simp add: page_entry_def example_table_page)
  from unmap_page_view[OF example_table_inv _ _ example_table_map this, of "0x08000123"] show ?thesis by simp
qed

text \<open>
  An address in the first 4 MiB whose directory entry is empty cannot be mapped: \<open>map_page\<close> skips the
  allocation of a table for directory index 0 and writes through the \<open>NULL\<close> pointer that \<open>get_page\<close> returns.
\<close>

lemma map_page_low_fault:
  assumes "unat v < 4194304" and "PDE_EXTRACT_ADDR (load32 (pg_mem st) pgd) = 0"
  shows "map_page st pgd v phys user = None"
proof -
  have "unat (pde_index v) = 0" using assms(1) by (simp add: unat_pde_index)
  then have "pde_index v = 0" by (simp only: unsigned_eq_0_iff)
  then show ?thesis using assms(2) by (simp add: map_page_def get_page_eq table_frame_def Let_def)
qed

lemma map_page_low_fault_example: "map_page example_pg HEAP_BASE 0x1000 0x5000 1 = None"
  by (rule map_page_low_fault) (simp_all add: example_pg_def load32_def extract_addr)

end
