(* ===== verification/Vmm.thy ===== *)
theory Vmm
  imports Paging
begin

text \<open>
  Virtual memory areas, \<^verbatim>\<open>mm/vmm.c\<close> and \<^verbatim>\<open>include/depthos/vmm.h\<close>: the \<open>mmap\<close> system call, the areas of a
  task and the page-fault handler that fills them on demand.

  Areas are objects of the kernel heap, named here by numbers; \<open>vm_objs\<close> is their contents. It is total like
  memory, so a read of a released area gives the stale bytes. The list of areas of a task is the sequence a
  traversal through \<open>next\<close> visits. \<open>kfree_word\<close> is what a released area holds in its first word, the field
  \<open>n_proc\<close>. The operations of mapped files and of their pages (\<open>file->ops->mmap\<close>, \<open>area->ops->load_page\<close>)
  are arguments. \<open>None\<close> is a fault, as in the theory of paging.
\<close>

section \<open>Areas and tasks\<close>

definition MAP_FIXED :: u32 where "MAP_FIXED = 0x04"
definition MAP_ANON :: u32 where "MAP_ANON = 0x08"
definition MMAP_BASE :: u32 where "MMAP_BASE = 0x40000000"
definition TASK_FILETABLE_MAX :: int where "TASK_FILETABLE_MAX = 256"
definition PTE_C_COW_SHIFT :: nat where "PTE_C_COW_SHIFT = 9"

record vm_area =
  vma_n_proc :: int
  vma_addr :: u32
  vma_size :: size_t
  vma_limit :: size_t
  vma_n_pages :: size_t
  vma_phys_addr :: u32
  vma_pgd :: ptr
  vma_flags :: u32
  vma_file :: "nat option"
  vma_file_off :: u32
  vma_ops :: "nat option"

datatype vm_fault_kind = VM_FAULT_IGNORE | VM_FAULT_CRASH | VM_FAULT_BUSERROR

record pagefault_state =
  pf_present :: bool
  pf_write :: bool
  pf_user :: bool
  pf_reserved :: bool
  pf_ifetch :: bool

definition PAGEFAULT_STATE_STRUCT :: "u32 \<Rightarrow> pagefault_state" where
  "PAGEFAULT_STATE_STRUCT err_code =
     \<lparr>pf_present = (err_code AND 1 \<noteq> 0), pf_write = (drop_bit 1 err_code AND 1 \<noteq> 0),
      pf_user = (drop_bit 2 err_code AND 1 \<noteq> 0), pf_reserved = (drop_bit 3 err_code AND 1 \<noteq> 0),
      pf_ifetch = (drop_bit 4 err_code AND 1 \<noteq> 0)\<rparr>"

record vmm =
  vm_pg :: pgstate
  vm_objs :: "nat \<Rightarrow> vm_area"
  vm_next :: nat
  vm_errno :: int
  kfree_word :: int

text \<open>The fields of \<open>struct task\<close> that this component uses; the file table is the array of 256 pointers.\<close>

record mm_task =
  t_pgd :: ptr
  mmap_bump_idx :: size_t
  t_vm_areas :: "nat list option"
  t_filetable :: "nat option list"

record sc_mmap_params =
  mp_addr :: u32
  mp_length :: size_t
  mp_prot :: u32
  mp_flags :: u32
  mp_fd :: int
  mp_offset :: u32

section \<open>Creating areas\<close>

definition vma_overlap :: "vm_area \<Rightarrow> vm_area \<Rightarrow> bool" where
  "vma_overlap a b =
     (if vma_addr a > vma_addr b then vma_addr b + vma_size b > vma_addr a
      else vma_addr a + vma_size a > vma_addr b)"

text \<open>
  The walk of \<open>vma_create\<close> over the areas of the task. \<open>list_insert_value(list, item->prev, item->next, vma)\<close>
  links the new entry between the neighbours of \<open>item\<close>, so that \<open>item\<close> leaves the sequence.
  \<open>None\<close> is the overlap.
\<close>

fun vma_insert :: "(nat \<Rightarrow> vm_area) \<Rightarrow> nat \<Rightarrow> nat list \<Rightarrow> nat list option" where
  "vma_insert objs v [] = Some [v]"
| "vma_insert objs v (item # rest) =
     (if vma_overlap (objs item) (objs v) then None
      else if vma_addr (objs item) > vma_addr (objs v) then Some (v # rest)
      else map_option ((#) item) (vma_insert objs v rest))"

definition vma_create :: "vmm \<Rightarrow> mm_task \<Rightarrow> u32 \<Rightarrow> size_t \<Rightarrow> u32 \<Rightarrow> vmm \<times> mm_task \<times> nat option" where
  "vma_create vm task addr siz flags =
     (if addr mod PAGE_SIZE \<noteq> 0 then (vm\<lparr>vm_errno := EINVAL\<rparr>, task, None)
      else
        let vma = vm_next vm;
            area = \<lparr>vma_n_proc = 1, vma_addr = addr, vma_size = siz, vma_limit = 0,
                    vma_n_pages = word_of_int (ceil_div (sint siz) (sint PAGE_SIZE)), vma_phys_addr = 0,
                    vma_pgd = t_pgd task, vma_flags = flags, vma_file = None, vma_file_off = 0, vma_ops = None\<rparr>;
            vm = vm\<lparr>vm_objs := (vm_objs vm)(vma := area), vm_next := Suc vma\<rparr>
        in case t_vm_areas task of
             None \<Rightarrow> (vm, task\<lparr>t_vm_areas := Some [vma]\<rparr>, Some vma)
           | Some l \<Rightarrow>
               (case vma_insert (vm_objs vm) vma l of
                  None \<Rightarrow> (vm\<lparr>vm_errno := ENOMEM,
                              vm_objs := (vm_objs vm)(vma := area\<lparr>vma_n_proc := kfree_word vm\<rparr>)\<rparr>, task, None)
                | Some l' \<Rightarrow> (vm, task\<lparr>t_vm_areas := Some l'\<rparr>, Some vma)))"

text \<open>
  \<open>file_mmap f = None\<close> when file \<open>f\<close> has no operations or no \<open>mmap\<close>. The index test lets \<open>fd = 256\<close> and
  negative descriptors through, which read outside the table: a fault.
\<close>

type_synonym file_mmap = "nat \<Rightarrow> (vm_area \<Rightarrow> vm_area \<times> int) option"

definition vma_map_file :: "file_mmap \<Rightarrow> vmm \<Rightarrow> mm_task \<Rightarrow> nat \<Rightarrow> int \<Rightarrow> u32 \<Rightarrow> (vmm \<times> int) option" where
  "vma_map_file fmmap vm task a fd offset =
     (if fd > TASK_FILETABLE_MAX then Some (vm\<lparr>vm_errno := EBADF\<rparr>, - 1)
      else if fd < 0 \<or> int (length (t_filetable task)) \<le> fd then None
      else case t_filetable task ! nat fd of
        None \<Rightarrow> Some (vm\<lparr>vm_errno := EBADF\<rparr>, - 1)
      | Some file \<Rightarrow>
          (case fmmap file of
             None \<Rightarrow> Some (vm\<lparr>vm_errno := ENIMPL\<rparr>, - 1)
           | Some mmap \<Rightarrow>
               let area = (vm_objs vm a)\<lparr>vma_file := Some file\<rparr>
               in if offset mod PAGE_SIZE \<noteq> 0
                  then Some (vm\<lparr>vm_objs := (vm_objs vm)(a := area), vm_errno := EINVAL\<rparr>, - 1)
                  else
                    let (area, ret) = mmap (area\<lparr>vma_file_off := offset\<rparr>)
                    in if ret \<noteq> 0 then Some (vm\<lparr>vm_objs := (vm_objs vm)(a := area), vm_errno := ret\<rparr>, - 1)
                       else
                         let lim = PG_RND_UP (vma_size area) div PAGE_SIZE;
                             area = (if vma_n_pages area > lim then area\<lparr>vma_n_pages := lim\<rparr> else area)
                         in Some (vm\<lparr>vm_objs := (vm_objs vm)(a := area)\<rparr>, 0)))"

section \<open>Disposing of areas\<close>

definition vma_deallocate :: "vmm \<Rightarrow> nat \<Rightarrow> vmm" where
  "vma_deallocate vm a = vm\<lparr>vm_objs := (vm_objs vm)(a := (vm_objs vm a)\<lparr>vma_n_proc := kfree_word vm\<rparr>)\<rparr>"

text \<open>The area is read after it was released: \<open>n_proc\<close> is then the word the allocator wrote there.\<close>

definition vma_dispose :: "vmm \<Rightarrow> mm_task \<Rightarrow> nat \<Rightarrow> (vmm \<times> mm_task) option" where
  "vma_dispose vm task a =
     (case t_vm_areas task of
        None \<Rightarrow> None
      | Some l \<Rightarrow>
          if a \<notin> set l then Some (vm, task)
          else
            let task = task\<lparr>t_vm_areas := Some (remove1 a l)\<rparr>;
                area = (vm_objs vm a)\<lparr>vma_n_proc := vma_n_proc (vm_objs vm a) - 1\<rparr>;
                vm = vm\<lparr>vm_objs := (vm_objs vm)(a := area)\<rparr>;
                vm = (if vma_n_proc area = 0 then vma_deallocate vm a else vm);
                area = vm_objs vm a
            in do {
              pg \<leftarrow> unmap_addr (vm_pg vm) (t_pgd task) (vma_addr area) (vma_size area div PAGE_SIZE)
                      (of_bool (vma_n_proc area = 0));
              Some (vm\<lparr>vm_pg := pg\<rparr>, task) })"

section \<open>Mapping\<close>

definition do_mmap ::
    "file_mmap \<Rightarrow> vmm \<Rightarrow> mm_task \<Rightarrow> u32 \<Rightarrow> size_t \<Rightarrow> u32 \<Rightarrow> int \<Rightarrow> u32 \<Rightarrow> (vmm \<times> mm_task \<times> int) option" where
  "do_mmap fmmap vm task addr len flags fd offset =
     (if len = 0 then Some (vm\<lparr>vm_errno := EINVAL\<rparr>, task, 0)
      else if unat addr + unat len \<ge> 2 ^ 32 then Some (vm\<lparr>vm_errno := EOVERFLOW\<rparr>, task, 0)
      else if addr + len > VIRT_BASE then Some (vm\<lparr>vm_errno := EEXIST\<rparr>, task, 0)
      else case vma_create vm task addr (PG_RND_UP len) flags of
        (vm, task, None) \<Rightarrow> Some (vm, task, 0)
      | (vm, task, Some area) \<Rightarrow>
          if flags AND MAP_ANON = 0 \<and> fd \<noteq> 0
          then do {
            (vm, ret) \<leftarrow> vma_map_file fmmap vm task area fd offset;
            if ret < 0 then do { (vm, task) \<leftarrow> vma_dispose vm task area; Some (vm, task, 0) }
            else Some (vm, task, 1) }
          else Some (vm, task, 1))"

text \<open>\<open>INVALID_ADDR\<close> is -1, and the result of \<open>sys_mmap\<close> is a \<open>long\<close>.\<close>

definition sys_mmap :: "file_mmap \<Rightarrow> vmm \<Rightarrow> mm_task \<Rightarrow> sc_mmap_params \<Rightarrow> (vmm \<times> mm_task \<times> int) option" where
  "sys_mmap fmmap vm task params =
     (if mp_addr params = 0 \<and> mp_flags params AND MAP_FIXED \<noteq> 0 then Some (vm, task, sint INVALID_ADDR)
      else
        let (addr, task) =
              (if mp_addr params = 0
               then (MMAP_BASE + mmap_bump_idx task * PAGE_SIZE,
                     task\<lparr>mmap_bump_idx := mmap_bump_idx task + PG_RND_UP (mp_length params) div PAGE_SIZE\<rparr>)
               else (mp_addr params, task))
        in do {
          (vm, task, ret) \<leftarrow> do_mmap fmmap vm task addr (mp_length params) (mp_flags params) (mp_fd params) (mp_offset params);
          Some (vm, task, if ret = 0 then - vm_errno vm else sint addr) })"

section \<open>Page faults\<close>

text \<open>\<open>memset\<close> on a user address, through the page tables of the active directory.\<close>

definition user_memset :: "mem \<Rightarrow> ptr \<Rightarrow> u32 \<Rightarrow> u8 \<Rightarrow> size_t \<Rightarrow> mem" where
  "user_memset m pgd v c n = for_upto (unat n) (\<lambda>k m. m(user_addr m pgd (v + of_nat k) := c)) m"

type_synonym load_page = "vmm \<Rightarrow> nat \<Rightarrow> u32 \<Rightarrow> u32 \<Rightarrow> (vmm \<times> vm_fault_kind) option"

text \<open>The areas that contain the faulting address are tried in order until one of them returns.\<close>

definition vma_fault_not_present ::
    "(nat \<Rightarrow> load_page option) \<Rightarrow> vmm \<Rightarrow> mm_task \<Rightarrow> bool \<Rightarrow> nat \<Rightarrow> u32 \<Rightarrow> (vmm \<times> vm_fault_kind) option" where
  "vma_fault_not_present ops vm task is_kernel_task a cr2 =
     (let area = vm_objs vm a;
          aligned_cr2 = PG_RND_DOWN cr2;
          user = of_bool (\<not> is_kernel_task)
      in if vma_limit area \<noteq> 0 \<and> cr2 \<ge> vma_addr area + vma_limit area then Some (vm, VM_FAULT_BUSERROR)
         else do {
           (vm, st) \<leftarrow>
             (if vma_phys_addr area \<noteq> 0
              then do {
                pg \<leftarrow> map_addr_fixed (vm_pg vm) (t_pgd task) (vma_addr area) (vma_phys_addr area) (vma_n_pages area) user 1;
                Some (vm\<lparr>vm_pg := pg\<rparr>, VM_FAULT_IGNORE) }
              else case vma_ops area \<bind> ops of
                Some load \<Rightarrow> load vm a aligned_cr2 (aligned_cr2 - vma_addr area + vma_file_off area)
              | None \<Rightarrow> do {
                  (pg, _) \<leftarrow> map_addr (vm_pg vm) (t_pgd task) (vma_addr area) (vma_n_pages area) user 1;
                  Some (vm\<lparr>vm_pg := pg\<rparr>, VM_FAULT_IGNORE) });
           if st \<noteq> VM_FAULT_IGNORE then Some (vm, st)
           else if vma_flags (vm_objs vm a) AND MAP_ANON \<noteq> 0
           then let area = vm_objs vm a;
                    m = user_memset (pg_mem (vm_pg vm)) (t_pgd task) (vma_addr area) 0 (PAGE_SIZE * vma_n_pages area)
                in Some (vm\<lparr>vm_pg := (vm_pg vm)\<lparr>pg_mem := m\<rparr>\<rparr>, VM_FAULT_IGNORE)
           else Some (vm, VM_FAULT_IGNORE) })"

fun vma_fault_walk ::
    "(nat \<Rightarrow> load_page option) \<Rightarrow> vmm \<Rightarrow> mm_task \<Rightarrow> bool \<Rightarrow> pagefault_state \<Rightarrow> u32 \<Rightarrow> nat list \<Rightarrow> (vmm \<times> vm_fault_kind) option" where
  "vma_fault_walk ops vm task is_kernel_task state cr2 [] = Some (vm, VM_FAULT_CRASH)"
| "vma_fault_walk ops vm task is_kernel_task state cr2 (a # rest) =
     (let area = vm_objs vm a
      in if cr2 \<ge> vma_addr area \<and> cr2 < vma_addr area + vma_size area
         then if \<not> pf_present state then vma_fault_not_present ops vm task is_kernel_task a cr2
              else if pf_write state
              then let pg = get_page (pg_mem (vm_pg vm)) (t_pgd task) cr2
                   in if pg = NULL then None
                      else if load32 (pg_mem (vm_pg vm)) pg AND push_bit PTE_C_COW_SHIFT 1 \<noteq> 0
                      then Some (vm, VM_FAULT_IGNORE)
                      else Some (vm, VM_FAULT_CRASH)
              else vma_fault_walk ops vm task is_kernel_task state cr2 rest
         else vma_fault_walk ops vm task is_kernel_task state cr2 rest)"

definition vma_pagefault_handler ::
    "(nat \<Rightarrow> load_page option) \<Rightarrow> vmm \<Rightarrow> mm_task \<Rightarrow> ptr \<Rightarrow> u32 \<Rightarrow> u32 \<Rightarrow> (vmm \<times> vm_fault_kind) option" where
  "vma_pagefault_handler ops vm task kernel_pgd err_code cr2 =
     (case t_vm_areas task of
        None \<Rightarrow> None
      | Some l \<Rightarrow> vma_fault_walk ops vm task (t_pgd task = kernel_pgd) (PAGEFAULT_STATE_STRUCT err_code) cr2 l)"

section \<open>The areas of a task\<close>

definition area_fits :: "vm_area \<Rightarrow> bool" where
  "area_fits a \<longleftrightarrow> 0 < unat (vma_size a) \<and> unat (vma_addr a) + unat (vma_size a) < 4294967296"

definition in_area :: "vm_area \<Rightarrow> u32 \<Rightarrow> bool" where
  "in_area a v \<longleftrightarrow> unat (vma_addr a) \<le> unat v \<and> unat v < unat (vma_addr a) + unat (vma_size a)"

definition area_before :: "vm_area \<Rightarrow> vm_area \<Rightarrow> bool" where
  "area_before a b \<longleftrightarrow> unat (vma_addr a) + unat (vma_size a) \<le> unat (vma_addr b)"

definition areas_ok :: "(nat \<Rightarrow> vm_area) \<Rightarrow> nat list \<Rightarrow> bool" where
  "areas_ok objs l \<longleftrightarrow> (\<forall>a \<in> set l. area_fits (objs a)) \<and> sorted_wrt (\<lambda>a b. area_before (objs a) (objs b)) l"

definition areas_inv :: "vmm \<Rightarrow> mm_task \<Rightarrow> bool" where
  "areas_inv vm task \<longleftrightarrow>
     (\<forall>l. t_vm_areas task = Some l \<longrightarrow> areas_ok (vm_objs vm) l \<and> (\<forall>a \<in> set l. a < vm_next vm))"

lemma area_end: "area_fits a \<Longrightarrow> unat (vma_addr a + vma_size a) = unat (vma_addr a) + unat (vma_size a)"
  by (simp add: area_fits_def unat_word_ariths)

lemma in_area_word:
  "area_fits a \<Longrightarrow> in_area a v \<longleftrightarrow> v \<ge> vma_addr a \<and> v < vma_addr a + vma_size a"
  by (simp add: in_area_def word_le_nat_alt word_less_nat_alt area_end)

lemma vma_overlap_iff:
  assumes "area_fits a" and "area_fits b"
  shows "vma_overlap a b \<longleftrightarrow> \<not> area_before a b \<and> \<not> area_before b a"
  using assms by (auto simp: vma_overlap_def word_less_nat_alt area_end area_before_def area_fits_def)

text \<open>Two areas overlap exactly when an address lies in both.\<close>

lemma overlap_common_address:
  assumes "area_fits a" and "area_fits b"
  shows "vma_overlap a b \<longleftrightarrow> (\<exists>v. in_area a v \<and> in_area b v)"
proof
  assume "vma_overlap a b"
  then have "in_area a (max (vma_addr a) (vma_addr b)) \<and> in_area b (max (vma_addr a) (vma_addr b))"
    using assms unfolding vma_overlap_iff[OF assms] by (auto simp: in_area_def area_before_def area_fits_def max_def word_le_nat_alt)
  then show "\<exists>v. in_area a v \<and> in_area b v" by blast
next
  assume "\<exists>v. in_area a v \<and> in_area b v"
  then show "vma_overlap a b" unfolding vma_overlap_iff[OF assms] by (auto simp: in_area_def area_before_def)
qed

lemma vma_insert_cases:
  assumes "areas_ok objs l" and "area_fits (objs v)"
  shows "case vma_insert objs v l of
      None \<Rightarrow> \<exists>a \<in> set l. vma_overlap (objs a) (objs v)
    | Some l' \<Rightarrow> areas_ok objs l' \<and> (\<exists>ys zs. l = ys @ zs \<and> l' = ys @ v # drop 1 zs \<and>
        (\<forall>a \<in> set ys. area_before (objs a) (objs v)) \<and> (\<forall>a \<in> set zs. area_before (objs v) (objs a)))"
  using assms(1)
proof (induction l)
  case Nil
  then show ?case using assms(2) by (auto simp: areas_ok_def)
next
  case (Cons x xs)
  have fx: "area_fits (objs x)" and ok: "areas_ok objs xs"
    and srt: "\<And>y. y \<in> set xs \<Longrightarrow> area_before (objs x) (objs y)"
    using Cons.prems by (auto simp: areas_ok_def)
  show ?case
  proof (cases "vma_overlap (objs x) (objs v)")
    case True
    then show ?thesis by simp
  next
    case no: False
    show ?thesis
    proof (cases "vma_addr (objs x) > vma_addr (objs v)")
      case True
      then have vx: "area_before (objs v) (objs x)"
        using no unfolding vma_overlap_iff[OF fx assms(2)] by (auto simp: area_before_def word_less_nat_alt)
      then have all: "\<forall>a \<in> set (x # xs). area_before (objs v) (objs a)" using srt fx by (fastforce simp: area_before_def)
      then have "areas_ok objs (v # xs)" using ok assms(2) by (simp add: areas_ok_def)
      moreover have "vma_insert objs v (x # xs) = Some (v # xs)" using no True by simp
      ultimately show ?thesis using all
        by (simp only: option.case) (intro conjI exI[of _ "[]"] exI[of _ "x # xs"], simp_all)
    next
      case False
      then have xv: "area_before (objs x) (objs v)"
        using no assms(2) unfolding vma_overlap_iff[OF fx assms(2)]
        by (auto simp: area_before_def word_less_nat_alt area_fits_def)
      show ?thesis
      proof (cases "vma_insert objs v xs")
        case None
        then show ?thesis using Cons.IH[OF ok] no False by simp
      next
        case (Some l')
        obtain ys zs where yz: "xs = ys @ zs" "l' = ys @ v # drop 1 zs" "\<forall>a \<in> set ys. area_before (objs a) (objs v)"
            "\<forall>a \<in> set zs. area_before (objs v) (objs a)" and ok': "areas_ok objs l'"
          using Cons.IH[OF ok] Some by auto
        have "\<forall>y \<in> set l'. area_before (objs x) (objs y)" using yz(1,2) srt xv by (auto dest: in_set_dropD)
        then have "areas_ok objs (x # l')" using ok' fx by (simp add: areas_ok_def)
        moreover have "x # xs = (x # ys) @ zs" "x # l' = (x # ys) @ v # drop 1 zs" using yz by simp_all
        moreover have "\<forall>a \<in> set (x # ys). area_before (objs a) (objs v)" using xv yz(3) by simp
        moreover have "vma_insert objs v (x # xs) = Some (x # l')" using Some no False by simp
        ultimately show ?thesis using yz(4) by (simp only: option.case) blast
      qed
    qed
  qed
qed

lemma areas_ok_cong: "(\<And>a. a \<in> set l \<Longrightarrow> objs' a = objs a) \<Longrightarrow> areas_ok objs' l = areas_ok objs l"
proof -
  assume eq: "\<And>a. a \<in> set l \<Longrightarrow> objs' a = objs a"
  then have "sorted_wrt (\<lambda>a b. area_before (objs' a) (objs' b)) l = sorted_wrt (\<lambda>a b. area_before (objs a) (objs b)) l"
    by (induction l) auto
  then show ?thesis using eq by (simp add: areas_ok_def)
qed

text \<open>No address lies in two areas of the list, so the walk of the fault handler stops at the right one.\<close>

lemma areas_unique:
  assumes "areas_ok objs l" and "a \<in> set l" and "b \<in> set l" and "in_area (objs a) v" and "in_area (objs b) v"
  shows "objs a = objs b \<and> a = b"
  using assms
proof (induction l)
  case (Cons x xs)
  have "\<not> in_area (objs y) v" if "in_area (objs x) v" "y \<in> set xs" for y
    using Cons.prems(1) that by (auto simp: areas_ok_def area_before_def in_area_def)
  then show ?case using Cons by (auto simp: areas_ok_def)
qed simp

lemma fault_walk_finds:
  assumes "areas_ok (vm_objs vm) l" and "a \<in> set l" and "in_area (vm_objs vm a) cr2" and "\<not> pf_present state"
  shows "vma_fault_walk ops vm task k state cr2 l = vma_fault_not_present ops vm task k a cr2"
  using assms
proof (induction l)
  case (Cons x xs)
  have fx: "area_fits (vm_objs vm x)" using Cons.prems(1) by (simp add: areas_ok_def)
  show ?case
  proof (cases "in_area (vm_objs vm x) cr2")
    case True
    then have "a = x" using areas_unique[OF Cons.prems(1,2), of x cr2] Cons.prems(3) by simp
    then show ?thesis using True Cons.prems(4) unfolding in_area_word[OF fx] by (simp add: Let_def)
  next
    case False
    then have "a \<noteq> x" using Cons.prems(3) by auto
    then show ?thesis using False Cons unfolding in_area_word[OF fx] by (auto simp: Let_def areas_ok_def)
  qed
qed simp

lemma fault_walk_misses:
  assumes "areas_ok (vm_objs vm) l" and "\<And>a. a \<in> set l \<Longrightarrow> \<not> in_area (vm_objs vm a) cr2"
  shows "vma_fault_walk ops vm task k state cr2 l = Some (vm, VM_FAULT_CRASH)"
  using assms
proof (induction l)
  case (Cons x xs)
  have fx: "area_fits (vm_objs vm x)" using Cons.prems(1) by (simp add: areas_ok_def)
  have "\<not> in_area (vm_objs vm x) cr2" using Cons.prems(2) by simp
  then show ?case using Cons unfolding in_area_word[OF fx] by (auto simp: Let_def areas_ok_def)
qed simp

section \<open>Creating areas keeps them apart\<close>

lemma areas_inv_new:
  assumes "areas_inv vm task" and "t_vm_areas task = Some l" and "v = vm_next vm"
  shows "areas_ok ((vm_objs vm)(v := a)) l"
  using assms areas_ok_cong[of l "(vm_objs vm)(v := a)" "vm_objs vm"] by (fastforce simp: areas_inv_def)

lemma vma_create_cases:
  assumes inv: "areas_inv vm task" and siz: "0 < unat siz" "unat addr + unat siz < 4294967296"
    and vc: "vma_create vm task addr siz flags = (vm', task', r)"
  shows "areas_inv vm' task' \<and> t_pgd task' = t_pgd task \<and> vm_pg vm' = vm_pg vm \<and>
    (case r of
       None \<Rightarrow> t_vm_areas task' = t_vm_areas task \<and>
         (vm_errno vm' = EINVAL \<and> addr mod PAGE_SIZE \<noteq> 0 \<or>
          vm_errno vm' = ENOMEM \<and> (\<exists>l a v. t_vm_areas task = Some l \<and> a \<in> set l \<and> in_area (vm_objs vm a) v \<and>
            unat addr \<le> unat v \<and> unat v < unat addr + unat siz))
     | Some a \<Rightarrow> addr mod PAGE_SIZE = 0 \<and> (\<exists>l. t_vm_areas task' = Some l \<and> a \<in> set l) \<and>
         vm_objs vm' a = \<lparr>vma_n_proc = 1, vma_addr = addr, vma_size = siz, vma_limit = 0,
           vma_n_pages = word_of_int (ceil_div (sint siz) (sint PAGE_SIZE)), vma_phys_addr = 0,
           vma_pgd = t_pgd task, vma_flags = flags, vma_file = None, vma_file_off = 0, vma_ops = None\<rparr>)"
proof (cases "addr mod PAGE_SIZE = 0")
  case False
  then have "vm' = vm\<lparr>vm_errno := EINVAL\<rparr>" "task' = task" "r = None" using vc by (auto simp: vma_create_def)
  then show ?thesis using inv False by (simp add: areas_inv_def)
next
  case al: True
  define v where "v = vm_next vm"
  define area where "area = \<lparr>vma_n_proc = 1, vma_addr = addr, vma_size = siz, vma_limit = 0,
           vma_n_pages = word_of_int (ceil_div (sint siz) (sint PAGE_SIZE)), vma_phys_addr = 0,
           vma_pgd = t_pgd task, vma_flags = flags, vma_file = None, vma_file_off = 0, vma_ops = None\<rparr>"
  define objs where "objs = (vm_objs vm)(v := area)"
  have fits: "area_fits (objs v)" using siz by (simp add: objs_def area_def area_fits_def)
  show ?thesis
  proof (cases "t_vm_areas task")
    case None
    then have "vm' = vm\<lparr>vm_objs := objs, vm_next := Suc v\<rparr>" "task' = task\<lparr>t_vm_areas := Some [v]\<rparr>" "r = Some v"
      using vc al by (simp_all add: vma_create_def Let_def v_def[symmetric] area_def[symmetric] objs_def)
    then show ?thesis using al fits by (simp add: areas_inv_def areas_ok_def objs_def area_def)
  next
    case l: (Some l)
    have ok: "areas_ok objs l" and bd: "\<forall>a \<in> set l. a < v"
      using areas_inv_new[OF inv l v_def, of area] inv l by (auto simp: objs_def areas_inv_def v_def)
    have old: "objs a = vm_objs vm a" if "a \<in> set l" for a using bd that by (auto simp: objs_def)
    show ?thesis
    proof (cases "vma_insert objs v l")
      case None
      then have res: "vm' = vm\<lparr>vm_next := Suc v, vm_errno := ENOMEM, vm_objs := (vm_objs vm)(v := area\<lparr>vma_n_proc := kfree_word vm\<rparr>)\<rparr>"
          "task' = task" "r = None"
        using vc al l by (simp_all add: vma_create_def Let_def v_def[symmetric] area_def[symmetric] objs_def)
      obtain a where a: "a \<in> set l" "vma_overlap (objs a) (objs v)" using vma_insert_cases[OF ok fits] None by auto
      have "area_fits (objs a)" using ok a(1) by (simp add: areas_ok_def)
      then obtain w where w: "in_area (objs a) w" "in_area (objs v) w" using a(2) fits overlap_common_address by blast
      then have "in_area (vm_objs vm a) w" "unat addr \<le> unat w" "unat w < unat addr + unat siz"
        using old[OF a(1)] by (auto simp: objs_def area_def in_area_def)
      moreover have "areas_inv vm' task'"
        using areas_inv_new[OF inv l v_def] bd l res by (auto simp: areas_inv_def)
      ultimately show ?thesis using res l a(1) by auto
    next
      case (Some l')
      then have res: "vm' = vm\<lparr>vm_objs := objs, vm_next := Suc v\<rparr>" "task' = task\<lparr>t_vm_areas := Some l'\<rparr>" "r = Some v"
        using vc al l by (simp_all add: vma_create_def Let_def v_def[symmetric] area_def[symmetric] objs_def)
      obtain ys zs where yz: "l = ys @ zs" "l' = ys @ v # drop 1 zs" and ok': "areas_ok objs l'"
        using vma_insert_cases[OF ok fits] Some by auto
      have "v \<in> set l'" "\<forall>a \<in> set l'. a < Suc v" using yz bd by (auto dest!: in_set_dropD simp: less_Suc_eq)
      then show ?thesis using res ok' al by (auto simp: areas_inv_def objs_def area_def)
    qed
  qed
qed

section \<open>Zeroing user pages\<close>

definition heap_byte :: "u32 \<Rightarrow> bool" where
  "heap_byte b \<longleftrightarrow> 3225419776 \<le> unat b \<and> unat b < 3233808384"

text \<open>The page tables are heap pages: memory outside the heap does not influence a translation.\<close>

lemma tables_heap_only:
  assumes inv: "pgd_inv st fls pgd" and v: "unat w < 3221225472"
    and eq: "\<And>b. heap_byte b \<Longrightarrow> m' b = pg_mem st b"
  shows "get_page m' pgd w = get_page (pg_mem st) pgd w"
    and "page_entry m' pgd w = page_entry (pg_mem st) pgd w"
proof -
  let ?m = "pg_mem st" and ?i = "unat (pde_index w)" and ?L = "live_objects (pg_heap st) fls"
  have hi: "heap_inv ?m (pg_heap st) fls" "heap_shaped (pg_heap st)" "tables_ok ?m ?L pgd"
    using inv by (auto simp: pgd_inv_def)
  have i: "?i < 768" by (rule pde_index_user[OF v])
  have slot: "load32 m' (q + 4 * of_nat l) = load32 ?m (q + 4 * of_nat l)" if q: "page_block ?L q" and l: "l < 1024" for q l
  proof (rule slot_load_frame[OF _ l])
    note b = page_block_facts[OF hi(1,2) q]
    show "unat q + 4096 \<le> 4294967296" using b by simp
    show "m' a = ?m a" if "unat q \<le> unat a" "unat a < unat q + 4096" for a
      using b that by (intro eq) (simp add: heap_byte_def)
  qed
  have "page_block ?L pgd" using hi(3) by (simp add: tables_ok_def)
  then have tf: "table_frame m' pgd ?i = table_frame ?m pgd ?i"
    using slot[of pgd ?i] i by (simp add: table_frame_def)
  then show g: "get_page m' pgd w = get_page ?m pgd w" by (simp only: get_page_eq)
  show "page_entry m' pgd w = page_entry ?m pgd w"
  proof (rule page_entry_cong[OF tf])
    assume "table_frame ?m pgd ?i \<noteq> 0"
    then have "page_block ?L (ADDR_TO_VIRT (table_frame ?m pgd ?i))" using hi(3) i by (simp add: tables_ok_def)
    then show "load32 m' (ADDR_TO_VIRT (table_frame ?m pgd ?i) + 4 * of_nat (unat (pte_index w))) =
        load32 ?m (ADDR_TO_VIRT (table_frame ?m pgd ?i) + 4 * of_nat (unat (pte_index w)))"
      by (rule slot) (rule pte_index_bound)
  qed
qed

lemma user_addr_entry:
  assumes "page_entry m pgd w \<noteq> 0"
  shows "user_addr m pgd w = ADDR_TO_VIRT (get_phys_addr m True pgd w)"
  using assms by (auto simp: user_addr_def get_phys_addr_def page_entry_def Let_def split: if_splits)

lemma user_memset_apply:
  assumes inv: "pgd_inv st fls pgd" and v: "unat v + unat n \<le> 3221225472"
    and mapped: "\<And>k. k < unat n \<Longrightarrow> page_entry (pg_mem st) pgd (v + of_nat k) \<noteq> 0 \<and>
      \<not> heap_byte (user_addr (pg_mem st) pgd (v + of_nat k))"
  shows "user_memset (pg_mem st) pgd v c n b =
    (if \<exists>k < unat n. b = user_addr (pg_mem st) pgd (v + of_nat k) then c else pg_mem st b)"
proof -
  let ?m = "pg_mem st" and ?u = "\<lambda>k. user_addr (pg_mem st) pgd (v + of_nat k)"
  let ?f = "\<lambda>k m. m(user_addr m pgd (v + of_nat k) := c)"
  have "k \<le> unat n \<Longrightarrow> for_upto k ?f ?m = (\<lambda>b. if \<exists>j < k. b = ?u j then c else ?m b)" for k
  proof (induction k)
    case (Suc k)
    let ?mk = "\<lambda>b. if \<exists>j < k. b = ?u j then c else ?m b"
    have hb: "?mk b = ?m b" if "heap_byte b" for b
    proof -
      have "b \<noteq> ?u j" if "j < k" for j using mapped[of j] Suc.prems that \<open>heap_byte b\<close> by auto
      then show ?thesis by auto
    qed
    have "unat (v + of_nat k) < 3221225472" using v Suc.prems by (simp add: unat_word_ariths of_nat_unat_u32)
    note t = tables_heap_only[OF inv this hb]
    have e: "page_entry ?m pgd (v + of_nat k) \<noteq> 0" using mapped Suc.prems by simp
    have "user_addr ?mk pgd (v + of_nat k) = ?u k"
    proof -
      have "load32 ?mk (get_page ?mk pgd (v + of_nat k)) = load32 ?m (get_page ?m pgd (v + of_nat k))"
        using t e by (auto simp: page_entry_def split: if_splits)
      then show ?thesis by (simp only: user_addr_def)
    qed
    moreover have "for_upto k ?f ?m = ?mk" by (rule Suc.IH) (use Suc.prems in simp)
    ultimately have "for_upto (Suc k) ?f ?m = ?mk(?u k := c)" by (simp only: for_upto_Suc)
    moreover have "?mk(?u k := c) = (\<lambda>b. if \<exists>j < Suc k. b = ?u j then c else ?m b)"
      by (rule ext) (auto simp: less_Suc_eq)
    ultimately show ?case by (rule trans)
  qed simp
  then show ?thesis by (simp add: user_memset_def)
qed

section \<open>Anonymous mappings\<close>

lemma area_pages:
  fixes siz :: size_t
  assumes "4096 dvd unat siz" and "unat siz < 2147483648"
  shows "unat (word_of_int (ceil_div (sint siz) (sint PAGE_SIZE)) :: u32) = unat siz div 4096"
proof -
  have s: "sint siz = int (unat siz)" unfolding sint_u32 using assms(2) by (rule if_P)
  have p: "sint PAGE_SIZE = 4096" by (simp add: PAGE_SIZE_def)
  obtain k where k: "unat siz = 4096 * k" using assms(1) by blast
  have "ceil_div (sint siz) (sint PAGE_SIZE) = int k"
    unfolding s p k by (cases "k = 0") (simp_all add: ceil_div_def c_mod_def c_div_def Let_def)
  then show ?thesis using assms(2) k by (simp add: of_nat_unat_u32)
qed

text \<open>The frames behind the heap, which \<open>kheap_init\<close> takes from the frame allocator with \<open>pmm_set\<close>.\<close>

definition heap_frames_used :: "pmm \<Rightarrow> bool" where
  "heap_frames_used p \<longleftrightarrow> (\<forall>j < frame_count p. 1024 \<le> j \<and> j < 3072 \<longrightarrow> frame_used p j)"

lemma frame_addr_outside_heap:
  assumes used: "heap_frames_used p"
    and run: "free_run (frame_used p) (frame_count p) n f" and wf: "pmm_wf p" and d: "d < n * 4096"
  shows "\<not> heap_byte (ADDR_TO_VIRT (push_bit 12 (of_nat f) + of_nat d))"
proof
  let ?a = "push_bit 12 (of_nat f) + of_nat d :: u32"
  assume hb: "heap_byte (ADDR_TO_VIRT ?a)"
  have fl: "f + n \<le> 1048576" using run wf by (simp add: free_run_def pmm_wf_def frame_count_def)
  moreover have "0 < n" using d by (cases n) auto
  ultimately have "f < 1048576" by linarith
  then have "unat (push_bit 12 (of_nat f) :: u32) = f * 4096" by (simp add: unat_push_bit_12 of_nat_unat_u32)
  then have ua: "unat ?a = f * 4096 + d" using fl d by (simp add: unat_word_ariths of_nat_unat_u32)
  have "unat (ADDR_TO_VIRT ?a) = (unat ?a + 3221225472) mod 4294967296"
    by (simp add: ADDR_TO_VIRT_def VIRT_BASE_def unat_word_ariths)
  then have "4194304 \<le> unat ?a \<and> unat ?a < 12582912" using hb unat_u32_bound[of ?a]
    by (auto simp: heap_byte_def mod_if split: if_splits)
  then have "1024 \<le> f + d div 4096 \<and> f + d div 4096 < 3072" unfolding ua by linarith
  moreover have "\<not> frame_used p (f + d div 4096)" "f + d div 4096 < frame_count p"
    using run less_mult_imp_div_less[OF d] by (auto simp: free_run_def)
  ultimately show False using used by (auto simp: heap_frames_used_def)
qed

lemma in_pages_add:
  assumes "4096 dvd unat v" and "unat v + n * 4096 \<le> 3221225472" and "k < n * 4096"
  shows "in_pages v n (v + of_nat k)"
proof -
  obtain c where c: "unat v = 4096 * c" using assms(1) by blast
  have "unat (v + of_nat k) = 4096 * c + k" using assms c by (simp add: unat_word_ariths of_nat_unat_u32)
  then show ?thesis using c assms(3) by (simp add: in_pages_def less_mult_imp_div_less)
qed

lemma in_pages_offset:
  assumes "4096 dvd unat v" and "unat v + n * 4096 \<le> 3221225472" and "in_pages v n w"
  shows "unat (w - v) < n * 4096 \<and> unat w < 3221225472"
proof -
  obtain c where c: "unat v = 4096 * c" using assms(1) by blast
  have d: "c \<le> unat w div 4096" "unat w div 4096 < c + n" using assms(3) c by (simp_all add: in_pages_def)
  then have "unat v \<le> unat w" "unat w < (c + n) * 4096" using c by (auto simp: div_less_iff_less_mult)
  moreover from this have "unat (w - v) = unat w - unat v" by (intro unat_sub) (simp add: word_le_nat_alt)
  ultimately show ?thesis using c assms(2) by simp
qed

lemma do_mmap_anon:
  assumes "do_mmap fm vm task addr len flags fd off = Some (vm1, task1, 1)" and "flags AND MAP_ANON \<noteq> 0"
  shows "len \<noteq> 0 \<and> unat addr + unat len \<le> 3221225472 \<and>
    (\<exists>a. vma_create vm task addr (PG_RND_UP len) flags = (vm1, task1, Some a))"
proof -
  have c: "len \<noteq> 0" "\<not> unat addr + unat len \<ge> 2 ^ 32" "\<not> addr + len > VIRT_BASE"
    using assms(1) by (auto simp: do_mmap_def split: if_splits)
  have "unat (addr + len) = unat addr + unat len" using c(2) by (simp add: unat_word_ariths)
  then have "unat addr + unat len \<le> 3221225472" using c(3) by (simp add: word_less_nat_alt VIRT_BASE_def)
  then show ?thesis using assms c by (auto simp: do_mmap_def split: prod.splits option.splits)
qed

text \<open>The effect of a fault on an anonymous area that no device or file has touched.\<close>

lemma anon_fault:
  assumes inv: "pgd_inv (vm_pg vm) fls (t_pgd task)" and wf: "pmm_wf (pg_pmm (vm_pg vm))"
    and used: "heap_frames_used (pg_pmm (vm_pg vm))"
    and area: "vma_limit (vm_objs vm a) = 0" "vma_phys_addr (vm_objs vm a) = 0" "vma_ops (vm_objs vm a) = None"
      "vma_flags (vm_objs vm a) AND MAP_ANON \<noteq> 0" "vma_addr (vm_objs vm a) = addr" "vma_n_pages (vm_objs vm a) = n"
    and n: "n \<noteq> 0" "4096 dvd unat addr" "unat addr + unat n * 4096 \<le> 3221225472"
    and run: "free_run (frame_used (pg_pmm (vm_pg vm))) (frame_count (pg_pmm (vm_pg vm))) (unat n) q"
    and h: "vma_fault_not_present ops vm task k a cr2 = Some (vm2, r)"
  shows "r = VM_FAULT_IGNORE \<and>
    (\<exists>f. free_run (frame_used (pg_pmm (vm_pg vm))) (frame_count (pg_pmm (vm_pg vm))) (unat n) f \<and>
       (\<forall>w. in_pages addr (unat n) w \<longrightarrow>
          get_phys_addr (pg_mem (vm_pg vm2)) True (t_pgd task) w = push_bit 12 (of_nat f) + (w - addr) \<and>
          pg_mem (vm_pg vm2) (ADDR_TO_VIRT (push_bit 12 (of_nat f) + (w - addr))) = 0))"
proof -
  let ?pg = "vm_pg vm" and ?pgd = "t_pgd task"
  obtain pg phys where ma: "map_addr ?pg ?pgd addr n (of_bool (\<not> k)) 1 = Some (pg, phys)"
    using h area by (auto simp: vma_fault_not_present_def Let_def bind_eq_Some_conv)
  define m where "m = user_memset (pg_mem pg) ?pgd addr 0 (PAGE_SIZE * n)"
  have r: "vm2 = vm\<lparr>vm_pg := pg\<lparr>pg_mem := m\<rparr>\<rparr>" "r = VM_FAULT_IGNORE"
    using h area ma by (auto simp: vma_fault_not_present_def Let_def m_def)
  obtain f where f: "phys = push_bit 12 (of_nat f)"
      "free_run (frame_used (pg_pmm ?pg)) (frame_count (pg_pmm ?pg)) (unat n) f"
      and tr: "\<And>w. in_pages addr (unat n) w \<Longrightarrow> get_phys_addr (pg_mem pg) True ?pgd w = phys + (w - addr) \<and> page_entry (pg_mem pg) ?pgd w \<noteq> 0"
      and "\<exists>fls'. pgd_inv pg fls' ?pgd"
    using map_addr_fresh[OF inv wf n(1) run n(2,3) _ ma] by auto
  then obtain fls' where inv': "pgd_inv pg fls' ?pgd" by blast
  have len: "unat (PAGE_SIZE * n) = unat n * 4096" using n(3) by (simp add: PAGE_SIZE_def unat_word_ariths)
  have byte: "user_addr (pg_mem pg) ?pgd w = ADDR_TO_VIRT (phys + (w - addr)) \<and> \<not> heap_byte (ADDR_TO_VIRT (phys + (w - addr)))"
    if "in_pages addr (unat n) w" for w
    using user_addr_entry tr[OF that] frame_addr_outside_heap[OF used f(2) wf, of "unat (w - addr)"]
      in_pages_offset[OF n(2,3)] that by (auto simp: f(1))
  have m: "m b = (if \<exists>k < unat n * 4096. b = user_addr (pg_mem pg) ?pgd (addr + of_nat k) then 0 else pg_mem pg b)" for b
    unfolding m_def len[symmetric]
  proof (rule user_memset_apply[OF inv'])
    show "unat addr + unat (PAGE_SIZE * n) \<le> 3221225472" using n(3) by (simp add: len)
    show "page_entry (pg_mem pg) ?pgd (addr + of_nat k) \<noteq> 0 \<and> \<not> heap_byte (user_addr (pg_mem pg) ?pgd (addr + of_nat k))"
      if "k < unat (PAGE_SIZE * n)" for k
      using tr byte in_pages_add[OF n(2,3)] that unfolding len by metis
  qed
  have hb: "m b = pg_mem pg b" if "heap_byte b" for b
  proof -
    have "b \<noteq> user_addr (pg_mem pg) ?pgd (addr + of_nat k)" if "k < unat n * 4096" for k
      using byte[OF in_pages_add[OF n(2,3) that]] \<open>heap_byte b\<close> by auto
    then show ?thesis by (auto simp: m)
  qed
  have "get_phys_addr m True ?pgd w = phys + (w - addr) \<and> m (ADDR_TO_VIRT (phys + (w - addr))) = 0"
    if ip: "in_pages addr (unat n) w" for w
  proof -
    have o: "unat (w - addr) < unat n * 4096" "unat w < 3221225472" using in_pages_offset[OF n(2,3) ip] by auto
    have "get_phys_addr m True ?pgd w = get_phys_addr (pg_mem pg) True ?pgd w"
      using tables_heap_only[OF inv' o(2) hb] tr[OF ip] by (auto simp: get_phys_addr_def page_entry_def Let_def split: if_splits)
    moreover have "m (user_addr (pg_mem pg) ?pgd (addr + of_nat (unat (w - addr)))) = 0" using o(1) unfolding m by auto
    ultimately show ?thesis using tr[OF ip] byte[OF ip] by simp
  qed
  then show ?thesis using r f by auto
qed

section \<open>Properties\<close>


definition example_area :: "u32 \<Rightarrow> size_t \<Rightarrow> vm_area" where
  "example_area a s = \<lparr>vma_n_proc = 1, vma_addr = a, vma_size = s, vma_limit = 0, vma_n_pages = s div 4096,
     vma_phys_addr = 0, vma_pgd = HEAP_BASE, vma_flags = MAP_ANON, vma_file = None, vma_file_off = 0, vma_ops = None\<rparr>"

definition example_vm :: vmm where
  "example_vm = \<lparr>vm_pg = example_table, vm_objs = (\<lambda>_. example_area 0x08000000 4096), vm_next = 1, vm_errno = 0, kfree_word = 0\<rparr>"

definition example_task :: mm_task where
  "example_task = \<lparr>t_pgd = HEAP_BASE, mmap_bump_idx = 0, t_vm_areas = Some [0], t_filetable = replicate 256 None\<rparr>"

lemma example_areas: "areas_inv example_vm example_task"
  by (simp add: areas_inv_def areas_ok_def area_fits_def example_vm_def example_task_def example_area_def)

lemma example_create:
  "vma_create example_vm example_task 0x07000000 4096 MAP_ANON =
     (example_vm\<lparr>vm_objs := (vm_objs example_vm)(1 := example_area 0x07000000 4096), vm_next := 2\<rparr>,
      example_task\<lparr>t_vm_areas := Some [1]\<rparr>, Some 1)"
  by (simp add: vma_create_def example_vm_def example_task_def example_area_def vma_overlap_def PAGE_SIZE_def Let_def
      ceil_div_def c_div_def c_mod_def)


text \<open>
  C40: An area created below an existing one takes its place in the list: the existing area is lost, and a later
  fault in it, which was handled before, crashes the task.
\<close>

theorem vma_create_drops_area:
  assumes "t_vm_areas task = Some [b]" and "b < vm_next vm" and "area_fits (vm_objs vm b)"
    and "addr mod PAGE_SIZE = 0" and "0 < unat siz" and "unat addr + unat siz \<le> unat (vma_addr (vm_objs vm b))"
    and "in_area (vm_objs vm b) cr2" and "vma_create vm task addr siz flags = (vm', task', r)"
  shows "r = Some (vm_next vm) \<and> t_vm_areas task' = Some [vm_next vm] \<and>
    vma_pagefault_handler ops vm' task' kpgd err_code cr2 = Some (vm', VM_FAULT_CRASH)"
proof -
  let ?v = "vm_next vm"
  obtain objs where o: "objs b = vm_objs vm b" "vma_addr (objs ?v) = addr" "vma_size (objs ?v) = siz"
    and vm': "vm' = vm\<lparr>vm_objs := objs, vm_next := Suc ?v\<rparr>" "task' = task\<lparr>t_vm_areas := Some [?v]\<rparr>" "r = Some ?v"
  proof -
    let ?area = "\<lparr>vma_n_proc = 1, vma_addr = addr, vma_size = siz, vma_limit = 0,
       vma_n_pages = word_of_int (ceil_div (sint siz) (sint PAGE_SIZE)), vma_phys_addr = 0,
       vma_pgd = t_pgd task, vma_flags = flags, vma_file = None, vma_file_off = 0, vma_ops = None\<rparr>"
    let ?objs = "(vm_objs vm)(?v := ?area)"
    have f: "area_fits (?objs ?v)" "area_fits (?objs b)" "area_before (?objs ?v) (?objs b)"
      using assms(2,3,5,6) unat_u32_bound[of "vma_addr (vm_objs vm b)"] by (auto simp: area_fits_def area_before_def)
    then have "vma_insert ?objs ?v [b] = Some [?v]"
      using assms(5) by (simp add: vma_overlap_iff area_before_def word_less_nat_alt)
    then show thesis using that[of ?objs] assms(1,2,4,8) by (auto simp: vma_create_def Let_def simp del: vma_insert.simps)
  qed
  have "\<not> in_area (vm_objs vm' ?v) cr2" "areas_ok (vm_objs vm') [?v]"
    using assms(3,5,6,7) o unat_u32_bound[of "vma_addr (vm_objs vm b)"] by (auto simp: vm' in_area_def areas_ok_def area_fits_def)
  then show ?thesis using fault_walk_misses[of vm' "[?v]" cr2] by (simp add: vm' vma_pagefault_handler_def)
qed

theorem vma_create_drops_area_witness:
  "vma_pagefault_handler (\<lambda>_. None)
     (example_vm\<lparr>vm_objs := (vm_objs example_vm)(1 := example_area 0x07000000 4096), vm_next := 2\<rparr>)
     (example_task\<lparr>t_vm_areas := Some [1]\<rparr>) 0 4 0x08000010 =
   Some (example_vm\<lparr>vm_objs := (vm_objs example_vm)(1 := example_area 0x07000000 4096), vm_next := 2\<rparr>, VM_FAULT_CRASH)"
  using vma_create_drops_area[OF _ _ _ _ _ _ _ example_create, of 0 "0x08000010" "\<lambda>_. None" 0 4]
  by (simp add: example_task_def example_vm_def example_area_def area_fits_def in_area_def PAGE_SIZE_def)

text \<open>
  C8: Anonymous memory end to end. After a successful anonymous \<open>do_mmap\<close>, a fault at any address of the range is
  resolved (\<open>VM_FAULT_IGNORE\<close>): every page of the area translates into one run of frames that were free, and every
  byte of the area reads as zero.
\<close>

theorem mmap_anon_fault_maps_zeroed:
  assumes "areas_inv vm task" and "flags AND MAP_ANON \<noteq> 0" and "unat len \<le> 2147479552"
    and "do_mmap fm vm task addr len flags fd off = Some (vm1, task1, 1)"
    and "pgd_inv (vm_pg vm) fls (t_pgd task)" and "pmm_wf (pg_pmm (vm_pg vm))"
    and "heap_frames_used (pg_pmm (vm_pg vm))"
    and "n = (unat len + 4095) div 4096"
    and "free_run (frame_used (pg_pmm (vm_pg vm))) (frame_count (pg_pmm (vm_pg vm))) n q"
    and "unat addr \<le> unat cr2" and "unat cr2 < unat addr + unat len" and "err_code AND 1 = 0"
    and "vma_pagefault_handler ops vm1 task1 kpgd err_code cr2 = Some (vm2, k)"
  shows "k = VM_FAULT_IGNORE \<and>
    (\<exists>f. free_run (frame_used (pg_pmm (vm_pg vm))) (frame_count (pg_pmm (vm_pg vm))) n f \<and>
       (\<forall>w. in_pages addr n w \<longrightarrow>
          get_phys_addr (pg_mem (vm_pg vm2)) True (t_pgd task) w = push_bit 12 (of_nat f) + (w - addr) \<and>
          pg_mem (vm_pg vm2) (ADDR_TO_VIRT (push_bit 12 (of_nat f) + (w - addr))) = 0))"
proof -
  let ?s = "PG_RND_UP len"
  obtain a where a: "vma_create vm task addr ?s flags = (vm1, task1, Some a)" "len \<noteq> 0" "unat addr + unat len \<le> 3221225472"
    using do_mmap_anon[OF assms(4,2)] by blast
  have s: "unat ?s = n * 4096" using PG_RND_UP_nat[of len] assms(3,8) by simp
  have ln: "unat len \<le> n * 4096" "0 < unat len" "n * 4096 \<le> unat len + 4095"
    using a(2) unfolding assms(8) by (simp_all add: unat_gt_0)
  have fits: "0 < unat ?s" "unat addr + unat ?s < 4294967296" using s ln a(3) by linarith+
  note c = vma_create_cases[OF assms(1) fits a(1), simplified]
  then obtain l where l: "t_vm_areas task1 = Some l" "a \<in> set l" and al: "addr mod PAGE_SIZE = 0"
    and ok: "areas_ok (vm_objs vm1) l" by (auto simp: areas_inv_def)
  have d: "4096 dvd unat addr"
  proof -
    have "unat (addr mod 4096) = unat (0 :: u32)" using al by (simp add: PAGE_SIZE_def)
    then show ?thesis by (simp add: unat_mod dvd_eq_mod_eq_0)
  qed
  have np: "unat (vma_n_pages (vm_objs vm1 a)) = n"
    using area_pages[of ?s] s ln(3) assms(3) c by simp
  have lim: "unat addr + n * 4096 \<le> 3221225472"
  proof -
    obtain j where j: "unat addr = 4096 * j" using d by blast
    then have "(j + n) * 4096 < 786433 * 4096" using a(3) ln(2,3) by (simp add: add_mult_distrib)
    then have "j + n < 786433" by simp
    then show ?thesis unfolding j by linarith
  qed
  have "in_area (vm_objs vm1 a) cr2" using c assms(10,11) s ln(1) by (simp add: in_area_def)
  from fault_walk_finds[OF ok l(2) this]
  have h: "vma_fault_not_present ops vm1 task1 (t_pgd task1 = kpgd) a cr2 = Some (vm2, k)"
    using assms(12,13) l(1) by (simp add: vma_pagefault_handler_def PAGEFAULT_STATE_STRUCT_def)
  have n0: "vma_n_pages (vm_objs vm1 a) \<noteq> 0" using np ln by (auto simp: unat_eq_0)
  show ?thesis
  proof -
    note af = anon_fault[of vm1 fls task1 a addr "vma_n_pages (vm_objs vm1 a)" q ops "t_pgd task1 = kpgd" cr2 vm2 k, unfolded np]
    from c have "vm_pg vm1 = vm_pg vm" "t_pgd task1 = t_pgd task" by simp_all
    with af show ?thesis using c n0 d lim h assms(2,5,6,7,9) by simp
  qed
qed

definition example_empty_task :: mm_task where
  "example_empty_task = example_task\<lparr>t_vm_areas := None\<rparr>"

definition example_mapped :: vmm where
  "example_mapped = example_vm\<lparr>vm_objs := (vm_objs example_vm)(1 := example_area 0x08000000 4096), vm_next := 2\<rparr>"

lemma example_mmap:
  "do_mmap (\<lambda>_. None) example_vm example_empty_task 0x08000000 4000 MAP_ANON 0 0 =
     Some (example_mapped, example_task\<lparr>t_vm_areas := Some [1]\<rparr>, 1)"
  by (simp add: do_mmap_def vma_create_def example_vm_def example_empty_task_def example_task_def example_area_def
      example_mapped_def PAGE_SIZE_def VIRT_BASE_def PG_RND_UP_def ROUND_UP_def Let_def ceil_div_def c_div_def c_mod_def)

theorem mmap_anon_fault_maps_zeroed_witness:
  "\<exists>vm2 f. vma_pagefault_handler (\<lambda>_. None) example_mapped (example_task\<lparr>t_vm_areas := Some [1]\<rparr>) 0 4 0x08000010 =
       Some (vm2, VM_FAULT_IGNORE) \<and>
     pg_mem (vm_pg vm2) (ADDR_TO_VIRT (push_bit 12 (of_nat f) + 0x10)) = 0"
proof -
  obtain vm2 k where h: "vma_pagefault_handler (\<lambda>_. None) example_mapped (example_task\<lparr>t_vm_areas := Some [1]\<rparr>) 0 4 0x08000010 =
       Some (vm2, k)"
    using example_table_map_addr
    by (simp add: vma_pagefault_handler_def example_mapped_def example_vm_def example_task_def example_area_def
        vma_fault_not_present_def PAGEFAULT_STATE_STRUCT_def HEAP_BASE_val MAP_ANON_def Let_def)
  have pm: "pg_pmm (vm_pg example_vm) = example_pmm" by (simp add: example_vm_def example_table_def)
  have "frame_count example_pmm \<le> 1024" by code_simp
  then have used: "heap_frames_used (pg_pmm (vm_pg example_vm))" unfolding pm by (auto simp: heap_frames_used_def)
  have run: "free_run (frame_used (pg_pmm (vm_pg example_vm))) (frame_count (pg_pmm (vm_pg example_vm))) 1 9"
    unfolding pm using example_pmm_free(1) by (auto simp: free_run_def all_less_2)
  have inv: "areas_inv example_vm example_empty_task" by (simp add: areas_inv_def example_empty_task_def)
  have pg: "pgd_inv (vm_pg example_vm) [[]] (t_pgd example_empty_task)"
    using example_table_inv by (simp add: example_vm_def example_empty_task_def example_task_def)
  have "k = VM_FAULT_IGNORE \<and> (\<exists>f. pg_mem (vm_pg vm2) (ADDR_TO_VIRT (push_bit 12 (of_nat f) + 0x10)) = 0)"
    using mmap_anon_fault_maps_zeroed[OF inv _ _ example_mmap pg _ used _ run _ _ _ h] example_pmm_wf
    by (auto simp: pm MAP_ANON_def in_pages_def dest!: spec[of _ "0x08000010"])
  then show ?thesis using h by auto
qed

end
