(* ===== verification/Task.thy ===== *)
theory Task
  imports Memory
begin

text \<open>
  Tasks, processes and the state of the kernel that the scheduler, signals and process management share:
  the structures of \<^verbatim>\<open>include/depthos/proc.h\<close>, \<^verbatim>\<open>include/depthos/signal.h\<close> and \<^verbatim>\<open>include/depthos/kernel.h\<close>.

  Objects on the kernel heap (tasks, processes, signal queues, file tables) are named by numbers, and the state
  maps names to contents. It is total like memory: a destroyed object keeps its stale contents. A task is in the
  scheduler's list at most once, so its list entry is named by the task itself. The user half of an address space
  is a byte memory per page directory.
\<close>

section \<open>Structures\<close>

record registers =
  r_fs :: u32
  r_gs :: u32
  r_es :: u32
  r_ds :: u32
  r_edi :: u32
  r_esi :: u32
  r_ebp :: u32
  r_esp :: u32
  r_ebx :: u32
  r_edx :: u32
  r_ecx :: u32
  r_eax :: u32
  r_int_num :: u32
  r_err_code :: u32
  r_trace_frame :: u32
  r_eip :: u32
  r_cs :: u32
  r_eflags :: u32
  r_useresp :: u32
  r_ss :: u32

datatype task_state = TASK_STARTING | TASK_RUNNING | TASK_SUSPENDED | TASK_SLEEPING | TASK_DYING

datatype process_state = PROCESS_STARTING | PROCESS_RUNNING | PROCESS_SUSPENDED | PROCESS_EXITED | PROCESS_DEAD

type_synonym signal_mask_t = u64

record signal =
  s_number :: int
  s_code :: u32
  s_errno :: u32
  s_pid :: u32
  s_uid :: u32
  s_fault_addr :: u32
  s_status :: u32
  s_band :: u32
  s_queue_val :: u32

record signal_handler =
  h_entry :: u32
  h_restorer :: u32
  h_flags :: u32
  h_mask :: signal_mask_t

record task =
  t_name :: string
  t_state :: task_state
  t_thid :: int
  t_kernel_stack :: u32
  t_kernel_esp :: u32
  tk_pgd :: ptr
  t_mmap_bump :: u32
  t_regs :: registers
  t_gs_base :: u32
  t_fs_base :: u32
  t_running_time :: u32
  t_wake_time :: u32
  t_entry :: u32
  t_ftab :: nat
  t_areas :: "nat list"
  t_signal_handlers :: "signal_handler list"
  t_mask_current :: signal_mask_t
  t_mask :: signal_mask_t
  t_sigq :: nat
  t_parent :: "nat option"
  t_process :: "nat option"

record process =
  p_pid :: int
  p_filepath :: string
  p_cwd :: string
  p_state :: process_state
  p_exit_code :: u32
  p_signal :: int
  p_parent :: "nat option"
  p_children :: "nat list"
  p_threads :: "nat list"
  p_ftab :: nat

record kernel =
  tasks :: "nat \<Rightarrow> task"
  procs :: "nat \<Rightarrow> process"
  sigqs :: "nat \<Rightarrow> signal list"
  ftabs :: "nat \<Rightarrow> nat option list"
  next_obj :: nat
  tasklist :: "nat list"
  current_entry :: nat
  current_task :: nat
  sched_preempt :: bool
  sched_initialized :: bool
  pit_sched_enable :: bool
  pit_ticks :: u32
  kernel_pgd :: ptr
  active_pgd :: ptr
  tss_esp0 :: u32
  cpu_gsbase :: u32
  cpu_fsbase :: u32
  umem :: "ptr \<Rightarrow> mem"
  current_pid :: int
  free_pid :: "int list"
  pgd_freed :: "ptr list"

text \<open>Assignments through a task or process pointer.\<close>

definition upd_task :: "nat \<Rightarrow> (task \<Rightarrow> task) \<Rightarrow> kernel \<Rightarrow> kernel" where
  "upd_task t f k = k\<lparr>tasks := (tasks k)(t := f (tasks k t))\<rparr>"

definition upd_proc :: "nat \<Rightarrow> (process \<Rightarrow> process) \<Rightarrow> kernel \<Rightarrow> kernel" where
  "upd_proc p f k = k\<lparr>procs := (procs k)(p := f (procs k p))\<rparr>"

definition cur :: "kernel \<Rightarrow> task" where
  "cur k = tasks k (current_task k)"

text \<open>
  A function that may reschedule either comes back to its caller or leaves the kernel for another task;
  \<open>intr_exit\<close> does not return. A panic, and a loop that does not end, are \<open>None\<close>.
\<close>

datatype outcome = Continue kernel | Switched kernel

fun outcome_state :: "outcome \<Rightarrow> kernel" where
  "outcome_state (Continue k) = k"
| "outcome_state (Switched k) = k"

lemma upd_task_simps [simp]:
  "tasks (upd_task t f k) = (tasks k)(t := f (tasks k t))" "procs (upd_task t f k) = procs k"
  "sigqs (upd_task t f k) = sigqs k" "ftabs (upd_task t f k) = ftabs k" "next_obj (upd_task t f k) = next_obj k"
  "tasklist (upd_task t f k) = tasklist k" "current_entry (upd_task t f k) = current_entry k"
  "current_task (upd_task t f k) = current_task k" "sched_preempt (upd_task t f k) = sched_preempt k"
  "pit_ticks (upd_task t f k) = pit_ticks k" "kernel_pgd (upd_task t f k) = kernel_pgd k"
  "active_pgd (upd_task t f k) = active_pgd k" "umem (upd_task t f k) = umem k"
  "current_pid (upd_task t f k) = current_pid k" "free_pid (upd_task t f k) = free_pid k"
  "pgd_freed (upd_task t f k) = pgd_freed k"
  by (simp_all add: upd_task_def)

lemma upd_proc_simps [simp]:
  "tasks (upd_proc p g k) = tasks k" "procs (upd_proc p g k) = (procs k)(p := g (procs k p))"
  "sigqs (upd_proc p g k) = sigqs k" "ftabs (upd_proc p g k) = ftabs k" "next_obj (upd_proc p g k) = next_obj k"
  "tasklist (upd_proc p g k) = tasklist k" "current_entry (upd_proc p g k) = current_entry k"
  "current_task (upd_proc p g k) = current_task k" "sched_preempt (upd_proc p g k) = sched_preempt k"
  "pit_ticks (upd_proc p g k) = pit_ticks k" "kernel_pgd (upd_proc p g k) = kernel_pgd k"
  "active_pgd (upd_proc p g k) = active_pgd k" "umem (upd_proc p g k) = umem k"
  "current_pid (upd_proc p g k) = current_pid k" "free_pid (upd_proc p g k) = free_pid k"
  "pgd_freed (upd_proc p g k) = pgd_freed k"
  by (simp_all add: upd_proc_def)

section \<open>The task list\<close>

definition sched_add :: "kernel \<Rightarrow> nat \<Rightarrow> kernel" where
  "sched_add k t = upd_task t (\<lambda>x. x\<lparr>t_state := TASK_STARTING\<rparr>) (k\<lparr>tasklist := tasklist k @ [t]\<rparr>)"

text \<open>\<open>list_remove\<close> does nothing for the entry \<open>NULL\<close> of a task that was never added.\<close>

definition sched_remove :: "kernel \<Rightarrow> nat \<Rightarrow> kernel" where
  "sched_remove k t = k\<lparr>tasklist := remove1 t (tasklist k)\<rparr>"

text \<open>Destroying a thread releases its page directory, whoever else uses it.\<close>

definition thread_destroy :: "kernel \<Rightarrow> nat \<Rightarrow> kernel" where
  "thread_destroy k t =
     (let k = sched_remove k t in k\<lparr>pgd_freed := tk_pgd (tasks k t) # pgd_freed k\<rparr>)"

section \<open>Killing a process\<close>

primrec kill_threads :: "kernel \<Rightarrow> nat list \<Rightarrow> kernel" where
  "kill_threads k [] = k"
| "kill_threads k (thread # rest) =
     kill_threads
       (if current_task k = thread then upd_task thread (\<lambda>x. x\<lparr>t_state := TASK_DYING\<rparr>) k
        else thread_destroy k thread) rest"

definition process_kill :: "(kernel \<Rightarrow> kernel option) \<Rightarrow> kernel \<Rightarrow> nat \<Rightarrow> outcome option" where
  "process_kill resched k p =
     (let k = kill_threads k (p_threads (procs k p))
      in if p_parent (procs k p) = None then None
         else if t_process (cur k) = Some p then map_option Switched (resched k)
         else Some (Continue k))"

lemma kill_threads_frame [simp]:
  "procs (kill_threads k ts) = procs k" "sigqs (kill_threads k ts) = sigqs k"
  "current_task (kill_threads k ts) = current_task k" "sched_preempt (kill_threads k ts) = sched_preempt k"
  "pit_ticks (kill_threads k ts) = pit_ticks k" "current_entry (kill_threads k ts) = current_entry k"
  "free_pid (kill_threads k ts) = free_pid k" "current_pid (kill_threads k ts) = current_pid k"
  by (induction ts arbitrary: k) (simp_all add: thread_destroy_def sched_remove_def Let_def)

lemma kill_threads_sigq [simp]: "t_sigq (tasks (kill_threads k ts) t) = t_sigq (tasks k t)"
  by (induction ts arbitrary: k) (simp_all add: thread_destroy_def sched_remove_def Let_def)

lemma kill_threads_process [simp]: "t_process (tasks (kill_threads k ts) t) = t_process (tasks k t)"
  by (induction ts arbitrary: k) (simp_all add: thread_destroy_def sched_remove_def Let_def)

text \<open>After the loop no thread of the process but the current one is in the task list.\<close>

lemma kill_threads_tasklist:
  "distinct (tasklist k) \<Longrightarrow> distinct (tasklist (kill_threads k ts)) \<and>
   set (tasklist (kill_threads k ts)) = set (tasklist k) - (set ts - {current_task k})"
proof (induction ts arbitrary: k)
  case (Cons a ts)
  show ?case
  proof (cases "current_task k = a")
    case True
    with Cons.IH[of "upd_task a (\<lambda>x. x\<lparr>t_state := TASK_DYING\<rparr>) k"] Cons.prems show ?thesis by auto
  next
    case False
    with Cons.IH[of "thread_destroy k a"] Cons.prems show ?thesis
      by (auto simp: thread_destroy_def sched_remove_def Let_def)
  qed
qed simp

lemma kill_threads_current:
  "current_task k = c \<Longrightarrow> t_state (tasks (kill_threads k ts) c) = (if c \<in> set ts then TASK_DYING else t_state (tasks k c))"
  by (induction ts arbitrary: k) (auto simp: thread_destroy_def sched_remove_def Let_def)

lemma kill_threads_other: "t \<noteq> current_task k \<Longrightarrow> tasks (kill_threads k ts) t = tasks k t"
  by (induction ts arbitrary: k) (auto simp: thread_destroy_def sched_remove_def Let_def)

end
