(* ===== verification/Signal.thy ===== *)
theory Signal
  imports Task
begin

text \<open>
  Signals, \<^verbatim>\<open>kernel/signal.c\<close>: registration of handlers, delivery onto the user stack, return from a handler, and
  the queue of blocked signals. Functions that can end in \<open>reschedule\<close> take it as an argument.

  The mask bit of a signal is the C expression \<^verbatim>\<open>1 << number\<close> on a 32-bit \<open>int\<close>, widened to the 64-bit mask:
  bit 31 is sign-extended, and the shift count of the i386 instruction is taken modulo 32.
\<close>

section \<open>Constants and masks\<close>

definition NSIG :: int where "NSIG = 34"
definition SIGKILL :: int where "SIGKILL = 9"
definition SIGSEGV :: int where "SIGSEGV = 11"
definition SIGCHLD :: int where "SIGCHLD = 17"
definition SIGSTOP :: int where "SIGSTOP = 19"
definition SIGURG :: int where "SIGURG = 23"
definition SIGWINCH :: int where "SIGWINCH = 28"
definition SIGNAL_DEFAULT_ACTION :: u32 where "SIGNAL_DEFAULT_ACTION = 0"
definition SIGNAL_IGNORE_ACTION :: u32 where "SIGNAL_IGNORE_ACTION = - 1"
definition SIGNAL_MAX_QUEUE_SIZE :: nat where "SIGNAL_MAX_QUEUE_SIZE = 1024"

definition sig_bit :: "int \<Rightarrow> signal_mask_t" where
  "sig_bit n = scast (push_bit (nat n mod 32) 1 :: u32)"

definition blocked :: "task \<Rightarrow> signal \<Rightarrow> bool" where
  "blocked t s \<longleftrightarrow> t_mask t AND sig_bit (s_number s) \<noteq> 0 \<or> t_mask_current t AND sig_bit (s_number s) \<noteq> 0"

section \<open>Words on the user stack\<close>

primrec store_words :: "mem \<Rightarrow> u32 \<Rightarrow> u32 list \<Rightarrow> mem" where
  "store_words m a [] = m"
| "store_words m a (w # ws) = store_words (store32 m a w) (a + 4) ws"

definition words64 :: "u64 \<Rightarrow> u32 list" where
  "words64 x = [ucast x, ucast (drop_bit 32 x)]"

definition signal_words :: "signal \<Rightarrow> u32 list" where
  "signal_words s = [word_of_int (s_number s), s_code s, s_errno s, s_pid s, s_uid s, s_fault_addr s, s_status s,
     s_band s, s_queue_val s]"

text \<open>
  \<open>struct signal_context\<close>: the mask, \<open>old_mask\<close>, and the registers in the order of \<open>SIGNAL_TASK_CONTEXT_REGS\<close>.
\<close>

definition context_words :: "signal_mask_t \<Rightarrow> signal_mask_t \<Rightarrow> registers \<Rightarrow> u32 list" where
  "context_words smask old_mask r = words64 smask @ words64 old_mask @
     [r_eax r, r_ecx r, r_ebx r, r_edx r, r_ebp r, r_esi r, r_edi r, r_eip r, r_useresp r, r_eflags r,
      r_cs r, r_ds r, r_ss r, r_es r, r_fs r, r_gs r]"

section \<open>Handlers\<close>

text \<open>
  The table of handlers has \<open>NSIG\<close> entries, 0 to 33; the test admits number 34, which is outside: \<open>None\<close>.
\<close>

definition sys_sigaction :: "kernel \<Rightarrow> int \<Rightarrow> signal_handler option \<Rightarrow> (kernel \<times> signal_handler option \<times> int) option" where
  "sys_sigaction k num new =
     (if num < 1 \<or> num > NSIG then Some (k, None, - EINVAL)
      else if num = SIGKILL \<or> num = SIGSTOP then Some (k, None, - EINVAL)
      else if length (t_signal_handlers (cur k)) \<le> nat num then None
      else
        let old = t_signal_handlers (cur k) ! nat num;
            k = (case new of None \<Rightarrow> k
                 | Some h \<Rightarrow> upd_task (current_task k) (\<lambda>t. t\<lparr>t_signal_handlers := (t_signal_handlers t)[nat num := h]\<rparr>) k)
        in Some (k, Some old, 0))"

text \<open>
  Return from a handler: the context is read back from user memory. Its segment registers are replaced by those
  of the interrupted frame, and the flags are masked.
\<close>

definition sys_sigrestore :: "kernel \<Rightarrow> u32 \<Rightarrow> kernel" where
  "sys_sigrestore k ctx =
     (let t = current_task k;
          m = umem k (active_pgd k);
          regs = t_regs (tasks k t);
          tc = ctx + 8;
          reg = (\<lambda>i. load32 m (tc + 8 + 4 * i));
          eflags = reg 9 AND 0x218DFF;
          m = store32 m (tc + 8 + 4 * 9) eflags;
          m = store_words m (tc + 8 + 4 * 10) [r_cs regs, r_ds regs, r_ss regs, r_es regs, r_fs regs, r_gs regs];
          reg = (\<lambda>i. load32 m (tc + 8 + 4 * i));
          regs' = regs\<lparr>r_eax := reg 0, r_ecx := reg 1, r_ebx := reg 2, r_edx := reg 3, r_ebp := reg 4, r_esi := reg 5,
            r_edi := reg 6, r_eip := reg 7, r_useresp := reg 8, r_eflags := reg 9, r_cs := reg 10, r_ds := reg 11,
            r_ss := reg 12, r_es := reg 13, r_fs := reg 14, r_gs := reg 15\<rparr>;
          old_mask = ucast (load32 m tc) OR push_bit 32 (ucast (load32 m (tc + 4)))
      in upd_task t (\<lambda>x. x\<lparr>t_regs := regs', t_mask_current := old_mask\<rparr>)
           (k\<lparr>umem := (umem k)(active_pgd k := m)\<rparr>))"

section \<open>Delivery\<close>

definition kill_with_signal :: "(kernel \<Rightarrow> kernel option) \<Rightarrow> kernel \<Rightarrow> nat \<Rightarrow> int \<Rightarrow> outcome option" where
  "kill_with_signal resched k t num =
     (case t_process (tasks k t) of
        Some p \<Rightarrow> process_kill resched (upd_proc p (\<lambda>x. x\<lparr>p_state := PROCESS_DEAD, p_signal := num\<rparr>) k) p
      | None \<Rightarrow>
          let k = upd_task t (\<lambda>x. x\<lparr>t_state := TASK_DYING\<rparr>) k
          in if t = current_task k then map_option Switched (resched k) else Some (Continue k))"

definition default_signal_handler :: "(kernel \<Rightarrow> kernel option) \<Rightarrow> kernel \<Rightarrow> nat \<Rightarrow> signal \<Rightarrow> outcome option" where
  "default_signal_handler resched k t s =
     (if s_number s = SIGCHLD \<or> s_number s = SIGURG \<or> s_number s = SIGWINCH then Some (Continue k)
      else kill_with_signal resched k t (s_number s))"

definition push_frame :: "mem \<Rightarrow> u32 \<Rightarrow> signal \<Rightarrow> u32 list \<Rightarrow> u32 \<Rightarrow> mem \<times> u32" where
  "push_frame m esp s ctx restorer =
     (let info = esp - 36; m = store_words m info (signal_words s);
          ctxp = info - 80; m = store_words m ctxp ctx;
          frame = ctxp - 12; m = store_words m frame [word_of_int (s_number s), info, ctxp];
          esp = frame - 4; m = store32 m esp restorer
      in (m, esp))"

text \<open>\<open>old_mask\<close> is not mentioned in the initializer of the context, so it is zero.\<close>

definition signal_exec :: "(kernel \<Rightarrow> kernel option) \<Rightarrow> kernel \<Rightarrow> nat \<Rightarrow> signal \<Rightarrow> outcome option" where
  "signal_exec resched k t s =
     (let task = tasks k t
      in if tk_pgd task = kernel_pgd k then Some (Continue k)
         else if s_number s = SIGKILL then kill_with_signal resched k t (s_number s)
         else if s_number s = SIGSTOP then Some (Continue (upd_task t (\<lambda>x. x\<lparr>t_state := TASK_SUSPENDED\<rparr>) k))
         else if s_number s < 0 \<or> length (t_signal_handlers task) \<le> nat (s_number s) then None
         else
           let h = t_signal_handlers task ! nat (s_number s)
           in if h_entry h = SIGNAL_DEFAULT_ACTION then default_signal_handler resched k t s
              else if h_entry h = SIGNAL_IGNORE_ACTION then Some (Continue k)
              else
                let ctx = context_words (h_mask h OR sig_bit (s_number s) OR t_mask task) 0 (t_regs task);
                    (m, esp) = push_frame (umem k (tk_pgd task)) (r_useresp (t_regs task)) s ctx (h_restorer h);
                    k = k\<lparr>umem := (umem k)(tk_pgd task := m)\<rparr>;
                    k = upd_task t (\<lambda>x. x\<lparr>t_regs := (t_regs x)\<lparr>r_useresp := esp, r_eip := h_entry h\<rparr>,
                          t_mask_current := h_mask h OR sig_bit (s_number s)\<rparr>) k
                in Some (Continue k))"

section \<open>The queue of blocked signals\<close>

fun fetch_unblocked :: "task \<Rightarrow> signal list \<Rightarrow> (signal \<times> signal list) option" where
  "fetch_unblocked t [] = None"
| "fetch_unblocked t (s # rest) =
     (if blocked t s then map_option (\<lambda>(r, q). (r, s # q)) (fetch_unblocked t rest) else Some (s, rest))"

definition signal_fetch :: "kernel \<Rightarrow> nat \<Rightarrow> kernel \<times> signal option" where
  "signal_fetch k t =
     (let q = t_sigq (tasks k t)
      in case fetch_unblocked (tasks k t) (sigqs k q) of
           None \<Rightarrow> (k, None)
         | Some (s, rest) \<Rightarrow> (k\<lparr>sigqs := (sigqs k)(q := rest)\<rparr>, Some s))"

text \<open>A full queue fails the assertion.\<close>

definition signal_send :: "(kernel \<Rightarrow> kernel option) \<Rightarrow> kernel \<Rightarrow> nat \<Rightarrow> signal \<Rightarrow> outcome option" where
  "signal_send resched k t sig =
     (if s_number sig > NSIG \<or> s_number sig < 1 then Some (Continue k)
      else if blocked (tasks k t) sig
      then let q = t_sigq (tasks k t)
           in if length (sigqs k q) = SIGNAL_MAX_QUEUE_SIZE then None
              else Some (Continue (k\<lparr>sigqs := (sigqs k)(q := sigqs k q @ [sig])\<rparr>))
      else signal_exec resched k t sig)"

definition sys_sigselfsend :: "(kernel \<Rightarrow> kernel option) \<Rightarrow> kernel \<Rightarrow> signal option \<Rightarrow> outcome option" where
  "sys_sigselfsend resched k s =
     (case s of None \<Rightarrow> Some (Continue k) | Some s \<Rightarrow> signal_send resched k (current_task k) s)"

section \<open>Lemmas about the stack\<close>

lemma store_words_other:
  "regions_disjoint a (4 * length ws) b 4 \<Longrightarrow> load32 (store_words m a ws) b = load32 m b"
proof (induction ws arbitrary: m a)
  case (Cons w ws)
  have d: "regions_disjoint a 4 b 4" using regions_disjoint_sub[OF Cons.prems, of 0 4] by simp
  show ?case
  proof (cases "ws = []")
    case True
    then show ?thesis using d by (simp add: load32_store32_other)
  next
    case False
    then have "regions_disjoint (a + of_nat 4) (4 * length ws) b 4"
      using regions_disjoint_sub[OF Cons.prems, of 4 "4 * length ws"] by simp
    then have "load32 (store_words (store32 m a w) (a + 4) ws) b = load32 (store32 m a w) b"
      using Cons.IH by simp
    then show ?thesis using d by (simp add: load32_store32_other)
  qed
qed simp

lemma offsets_disjoint:
  fixes a :: u32
  assumes "i + n \<le> j" and "j + k \<le> 4294967295" and "0 < n" and "0 < k"
  shows "regions_disjoint (a + of_nat i) n (a + of_nat j) k"
proof -
  have "a + of_nat j - (a + of_nat i) = of_nat (j - i)" using assms(1) by (simp add: of_nat_diff)
  then have "unat (a + of_nat j - (a + of_nat i)) = j - i" using assms by (simp only: of_nat_unat_u32)
  moreover have "a + of_nat i \<noteq> a + of_nat j" using of_nat_neq_u32[of i j] assms by simp
  then have "unat (a + of_nat i - (a + of_nat j)) = 4294967296 - unat (a + of_nat j - (a + of_nat i))"
    by (rule unat_diff_flip)
  ultimately show ?thesis using assms unfolding regions_disjoint_def by linarith
qed

lemma load_store_words:
  assumes "i < length ws" and "4 * length ws \<le> 4294967295"
  shows "load32 (store_words m a ws) (a + of_nat (4 * i)) = ws ! i"
  using assms
proof (induction ws arbitrary: m a i)
  case (Cons w ws)
  show ?case
  proof (cases i)
    case 0
    have "regions_disjoint a 4 (a + of_nat 4) (4 * length ws)" if "ws \<noteq> []"
      using offsets_disjoint[of 0 4 4 "4 * length ws" a] that Cons.prems(2) by simp
    then have "load32 (store_words (store32 m a w) (a + 4) ws) a = w"
      using store_words_other[of "a + 4" ws a "store32 m a w"] by (cases "ws = []") (simp_all add: regions_disjoint_sym)
    then show ?thesis using 0 by simp
  next
    case (Suc j)
    then have "load32 (store_words (store32 m a w) (a + 4) ws) (a + 4 + of_nat (4 * j)) = ws ! j"
      using Cons by simp
    moreover have "a + of_nat (4 * i) = a + 4 + of_nat (4 * j)" using Suc by simp
    ultimately show ?thesis using Suc by (simp only: store_words.simps nth_Cons_Suc)
  qed
qed simp

text \<open>
  The layout of the signal frame, from the new stack pointer upwards: the return address, the arguments of the
  handler (number, information, context), the context (20 words) and the information (9 words).
\<close>

lemma push_frame_layout:
  assumes "push_frame m esp s ctx restorer = (m', esp')" and "length ctx = 20"
  shows "esp' = esp - 132" "load32 m' esp' = restorer" "load32 m' (esp' + 4) = word_of_int (s_number s)"
    "load32 m' (esp' + 8) = esp' + 96" "load32 m' (esp' + 12) = esp' + 16"
    "i < 20 \<Longrightarrow> load32 m' (esp' + 16 + of_nat (4 * i)) = ctx ! i"
proof -
  define e where "e = esp - 132"
  define fr where "fr = [word_of_int (s_number s), e + 96, e + 16]"
  define m3 where "m3 = store_words (store_words m (e + 96) (signal_words s)) (e + 16) ctx"
  have sub: "esp - 36 = e + 96" "e + 96 - 80 = e + 16" "e + 16 - 12 = e + 4" "e + 4 - 4 = e" by (simp_all add: e_def)
  have res: "m' = store32 (store_words m3 (e + 4) fr) e restorer" "esp' = e"
    using assms(1) unfolding push_frame_def Let_def sub by (auto simp: m3_def fr_def)
  then show "esp' = esp - 132" "load32 m' esp' = restorer" by (simp_all add: e_def)
  have dis: "regions_disjoint e 4 (e + of_nat j) 4" if "4 \<le> j" "j \<le> 1000" for j
    using offsets_disjoint[of 0 4 j 4 e] that by simp
  have frame: "load32 m' (e + 4 + of_nat (4 * j)) = fr ! j" if "j < 3" for j
  proof -
    have "e + 4 + of_nat (4 * j) = e + of_nat (4 + 4 * j)" by simp
    then have "regions_disjoint e 4 (e + 4 + of_nat (4 * j)) 4" using dis[of "4 + 4 * j"] that by (simp add: add.assoc)
    then have "load32 m' (e + 4 + of_nat (4 * j)) = load32 (store_words m3 (e + 4) fr) (e + 4 + of_nat (4 * j))"
      unfolding res by (rule load32_store32_other)
    also have "\<dots> = fr ! j" using that by (intro load_store_words) (simp_all add: fr_def)
    finally show ?thesis .
  qed
  show "load32 m' (esp' + 4) = word_of_int (s_number s)" "load32 m' (esp' + 8) = esp' + 96" "load32 m' (esp' + 12) = esp' + 16"
    using frame[of 0] frame[of 1] frame[of 2] by (simp_all add: res(2) fr_def add.assoc)
  show "load32 m' (esp' + 16 + of_nat (4 * i)) = ctx ! i" if i: "i < 20"
  proof -
    have eq: "e + 16 + of_nat (4 * i) = e + of_nat (16 + 4 * i)" by simp
    have d: "regions_disjoint (e + 4) (4 * length fr) (e + of_nat (16 + 4 * i)) 4"
      using offsets_disjoint[of 4 12 "16 + 4 * i" 4 e] i by (simp add: fr_def)
    have "load32 m' (e + 16 + of_nat (4 * i)) = load32 (store_words m3 (e + 4) fr) (e + of_nat (16 + 4 * i))"
      unfolding eq using dis[of "16 + 4 * i"] i by (simp add: res(1) load32_store32_other del: of_nat_add)
    also have "\<dots> = load32 m3 (e + 16 + of_nat (4 * i))" using store_words_other[OF d, of m3] by (simp add: add.assoc)
    also have "\<dots> = ctx ! i" unfolding m3_def using i assms(2) by (intro load_store_words) simp_all
    finally show ?thesis by (simp add: res(2))
  qed
qed

section \<open>Return from a handler\<close>

lemma context_words_length [simp]: "length (context_words a b r) = 20"
  by (simp add: context_words_def words64_def)

lemma nth_context_words:
  "context_words a b r ! 2 = ucast b" "context_words a b r ! 3 = ucast (drop_bit 32 b)"
  "context_words a b r ! 4 = r_eax r" "context_words a b r ! 5 = r_ecx r" "context_words a b r ! 6 = r_ebx r"
  "context_words a b r ! 7 = r_edx r" "context_words a b r ! 8 = r_ebp r" "context_words a b r ! 9 = r_esi r"
  "context_words a b r ! 10 = r_edi r" "context_words a b r ! 11 = r_eip r" "context_words a b r ! 12 = r_useresp r"
  "context_words a b r ! 13 = r_eflags r"
  by (simp_all add: context_words_def words64_def nth_append)

text \<open>What \<open>sys_sigrestore\<close> reads when the context it is given holds \<open>context_words a b r\<close>.\<close>

lemma sigrestore_reads:
  assumes ctx: "\<And>i. i < 20 \<Longrightarrow> load32 (umem k (active_pgd k)) (c + of_nat (4 * i)) = context_words a b r ! i"
    and q: "q = t_regs (tasks k (current_task k))"
  shows "t_regs (tasks (sys_sigrestore k c) (current_task k)) =
      q\<lparr>r_eax := r_eax r, r_ecx := r_ecx r, r_ebx := r_ebx r, r_edx := r_edx r, r_ebp := r_ebp r, r_esi := r_esi r,
        r_edi := r_edi r, r_eip := r_eip r, r_useresp := r_useresp r, r_eflags := r_eflags r AND 0x218DFF\<rparr>"
    and "t_mask_current (tasks (sys_sigrestore k c) (current_task k)) = ucast (ucast b :: u32) OR push_bit 32 (ucast (ucast (drop_bit 32 b) :: u32))"
proof -
  let ?m = "umem k (active_pgd k)"
  let ?segs = "[r_cs q, r_ds q, r_ss q, r_es q, r_fs q, r_gs q]"
  let ?fl = "r_eflags r AND 0x218DFF"
  let ?m1 = "store32 ?m (c + of_nat (4 * 13)) ?fl"
  let ?m2 = "store_words ?m1 (c + of_nat (4 * 14)) ?segs"
  have low: "load32 ?m2 (c + of_nat (4 * i)) = context_words a b r ! i" if "i < 13" for i
  proof -
    have "regions_disjoint (c + of_nat (4 * 14)) (4 * length ?segs) (c + of_nat (4 * i)) 4"
      by (subst regions_disjoint_sym) (use that in \<open>intro offsets_disjoint, simp_all\<close>)
    moreover have "regions_disjoint (c + of_nat (4 * 13)) 4 (c + of_nat (4 * i)) 4"
      by (subst regions_disjoint_sym) (use that in \<open>intro offsets_disjoint, simp_all\<close>)
    moreover have "i < 20" using that by simp
    ultimately show ?thesis using ctx[of i] by (simp only: store_words_other load32_store32_other)
  qed
  have fl: "load32 ?m2 (c + of_nat (4 * 13)) = ?fl"
  proof -
    have "regions_disjoint (c + of_nat (4 * 14)) (4 * length ?segs) (c + of_nat (4 * 13)) 4"
      by (subst regions_disjoint_sym) (intro offsets_disjoint, simp_all)
    then show ?thesis by (simp only: store_words_other load32_store32)
  qed
  have seg: "load32 ?m2 (c + of_nat (4 * 14) + of_nat (4 * i)) = ?segs ! i" if "i < 6" for i
    using that by (intro load_store_words) simp_all
  have ef: "load32 ?m (c + 52) = r_eflags r" using ctx[of 13] by (simp add: nth_context_words)
  note all = low[of 2] low[of 3] low[of 4] low[of 5] low[of 6] low[of 7] low[of 8] low[of 9] low[of 10] low[of 11]
    low[of 12] fl seg[of 0] seg[of 1] seg[of 2] seg[of 3] seg[of 4] seg[of 5]
  show "t_regs (tasks (sys_sigrestore k c) (current_task k)) =
      q\<lparr>r_eax := r_eax r, r_ecx := r_ecx r, r_ebx := r_ebx r, r_edx := r_edx r, r_ebp := r_ebp r, r_esi := r_esi r,
        r_edi := r_edi r, r_eip := r_eip r, r_useresp := r_useresp r, r_eflags := r_eflags r AND 0x218DFF\<rparr>"
    using all ef unfolding sys_sigrestore_def q[symmetric] Let_def
    by (simp add: nth_context_words add.assoc del: store_words.simps)
  show "t_mask_current (tasks (sys_sigrestore k c) (current_task k)) = ucast (ucast b :: u32) OR push_bit 32 (ucast (ucast (drop_bit 32 b) :: u32))"
    using all ef unfolding sys_sigrestore_def q[symmetric] Let_def
    by (simp add: nth_context_words add.assoc del: store_words.simps)
qed

section \<open>Delivery\<close>

lemma signal_exec_handler:
  assumes "tk_pgd (tasks k t) \<noteq> kernel_pgd k" and "s_number s \<noteq> SIGKILL" and "s_number s \<noteq> SIGSTOP"
    and "0 \<le> s_number s" and "nat (s_number s) < length (t_signal_handlers (tasks k t))"
    and "h = t_signal_handlers (tasks k t) ! nat (s_number s)"
    and "h_entry h \<noteq> SIGNAL_DEFAULT_ACTION" and "h_entry h \<noteq> SIGNAL_IGNORE_ACTION"
    and "push_frame (umem k (tk_pgd (tasks k t))) (r_useresp (t_regs (tasks k t))) s
      (context_words (h_mask h OR sig_bit (s_number s) OR t_mask (tasks k t)) 0 (t_regs (tasks k t))) (h_restorer h) = (m, esp)"
  shows "signal_exec resched k t s =
    Some (Continue (upd_task t (\<lambda>x. x\<lparr>t_regs := (t_regs x)\<lparr>r_useresp := esp, r_eip := h_entry h\<rparr>,
       t_mask_current := h_mask h OR sig_bit (s_number s)\<rparr>) (k\<lparr>umem := (umem k)(tk_pgd (tasks k t) := m)\<rparr>)))"
  using assms by (simp add: signal_exec_def Let_def)

lemma fetch_unblocked_cases:
  "case fetch_unblocked t q of
     None \<Rightarrow> \<forall>s \<in> set q. blocked t s
   | Some (s, rest) \<Rightarrow> \<exists>xs ys. q = xs @ s # ys \<and> rest = xs @ ys \<and> (\<forall>x \<in> set xs. blocked t x) \<and> \<not> blocked t s"
proof (induction q)
  case (Cons a q)
  show ?case
  proof (cases "blocked t a")
    case False
    then show ?thesis by (auto intro: exI[of _ "[]"])
  next
    case b: True
    show ?thesis
    proof (cases "fetch_unblocked t q")
      case None
      then show ?thesis using b Cons by simp
    next
      case (Some sr)
      then obtain s rest where sr: "fetch_unblocked t q = Some (s, rest)" by (cases sr) simp
      have res: "fetch_unblocked t (a # q) = Some (s, a # rest)" using sr b by simp
      obtain xs ys where "q = xs @ s # ys" "rest = xs @ ys" "\<forall>x \<in> set xs. blocked t x" "\<not> blocked t s"
        using Cons sr by auto
      then have "a # q = (a # xs) @ s # ys \<and> a # rest = (a # xs) @ ys \<and> (\<forall>x \<in> set (a # xs). blocked t x) \<and> \<not> blocked t s"
        using b by simp
      then show ?thesis unfolding res option.case prod.case by blast
    qed
  qed
qed simp

lemma signal_fetch_shrinks:
  "signal_fetch k t = (k', Some s) \<Longrightarrow>
     k' = k\<lparr>sigqs := (sigqs k)(t_sigq (tasks k t) := sigqs k' (t_sigq (tasks k t)))\<rparr> \<and>
     Suc (length (sigqs k' (t_sigq (tasks k t)))) = length (sigqs k (t_sigq (tasks k t)))"
  using fetch_unblocked_cases[where t = "tasks k t" and q = "sigqs k (t_sigq (tasks k t))"]
  by (auto simp: signal_fetch_def Let_def split: option.splits)

lemma signal_fetch_none: "signal_fetch k t = (k', None) \<Longrightarrow> k' = k"
  by (auto simp: signal_fetch_def Let_def split: option.splits)

section \<open>Properties\<close>


definition example_regs :: registers where
  "example_regs = \<lparr>r_fs = 0x3B, r_gs = 0x33, r_es = 0x23, r_ds = 0x23, r_edi = 1, r_esi = 2, r_ebp = 3, r_esp = 0, r_ebx = 4,
     r_edx = 5, r_ecx = 6, r_eax = 7, r_int_num = 0, r_err_code = 0, r_trace_frame = 0, r_eip = 0x08048000, r_cs = 0x1B,
     r_eflags = 0x202, r_useresp = 0xBFFFF000, r_ss = 0x23\<rparr>"

definition example_user_task :: task where
  "example_user_task = \<lparr>t_name = ''init'', t_state = TASK_RUNNING, t_thid = 0, t_kernel_stack = 0xC0500000,
     t_kernel_esp = 0xC050A000, tk_pgd = 0xC0400000, t_mmap_bump = 0, t_regs = example_regs, t_gs_base = 0, t_fs_base = 0,
     t_running_time = 0, t_wake_time = 0, t_entry = 0x08048000, t_ftab = 0, t_areas = [],
     t_signal_handlers = (replicate 34 \<lparr>h_entry = 0, h_restorer = 0, h_flags = 0, h_mask = 0\<rparr>)
       [10 := \<lparr>h_entry = 0x08049000, h_restorer = 0x0804A000, h_flags = 0, h_mask = 0\<rparr>],
     t_mask_current = 0, t_mask = 0, t_sigq = 0, t_parent = None, t_process = Some 0\<rparr>"

definition example_signal :: signal where
  "example_signal = \<lparr>s_number = 10, s_code = 0, s_errno = 0, s_pid = 0, s_uid = 0, s_fault_addr = 0, s_status = 0,
     s_band = 0, s_queue_val = 0\<rparr>"

definition example_kernel :: kernel where
  "example_kernel = \<lparr>tasks = (\<lambda>_. example_user_task),
     procs = (\<lambda>_. \<lparr>p_pid = 1, p_filepath = ''/bin/init'', p_cwd = ''/'', p_state = PROCESS_RUNNING, p_exit_code = 0,
       p_signal = 0, p_parent = None, p_children = [], p_threads = [0], p_ftab = 0\<rparr>),
     sigqs = (\<lambda>_. []), ftabs = (\<lambda>_. replicate 256 None), next_obj = 1, tasklist = [0], current_entry = 0,
     current_task = 0, sched_preempt = True, sched_initialized = True, pit_sched_enable = True, pit_ticks = 100,
     kernel_pgd = 0xC0300000, active_pgd = 0xC0400000, tss_esp0 = 0, cpu_gsbase = 0, cpu_fsbase = 0,
     umem = (\<lambda>_ _. 0), current_pid = 2, free_pid = [], pgd_freed = []\<rparr>"


text \<open>
  C12: Blocked signals are kept in order: \<open>signal_send\<close> of a blocked signal appends it to the queue, and
  \<open>signal_fetch\<close> takes out the oldest signal that is not blocked now, leaving the others in their order; it
  returns nothing only when every queued signal is blocked.
\<close>

theorem signal_queue_order:
  assumes "q = t_sigq (tasks k t)"
  shows "(case signal_fetch k t of
      (k', None) \<Rightarrow> k' = k \<and> (\<forall>s \<in> set (sigqs k q). blocked (tasks k t) s)
    | (k', Some s) \<Rightarrow> \<exists>xs ys. sigqs k q = xs @ s # ys \<and> k' = k\<lparr>sigqs := (sigqs k)(q := xs @ ys)\<rparr> \<and>
        (\<forall>x \<in> set xs. blocked (tasks k t) x) \<and> \<not> blocked (tasks k t) s) \<and>
    (1 \<le> s_number s \<and> s_number s \<le> NSIG \<and> blocked (tasks k t) s \<and> length (sigqs k q) < SIGNAL_MAX_QUEUE_SIZE \<longrightarrow>
      signal_send resched k t s = Some (Continue (k\<lparr>sigqs := (sigqs k)(q := sigqs k q @ [s])\<rparr>)))"
proof (intro conjI impI)
  show "case signal_fetch k t of
      (k', None) \<Rightarrow> k' = k \<and> (\<forall>s \<in> set (sigqs k q). blocked (tasks k t) s)
    | (k', Some s) \<Rightarrow> \<exists>xs ys. sigqs k q = xs @ s # ys \<and> k' = k\<lparr>sigqs := (sigqs k)(q := xs @ ys)\<rparr> \<and>
        (\<forall>x \<in> set xs. blocked (tasks k t) x) \<and> \<not> blocked (tasks k t) s"
    using fetch_unblocked_cases[where t = "tasks k t" and q = "sigqs k q"]
    by (auto simp: signal_fetch_def Let_def assms split: option.splits)
qed (simp add: signal_send_def Let_def assms)

definition example_blocking :: kernel where
  "example_blocking = upd_task 0 (\<lambda>x. x\<lparr>t_mask_current := sig_bit 10\<rparr>)
     (example_kernel\<lparr>sigqs := \<lambda>_. [example_signal, example_signal\<lparr>s_number := 12\<rparr>]\<rparr>)"

theorem signal_queue_order_witness:
  "signal_send (\<lambda>_. None) example_blocking 0 example_signal =
     Some (Continue (example_blocking\<lparr>sigqs := (sigqs example_blocking)(0 :=
       [example_signal, example_signal\<lparr>s_number := 12\<rparr>, example_signal])\<rparr>)) \<and>
   snd (signal_fetch example_blocking 0) = Some (example_signal\<lparr>s_number := 12\<rparr>)"
proof -
  have q: "(0 :: nat) = t_sigq (tasks example_blocking 0)"
    by (simp add: example_blocking_def example_kernel_def example_user_task_def)
  have b: "sigqs example_blocking 0 = [example_signal, example_signal\<lparr>s_number := 12\<rparr>]"
    "blocked (tasks example_blocking 0) example_signal"
    "\<not> blocked (tasks example_blocking 0) (example_signal\<lparr>s_number := 12\<rparr>)"
    by (simp_all add: example_blocking_def blocked_def example_signal_def example_kernel_def example_user_task_def sig_bit_def)
  have "signal_send (\<lambda>_. None) example_blocking 0 example_signal =
     Some (Continue (example_blocking\<lparr>sigqs := (sigqs example_blocking)(0 := sigqs example_blocking 0 @ [example_signal])\<rparr>))"
    using signal_queue_order[OF q, of example_signal "\<lambda>_. None"] b
    by (simp add: NSIG_def SIGNAL_MAX_QUEUE_SIZE_def example_signal_def)
  moreover have "snd (signal_fetch example_blocking 0) = Some (example_signal\<lparr>s_number := 12\<rparr>)"
    using signal_queue_order[OF q, THEN conjunct1] b
    by (auto split: prod.splits option.splits simp: Cons_eq_append_conv)
  ultimately show ?thesis by (simp add: b(1))
qed

end
