(* ===== verification/Sched.thy ===== *)
theory Sched
  imports Signal
begin

text \<open>
  The scheduler, \<^verbatim>\<open>kernel/sched.c\<close>: round-robin choice of the next task, the switch to it with delivery of a
  pending signal, and the timer tick of \<^verbatim>\<open>kernel/pit.c\<close> that drives it.

  The loop of \<open>pick_next_task\<close> has no exit when every task sleeps: it is a partial function, \<open>None\<close> when it does
  not return. A switch can kill the task it switches to and reschedule again; this recursion carries fuel, and
  the lemma \<open>reschedule_to_fuel\<close> shows that the number of queued signals plus one is always enough.
\<close>

section \<open>Choosing the next task\<close>

text \<open>\<open>current->next\<close>, or the first entry after the last one; an entry outside the list has been released.\<close>

definition next_entry :: "nat list \<Rightarrow> nat \<Rightarrow> nat option" where
  "next_entry l c = (case dropWhile (\<lambda>x. x \<noteq> c) l of
       [] \<Rightarrow> None
     | [_] \<Rightarrow> Some (hd l)
     | _ # n # _ \<Rightarrow> Some n)"

partial_function (option) pick_loop :: "kernel \<Rightarrow> nat \<Rightarrow> (kernel \<times> nat) option" where
  "pick_loop k current = do {
     current \<leftarrow> next_entry (tasklist k) current;
     let task = tasks k current;
     if t_state task = TASK_SLEEPING \<and> t_wake_time task \<le> pit_ticks k
     then Some (upd_task current (\<lambda>x. x\<lparr>t_state := TASK_RUNNING\<rparr>) k, current)
     else if t_state task = TASK_SLEEPING then pick_loop k current
     else Some (k, current) }"

definition pick_next_task :: "kernel \<Rightarrow> (kernel \<times> nat) option" where
  "pick_next_task k = pick_loop k (current_entry k)"

section \<open>Switching\<close>

text \<open>\<open>reschedule\<close>, over the function that switches to a task; \<open>reschedule_to\<close> does not return.\<close>

definition resched_with :: "(kernel \<Rightarrow> nat \<Rightarrow> kernel option) \<Rightarrow> kernel \<Rightarrow> kernel option" where
  "resched_with switch k =
     (if \<not> sched_preempt k then switch k (current_task k)
      else do {
        (k, nxt) \<leftarrow> pick_next_task k;
        let k = (if t_state (cur k) = TASK_DYING then thread_destroy k (current_task k) else k);
        switch (k\<lparr>current_entry := nxt\<rparr>) nxt })"

definition activate_task :: "kernel \<Rightarrow> nat \<Rightarrow> kernel" where
  "activate_task k t =
     (let task = tasks k t;
          k = k\<lparr>current_task := t, cpu_gsbase := t_gs_base task, cpu_fsbase := t_fs_base task, tss_esp0 := t_kernel_esp task\<rparr>
      in if tk_pgd task \<noteq> 0 then k\<lparr>active_pgd := tk_pgd task\<rparr> else k)"

primrec reschedule_to :: "nat \<Rightarrow> kernel \<Rightarrow> nat \<Rightarrow> kernel option" where
  "reschedule_to 0 k t = None"
| "reschedule_to (Suc n) k t =
     (let k = activate_task k t
      in if sigqs k (t_sigq (tasks k t)) \<noteq> []
         then case signal_fetch k t of
                (k, None) \<Rightarrow> Some k
              | (k, Some s) \<Rightarrow> map_option outcome_state (signal_exec (resched_with (reschedule_to n)) k t s)
         else Some k)"

definition reschedule :: "nat \<Rightarrow> kernel \<Rightarrow> kernel option" where
  "reschedule n k = resched_with (reschedule_to n) k"

definition sched_yield_handler :: "nat \<Rightarrow> kernel \<Rightarrow> registers \<Rightarrow> kernel option" where
  "sched_yield_handler n k r = reschedule n (upd_task (current_task k) (\<lambda>x. x\<lparr>t_regs := r\<rparr>) k)"

definition sched_ticker :: "nat \<Rightarrow> kernel \<Rightarrow> registers \<Rightarrow> kernel option" where
  "sched_ticker n k r =
     sched_yield_handler n (upd_task (current_task k) (\<lambda>x. x\<lparr>t_running_time := t_running_time x + 1\<rparr>) k) r"

definition pit_ticker :: "nat \<Rightarrow> kernel \<Rightarrow> registers \<Rightarrow> kernel option" where
  "pit_ticker n k r =
     (let k = k\<lparr>pit_ticks := pit_ticks k + 1\<rparr>
      in if pit_sched_enable k then sched_ticker n k r else Some k)"

definition preempt_enable :: "kernel \<Rightarrow> kernel" where "preempt_enable k = k\<lparr>sched_preempt := True\<rparr>"
definition preempt_disable :: "kernel \<Rightarrow> kernel" where "preempt_disable k = k\<lparr>sched_preempt := False\<rparr>"

section \<open>Fuel\<close>

text \<open>All queues of the tasks are among \<open>Q\<close>; \<open>queued\<close> counts the signals that wait in them.\<close>

definition queues_in :: "nat set \<Rightarrow> kernel \<Rightarrow> bool" where
  "queues_in Q k \<longleftrightarrow> finite Q \<and> (\<forall>t. t_sigq (tasks k t) \<in> Q)"

definition queued :: "nat set \<Rightarrow> kernel \<Rightarrow> nat" where
  "queued Q k = (\<Sum>q\<in>Q. length (sigqs k q))"

text \<open>Two ways of rescheduling that agree on every state with no more signals than \<open>k\<close>.\<close>

definition agree_upto :: "nat set \<Rightarrow> nat \<Rightarrow> (kernel \<Rightarrow> 'a) \<Rightarrow> (kernel \<Rightarrow> 'a) \<Rightarrow> bool" where
  "agree_upto Q n f g \<longleftrightarrow> (\<forall>k. queues_in Q k \<and> queued Q k \<le> n \<longrightarrow> f k = g k)"

lemma pick_loop_woken:
  "pick_loop k c = Some r \<Longrightarrow> fst r = k \<or>
     fst r = upd_task (snd r) (\<lambda>x. x\<lparr>t_state := TASK_RUNNING\<rparr>) k \<and> t_state (tasks k (snd r)) = TASK_SLEEPING"
  by (erule pick_loop.raw_induct[rotated]) (auto simp: Let_def bind_eq_Some_conv split: if_splits)

lemma pick_woken:
  "pick_next_task k = Some (k', t) \<Longrightarrow> k' = k \<or> k' = upd_task t (\<lambda>x. x\<lparr>t_state := TASK_RUNNING\<rparr>) k \<and> t_state (tasks k t) = TASK_SLEEPING"
  using pick_loop_woken[of k "current_entry k" "(k', t)"] by (simp add: pick_next_task_def)

lemma pick_keeps_queues:
  assumes "pick_next_task k = Some (k', t)"
  shows "sigqs k' = sigqs k" "t_sigq (tasks k' x) = t_sigq (tasks k x)"
  using pick_woken[OF assms] by auto

lemma resched_agree:
  assumes "\<And>t. agree_upto Q n (\<lambda>k. f k t) (\<lambda>k. g k t)"
  shows "agree_upto Q n (resched_with f) (resched_with g)"
  unfolding agree_upto_def
proof (intro allI impI)
  fix k assume k: "queues_in Q k \<and> queued Q k \<le> n"
  have fg: "f k' t = g k' t" if "sigqs k' = sigqs k" "\<And>x. t_sigq (tasks k' x) = t_sigq (tasks k x)" for k' t
    using assms[of t] k that by (auto simp: agree_upto_def queues_in_def queued_def)
  show "resched_with f k = resched_with g k"
  proof (cases "sched_preempt k")
    case True
    then show ?thesis
      by (cases "pick_next_task k")
        (auto simp: resched_with_def Let_def pick_keeps_queues thread_destroy_def sched_remove_def intro!: fg)
  qed (simp add: resched_with_def fg)
qed

lemma process_kill_agree:
  assumes "agree_upto Q n f g" and "queues_in Q k" and "queued Q k \<le> n"
  shows "process_kill f k p = process_kill g k p"
proof -
  have "f (kill_threads k ts) = g (kill_threads k ts)" for ts
    using assms by (auto simp: agree_upto_def queues_in_def queued_def)
  then show ?thesis by (simp add: process_kill_def Let_def)
qed

lemma kill_with_signal_agree:
  assumes "agree_upto Q n f g" and "queues_in Q k" and "queued Q k \<le> n"
  shows "kill_with_signal f k t num = kill_with_signal g k t num"
proof (cases "t_process (tasks k t)")
  case None
  have "f (upd_task t (\<lambda>x. x\<lparr>t_state := TASK_DYING\<rparr>) k) = g (upd_task t (\<lambda>x. x\<lparr>t_state := TASK_DYING\<rparr>) k)"
    using assms by (auto simp: agree_upto_def queues_in_def queued_def)
  then show ?thesis using None by (auto simp: kill_with_signal_def Let_def)
next
  case (Some p)
  then show ?thesis using process_kill_agree[OF assms(1), of "upd_proc p (\<lambda>x. x\<lparr>p_state := PROCESS_DEAD, p_signal := num\<rparr>) k"] assms(2,3)
    by (auto simp: kill_with_signal_def queues_in_def queued_def)
qed

lemma signal_exec_agree:
  assumes "agree_upto Q n f g" and "queues_in Q k" and "queued Q k \<le> n"
  shows "signal_exec f k t s = signal_exec g k t s"
  using kill_with_signal_agree[OF assms]
  by (simp add: signal_exec_def default_signal_handler_def Let_def)

lemma activate_task_keeps [simp]:
  "tasks (activate_task k t) = tasks k" "sigqs (activate_task k t) = sigqs k" "tasklist (activate_task k t) = tasklist k"
  "current_task (activate_task k t) = t" "procs (activate_task k t) = procs k"
  by (simp_all add: activate_task_def Let_def)

lemma fetch_lowers_queued:
  assumes "signal_fetch k t = (k', Some s)" and "queues_in Q k"
  shows "queues_in Q k'" "queued Q k = Suc (queued Q k')"
proof -
  let ?q = "t_sigq (tasks k t)"
  have k': "k' = k\<lparr>sigqs := (sigqs k)(?q := sigqs k' ?q)\<rparr>" "Suc (length (sigqs k' ?q)) = length (sigqs k ?q)"
    using signal_fetch_shrinks[OF assms(1)] by auto
  have tk: "tasks k' = tasks k" by (subst k'(1)) simp
  then show "queues_in Q k'" using assms(2) by (simp add: queues_in_def)
  have q: "?q \<in> Q" "finite Q" using assms(2) by (auto simp: queues_in_def)
  have oth: "sigqs k' x = sigqs k x" if "x \<noteq> ?q" for x using that by (subst k'(1)) simp
  have "queued Q k = length (sigqs k ?q) + (\<Sum>x\<in>Q - {?q}. length (sigqs k x))"
    unfolding queued_def using q by (rule sum.remove[rotated])
  moreover have "queued Q k' = length (sigqs k' ?q) + (\<Sum>x\<in>Q - {?q}. length (sigqs k' x))"
    unfolding queued_def using q by (rule sum.remove[rotated])
  moreover have "(\<Sum>x\<in>Q - {?q}. length (sigqs k' x)) = (\<Sum>x\<in>Q - {?q}. length (sigqs k x))"
    by (intro sum.cong) (simp_all add: oth)
  ultimately show "queued Q k = Suc (queued Q k')" using k'(2) by simp
qed

lemma reschedule_to_fuel:
  assumes "queues_in Q k" and "queued Q k < n" and "queued Q k < m"
  shows "reschedule_to n k t = reschedule_to m k t"
  using assms
proof (induction "queued Q k" arbitrary: k t n m rule: less_induct)
  case less
  obtain n' m' where nm: "n = Suc n'" "m = Suc m'" using less.prems by (cases n; cases m) auto
  let ?k = "activate_task k t"
  have q: "queues_in Q ?k" "queued Q ?k = queued Q k" using less.prems(1) by (simp_all add: queues_in_def queued_def)
  show ?case
  proof (cases "sigqs ?k (t_sigq (tasks ?k t)) = []")
    case True
    then show ?thesis by (simp add: nm)
  next
    case False
    obtain k' r where f: "signal_fetch ?k t = (k', r)" by fastforce
    show ?thesis
    proof (cases r)
      case None
      then show ?thesis using False f by (simp add: nm)
    next
      case (Some s)
      note low = fetch_lowers_queued[OF f[unfolded Some] q(1)]
      have "agree_upto Q (queued Q k') (\<lambda>k. reschedule_to n' k x) (\<lambda>k. reschedule_to m' k x)" for x
        unfolding agree_upto_def using less low(2) q(2) nm by (auto intro!: less.hyps)
      from signal_exec_agree[OF resched_agree[OF this] low(1)] show ?thesis
        using False f Some by (simp add: nm)
    qed
  qed
qed

section \<open>Round robin\<close>

definition runnable :: "kernel \<Rightarrow> nat \<Rightarrow> bool" where
  "runnable k t \<longleftrightarrow> t_state (tasks k t) \<noteq> TASK_SLEEPING \<or> t_wake_time (tasks k t) \<le> pit_ticks k"

definition wake :: "kernel \<Rightarrow> nat \<Rightarrow> kernel" where
  "wake k t = (if t_state (tasks k t) = TASK_SLEEPING then upd_task t (\<lambda>x. x\<lparr>t_state := TASK_RUNNING\<rparr>) k else k)"

lemma next_entry_split:
  assumes "distinct (xs @ c # ys)"
  shows "next_entry (xs @ c # ys) c = Some (hd (ys @ xs @ [c]))"
proof -
  have "dropWhile (\<lambda>x. x \<noteq> c) (xs @ c # ys) = c # ys" using assms by (induction xs) auto
  then show ?thesis by (auto simp: next_entry_def hd_append split: list.splits)
qed

lemma order_step:
  assumes "ys @ xs @ [c] = p # rest"
  shows "\<exists>xs' ys'. xs @ c # ys = xs' @ p # ys' \<and> ys' @ xs' @ [p] = rest @ [p]"
proof (cases ys)
  case (Cons a as)
  then show ?thesis using assms by (intro exI[of _ "xs @ [c]"] exI[of _ as]) simp
next
  case Nil
  then show ?thesis using assms by (intro exI[of _ "[]"] exI[of _ rest]) (cases xs; auto)
qed

lemma pick_loop_step:
  assumes "distinct (tasklist k)" and "tasklist k = xs @ c # ys"
  shows "pick_loop k c = (let t = hd (ys @ xs @ [c]) in if runnable k t then Some (wake k t, t) else pick_loop k t)"
  using next_entry_split[of xs c ys] assms
  by (subst pick_loop.simps) (auto simp: Let_def runnable_def wake_def)

lemma pick_loop_finds:
  assumes "distinct (tasklist k)" and "tasklist k = xs @ c # ys" and "ys @ xs @ [c] = ps @ t # qs"
    and "\<forall>p \<in> set ps. \<not> runnable k p" and "runnable k t"
  shows "pick_loop k c = Some (wake k t, t)"
  using assms(2-4)
proof (induction ps arbitrary: xs c ys qs)
  case Nil
  then show ?case using pick_loop_step[OF assms(1) Nil(1)] assms(5) by simp
next
  case (Cons p ps)
  obtain xs' ys' where s: "xs @ c # ys = xs' @ p # ys'" "ys' @ xs' @ [p] = (ps @ t # qs) @ [p]"
    using order_step[of ys xs c p "ps @ t # qs"] Cons.prems(2) by auto
  have "pick_loop k p = Some (wake k t, t)"
    using s Cons.prems by (intro Cons.IH[of xs' p ys' "qs @ [p]"]) simp_all
  then show ?case using pick_loop_step[OF assms(1) Cons.prems(1)] Cons.prems(2,3) by simp
qed

lemma next_entry_in: "next_entry l c = Some t \<Longrightarrow> t \<in> set l"
proof -
  assume n: "next_entry l c = Some t"
  have "set (dropWhile (\<lambda>x. x \<noteq> c) l) \<subseteq> set l" by (auto dest: set_dropWhileD)
  then show ?thesis using n by (cases l) (auto simp: next_entry_def split: list.splits if_splits)
qed

lemma pick_loop_runnable: "pick_loop k c = Some r \<Longrightarrow> \<exists>t \<in> set (tasklist k). runnable k t"
  by (erule pick_loop.raw_induct[rotated])
    (auto simp: Let_def bind_eq_Some_conv runnable_def split: if_splits dest!: next_entry_in)

lemma pick_next_round_robin_eq:
  assumes "distinct (tasklist k)" and "tasklist k = xs @ c # ys" and "current_entry k = c"
  shows "pick_next_task k = map_option (\<lambda>t. (wake k t, t)) (find (runnable k) (ys @ xs @ [c]))"
proof (cases "find (runnable k) (ys @ xs @ [c])")
  case None
  then have "\<forall>t \<in> set (tasklist k). \<not> runnable k t" unfolding find_None_iff using assms(2) by auto
  then have "pick_loop k c = None" using pick_loop_runnable[of k c] by (cases "pick_loop k c") auto
  then show ?thesis using None assms(3) by (simp add: pick_next_task_def)
next
  case (Some t)
  then obtain i where i: "i < length (ys @ xs @ [c])" "runnable k t" "t = (ys @ xs @ [c]) ! i"
      "\<forall>j < i. \<not> runnable k ((ys @ xs @ [c]) ! j)"
    unfolding find_Some_iff by blast
  let ?o = "ys @ xs @ [c]"
  have "?o = take i ?o @ t # drop (Suc i) ?o" using i(1,3) by (metis id_take_nth_drop)
  moreover have "\<forall>p \<in> set (take i ?o). \<not> runnable k p"
  proof
    fix p assume "p \<in> set (take i ?o)"
    then obtain j where "j < i" "?o ! j = p" by (metis in_set_conv_nth length_take min_less_iff_conj nth_take)
    then show "\<not> runnable k p" using i(4) by blast
  qed
  ultimately have "pick_loop k c = Some (wake k t, t)" using pick_loop_finds[OF assms(1,2)] i(2) by blast
  then show ?thesis using Some assms(3) by (simp add: pick_next_task_def)
qed

section \<open>Properties\<close>

text \<open>
  C13: The scheduler is round robin. \<open>pick_next_task\<close> returns the first task after the current one, in circular
  order and ending with the current task itself, that is not asleep or whose wake time has come; a sleeping task
  it picks becomes running. When every task sleeps past the current tick the loop never returns (\<open>None\<close>), since
  the interrupts that would advance the tick are off.
\<close>

theorem pick_next_round_robin:
  assumes "distinct (tasklist k)" and "tasklist k = xs @ c # ys" and "current_entry k = c"
  shows "pick_next_task k = map_option (\<lambda>t. (wake k t, t)) (find (runnable k) (ys @ xs @ [c]))"
  using assms by (rule pick_next_round_robin_eq)

definition example_sched :: kernel where
  "example_sched = example_kernel\<lparr>tasklist := [0, 1, 2], current_entry := 1,
     tasks := (\<lambda>_. example_user_task)(2 := example_user_task\<lparr>t_state := TASK_SLEEPING, t_wake_time := 200\<rparr>,
       0 := example_user_task\<lparr>t_state := TASK_SLEEPING, t_wake_time := 100\<rparr>)\<rparr>"

theorem pick_next_round_robin_witness:
  "map_option snd (pick_next_task example_sched) = Some 0"
proof -
  have "tasklist example_sched = [0] @ 1 # [2]" by (simp add: example_sched_def)
  from pick_next_round_robin[OF _ this] show ?thesis
    by (simp add: example_sched_def runnable_def example_kernel_def)
qed



text \<open>
  A stopped task keeps running. \<open>SIGSTOP\<close> puts the task into \<open>TASK_SUSPENDED\<close>, but \<open>pick_next_task\<close> skips
  sleeping tasks only: when the stopped task is next in the list it is picked.
\<close>

lemma sigstop_still_scheduled:
  assumes "tk_pgd (tasks k t) \<noteq> kernel_pgd k" and "s_number s = SIGSTOP"
    and "distinct (tasklist k)" and "tasklist k = xs @ current_entry k # t # ys"
  shows "\<exists>k'. signal_exec resched k t s = Some (Continue k') \<and> t_state (tasks k' t) = TASK_SUSPENDED \<and>
    pick_next_task k' = Some (k', t)"
proof -
  let ?k = "upd_task t (\<lambda>x. x\<lparr>t_state := TASK_SUSPENDED\<rparr>) k"
  have ex: "signal_exec resched k t s = Some (Continue ?k)"
    using assms(1,2) by (simp add: signal_exec_def Let_def SIGKILL_def SIGSTOP_def)
  have "find (runnable ?k) ((t # ys) @ xs @ [current_entry k]) = Some t" by (simp add: runnable_def)
  then have "pick_next_task ?k = Some (wake ?k t, t)"
    using pick_next_round_robin_eq[of ?k xs "current_entry k" "t # ys"] assms(3,4) by simp
  moreover have "wake ?k t = ?k" by (simp add: wake_def)
  ultimately show ?thesis using ex by simp
qed

lemma sigstop_still_scheduled_example:
  "\<exists>k'. signal_exec (\<lambda>_. None) example_sched 2 (example_signal\<lparr>s_number := SIGSTOP\<rparr>) = Some (Continue k') \<and>
     t_state (tasks k' 2) = TASK_SUSPENDED \<and> pick_next_task k' = Some (k', 2)"
  by (rule sigstop_still_scheduled[where xs = "[0]" and ys = "[]"])
    (simp_all add: example_sched_def example_kernel_def example_user_task_def)

end
