(* ===== verification/Descriptors.thy ===== *)
theory Descriptors
  imports Prelude
begin

text \<open>
  Segment descriptors and the task state segment: \<^verbatim>\<open>include/depthos/x86/gdt.h\<close>, \<^verbatim>\<open>include/depthos/x86/asm/gdt.h\<close>,
  \<^verbatim>\<open>include/depthos/x86/gsfsbase.h\<close>, \<^verbatim>\<open>arch/x86/gdt.c\<close> and \<^verbatim>\<open>arch/x86/tss.c\<close>. A descriptor is a 64-bit word; the decoders \<open>desc_base\<close>,
  \<open>desc_limit\<close>, \<open>desc_access\<close> and \<open>desc_flags\<close> read the fields at the places the processor reads them from. Loading the table into the
  processor is inline assembly and is not modelled; the table is the state.
\<close>

section \<open>Macros\<close>

definition GDT_ACCESS_ACCESSED :: u32 where "GDT_ACCESS_ACCESSED = 1"
definition GDT_ACCESS_TYPE_R :: u32 where "GDT_ACCESS_TYPE_R = 0x002"
definition GDT_ACCESS_TYPE_W :: u32 where "GDT_ACCESS_TYPE_W = 0x002"
definition GDT_ACCESS_DC :: u32 where "GDT_ACCESS_DC = 0x004"
definition GDT_ACCESS_TYPE_X :: u32 where "GDT_ACCESS_TYPE_X = 0x008"
definition GDT_ACCESS_S :: u32 where "GDT_ACCESS_S = 0x010"
definition GDT_ACCESS_DPL :: "u32 \<Rightarrow> u32" where "GDT_ACCESS_DPL v = push_bit 5 (v AND 0x3)"
definition GDT_ACCESS_PRESENT :: u32 where "GDT_ACCESS_PRESENT = 0x080"

definition GDT_FLAGS_LONG :: u32 where "GDT_FLAGS_LONG = 0x02"
definition GDT_FLAGS_32 :: u32 where "GDT_FLAGS_32 = 0x04"
definition GDT_FLAGS_G :: u32 where "GDT_FLAGS_G = 0x08"

definition GDT_DESC_BASE_LOW_MASK :: u32 where "GDT_DESC_BASE_LOW_MASK = 0xffff0000"
definition GDT_DESC_BASE_LOW :: "u32 \<Rightarrow> u32" where "GDT_DESC_BASE_LOW v = push_bit 16 (v AND 0x0000ffff)"
definition GDT_DESC_LIMIT_LOW :: "u32 \<Rightarrow> u32" where "GDT_DESC_LIMIT_LOW v = v AND 0x0000ffff"
definition GDT_DESC_LIMIT_HIGH :: "u32 \<Rightarrow> u32" where "GDT_DESC_LIMIT_HIGH v = v AND 0x000f0000"
definition GDT_DESC_BASE_MIDHIGH_MASK :: u32 where "GDT_DESC_BASE_MIDHIGH_MASK = 0xff0000ff"
definition GDT_DESC_BASE_MIDHIGH :: "u32 \<Rightarrow> u32" where
  "GDT_DESC_BASE_MIDHIGH v = (v AND 0xff000000) OR drop_bit 16 (v AND 0x00ff0000)"
definition GDT_DESC_ACCESS :: "u32 \<Rightarrow> u32" where "GDT_DESC_ACCESS v = push_bit 8 (v AND 0xFF)"
definition GDT_DESC_FLAGS :: "u32 \<Rightarrow> u32" where "GDT_DESC_FLAGS v = push_bit 20 (v AND 0xF)"

definition GDT_SEL :: "u32 \<Rightarrow> u32 \<Rightarrow> u32 \<Rightarrow> u32" where
  "GDT_SEL idx tb rpl = (rpl AND 0x3) OR push_bit 2 (tb AND 0x1) OR push_bit 3 (idx AND 0x1ff)"
definition GDT_KERNEL_CODE_SEL :: u32 where "GDT_KERNEL_CODE_SEL = 0x8"
definition GDT_KERNEL_DATA_SEL :: u32 where "GDT_KERNEL_DATA_SEL = 0x10"
definition GDT_USER_CODE_SEL :: u32 where "GDT_USER_CODE_SEL = 0x1b"
definition GDT_USER_DATA_SEL :: u32 where "GDT_USER_DATA_SEL = 0x23"
definition GDT_TSS_SEL :: u32 where "GDT_TSS_SEL = 0x28"
definition GDT_GSBASE_SEL :: "u32 \<Rightarrow> u32" where "GDT_GSBASE_SEL rpl = GDT_SEL 6 0 rpl"
definition GDT_FSBASE_SEL :: "u32 \<Rightarrow> u32" where "GDT_FSBASE_SEL rpl = GDT_SEL 7 0 rpl"
definition GDT_SEL_IDX :: "u32 \<Rightarrow> u32" where "GDT_SEL_IDX sel = drop_bit 3 sel AND 0x1ff"

definition GDT_SIZE :: nat where "GDT_SIZE = 10"

lemmas gdt_macros = GDT_ACCESS_ACCESSED_def GDT_ACCESS_TYPE_R_def GDT_ACCESS_TYPE_W_def GDT_ACCESS_DC_def GDT_ACCESS_TYPE_X_def
  GDT_ACCESS_S_def GDT_ACCESS_DPL_def GDT_ACCESS_PRESENT_def GDT_FLAGS_LONG_def GDT_FLAGS_32_def GDT_FLAGS_G_def
  GDT_DESC_BASE_LOW_MASK_def GDT_DESC_BASE_LOW_def GDT_DESC_LIMIT_LOW_def GDT_DESC_LIMIT_HIGH_def GDT_DESC_BASE_MIDHIGH_MASK_def
  GDT_DESC_BASE_MIDHIGH_def GDT_DESC_ACCESS_def GDT_DESC_FLAGS_def

lemmas gdt_selectors = GDT_SEL_def GDT_KERNEL_CODE_SEL_def GDT_KERNEL_DATA_SEL_def GDT_USER_CODE_SEL_def GDT_USER_DATA_SEL_def
  GDT_TSS_SEL_def GDT_GSBASE_SEL_def GDT_FSBASE_SEL_def GDT_SEL_IDX_def

section \<open>Entries\<close>

record gdt_entry =
  ge_base :: u32
  ge_limit :: u32
  ge_flags :: u32
  ge_access :: u32

definition make_gdt_access :: "u8 \<Rightarrow> bool \<Rightarrow> bool \<Rightarrow> bool \<Rightarrow> bool \<Rightarrow> u32" where
  "make_gdt_access dpl type dc rw exec =
     GDT_ACCESS_PRESENT OR GDT_ACCESS_DPL (ucast dpl) OR (if type then GDT_ACCESS_S else 0) OR (if dc then GDT_ACCESS_DC else 0)
     OR (if rw then GDT_ACCESS_TYPE_R OR GDT_ACCESS_TYPE_W else 0) OR (if exec then GDT_ACCESS_TYPE_X else 0)"

definition make_gdt_flags :: "bool \<Rightarrow> bool \<Rightarrow> bool \<Rightarrow> u32" where
  "make_gdt_flags long_mode bit32 g =
     (if long_mode then GDT_FLAGS_LONG else 0) OR (if bit32 then GDT_FLAGS_32 else 0) OR (if g then GDT_FLAGS_G else 0)"

definition make_gdt_flags16 :: "bool \<Rightarrow> u32" where "make_gdt_flags16 g = make_gdt_flags False False g"
definition make_gdt_flags32 :: "bool \<Rightarrow> u32" where "make_gdt_flags32 g = make_gdt_flags False True g"
definition make_gdt_flags64 :: "bool \<Rightarrow> u32" where "make_gdt_flags64 g = make_gdt_flags True False g"

text \<open>\<open>arch_make_gdt_flags\<close> is \<open>make_gdt_flags32\<close> on i386; the privilege level is an \<open>int\<close> that is converted to \<open>uint8_t\<close>.\<close>

definition make_gdt_entry_code :: "u32 \<Rightarrow> u32 \<Rightarrow> u32 \<Rightarrow> bool \<Rightarrow> bool \<Rightarrow> gdt_entry" where
  "make_gdt_entry_code base limit dpl conform g =
     \<lparr>ge_base = base, ge_limit = limit, ge_flags = make_gdt_flags32 g, ge_access = make_gdt_access (ucast dpl) True conform True True\<rparr>"

definition make_gdt_entry_data :: "u32 \<Rightarrow> u32 \<Rightarrow> u32 \<Rightarrow> bool \<Rightarrow> bool \<Rightarrow> gdt_entry" where
  "make_gdt_entry_data base limit dpl down g =
     \<lparr>ge_base = base, ge_limit = limit, ge_flags = make_gdt_flags32 g, ge_access = make_gdt_access (ucast dpl) True down True False\<rparr>"

text \<open>\<open>sizeof(struct tss)\<close> is 104.\<close>

definition make_gdt_entry_tss :: "u32 \<Rightarrow> u32 \<Rightarrow> gdt_entry" where
  "make_gdt_entry_tss addr dpl =
     \<lparr>ge_base = addr, ge_limit = 104, ge_flags = 0,
      ge_access = GDT_ACCESS_PRESENT OR GDT_ACCESS_DPL dpl OR GDT_ACCESS_TYPE_X OR GDT_ACCESS_ACCESSED\<rparr>"

section \<open>The table\<close>

type_synonym gdt_desc_t = u64

definition make_gdt_desc :: "u32 \<Rightarrow> u32 \<Rightarrow> u32 \<Rightarrow> u32 \<Rightarrow> gdt_desc_t" where
  "make_gdt_desc base limit flags access =
     (let b1 = GDT_DESC_BASE_LOW base OR GDT_DESC_LIMIT_LOW limit;
          b2 = GDT_DESC_BASE_MIDHIGH base OR GDT_DESC_LIMIT_HIGH limit OR GDT_DESC_ACCESS access OR GDT_DESC_FLAGS flags
      in push_bit 32 (ucast b2) OR ucast b1)"

definition x86_gdt_set_entry :: "gdt_desc_t list \<Rightarrow> u32 \<Rightarrow> gdt_entry \<Rightarrow> gdt_desc_t list" where
  "x86_gdt_set_entry gdt_entries idx entry =
     (if unat idx \<ge> GDT_SIZE then gdt_entries
      else gdt_entries[unat idx := make_gdt_desc (ge_base entry) (ge_limit entry) (ge_flags entry) (ge_access entry)])"

text \<open>The masks are 32-bit constants: their complements are zero-extended to the 64 bits of the entry.\<close>

definition x86_gdt_set_base :: "gdt_desc_t list \<Rightarrow> u32 \<Rightarrow> u32 \<Rightarrow> gdt_desc_t list" where
  "x86_gdt_set_base gdt_entries idx base =
     (if unat idx \<ge> GDT_SIZE then gdt_entries
      else
        let e = gdt_entries ! unat idx;
            b1 = ucast ((e AND ucast (NOT GDT_DESC_BASE_LOW_MASK)) OR ucast (GDT_DESC_BASE_LOW base)) :: u32;
            b2 = ucast ((e AND ucast (NOT GDT_DESC_BASE_MIDHIGH_MASK)) OR ucast (GDT_DESC_BASE_MIDHIGH base)) :: u32
        in gdt_entries[unat idx := push_bit 32 (ucast b2) OR ucast b1])"

definition make_gdtr :: "u32 \<Rightarrow> u16 \<Rightarrow> u64" where
  "make_gdtr base limit = ucast limit OR push_bit 16 (ucast base)"

text \<open>The address of the task state segment is an argument; the bases and limits are the constants of the i386 build.\<close>

definition x86_gdt_init :: "u32 \<Rightarrow> gdt_desc_t list" where
  "x86_gdt_init kernel_tss =
     (let g = replicate GDT_SIZE 0;
          g = x86_gdt_set_entry g 0 \<lparr>ge_base = 0, ge_limit = 0, ge_flags = 0, ge_access = 0\<rparr>;
          g = x86_gdt_set_entry g 1 (make_gdt_entry_code 0 0xfffff 0 False True);
          g = x86_gdt_set_entry g 2 (make_gdt_entry_data 0 0xfffff 0 False True);
          g = x86_gdt_set_entry g 3 (make_gdt_entry_code 0 0xfffff 3 False True);
          g = x86_gdt_set_entry g 4 (make_gdt_entry_data 0 0xfffff 3 False True);
          g = x86_gdt_set_entry g 5 (make_gdt_entry_tss kernel_tss 0);
          g = x86_gdt_set_entry g 6 (make_gdt_entry_data 0 0xfffff 3 False True)
      in x86_gdt_set_entry g 7 (make_gdt_entry_data 0 0xfffff 3 False True))"

text \<open>The value of the segment register is read with an instruction and is an argument.\<close>

definition x86_set_gsbase :: "u32 \<Rightarrow> gdt_desc_t list \<Rightarrow> u32 \<Rightarrow> gdt_desc_t list" where
  "x86_set_gsbase sel gdt_entries base = x86_gdt_set_base gdt_entries (GDT_SEL_IDX sel) base"

definition x86_set_fsbase :: "u32 \<Rightarrow> gdt_desc_t list \<Rightarrow> u32 \<Rightarrow> gdt_desc_t list" where
  "x86_set_fsbase sel gdt_entries base = x86_gdt_set_base gdt_entries (GDT_SEL_IDX sel) base"

section \<open>The task state segment\<close>

text \<open>\<open>s_regs\<close> are \<open>eax\<close> to \<open>edi\<close> in order, \<open>s_segs\<close> the segment selectors from \<open>es\<close> to \<open>ldt\<close>.\<close>

record tss =
  s_backlink :: u16
  s_esp0 :: u32
  s_ss0 :: u16
  s_esp1 :: u32
  s_ss1 :: u16
  s_esp2 :: u32
  s_ss2 :: u16
  s_cr3 :: u32
  s_eip :: u32
  s_eflags :: u32
  s_regs :: "u32 list"
  s_segs :: "u16 list"
  s_debug_trap :: bool
  s_bitmap :: u16

definition tss_init :: tss where
  "tss_init = \<lparr>s_backlink = 0, s_esp0 = 0, s_ss0 = 0, s_esp1 = 0, s_ss1 = 0, s_esp2 = 0, s_ss2 = 0, s_cr3 = 0, s_eip = 0, s_eflags = 0,
     s_regs = replicate 8 0, s_segs = replicate 7 0, s_debug_trap = False, s_bitmap = 0\<rparr>"

definition tss_set_stack :: "tss \<Rightarrow> u32 \<Rightarrow> tss" where
  "tss_set_stack kernel_tss stack = kernel_tss\<lparr>s_ss0 := ucast GDT_KERNEL_DATA_SEL, s_esp0 := stack\<rparr>"

section \<open>Descriptors as the processor reads them\<close>

definition desc_base :: "gdt_desc_t \<Rightarrow> u32" where
  "desc_base d = ucast (take_bit 24 (drop_bit 16 d)) OR push_bit 24 (ucast (drop_bit 56 d))"

definition desc_limit :: "gdt_desc_t \<Rightarrow> u32" where
  "desc_limit d = ucast (take_bit 16 d) OR push_bit 16 (ucast (take_bit 4 (drop_bit 48 d)))"

definition desc_access :: "gdt_desc_t \<Rightarrow> u8" where
  "desc_access d = ucast (drop_bit 40 d)"

definition desc_flags :: "gdt_desc_t \<Rightarrow> u32" where
  "desc_flags d = ucast (take_bit 4 (drop_bit 52 d))"

text \<open>The number of bytes a segment covers, and its privilege level.\<close>

definition desc_span :: "gdt_desc_t \<Rightarrow> nat" where
  "desc_span d = (unat (desc_limit d) + 1) * (if desc_flags d AND GDT_FLAGS_G = 0 then 1 else 4096)"

definition desc_dpl :: "gdt_desc_t \<Rightarrow> u8" where
  "desc_dpl d = drop_bit 5 (desc_access d) AND 3"

lemma bit_masks:
  "bit (0x0000ffff :: u32) n \<longleftrightarrow> n < 16"
  "bit (0xff000000 :: u32) n \<longleftrightarrow> 24 \<le> n \<and> n < 32"
  "bit (0x00ff0000 :: u32) n \<longleftrightarrow> 16 \<le> n \<and> n < 24"
  "bit (0x000f0000 :: u32) n \<longleftrightarrow> 16 \<le> n \<and> n < 20"
  "bit (0xffff0000 :: u32) n \<longleftrightarrow> 16 \<le> n \<and> n < 32"
  "bit (0xff0000ff :: u32) n \<longleftrightarrow> n < 8 \<or> 24 \<le> n \<and> n < 32"
  "bit (0xFF :: u32) n \<longleftrightarrow> n < 8"
  "bit (0xF :: u32) n \<longleftrightarrow> n < 4"
proof -
  have e: "(0x0000ffff :: u32) = mask 16" "(0xff000000 :: u32) = push_bit 24 (mask 8)" "(0x00ff0000 :: u32) = push_bit 16 (mask 8)"
    "(0x000f0000 :: u32) = push_bit 16 (mask 4)" "(0xffff0000 :: u32) = push_bit 16 (mask 16)"
    "(0xff0000ff :: u32) = mask 8 OR push_bit 24 (mask 8)" "(0xFF :: u32) = mask 8" "(0xF :: u32) = mask 4"
    by (simp_all add: mask_numeral push_bit_numeral)
  show
    "bit (0x0000ffff :: u32) n \<longleftrightarrow> n < 16"
    "bit (0xff000000 :: u32) n \<longleftrightarrow> 24 \<le> n \<and> n < 32"
    "bit (0x00ff0000 :: u32) n \<longleftrightarrow> 16 \<le> n \<and> n < 24"
    "bit (0x000f0000 :: u32) n \<longleftrightarrow> 16 \<le> n \<and> n < 20"
    "bit (0xffff0000 :: u32) n \<longleftrightarrow> 16 \<le> n \<and> n < 32"
    "bit (0xff0000ff :: u32) n \<longleftrightarrow> n < 8 \<or> 24 \<le> n \<and> n < 32"
    "bit (0xFF :: u32) n \<longleftrightarrow> n < 8"
    "bit (0xF :: u32) n \<longleftrightarrow> n < 4"
    unfolding e by (auto simp: bit_simps)
qed

lemma bit_macros:
  "bit (GDT_DESC_BASE_LOW v) n \<longleftrightarrow> 16 \<le> n \<and> n < 32 \<and> bit v (n - 16)"
  "bit (GDT_DESC_LIMIT_LOW v) n \<longleftrightarrow> n < 16 \<and> bit v n"
  "bit (GDT_DESC_LIMIT_HIGH v) n \<longleftrightarrow> 16 \<le> n \<and> n < 20 \<and> bit v n"
  "bit (GDT_DESC_BASE_MIDHIGH v) n \<longleftrightarrow> 24 \<le> n \<and> n < 32 \<and> bit v n \<or> n < 8 \<and> bit v (n + 16)"
  "bit (GDT_DESC_ACCESS v) n \<longleftrightarrow> 8 \<le> n \<and> n < 16 \<and> bit v (n - 8)"
  "bit (GDT_DESC_FLAGS v) n \<longleftrightarrow> 20 \<le> n \<and> n < 24 \<and> bit v (n - 20)"
  unfolding gdt_macros bit_push_bit_iff bit_drop_bit_eq bit_and_iff bit_or_iff bit_masks by (auto simp: ac_simps)

lemma bit_make_gdt_desc:
  "bit (make_gdt_desc base limit flags access) n \<longleftrightarrow>
     (if n < 16 then bit limit n else if n < 40 then bit base (n - 16) else if n < 48 then bit access (n - 40)
      else if n < 52 then bit limit (n - 32) else if n < 56 then bit flags (n - 52) else n < 64 \<and> bit base (n - 32))"
proof -
  note e = make_gdt_desc_def Let_def bit_macros bit_simps
  consider "n < 16" | "16 \<le> n" "n < 32" | k where "n = 32 + k" by (metis le_Suc_ex not_less)
  then show ?thesis
  proof cases
    case (3 k)
    consider "k < 8" | "8 \<le> k" "k < 16" | "16 \<le> k" "k < 20" | "20 \<le> k" "k < 24" | "24 \<le> k" "k < 32" | "32 \<le> k" by linarith
    then show ?thesis unfolding 3 by cases (simp_all add: e add.commute)
  qed (simp_all add: e)
qed

text \<open>Every field of an encoded descriptor is read back; of the limit 20 bits are kept, of the flags four.\<close>

lemma make_gdt_desc_fields [simp]:
  "desc_base (make_gdt_desc base limit flags access) = base"
  "desc_limit (make_gdt_desc base limit flags access) = take_bit 20 limit"
  "desc_access (make_gdt_desc base limit flags access) = ucast access"
  "desc_flags (make_gdt_desc base limit flags access) = take_bit 4 flags"
  unfolding desc_base_def desc_limit_def desc_access_def desc_flags_def
     apply (rule bit_word_eqI, simp add: bit_make_gdt_desc bit_simps)
     subgoal by auto
    apply (rule bit_word_eqI, simp add: bit_make_gdt_desc bit_simps)
    subgoal by auto
   apply (rule bit_word_eqI, simp add: bit_make_gdt_desc bit_simps)
  apply (rule bit_word_eqI, simp add: bit_make_gdt_desc bit_simps)
  done

section \<open>The segments of the kernel\<close>

lemma gdt_entry_fields:
  fixes dpl :: u32
  assumes "dpl = 0 \<or> dpl = 3"
  shows "ge_access (make_gdt_entry_code b l dpl False g) = (if dpl = 0 then 0x9A else 0xFA)"
    and "ge_access (make_gdt_entry_data b l dpl False g) = (if dpl = 0 then 0x92 else 0xF2)"
    and "ge_flags (make_gdt_entry_code b l dpl False True) = 0xC"
    and "ge_flags (make_gdt_entry_data b l dpl False True) = 0xC"
  using assms
  by (auto simp: make_gdt_entry_code_def make_gdt_entry_data_def make_gdt_access_def make_gdt_flags32_def make_gdt_flags_def gdt_macros
      push_bit_eq_mult)

lemma x86_gdt_init_entries:
  "x86_gdt_init tss =
     [make_gdt_desc 0 0 0 0, make_gdt_desc 0 0xfffff 0xC 0x9A, make_gdt_desc 0 0xfffff 0xC 0x92, make_gdt_desc 0 0xfffff 0xC 0xFA,
      make_gdt_desc 0 0xfffff 0xC 0xF2, make_gdt_desc tss 104 0 0x89, make_gdt_desc 0 0xfffff 0xC 0xF2,
      make_gdt_desc 0 0xfffff 0xC 0xF2, 0, 0]"
proof -
  have b: "ge_base (make_gdt_entry_code b l d c g) = b" "ge_limit (make_gdt_entry_code b l d c g) = l"
    "ge_base (make_gdt_entry_data b l d c g) = b" "ge_limit (make_gdt_entry_data b l d c g) = l" for b l d c g
    by (simp_all add: make_gdt_entry_code_def make_gdt_entry_data_def)
  have r: "replicate GDT_SIZE (0 :: u64) = [0, 0, 0, 0, 0, 0, 0, 0, 0, 0]" by (simp add: GDT_SIZE_def numeral_eq_Suc)
  have t: "make_gdt_entry_tss tss 0 = \<lparr>ge_base = tss, ge_limit = 104, ge_flags = 0, ge_access = 0x89\<rparr>"
    by (simp add: make_gdt_entry_tss_def gdt_macros)
  show ?thesis
    unfolding x86_gdt_init_def r Let_def x86_gdt_set_entry_def t by (simp add: GDT_SIZE_def b gdt_entry_fields)
qed

text \<open>
  After \<open>x86_gdt_init\<close> the code and data selectors of the kernel and of user programs, and those of \<open>gs\<close> and \<open>fs\<close>, name present segments
  that start at 0, cover the whole 4 GB and have the privilege level of the selector; the task selector names a segment
  at the address of the task state segment that covers it.
\<close>

lemma gdt_segments_flat:
  assumes "sel \<in> {GDT_KERNEL_CODE_SEL, GDT_KERNEL_DATA_SEL, GDT_USER_CODE_SEL, GDT_USER_DATA_SEL, GDT_GSBASE_SEL 3, GDT_FSBASE_SEL 3}"
  shows "let d = x86_gdt_init tss ! unat (GDT_SEL_IDX sel); t = x86_gdt_init tss ! unat (GDT_SEL_IDX GDT_TSS_SEL)
    in desc_base d = 0 \<and> desc_span d = 2 ^ 32 \<and> bit (desc_access d) 7 \<and> desc_dpl d = ucast (sel AND 3) \<and>
       (bit (desc_access d) 3 \<longleftrightarrow> sel \<in> {GDT_KERNEL_CODE_SEL, GDT_USER_CODE_SEL}) \<and>
       desc_base t = tss \<and> 104 \<le> desc_span t \<and> bit (desc_access t) 7 \<and> desc_dpl t = 0"
proof -
  have i: "GDT_SEL_IDX GDT_KERNEL_CODE_SEL = 1" "GDT_SEL_IDX GDT_KERNEL_DATA_SEL = 2" "GDT_SEL_IDX GDT_USER_CODE_SEL = 3"
    "GDT_SEL_IDX GDT_USER_DATA_SEL = 4" "GDT_SEL_IDX GDT_TSS_SEL = 5" "GDT_SEL_IDX (GDT_GSBASE_SEL 3) = 6" "GDT_SEL_IDX (GDT_FSBASE_SEL 3) = 7"
    by (simp_all add: gdt_selectors push_bit_eq_mult)
  have span: "desc_span (make_gdt_desc b 0xfffff 0xC a) = 2 ^ 32" "desc_span (make_gdt_desc b 104 0 a) = 105" for b a
    by (simp_all add: desc_span_def GDT_FLAGS_G_def)
  from assms show ?thesis
    unfolding Let_def x86_gdt_init_entries
    by (elim insertE emptyE) (simp_all add: i span desc_dpl_def gdt_selectors bit_numeral_rec push_bit_eq_mult)
qed

lemma gdt_segments_flat_example:
  "let d = x86_gdt_init 0x1000 ! unat (GDT_SEL_IDX GDT_USER_CODE_SEL) in desc_span d = 2 ^ 32 \<and> desc_dpl d = 3"
  using gdt_segments_flat[of GDT_USER_CODE_SEL "0x1000"] by (simp add: Let_def GDT_USER_CODE_SEL_def)

lemma bit_set_base:
  assumes "unat idx < GDT_SIZE" and "length g = GDT_SIZE"
  shows "bit (x86_gdt_set_base g idx base ! unat idx) n \<longleftrightarrow>
     (if n < 16 then bit (g ! unat idx) n else if n < 40 then bit base (n - 16) else if n < 56 then bit (g ! unat idx) (n - 32)
      else n < 64 \<and> bit base (n - 32))"
proof -
  let ?e = "g ! unat idx"
  define b1 b2 where "b1 = (ucast ((?e AND ucast (NOT GDT_DESC_BASE_LOW_MASK)) OR ucast (GDT_DESC_BASE_LOW base)) :: u32)"
    and "b2 = (ucast ((?e AND ucast (NOT GDT_DESC_BASE_MIDHIGH_MASK)) OR ucast (GDT_DESC_BASE_MIDHIGH base)) :: u32)"
  note masks = GDT_DESC_BASE_LOW_MASK_def GDT_DESC_BASE_MIDHIGH_MASK_def
  have b1: "bit b1 k \<longleftrightarrow> (if k < 16 then bit ?e k else k < 32 \<and> bit base (k - 16))" for k
    unfolding b1_def masks bit_or_iff bit_and_iff bit_unsigned_iff bit_not_iff bit_masks bit_macros by (auto simp: bit_simps)
  have b2: "bit b2 k \<longleftrightarrow> (if k < 8 then bit base (k + 16) else if k < 24 then bit ?e k else k < 32 \<and> bit base k)" for k
    unfolding b2_def masks bit_or_iff bit_and_iff bit_unsigned_iff bit_not_iff bit_masks bit_macros by (auto simp: bit_simps)
  have e: "x86_gdt_set_base g idx base ! unat idx = push_bit 32 (ucast b2) OR ucast b1"
    using assms by (simp add: x86_gdt_set_base_def Let_def b1_def b2_def)
  consider "n < 32" | k where "n = 32 + k" by (metis le_Suc_ex not_less)
  then show ?thesis
    unfolding e by cases (auto simp: bit_simps b1 b2 add.commute)
qed

text \<open>
  \<open>x86_gdt_set_base\<close>, which the switch to another task calls for \<open>gs\<close> and \<open>fs\<close>, stores the base and leaves the other entries alone, but it
  builds the upper half of the descriptor from the lower half: the access byte becomes the upper byte of the old limit
  and the flags and the upper part of the limit become the lowest byte of the old base. On the table of \<open>x86_gdt_init\<close> the segment
  shrinks from 4 GB to 64 KB and turns from a data segment into a code segment.
\<close>

lemma gdt_set_base_damages:
  assumes "unat idx < GDT_SIZE" and "length g = GDT_SIZE"
  shows "let g' = x86_gdt_set_base g idx base; e = g ! unat idx; e' = g' ! unat idx
    in desc_base e' = base \<and> desc_access e' = ucast (drop_bit 8 (desc_limit e)) \<and> desc_flags e' = take_bit 4 (drop_bit 4 (desc_base e)) \<and>
       desc_limit e' = take_bit 16 (desc_limit e) OR push_bit 16 (take_bit 4 (desc_base e)) \<and>
       (\<forall>i. i \<noteq> unat idx \<longrightarrow> g' ! i = g ! i) \<and>
       (g = x86_gdt_init tss \<and> idx = GDT_SEL_IDX (GDT_GSBASE_SEL 3) \<longrightarrow>
          desc_span e = 2 ^ 32 \<and> desc_span e' = 2 ^ 16 \<and> desc_access e = 0xF2 \<and> desc_access e' = 0xFF)"
proof -
  let ?e = "g ! unat idx" and ?e' = "x86_gdt_set_base g idx base ! unat idx"
  note b = bit_set_base[OF assms]
  have 1: "desc_base ?e' = base"
    by (rule bit_word_eqI) (auto simp: desc_base_def b bit_simps)
  have 2: "desc_access ?e' = ucast (drop_bit 8 (desc_limit ?e))"
    by (rule bit_word_eqI) (auto simp: desc_access_def desc_limit_def b bit_simps)
  have 3: "desc_flags ?e' = take_bit 4 (drop_bit 4 (desc_base ?e))"
    by (rule bit_word_eqI) (auto simp: desc_flags_def desc_base_def b bit_simps)
  have 4: "desc_limit ?e' = take_bit 16 (desc_limit ?e) OR push_bit 16 (take_bit 4 (desc_base ?e))"
    by (rule bit_word_eqI) (auto simp: desc_limit_def desc_base_def b bit_simps)
  have 5: "x86_gdt_set_base g idx base ! i = g ! i" if "i \<noteq> unat idx" for i
    using that by (auto simp: x86_gdt_set_base_def Let_def)
  have 6: "desc_span ?e = 2 ^ 32 \<and> desc_span ?e' = 2 ^ 16 \<and> desc_access ?e = 0xF2 \<and> desc_access ?e' = 0xFF"
    if g: "g = x86_gdt_init tss" and i: "idx = GDT_SEL_IDX (GDT_GSBASE_SEL 3)"
  proof -
    have "unat idx = 6" unfolding i by (simp add: gdt_selectors push_bit_eq_mult)
    then have "?e = make_gdt_desc 0 0xfffff 0xC 0xF2" unfolding g x86_gdt_init_entries by simp
    then show ?thesis unfolding desc_span_def 2 3 4 by (simp add: GDT_FLAGS_G_def)
  qed
  show ?thesis unfolding Let_def using 1 2 3 4 5 6 by blast
qed

lemma gdt_set_base_damages_example:
  "let g = x86_gdt_init 0x1000; e' = x86_gdt_set_base g 6 0x12345678 ! 6 in desc_base e' = 0x12345678 \<and> desc_span e' = 2 ^ 16"
proof -
  have "length (x86_gdt_init 0x1000) = GDT_SIZE" by (simp add: x86_gdt_init_entries GDT_SIZE_def)
  moreover have "GDT_SEL_IDX (GDT_GSBASE_SEL 3) = 6" by (simp add: gdt_selectors push_bit_eq_mult)
  ultimately show ?thesis
    using gdt_set_base_damages[of 6 "x86_gdt_init 0x1000" "0x12345678" "0x1000"] by (simp add: GDT_SIZE_def Let_def)
qed

end
