(* ===== verification/Proc.thy ===== *)
theory Proc
  imports Sched Descriptors
begin

text \<open>
  Processes and threads, \<^verbatim>\<open>kernel/proc.c\<close>: creation of tasks with their initial stacks, process identifiers,
  \<open>fork\<close>, \<open>exit\<close>, \<open>waitpid\<close>, threads, and the working directory.

  Fields that a constructor leaves uninitialised come from the argument \<open>raw\<close>, the previous contents of the
  heap block. Opening a file, loading a program and cloning a page directory are arguments, with their effect on
  user memory: a cloned directory starts with a copy of the user memory of the original.
\<close>

section \<open>Stacks\<close>

definition KSTACK_SIZE :: u32 where "KSTACK_SIZE = PAGE_SIZE * 10"
definition STACK_SIZE :: u32 where "STACK_SIZE = PAGE_SIZE * 100"

text \<open>
  The pushes of \<open>_task_init_kstack\<close> in program order, and the reading of the resulting stack as
  \<open>struct registers\<close>: the last word pushed is the first field.
\<close>

definition kstack_pushes :: "u32 \<Rightarrow> u32 \<Rightarrow> u32 \<Rightarrow> u32 \<Rightarrow> u32 \<Rightarrow> u32 \<Rightarrow> u32 \<Rightarrow> u32 list" where
  "kstack_pushes kernel_esp entry selcode seldata selgs selfs esp =
     [seldata, esp, 0x202, selcode, entry, 0, 0, 0] @
     (let tmp = kernel_esp - 4 * 8
      in [0, 0, 0, 0, tmp, 0, 0, 0, seldata, seldata, selgs, selfs])"

fun regs_of_pushes :: "u32 list \<Rightarrow> registers" where
  "regs_of_pushes [a_ss, a_useresp, a_eflags, a_cs, a_eip, a_trace, a_err, a_int, a_eax, a_ecx, a_edx, a_ebx, a_esp, a_ebp,
     a_esi, a_edi, a_ds, a_es, a_gs, a_fs] =
     \<lparr>r_fs = a_fs, r_gs = a_gs, r_es = a_es, r_ds = a_ds, r_edi = a_edi, r_esi = a_esi, r_ebp = a_ebp, r_esp = a_esp,
      r_ebx = a_ebx, r_edx = a_edx, r_ecx = a_ecx, r_eax = a_eax, r_int_num = a_int, r_err_code = a_err,
      r_trace_frame = a_trace, r_eip = a_eip, r_cs = a_cs, r_eflags = a_eflags, r_useresp = a_useresp, r_ss = a_ss\<rparr>"
| "regs_of_pushes _ = undefined"

definition task_init_kstack_sel :: "kernel \<Rightarrow> nat \<Rightarrow> u32 \<Rightarrow> u32 \<Rightarrow> u32 \<Rightarrow> u32 \<Rightarrow> u32 \<Rightarrow> kernel" where
  "task_init_kstack_sel k t selcode seldata selgs selfs esp =
     upd_task t (\<lambda>x. x\<lparr>t_regs := regs_of_pushes
       (kstack_pushes (t_kernel_esp x) (t_entry x) selcode seldata selgs selfs esp)\<rparr>) k"

definition task_init_kstack :: "kernel \<Rightarrow> nat \<Rightarrow> u32 \<Rightarrow> kernel" where
  "task_init_kstack k t esp =
     task_init_kstack_sel k t GDT_USER_CODE_SEL GDT_USER_DATA_SEL (GDT_GSBASE_SEL 3) (GDT_FSBASE_SEL 3) esp"

definition kernel_task_init_kstack :: "kernel \<Rightarrow> nat \<Rightarrow> u32 \<Rightarrow> kernel" where
  "kernel_task_init_kstack k t esp =
     task_init_kstack_sel k t GDT_KERNEL_CODE_SEL GDT_KERNEL_DATA_SEL (GDT_GSBASE_SEL 0) (GDT_FSBASE_SEL 0) esp"

text \<open>
  \<open>task_init_stack\<close>: the strings of the environment and of the arguments, then the pointers. Strings are given
  as their bytes without the terminator; \<open>memcpy(esp, s, strlen(s) + 1)\<close> copies the terminator too.
\<close>

primrec store_bytes :: "mem \<Rightarrow> u32 \<Rightarrow> u8 list \<Rightarrow> mem" where
  "store_bytes m a [] = m"
| "store_bytes m a (b # bs) = store_bytes (m(a := b)) (a + 1) bs"

fun push_strings :: "mem \<Rightarrow> u32 \<Rightarrow> u8 list list \<Rightarrow> mem \<times> u32 \<times> u32 list" where
  "push_strings m esp [] = (m, esp, [])"
| "push_strings m esp (s # ss) =
     (let esp = esp - of_nat (length s + 1);
          m = store_bytes m esp (s @ [0]);
          (m, esp', ps) = push_strings m esp ss
      in (m, esp', esp # ps))"

definition push_word :: "mem \<times> u32 \<Rightarrow> u32 \<Rightarrow> mem \<times> u32" where
  "push_word me v = (let esp = snd me - 4 in (store32 (fst me) esp v, esp))"

definition push_words :: "mem \<times> u32 \<Rightarrow> u32 list \<Rightarrow> mem \<times> u32" where
  "push_words me ws = foldl push_word me ws"

definition init_stack_image :: "mem \<Rightarrow> u32 \<Rightarrow> u8 list list option \<Rightarrow> u8 list list option \<Rightarrow> mem \<times> u32" where
  "init_stack_image m esp argv envp =
     (let (m, esp, envs) = (case envp of None \<Rightarrow> (m, esp, []) | Some e \<Rightarrow> push_strings m esp e);
          (m, esp, args) = (case argv of None \<Rightarrow> (m, esp, []) | Some a \<Rightarrow> push_strings m esp a);
          me = push_words (m, esp) [0, 0, 0];
          me = push_words me (if envp = None then [0] else envs);
          me = push_words me [0];
          me = push_words me (rev args)
      in push_words me [of_nat (length args)])"

definition task_init_stack :: "kernel \<Rightarrow> nat \<Rightarrow> u8 list list option \<Rightarrow> u8 list list option \<Rightarrow> kernel" where
  "task_init_stack k t argv envp =
     (let pgd = tk_pgd (tasks k t);
          (m, esp) = init_stack_image (umem k pgd) (r_useresp (t_regs (tasks k t))) argv envp
      in upd_task t (\<lambda>x. x\<lparr>t_regs := (t_regs x)\<lparr>r_useresp := esp\<rparr>\<rparr>) (k\<lparr>umem := (umem k)(pgd := m)\<rparr>))"

section \<open>File tables\<close>

definition task_setup_filetable :: "nat option \<Rightarrow> nat option list" where
  "task_setup_filetable tty_file = (replicate 256 None)[0 := tty_file, 1 := tty_file, 2 := tty_file]"

definition task_clone_filetable :: "nat option list \<Rightarrow> nat option list \<Rightarrow> nat option list" where
  "task_clone_filetable dst src =
     for_upto 256 (\<lambda>i d. if src ! i \<noteq> None then d[i := src ! i] else d) dst"

section \<open>Tasks\<close>

definition create_dummy_task :: "kernel \<Rightarrow> task \<Rightarrow> u32 \<Rightarrow> kernel \<times> nat" where
  "create_dummy_task k raw kstack =
     (let t = next_obj k; q = Suc t;
          h0 = \<lparr>h_entry = 0, h_restorer = 0, h_flags = 0, h_mask = 0\<rparr>;
          task = raw\<lparr>t_gs_base := 0, t_fs_base := 0, t_areas := [], t_sigq := q, t_mask := 0, t_mask_current := 0,
            t_signal_handlers := replicate (nat NSIG) h0, t_mmap_bump := 0, t_kernel_stack := kstack,
            t_kernel_esp := kstack + KSTACK_SIZE\<rparr>
      in (k\<lparr>tasks := (tasks k)(t := task), sigqs := (sigqs k)(q := []), next_obj := Suc q\<rparr>, t))"

text \<open>\<open>area\<close> is the area that \<open>vma_create\<close> makes for the stack.\<close>

definition create_task :: "kernel \<Rightarrow> task \<Rightarrow> u32 \<Rightarrow> nat \<Rightarrow> u32 \<Rightarrow> ptr \<Rightarrow> bool \<Rightarrow> u32 \<Rightarrow> kernel \<times> nat" where
  "create_task k raw kstack area entry pgd kern esp =
     (let (k, t) = create_dummy_task k raw kstack;
          k = upd_task t (\<lambda>x. x\<lparr>tk_pgd := pgd, t_entry := entry, t_areas := t_areas x @ [area]\<rparr>) k
      in (if kern then kernel_task_init_kstack k t esp else task_init_kstack k t esp, t))"

definition create_kernel_task :: "kernel \<Rightarrow> task \<Rightarrow> u32 \<Rightarrow> nat option \<Rightarrow> u32 \<Rightarrow> kernel \<times> nat" where
  "create_kernel_task k raw kstack tty entry =
     (let (k, t) = create_dummy_task k raw kstack;
          f = next_obj k;
          k = k\<lparr>ftabs := (ftabs k)(f := task_setup_filetable tty), next_obj := Suc f\<rparr>;
          k = upd_task t (\<lambda>x. x\<lparr>tk_pgd := kernel_pgd k, t_gs_base := 0, t_fs_base := 0, t_entry := entry, t_ftab := f,
                t_regs := regs_of_pushes (kstack_pushes (t_kernel_esp x) entry 0x08 0x10 (GDT_GSBASE_SEL 0) (GDT_FSBASE_SEL 0) 0)\<rparr>) k
      in (k, t))"

text \<open>
  \<open>new_pgd\<close> is the directory that \<open>clone_pgd\<close> returns. The child shares the parent's signal queue and its areas;
  the saved registers are at the same offset of the copied kernel stack.
\<close>

definition fork_task :: "kernel \<Rightarrow> nat \<Rightarrow> task \<Rightarrow> u32 \<Rightarrow> ptr \<Rightarrow> nat option \<Rightarrow> kernel \<times> nat" where
  "fork_task k parent raw kstack new_pgd tty =
     (let (k, t) = create_dummy_task k raw kstack;
          p = tasks k parent;
          f = next_obj k;
          ft = task_clone_filetable (task_setup_filetable tty) (ftabs k (t_ftab p));
          k = k\<lparr>ftabs := (ftabs k)(f := ft), next_obj := Suc f, umem := (umem k)(new_pgd := umem k (tk_pgd p))\<rparr>;
          k = upd_task t (\<lambda>x. x\<lparr>t_name := t_name p, t_state := t_state p, t_thid := t_thid p, tk_pgd := new_pgd,
                t_entry := t_entry p, t_process := t_process p, t_areas := t_areas p, t_mmap_bump := t_mmap_bump p,
                t_mask := t_mask p, t_sigq := t_sigq p, t_mask_current := t_mask_current p,
                t_signal_handlers := t_signal_handlers p, t_parent := Some parent, t_ftab := f,
                t_regs := (t_regs p)\<lparr>r_eax := 0\<rparr>, t_fs_base := t_fs_base p, t_gs_base := t_gs_base p\<rparr>) k
      in (k, t))"

section \<open>Process identifiers\<close>

definition generate_pid :: "kernel \<Rightarrow> kernel \<times> int" where
  "generate_pid k =
     (case free_pid k of
        pid # rest \<Rightarrow> (k\<lparr>free_pid := rest\<rparr>, pid)
      | [] \<Rightarrow> (k\<lparr>current_pid := current_pid k + 1\<rparr>, current_pid k))"

text \<open>A process without a parent has no list of siblings to leave: a fault.\<close>

definition process_delete :: "kernel \<Rightarrow> nat \<Rightarrow> kernel option" where
  "process_delete k p =
     (case p_parent (procs k p) of
        None \<Rightarrow> None
      | Some pp \<Rightarrow>
          let k = upd_proc pp (\<lambda>x. x\<lparr>p_children := remove1 p (p_children x)\<rparr>) k
          in Some (k\<lparr>free_pid := free_pid k @ [p_pid (procs k p)]\<rparr>))"

section \<open>System calls\<close>

definition sys_fork :: "kernel \<Rightarrow> task \<Rightarrow> u32 \<Rightarrow> ptr \<Rightarrow> nat option \<Rightarrow> process \<Rightarrow> (kernel \<times> int) option" where
  "sys_fork k raw kstack new_pgd tty rawp =
     (case t_process (cur k) of
        None \<Rightarrow> None
      | Some pp \<Rightarrow>
          let (k, th) = fork_task k (current_task k) raw kstack new_pgd tty;
              p = next_obj k;
              k = upd_task th (\<lambda>x. x\<lparr>t_process := Some p\<rparr>) (k\<lparr>next_obj := Suc p\<rparr>);
              (k, pid) = generate_pid k;
              proc = rawp\<lparr>p_pid := pid, p_state := PROCESS_RUNNING, p_ftab := t_ftab (tasks k th), p_threads := [th],
                p_children := [], p_filepath := p_filepath (procs k pp), p_cwd := p_cwd (procs k pp), p_parent := Some pp\<rparr>;
              k = k\<lparr>procs := (procs k)(p := proc)\<rparr>;
              k = upd_proc pp (\<lambda>x. x\<lparr>p_children := p_children x @ [p]\<rparr>) k;
              k = sched_add k th;
              k = upd_task th (\<lambda>x. x\<lparr>t_regs := (t_regs x)\<lparr>r_eax := 0\<rparr>\<rparr>) k
          in Some (k, pid))"

text \<open>
  Programs are started with their file already opened and a loader \<open>elf_loadf\<close>, which fills the user memory of the
  task and sets its directory, name and entry point.
\<close>

definition process_spawn ::
    "bool \<Rightarrow> (kernel \<Rightarrow> nat \<Rightarrow> kernel) \<Rightarrow> kernel \<Rightarrow> string \<Rightarrow> nat option \<Rightarrow> task \<Rightarrow> u32 \<Rightarrow> nat option \<Rightarrow> nat \<Rightarrow> process \<Rightarrow>
     u8 list list option \<Rightarrow> u8 list list option \<Rightarrow> kernel \<times> nat option" where
  "process_spawn file_found elf_loadf k filepath parent raw kstack tty area rawp argv envp =
     (if \<not> file_found then (k, None)
      else
        let p = next_obj k;
            (k, pid) = generate_pid (k\<lparr>next_obj := Suc p\<rparr>);
            (k, th) = create_dummy_task k raw kstack;
            f = next_obj k;
            k = k\<lparr>ftabs := (ftabs k)(f := task_setup_filetable tty), next_obj := Suc f\<rparr>;
            k = upd_task th (\<lambda>x. x\<lparr>t_thid := 0, t_process := Some p, t_parent := None, t_ftab := f\<rparr>) k;
            k = elf_loadf k th;
            k = upd_task th (\<lambda>x. x\<lparr>t_areas := t_areas x @ [area]\<rparr>) k;
            k = task_init_kstack k th VIRT_BASE;
            k = task_init_stack k th argv envp;
            k = sched_add k th;
            proc = rawp\<lparr>p_pid := pid, p_filepath := filepath, p_cwd := ''/'', p_state := PROCESS_RUNNING, p_parent := parent,
              p_ftab := f, p_threads := [th], p_children := []\<rparr>;
            k = k\<lparr>procs := (procs k)(p := proc)\<rparr>;
            k = (case parent of None \<Rightarrow> k | Some pp \<Rightarrow> upd_proc pp (\<lambda>x. x\<lparr>p_children := p_children x @ [p]\<rparr>) k)
        in (k, Some p))"

text \<open>
  \<open>execve\<close>: \<open>probe\<close> is the error of \<open>elf_probe\<close> (\<open>None\<close> when the file is a program, \<open>Some 0\<close> when it is not one),
  and \<open>NULL\<close> arguments are \<open>None\<close>. The area made for the new stack is dropped with the old ones.
\<close>

definition ENOEXEC :: int where "ENOEXEC = 14"

definition sys_execve ::
    "int option \<Rightarrow> (kernel \<Rightarrow> nat \<Rightarrow> kernel) \<Rightarrow> (kernel \<Rightarrow> nat \<Rightarrow> kernel option) \<Rightarrow> kernel \<Rightarrow>
     u8 list list option \<Rightarrow> u8 list list option \<Rightarrow> (int + kernel) option" where
  "sys_execve probe elf_load switch k argv envp =
     (case probe of
        Some errno \<Rightarrow> Some (Inl (if errno \<noteq> 0 then - errno else - ENOEXEC))
      | None \<Rightarrow>
          if argv = None \<or> envp = None then Some (Inl (- EFAULT))
          else
            let t = current_task k; k = elf_load k t
            in case t_process (tasks k t) of
                 None \<Rightarrow> None
               | Some p \<Rightarrow>
                   let k = upd_proc p (\<lambda>x. x\<lparr>p_filepath := t_name (tasks k t)\<rparr>) k;
                       k = task_init_kstack k t VIRT_BASE;
                       q = next_obj k;
                       k = k\<lparr>sigqs := (sigqs k)(q := []), next_obj := Suc q\<rparr>;
                       k = upd_task t (\<lambda>x. x\<lparr>t_areas := [], t_sigq := q,
                             t_signal_handlers := replicate (nat NSIG) \<lparr>h_entry = 0, h_restorer = 0, h_flags = 0, h_mask = 0\<rparr>\<rparr>) k;
                       k = task_init_stack k t argv envp
                   in map_option Inr (switch k t))"

definition WAIT_EXIT :: "u32 \<Rightarrow> u32" where "WAIT_EXIT ec = push_bit 8 (ec AND 0xff)"
definition WAIT_SIG :: "int \<Rightarrow> u32" where "WAIT_SIG sig = word_of_int sig AND 0x7f"

text \<open>
  One scan of the children; when none of them has ended the caller yields and scans again.
\<close>

datatype wait_result = Wait_error int | Wait_yield | Wait_done kernel int u32

definition ended :: "kernel \<Rightarrow> nat \<Rightarrow> bool" where
  "ended k c \<longleftrightarrow> p_state (procs k c) = PROCESS_EXITED \<or> p_state (procs k c) = PROCESS_DEAD"

definition waitpid_scan :: "kernel \<Rightarrow> nat \<Rightarrow> wait_result option" where
  "waitpid_scan k p =
     (case find (ended k) (p_children (procs k p)) of
        None \<Rightarrow> Some Wait_yield
      | Some c \<Rightarrow>
          let child = procs k c;
              st = (if p_state child = PROCESS_EXITED then WAIT_EXIT (p_exit_code child) else WAIT_SIG (p_signal child));
              pid = p_pid child
          in map_option (\<lambda>k. Wait_done k pid st) (process_delete k c))"

definition sys_waitpid :: "kernel \<Rightarrow> int \<Rightarrow> bool \<Rightarrow> wait_result option" where
  "sys_waitpid k pid wstatus_null =
     (if pid \<noteq> - 1 then Some (Wait_error (- ENOSYS))
      else if wstatus_null then Some (Wait_error (- EFAULT))
      else t_process (cur k) \<bind> waitpid_scan k)"

definition sys_exit :: "(kernel \<Rightarrow> kernel option) \<Rightarrow> kernel \<Rightarrow> u32 \<Rightarrow> outcome option" where
  "sys_exit resched k status =
     (case t_process (cur k) of
        None \<Rightarrow> map_option Switched (resched (upd_task (current_task k) (\<lambda>x. x\<lparr>t_state := TASK_DYING\<rparr>) k))
      | Some p \<Rightarrow> process_kill resched (upd_proc p (\<lambda>x. x\<lparr>p_state := PROCESS_EXITED, p_exit_code := status\<rparr>) k) p)"

definition thread_create :: "kernel \<Rightarrow> task \<Rightarrow> u32 \<Rightarrow> nat \<Rightarrow> u32 \<Rightarrow> u32 \<Rightarrow> (kernel \<times> nat) option" where
  "thread_create k raw kstack area entry stack =
     (case t_process (cur k) of
        None \<Rightarrow> None
      | Some p \<Rightarrow>
          let pgd = tk_pgd (cur k);
              (k, th) = create_task k raw kstack area entry pgd False (stack + PAGE_SIZE)
          in if p_threads (procs k p) = [] then None
             else
               let thid = t_thid (tasks k (last (p_threads (procs k p)))) + 1;
                   k = upd_task th (\<lambda>x. x\<lparr>t_ftab := p_ftab (procs k p), t_thid := thid, t_process := Some p\<rparr>) k;
                   k = upd_proc p (\<lambda>x. x\<lparr>p_threads := p_threads x @ [th]\<rparr>) k
               in Some (k, th))"

definition sys_thcreate :: "kernel \<Rightarrow> task \<Rightarrow> u32 \<Rightarrow> nat \<Rightarrow> u32 \<Rightarrow> u32 \<Rightarrow> bool \<Rightarrow> (kernel \<times> int) option" where
  "sys_thcreate k raw kstack area entry stack join =
     (if t_process (cur k) = None then Some (k, - 1)
      else do {
        (k, th) \<leftarrow> thread_create k raw kstack area entry stack;
        let k = (if \<not> join then sched_add k th else k);
        Some (k, t_thid (tasks k th)) })"

text \<open>
  The loop of \<open>sys_thkill\<close> over the threads of the process, which starts only when there is more than one (with
  a single thread \<open>process_kill\<close> does not come back). A switch ends it.
\<close>

primrec thkill_loop :: "(kernel \<Rightarrow> kernel option) \<Rightarrow> nat \<Rightarrow> int \<Rightarrow> nat list \<Rightarrow> kernel \<Rightarrow> outcome option" where
  "thkill_loop resched p thid [] k = Some (Continue k)"
| "thkill_loop resched p thid (th # rest) k =
     (if t_thid (tasks k th) = thid
      then let k = upd_proc p (\<lambda>x. x\<lparr>p_threads := remove1 th (p_threads x)\<rparr>) k
           in if t_thid (cur k) = thid
              then map_option Switched (resched (upd_task (current_task k) (\<lambda>x. x\<lparr>t_state := TASK_DYING\<rparr>) k))
              else thkill_loop resched p thid rest (thread_destroy k th)
      else thkill_loop resched p thid rest k)"

definition sys_thkill :: "(kernel \<Rightarrow> kernel option) \<Rightarrow> kernel \<Rightarrow> int \<Rightarrow> outcome option" where
  "sys_thkill resched k thid =
     (case t_process (cur k) of
        None \<Rightarrow> Some (Continue k)
      | Some p \<Rightarrow>
          if length (p_threads (procs k p)) = 1 then process_kill resched k p
          else thkill_loop resched p thid (p_threads (procs k p)) k)"

text \<open>
  \<^verbatim>\<open>pit_ticks + seconds * 1e3 + nanos / 1e6\<close> is computed in floating point and truncated; the conversion is
  defined for values below 2^32.
\<close>

definition sys_sleep :: "(kernel \<Rightarrow> kernel option) \<Rightarrow> kernel \<Rightarrow> u32 \<Rightarrow> u32 \<Rightarrow> outcome option" where
  "sys_sleep resched k seconds nanos =
     (let wake = of_nat (unat (pit_ticks k) + unat seconds * 1000 + unat nanos div 1000000)
      in map_option Switched
           (resched (upd_task (current_task k) (\<lambda>x. x\<lparr>t_state := TASK_SLEEPING, t_wake_time := wake\<rparr>) k)))"

definition sys_prctl :: "(kernel \<Rightarrow> nat \<Rightarrow> kernel option) \<Rightarrow> kernel \<Rightarrow> int \<Rightarrow> u32 \<Rightarrow> outcome option" where
  "sys_prctl switch k opt address =
     (if opt = 1 then map_option Switched (switch (upd_task (current_task k) (\<lambda>x. x\<lparr>t_gs_base := address\<rparr>) k) (current_task k))
      else if opt = 2 then map_option Switched (switch (upd_task (current_task k) (\<lambda>x. x\<lparr>t_fs_base := address\<rparr>) k) (current_task k))
      else Some (Continue k))"

definition sys_getpid :: "kernel \<Rightarrow> int option" where
  "sys_getpid k = map_option (\<lambda>p. p_pid (procs k p)) (t_process (cur k))"

definition sys_getppid :: "kernel \<Rightarrow> int option" where
  "sys_getppid k =
     (if t_parent (cur k) = None then Some 0
      else do { p \<leftarrow> t_process (cur k); pp \<leftarrow> p_parent (procs k p); Some (p_pid (procs k pp)) })"

text \<open>\<open>vfs_resolve\<close> and \<open>vfs_open\<close> are arguments: the resolved path, and whether it names a directory.\<close>

definition sys_chdir :: "(string \<Rightarrow> string \<Rightarrow> string) \<Rightarrow> (string \<Rightarrow> bool option) \<Rightarrow> kernel \<Rightarrow> string \<Rightarrow> kernel \<times> int" where
  "sys_chdir resolve open_is_dir k path =
     (case t_process (cur k) of
        None \<Rightarrow> (k, - EFAULT)
      | Some p \<Rightarrow>
          let cwd = resolve path (p_cwd (procs k p))
          in case open_is_dir cwd of
               None \<Rightarrow> (k, - ENOENT)
             | Some False \<Rightarrow> (k, - ENOTDIR)
             | Some True \<Rightarrow> (upd_proc p (\<lambda>x. x\<lparr>p_cwd := cwd\<rparr>) k, 0))"

text \<open>The bytes that are written to the buffer, or the error.\<close>

definition sys_getcwd :: "kernel \<Rightarrow> u32 \<Rightarrow> u32 \<Rightarrow> int + string" where
  "sys_getcwd k buf siz =
     (case t_process (cur k) of
        None \<Rightarrow> Inl (- EFAULT)
      | Some p \<Rightarrow>
          if buf = 0 \<or> buf \<ge> VIRT_BASE \<or> siz = 0 then Inl (- EFAULT)
          else if length (p_cwd (procs k p)) + 1 > unat siz then Inl (- ERANGE)
          else Inr (p_cwd (procs k p)))"

section \<open>Process identifiers are unique\<close>

definition pid_inv :: "kernel \<Rightarrow> nat list \<Rightarrow> bool" where
  "pid_inv k L \<longleftrightarrow> distinct L \<and> (\<forall>p \<in> set L. p < next_obj k) \<and>
     distinct (map (\<lambda>p. p_pid (procs k p)) L @ free_pid k) \<and>
     (\<forall>pid \<in> set (map (\<lambda>p. p_pid (procs k p)) L @ free_pid k). pid < current_pid k) \<and>
     (\<forall>p \<in> set L. distinct (p_children (procs k p)) \<and>
        (\<forall>c \<in> set (p_children (procs k p)). c \<in> set L \<and> p_parent (procs k c) = Some p))"

text \<open>
  The steps that change the set of processes: \<open>L\<close> lists the processes that have not been deleted. A program
  loader touches neither the process table nor the identifiers.
\<close>

definition loader_ok :: "(kernel \<Rightarrow> nat \<Rightarrow> kernel) \<Rightarrow> bool" where
  "loader_ok load \<longleftrightarrow> (\<forall>k t. procs (load k t) = procs k \<and> next_obj (load k t) = next_obj k \<and>
     current_pid (load k t) = current_pid k \<and> free_pid (load k t) = free_pid k)"

inductive proc_step :: "kernel \<times> nat list \<Rightarrow> kernel \<times> nat list \<Rightarrow> bool" where
  fork: "sys_fork k raw kstack new_pgd tty rawp = Some (k', pid) \<Longrightarrow> t_process (cur k) = Some pp \<Longrightarrow> pp \<in> set L \<Longrightarrow>
    proc_step (k, L) (k', (next_obj k + 3) # L)"
| spawn: "process_spawn found load k path parent raw kstack tty area rawp argv envp = (k', Some p) \<Longrightarrow> loader_ok load \<Longrightarrow>
    (\<forall>pp. parent = Some pp \<longrightarrow> pp \<in> set L) \<Longrightarrow> proc_step (k, L) (k', p # L)"
| reap: "waitpid_scan k pp = Some (Wait_done k' pid st) \<Longrightarrow> pp \<in> set L \<Longrightarrow> find (ended k) (p_children (procs k pp)) = Some c \<Longrightarrow>
    proc_step (k, L) (k', remove1 c L)"

lemma generate_pid_frame:
  "generate_pid k = (k', pid) \<Longrightarrow> procs k' = procs k \<and> next_obj k' = next_obj k \<and> tasks k' = tasks k \<and> ftabs k' = ftabs k \<and>
     umem k' = umem k \<and> tasklist k' = tasklist k \<and> sigqs k' = sigqs k \<and> current_task k' = current_task k"
  by (auto simp: generate_pid_def split: list.splits)

lemma generate_pid_fresh:
  assumes "generate_pid k = (k', pid)" and "distinct (ps @ free_pid k)" and "\<forall>x \<in> set (ps @ free_pid k). x < current_pid k"
  shows "distinct ((pid # ps) @ free_pid k') \<and> (\<forall>x \<in> set ((pid # ps) @ free_pid k'). x < current_pid k')"
  using assms by (fastforce simp: generate_pid_def split: list.splits)

text \<open>A new process \<open>q\<close> with parent \<open>pp\<close>, registered under its parent.\<close>

lemma pid_inv_new:
  assumes inv: "pid_inv k L" and pid: "generate_pid (k\<lparr>next_obj := n\<rparr>) = (k1, pid)"
    and q: "next_obj k \<le> q" "q < next_obj k'" "next_obj k \<le> next_obj k'"
    and procs: "procs k' = (let ps = (procs k)(q := proc) in case parent of None \<Rightarrow> ps
        | Some pp \<Rightarrow> ps(pp := (ps pp)\<lparr>p_children := p_children (ps pp) @ [q]\<rparr>))"
    and proc: "p_pid proc = pid" "p_children proc = []" "p_parent proc = parent" and pp: "\<forall>pp. parent = Some pp \<longrightarrow> pp \<in> set L"
    and pids: "free_pid k' = free_pid k1" "current_pid k' = current_pid k1"
  shows "pid_inv k' (q # L)"
proof -
  have qL: "q \<notin> set L" using inv q(1) by (auto simp: pid_inv_def)
  have pid_of: "p_pid (procs k' p) = p_pid (procs k p)" "p_parent (procs k' p) = p_parent (procs k p)" if "p \<in> set L" for p
    using that qL by (auto simp: procs Let_def split: option.splits)
  have new: "p_pid (procs k' q) = pid" "p_parent (procs k' q) = parent" "p_children (procs k' q) = []"
    using proc qL pp by (auto simp: procs Let_def split: option.splits)
  have ch: "p_children (procs k' p) = p_children (procs k p) @ (if parent = Some p then [q] else [])" if "p \<in> set L" for p
    using that qL by (auto simp: procs Let_def split: option.splits)
  have map: "map (\<lambda>p. p_pid (procs k' p)) (q # L) = pid # map (\<lambda>p. p_pid (procs k p)) L"
    using new pid_of by simp
  have fp: "distinct ((pid # map (\<lambda>p. p_pid (procs k p)) L) @ free_pid k') \<and>
      (\<forall>x \<in> set ((pid # map (\<lambda>p. p_pid (procs k p)) L) @ free_pid k'). x < current_pid k')"
    using generate_pid_fresh[OF pid, of "map (\<lambda>p. p_pid (procs k p)) L"] inv unfolding pids pid_inv_def by simp
  have notin: "q \<notin> set (p_children (procs k p))" if "p \<in> set L" for p using inv that qL by (auto simp: pid_inv_def)
  have tree: "distinct (p_children (procs k' p)) \<and>
      (\<forall>c \<in> set (p_children (procs k' p)). c \<in> set (q # L) \<and> p_parent (procs k' c) = Some p)" if p: "p \<in> set (q # L)" for p
  proof (cases "p = q")
    case True
    then show ?thesis using new(3) by simp
  next
    case False
    then have pL: "p \<in> set L" using p by simp
    then have "distinct (p_children (procs k p))" "\<forall>c \<in> set (p_children (procs k p)). c \<in> set L \<and> p_parent (procs k c) = Some p"
      using inv by (auto simp: pid_inv_def)
    then show ?thesis using ch[OF pL] notin[OF pL] pid_of(2) new(2) by auto
  qed
  have "\<forall>p \<in> set (q # L). p < next_obj k'" "distinct (q # L)" using inv q qL by (auto simp: pid_inv_def)
  then show ?thesis unfolding pid_inv_def map using fp tree by blast
qed

lemma create_dummy_task_frame:
  "create_dummy_task k raw ks = (k', t) \<Longrightarrow> t = next_obj k \<and> next_obj k' = next_obj k + 2 \<and> procs k' = procs k \<and>
     free_pid k' = free_pid k \<and> current_pid k' = current_pid k \<and> ftabs k' = ftabs k \<and> umem k' = umem k \<and>
     tasklist k' = tasklist k \<and> current_task k' = current_task k \<and> (\<forall>x. x \<noteq> t \<longrightarrow> tasks k' x = tasks k x)"
  by (auto simp: create_dummy_task_def Let_def)

lemma fork_task_frame:
  assumes "fork_task k parent raw ks pg tty = (k', t)"
  shows "t = next_obj k" "next_obj k' = next_obj k + 3" "procs k' = procs k" "free_pid k' = free_pid k"
    "current_pid k' = current_pid k" "tasklist k' = tasklist k" "current_task k' = current_task k"
    "x \<noteq> t \<Longrightarrow> tasks k' x = tasks k x"
  using assms create_dummy_task_frame[of k raw ks "fst (create_dummy_task k raw ks)" "snd (create_dummy_task k raw ks)"]
  by (auto simp: fork_task_def Let_def split: prod.splits)

lemma generate_pid_cong:
  assumes "free_pid k2 = free_pid k" and "current_pid k2 = current_pid k"
  shows "free_pid (fst (generate_pid k2)) = free_pid (fst (generate_pid k))"
    "current_pid (fst (generate_pid k2)) = current_pid (fst (generate_pid k))" "snd (generate_pid k2) = snd (generate_pid k)"
  using assms by (auto simp: generate_pid_def split: list.splits)

lemma sys_fork_parts:
  assumes f: "sys_fork k raw ks pg tty rawp = Some (k', pid)" and pp: "t_process (cur k) = Some pp" and ne: "pp < next_obj k"
  defines "q \<equiv> next_obj k + 3"
  shows "\<exists>k1 proc. generate_pid (k\<lparr>next_obj := q\<rparr>) = (k1, pid) \<and> free_pid k' = free_pid k1 \<and> current_pid k' = current_pid k1 \<and>
    next_obj k' = Suc q \<and> p_pid proc = pid \<and> p_children proc = [] \<and> p_parent proc = Some pp \<and> p_threads proc = [next_obj k] \<and>
    procs k' = (let ps = (procs k)(q := proc) in ps(pp := (ps pp)\<lparr>p_children := p_children (ps pp) @ [q]\<rparr>))"
proof -
  obtain k1 th where ft: "fork_task k (current_task k) raw ks pg tty = (k1, th)" by fastforce
  note fr = fork_task_frame[OF ft]
  define k2 where "k2 = upd_task th (\<lambda>x. x\<lparr>t_process := Some q\<rparr>) (k1\<lparr>next_obj := Suc q\<rparr>)"
  obtain k3 pid' where gp: "generate_pid k2 = (k3, pid')" by fastforce
  have k2: "free_pid k2 = free_pid k" "current_pid k2 = current_pid k" "procs k2 = procs k" "next_obj k2 = Suc q"
    using fr by (simp_all add: k2_def)
  note g3 = generate_pid_frame[OF gp]
  obtain k4 pid4 where gp4: "generate_pid (k\<lparr>next_obj := q\<rparr>) = (k4, pid4)" by fastforce
  have same: "free_pid k3 = free_pid k4" "current_pid k3 = current_pid k4" "pid' = pid4"
    using generate_pid_cong[of k2 "k\<lparr>next_obj := q\<rparr>"] k2 gp gp4 by auto
  have res: "pid = pid'" "procs k' = (let ps = (procs k)(q := rawp\<lparr>p_pid := pid', p_state := PROCESS_RUNNING,
        p_ftab := t_ftab (tasks k3 th), p_threads := [th], p_children := [], p_filepath := p_filepath (procs k3 pp),
        p_cwd := p_cwd (procs k3 pp), p_parent := Some pp\<rparr>) in ps(pp := (ps pp)\<lparr>p_children := p_children (ps pp) @ [q]\<rparr>))"
      "free_pid k' = free_pid k3" "current_pid k' = current_pid k3" "next_obj k' = next_obj k3"
    using f pp gp g3 k2 unfolding sys_fork_def by (auto simp: ft fr(2) q_def[symmetric] k2_def[symmetric] sched_add_def Let_def)
  then show ?thesis using gp4 same k2 g3 fr(1) by (intro exI[of _ k4] exI) auto
qed

lemma find_first: "find P xs = Some x \<Longrightarrow> x \<in> set xs \<and> P x"
  by (auto simp: find_Some_iff)

lemma proc_step_inv: "proc_step s s' \<Longrightarrow> pid_inv (fst s) (snd s) \<Longrightarrow> pid_inv (fst s') (snd s')"
proof (induction rule: proc_step.induct)
  case (fork k raw ks pg tty rawp k' pid pp L)
  then have inv: "pid_inv k L" by simp
  have "pp < next_obj k" using fork(3) inv by (simp add: pid_inv_def)
  from sys_fork_parts[OF fork(1,2) this] fork(3) show ?case
    by (auto intro!: pid_inv_new[OF inv, where parent = "Some pp"] simp: Let_def)
next
  case (spawn found load k path parent raw ks tty area rawp argv envp k' p L)
  then have inv: "pid_inv k L" by simp
  define q where "q = next_obj k"
  obtain k1 pid where gp: "generate_pid (k\<lparr>next_obj := Suc q\<rparr>) = (k1, pid)" by fastforce
  note g = generate_pid_frame[OF gp]
  obtain k2 th where cd: "create_dummy_task k1 raw ks = (k2, th)" by fastforce
  note c = create_dummy_task_frame[OF cd]
  have ld: "procs (load k t) = procs k" "next_obj (load k t) = next_obj k"
      "current_pid (load k t) = current_pid k" "free_pid (load k t) = free_pid k" for k t
    using spawn(2) by (simp_all add: loader_ok_def)
  let ?proc = "rawp\<lparr>p_pid := pid, p_filepath := path, p_cwd := ''/'', p_state := PROCESS_RUNNING, p_parent := parent,
              p_ftab := next_obj k2, p_threads := [th], p_children := []\<rparr>"
  have res: "p = q" "free_pid k' = free_pid k1" "current_pid k' = current_pid k1" "next_obj k' = q + 4"
      "procs k' = (let ps = (procs k)(q := ?proc) in case parent of None \<Rightarrow> ps
        | Some pp \<Rightarrow> ps(pp := (ps pp)\<lparr>p_children := p_children (ps pp) @ [q]\<rparr>))"
    using spawn(1) gp cd g c unfolding process_spawn_def
    by (auto simp: q_def[symmetric] Let_def ld task_init_kstack_def task_init_kstack_sel_def task_init_stack_def
        sched_add_def upd_proc_def split: option.splits prod.splits if_splits)
  show ?case unfolding res(1) fst_conv snd_conv
    by (rule pid_inv_new[OF inv gp _ _ _ res(5) _ _ _ _ res(2,3)]) (use spawn(3) res(4) in \<open>auto simp: q_def\<close>)
next
  case (reap k pp k' pid st L c)
  then have inv: "pid_inv k L" by simp
  have c: "c \<in> set (p_children (procs k pp))" using find_first[OF reap(3)] by simp
  then have par: "p_parent (procs k c) = Some pp" "c \<in> set L" using inv reap(2) by (auto simp: pid_inv_def)
  have k': "k' = (upd_proc pp (\<lambda>x. x\<lparr>p_children := remove1 c (p_children x)\<rparr>) k)\<lparr>free_pid := free_pid k @ [p_pid (procs k c)]\<rparr>"
    using reap(1,3) par(1) by (auto simp: waitpid_scan_def process_delete_def Let_def)
  have pid_of: "p_pid (procs k' p) = p_pid (procs k p)" "p_parent (procs k' p) = p_parent (procs k p)"
      "p_children (procs k' p) = (if p = pp then remove1 c (p_children (procs k p)) else p_children (procs k p))" for p
    by (auto simp: k')
  have oth: "c \<notin> set (p_children (procs k p))" if "p \<in> set L" "p \<noteq> pp" for p
    using inv that par(1) by (auto simp: pid_inv_def)
  obtain xs ys where L: "L = xs @ c # ys" "c \<notin> set xs" using split_list_first[OF par(2)] by blast
  have rm: "remove1 c L = xs @ ys" "c \<notin> set ys" using L inv by (auto simp: pid_inv_def remove1_append)
  have perm: "distinct (map (\<lambda>p. p_pid (procs k p)) (xs @ ys) @ free_pid k @ [p_pid (procs k c)])"
    "\<forall>x \<in> set (map (\<lambda>p. p_pid (procs k p)) (xs @ ys) @ free_pid k @ [p_pid (procs k c)]). x < current_pid k"
    using inv unfolding pid_inv_def L by auto
  have f: "current_pid k' = current_pid k" "next_obj k' = next_obj k" "free_pid k' = free_pid k @ [p_pid (procs k c)]"
    by (simp_all add: k')
  have tree: "distinct (p_children (procs k' p)) \<and>
      (\<forall>d \<in> set (p_children (procs k' p)). d \<in> set (xs @ ys) \<and> p_parent (procs k' d) = Some p)" if "p \<in> set (xs @ ys)" for p
  proof -
    have p: "p \<in> set L" using that L by auto
    then have "distinct (p_children (procs k p))" "\<forall>d \<in> set (p_children (procs k p)). d \<in> set L \<and> p_parent (procs k d) = Some p"
      using inv by (auto simp: pid_inv_def)
    then show ?thesis using oth[OF p] L by (cases "p = pp") (auto simp: pid_of)
  qed
  have "distinct (xs @ ys) \<and> (\<forall>p \<in> set (xs @ ys). p < next_obj k)" using inv L by (auto simp: pid_inv_def)
  then show ?case
    unfolding fst_conv snd_conv rm(1) pid_inv_def f pid_of(1) using perm tree by blast
qed

section \<open>Tasks only leave the list when rescheduling\<close>

definition shrinks :: "(kernel \<Rightarrow> kernel option) \<Rightarrow> bool" where
  "shrinks f \<longleftrightarrow> (\<forall>k k'. f k = Some k' \<longrightarrow> set (tasklist k') \<subseteq> set (tasklist k))"

lemma kill_threads_subset: "set (tasklist (kill_threads k ts)) \<subseteq> set (tasklist k)"
proof (induction ts arbitrary: k)
  case (Cons a ts)
  have "set (tasklist (thread_destroy k a)) \<subseteq> set (tasklist k)"
    by (simp add: thread_destroy_def sched_remove_def Let_def set_remove1_subset)
  then show ?case
    using Cons.IH[of "thread_destroy k a"] Cons.IH[of "upd_task a (\<lambda>x. x\<lparr>t_state := TASK_DYING\<rparr>) k"] by auto
qed simp

lemma process_kill_subset:
  "shrinks f \<Longrightarrow> process_kill f k p = Some out \<Longrightarrow> set (tasklist (outcome_state out)) \<subseteq> set (tasklist k)"
  using kill_threads_subset[of k "p_threads (procs k p)"]
  by (fastforce simp: process_kill_def shrinks_def Let_def split: if_splits)

lemma kill_with_signal_subset:
  assumes "shrinks f" and "kill_with_signal f k t n = Some out"
  shows "set (tasklist (outcome_state out)) \<subseteq> set (tasklist k)"
proof (cases "t_process (tasks k t)")
  case None
  have "set (tasklist k') \<subseteq> set (tasklist k)"
    if "f (upd_task t (\<lambda>x. x\<lparr>t_state := TASK_DYING\<rparr>) k) = Some k'" for k'
    using assms(1) that by (fastforce simp: shrinks_def)
  then show ?thesis using assms(2) None by (auto simp: kill_with_signal_def Let_def split: if_splits)
next
  case (Some p)
  then show ?thesis using process_kill_subset[OF assms(1)] assms(2) by (fastforce simp: kill_with_signal_def)
qed

lemma signal_exec_subset:
  assumes "shrinks f" and "signal_exec f k t s = Some out"
  shows "set (tasklist (outcome_state out)) \<subseteq> set (tasklist k)"
  using assms(2) kill_with_signal_subset[OF assms(1)]
  by (auto simp: signal_exec_def default_signal_handler_def Let_def split: if_splits prod.splits)

lemma pick_keeps_tasklist: "pick_next_task k = Some (k', t) \<Longrightarrow> tasklist k' = tasklist k \<and> current_task k' = current_task k"
  using pick_woken by fastforce

lemma resched_shrinks:
  assumes "\<And>k t k'. switch k t = Some k' \<Longrightarrow> set (tasklist k') \<subseteq> set (tasklist k)"
  shows "shrinks (resched_with switch)"
  unfolding shrinks_def
proof (intro allI impI)
  fix k k' assume r: "resched_with switch k = Some k'"
  show "set (tasklist k') \<subseteq> set (tasklist k)"
  proof (cases "sched_preempt k")
    case False
    then show ?thesis using r assms by (simp add: resched_with_def)
  next
    case True
    then obtain k1 t where p: "pick_next_task k = Some (k1, t)"
      and s: "switch ((if t_state (cur k1) = TASK_DYING then thread_destroy k1 (current_task k1) else k1)\<lparr>current_entry := t\<rparr>) t = Some k'"
      using r by (auto simp: resched_with_def bind_eq_Some_conv Let_def)
    show ?thesis using assms[OF s] pick_keeps_tasklist[OF p] set_remove1_subset[of "current_task k1" "tasklist k1"]
      by (auto simp: thread_destroy_def sched_remove_def Let_def split: if_splits)
  qed
qed

lemma reschedule_to_subset: "reschedule_to n k t = Some k' \<Longrightarrow> set (tasklist k') \<subseteq> set (tasklist k)"
proof (induction n arbitrary: k t k')
  case (Suc n)
  note sh = resched_shrinks[OF Suc.IH]
  obtain k1 r where f: "signal_fetch (activate_task k t) t = (k1, r)" by fastforce
  show ?case
  proof (cases "sigqs k (t_sigq (tasks k t)) = [] \<or> r = None")
    case True
    then have "k' = activate_task k t" using Suc.prems f signal_fetch_none[of "activate_task k t" t k1] by (auto simp: Let_def split: if_splits)
    then show ?thesis by simp
  next
    case False
    then obtain s out where r: "r = Some s" and ex: "signal_exec (resched_with (reschedule_to n)) k1 t s = Some out" "k' = outcome_state out"
      using Suc.prems f by (auto simp: Let_def split: option.splits)
    have "tasklist k1 = tasklist k"
    proof -
      obtain q where "k1 = (activate_task k t)\<lparr>sigqs := q\<rparr>" using signal_fetch_shrinks[OF f[unfolded r]] by blast
      then show ?thesis by simp
    qed
    then show ?thesis using signal_exec_subset[OF sh ex(1)] ex(2) by simp
  qed
qed simp

lemma clone_filetable_nth:
  assumes "length dst = 256" and "i < 256"
  shows "task_clone_filetable dst src ! i = (if src ! i \<noteq> None then src ! i else dst ! i)"
proof -
  have "n \<le> 256 \<Longrightarrow> length (for_upto n (\<lambda>i d. if src ! i \<noteq> None then d[i := src ! i] else d) dst) = 256 \<and>
      (\<forall>j < 256. for_upto n (\<lambda>i d. if src ! i \<noteq> None then d[i := src ! i] else d) dst ! j =
        (if j < n \<and> src ! j \<noteq> None then src ! j else dst ! j))" for n
    by (induction n) (use assms(1) in \<open>auto simp: nth_list_update_if less_Suc_eq\<close>)
  from this[of 256] show ?thesis using assms(2) by (simp add: task_clone_filetable_def)
qed

lemma fork_task_child:
  assumes "fork_task k parent raw ks pg tty = (k', t)" and "parent \<noteq> next_obj k"
  shows "t_regs (tasks k' t) = (t_regs (tasks k parent))\<lparr>r_eax := 0\<rparr> \<and> tk_pgd (tasks k' t) = pg \<and> t_ftab (tasks k' t) = next_obj k + 2 \<and>
    umem k' pg = umem k (tk_pgd (tasks k parent)) \<and>
    ftabs k' (next_obj k + 2) = task_clone_filetable (task_setup_filetable tty) (ftabs k (t_ftab (tasks k parent)))"
proof -
  obtain k1 t1 where cd: "create_dummy_task k raw ks = (k1, t1)" by fastforce
  note c = create_dummy_task_frame[OF cd]
  then have p: "tasks k1 parent = tasks k parent" using assms(2) by simp
  show ?thesis using assms(1) c p unfolding fork_task_def cd by (auto simp: Let_def)
qed

lemma sys_fork_tasks:
  assumes f: "sys_fork k raw ks pg tty rawp = Some (k', pid)" and pp: "t_process (cur k) = Some pp"
  defines "c \<equiv> next_obj k"
  shows "current_task k < c \<Longrightarrow> t_regs (tasks k' c) = (t_regs (cur k))\<lparr>r_eax := 0\<rparr> \<and> tk_pgd (tasks k' c) = pg \<and>
      umem k' pg = umem k (tk_pgd (cur k)) \<and> tasklist k' = tasklist k @ [c] \<and> t_state (tasks k' c) = TASK_STARTING \<and>
      t_process (tasks k' c) = Some (c + 3) \<and> tasks k' (current_task k) = tasks k (current_task k) \<and>
      ftabs k' (t_ftab (tasks k' c)) = task_clone_filetable (task_setup_filetable tty) (ftabs k (t_ftab (cur k)))"
proof -
  assume ct: "current_task k < c"
  obtain k1 th where ft: "fork_task k (current_task k) raw ks pg tty = (k1, th)" by fastforce
  note fr = fork_task_frame[OF ft]
  have ch: "t_regs (tasks k1 th) = (t_regs (cur k))\<lparr>r_eax := 0\<rparr> \<and> tk_pgd (tasks k1 th) = pg \<and> t_ftab (tasks k1 th) = c + 2 \<and>
    umem k1 pg = umem k (tk_pgd (cur k)) \<and>
    ftabs k1 (c + 2) = task_clone_filetable (task_setup_filetable tty) (ftabs k (t_ftab (cur k)))"
    using fork_task_child[OF ft] ct by (simp add: cur_def c_def)
  obtain k3 pid' where gp: "generate_pid (upd_task th (\<lambda>x. x\<lparr>t_process := Some (next_obj k1)\<rparr>) (k1\<lparr>next_obj := Suc (next_obj k1)\<rparr>)) = (k3, pid')"
    by fastforce
  note g = generate_pid_frame[OF gp]
  have th: "th = c" "next_obj k1 = c + 3" using fr(1,2) by (simp_all add: c_def)
  have k': "tasks k' = (tasks k3)(c := (tasks k3 c)\<lparr>t_state := TASK_STARTING, t_regs := (t_regs (tasks k3 c))\<lparr>r_eax := 0\<rparr>\<rparr>)"
      "umem k' = umem k3" "ftabs k' = ftabs k3" "tasklist k' = tasklist k3 @ [c]"
    using f pp gp unfolding sys_fork_def by (simp_all add: ft Let_def sched_add_def th(1)) (auto simp: th)
  have "tasks k3 = (tasks k1)(c := (tasks k1 c)\<lparr>t_process := Some (c + 3)\<rparr>)" "umem k3 = umem k1" "ftabs k3 = ftabs k1"
      "tasklist k3 = tasklist k1"
    using g by (simp_all add: th)
  then show ?thesis using ch ct fr(6,8) by (simp add: k' th)
qed

section \<open>Properties\<close>

text \<open>
  C15: Process identifiers are unique. Along any sequence of \<open>fork\<close>, program starts and reaped children, two
  different processes that have not been deleted never have the same identifier, although identifiers of deleted
  processes are used again.
\<close>

theorem pids_unique:
  assumes "proc_step\<^sup>*\<^sup>* (k, L) (k', L')" and "pid_inv k L" and "p \<in> set L'" and "q \<in> set L'" and "p \<noteq> q"
  shows "p_pid (procs k' p) \<noteq> p_pid (procs k' q)"
proof -
  have "pid_inv (fst s') (snd s')" if "proc_step\<^sup>*\<^sup>* s s'" "pid_inv (fst s) (snd s)" for s s'
    using that by (induction rule: rtranclp_induct) (auto dest: proc_step_inv)
  from this[OF assms(1)] have "pid_inv k' L'" using assms(2) by simp
  then have "distinct (map (\<lambda>p. p_pid (procs k' p)) L')" by (simp add: pid_inv_def)
  then show ?thesis using assms(3-5) by (auto simp: distinct_map dest: inj_onD)
qed

lemma example_pid_inv: "pid_inv example_kernel [0]"
  by (simp add: pid_inv_def example_kernel_def)

lemma example_fork_eq: "\<exists>k'. sys_fork example_kernel example_user_task 0xC0600000 0xC0700000 (Some 7) (procs example_kernel 0) = Some (k', 2)"
  by (simp add: sys_fork_def cur_def example_kernel_def example_user_task_def fork_task_def create_dummy_task_def
      generate_pid_def upd_task_def Let_def)

theorem pids_unique_witness:
  "\<exists>k'. sys_fork example_kernel example_user_task 0xC0600000 0xC0700000 (Some 7) (procs example_kernel 0) = Some (k', 2) \<and>
     p_pid (procs k' 4) \<noteq> p_pid (procs k' 0)"
proof -
  obtain k' where f: "sys_fork example_kernel example_user_task 0xC0600000 0xC0700000 (Some 7) (procs example_kernel 0) = Some (k', 2)"
    using example_fork_eq by blast
  have "proc_step (example_kernel, [0]) (k', (next_obj example_kernel + 3) # [0])"
    by (rule proc_step.fork[OF f, of 0]) (simp_all add: cur_def example_kernel_def example_user_task_def)
  then have "proc_step\<^sup>*\<^sup>* (example_kernel, [0]) (k', [4, 0])" by (simp add: example_kernel_def r_into_rtranclp)
  from pids_unique[OF this example_pid_inv, of 4 0] f show ?thesis by auto
qed




definition example_family :: kernel where
  "example_family = example_kernel\<lparr>
     tasks := (\<lambda>_. example_user_task)(1 := example_user_task\<lparr>t_process := None, tk_pgd := 0xC0300000\<rparr>,
       2 := example_user_task\<lparr>t_thid := 1\<rparr>),
     procs := (procs example_kernel)(0 := (procs example_kernel 0)\<lparr>p_parent := Some 5, p_threads := [0, 2]\<rparr>),
     tasklist := [0, 1, 2]\<rparr>"

lemma example_exit:
  "\<exists>k'. sys_exit (reschedule 1) example_family 3 = Some (Switched k') \<and> tasklist k' = [1]"
proof -
  define k0 where "k0 = upd_proc 0 (\<lambda>x. x\<lparr>p_state := PROCESS_EXITED, p_exit_code := 3\<rparr>) example_family"
  define k1 where "k1 = kill_threads k0 [0, 2]"
  have k1: "tasklist k1 = [] @ 0 # [1]" "current_entry k1 = 0" "sched_preempt k1" "current_task k1 = 0"
      "t_state (tasks k1 1) = TASK_RUNNING" "t_state (tasks k1 0) = TASK_DYING" "sigqs k1 = (\<lambda>_. [])"
    by (simp_all add: k1_def k0_def example_family_def example_kernel_def example_user_task_def thread_destroy_def sched_remove_def Let_def)
  have "find (runnable k1) ([1] @ [] @ [0]) = Some 1" using k1(5) by (simp add: runnable_def)
  then have "pick_next_task k1 = Some (k1, 1)"
    using pick_next_round_robin_eq[of k1 "[]" 0 "[1]"] k1 by (simp add: wake_def)
  then obtain k' where "resched_with (reschedule_to 1) k1 = Some k'" "tasklist k' = [1]"
    using k1 by (simp add: resched_with_def cur_def thread_destroy_def sched_remove_def Let_def)
  moreover have "sys_exit (reschedule 1) example_family 3 = map_option Switched (resched_with (reschedule_to 1) k1)"
    by (simp add: sys_exit_def process_kill_def reschedule_def k1_def k0_def cur_def Let_def example_family_def
        example_kernel_def example_user_task_def del: kill_threads.simps)
  ultimately show ?thesis by simp
qed


text \<open>
  Killing one thread of a process releases the page directory that the other threads run in: threads share the
  directory of their process, and \<open>thread_destroy\<close> frees it.
\<close>

lemma thkill_frees_shared_directory:
  assumes "t_process (cur k) = Some p" and "p_threads (procs k p) = [current_task k, b]" and "b \<noteq> current_task k"
    and "t_thid (tasks k b) = thid" and "t_thid (cur k) \<noteq> thid" and "tk_pgd (tasks k b) = tk_pgd (cur k)"
  shows "\<exists>k'. sys_thkill resched k thid = Some (Continue k') \<and> current_task k' = current_task k \<and>
    tk_pgd (cur k') \<in> set (pgd_freed k')"
  using assms by (simp add: sys_thkill_def cur_def thread_destroy_def sched_remove_def Let_def)

lemma thkill_frees_shared_directory_example:
  "\<exists>k'. sys_thkill (\<lambda>_. None) example_family 1 = Some (Continue k') \<and> tk_pgd (cur k') \<in> set (pgd_freed k')"
proof -
  have "\<exists>k'. sys_thkill (\<lambda>_. None) example_family 1 = Some (Continue k') \<and> current_task k' = current_task example_family \<and>
    tk_pgd (cur k') \<in> set (pgd_freed k')"
    by (rule thkill_frees_shared_directory[where p = 0 and b = 2])
      (simp_all add: example_family_def example_kernel_def example_user_task_def cur_def)
  then show ?thesis by blast
qed

section \<open>The initial user stack\<close>

definition bytes_at :: "mem \<Rightarrow> u32 \<Rightarrow> u8 list \<Rightarrow> bool" where
  "bytes_at m a bs \<longleftrightarrow> (\<forall>j < length bs. m (a + of_nat j) = bs ! j)"

definition string_space :: "u8 list list \<Rightarrow> nat" where
  "string_space ss = sum_list (map (\<lambda>s. length s + 1) ss)"

lemma store_bytes_apply:
  assumes "unat a + length bs \<le> 4294967296"
  shows "store_bytes m a bs b = (if unat a \<le> unat b \<and> unat b < unat a + length bs then bs ! (unat b - unat a) else m b)"
  using assms
proof (induction bs arbitrary: m a)
  case (Cons x bs)
  show ?case
  proof (cases "bs = []")
    case True
    have "(unat a \<le> unat b \<and> unat b < unat a + 1) \<longleftrightarrow> b = a" by (auto simp: word_unat_eq_iff)
    then show ?thesis using True by auto
  next
    case False
    then have "unat a + 1 < 4294967296" using Cons.prems by (cases bs) auto
    then have a: "unat (a + 1) = unat a + 1" by (simp add: unat_word_ariths)
    define n where "n = m(a := x)"
    have n: "n b = (if unat b = unat a then x else m b)" by (simp add: n_def word_unat_eq_iff)
    have "store_bytes m a (x # bs) b = store_bytes n (a + 1) bs b" by (simp add: n_def)
    also have "\<dots> = (if unat a + 1 \<le> unat b \<and> unat b < unat a + 1 + length bs then bs ! (unat b - (unat a + 1)) else n b)"
      using Cons.IH[of "a + 1" n] Cons.prems a by simp
    also have "\<dots> = (if unat a \<le> unat b \<and> unat b < unat a + length (x # bs) then (x # bs) ! (unat b - unat a) else m b)"
      unfolding n by (auto simp: nth_Cons')
    finally show ?thesis .
  qed
next
  case Nil
  then show ?case by auto
qed

lemma store_bytes_at:
  assumes "unat a + length bs \<le> 4294967296"
  shows "bytes_at (store_bytes m a bs) a bs"
  unfolding bytes_at_def
proof (intro allI impI)
  fix j assume j: "j < length bs"
  then have "unat (a + of_nat j) = unat a + j" using assms by (simp add: unat_word_ariths of_nat_unat_u32)
  then show "store_bytes m a bs (a + of_nat j) = bs ! j" using j store_bytes_apply[OF assms] by simp
qed

lemma bytes_at_above:
  assumes "bytes_at m a bs" and "\<And>b. unat e \<le> unat b \<Longrightarrow> m' b = m b" and "unat e \<le> unat a" and "unat a + length bs \<le> 4294967296"
  shows "bytes_at m' a bs"
  unfolding bytes_at_def
proof (intro allI impI)
  fix j assume j: "j < length bs"
  then have "unat (a + of_nat j) = unat a + j" using assms(4) by (simp add: unat_word_ariths of_nat_unat_u32)
  then show "m' (a + of_nat j) = bs ! j" using assms(1,2,3) j by (simp add: bytes_at_def)
qed

lemma push_strings_spec:
  assumes "push_strings m e ss = (m', e', ps)" and "string_space ss \<le> unat e"
  shows "unat e' = unat e - string_space ss \<and> length ps = length ss \<and> (\<forall>b. unat e \<le> unat b \<longrightarrow> m' b = m b) \<and>
    (\<forall>i < length ss. bytes_at m' (ps ! i) (ss ! i @ [0]) \<and> unat e' \<le> unat (ps ! i) \<and> unat (ps ! i) + length (ss ! i) + 1 \<le> unat e)"
  using assms
proof (induction ss arbitrary: m e m' e' ps)
  case Nil
  then show ?case by (simp add: string_space_def)
next
  case (Cons s ss)
  define a where "a = e - of_nat (length s + 1)"
  define m1 where "m1 = store_bytes m a (s @ [0])"
  obtain m2 e2 qs where r: "push_strings m1 a ss = (m2, e2, qs)" by (cases "push_strings m1 a ss") auto
  have res: "m' = m2" "e' = e2" "ps = a # qs" using Cons.prems(1) r by (auto simp: Let_def a_def m1_def)
  have sp: "length s + 1 + string_space ss \<le> unat e" using Cons.prems(2) by (simp add: string_space_def)
  then have ln: "length s + 1 < 4294967296" using unat_u32_bound[of e] by linarith
  have a: "unat a = unat e - (length s + 1)"
    unfolding a_def using sp of_nat_unat_u32[OF ln] by (subst unat_sub) (simp_all add: word_le_nat_alt del: of_nat_add of_nat_Suc)
  then have ae: "unat a + length (s @ [0]) = unat e" using sp by simp
  then have lim: "unat a + length (s @ [0]) \<le> 4294967296" using unat_u32_bound[of e] by simp
  have m1: "m1 b = m b" if "unat e \<le> unat b" for b using that store_bytes_apply[OF lim] ae by (simp add: m1_def)
  have "string_space ss \<le> unat a" using a sp by linarith
  note IH = Cons.IH[OF r this]
  have ih: "unat e2 = unat a - string_space ss" "length qs = length ss" "\<And>b. unat a \<le> unat b \<Longrightarrow> m2 b = m1 b"
      "\<And>i. i < length ss \<Longrightarrow> bytes_at m2 (qs ! i) (ss ! i @ [0]) \<and> unat e2 \<le> unat (qs ! i) \<and> unat (qs ! i) + length (ss ! i) + 1 \<le> unat a"
    using IH by blast+
  have "bytes_at m1 a (s @ [0])" unfolding m1_def by (rule store_bytes_at[OF lim])
  then have first: "bytes_at m2 a (s @ [0])" by (rule bytes_at_above[of _ _ _ a]) (use ih(3) lim in auto)
  show ?case
  proof (intro conjI allI impI)
    show "unat e' = unat e - string_space (s # ss)" using ih(1) a by (simp add: res string_space_def)
    show "length ps = length (s # ss)" using ih(2) by (simp add: res)
    show "m' b = m b" if "unat e \<le> unat b" for b using that ih(3)[of b] m1[of b] ae by (simp add: res)
    fix i assume i: "i < length (s # ss)"
    show "bytes_at m' (ps ! i) ((s # ss) ! i @ [0])" using first ih(4) i by (cases i) (simp_all add: res)
    show "unat e' \<le> unat (ps ! i)" using ih(1,4) i by (cases i) (simp_all add: res)
    show "unat (ps ! i) + length ((s # ss) ! i) + 1 \<le> unat e" using ae ih(4) i a by (cases i) (fastforce simp: res)+
  qed
qed

lemma push_words_spec:
  assumes "push_words (m, e) ws = (m', e')" and "4 * length ws \<le> unat e"
  shows "unat e' = unat e - 4 * length ws \<and> (\<forall>b. unat e \<le> unat b \<longrightarrow> m' b = m b) \<and>
    (\<forall>i < length ws. load32 m' (e' + of_nat (4 * i)) = rev ws ! i)"
  using assms
proof (induction ws arbitrary: m' e' rule: rev_induct)
  case Nil
  then show ?case by (simp add: push_words_def)
next
  case (snoc w ws)
  obtain m1 e1 where r: "push_words (m, e) ws = (m1, e1)" by fastforce
  have res: "e' = e1 - 4" "m' = store32 m1 (e1 - 4) w" using snoc.prems(1) r by (auto simp: push_words_def push_word_def Let_def)
  have ih: "unat e1 = unat e - 4 * length ws" "\<And>b. unat e \<le> unat b \<Longrightarrow> m1 b = m b"
      "\<And>i. i < length ws \<Longrightarrow> load32 m1 (e1 + of_nat (4 * i)) = rev ws ! i"
    using snoc.IH[OF r] snoc.prems(2) by auto
  have e1: "4 \<le> unat e1" using ih(1) snoc.prems(2) by simp
  then have e': "unat e' = unat e1 - 4" unfolding res by (subst unat_sub) (simp_all add: word_le_nat_alt)
  have above: "m' b = m1 b" if "unat e1 \<le> unat b" for b
  proof -
    have "\<not> in_region (e1 - 4) 4 b"
    proof
      assume r: "in_region (e1 - 4) 4 b"
      have "unat (e1 - 4) + 4 \<le> 4294967296" using e' e1 unat_u32_bound[of e1] unfolding res by linarith
      from in_region_nat(2)[OF r this] show False using e' e1 that unfolding res by linarith
    qed
    then show ?thesis unfolding res by (rule store32_outside)
  qed
  have words: "load32 m' (e' + of_nat (4 * i)) = rev (ws @ [w]) ! i" if i: "i < length (ws @ [w])" for i
  proof (cases i)
    case 0
    then show ?thesis by (simp add: res)
  next
    case (Suc j)
    have j: "j < length ws" using i Suc by simp
    have eq: "e' + of_nat (4 * i) = e1 + of_nat (4 * j)" using Suc by (simp add: res)
    have u: "unat (e1 + of_nat (4 * j)) = unat e1 + 4 * j"
      using j ih(1) snoc.prems(2) unat_u32_bound[of e] by (simp add: unat_word_ariths of_nat_unat_u32 del: of_nat_mult)
    have "load32 m' (e1 + of_nat (4 * j)) = load32 m1 (e1 + of_nat (4 * j))"
    proof (rule load32_frame)
      show "unat (e1 + of_nat (4 * j)) + 4 \<le> 4294967296" using u j ih(1) snoc.prems(2) unat_u32_bound[of e] by simp
    qed (use above u in simp)
    then show ?thesis unfolding eq using ih(3)[OF j] Suc by simp
  qed
  have "unat e' = unat e - 4 * length (ws @ [w])" using e' ih(1) by simp
  moreover have "m' b = m b" if "unat e \<le> unat b" for b using that above[of b] ih(1,2) by simp
  ultimately show ?case using words by blast
qed

lemma push_words_append: "push_words me (xs @ ys) = push_words (push_words me xs) ys"
  by (simp add: push_words_def)

text \<open>
  C19: The initial stack of a program. When the strings and pointers fit below the stack top, the program finds at its
  stack pointer the number of arguments, then for each argument a pointer to a terminated copy of it, in order,
  and then a null pointer.
\<close>

theorem initial_stack_arguments:
  assumes "init_stack_image m esp (Some args) (Some envs) = (m', esp')"
    and "string_space args + string_space envs + 4 * (length args + length envs + 5) \<le> unat esp"
  shows "load32 m' esp' = of_nat (length args) \<and>
    (\<forall>i < length args. bytes_at m' (load32 m' (esp' + of_nat (4 * (i + 1)))) (args ! i @ [0])) \<and>
    load32 m' (esp' + of_nat (4 * (length args + 1))) = 0"
proof -
  obtain m1 e1 eps where pe: "push_strings m esp envs = (m1, e1, eps)" by (cases "push_strings m esp envs") auto
  obtain m2 e2 aps where pa: "push_strings m1 e1 args = (m2, e2, aps)" by (cases "push_strings m1 e1 args") auto
  define ws where "ws = [0, 0, 0] @ eps @ [0] @ rev aps @ [of_nat (length aps)]"
  have pw: "push_words (m2, e2) ws = (m', esp')"
    using assms(1) pe pa unfolding ws_def push_words_append by (simp add: init_stack_image_def Let_def)
  have "string_space envs \<le> unat esp" using assms(2) by linarith
  note se = push_strings_spec[OF pe this]
  then have "string_space args \<le> unat e1" using assms(2) by linarith
  note sa = push_strings_spec[OF pa this]
  have lens: "length eps = length envs" "length aps = length args" using se sa by auto
  have "4 * length ws \<le> unat e2" using assms(2) se sa lens by (simp add: ws_def)
  note w = push_words_spec[OF pw this]
  have rv: "rev ws = of_nat (length args) # aps @ 0 # rev eps @ [0, 0, 0]" by (simp add: ws_def lens)
  have wd: "load32 m' (esp' + of_nat (4 * i)) = rev ws ! i" if "i \<le> length args + 1" for i
    using w that lens by (simp add: ws_def)
  have "bytes_at m' (load32 m' (esp' + of_nat (4 * (i + 1)))) (args ! i @ [0])" if i: "i < length args" for i
  proof -
    have "load32 m' (esp' + of_nat (4 * (i + 1))) = rev ws ! (i + 1)" by (rule wd) (use i in simp)
    also have "\<dots> = aps ! i" using i lens by (simp add: rv nth_append)
    finally have p: "load32 m' (esp' + of_nat (4 * (i + 1))) = aps ! i" .
    have b: "bytes_at m2 (aps ! i) (args ! i @ [0])" "unat e2 \<le> unat (aps ! i)"
        "unat (aps ! i) + length (args ! i) + 1 \<le> unat e1" using sa i by auto
    have "unat (aps ! i) + length (args ! i @ [0]) \<le> 4294967296" using b(3) unat_u32_bound[of e1] by simp
    then show ?thesis unfolding p using w b(2) by (intro bytes_at_above[OF b(1), of e2]) auto
  qed
  moreover have "load32 m' esp' = of_nat (length args)" using wd[of 0] by (simp add: rv)
  moreover have "load32 m' (esp' + of_nat (4 * (length args + 1))) = 0"
    using wd[of "length args + 1"] lens by (simp add: rv nth_append del: of_nat_mult)
  ultimately show ?thesis by blast
qed

theorem initial_stack_arguments_witness:
  "\<exists>m' esp'. init_stack_image (\<lambda>_. 0) 0xC0000000 (Some [[0x6C, 0x73], [0x2F]]) (Some []) = (m', esp') \<and>
     load32 m' esp' = 2 \<and> bytes_at m' (load32 m' (esp' + 8)) [0x2F, 0]"
proof -
  obtain m' esp' where e: "init_stack_image (\<lambda>_. 0) 0xC0000000 (Some [[0x6C, 0x73], [0x2F]]) (Some []) = (m', esp')"
    by fastforce
  from initial_stack_arguments[OF e]
  have "load32 m' esp' = 2 \<and> bytes_at m' (load32 m' (esp' + 8)) [0x2F, 0]"
    by (simp add: string_space_def) (elim conjE, drule spec[of _ "Suc 0"], simp)
  then show ?thesis using e by blast
qed

end
