(* ===== verification/Vfs.thy ===== *)
theory Vfs
  imports Prelude
begin

text \<open>
  The virtual file system, \<^verbatim>\<open>fs/vfs.c\<close>, with the seek helper of \<^verbatim>\<open>fs/file.c\<close> and the structures of
  \<^verbatim>\<open>include/depthos/fs.h\<close> and \<^verbatim>\<open>include/depthos/file.h\<close>: registered file systems, the mount table, lookup of the mount
  that serves a path, opening and creating files, resolution of relative paths and file positions.

  Paths are NUL-free character lists, so \<open>strcmp\<close> is equality. Open files are objects of a store, because a file
  system may hand out the same node twice; the store also carries the private state \<open>'w\<close> of the file systems. A file
  system is a record of its operations, functions on that store; pointers to other objects (implementation, pipe,
  socket) are numbers, and a device is known by its class and index. The mount table is the array of the source: slots
  beyond the count keep their old contents, and \<open>root_mount\<close> is the index it points to. \<open>None\<close> is a fault.
\<close>

section \<open>Files and file systems\<close>

definition FS_FILE :: u8 where "FS_FILE = 1"
definition FS_DIR :: u8 where "FS_DIR = 2"
definition FS_PIPE :: u8 where "FS_PIPE = 4"
definition FS_DEV :: u8 where "FS_DEV = 8"
definition FS_SOCKET :: u8 where "FS_SOCKET = 0x10"

record filesystem =
  fs_ops :: nat
  fs_dev :: "(u16 \<times> u16) option"
  fs_impl :: nat

text \<open>\<open>fops\<close> is the pointer to the operations of a file: none, one of the two tables of \<^verbatim>\<open>fs/pipe.c\<close>, or another.\<close>

datatype fops = No_ops | Pipe_read_ops | Pipe_write_ops | Fs_ops nat

record fs_node =
  n_name :: string
  n_path :: string
  n_type :: u8
  n_mode :: u16
  n_pos :: u32
  n_eof :: bool
  n_size :: u32
  n_dev :: u32
  n_inode :: u32
  n_rdonly :: bool
  n_ops :: fops
  n_impl :: nat
  n_pipe :: "nat option"
  n_socket :: "nat option"
  n_fs :: "filesystem option"

record 'w nodes =
  node :: "nat \<Rightarrow> fs_node"
  node_next :: nat
  fs_state :: 'w

definition upd_node :: "nat \<Rightarrow> (fs_node \<Rightarrow> fs_node) \<Rightarrow> 'w nodes \<Rightarrow> 'w nodes" where
  "upd_node i f s = s\<lparr>node := (node s)(i := f (node s i))\<rparr>"

definition new_node :: "fs_node \<Rightarrow> 'w nodes \<Rightarrow> nat \<times> 'w nodes" where
  "new_node n s = (node_next s, s\<lparr>node := (node s)(node_next s := n), node_next := Suc (node_next s)\<rparr>)"

lemma upd_node_simps [simp]:
  "node (upd_node i f s) = (node s)(i := f (node s i))" "node_next (upd_node i f s) = node_next s"
  "fs_state (upd_node i f s) = fs_state s"
  by (simp_all add: upd_node_def)

record 'w fs_operations =
  fso_name :: string
  fso_open :: "'w nodes \<Rightarrow> filesystem \<Rightarrow> string \<Rightarrow> ('w nodes \<times> nat option) option"
  fso_create :: "('w nodes \<Rightarrow> filesystem \<Rightarrow> string \<Rightarrow> u16 \<Rightarrow> u8 \<Rightarrow> u32 \<Rightarrow> ('w nodes \<times> nat option) option) option"
  fso_mount :: "('w nodes \<Rightarrow> (u16 \<times> u16) option \<Rightarrow> ('w nodes \<times> filesystem option) option) option"

record mount =
  m_path :: string
  m_fsi :: filesystem

record 'w vfs =
  vfs_mounts :: "nat \<Rightarrow> mount"
  vfs_mounts_count :: nat
  root_mount :: "nat option"
  vfs_filesystems :: "'w fs_operations list"

definition MAX_VFS_MOUNTS :: nat where "MAX_VFS_MOUNTS = 256"
definition MAX_VFS_FILESYSTEMS :: nat where "MAX_VFS_FILESYSTEMS = 10"

definition make_devid :: "u16 \<Rightarrow> u16 \<Rightarrow> u32" where
  "make_devid c i = push_bit 16 (ucast c) OR ucast i"

definition devid_class :: "u32 \<Rightarrow> u16" where "devid_class d = ucast (drop_bit 16 d)"
definition devid_index :: "u32 \<Rightarrow> u16" where "devid_index d = ucast (d AND 0xFFFF)"

section \<open>Registration and mounting\<close>

definition vfs_get_filesystem :: "'w vfs \<Rightarrow> string \<Rightarrow> nat option" where
  "vfs_get_filesystem v name = find (\<lambda>i. fso_name (vfs_filesystems v ! i) = name) [0..<length (vfs_filesystems v)]"

definition vfs_register :: "'w vfs \<Rightarrow> 'w fs_operations \<Rightarrow> 'w vfs option" where
  "vfs_register v fs =
     (if length (vfs_filesystems v) \<ge> MAX_VFS_FILESYSTEMS then None
      else Some (v\<lparr>vfs_filesystems := vfs_filesystems v @ [fs]\<rparr>))"

text \<open>The result is the index of the new mount; the inner \<open>None\<close> is \<open>NULL\<close>. \<^verbatim>\<open>assert(fs != NULL)\<close> fails for an unknown
  file system, and a mount beyond the table is a fault.\<close>

definition vfs_mount ::
    "'w vfs \<Rightarrow> 'w nodes \<Rightarrow> string \<Rightarrow> nat option \<Rightarrow> (u16 \<times> u16) option \<Rightarrow> ('w vfs \<times> 'w nodes \<times> nat option) option" where
  "vfs_mount v s path fs dev = do {
     fs \<leftarrow> fs;
     (s, r) \<leftarrow> (case fso_mount (vfs_filesystems v ! fs) of
                 Some mnt \<Rightarrow> mnt s dev
               | None \<Rightarrow> Some (s, Some \<lparr>fs_ops = fs, fs_dev = None, fs_impl = 0\<rparr>));
     case r of
       None \<Rightarrow> Some (v, s, None)
     | Some fsi \<Rightarrow>
         let c = vfs_mounts_count v
         in if c \<ge> MAX_VFS_MOUNTS then None
            else
              let v = v\<lparr>vfs_mounts := (vfs_mounts v)(c := \<lparr>m_path = path, m_fsi = fsi\<lparr>fs_dev := dev\<rparr>\<rparr>)\<rparr>;
                  v = (if path = ''/'' then v\<lparr>root_mount := Some c\<rparr> else v)
              in Some (v\<lparr>vfs_mounts_count := Suc c\<rparr>, s, Some c) }"

definition find_mount_exact :: "'w vfs \<Rightarrow> string \<Rightarrow> nat option" where
  "find_mount_exact v path = find (\<lambda>i. m_path (vfs_mounts v i) = path) [0..<vfs_mounts_count v]"

definition vfs_unmount :: "'w vfs \<Rightarrow> string \<Rightarrow> 'w vfs \<times> bool" where
  "vfs_unmount v path =
     (let v = (if path \<noteq> ''/'' then v\<lparr>root_mount := None\<rparr> else v)
      in case find_mount_exact v path of
           None \<Rightarrow> (v, False)
         | Some i \<Rightarrow>
             let c = vfs_mounts_count v - 1
             in (v\<lparr>vfs_mounts_count := c, vfs_mounts := (vfs_mounts v)(i := vfs_mounts v c)\<rparr>, True))"

section \<open>Finding the mount of a path\<close>

text \<open>\<^verbatim>\<open>*strrchr(str, '/') = 0\<close> cuts the string before its last separator.\<close>

definition cut_last :: "string \<Rightarrow> string" where
  "cut_last s = rev (tl (dropWhile (\<lambda>c. c \<noteq> CHR ''/'') (rev s)))"

lemma dropWhile_until: "x \<notin> set ys \<Longrightarrow> dropWhile (\<lambda>c. c \<noteq> x) (ys @ x # zs) = x # zs"
  by (induction ys) auto

lemma cut_last_app: "CHR ''/'' \<notin> set r \<Longrightarrow> cut_last (s @ CHR ''/'' # r) = s"
  unfolding cut_last_def using dropWhile_until[of "CHR ''/''" "rev r" "rev s"] by simp

lemma cut_last_split: "CHR ''/'' \<in> set s \<Longrightarrow> \<exists>r. s = cut_last s @ CHR ''/'' # r \<and> CHR ''/'' \<notin> set r"
  by (metis split_list_last cut_last_app)

function mount_loop :: "'w vfs \<Rightarrow> string \<Rightarrow> nat option" where
  "mount_loop v str =
     (if CHR ''/'' \<in> set str
      then (case find_mount_exact v str of Some i \<Rightarrow> Some i | None \<Rightarrow> mount_loop v (cut_last str))
      else root_mount v)"
  by auto
termination
proof (relation "measure (length \<circ> snd)", goal_cases)
  case (2 v str)
  then obtain r where "str = cut_last str @ CHR ''/'' # r" using cut_last_split by blast
  then have "length str = length (cut_last str) + Suc (length r)" by (metis length_append length_Cons)
  then show ?case by simp
qed simp

declare mount_loop.simps [simp del]

text \<open>
  The copy of the path is made with \<open>memcpy\<close> of \<open>strlen(path)\<close> bytes and is not terminated: \<open>junk\<close> is what the heap
  block holds from there to the next NUL byte.
\<close>

definition find_mount :: "'w vfs \<Rightarrow> string \<Rightarrow> string \<Rightarrow> nat option" where
  "find_mount v junk path = (if path = ''/'' then root_mount v else mount_loop v (path @ junk))"

definition get_relative_mountpoint_path :: "mount \<Rightarrow> string \<Rightarrow> string" where
  "get_relative_mountpoint_path mountpoint path =
     (if path = m_path mountpoint then ''/''
      else if m_path mountpoint \<noteq> ''/'' then drop (length (m_path mountpoint)) path
      else path)"

section \<open>Opening and creating\<close>

text \<open>
  \<open>strrchr(path, '/') + 1\<close>; without a separator \<open>strrchr\<close> returns \<open>NULL\<close> and address 1 is read: a fault.
\<close>

definition last_component :: "string \<Rightarrow> string option" where
  "last_component s = (if CHR ''/'' \<in> set s then Some (drop (Suc (length (cut_last s))) s) else None)"

definition vfs_open :: "'w vfs \<Rightarrow> string \<Rightarrow> 'w nodes \<Rightarrow> string \<Rightarrow> ('w nodes \<times> nat option) option" where
  "vfs_open v junk s path =
     (case find_mount v junk path of
        None \<Rightarrow> Some (s, None)
      | Some i \<Rightarrow>
          let mountpoint = vfs_mounts v i;
              relpath = get_relative_mountpoint_path mountpoint path
          in do {
            (s, r) \<leftarrow> fso_open (vfs_filesystems v ! fs_ops (m_fsi mountpoint)) s (m_fsi mountpoint) relpath;
            case r of
              None \<Rightarrow> Some (s, None)
            | Some n \<Rightarrow>
                let npath = (if length path > 1 \<and> last path = CHR ''/'' then butlast path else path);
                    dev = (case fs_dev (m_fsi mountpoint) of None \<Rightarrow> 0 | Some (c, idx) \<Rightarrow> make_devid c idx)
                in map_option (\<lambda>nm. (upd_node n (\<lambda>nd. nd\<lparr>n_path := npath, n_name := nm, n_eof := False, n_pos := 0,
                     n_fs := Some (m_fsi mountpoint), n_dev := dev\<rparr>) s, Some n)) (last_component npath) })"

definition vfs_create ::
    "'w vfs \<Rightarrow> string \<Rightarrow> 'w nodes \<Rightarrow> string \<Rightarrow> u16 \<Rightarrow> u8 \<Rightarrow> u32 \<Rightarrow> ('w nodes \<times> nat option) option" where
  "vfs_create v junk s path mode ft dev =
     (case find_mount v junk path of
        None \<Rightarrow> Some (s, None)
      | Some i \<Rightarrow> do {
          (s, r) \<leftarrow> vfs_open v junk s path;
          if r \<noteq> None then Some (s, None)
          else
            let mountpoint = vfs_mounts v i;
                relpath = get_relative_mountpoint_path mountpoint path
            in case fso_create (vfs_filesystems v ! fs_ops (m_fsi mountpoint)) of
                 None \<Rightarrow> Some (s, None)
               | Some create \<Rightarrow> create s (m_fsi mountpoint) relpath mode ft dev })"

text \<open>\<open>pre\<close> is the byte in front of the string \<open>cwd\<close>, which is read when \<open>cwd\<close> is empty.\<close>

definition vfs_resolve :: "char \<Rightarrow> string option \<Rightarrow> string option \<Rightarrow> string option" where
  "vfs_resolve pre path cwd =
     (case (path, cwd) of
        (Some path, Some cwd) \<Rightarrow>
          if path \<noteq> [] \<and> hd path = CHR ''/'' then Some path
          else if (if cwd = [] then pre else last cwd) \<noteq> CHR ''/'' then Some (cwd @ ''/'' @ path)
          else Some (cwd @ path)
      | _ \<Rightarrow> None)"

section \<open>Positions\<close>

definition SEEK_CUR :: int where "SEEK_CUR = 1"
definition SEEK_END :: int where "SEEK_END = 2"
definition SEEK_SET :: int where "SEEK_SET = 3"

text \<open>Arithmetic on \<open>soff_t\<close> is 32 bits wide; an unsigned operand makes it wrap.\<close>

definition wrap32 :: "int \<Rightarrow> int" where
  "wrap32 x = sint (word_of_int x :: u32)"

definition vfs_setpos :: "fs_node \<Rightarrow> int \<Rightarrow> int \<Rightarrow> fs_node \<times> int" where
  "vfs_setpos file off lim =
     (if off < 0 then (file, - EINVAL)
      else if off > lim then (file, - EINVAL)
      else (file\<lparr>n_pos := word_of_int off\<rparr>, off))"

definition generic_file_seek_size :: "fs_node \<Rightarrow> int \<Rightarrow> u32 \<Rightarrow> int \<Rightarrow> fs_node \<times> int" where
  "generic_file_seek_size file pos siz whence =
     (if whence = SEEK_CUR \<and> pos = 0 then (file, sint (n_pos file))
      else
        let pos = (if whence = SEEK_END then wrap32 (pos + uint siz)
                   else if whence = SEEK_CUR then wrap32 (pos + uint (n_pos file))
                   else pos)
        in vfs_setpos file pos (sint siz))"

definition stat_make_mode :: "u16 \<Rightarrow> u8 \<Rightarrow> u32" where
  "stat_make_mode mode ftype = (ucast mode AND 0x1FF) OR push_bit 12 (ucast ftype AND 0xF)"

section \<open>The mount that serves a path\<close>

text \<open>A mount point covers its own path and every path below it.\<close>

definition covers :: "string \<Rightarrow> string \<Rightarrow> bool" where
  "covers p path \<longleftrightarrow> p = path \<or> take (Suc (length p)) path = p @ ''/''"

lemma covers_iff: "covers p path \<longleftrightarrow> p = path \<or> (\<exists>r. path = p @ CHR ''/'' # r)"
proof -
  have "take (Suc (length p)) path = p @ ''/'' \<Longrightarrow> path = p @ CHR ''/'' # drop (Suc (length p)) path"
    by (metis append_take_drop_id append.assoc append_Cons append_Nil)
  then show ?thesis by (auto simp: covers_def)
qed

lemma covers_length: "covers p path \<Longrightarrow> length p \<le> length path"
  by (auto simp: covers_iff)

lemma covers_cut:
  assumes "CHR ''/'' \<in> set s"
  shows "covers p s \<longleftrightarrow> p = s \<or> covers p (cut_last s)"
proof -
  obtain r where s: "s = cut_last s @ CHR ''/'' # r" and r: "CHR ''/'' \<notin> set r" using cut_last_split[OF assms] by blast
  have "(\<exists>q. s = p @ CHR ''/'' # q) \<longleftrightarrow> covers p (cut_last s)"
  proof
    assume "\<exists>q. s = p @ CHR ''/'' # q"
    then obtain q where "cut_last s @ CHR ''/'' # r = p @ CHR ''/'' # q" using s by auto
    then show "covers p (cut_last s)"
      unfolding append_eq_append_conv2 covers_iff using r by (auto simp: append_eq_Cons_conv Cons_eq_append_conv)
  next
    assume "covers p (cut_last s)"
    then show "\<exists>q. s = p @ CHR ''/'' # q" by (subst s) (auto simp: covers_iff)
  qed
  then show ?thesis by (auto simp: covers_iff)
qed

lemma find_mount_exact_Some:
  "find_mount_exact v s = Some i \<Longrightarrow> i < vfs_mounts_count v \<and> m_path (vfs_mounts v i) = s"
  by (auto simp: find_mount_exact_def find_Some_iff)

lemma find_mount_exact_None:
  "find_mount_exact v s = None \<Longrightarrow> j < vfs_mounts_count v \<Longrightarrow> m_path (vfs_mounts v j) \<noteq> s"
  by (auto simp: find_mount_exact_def find_None_iff)

text \<open>The mounts that \<open>find_mount\<close> considers for a path: covering it, with a separator in their own path.\<close>

definition candidates :: "'w vfs \<Rightarrow> string \<Rightarrow> nat set" where
  "candidates v path =
     {j. j < vfs_mounts_count v \<and> CHR ''/'' \<in> set (m_path (vfs_mounts v j)) \<and> covers (m_path (vfs_mounts v j)) path}"

lemma mount_loop_longest:
  "(candidates v s = {} \<longrightarrow> mount_loop v s = root_mount v) \<and>
   (candidates v s \<noteq> {} \<longrightarrow>
      (\<exists>i \<in> candidates v s. mount_loop v s = Some i \<and>
         (\<forall>j \<in> candidates v s. length (m_path (vfs_mounts v j)) \<le> length (m_path (vfs_mounts v i)))))"
proof (induction v s rule: mount_loop.induct)
  case (1 v s)
  show ?case
  proof (cases "CHR ''/'' \<in> set s")
    case False
    then have "candidates v s = {}" by (auto simp: candidates_def covers_iff)
    then show ?thesis using False by (simp add: mount_loop.simps)
  next
    case True
    show ?thesis
    proof (cases "find_mount_exact v s")
      case None
      then have "candidates v s = candidates v (cut_last s)"
        using find_mount_exact_None[OF None] by (auto simp: candidates_def covers_cut[OF True])
      then show ?thesis using 1[OF True None] True None by (subst (1 2) mount_loop.simps) simp
    next
      case (Some i)
      then have "i \<in> candidates v s" "m_path (vfs_mounts v i) = s"
        using find_mount_exact_Some[OF Some] True by (auto simp: candidates_def covers_iff)
      moreover have "\<forall>j \<in> candidates v s. length (m_path (vfs_mounts v j)) \<le> length s"
        by (auto simp: candidates_def covers_length)
      ultimately show ?thesis using True Some by (subst (1 2) mount_loop.simps) auto
    qed
  qed
qed

text \<open>
  C22: the mount that serves a path is found correctly when the heap block after the copied path holds a NUL byte: among
  the mounts whose path is the requested path or one of its ancestors, \<open>find_mount\<close> returns one with the longest path, and
  the root mount when there is none.
\<close>

theorem find_mount_longest_prefix:
  assumes "path \<noteq> ''/''"
  shows "(candidates v path = {} \<longrightarrow> find_mount v [] path = root_mount v) \<and>
    (candidates v path \<noteq> {} \<longrightarrow>
       (\<exists>i \<in> candidates v path. find_mount v [] path = Some i \<and>
          (\<forall>j \<in> candidates v path. length (m_path (vfs_mounts v j)) \<le> length (m_path (vfs_mounts v i)))))"
  using assms mount_loop_longest[of v path] by (simp add: find_mount_def)

definition demo_fs :: "unit fs_operations" where
  "demo_fs = \<lparr>fso_name = ''ramfs'', fso_open = \<lambda>s _ _. Some (s, None), fso_create = None, fso_mount = None\<rparr>"

definition demo_nodes :: "unit nodes" where
  "demo_nodes = \<lparr>node = \<lambda>_. \<lparr>n_name = ''f'', n_path = ''/f'', n_type = FS_FILE, n_mode = 0, n_pos = 3, n_eof = False,
     n_size = 10, n_dev = 0, n_inode = 0, n_rdonly = False, n_ops = Fs_ops 0, n_impl = 0, n_pipe = None, n_socket = None,
     n_fs = None\<rparr>, node_next = 0, fs_state = ()\<rparr>"

definition demo_vfs :: "unit vfs" where
  "demo_vfs =
     (let v0 = \<lparr>vfs_mounts = \<lambda>_. \<lparr>m_path = [], m_fsi = \<lparr>fs_ops = 0, fs_dev = None, fs_impl = 0\<rparr>\<rparr>, vfs_mounts_count = 0,
                root_mount = None, vfs_filesystems = [demo_fs]\<rparr>
      in case do { (v, s, _) \<leftarrow> vfs_mount v0 demo_nodes ''/'' (Some 0) None; (v, s, _) \<leftarrow> vfs_mount v s ''/a'' (Some 0) None;
                   vfs_mount v s ''/a/b'' (Some 0) None } of
           Some (v, _) \<Rightarrow> v | None \<Rightarrow> v0)"

theorem find_mount_longest_prefix_witness:
  "find_mount demo_vfs [] ''/a/b/c'' = Some 2 \<and> candidates demo_vfs ''/a/b/c'' \<noteq> {}"
proof -
  have c: "candidates demo_vfs ''/a/b/c'' = {1, 2}"
    by (auto simp: candidates_def demo_vfs_def demo_fs_def vfs_mount_def MAX_VFS_MOUNTS_def covers_def Let_def
      less_Suc_eq numeral_2_eq_2 numeral_3_eq_3)
  have "m_path (vfs_mounts demo_vfs 1) = ''/a''" "m_path (vfs_mounts demo_vfs 2) = ''/a/b''"
    by (auto simp: demo_vfs_def demo_fs_def vfs_mount_def MAX_VFS_MOUNTS_def Let_def)
  then show ?thesis using find_mount_longest_prefix[of "''/a/b/c''" demo_vfs] unfolding c by auto
qed

section \<open>Unmounting\<close>

text \<open>
  the comparison in \<open>vfs_unmount\<close> is inverted: unmounting any path other than the root path clears \<open>root_mount\<close>,
  and from then on the root directory cannot be opened.
\<close>

lemma vfs_unmount_loses_root:
  assumes "path \<noteq> ''/''"
  shows "root_mount (fst (vfs_unmount v path)) = None \<and> vfs_open (fst (vfs_unmount v path)) junk s ''/'' = Some (s, None)"
proof -
  have r: "root_mount (fst (vfs_unmount v path)) = None"
    using assms by (simp add: vfs_unmount_def Let_def split: option.split)
  then show ?thesis by (simp add: vfs_open_def find_mount_def)
qed

lemma vfs_unmount_loses_root_example:
  "root_mount demo_vfs = Some 0 \<and> vfs_open (fst (vfs_unmount demo_vfs ''/a'')) [] demo_nodes ''/'' = Some (demo_nodes, None)"
  using vfs_unmount_loses_root[of "''/a''" demo_vfs "[]" demo_nodes]
  by (simp add: demo_vfs_def demo_fs_def vfs_mount_def MAX_VFS_MOUNTS_def Let_def)

section \<open>Seeking stays inside the file\<close>

lemma wrap32_eq:
  assumes "- 2147483648 \<le> x" "x < 4294967296"
  shows "wrap32 x = (if x < 2147483648 then x else x - 4294967296)"
proof -
  have "wrap32 x = (x + 2147483648) mod 4294967296 - 2147483648"
    by (simp add: wrap32_def sint_uint uint_word_of_int signed_take_bit_eq_take_bit_shift take_bit_eq_mod mod_simps)
  moreover have "(x + 2147483648) mod 4294967296 =
      (if x < 2147483648 then x + 2147483648 else x + 2147483648 - 4294967296)"
    using assms mod_add_self2[of "x + 2147483648 - 4294967296" 4294967296]
    by (auto simp: mod_pos_pos_trivial add.commute simp del: mod_add_self2)
  ultimately show ?thesis by auto
qed

definition seek_target :: "fs_node \<Rightarrow> int \<Rightarrow> u32 \<Rightarrow> int \<Rightarrow> int" where
  "seek_target file pos siz whence =
     (if whence = SEEK_END then pos + uint siz else if whence = SEEK_CUR then pos + uint (n_pos file) else pos)"

lemma sint_uint_small: "uint (x :: u32) < 2147483648 \<Longrightarrow> sint x = uint x"
proof -
  assume "uint x < 2147483648"
  then have "int (unat x) < int 2147483648" unfolding uint_nat by simp
  then have "unat x < 2147483648" unfolding of_nat_less_iff .
  then show "sint x = uint x" unfolding sint_u32 uint_nat by (rule if_P)
qed

lemma uint_word_of_int_u32: "0 \<le> x \<Longrightarrow> x < 4294967296 \<Longrightarrow> uint (word_of_int x :: u32) = x"
  by (simp add: uint_word_of_int mod_pos_pos_trivial)

text \<open>
  for a file smaller than 2 GiB whose position is inside the file, \<open>generic_file_seek_size\<close> moves to the requested
  position (relative to the start, the end or the current position) exactly when it lies between 0 and the size, returns
  it, and changes nothing but the position; otherwise it returns \<open>-EINVAL\<close> and the file is unchanged. 32-bit overflow of
  the sum does not change this.
\<close>

lemma seek_within_file:
  assumes "uint siz < 2147483648" "n_pos file \<le> siz" "- 2147483648 \<le> pos" "pos < 2147483648"
  shows "generic_file_seek_size file pos siz whence =
    (let t = seek_target file pos siz whence
     in if 0 \<le> t \<and> t \<le> uint siz then (file\<lparr>n_pos := word_of_int t\<rparr>, t) else (file, - EINVAL))"
proof -
  have p: "uint (n_pos file) \<le> uint siz" using assms(2) by (simp add: word_le_def)
  have w: "wrap32 (pos + k) = (if pos + k < 2147483648 then pos + k else pos + k - 4294967296)"
    if "0 \<le> k" "k < 2147483648" for k
    using that assms(3,4) by (intro wrap32_eq) auto
  have s: "sint siz = uint siz" "sint (n_pos file) = uint (n_pos file)"
    using assms(1) p by (simp_all add: sint_uint_small)
  show ?thesis
    using assms p w[of "uint siz"] w[of "uint (n_pos file)"]
    by (auto simp: generic_file_seek_size_def seek_target_def vfs_setpos_def s Let_def SEEK_END_def SEEK_CUR_def)
qed

definition demo_node :: fs_node where
  "demo_node = node demo_nodes 0"

lemma seek_within_file_example:
  "generic_file_seek_size demo_node 7 10 SEEK_CUR = (demo_node\<lparr>n_pos := 10\<rparr>, 10) \<and>
   generic_file_seek_size demo_node 1 10 SEEK_END = (demo_node, - EINVAL)"
  using seek_within_file[of 10 demo_node 7 SEEK_CUR] seek_within_file[of 10 demo_node 1 SEEK_END]
  by (simp add: demo_node_def demo_nodes_def seek_target_def SEEK_CUR_def SEEK_END_def)

end
