(* ===== verification/Devices.thy ===== *)
theory Devices
  imports Vfs Memory
begin

text \<open>
  Devices: the registry of \<^verbatim>\<open>kernel/devices.c\<close>, the file system \<open>devfs\<close> that presents devices as files
  (\<^verbatim>\<open>fs/devfs.c\<close>), partitions (\<^verbatim>\<open>kernel/partition.c\<close>) and the reading of a partition table (\<^verbatim>\<open>fs/mbr.c\<close>).

  The operations of a device are functions on the state \<open>'s\<close> its driver works on; a missing one is \<open>None\<close>, and calling it
  through the null pointer is the outer \<open>None\<close>. A transfer takes buffer, count and offset and returns the new offset and
  the C result. Device objects are named by numbers, the nodes of \<open>devfs_files\<close> live in the node store.
\<close>

section \<open>Devices\<close>

type_synonym 's transfer = "'s \<Rightarrow> ptr \<Rightarrow> size_t \<Rightarrow> u32 \<Rightarrow> ('s \<times> u32 \<times> int) option"

record 's device =
  d_type :: u8
  d_class :: u16
  d_idx :: u16
  d_block_size :: size_t
  d_name :: string
  d_read :: "'s transfer option"
  d_seek :: "('s \<Rightarrow> int \<Rightarrow> int \<Rightarrow> u32 \<Rightarrow> ('s \<times> u32 \<times> int) option) option"
  d_write :: "'s transfer option"
  d_ioctl :: "('s \<Rightarrow> u32 \<Rightarrow> ptr \<Rightarrow> ('s \<times> int) option) option"
  d_mmap :: "('s \<Rightarrow> nat \<Rightarrow> ('s \<times> int) option) option"
  d_pos :: u32

definition MAX_DEVICES :: nat where "MAX_DEVICES = 1024"
definition DEV_CHAR :: u8 where "DEV_CHAR = 1"
definition DEV_BLOCK :: u8 where "DEV_BLOCK = 2"
definition DEV_C_GENERIC :: u16 where "DEV_C_GENERIC = 0"
definition DEV_C_TTY :: u16 where "DEV_C_TTY = 1"
definition DEV_C_STORAGE :: u16 where "DEV_C_STORAGE = 2"
definition DEV_C_VIDEO :: u16 where "DEV_C_VIDEO = 3"

record 's devreg =
  dobj :: "nat \<Rightarrow> 's device"
  devices :: "nat list"
  devfs_files :: "nat list"

text \<open>The operations of the nodes that \<open>devfs\<close> creates, \<^verbatim>\<open>devfs_fileops\<close>.\<close>

definition devfs_fileops :: fops where "devfs_fileops = Fs_ops 1"

text \<open>A designated initialiser sets the fields that are not named to zero.\<close>

definition zero_node :: fs_node where
  "zero_node = \<lparr>n_name = [], n_path = [], n_type = 0, n_mode = 0, n_pos = 0, n_eof = False, n_size = 0, n_dev = 0,
     n_inode = 0, n_rdonly = False, n_ops = No_ops, n_impl = 0, n_pipe = None, n_socket = None, n_fs = None\<rparr>"

definition devfs_register :: "'s devreg \<Rightarrow> 'w nodes \<Rightarrow> string \<Rightarrow> nat \<Rightarrow> 's devreg \<times> 'w nodes" where
  "devfs_register r s name dev =
     (if length (devfs_files r) \<ge> MAX_DEVICES then (r, s)
      else let (n, s) = new_node (zero_node\<lparr>n_name := name, n_path := ''/dev/'' @ name, n_eof := False,
                          n_ops := devfs_fileops, n_pos := 0, n_type := FS_DEV, n_impl := dev\<rparr>) s
           in (r\<lparr>devfs_files := devfs_files r @ [n]\<rparr>, s))"

definition register_device :: "'s devreg \<Rightarrow> 'w nodes \<Rightarrow> nat \<Rightarrow> 's devreg \<times> 'w nodes" where
  "register_device r s dev =
     (if length (devices r) \<ge> MAX_DEVICES then (r, s)
      else let idx = length (filter (\<lambda>d. d_class (dobj r d) = d_class (dobj r dev)) (devices r));
               r = r\<lparr>dobj := (dobj r)(dev := (dobj r dev)\<lparr>d_idx := of_nat idx\<rparr>)\<rparr>;
               r = r\<lparr>devices := devices r @ [dev]\<rparr>
           in devfs_register r s (d_name (dobj r dev)) dev)"

definition get_device :: "'s devreg \<Rightarrow> string \<Rightarrow> nat option" where
  "get_device r name = find (\<lambda>d. d_name (dobj r d) = name) (devices r)"

definition dev_impl_seek_zero :: "int \<Rightarrow> int \<Rightarrow> u32 \<Rightarrow> u32 \<times> int" where
  "dev_impl_seek_zero offset whence pos =
     (if whence = SEEK_SET \<or> whence = SEEK_CUR \<or> whence = SEEK_END then (0, 0) else (pos, - EINVAL))"

section \<open>Device files\<close>

definition devfs_read :: "'s device \<Rightarrow> 's transfer" where
  "devfs_read dev s buffer count off =
     (case d_read dev of None \<Rightarrow> Some (s, off, - ENIMPL) | Some rd \<Rightarrow> rd s buffer count off)"

definition devfs_write :: "'s device \<Rightarrow> 's transfer" where
  "devfs_write dev s buffer count off =
     (case d_write dev of None \<Rightarrow> Some (s, off, - ENIMPL) | Some wr \<Rightarrow> wr s buffer count off)"

definition devfs_ioctl :: "'s device \<Rightarrow> 's \<Rightarrow> u32 \<Rightarrow> ptr \<Rightarrow> ('s \<times> int) option" where
  "devfs_ioctl dev s request data =
     (case d_ioctl dev of None \<Rightarrow> Some (s, - ENIMPL) | Some io \<Rightarrow> io s request data)"

definition devfs_seek :: "'s device \<Rightarrow> 's \<Rightarrow> fs_node \<Rightarrow> int \<Rightarrow> int \<Rightarrow> ('s \<times> fs_node \<times> int) option" where
  "devfs_seek dev s file pos whence =
     (case d_seek dev of
        None \<Rightarrow> Some (s, file, - ENIMPL)
      | Some sk \<Rightarrow> map_option (\<lambda>(s, p, res). (s, file\<lparr>n_pos := p\<rparr>, res)) (sk s pos whence (n_pos file)))"

definition devfs_mmap :: "'s device \<Rightarrow> 's \<Rightarrow> nat \<Rightarrow> ('s \<times> int) option" where
  "devfs_mmap dev s area = (case d_mmap dev of Some mm \<Rightarrow> mm s area | None \<Rightarrow> Some (s, ENIMPL))"

text \<open>
  \<^verbatim>\<open>path++\<close> on the empty string leaves it, so that the empty path is a fault. \<open>reg\<close> reads the registry from the state of
  the file systems. The node returned is the element of the array itself, not a copy.
\<close>

definition devfs_open ::
    "('w \<Rightarrow> 's devreg) \<Rightarrow> 'w nodes \<Rightarrow> filesystem \<Rightarrow> string \<Rightarrow> ('w nodes \<times> nat option) option" where
  "devfs_open reg s fs path =
     (if path = [] then None
      else Some (s, find (\<lambda>n. n_name (node s n) = tl path) (devfs_files (reg (fs_state s)))))"

definition devfs_ops :: "('w \<Rightarrow> 's devreg) \<Rightarrow> 'w fs_operations" where
  "devfs_ops reg = \<lparr>fso_name = ''devfs'', fso_open = devfs_open reg, fso_create = None, fso_mount = None\<rparr>"

definition devfs_init :: "('w \<Rightarrow> 's devreg) \<Rightarrow> 'w vfs \<Rightarrow> 'w vfs option" where
  "devfs_init reg v = vfs_register v (devfs_ops reg)"

definition null_write :: "mem transfer" where
  "null_write m buffer n off = Some (m, off + n, 0)"

definition null_read :: "mem transfer" where
  "null_read m buffer n off = Some (memset m buffer 0 n, off + n, sint n)"

definition dev_null :: "mem device" where
  "dev_null = \<lparr>d_type = 0, d_class = 0, d_idx = 0, d_block_size = 0, d_name = ''null'', d_read = Some null_read,
     d_seek = None, d_write = Some null_write, d_ioctl = None, d_mmap = None, d_pos = 0\<rparr>"

definition devfs_populate :: "mem devreg \<Rightarrow> 'w nodes \<Rightarrow> nat \<Rightarrow> mem devreg \<times> 'w nodes" where
  "devfs_populate r s nullp = devfs_register (r\<lparr>dobj := (dobj r)(nullp := dev_null)\<rparr>) s ''null'' nullp"

section \<open>Partitions\<close>

record 's generic_partition =
  gp_attr :: u8
  gp_dev :: "'s device"
  gp_lba :: size_t
  gp_index :: int
  gp_sector_count :: size_t

record mbr_partition =
  mbr_attributes :: u8
  mbr_type :: u8
  mbr_lba :: size_t
  mbr_sectors :: size_t

definition PARTITION_ATTR_BOOTABLE :: u8 where "PARTITION_ATTR_BOOTABLE = 1"
definition MBR_PART_ATTR_ACTIVE_BOOTABLE :: u8 where "MBR_PART_ATTR_ACTIVE_BOOTABLE = 0x80"

text \<open>
  The missing driver operation is only noticed in the branch that does not shorten the request; the other branch calls
  through the null pointer. The error number is returned without its sign.
\<close>

definition partdev_read :: "'s generic_partition \<Rightarrow> 's transfer" where
  "partdev_read p s buf count off =
     (if gp_sector_count p = 0 then Some (s, off, 0)
      else if off + count < gp_sector_count p \<and> d_read (gp_dev p) = None then Some (s, off, ENIMPL)
      else
        let count = (if off + count \<ge> gp_sector_count p then gp_sector_count p - off else count);
            tmpoff = off + gp_lba p
        in do {
          rd \<leftarrow> d_read (gp_dev p);
          (s, tmpoff, ret) \<leftarrow> rd s buf count tmpoff;
          Some (s, tmpoff - gp_lba p, ret) })"

definition partdev_write :: "'s generic_partition \<Rightarrow> 's transfer" where
  "partdev_write p s buf count off =
     (if gp_sector_count p = 0 then Some (s, off, 0)
      else if off + count < gp_sector_count p \<and> d_write (gp_dev p) = None then Some (s, off, ENIMPL)
      else
        let count = (if off + count \<ge> gp_sector_count p then gp_sector_count p - off else count);
            tmpoff = off + gp_lba p
        in do {
          wr \<leftarrow> d_write (gp_dev p);
          (s, tmpoff, ret) \<leftarrow> wr s buf count tmpoff;
          Some (s, tmpoff - gp_lba p, ret) })"

definition partdev_seek :: "'s \<Rightarrow> int \<Rightarrow> int \<Rightarrow> u32 \<Rightarrow> ('s \<times> u32 \<times> int) option" where
  "partdev_seek s offset whence pos = Some (s, pos, ENIMPL)"

text \<open>\<open>pdev\<close> is the uninitialised block that \<open>kmalloc\<close> returns.\<close>

definition create_partition_device :: "'s device \<Rightarrow> string \<Rightarrow> 's generic_partition \<Rightarrow> 's device" where
  "create_partition_device pdev name part =
     pdev\<lparr>d_block_size := d_block_size (gp_dev part), d_type := d_type (gp_dev part), d_name := name, d_pos := 0,
       d_read := Some (partdev_read part), d_write := Some (partdev_write part), d_seek := Some partdev_seek\<rparr>"

text \<open>In C, \<^verbatim>\<open>a & b != 0\<close> is \<^verbatim>\<open>a & (b != 0)\<close>.\<close>

definition create_mbr_partition :: "'s device \<Rightarrow> int \<Rightarrow> mbr_partition \<Rightarrow> 's generic_partition" where
  "create_mbr_partition dev idx p =
     \<lparr>gp_attr = (if mbr_attributes p AND (if MBR_PART_ATTR_ACTIVE_BOOTABLE \<noteq> 0 then 1 else 0) \<noteq> 0
                 then PARTITION_ATTR_BOOTABLE else 0),
      gp_dev = dev, gp_lba = mbr_lba p, gp_index = idx, gp_sector_count = mbr_sectors p\<rparr>"

text \<open>\<open>res\<close> is the block \<open>kmalloc\<close> returns for the table; the result is \<open>NULL\<close> when nothing was read.\<close>

definition mbr_parse :: "'s device \<Rightarrow> 's \<Rightarrow> ptr \<Rightarrow> ('s \<times> ptr) option" where
  "mbr_parse dev s res = do {
     rd \<leftarrow> d_read dev;
     (s, offset, ret) \<leftarrow> rd s res 1 0;
     Some (s, if ret = 0 then NULL else res) }"

section \<open>Device numbers are unique\<close>

text \<open>The registry: distinct devices, each numbered by the devices of its class registered before it.\<close>

definition reg_wf :: "'s devreg \<Rightarrow> bool" where
  "reg_wf r \<longleftrightarrow> distinct (devices r) \<and> length (devices r) \<le> MAX_DEVICES \<and>
     (\<forall>i < length (devices r). d_idx (dobj r (devices r ! i)) =
        of_nat (length (filter (\<lambda>d. d_class (dobj r d) = d_class (dobj r (devices r ! i))) (take i (devices r)))))"

lemma devfs_register_frame [simp]:
  "devices (fst (devfs_register r s name dev)) = devices r" "dobj (fst (devfs_register r s name dev)) = dobj r"
  by (simp_all add: devfs_register_def new_node_def split: prod.split)

lemma register_device_class [simp]: "d_class (dobj (fst (register_device r s dev)) d) = d_class (dobj r d)"
  by (simp add: register_device_def Let_def)

lemma register_device_devices:
  "length (devices r) < MAX_DEVICES \<Longrightarrow> devices (fst (register_device r s dev)) = devices r @ [dev]"
  by (simp add: register_device_def Let_def)

lemma register_device_idx:
  "length (devices r) < MAX_DEVICES \<Longrightarrow> d_idx (dobj (fst (register_device r s dev)) d) =
     (if d = dev then of_nat (length (filter (\<lambda>e. d_class (dobj r e) = d_class (dobj r dev)) (devices r))) else d_idx (dobj r d))"
  by (simp add: register_device_def Let_def)

lemma register_device_wf:
  assumes "reg_wf r" "dev \<notin> set (devices r)"
  shows "reg_wf (fst (register_device r s dev))"
proof (cases "length (devices r) \<ge> MAX_DEVICES")
  case True
  then show ?thesis using assms by (simp add: register_device_def)
next
  case False
  then show ?thesis
    using assms by (auto simp: reg_wf_def register_device_devices register_device_idx nth_append less_Suc_eq)
qed

lemma reg_wf_ids:
  assumes "reg_wf r" "i < j" "j < length (devices r)"
  shows "(d_class (dobj r (devices r ! i)), d_idx (dobj r (devices r ! i))) \<noteq>
    (d_class (dobj r (devices r ! j)), d_idx (dobj r (devices r ! j)))"
proof
  let ?c = "\<lambda>i. d_class (dobj r (devices r ! i))"
  let ?n = "\<lambda>k i. length (filter (\<lambda>d. d_class (dobj r d) = ?c i) (take k (devices r)))"
  assume eq: "(?c i, d_idx (dobj r (devices r ! i))) = (?c j, d_idx (dobj r (devices r ! j)))"
  have bnd: "?n k i < 65536" if "k < length (devices r)" for k
    using assms(1) that length_filter_le[of "\<lambda>d. d_class (dobj r d) = ?c i" "take k (devices r)"]
    by (simp add: reg_wf_def MAX_DEVICES_def)
  have "(of_nat (?n i i) :: u16) = of_nat (?n j i)" using assms eq unfolding reg_wf_def by auto
  then have "unat (of_nat (?n i i) :: u16) = unat (of_nat (?n j i) :: u16)" by simp
  then have "?n i i = ?n j i" using bnd[of i] bnd[of j] assms(2,3)
    by (simp add: unsigned_of_nat take_bit_nat_eq_self)
  moreover have "take j (devices r) = take i (devices r) @ devices r ! i # drop (Suc i) (take j (devices r))"
    using assms(2,3) id_take_nth_drop[of i "take j (devices r)"] by (simp add: min_def)
  then have "filter (\<lambda>d. d_class (dobj r d) = ?c i) (take j (devices r)) =
      filter (\<lambda>d. d_class (dobj r d) = ?c i) (take i (devices r)) @
      devices r ! i # filter (\<lambda>d. d_class (dobj r d) = ?c i) (drop (Suc i) (take j (devices r)))"
    by (metis (mono_tags, lifting) filter_append filter.simps(2))
  ultimately show False by simp
qed

lemma devid_parts [simp]: "devid_class (make_devid c i) = c" "devid_index (make_devid c i) = i"
proof -
  show "devid_class (make_devid c i) = c"
    by (rule bit_word_eqI) (auto simp: devid_class_def make_devid_def bit_simps dest: bit_imp_le_length)
  have m: "(0xFFFF :: u32) = mask 16" by (simp add: mask_eq_exp_minus_1)
  show "devid_index (make_devid c i) = i"
    unfolding devid_index_def make_devid_def m by (intro bit_word_eqI) (auto simp: bit_simps)
qed

primrec register_all :: "'s devreg \<Rightarrow> 'w nodes \<Rightarrow> nat list \<Rightarrow> 's devreg \<times> 'w nodes" where
  "register_all r s [] = (r, s)"
| "register_all r s (d # ds) = (case register_device r s d of (r, s) \<Rightarrow> register_all r s ds)"

lemma register_device_set: "set (devices (fst (register_device r s d))) \<subseteq> insert d (set (devices r))"
  by (auto simp: register_device_def Let_def)

lemma register_all_wf:
  "reg_wf r \<Longrightarrow> distinct ds \<Longrightarrow> set ds \<inter> set (devices r) = {} \<Longrightarrow> reg_wf (fst (register_all r s ds))"
proof (induction ds arbitrary: r s)
  case (Cons d ds)
  obtain r' s' where rs: "register_device r s d = (r', s')" by fastforce
  have "reg_wf r'" "set (devices r') \<subseteq> insert d (set (devices r))"
    using register_device_wf[of r d s] register_device_set[of r s d] Cons.prems by (auto simp: rs)
  then have "reg_wf (fst (register_all r' s' ds))" using Cons.prems by (intro Cons.IH) auto
  then show ?case by (simp add: rs)
qed simp

text \<open>
  C38: device numbers identify devices: whatever sequence of different devices is registered, more than the table holds
  included, the numbers made of the class and index of the registered ones are pairwise different and decode to that
  class and index.
\<close>

theorem device_numbers_unique:
  assumes "devices r = []" "distinct ds"
  shows "let r' = fst (register_all r s ds);
             num = \<lambda>d. make_devid (d_class (dobj r' d)) (d_idx (dobj r' d))
         in distinct (map num (devices r')) \<and>
            (\<forall>d. devid_class (num d) = d_class (dobj r' d) \<and> devid_index (num d) = d_idx (dobj r' d))"
proof -
  let ?r = "fst (register_all r s ds)"
  have wf: "reg_wf ?r" using assms by (intro register_all_wf) (auto simp: reg_wf_def)
  have inj: "make_devid a b = make_devid c d \<Longrightarrow> (a, b) = (c, d)" for a b c d
    by (metis devid_parts)
  have "distinct (map (\<lambda>d. make_devid (d_class (dobj ?r d)) (d_idx (dobj ?r d))) (devices ?r))"
    unfolding distinct_conv_nth using reg_wf_ids[OF wf] inj
    by (metis (no_types, lifting) length_map nth_map nat_neq_iff)
  then show ?thesis by simp
qed

definition demo_devreg :: "mem devreg" where
  "demo_devreg = \<lparr>dobj = \<lambda>i. dev_null\<lparr>d_class := (if i = 2 then 1 else 2)\<rparr>, devices = [], devfs_files = []\<rparr>"

theorem device_numbers_unique_witness:
  "distinct (map (\<lambda>d. make_devid (d_class (dobj (fst (register_all demo_devreg demo_nodes [1, 2, 3])) d))
      (d_idx (dobj (fst (register_all demo_devreg demo_nodes [1, 2, 3])) d)))
    (devices (fst (register_all demo_devreg demo_nodes [1, 2, 3]))))"
  using device_numbers_unique[of demo_devreg "[1, 2, 3]" demo_nodes] by (simp add: demo_devreg_def Let_def)

text \<open>Opening the file of a device that has just been registered under a new name finds that device.\<close>

lemma find_append_new: "\<forall>x \<in> set xs. \<not> P x \<Longrightarrow> P y \<Longrightarrow> find P (xs @ [y]) = Some y"
  by (induction xs) auto

lemma register_device_fields:
  assumes "length (devices r) < MAX_DEVICES" "length (devfs_files r) < MAX_DEVICES" "register_device r s dev = (r', s')"
  shows "devices r' = devices r @ [dev] \<and> (\<forall>d. d_name (dobj r' d) = d_name (dobj r d)) \<and>
    devfs_files r' = devfs_files r @ [node_next s] \<and>
    node s' = (node s)(node_next s := zero_node\<lparr>n_name := d_name (dobj r dev), n_path := ''/dev/'' @ d_name (dobj r dev),
      n_eof := False, n_ops := devfs_fileops, n_pos := 0, n_type := FS_DEV, n_impl := dev\<rparr>)"
  using assms by (auto simp: register_device_def Let_def devfs_register_def new_node_def split: if_splits)

lemma register_device_lookup:
  assumes room: "length (devices r) < MAX_DEVICES" "length (devfs_files r) < MAX_DEVICES"
    and new: "\<forall>d \<in> set (devices r). d_name (dobj r d) \<noteq> d_name (dobj r dev)"
      "\<forall>n \<in> set (devfs_files r). n < node_next s \<and> n_name (node s n) \<noteq> d_name (dobj r dev)"
    and rs: "register_device r s dev = (r', s')" and w: "reg w = r'"
  shows "get_device r' (d_name (dobj r dev)) = Some dev \<and>
    (\<exists>n. devfs_open reg (s'\<lparr>fs_state := w\<rparr>) fs (CHR ''/'' # d_name (dobj r dev)) = Some (s'\<lparr>fs_state := w\<rparr>, Some n) \<and>
       n_impl (node s' n) = dev \<and> n_type (node s' n) = FS_DEV \<and> n_ops (node s' n) = devfs_fileops)"
proof -
  note f = register_device_fields[OF room rs]
  have "get_device r' (d_name (dobj r dev)) = Some dev"
    unfolding get_device_def using f new(1) by (simp add: find_append_new)
  moreover have "find (\<lambda>n. n_name (node s' n) = d_name (dobj r dev)) (devfs_files r') = Some (node_next s)"
    using f new(2) by (auto intro!: find_append_new)
  ultimately show ?thesis using f by (auto simp: devfs_open_def w)
qed

section \<open>Partitions confine transfers\<close>

lemma rebase_bind:
  "x \<bind> (\<lambda>(s, t, r). Some (s, t - l, r)) = map_option (\<lambda>(s, t, r). (s, t - l, r)) x" for l :: u32
  by (cases x) auto

text \<open>
  a transfer on a partition that starts inside it and whose end does not overflow is passed to the disk as a transfer
  of at most the requested number of sectors that lies within the partition, and the offset it returns is relative to
  the partition again; sector numbers do not wrap.
\<close>

lemma partition_confines_transfers:
  assumes "unat (gp_lba p) + unat (gp_sector_count p) < 4294967296" "off < gp_sector_count p"
    and "unat off + unat count < 4294967296" "d_read (gp_dev p) = Some rd" "d_write (gp_dev p) = Some wr"
  shows "\<exists>n lba. unat lba = unat (gp_lba p) + unat off \<and> n \<le> count \<and>
      unat lba + unat n \<le> unat (gp_lba p) + unat (gp_sector_count p) \<and>
      partdev_read p s buf count off = map_option (\<lambda>(s, o', r). (s, o' - gp_lba p, r)) (rd s buf n lba) \<and>
      partdev_write p s buf count off = map_option (\<lambda>(s, o', r). (s, o' - gp_lba p, r)) (wr s buf n lba)"
proof -
  define n where "n = (if off + count \<ge> gp_sector_count p then gp_sector_count p - off else count)"
  have lba: "unat (off + gp_lba p) = unat (gp_lba p) + unat off"
    using assms(1,2) by (simp add: unat_word_ariths word_less_nat_alt)
  have sum: "unat (off + count) = unat off + unat count" using assms(3) by (simp add: unat_word_ariths)
  have dif: "unat (gp_sector_count p - off) = unat (gp_sector_count p) - unat off"
    using assms(2) by (simp add: unat_sub)
  have "n \<le> count" "unat off + unat n \<le> unat (gp_sector_count p)"
    using assms(2) sum dif by (auto simp: n_def word_le_nat_alt word_less_nat_alt)
  moreover have "gp_sector_count p \<noteq> 0" using assms(2) by auto
  then have "partdev_read p s buf count off = map_option (\<lambda>(s, o', r). (s, o' - gp_lba p, r)) (rd s buf n (off + gp_lba p))"
    "partdev_write p s buf count off = map_option (\<lambda>(s, o', r). (s, o' - gp_lba p, r)) (wr s buf n (off + gp_lba p))"
    unfolding partdev_read_def partdev_write_def assms(4,5) n_def[symmetric] Let_def
    by (simp_all add: rebase_bind)
  ultimately show ?thesis using lba by (intro exI[of _ n] exI[of _ "off + gp_lba p"]) simp
qed

definition demo_disk :: "nat device" where
  "demo_disk = \<lparr>d_type = 2, d_class = 2, d_idx = 0, d_block_size = 512, d_name = ''ata0'',
     d_read = Some (\<lambda>s buf n off. Some (s, off + n, sint n)), d_seek = None,
     d_write = Some (\<lambda>s buf n off. Some (s + unat n, off + n, sint n)), d_ioctl = None, d_mmap = None, d_pos = 0\<rparr>"

definition demo_partition :: "nat generic_partition" where
  "demo_partition = \<lparr>gp_attr = 0, gp_dev = demo_disk, gp_lba = 100, gp_index = 0, gp_sector_count = 10\<rparr>"

lemma partition_confines_transfers_example:
  "\<exists>n lba. unat lba = 108 \<and> n \<le> (5 :: u32) \<and> unat lba + unat n \<le> 110 \<and>
    partdev_read demo_partition 0 0 5 8 =
      map_option (\<lambda>(s, o', r). (s, o' - 100, r)) ((\<lambda>s buf n off. Some (s, off + n, sint n)) 0 (0 :: u32) n lba)"
  using partition_confines_transfers[of demo_partition 8 5
      "\<lambda>s buf n off. Some (s, off + n, sint n)" "\<lambda>s buf n off. Some (s + unat n, off + n, sint n)" 0 0]
  by (simp add: demo_partition_def demo_disk_def) blast

text \<open>
  A transfer that starts behind the end is not refused: the shortened count wraps around, and the disk is asked for
  sectors outside the partition.
\<close>

lemma partdev_read_behind_end:
  assumes "gp_sector_count p \<noteq> 0" "gp_sector_count p \<le> off + count" "d_read (gp_dev p) = Some rd"
  shows "partdev_read p s buf count off =
    map_option (\<lambda>(s, o', r). (s, o' - gp_lba p, r)) (rd s buf (gp_sector_count p - off) (off + gp_lba p))"
  using assms by (simp add: partdev_read_def Let_def rebase_bind not_less)

text \<open>The boot flag of a partition table entry is looked for in bit 0 instead of bit 7.\<close>

lemma create_mbr_partition_attr:
  "gp_attr (create_mbr_partition dev idx p) = (if odd (mbr_attributes p) then PARTITION_ATTR_BOOTABLE else 0)"
  by (simp add: create_mbr_partition_def MBR_PART_ATTR_ACTIVE_BOOTABLE_def and_one_eq odd_iff_mod_2_eq_one)

end
