(* ===== verification/Initrd.thy ===== *)
theory Initrd
  imports Devices Cstring
begin

text \<open>
  The read-only file system of the initial ram disk, \<^verbatim>\<open>fs/initrd.c\<close>: a header count, an array of headers of 68 bytes
  (a name field of 60 bytes, length and offset) and the data behind them, all in memory. \<open>vfs_init\<close> of \<^verbatim>\<open>fs/vfs.c\<close>,
  which registers the built-in file systems, follows here because it needs both of them.

  The node's \<^verbatim>\<open>impl\<close> points to a cell that holds the header's index; the model keeps the index itself.
\<close>

record initrd =
  initrd_headers :: ptr
  initrd_nheaders :: u16
  initrd_data :: ptr

definition header_size :: u32 where "header_size = 68"

definition initrd_init :: "mem \<Rightarrow> u32 \<Rightarrow> initrd" where
  "initrd_init m module_start =
     (let start = ADDR_TO_VIRT module_start;
          n = ucast (m start) OR push_bit 8 (ucast (m (start + 1))) :: u16;
          headers = start + 2
      in \<lparr>initrd_headers = headers, initrd_nheaders = n, initrd_data = headers + ucast n * header_size\<rparr>)"

definition hdr_at :: "initrd \<Rightarrow> nat \<Rightarrow> ptr" where
  "hdr_at d i = initrd_headers d + of_nat i * header_size"

definition hdr_length :: "mem \<Rightarrow> initrd \<Rightarrow> nat \<Rightarrow> u32" where
  "hdr_length m d i = load32 m (hdr_at d i + 60)"

definition hdr_offset :: "mem \<Rightarrow> initrd \<Rightarrow> nat \<Rightarrow> u32" where
  "hdr_offset m d i = load32 m (hdr_at d i + 64)"

text \<open>
  The loop compares its \<open>int\<close> counter with the unsigned expression \<^verbatim>\<open>header.length - *offset\<close>, which wraps when the
  offset is behind the end. The counter overflows, which C leaves undefined, after 2147483648 steps: a fault of the model.
\<close>

definition read_count :: "mem \<Rightarrow> initrd \<Rightarrow> nat \<Rightarrow> size_t \<Rightarrow> u32 \<Rightarrow> u32" where
  "read_count m d i nbytes off = min (hdr_length m d i - off) nbytes"

definition initrdfs_read ::
    "initrd \<Rightarrow> mem \<Rightarrow> fs_node \<Rightarrow> ptr \<Rightarrow> size_t \<Rightarrow> u32 \<Rightarrow> (mem \<times> fs_node \<times> u32 \<times> int) option" where
  "initrdfs_read d m file buffer nbytes off =
     (let n = read_count m d (n_impl file) nbytes off;
          src = initrd_data d + hdr_offset m d (n_impl file)
      in if unat n \<ge> 2147483648 then None
         else
           let m = for_upto (unat n) (\<lambda>i m. m(buffer + of_nat i := m (src + of_nat i + off))) m;
               file = (if n = 0 then file\<lparr>n_eof := True\<rparr> else file)
           in Some (m, file, off + n, sint n))"

definition initrdfs_seek :: "initrd \<Rightarrow> mem \<Rightarrow> fs_node \<Rightarrow> int \<Rightarrow> int \<Rightarrow> fs_node \<times> int" where
  "initrdfs_seek d m file pos whence = generic_file_seek_size file pos (hdr_length m d (n_impl file) - 1) whence"

definition initrdfs_fileops :: fops where "initrdfs_fileops = Fs_ops 2"

text \<open>The string at an address, up to its terminator.\<close>

partial_function (option) cstr_from :: "mem \<Rightarrow> ptr \<Rightarrow> string option" where
  "cstr_from m p =
     (if m p = 0 then Some [] else do { s \<leftarrow> cstr_from m (p + 1); Some (char_of (unat (m p)) # s) })"

declare cstr_from.simps [code]

fun initrd_search :: "mem \<Rightarrow> initrd \<Rightarrow> string \<Rightarrow> nat list \<Rightarrow> nat option option" where
  "initrd_search m d path [] = Some None"
| "initrd_search m d path (i # is) = do {
     name \<leftarrow> cstr_from m (hdr_at d i);
     if name = path then Some (Some i) else initrd_search m d path is }"

text \<open>\<open>junk\<close> is the content of the block \<open>kmalloc\<close> returned for the node: only four fields are assigned.\<close>

definition initrdfs_open ::
    "('w \<Rightarrow> mem) \<Rightarrow> initrd \<Rightarrow> fs_node \<Rightarrow> 'w nodes \<Rightarrow> filesystem \<Rightarrow> string \<Rightarrow> ('w nodes \<times> nat option) option" where
  "initrdfs_open memf d junk s fs path = do {
     r \<leftarrow> initrd_search (memf (fs_state s)) d path [0..<unat (initrd_nheaders d)];
     case r of
       None \<Rightarrow> Some (s, None)
     | Some i \<Rightarrow>
         let (n, s) = new_node (junk\<lparr>n_type := FS_FILE, n_ops := initrdfs_fileops, n_pos := 0, n_impl := i\<rparr>) s
         in Some (s, Some n) }"

definition initrdfs :: "('w \<Rightarrow> mem) \<Rightarrow> initrd \<Rightarrow> fs_node \<Rightarrow> 'w fs_operations" where
  "initrdfs memf d junk = \<lparr>fso_name = ''initrd'', fso_open = initrdfs_open memf d junk, fso_create = None, fso_mount = None\<rparr>"

definition initrdfs_init :: "('w \<Rightarrow> mem) \<Rightarrow> initrd \<Rightarrow> fs_node \<Rightarrow> 'w vfs \<Rightarrow> 'w vfs option" where
  "initrdfs_init memf d junk v = vfs_register v (initrdfs memf d junk)"

definition vfs_init ::
    "('w \<Rightarrow> mem) \<Rightarrow> ('w \<Rightarrow> 's devreg) \<Rightarrow> initrd \<Rightarrow> fs_node \<Rightarrow> 'w vfs \<Rightarrow> 'w nodes \<Rightarrow> ('w vfs \<times> 'w nodes) option" where
  "vfs_init memf reg d junk v s = do {
     v \<leftarrow> initrdfs_init memf d junk v;
     v \<leftarrow> devfs_init reg v;
     (v, s, _) \<leftarrow> vfs_mount v s ''/dev'' (vfs_get_filesystem v ''devfs'') None;
     Some (v, s) }"

section \<open>Reading files\<close>

lemma copy_loop:
  fixes buffer src :: u32
  assumes "n < 4294967296" and "\<And>i j. i < n \<Longrightarrow> j < n \<Longrightarrow> buffer + of_nat i \<noteq> src + of_nat j"
  shows "for_upto n (\<lambda>i m. m(buffer + of_nat i := m (src + of_nat i))) m =
    (\<lambda>a. if unat (a - buffer) < n then m (src + (a - buffer)) else m a)"
  using assms
proof (induction n)
  case (Suc n)
  have "m (src + of_nat n) =
      (if unat (src + of_nat n - buffer) < n then m (src + (src + of_nat n - buffer)) else m (src + of_nat n))"
    using Suc.prems(2)[of "unat (src + of_nat n - buffer)" n] by auto
  moreover have "unat (a - buffer) < Suc n \<longleftrightarrow> unat (a - buffer) < n \<or> a = buffer + of_nat n" for a
    using Suc.prems(1) by (intro in_window_Suc) simp
  ultimately show ?case using Suc by (auto simp: fun_eq_iff)
qed simp

definition file_bytes :: "mem \<Rightarrow> initrd \<Rightarrow> nat \<Rightarrow> u8 list" where
  "file_bytes m d i =
     map (\<lambda>k. m (initrd_data d + hdr_offset m d i + of_nat k)) [0..<unat (hdr_length m d i)]"

text \<open>
  Reading an initial-ram-disk file at an offset inside it stores the next bytes of the file in the buffer, as many as
  requested or as are left, changes no other memory, advances the offset by that number and returns it; the end-of-file
  mark is set exactly when nothing was left or requested.
\<close>

lemma initrd_read_content:
  assumes "off \<le> hdr_length m d (n_impl file)" "unat (hdr_length m d (n_impl file)) < 2147483648"
    and "regions_disjoint buffer (min (unat nbytes) (unat (hdr_length m d (n_impl file))))
      (initrd_data d + hdr_offset m d (n_impl file)) (unat (hdr_length m d (n_impl file)))"
  shows "let bs = take (unat nbytes) (drop (unat off) (file_bytes m d (n_impl file)))
    in \<exists>m'. initrdfs_read d m file buffer nbytes off =
         Some (m', if bs = [] then file\<lparr>n_eof := True\<rparr> else file, off + of_nat (length bs), int (length bs)) \<and>
       (\<forall>k < length bs. m' (buffer + of_nat k) = bs ! k) \<and>
       (\<forall>a. unat (a - buffer) \<ge> length bs \<longrightarrow> m' a = m a)"
proof -
  let ?len = "hdr_length m d (n_impl file)"
  let ?src = "initrd_data d + hdr_offset m d (n_impl file)"
  define n where "n = read_count m d (n_impl file) nbytes off"
  define bs where "bs = take (unat nbytes) (drop (unat off) (file_bytes m d (n_impl file)))"
  have un: "unat n = min (unat ?len - unat off) (unat nbytes)"
    using assms(1) by (simp add: n_def read_count_def min_def unat_sub word_le_nat_alt)
  have len: "length bs = unat n" using un by (simp add: bs_def file_bytes_def min.commute)
  have off: "unat off \<le> unat ?len" using assms(1) by (simp add: word_le_nat_alt)
  have small: "unat n < 2147483648" using un assms(2) by simp
  have dis: "buffer + of_nat i \<noteq> (?src + off) + of_nat j" if "i < unat n" "j < unat n" for i j
  proof -
    have "buffer + of_nat i \<noteq> ?src + of_nat (unat off + j)"
      using assms(3) that un off assms(2) unat_u32_bound[of nbytes] by (intro region_disjoint_neq) auto
    then show ?thesis by (simp add: add.assoc)
  qed
  let ?m' = "\<lambda>a. if unat (a - buffer) < unat n then m (?src + off + (a - buffer)) else m a"
  have "for_upto (unat n) (\<lambda>i m. m(buffer + of_nat i := m (?src + of_nat i + off))) m = ?m'"
    using copy_loop[of "unat n" buffer "?src + off" m] dis small by (simp add: ac_simps)
  moreover have "sint n = int (unat n)" unfolding sint_u32 using small by (rule if_P)
  ultimately have "initrdfs_read d m file buffer nbytes off =
      Some (?m', if bs = [] then file\<lparr>n_eof := True\<rparr> else file, off + of_nat (length bs), int (length bs))"
    using small len by (auto simp: initrdfs_read_def n_def[symmetric] Let_def unat_eq_0 simp flip: length_0_conv)
  moreover have "?m' (buffer + of_nat k) = bs ! k" if "k < length bs" for k
  proof -
    have k: "k < unat n" "unat off + k < unat ?len" "k < unat nbytes" using that len un by auto
    then have "unat (of_nat k :: u32) = k" using small by (simp add: of_nat_unat_u32)
    moreover have "bs ! k = m (?src + off + of_nat k)" using k by (simp add: bs_def file_bytes_def add.assoc)
    ultimately show ?thesis using k(1) by simp
  qed
  ultimately show ?thesis unfolding bs_def[symmetric] Let_def
    by (intro exI[of _ ?m']) (simp add: len)
qed
definition demo_initrd :: initrd where
  "demo_initrd = \<lparr>initrd_headers = 1000, initrd_nheaders = 1, initrd_data = 1068\<rparr>"

definition demo_image :: mem where
  "demo_image = (\<lambda>_. 0)(1000 := 0x61, 1060 := 3, 1068 := 7, 1069 := 8, 1070 := 9)"

lemma demo_image_header: "hdr_length demo_image demo_initrd 0 = 3" "hdr_offset demo_image demo_initrd 0 = 0"
  by (simp_all add: hdr_length_def hdr_offset_def hdr_at_def demo_initrd_def demo_image_def load32_def)

lemma initrd_read_content_example:
  "\<exists>m'. initrdfs_read demo_initrd demo_image demo_node 5000 9 1 = Some (m', demo_node, 3, 2) \<and>
     m' 5000 = 8 \<and> m' 5001 = 9 \<and> m' 5002 = demo_image 5002"
proof -
  have i: "n_impl demo_node = 0" by (simp add: demo_node_def demo_nodes_def)
  have b: "take (unat (9 :: u32)) (drop (unat (1 :: u32)) (file_bytes demo_image demo_initrd 0)) = [8, 9]"
    unfolding file_bytes_def demo_image_header
    by (simp add: demo_initrd_def demo_image_def upt_conv_Cons)
  obtain m' where m': "initrdfs_read demo_initrd demo_image demo_node 5000 9 1 =
      Some (m', if [8, 9 :: u8] = [] then demo_node\<lparr>n_eof := True\<rparr> else demo_node, 1 + of_nat (length [8, 9 :: u8]),
        int (length [8, 9 :: u8]))"
    "\<forall>k < length [8, 9 :: u8]. m' (5000 + of_nat k) = [8, 9] ! k"
    "\<forall>a. unat (a - 5000) \<ge> length [8, 9 :: u8] \<longrightarrow> m' a = demo_image a"
    using initrd_read_content[of 1 demo_image demo_initrd demo_node 5000 9] unfolding i b Let_def demo_image_header
    by (auto simp: regions_disjoint_def demo_initrd_def)
  show ?thesis using m'(1) m'(2)[rule_format, of 0] m'(2)[rule_format, of 1] m'(3)[rule_format, of 5002]
    by (intro exI[of _ m']) simp
qed

text \<open>
  Seeking to the end of a file stops one byte early, because the size passed on is the length less one; in an empty file
  every seek but a query of the position fails.
\<close>

lemma initrd_seek_end:
  assumes "0 < hdr_length m d (n_impl file)" "uint (hdr_length m d (n_impl file)) < 2147483648"
  shows "initrdfs_seek d m file 0 SEEK_END =
    (file\<lparr>n_pos := hdr_length m d (n_impl file) - 1\<rparr>, uint (hdr_length m d (n_impl file)) - 1)"
proof -
  let ?l = "hdr_length m d (n_impl file)"
  have "0 < uint ?l" using assms(1) by (simp add: word_less_def)
  then have u: "uint (?l - 1) = uint ?l - 1" using assms(2) by (simp add: uint_word_ariths mod_pos_pos_trivial)
  have w: "wrap32 (uint ?l - 1) = uint ?l - 1" using wrap32_eq[of "uint ?l - 1"] assms(2) \<open>0 < uint ?l\<close> by simp
  have "sint (?l - 1) = uint ?l - 1" using sint_uint_small[of "?l - 1"] u assms(2) by simp
  then show ?thesis
    using u w \<open>0 < uint ?l\<close>
    by (simp add: initrdfs_seek_def generic_file_seek_size_def vfs_setpos_def SEEK_END_def SEEK_CUR_def)
qed

end
