(* ===== verification/Ext2.thy ===== *)
theory Ext2
  imports Vfs
begin

text \<open>
  The ext2 file system, \<^verbatim>\<open>fs/ext2.c\<close> (reading: the source has no writing beyond the positions).

  The device below is a parameter: \<open>bd_read sector n\<close> is what a buffer holds after the driver was asked for \<open>n\<close> sectors, and
  \<open>bd_size\<close> its sector size, which is not 0. The kernel's temporary buffers are private to the functions and appear as byte
  lists; a transfer that fills the caller's buffer from its start on returns the bytes it stores there, so the C result of
  a transfer is the length of that list. Bytes read behind the end of a buffer are given by \<open>bd_junk\<close>. Requests for memory
  are taken to succeed. \<open>None\<close> is a fault (a failed assertion, a panic, an index outside a table, an overrun of the
  path buffer).
\<close>

record blockdev =
  bd_size :: u32
  bd_read :: "u32 \<Rightarrow> u32 \<Rightarrow> u8 list"
  bd_junk :: "nat \<Rightarrow> u8"

section \<open>Structures on disk\<close>

definition byte_of :: "blockdev \<Rightarrow> u8 list \<Rightarrow> nat \<Rightarrow> u8" where
  "byte_of d b k = (if k < length b then b ! k else bd_junk d k)"

definition le16 :: "blockdev \<Rightarrow> u8 list \<Rightarrow> nat \<Rightarrow> u16" where
  "le16 d b k = ucast (byte_of d b k) OR push_bit 8 (ucast (byte_of d b (k + 1)))"

definition le32 :: "blockdev \<Rightarrow> u8 list \<Rightarrow> nat \<Rightarrow> u32" where
  "le32 d b k = ucast (byte_of d b k) OR push_bit 8 (ucast (byte_of d b (k + 1))) OR
     push_bit 16 (ucast (byte_of d b (k + 2))) OR push_bit 24 (ucast (byte_of d b (k + 3)))"

record ext2_superblock =
  total_blocks :: u32
  log_block_size :: u32
  blocks_per_blk_group :: u32
  inodes_per_blk_group :: u32
  signature :: u16
  inode_size :: u32

record ext2_inode =
  type_permissions :: u16
  size_lo :: u32
  dblocks :: "u32 list"
  single_idblock_ptr :: u32
  double_idblock_ptr :: u32
  triple_idblock_ptr :: u32

record ext2_private =
  x_super :: ext2_superblock
  x_bgdt :: "u32 list"
  x_root :: ext2_inode
  bgdt_block :: u32
  num_block_groups :: u32
  block_size :: u32

definition EXT2_SIGNATURE :: u16 where "EXT2_SIGNATURE = 0xef53"
definition EXT2_ROOT_INODE :: u32 where "EXT2_ROOT_INODE = 2"
definition EXT2_INODE_DBLOCKS_COUNT :: nat where "EXT2_INODE_DBLOCKS_COUNT = 12"
definition EXT2_INODE_IDBLOCKS_COUNT :: "u32 \<Rightarrow> u32" where "EXT2_INODE_IDBLOCKS_COUNT bsize = bsize div 4"
definition EXT2_INODE_T_FIFO :: u16 where "EXT2_INODE_T_FIFO = 0x1000"
definition EXT2_INODE_T_DIR :: u16 where "EXT2_INODE_T_DIR = 0x4000"
definition EXT2_INODE_T_FILE :: u16 where "EXT2_INODE_T_FILE = 0x8000"
definition EXT2_INODE_T_SOCKET :: u16 where "EXT2_INODE_T_SOCKET = 0xc000"

text \<open>The fields of the packed structures the code uses, at their offsets.\<close>

definition super_of :: "blockdev \<Rightarrow> u8 list \<Rightarrow> ext2_superblock" where
  "super_of d b = \<lparr>total_blocks = le32 d b 4, log_block_size = le32 d b 24, blocks_per_blk_group = le32 d b 32,
     inodes_per_blk_group = le32 d b 40, signature = le16 d b 56, inode_size = le32 d b 88\<rparr>"

definition inode_of :: "blockdev \<Rightarrow> u8 list \<Rightarrow> ext2_inode" where
  "inode_of d b = \<lparr>type_permissions = le16 d b 0, size_lo = le32 d b 4, dblocks = map (\<lambda>i. le32 d b (40 + 4 * i)) [0..<12],
     single_idblock_ptr = le32 d b 88, double_idblock_ptr = le32 d b 92, triple_idblock_ptr = le32 d b 96\<rparr>"

section \<open>Blocks and inodes\<close>

definition ext2_read_block :: "blockdev \<Rightarrow> ext2_private \<Rightarrow> u32 \<Rightarrow> u8 list" where
  "ext2_read_block d x block =
     (let sector = (block * block_size x) div bd_size d;
          n_sectors = word_of_int (ceil_div (sint (block_size x)) (sint (bd_size d)))
      in bd_read d sector n_sectors)"

text \<open>\<^verbatim>\<open>CEIL_DIV\<close> of \<^verbatim>\<open>tools.h\<close> on unsigned values.\<close>

definition CEIL_DIV :: "u32 \<Rightarrow> u32 \<Rightarrow> u32" where
  "CEIL_DIV a b = a div b + (if a mod b \<noteq> 0 then 1 else 0)"

definition inode_lba :: "blockdev \<Rightarrow> ext2_private \<Rightarrow> u32 \<Rightarrow> u32 \<Rightarrow> u32" where
  "inode_lba d x table index =
     (let isz = inode_size (x_super x);
          block = table + (index * isz) div block_size x;
          offset = (index * isz) mod block_size x
      in (block * block_size x + offset) div bd_size d)"

definition ext2_get_inode :: "blockdev \<Rightarrow> ext2_private \<Rightarrow> u32 \<Rightarrow> ext2_inode option" where
  "ext2_get_inode d x inode =
     (let inode = inode - 1;
          per = inodes_per_blk_group (x_super x)
      in if per = 0 then None
         else
           let group_idx = unat (inode div per);
               index = inode mod per
           in if group_idx \<ge> length (x_bgdt x) \<or> inode_size (x_super x) \<noteq> 512 then None
              else
                let lba = inode_lba d x (x_bgdt x ! group_idx) index;
                    sectors = CEIL_DIV (inode_size (x_super x)) (bd_size d)
                in Some (inode_of d (bd_read d lba sectors)))"

definition ext2_inode_size :: "ext2_inode \<Rightarrow> u32" where
  "ext2_inode_size inode = size_lo inode"

section \<open>File data\<close>

text \<open>
  The loop of \<open>ext2_sync_direct_blocks\<close>: \<open>k\<close> iterations are left, \<open>i\<close> is the index of the next pointer, \<open>r\<close> the bytes stored
  so far. A zero pointer skips the rest of the iteration, the reset of \<open>byte_offset\<close> included. In the writing mode
  nothing is transferred.
\<close>

fun direct_loop ::
    "blockdev \<Rightarrow> ext2_private \<Rightarrow> u32 list \<Rightarrow> bool \<Rightarrow> u32 \<Rightarrow> nat \<Rightarrow> nat \<Rightarrow> u32 \<Rightarrow> u8 list \<Rightarrow> u8 list" where
  "direct_loop d x blocks write nbytes 0 i byte_offset r = r"
| "direct_loop d x blocks write nbytes (Suc k) i byte_offset r =
     (if \<not> length r \<le> unat nbytes then r
      else if blocks ! i = 0 then direct_loop d x blocks write nbytes k (Suc i) byte_offset r
      else
        let left = nbytes - of_nat (length r);
            room = block_size x - byte_offset;
            n = (if left > room then room else left);
            r = (if write then r
                 else r @ map (byte_of d (ext2_read_block d x (blocks ! i))) [unat byte_offset..<unat byte_offset + unat n])
        in direct_loop d x blocks write nbytes k (Suc i) 0 r)"

definition ext2_sync_direct_blocks ::
    "blockdev \<Rightarrow> ext2_private \<Rightarrow> u32 list \<Rightarrow> nat \<Rightarrow> u32 \<Rightarrow> u32 \<Rightarrow> bool \<Rightarrow> u8 list" where
  "ext2_sync_direct_blocks d x blocks nblocks offset nbytes write =
     (let block_offset = unat (offset div block_size x);
          byte_offset = offset mod block_size x
      in direct_loop d x blocks write nbytes (nblocks - block_offset) block_offset byte_offset [])"

definition pointers :: "blockdev \<Rightarrow> ext2_private \<Rightarrow> u32 \<Rightarrow> u32 list" where
  "pointers d x pointer_block =
     map (\<lambda>i. le32 d (ext2_read_block d x pointer_block) (4 * i)) [0..<unat (EXT2_INODE_IDBLOCKS_COUNT (block_size x))]"

definition ext2_sync_indirect_blocks ::
    "blockdev \<Rightarrow> ext2_private \<Rightarrow> u32 \<Rightarrow> u32 \<Rightarrow> u32 \<Rightarrow> bool \<Rightarrow> u8 list" where
  "ext2_sync_indirect_blocks d x pointer_block offset nbytes write =
     ext2_sync_direct_blocks d x (pointers d x pointer_block) (unat (EXT2_INODE_IDBLOCKS_COUNT (block_size x)))
       offset nbytes write"

text \<open>The test for a missing pointer looks at the first one of the run (\<open>idx\<close>) in every iteration.\<close>

fun doubly_loop ::
    "blockdev \<Rightarrow> ext2_private \<Rightarrow> u32 list \<Rightarrow> bool \<Rightarrow> nat \<Rightarrow> nat \<Rightarrow> nat \<Rightarrow> u32 \<Rightarrow> u32 \<Rightarrow> u8 list" where
  "doubly_loop d x idbuf write idx 0 i offset nbytes = []"
| "doubly_loop d x idbuf write idx (Suc k) i offset nbytes =
     (if nbytes = 0 then []
      else if idbuf ! idx = 0 then []
      else
        let dr = ext2_sync_indirect_blocks d x (idbuf ! i) offset nbytes write
        in dr @ doubly_loop d x idbuf write idx k (Suc i) 0 (nbytes - of_nat (length dr)))"

definition ext2_sync_doubly_indirect_blocks ::
    "blockdev \<Rightarrow> ext2_private \<Rightarrow> u32 \<Rightarrow> u32 \<Rightarrow> u32 \<Rightarrow> bool \<Rightarrow> u8 list" where
  "ext2_sync_doubly_indirect_blocks d x pointer_block offset nbytes write =
     (let cnt = EXT2_INODE_IDBLOCKS_COUNT (block_size x);
          block_offset = offset div block_size x;
          idx = block_offset div cnt;
          offset = offset - idx * cnt * block_size x
      in doubly_loop d x (pointers d x pointer_block) write (unat idx) (unat cnt - unat idx) (unat idx) offset nbytes)"

text \<open>
  \<open>ext2_sync_inode_data\<close> in its three steps. Each takes the offset and the number of bytes left and returns the bytes it
  stored; the comparisons of the total with what is left are those of the source.
\<close>

definition sync_double ::
    "blockdev \<Rightarrow> ext2_private \<Rightarrow> ext2_inode \<Rightarrow> u32 \<Rightarrow> u8 list \<Rightarrow> u32 \<Rightarrow> u32 \<Rightarrow> bool \<Rightarrow> u8 list" where
  "sync_double d x inode block_offset r offset nbytes write =
     (let cnt = EXT2_INODE_IDBLOCKS_COUNT (block_size x)
      in if block_offset < of_nat EXT2_INODE_DBLOCKS_COUNT + cnt + cnt * cnt \<and> double_idblock_ptr inode \<noteq> 0
         then r @ ext2_sync_doubly_indirect_blocks d x (double_idblock_ptr inode) offset nbytes write
         else r)"

definition sync_single ::
    "blockdev \<Rightarrow> ext2_private \<Rightarrow> ext2_inode \<Rightarrow> u32 \<Rightarrow> u8 list \<Rightarrow> u32 \<Rightarrow> u32 \<Rightarrow> bool \<Rightarrow> u8 list" where
  "sync_single d x inode block_offset r offset nbytes write =
     (let cnt = EXT2_INODE_IDBLOCKS_COUNT (block_size x)
      in if block_offset < of_nat EXT2_INODE_DBLOCKS_COUNT + cnt \<and> single_idblock_ptr inode \<noteq> 0
         then
           let dr = ext2_sync_indirect_blocks d x (single_idblock_ptr inode) offset nbytes write;
               r = r @ dr
           in if of_nat (length r) = nbytes then r
              else sync_double d x inode block_offset r 0 (nbytes - of_nat (length dr)) write
         else sync_double d x inode block_offset r (offset - cnt * block_size x) nbytes write)"

definition ext2_sync_inode_data ::
    "blockdev \<Rightarrow> ext2_private \<Rightarrow> ext2_inode \<Rightarrow> u32 \<Rightarrow> u32 \<Rightarrow> bool \<Rightarrow> u8 list" where
  "ext2_sync_inode_data d x inode offset nbytes write =
     (let block_offset = offset div block_size x
      in if \<not> write \<and> offset \<ge> ext2_inode_size inode then []
         else
           let nbytes = (if offset + nbytes > ext2_inode_size inode then ext2_inode_size inode - offset else nbytes)
           in if block_offset < of_nat EXT2_INODE_DBLOCKS_COUNT
              then
                let r = ext2_sync_direct_blocks d x (dblocks inode) EXT2_INODE_DBLOCKS_COUNT offset nbytes write
                in if of_nat (length r) = nbytes then r
                   else sync_single d x inode block_offset r 0 (nbytes - of_nat (length r)) write
              else sync_single d x inode block_offset [] (offset - of_nat EXT2_INODE_DBLOCKS_COUNT * block_size x) nbytes write)"

text \<open>The cached inode of the open file and its end-of-file mark are arguments; the result is the bytes stored, mark and offset.\<close>

definition ext2_read :: "blockdev \<Rightarrow> ext2_private \<Rightarrow> ext2_inode \<Rightarrow> bool \<Rightarrow> u32 \<Rightarrow> u32 \<Rightarrow> u8 list \<times> bool \<times> u32" where
  "ext2_read d x cached eof n off =
     (let r = ext2_sync_inode_data d x cached off n False
      in (r, if off + n = ext2_inode_size cached then True else eof, off + of_nat (length r)))"

definition ext2_write :: "blockdev \<Rightarrow> ext2_private \<Rightarrow> ext2_inode \<Rightarrow> u32 \<Rightarrow> u32 \<Rightarrow> u8 list \<times> u32" where
  "ext2_write d x cached n off =
     (let r = ext2_sync_inode_data d x cached off n True in (r, off + of_nat (length r)))"

definition ext2_seek :: "ext2_inode \<Rightarrow> fs_node \<Rightarrow> int \<Rightarrow> int \<Rightarrow> fs_node \<times> int" where
  "ext2_seek cached file pos whence = generic_file_seek_size file pos (ext2_inode_size cached - 1) whence"

section \<open>Directories\<close>

record ext2_entry =
  en_inode :: u32
  en_type :: u8
  en_name :: "u8 list"
  en_offset :: u32

text \<open>
  The raw entry of 8 bytes: inode, size of the entry, length of the name, type. \<open>ext2_iter\<close> returns the entry it stored (if
  any), the end-of-file mark, the new offset and the C result. With \<open>max_name_len = 0\<close> the limit wraps around.
\<close>

definition ext2_iter ::
    "blockdev \<Rightarrow> ext2_private \<Rightarrow> ext2_inode \<Rightarrow> bool \<Rightarrow> u32 \<Rightarrow> u32 \<Rightarrow> ext2_entry option \<times> bool \<times> u32 \<times> u32" where
  "ext2_iter d x cached eof max_name_len off =
     (let (raw, eof, tmpoff) = ext2_read d x cached eof 8 off
      in if length raw < 8 then (None, eof, off, 0)
         else
           let name_length = ucast (raw ! 6);
               len = (if max_name_len - 1 > name_length then name_length else max_name_len - 1);
               (name, eof, tmpoff) = ext2_read d x cached eof len tmpoff
           in (Some \<lparr>en_inode = le32 d raw 0, en_type = raw ! 7, en_name = name, en_offset = off\<rparr>, eof,
               off + ucast (le16 d raw 4), of_nat (length raw + length name)))"

definition raw_size :: "blockdev \<Rightarrow> u8 list \<Rightarrow> nat \<Rightarrow> nat" where "raw_size d b p = unat (le16 d b (p + 4))"
definition raw_name_length :: "blockdev \<Rightarrow> u8 list \<Rightarrow> nat \<Rightarrow> nat" where "raw_name_length d b p = unat (byte_of d b (p + 6))"

definition raw_entry :: "blockdev \<Rightarrow> u8 list \<Rightarrow> nat \<Rightarrow> ext2_entry" where
  "raw_entry d b p = \<lparr>en_inode = le32 d b p, en_type = byte_of d b (p + 7),
     en_name = map (byte_of d b) [p + 8..<p + 8 + raw_name_length d b p], en_offset = of_nat p\<rparr>"

text \<open>
  The loop of \<open>ext2_read_dentries\<close> over the first block: \<open>raw\<close> is the entry that the loop condition looks at (the previous
  one), \<open>i\<close> the position and \<open>j\<close> the index of the next entry. An unused entry (inode 0) counts without being stored.
\<close>

function dentries_loop ::
    "blockdev \<Rightarrow> u8 list \<Rightarrow> nat \<Rightarrow> nat \<Rightarrow> nat \<Rightarrow> nat \<Rightarrow> nat \<Rightarrow> ext2_entry option list \<Rightarrow> ext2_entry option list \<times> nat" where
  "dentries_loop d b bs n raw i j ds =
     (if i < bs \<and> j < n \<and> (raw_size d b raw \<noteq> 0 \<or> raw_name_length d b raw \<noteq> 0)
      then if le32 d b i = 0 then dentries_loop d b bs n i (i + raw_size d b i) (Suc j) ds
           else if raw_size d b i = 0 then (ds, j)
           else dentries_loop d b bs n i (i + raw_size d b i) (Suc j) (ds[j := Some (raw_entry d b i)])
      else (ds, j))"
  by auto
termination by (relation "measure (\<lambda>(d, b, bs, n, raw, i, j, ds). n - j)") auto

declare dentries_loop.simps [simp del]

definition dir_block :: "blockdev \<Rightarrow> ext2_private \<Rightarrow> ext2_inode \<Rightarrow> u8 list" where
  "dir_block d x inode =
     (let r = ext2_sync_inode_data d x inode 0 (block_size x) False
      in r @ replicate (unat (block_size x) - length r) 0)"

definition ext2_read_dentries ::
    "blockdev \<Rightarrow> ext2_private \<Rightarrow> ext2_inode \<Rightarrow> nat \<Rightarrow> ext2_entry option list \<Rightarrow> ext2_entry option list \<times> nat" where
  "ext2_read_dentries d x inode n ds = dentries_loop d (dir_block d x inode) (unat (block_size x)) n 0 0 0 ds"

section \<open>Opening and mounting\<close>

text \<open>The fragments of a path, as \<open>strsplt\<close> stores them in an array of 100 strings of 256 bytes.\<close>

fun split_on :: "char \<Rightarrow> string \<Rightarrow> string list" where
  "split_on c [] = [[]]"
| "split_on c (a # s) = (if a = c then [] # split_on c s else (a # hd (split_on c s)) # tl (split_on c s))"

definition path_fragments :: "string \<Rightarrow> string list option" where
  "path_fragments path =
     (let f = split_on CHR ''/'' path
      in if length f > 100 \<or> (\<exists>s \<in> set f. length s \<ge> 256) then None else Some f)"

text \<open>\<open>strcmp\<close> with a name: the comparison ends at its first NUL byte. An entry that was never stored is a wild pointer.\<close>

definition name_matches :: "string \<Rightarrow> ext2_entry \<Rightarrow> bool" where
  "name_matches frag en \<longleftrightarrow> map of_char frag = takeWhile (\<lambda>c. c \<noteq> 0) (en_name en)"

fun find_entry :: "string \<Rightarrow> ext2_entry option list \<Rightarrow> ext2_entry option option" where
  "find_entry frag [] = Some None"
| "find_entry frag (e # es) = do { en \<leftarrow> e; if name_matches frag en then Some (Some en) else find_entry frag es }"

text \<open>In C, \<^verbatim>\<open>curr->type_permissions & EXT2_INODE_T_DIR == 0\<close> is \<^verbatim>\<open>type_permissions & (EXT2_INODE_T_DIR == 0)\<close>.\<close>

fun open_walk ::
    "blockdev \<Rightarrow> ext2_private \<Rightarrow> ext2_entry option list \<Rightarrow> ext2_inode \<Rightarrow> u32 \<Rightarrow> string list \<Rightarrow> (ext2_inode \<times> u32) option option" where
  "open_walk d x ds cnode icurr [] = Some (Some (cnode, icurr))"
| "open_walk d x ds cnode icurr (frag # frags) =
     (if type_permissions cnode AND (if EXT2_INODE_T_DIR = 0 then 1 else 0) \<noteq> 0 \<or> frag = []
      then open_walk d x ds cnode icurr frags
      else
        let (ds, n) = ext2_read_dentries d x cnode 1024 ds
        in do {
          r \<leftarrow> find_entry frag (take n ds);
          case r of
            None \<Rightarrow> Some None
          | Some en \<Rightarrow> do { next \<leftarrow> ext2_get_inode d x (en_inode en); open_walk d x ds next (en_inode en) frags } })"

text \<open>The four tests of \<^verbatim>\<open>DEFINE_NODE_TYPE\<close> in order; \<open>old\<close> is what the fresh block held.\<close>

definition node_type :: "u8 \<Rightarrow> u16 \<Rightarrow> u8" where
  "node_type old perms =
     (let t = old;
          t = (if perms AND EXT2_INODE_T_FIFO \<noteq> 0 then FS_PIPE else t);
          t = (if perms AND EXT2_INODE_T_SOCKET \<noteq> 0 then FS_SOCKET else t);
          t = (if perms AND EXT2_INODE_T_DIR \<noteq> 0 then FS_DIR else t)
      in if perms AND EXT2_INODE_T_FILE \<noteq> 0 then FS_FILE else t)"

definition ext2_file_ops :: fops where "ext2_file_ops = Fs_ops 3"

text \<open>The result is the node and the inode cached for it; the inner \<open>None\<close> is \<open>NULL\<close>.\<close>

definition ext2_open :: "blockdev \<Rightarrow> ext2_private \<Rightarrow> fs_node \<Rightarrow> string \<Rightarrow> (fs_node \<times> ext2_inode) option option" where
  "ext2_open d x junk path = do {
     frags \<leftarrow> path_fragments path;
     r \<leftarrow> open_walk d x (replicate 1024 None) (x_root x) EXT2_ROOT_INODE
       (if path \<noteq> [] \<and> hd path = CHR ''/'' then tl frags else frags);
     case r of
       None \<Rightarrow> Some None
     | Some (cnode, icurr) \<Rightarrow> do {
         inode \<leftarrow> ext2_get_inode d x icurr;
         Some (Some (junk\<lparr>n_type := node_type (n_type junk) (type_permissions cnode), n_ops := ext2_file_ops,
           n_impl := unat icurr, n_size := ext2_inode_size inode, n_inode := icurr\<rparr>, inode)) } }"

definition ext2_mount :: "blockdev \<Rightarrow> ext2_inode \<Rightarrow> ext2_private option" where
  "ext2_mount d junk =
     (let super = super_of d (bd_read d 2 2)
      in if signature super \<noteq> EXT2_SIGNATURE then None
         else
           let bs = push_bit (unat (log_block_size super)) 1024;
               bgdt_blk = (if bs = 1024 then 2 else 1);
               off = (bgdt_blk * bs) div bd_size d;
               groups = word_of_int (ceil_div (sint (total_blocks super)) (sint (blocks_per_blk_group super)));
               bgdt_size = 32 * groups;
               sectors = word_of_int (ceil_div (sint bgdt_size) (sint (bd_size d)));
               buf = bd_read d off sectors;
               x = \<lparr>x_super = super, x_bgdt = map (\<lambda>i. le32 d buf (32 * i + 8)) [0..<unat groups], x_root = junk,
                    bgdt_block = bgdt_blk, num_block_groups = groups, block_size = bs\<rparr>
           in do { root \<leftarrow> ext2_get_inode d x EXT2_ROOT_INODE; Some (x\<lparr>x_root := root\<rparr>) })"

section \<open>Reading returns the contents of the file\<close>

text \<open>The bytes of a block, and of the blocks a list of pointers refers to.\<close>

definition block_data :: "blockdev \<Rightarrow> ext2_private \<Rightarrow> u32 \<Rightarrow> u8 list" where
  "block_data d x b = map (byte_of d (ext2_read_block d x b)) [0..<unat (block_size x)]"

definition blocks_data :: "blockdev \<Rightarrow> ext2_private \<Rightarrow> u32 list \<Rightarrow> u8 list" where
  "blocks_data d x ps = concat (map (block_data d x) ps)"

lemma length_block_data [simp]: "length (block_data d x b) = unat (block_size x)"
  by (simp add: block_data_def)

lemma length_blocks_data: "length (blocks_data d x ps) = length ps * unat (block_size x)"
  by (simp add: blocks_data_def length_concat comp_def sum_list_triv)

lemma blocks_data_Cons: "blocks_data d x (p # ps) = block_data d x p @ blocks_data d x ps"
  by (simp add: blocks_data_def)

lemma blocks_data_append: "blocks_data d x (ps @ qs) = blocks_data d x ps @ blocks_data d x qs"
  by (simp add: blocks_data_def)

lemma drop_blocks_data:
  assumes "q \<le> length ps"
  shows "drop (q * unat (block_size x) + k) (blocks_data d x ps) = drop k (blocks_data d x (drop q ps))"
proof -
  have "blocks_data d x ps = blocks_data d x (take q ps) @ blocks_data d x (drop q ps)"
    by (metis append_take_drop_id blocks_data_append)
  moreover have "length (blocks_data d x (take q ps)) = q * unat (block_size x)"
    using assms by (simp add: length_blocks_data)
  ultimately show ?thesis by simp
qed

lemma direct_loop_full: "length r = unat nbytes \<Longrightarrow> direct_loop d x ps False nbytes k i bo r = r"
proof (induction k arbitrary: i bo)
  case (Suc k)
  have "nbytes - of_nat (length r) = 0" using Suc.prems by simp
  then show ?case using Suc by (auto simp: Let_def)
qed simp

lemma direct_piece:
  assumes "bo < block_size x" "length r \<le> unat nbytes"
  defines "left \<equiv> nbytes - of_nat (length r)" and "room \<equiv> block_size x - bo"
  defines "n \<equiv> if left > room then room else left"
  shows "map (byte_of d (ext2_read_block d x b)) [unat bo..<unat bo + unat n] =
      take (unat nbytes - length r) (drop (unat bo) (block_data d x b))"
    "unat n = min (unat nbytes - length r) (unat (block_size x) - unat bo)"
proof -
  have len: "unat (of_nat (length r) :: u32) = length r"
    using assms(2) unat_u32_bound[of nbytes] by (intro of_nat_unat_u32) simp
  have l: "unat left = unat nbytes - length r"
    unfolding left_def using assms(2) len by (subst unat_sub) (simp_all add: word_le_nat_alt)
  have r: "unat room = unat (block_size x) - unat bo"
    unfolding room_def using assms(1) by (intro unat_sub) simp
  show n: "unat n = min (unat nbytes - length r) (unat (block_size x) - unat bo)"
    using l r by (auto simp: n_def word_less_nat_alt min_def)
  show "map (byte_of d (ext2_read_block d x b)) [unat bo..<unat bo + unat n] =
      take (unat nbytes - length r) (drop (unat bo) (block_data d x b))"
    using assms(1) by (intro nth_equalityI) (auto simp: n block_data_def word_less_nat_alt)
qed

lemma direct_loop_ok:
  assumes "block_size x \<noteq> 0" "bo < block_size x" "length r \<le> unat nbytes" "i + k \<le> length ps"
    and "\<And>j. j < k \<Longrightarrow> length r + j * unat (block_size x) < unat nbytes + unat bo \<Longrightarrow> length r < unat nbytes \<Longrightarrow> ps ! (i + j) \<noteq> 0"
  shows "direct_loop d x ps False nbytes k i bo r =
    r @ take (unat nbytes - length r) (drop (unat bo) (blocks_data d x (take k (drop i ps))))"
  using assms
proof (induction k arbitrary: i bo r)
  case 0
  then show ?case by (simp add: blocks_data_def)
next
  case (Suc k)
  let ?bs = "unat (block_size x)"
  show ?case
  proof (cases "length r = unat nbytes")
    case True
    then show ?thesis by (simp add: direct_loop_full del: direct_loop.simps)
  next
    case False
    define m where "m = unat nbytes - length r"
    define piece where "piece = take m (drop (unat bo) (block_data d x (ps ! i)))"
    have bo: "unat bo < ?bs" using Suc.prems(2) by (simp add: word_less_nat_alt)
    have lp: "length piece = min m (?bs - unat bo)" by (simp add: piece_def min.commute)
    have nz: "ps ! i \<noteq> 0" using Suc.prems(5)[of 0] Suc.prems(3) False by simp
    have "direct_loop d x ps False nbytes (Suc k) i bo r = direct_loop d x ps False nbytes k (Suc i) 0 (r @ piece)"
      using nz Suc.prems(3) direct_piece(1)[OF Suc.prems(2,3), of d "ps ! i"] by (simp add: Let_def piece_def m_def)
    also have "\<dots> = (r @ piece) @ take (unat nbytes - length (r @ piece)) (drop (unat (0 :: u32)) (blocks_data d x (take k (drop (Suc i) ps))))"
    proof (rule Suc.IH)
      show "length (r @ piece) \<le> unat nbytes" using lp Suc.prems(3) by (simp add: m_def)
      show "ps ! (Suc i + j) \<noteq> 0" if "j < k" "length (r @ piece) + j * ?bs < unat nbytes + unat (0 :: u32)" "length (r @ piece) < unat nbytes" for j
      proof -
        have "length piece = ?bs - unat bo" using that(3) lp Suc.prems(3) by (auto simp: m_def min_def split: if_splits)
        then have "length r + Suc j * ?bs < unat nbytes + unat bo" using that(2) bo by simp
        then show ?thesis using Suc.prems(5)[of "Suc j"] that(1) False Suc.prems(3) by simp
      qed
    qed (use Suc.prems in \<open>auto simp: word_neq_0_conv\<close>)
    also have "\<dots> = r @ take m (drop (unat bo) (block_data d x (ps ! i)) @ blocks_data d x (take k (drop (Suc i) ps)))"
      using lp bo by (auto simp: piece_def m_def min_def)
    also have "drop (unat bo) (block_data d x (ps ! i)) @ blocks_data d x (take k (drop (Suc i) ps)) =
        drop (unat bo) (blocks_data d x (take (Suc k) (drop i ps)))"
    proof -
      have "take (Suc k) (drop i ps) = ps ! i # take k (drop (Suc i) ps)"
        using Suc.prems(4) by (simp add: Cons_nth_drop_Suc[symmetric])
      then show ?thesis using bo by (simp add: blocks_data_Cons)
    qed
    finally show ?thesis unfolding m_def .
  qed
qed

lemma sync_direct_ok:
  assumes bs: "block_size x \<noteq> 0"
    and ps: "\<And>j. j < length ps \<Longrightarrow> j * unat (block_size x) < unat offset + unat nbytes \<Longrightarrow> ps ! j \<noteq> 0"
  shows "ext2_sync_direct_blocks d x ps (length ps) offset nbytes False =
    take (unat nbytes) (drop (unat offset) (blocks_data d x ps))"
proof -
  let ?bs = "unat (block_size x)"
  define q bo where "q = unat (offset div block_size x)" and "bo = offset mod block_size x"
  have off: "unat offset = q * ?bs + unat bo" by (simp add: q_def bo_def unat_div unat_mod)
  have bo: "bo < block_size x" using bs by (simp add: bo_def word_mod_less_divisor word_neq_0_conv)
  show ?thesis
  proof (cases "q \<le> length ps")
    case True
    have "direct_loop d x ps False nbytes (length ps - q) q bo [] =
        [] @ take (unat nbytes - length ([] :: u8 list)) (drop (unat bo) (blocks_data d x (take (length ps - q) (drop q ps))))"
    proof (rule direct_loop_ok[OF bs bo])
      fix j assume j: "j < length ps - q" "length ([] :: u8 list) + j * ?bs < unat nbytes + unat bo"
      then have "(q + j) * ?bs < unat offset + unat nbytes" using off by (simp add: add_mult_distrib)
      then show "ps ! (q + j) \<noteq> 0" using ps[of "q + j"] j(1) by simp
    qed (use True in auto)
    moreover have "drop (unat offset) (blocks_data d x ps) = drop (unat bo) (blocks_data d x (drop q ps))"
      unfolding off by (rule drop_blocks_data[OF True])
    ultimately show ?thesis by (simp add: ext2_sync_direct_blocks_def Let_def q_def[symmetric] bo_def[symmetric])
  next
    case False
    then have "length ps * ?bs \<le> q * ?bs" by (intro mult_le_mono1) simp
    then have "length (blocks_data d x ps) \<le> unat offset" unfolding length_blocks_data off by (rule trans_le_add1)
    then show ?thesis using False by (simp add: ext2_sync_direct_blocks_def Let_def q_def[symmetric])
  qed
qed

text \<open>The part of a file the direct and singly indirect blocks reach.\<close>

definition file_blocks :: "blockdev \<Rightarrow> ext2_private \<Rightarrow> ext2_inode \<Rightarrow> u32 list" where
  "file_blocks d x inode = dblocks inode @ (if single_idblock_ptr inode = 0 then [] else pointers d x (single_idblock_ptr inode))"

definition file_content :: "blockdev \<Rightarrow> ext2_private \<Rightarrow> ext2_inode \<Rightarrow> u8 list" where
  "file_content d x inode = take (unat (size_lo inode)) (blocks_data d x (file_blocks d x inode))"

text \<open>A file without holes that needs no doubly indirect blocks.\<close>

definition plain_file :: "blockdev \<Rightarrow> ext2_private \<Rightarrow> ext2_inode \<Rightarrow> bool" where
  "plain_file d x inode \<longleftrightarrow> block_size x \<noteq> 0 \<and> length (dblocks inode) = EXT2_INODE_DBLOCKS_COUNT \<and>
     unat (size_lo inode) \<le> length (file_blocks d x inode) * unat (block_size x) \<and>
     (\<forall>j < length (file_blocks d x inode). j * unat (block_size x) < unat (size_lo inode) \<longrightarrow> file_blocks d x inode ! j \<noteq> 0)"

lemma length_pointers [simp]: "length (pointers d x p) = unat (EXT2_INODE_IDBLOCKS_COUNT (block_size x))"
  by (simp add: pointers_def)

lemma sync_double_done: "sync_double d x inode bo r 0 0 False = r"
proof -
  have "doubly_loop d x idbuf False idx k i off 0 = []" for idbuf idx k i off by (cases k) simp_all
  then show ?thesis by (simp add: sync_double_def ext2_sync_doubly_indirect_blocks_def Let_def)
qed

text \<open>The singly indirect step, when the pointers it needs are there and the data it is asked for exists.\<close>

lemma sync_single_ok:
  assumes "block_size x \<noteq> 0" "single_idblock_ptr inode \<noteq> 0" "unat bo < 12 + unat (EXT2_INODE_IDBLOCKS_COUNT (block_size x))"
    and "\<And>j. j < length (pointers d x (single_idblock_ptr inode)) \<Longrightarrow>
      j * unat (block_size x) < unat offset + unat nbytes \<Longrightarrow> pointers d x (single_idblock_ptr inode) ! j \<noteq> 0"
    and "unat offset + unat nbytes \<le> length (blocks_data d x (pointers d x (single_idblock_ptr inode)))"
  shows "sync_single d x inode bo r offset nbytes False =
    r @ take (unat nbytes) (drop (unat offset) (blocks_data d x (pointers d x (single_idblock_ptr inode))))"
proof -
  let ?I = "pointers d x (single_idblock_ptr inode)"
  have dr: "ext2_sync_indirect_blocks d x (single_idblock_ptr inode) offset nbytes False =
      take (unat nbytes) (drop (unat offset) (blocks_data d x ?I))"
    unfolding ext2_sync_indirect_blocks_def using sync_direct_ok[OF assms(1,4), where d = d] by simp
  define dat where "dat = take (unat nbytes) (drop (unat offset) (blocks_data d x ?I))"
  have len: "length dat = unat nbytes" using assms(5) by (simp add: dat_def)
  have "unat (EXT2_INODE_IDBLOCKS_COUNT (block_size x)) \<le> 1073741823"
    using unat_u32_bound[of "block_size x"] by (simp add: EXT2_INODE_IDBLOCKS_COUNT_def unat_div)
  then have "unat (of_nat EXT2_INODE_DBLOCKS_COUNT + EXT2_INODE_IDBLOCKS_COUNT (block_size x)) =
      12 + unat (EXT2_INODE_IDBLOCKS_COUNT (block_size x))"
    by (simp add: EXT2_INODE_DBLOCKS_COUNT_def unat_word_ariths)
  then have "bo < of_nat EXT2_INODE_DBLOCKS_COUNT + EXT2_INODE_IDBLOCKS_COUNT (block_size x)"
    using assms(3) by (simp add: word_less_nat_alt)
  then show ?thesis using assms(2) unfolding dat_def[symmetric]
    by (simp add: sync_single_def Let_def dr[folded dat_def] len sync_double_done)
qed

lemma plain_file_parts:
  assumes "plain_file d x inode"
  defines "I \<equiv> if single_idblock_ptr inode = 0 then [] else pointers d x (single_idblock_ptr inode)"
  shows "length (blocks_data d x (dblocks inode)) = 12 * unat (block_size x)"
    and "unat (size_lo inode) \<le> 12 * unat (block_size x) + length (blocks_data d x I)"
    and "j < 12 \<Longrightarrow> j * unat (block_size x) < unat (size_lo inode) \<Longrightarrow> dblocks inode ! j \<noteq> 0"
    and "j < length I \<Longrightarrow> 12 * unat (block_size x) + j * unat (block_size x) < unat (size_lo inode) \<Longrightarrow> I ! j \<noteq> 0"
proof -
  have p: "length (dblocks inode) = 12" "unat (size_lo inode) \<le> length (dblocks inode @ I) * unat (block_size x)"
    "\<And>j. j < length (dblocks inode @ I) \<Longrightarrow> j * unat (block_size x) < unat (size_lo inode) \<Longrightarrow> (dblocks inode @ I) ! j \<noteq> 0"
    using assms by (auto simp: plain_file_def file_blocks_def EXT2_INODE_DBLOCKS_COUNT_def I_def)
  show "length (blocks_data d x (dblocks inode)) = 12 * unat (block_size x)" by (simp add: length_blocks_data p(1))
  show "unat (size_lo inode) \<le> 12 * unat (block_size x) + length (blocks_data d x I)"
    using p(1,2) by (simp add: length_blocks_data add_mult_distrib)
  show "dblocks inode ! j \<noteq> 0" if "j < 12" "j * unat (block_size x) < unat (size_lo inode)"
    using p(3)[of j] that p(1) by (simp add: nth_append)
  show "I ! j \<noteq> 0" if "j < length I" "12 * unat (block_size x) + j * unat (block_size x) < unat (size_lo inode)"
    using p(3)[of "12 + j"] that p(1) by (simp add: nth_append add_mult_distrib)
qed

text \<open>A request that reaches behind the direct blocks finds the indirect block.\<close>

lemma plain_file_single:
  assumes pf: "plain_file d x inode" and N: "unat offset < unat (size_lo inode)" "12 * unat (block_size x) < unat (size_lo inode)"
  shows "single_idblock_ptr inode \<noteq> 0 \<and>
    unat (offset div block_size x) < 12 + unat (EXT2_INODE_IDBLOCKS_COUNT (block_size x)) \<and>
    unat (size_lo inode) \<le> 12 * unat (block_size x) + length (blocks_data d x (pointers d x (single_idblock_ptr inode)))"
proof -
  note P = plain_file_parts[OF pf]
  have bs: "0 < unat (block_size x)" using pf by (simp add: plain_file_def unat_gt_0)
  have s: "single_idblock_ptr inode \<noteq> 0" using P(2) N(2) by (auto simp: blocks_data_def split: if_splits)
  then have sz: "unat (size_lo inode) \<le> 12 * unat (block_size x) + length (blocks_data d x (pointers d x (single_idblock_ptr inode)))"
    using P(2) by simp
  then have "unat offset < (12 + unat (EXT2_INODE_IDBLOCKS_COUNT (block_size x))) * unat (block_size x)"
    using N by (simp add: length_blocks_data add_mult_distrib)
  then show ?thesis using s sz bs by (simp add: unat_div div_less_iff_less_mult)
qed

lemma sync_from_direct:
  assumes pf: "plain_file d x inode" and N: "unat offset + unat N \<le> unat (size_lo inode)" "unat offset < unat (size_lo inode)"
    and off: "unat offset < 12 * unat (block_size x)"
  defines "r \<equiv> ext2_sync_direct_blocks d x (dblocks inode) EXT2_INODE_DBLOCKS_COUNT offset N False"
  shows "(if of_nat (length r) = N then r else sync_single d x inode (offset div block_size x) r 0 (N - of_nat (length r)) False) =
    take (unat N) (drop (unat offset) (blocks_data d x (file_blocks d x inode)))" (is "_ = ?R")
proof -
  let ?bs = "unat (block_size x)"
  note P = plain_file_parts[OF pf]
  have bs: "block_size x \<noteq> 0" and l12: "length (dblocks inode) = EXT2_INODE_DBLOCKS_COUNT" using pf by (auto simp: plain_file_def)
  have r: "r = take (unat N) (drop (unat offset) (blocks_data d x (dblocks inode)))"
    unfolding r_def l12[symmetric] using P(3) N(1) l12 EXT2_INODE_DBLOCKS_COUNT_def by (intro sync_direct_ok[OF bs]) auto
  have lr: "length r = min (unat N) (12 * ?bs - unat offset)" by (simp add: r P(1) min.commute)
  have ur: "unat (of_nat (length r) :: u32) = length r" using lr unat_u32_bound[of N] by (intro of_nat_unat_u32) auto
  have eqN: "of_nat (length r) = N \<longleftrightarrow> length r = unat N" using ur by (auto simp: word_unat_eq_iff)
  show ?thesis
  proof (cases "length r = unat N")
    case True
    then have "?R = r" using lr by (simp add: r P(1) file_blocks_def blocks_data_append)
    then show ?thesis using True eqN by simp
  next
    case False
    then have lr': "length r = 12 * ?bs - unat offset" "12 * ?bs < unat offset + unat N" using lr by auto
    note S = plain_file_single[OF pf N(2) less_le_trans[OF lr'(2) N(1)]]
    have s: "single_idblock_ptr inode \<noteq> 0" using S by simp
    have left: "unat (N - of_nat (length r)) = unat N - length r"
      using lr ur by (subst unat_sub) (simp_all add: word_le_nat_alt)
    have "sync_single d x inode (offset div block_size x) r 0 (N - of_nat (length r)) False =
        r @ take (unat (N - of_nat (length r))) (drop (unat (0 :: u32)) (blocks_data d x (pointers d x (single_idblock_ptr inode))))"
      using P(4) N(1) s lr' left off S by (intro sync_single_ok[OF bs s]) auto
    also have "\<dots> = ?R" unfolding left using s lr' off by (simp add: r P(1) file_blocks_def blocks_data_append)
    finally show ?thesis using False eqN by simp
  qed
qed

lemma sync_from_indirect:
  assumes pf: "plain_file d x inode" and N: "unat offset + unat N \<le> unat (size_lo inode)" "unat offset < unat (size_lo inode)"
    and off: "\<not> unat offset < 12 * unat (block_size x)"
  shows "sync_single d x inode (offset div block_size x) [] (offset - of_nat EXT2_INODE_DBLOCKS_COUNT * block_size x) N False =
    take (unat N) (drop (unat offset) (blocks_data d x (file_blocks d x inode)))" (is "_ = ?R")
proof -
  let ?bs = "unat (block_size x)"
  note P = plain_file_parts[OF pf]
  have bs: "block_size x \<noteq> 0" using pf by (simp add: plain_file_def)
  have "12 * ?bs < unat (size_lo inode)" using off N(2) by simp
  note S = plain_file_single[OF pf N(2) this]
  have s: "single_idblock_ptr inode \<noteq> 0" using S by simp
  have "unat (of_nat EXT2_INODE_DBLOCKS_COUNT * block_size x) = 12 * ?bs"
    using off unat_u32_bound[of offset] by (simp add: EXT2_INODE_DBLOCKS_COUNT_def unat_word_ariths)
  then have o': "unat (offset - of_nat EXT2_INODE_DBLOCKS_COUNT * block_size x) = unat offset - 12 * ?bs"
    using off by (subst unat_sub) (simp_all add: word_le_nat_alt)
  have "sync_single d x inode (offset div block_size x) [] (offset - of_nat EXT2_INODE_DBLOCKS_COUNT * block_size x) N False =
      [] @ take (unat N) (drop (unat offset - 12 * ?bs) (blocks_data d x (pointers d x (single_idblock_ptr inode))))"
    unfolding o'[symmetric] using P(4) N(1) s o' off S by (intro sync_single_ok[OF bs s]) auto
  also have "\<dots> = ?R" using s off by (simp add: P(1) file_blocks_def blocks_data_append)
  finally show ?thesis .
qed

lemma length_file_content: "plain_file d x inode \<Longrightarrow> length (file_content d x inode) = unat (size_lo inode)"
  by (simp add: file_content_def plain_file_def length_blocks_data)

lemma sync_inode_ok:
  assumes pf: "plain_file d x inode" and sum: "unat offset + unat n < 4294967296"
  shows "ext2_sync_inode_data d x inode offset n False = take (unat n) (drop (unat offset) (file_content d x inode))"
proof (cases "offset < size_lo inode")
  case False
  then show ?thesis
    using length_file_content[OF pf] by (simp add: ext2_sync_inode_data_def ext2_inode_size_def not_less word_le_nat_alt)
next
  case True
  define N where "N = (if offset + n > size_lo inode then size_lo inode - offset else n)"
  have o: "unat offset < unat (size_lo inode)" using True by (simp add: word_less_nat_alt)
  have sub: "unat (size_lo inode - offset) = unat (size_lo inode) - unat offset" using True by (intro unat_sub) simp
  have "unat (offset + n) = unat offset + unat n" using sum by (simp add: unat_word_ariths)
  then have N: "unat N = min (unat n) (unat (size_lo inode) - unat offset)"
    using sub by (auto simp: N_def word_less_nat_alt min_def)
  have le: "unat offset + unat N \<le> unat (size_lo inode)" using N o by simp
  have nle: "\<not> size_lo inode \<le> offset" using True by simp
  have q12: "offset div block_size x < of_nat EXT2_INODE_DBLOCKS_COUNT \<longleftrightarrow> unat offset < 12 * unat (block_size x)"
    using pf by (simp add: plain_file_def word_less_nat_alt unat_div EXT2_INODE_DBLOCKS_COUNT_def div_less_iff_less_mult unat_gt_0)
  have C: "take (unat n) (drop (unat offset) (file_content d x inode)) =
      take (unat N) (drop (unat offset) (blocks_data d x (file_blocks d x inode)))"
    by (simp add: file_content_def N drop_take min.commute)
  have "ext2_sync_inode_data d x inode offset n False =
      take (unat N) (drop (unat offset) (blocks_data d x (file_blocks d x inode)))"
  proof (cases "unat offset < 12 * unat (block_size x)")
    case direct: True
    show ?thesis using sync_from_direct[OF pf le o direct] q12 direct nle
      by (simp only: ext2_sync_inode_data_def ext2_inode_size_def N_def[symmetric] Let_def simp_thms if_True if_False)
  next
    case indirect: False
    show ?thesis using sync_from_indirect[OF pf le o indirect] q12 indirect nle
      by (simp only: ext2_sync_inode_data_def ext2_inode_size_def N_def[symmetric] Let_def simp_thms if_True if_False)
  qed
  then show ?thesis using C by simp
qed

text \<open>
  C29: for a file without holes within its direct and singly indirect blocks, \<open>ext2_read\<close> stores exactly the bytes of the file
  from the offset on, as many as requested or as the file has left, and advances the offset by their number; the end of
  the file is marked only when the request ends exactly there.
\<close>

theorem ext2_read_content:
  assumes "plain_file d x inode" "unat off + unat n < 4294967296"
  shows "let bs = take (unat n) (drop (unat off) (file_content d x inode))
    in ext2_read d x inode eof n off = (bs, eof \<or> unat off + unat n = unat (size_lo inode), off + of_nat (length bs))"
proof -
  have "off + n = size_lo inode \<longleftrightarrow> unat off + unat n = unat (size_lo inode)"
    using assms(2) by (simp add: word_unat_eq_iff unat_word_ariths)
  then show ?thesis using sync_inode_ok[OF assms] by (simp add: ext2_read_def ext2_inode_size_def Let_def)
qed

text \<open>A disk of 4-byte sectors, each holding its own number, with blocks of 8 bytes.\<close>

definition demo_blockdev :: blockdev where
  "demo_blockdev = \<lparr>bd_size = 4, bd_read = \<lambda>s n. concat (map (\<lambda>i. replicate 4 (ucast (s + of_nat i))) [0..<unat n]), bd_junk = \<lambda>_. 0\<rparr>"

definition demo_ext2 :: ext2_private where
  "demo_ext2 = \<lparr>x_super = \<lparr>total_blocks = 64, log_block_size = 0, blocks_per_blk_group = 64, inodes_per_blk_group = 8,
      signature = EXT2_SIGNATURE, inode_size = 512\<rparr>, x_bgdt = [5],
     x_root = \<lparr>type_permissions = EXT2_INODE_T_DIR, size_lo = 0, dblocks = replicate 12 0, single_idblock_ptr = 0,
       double_idblock_ptr = 0, triple_idblock_ptr = 0\<rparr>,
     bgdt_block = 2, num_block_groups = 1, block_size = 8\<rparr>"

definition demo_inode :: ext2_inode where
  "demo_inode = (x_root demo_ext2)\<lparr>type_permissions := EXT2_INODE_T_FILE, size_lo := 13, dblocks := [20, 30] @ replicate 10 0\<rparr>"

theorem ext2_read_content_witness:
  "ext2_read demo_blockdev demo_ext2 demo_inode False 9 6 = ([41, 41, 60, 60, 60, 60, 61], False, 13)"
proof -
  have pf: "plain_file demo_blockdev demo_ext2 demo_inode"
    by (auto simp: plain_file_def demo_inode_def demo_ext2_def file_blocks_def EXT2_INODE_DBLOCKS_COUNT_def nth_Cons' nth_append)
  have s: "take 7 (drop 6 (take 13 (blocks_data demo_blockdev demo_ext2 (20 # 30 # replicate 10 0)))) = [41, 41, 60, 60, 60, 60, 61]"
    by code_simp
  have "take (unat (9 :: u32)) (drop (unat (6 :: u32)) (file_content demo_blockdev demo_ext2 demo_inode)) = [41, 41, 60, 60, 60, 60, 61]"
    using s by (simp add: file_content_def file_blocks_def demo_inode_def demo_ext2_def)
  then show ?thesis using ext2_read_content[OF pf, of 6 9 False] by (simp add: demo_inode_def Let_def)
qed

section \<open>Inodes, types and limits of the code\<close>

text \<open>On a disk with sectors of 512 bytes an inode is read from its place in the table of its group.\<close>

lemma inode_lba_exact:
  assumes "bd_size d = 512" "inode_size (x_super x) = 512" "512 dvd unat (block_size x)" "block_size x \<noteq> 0"
    and "unat table * unat (block_size x) + (unat index + 1) * 512 < 4294967296"
  shows "unat (inode_lba d x table index) * 512 = unat table * unat (block_size x) + unat index * 512"
proof -
  let ?bs = "unat (block_size x)"
  let ?i = "unat index * 512"
  have i: "unat (index * 512) = ?i" using assms(5) by (simp add: unat_word_ariths)
  have bs: "0 < ?bs" using assms(4) by (simp add: unat_gt_0)
  have split: "(unat table + ?i div ?bs) * ?bs + ?i mod ?bs = unat table * ?bs + ?i"
    by (simp add: add_mult_distrib)
  have "(unat table + ?i div ?bs) * ?bs \<le> unat table * ?bs + ?i" using split by (metis le_add1)
  also have "\<dots> < 4294967296" using assms(5) by simp
  finally have b2: "(unat table + ?i div ?bs) * ?bs < 4294967296" .
  have "unat table + ?i div ?bs \<le> (unat table + ?i div ?bs) * ?bs" using bs by simp
  then have b1: "unat table + ?i div ?bs < 4294967296" using b2 by (rule le_less_trans)
  moreover have e: "unat ((index * 512) div block_size x) = ?i div ?bs" "unat ((index * 512) mod block_size x) = ?i mod ?bs"
    by (simp_all only: unat_div unat_mod i)
  ultimately have b: "unat (table + (index * 512) div block_size x) = unat table + ?i div ?bs"
    using unat_add_lem[of table "(index * 512) div block_size x"] by simp
  then have m: "unat ((table + (index * 512) div block_size x) * block_size x) = (unat table + ?i div ?bs) * ?bs"
    using unat_mult_lem[of "table + (index * 512) div block_size x" "block_size x"] b2 by simp
  have "(unat table + ?i div ?bs) * ?bs + ?i mod ?bs < 4294967296" unfolding split using assms(5) by simp
  then have "unat ((table + (index * 512) div block_size x) * block_size x + (index * 512) mod block_size x) =
      unat table * ?bs + ?i"
    using unat_add_lem[of "(table + (index * 512) div block_size x) * block_size x" "(index * 512) mod block_size x"] m e(2) split
    by simp
  then have "unat (inode_lba d x table index) = (unat table * ?bs + ?i) div 512"
    by (simp add: inode_lba_def assms(1,2) Let_def unat_div)
  moreover have "512 dvd unat table * ?bs + ?i" using assms(3) by simp
  ultimately show ?thesis by simp
qed

text \<open>Writing is not implemented: nothing is transferred and the result is 0, whatever is written.\<close>

lemma direct_loop_write: "direct_loop d x ps True nbytes k i bo r = r"
  by (induction k arbitrary: i bo) (auto simp: Let_def)

lemma doubly_loop_write: "doubly_loop d x ps True idx k i off n = []"
  by (induction k arbitrary: i off n)
    (simp_all add: ext2_sync_indirect_blocks_def ext2_sync_direct_blocks_def direct_loop_write Let_def)

lemma ext2_write_nothing: "ext2_write d x cached n off = ([], off)"
  by (simp add: ext2_write_def ext2_sync_inode_data_def sync_single_def sync_double_def ext2_sync_indirect_blocks_def
    ext2_sync_doubly_indirect_blocks_def ext2_sync_direct_blocks_def direct_loop_write doubly_loop_write Let_def)

text \<open>
  The last test of the type bits wins: a socket is opened as a regular file and a block device as a directory; a
  character device keeps the type that the fresh block held.
\<close>

lemma node_type_socket: "node_type old (EXT2_INODE_T_SOCKET OR perm) = FS_FILE"
proof -
  have "bit ((EXT2_INODE_T_SOCKET OR perm) AND EXT2_INODE_T_FILE) 15"
    by (simp add: EXT2_INODE_T_SOCKET_def EXT2_INODE_T_FILE_def bit_simps)
  then have "(EXT2_INODE_T_SOCKET OR perm) AND EXT2_INODE_T_FILE \<noteq> 0" by (metis bit_0_eq bot_apply bot_bool_def)
  then show ?thesis by (simp add: node_type_def)
qed

lemma node_type_devices: "node_type old 0x6000 = FS_DIR" "node_type old 0x2000 = old"
  by (simp_all add: node_type_def EXT2_INODE_T_FIFO_def EXT2_INODE_T_SOCKET_def EXT2_INODE_T_DIR_def EXT2_INODE_T_FILE_def)

text \<open>
  The test for completion compares all bytes stored so far with the bytes left before the indirect step: when they happen
  to be equal the transfer ends early, with \<open>length r\<close> bytes missing.
\<close>

lemma sync_single_stops_early:
  fixes d x inode offset nbytes
  defines "dr \<equiv> ext2_sync_indirect_blocks d x (single_idblock_ptr inode) offset nbytes False"
  assumes "bo < of_nat EXT2_INODE_DBLOCKS_COUNT + EXT2_INODE_IDBLOCKS_COUNT (block_size x)" "single_idblock_ptr inode \<noteq> 0"
    and "unat nbytes = length r + length dr"
  shows "sync_single d x inode bo r offset nbytes False = r @ dr \<and> unat nbytes - length dr = length r"
proof -
  have "of_nat (length (r @ dr)) = nbytes" using assms(4) of_nat_unat_u32[of "length (r @ dr)"] unat_u32_bound[of nbytes]
    by (simp add: word_unat_eq_iff del: of_nat_add)
  then show ?thesis using assms by (simp add: sync_single_def Let_def)
qed

end
