(* ===== verification/Pipe.thy ===== *)
theory Pipe
  imports Ringbuffer Devices
begin

text \<open>
  Pipes, \<^verbatim>\<open>fs/pipe.c\<close>: a ring buffer of bytes with counts of its readers and writers. Reading from an empty pipe and
  writing to one without room yield the processor and try again: that state is the result \<open>Blocked\<close>, after which the
  waiting part of the operation (\<open>pipe_read_ready\<close>, \<open>pipe_file_write\<close>) is entered again with whatever the other tasks
  have left. A fault is \<open>None\<close>.
\<close>

record pipe =
  pp_buf :: ringbuffer
  n_writers :: int
  n_readers :: int

datatype 'a blocking = Done 'a | Blocked

definition PIPE_SIZE :: u32 where "PIPE_SIZE = 4096"

definition POLLIN :: u16 where "POLLIN = 1"
definition POLLOUT :: u16 where "POLLOUT = 2"

record pipes =
  pipe_at :: "nat \<Rightarrow> pipe"
  pipe_next :: nat
  open_pipes :: "(u32 \<times> u32 \<times> nat) list"

definition upd_pipe :: "nat \<Rightarrow> (pipe \<Rightarrow> pipe) \<Rightarrow> pipes \<Rightarrow> pipes" where
  "upd_pipe i f ps = ps\<lparr>pipe_at := (pipe_at ps)(i := f (pipe_at ps i))\<rparr>"

definition new_pipe :: "pipe \<Rightarrow> pipes \<Rightarrow> nat \<times> pipes" where
  "new_pipe p ps = (pipe_next ps, ps\<lparr>pipe_at := (pipe_at ps)(pipe_next ps := p), pipe_next := Suc (pipe_next ps)\<rparr>)"

section \<open>Operations\<close>

text \<open>
  The table of named pipes is searched by inode alone. \<open>rbp\<close>, \<open>rb0\<close> and \<open>data\<close> are the blocks that \<open>kmalloc\<close> returns to
  \<open>ringbuffer_create\<close>.
\<close>

definition pipe_open ::
    "ptr \<Rightarrow> ringbuffer \<Rightarrow> ptr \<Rightarrow> mem \<Rightarrow> pipes \<Rightarrow> u32 \<Rightarrow> u32 \<Rightarrow> (mem \<times> pipes \<times> nat) option" where
  "pipe_open rbp rb0 data m ps device inode =
     (case find (\<lambda>(d, i, p). inode = i) (open_pipes ps) of
        Some (d, i, p) \<Rightarrow> Some (m, ps, p)
      | None \<Rightarrow> do {
          (m, rb) \<leftarrow> ringbuffer_create m rbp rb0 data PIPE_SIZE 1;
          let (p, ps) = new_pipe \<lparr>pp_buf = rb, n_writers = 0, n_readers = 0\<rparr> ps;
          Some (m, ps\<lparr>open_pipes := open_pipes ps @ [(device, inode, p)]\<rparr>, p) })"

text \<open>The loop of \<open>pipe_file_read\<close>; the first argument is what is left of \<open>count\<close>.\<close>

primrec pipe_read_loop :: "nat \<Rightarrow> mem \<Rightarrow> ringbuffer \<Rightarrow> ptr \<Rightarrow> (mem \<times> ringbuffer \<times> nat) option" where
  "pipe_read_loop 0 m rb buffer = Some (m, rb, 0)"
| "pipe_read_loop (Suc n) m rb buffer =
     (if rb_size rb = 0 then Some (m, rb, 0)
      else do {
        (rb', e) \<leftarrow> ringbuffer_pop rb;
        let m = memcpy m buffer e (elem_size rb');
        (m, rb', k) \<leftarrow> pipe_read_loop n m rb' (buffer + 1);
        Some (m, rb', Suc k) })"

definition pipe_read_ready ::
    "mem \<Rightarrow> pipe \<Rightarrow> ptr \<Rightarrow> size_t \<Rightarrow> u32 \<Rightarrow> (mem \<times> pipe \<times> u32 \<times> int) blocking option" where
  "pipe_read_ready m p buffer count off =
     (if rb_size (pp_buf p) = 0 then Some Blocked
      else do {
        (m, rb, i) \<leftarrow> pipe_read_loop (unat count) m (pp_buf p) buffer;
        Some (Done (m, p\<lparr>pp_buf := rb\<rparr>, off + of_nat i, sint (of_nat i :: u32))) })"

definition pipe_file_read ::
    "mem \<Rightarrow> pipe \<Rightarrow> fs_node \<Rightarrow> ptr \<Rightarrow> size_t \<Rightarrow> u32 \<Rightarrow> (mem \<times> pipe \<times> u32 \<times> int) blocking option" where
  "pipe_file_read m p file buffer count off =
     (if n_eof file then Some (Done (m, p, off, 0)) else pipe_read_ready m p buffer count off)"

definition pipe_file_write ::
    "mem \<Rightarrow> pipe \<Rightarrow> ptr \<Rightarrow> size_t \<Rightarrow> u32 \<Rightarrow> (mem \<times> pipe \<times> u32 \<times> int) blocking option" where
  "pipe_file_write m p buffer count off =
     (if rb_size (pp_buf p) + count > max_size (pp_buf p) then Some Blocked
      else do {
        (m, rb) \<leftarrow> ringbuffer_pushn m (pp_buf p) buffer count;
        Some (Done (m, p\<lparr>pp_buf := rb\<rparr>, off + count, sint count)) })"

text \<open>
  The two tables of operations differ in which member holds \<open>pipe_file_read\<close>: the table of the writing end has it as its
  \<open>write\<close>. Any other table has neither.
\<close>

definition pipe_file_close :: "pipe \<Rightarrow> fs_node \<Rightarrow> (pipe \<times> fs_node) option" where
  "pipe_file_close p file =
     (if n_ops file = No_ops then None
      else
        let p = (if n_ops file = Pipe_read_ops then p\<lparr>n_readers := n_readers p - 1\<rparr>
                 else if n_ops file = Pipe_write_ops then p\<lparr>n_writers := n_writers p - 1\<rparr> else p)
        in Some (p, if n_writers p = 0 then file\<lparr>n_eof := True\<rparr> else file))"

definition pipe_file_poll :: "pipe \<Rightarrow> u16" where
  "pipe_file_poll p =
     (let revents = (if rb_size (pp_buf p) > 0 then POLLIN else 0)
      in if rb_size (pp_buf p) < max_size (pp_buf p) then revents OR POLLOUT else revents)"

text \<open>\<open>file\<close> is the uninitialised block \<open>kmalloc\<close> returned; four fields are assigned.\<close>

definition create_pipe_file :: "fs_node \<Rightarrow> pipes \<Rightarrow> nat \<Rightarrow> bool \<Rightarrow> pipes \<times> fs_node" where
  "create_pipe_file file ps p write =
     (let file = file\<lparr>n_fs := None, n_ops := (if write then Pipe_write_ops else Pipe_read_ops), n_pipe := Some p,
                      n_size := rb_size (pp_buf (pipe_at ps p))\<rparr>
      in (upd_pipe p (\<lambda>x. if write then x\<lparr>n_writers := n_writers x + 1\<rparr> else x\<lparr>n_readers := n_readers x + 1\<rparr>) ps, file))"

section \<open>A pipe is a byte queue\<close>

definition pipe_wf :: "pipe \<Rightarrow> bool" where
  "pipe_wf p \<longleftrightarrow> rb_wf (pp_buf p) \<and> elem_size (pp_buf p) = 1"

definition pipe_bytes :: "mem \<Rightarrow> pipe \<Rightarrow> u8 list" where
  "pipe_bytes m p = concat (rb_elems m (pp_buf p))"

text \<open>The buffer of a transfer lies outside the array of the pipe.\<close>

definition outside :: "pipe \<Rightarrow> ptr \<Rightarrow> nat \<Rightarrow> bool" where
  "outside p buf n \<longleftrightarrow> regions_disjoint (rb_data (pp_buf p)) (unat (max_size (pp_buf p))) buf n"

lemma bytes_at_Suc: "bytes_at m p (Suc n) = m p # bytes_at m (p + 1) n"
  unfolding bytes_at_def map_upt_Suc by (simp add: add.assoc)

lemma concat_bytes_1: "concat (map (\<lambda>i. bytes_at m (p + of_nat i) (Suc 0)) [0..<n]) = bytes_at m p n"
  by (induction n) (simp_all add: bytes_at_def)

lemma rb_elems_frame:
  assumes "rb_wf rb" "elem_size rb = 1" "\<And>i. i < unat (max_size rb) \<Longrightarrow> m' (rb_data rb + of_nat i) = m (rb_data rb + of_nat i)"
  shows "rb_elems m' rb = rb_elems m rb"
proof -
  have "0 < unat (max_size rb)" using assms(1) by (simp add: rb_wf_def word_less_nat_alt)
  then show ?thesis using assms(2,3) unfolding rb_elems_def by (auto intro!: bytes_at_cong simp: rb_slot_def)
qed

lemma pushn_loop_fields:
  "ringbuffer_pushn_loop m rb a b = Some r \<Longrightarrow>
     elem_size (snd r) = elem_size rb \<and> rb_data (snd r) = rb_data rb \<and> max_size (snd r) = max_size rb"
  by (erule ringbuffer_pushn_loop.raw_induct[rotated])
    (auto simp: ringbuffer_push_def Let_def bind_eq_Some_conv split: if_splits)

lemma rb_elems_1_length: "elem_size rb = 1 \<Longrightarrow> length (concat (rb_elems m rb)) = unat (rb_size rb)"
  by (simp add: length_concat rb_elems_def comp_def sum_list_triv)

lemma pipe_write_ok:
  assumes "pipe_wf p" "unat (rb_size (pp_buf p)) + unat count \<le> unat (max_size (pp_buf p))"
    and "unat buffer + unat count < 4294967296" "outside p buffer (unat count)"
  shows "\<exists>m' p'. pipe_file_write m p buffer count off = Some (Done (m', p', off + count, sint count)) \<and> pipe_wf p' \<and>
    pipe_bytes m' p' = pipe_bytes m p @ bytes_at m buffer (unat count) \<and>
    rb_data (pp_buf p') = rb_data (pp_buf p) \<and> max_size (pp_buf p') = max_size (pp_buf p)"
proof -
  let ?rb = "pp_buf p"
  have wf: "rb_wf ?rb" and es: "elem_size ?rb = 1" using assms(1) by (auto simp: pipe_wf_def)
  obtain m' rb' where push: "ringbuffer_pushn m ?rb buffer count = Some (m', rb')" "rb_wf rb'"
    "rb_elems m' rb' = rb_elems m ?rb @ map (\<lambda>i. bytes_at m (buffer + of_nat i) 1) [0..<unat count]"
    using ringbuffer_pushn_ok[OF wf assms(2), of buffer m] assms(3,4) es by (auto simp: outside_def)
  have f: "elem_size rb' = 1" "rb_data rb' = rb_data ?rb" "max_size rb' = max_size ?rb"
    using pushn_loop_fields[OF push(1)[unfolded ringbuffer_pushn_def]] es by auto
  have "unat (rb_size ?rb + count) = unat (rb_size ?rb) + unat count"
    using assms(2) unat_u32_bound[of "max_size ?rb"] by (simp add: unat_word_ariths)
  then have "\<not> rb_size ?rb + count > max_size ?rb" using assms(2) by (simp add: word_less_nat_alt)
  then show ?thesis
    using push f concat_bytes_1[of m buffer "unat count"]
    by (auto simp: pipe_file_write_def pipe_wf_def pipe_bytes_def)
qed
lemma memcpy_1: "memcpy m d s 1 = m(d := m s)"
  by (simp add: memcpy_def)

lemma pop_byte:
  assumes wf: "rb_wf rb" and es: "elem_size rb = 1" and "rb_size rb \<noteq> 0"
    and dis: "regions_disjoint (rb_data rb) (unat (max_size rb)) buffer (Suc n)"
  shows "\<exists>rb1 e xs. ringbuffer_pop rb = Some (rb1, e) \<and> rb_wf rb1 \<and> elem_size rb1 = 1 \<and>
    rb_elems m rb = [m e] # xs \<and> rb_elems (m(buffer := m e)) rb1 = xs \<and>
    (0 < n \<longrightarrow> regions_disjoint (rb_data rb1) (unat (max_size rb1)) (buffer + 1) n)"
proof -
  let ?e = "rb_slot rb (unat (read_idx rb))"
  from assms(3) have "rb_elems m rb \<noteq> []" by (simp add: rb_elems_def unat_eq_0)
  then obtain x xs where xs: "rb_elems m rb = x # xs" by (cases "rb_elems m rb") auto
  obtain rb1 where pop: "ringbuffer_pop rb = Some (rb1, ?e)" "rb_wf rb1" "x = [m ?e]" "rb_elems m rb1 = xs"
    and f: "max_size rb1 = max_size rb" "elem_size rb1 = 1" "rb_data rb1 = rb_data rb"
    using ringbuffer_pop_ok[OF wf xs] es by (auto simp: bytes_at_def)
  have bnd: "Suc n < 4294967296"
    using dis unat_u32_bound[of "rb_data rb - buffer"] by (simp add: regions_disjoint_def)
  have "rb_data rb1 + of_nat i \<noteq> buffer" if "i < unat (max_size rb1)" for i
    using region_disjoint_neq[OF dis, of i 0] that f bnd unat_u32_bound[of "max_size rb"] by auto
  then have "rb_elems (m(buffer := m ?e)) rb1 = rb_elems m rb1"
    by (intro rb_elems_frame[OF pop(2) f(2)]) (auto simp: fun_upd_apply)
  moreover have "regions_disjoint (rb_data rb1) (unat (max_size rb1)) (buffer + 1) n" if "0 < n"
    using regions_disjoint_sub[of buffer "Suc n" "rb_data rb" "unat (max_size rb)" 1 n] that dis f
    by (simp add: regions_disjoint_sym)
  ultimately show ?thesis using pop f xs by blast
qed

text \<open>What happens before the window \<open>buffer + 1 ..\<close> and outside the window \<open>buffer ..\<close>.\<close>

lemma window_step:
  fixes buffer :: u32
  assumes "Suc n < 4294967296"
  shows "n \<le> unat (buffer - (buffer + 1))" "Suc n \<le> unat (a - buffer) \<Longrightarrow> n \<le> unat (a - (buffer + 1)) \<and> a \<noteq> buffer"
proof -
  have "buffer - (buffer + 1) = - 1" by simp
  then show "n \<le> unat (buffer - (buffer + 1))" using assms by (simp add: unsigned_minus_1_eq_mask mask_eq_exp_minus_1)
  assume a: "Suc n \<le> unat (a - buffer)"
  then have "unat (a - buffer - 1) = unat (a - buffer) - 1" by (intro unat_minus_one) auto
  then show "n \<le> unat (a - (buffer + 1)) \<and> a \<noteq> buffer" using a by (auto simp: diff_diff_eq)
qed

lemma pipe_read_loop_ok:
  assumes "rb_wf rb" "elem_size rb = 1" "n < 4294967296"
    and "0 < n \<Longrightarrow> regions_disjoint (rb_data rb) (unat (max_size rb)) buffer n"
  shows "\<exists>m' rb'. pipe_read_loop n m rb buffer = Some (m', rb', min n (unat (rb_size rb))) \<and> rb_wf rb' \<and>
    elem_size rb' = 1 \<and> concat (rb_elems m' rb') = drop n (concat (rb_elems m rb)) \<and>
    bytes_at m' buffer (min n (unat (rb_size rb))) = take n (concat (rb_elems m rb)) \<and>
    (\<forall>a. unat (a - buffer) \<ge> n \<longrightarrow> m' a = m a)"
  using assms
proof (induction n arbitrary: m rb buffer)
  case 0
  then show ?case by (simp add: bytes_at_def)
next
  case (Suc n)
  show ?case
  proof (cases "rb_size rb = 0")
    case True
    then show ?thesis using Suc.prems by (simp add: bytes_at_def rb_elems_def)
  next
    case False
    obtain rb1 e xs where pop: "ringbuffer_pop rb = Some (rb1, e)" "rb_wf rb1" "elem_size rb1 = 1"
      "rb_elems m rb = [m e] # xs" "rb_elems (m(buffer := m e)) rb1 = xs"
      and dis: "0 < n \<Longrightarrow> regions_disjoint (rb_data rb1) (unat (max_size rb1)) (buffer + 1) n"
      using pop_byte[OF Suc.prems(1,2) False] Suc.prems(4) by blast
    have n: "n < 4294967296" using Suc.prems(3) by simp
    have size: "unat (rb_size rb) = Suc (length xs)" "unat (rb_size rb1) = length xs"
      using pop(4) length_rb_elems[of m rb] pop(5) length_rb_elems[of "m(buffer := m e)" rb1] by simp_all
    obtain m' rb' where ih: "pipe_read_loop n (m(buffer := m e)) rb1 (buffer + 1) = Some (m', rb', min n (length xs))" "rb_wf rb'"
      "elem_size rb' = 1" "concat (rb_elems m' rb') = drop n (concat xs)"
      "bytes_at m' (buffer + 1) (min n (length xs)) = take n (concat xs)"
      "\<forall>a. unat (a - (buffer + 1)) \<ge> n \<longrightarrow> m' a = (m(buffer := m e)) a"
      using Suc.IH[OF pop(2,3) n dis, of "m(buffer := m e)"] unfolding pop(5) size(2) by blast
    have "m' buffer = m e" "\<forall>a. unat (a - buffer) \<ge> Suc n \<longrightarrow> m' a = m a"
      using ih(6) window_step[OF Suc.prems(3)] by auto
    moreover have "pipe_read_loop (Suc n) m rb buffer = Some (m', rb', min (Suc n) (unat (rb_size rb)))"
      using False pop(1,3) ih(1) size by (simp add: memcpy_1)
    ultimately show ?thesis using ih(2-5) pop(4) size by (simp add: bytes_at_Suc)
  qed
qed

lemma pipe_read_ok:
  assumes "pipe_wf p" "pipe_bytes m p \<noteq> []" "0 < count" "outside p buffer (unat count)"
  defines "k \<equiv> min (unat count) (length (pipe_bytes m p))"
  shows "\<exists>m' p'. pipe_read_ready m p buffer count off = Some (Done (m', p', off + of_nat k, sint (of_nat k :: u32))) \<and>
    pipe_wf p' \<and> bytes_at m' buffer k = take k (pipe_bytes m p) \<and> pipe_bytes m' p' = drop k (pipe_bytes m p) \<and>
    (\<forall>a. unat (a - buffer) \<ge> unat count \<longrightarrow> m' a = m a)"
proof -
  let ?rb = "pp_buf p"
  have wf: "rb_wf ?rb" and es: "elem_size ?rb = 1" using assms(1) by (auto simp: pipe_wf_def)
  have len: "length (pipe_bytes m p) = unat (rb_size ?rb)" using rb_elems_1_length[OF es] by (simp add: pipe_bytes_def)
  then have "rb_size ?rb \<noteq> 0" using assms(2) by auto
  then show ?thesis
    using pipe_read_loop_ok[OF wf es unat_u32_bound, of count buffer m] assms(4) len
    by (auto simp: pipe_read_ready_def pipe_wf_def pipe_bytes_def outside_def k_def min_def)
qed

text \<open>
  C25: a pipe is a byte queue. Writing \<open>n\<close> bytes for which there is room completes and appends them; reading then fills
  the reader's buffer with the oldest bytes, those queued before the write first, then the written ones in order, as
  many as requested or available, and leaves the rest in the pipe.
\<close>

theorem pipe_write_read:
  assumes "pipe_wf p" "unat (rb_size (pp_buf p)) + unat n \<le> unat (max_size (pp_buf p))"
    and "unat src + unat n < 4294967296" "outside p src (unat n)" "outside p dst (unat count)" "0 < n" "0 < count"
    and "\<not> n_eof file"
  shows "\<exists>m1 p1 m2 p2 k. pipe_file_write m p src n woff = Some (Done (m1, p1, woff + n, sint n)) \<and>
    pipe_file_read m1 p1 file dst count roff = Some (Done (m2, p2, roff + of_nat k, sint (of_nat k :: u32))) \<and>
    k = min (unat count) (length (pipe_bytes m p) + unat n) \<and>
    bytes_at m2 dst k @ pipe_bytes m2 p2 = pipe_bytes m p @ bytes_at m src (unat n) \<and> pipe_wf p2"
proof -
  obtain m1 p1 where w: "pipe_file_write m p src n woff = Some (Done (m1, p1, woff + n, sint n))" "pipe_wf p1"
    "pipe_bytes m1 p1 = pipe_bytes m p @ bytes_at m src (unat n)"
    "rb_data (pp_buf p1) = rb_data (pp_buf p)" "max_size (pp_buf p1) = max_size (pp_buf p)"
    using pipe_write_ok[OF assms(1-4)] by blast
  define k where "k = min (unat count) (length (pipe_bytes m1 p1))"
  have ne: "pipe_bytes m1 p1 \<noteq> []" and len: "length (pipe_bytes m1 p1) = length (pipe_bytes m p) + unat n"
    using w(3) assms(6) by (auto simp: bytes_at_def word_less_nat_alt)
  have "outside p1 dst (unat count)" using assms(5) w(4,5) by (simp add: outside_def)
  then obtain m2 p2 where r: "pipe_read_ready m1 p1 dst count roff = Some (Done (m2, p2, roff + of_nat k, sint (of_nat k :: u32)))"
    "pipe_wf p2" "bytes_at m2 dst k = take k (pipe_bytes m1 p1)" "pipe_bytes m2 p2 = drop k (pipe_bytes m1 p1)"
    using pipe_read_ok[OF w(2) ne assms(7)] unfolding k_def by blast
  have "bytes_at m2 dst k @ pipe_bytes m2 p2 = pipe_bytes m p @ bytes_at m src (unat n)"
    unfolding r(3,4) by (simp only: append_take_drop_id w(3))
  moreover have "pipe_file_read m1 p1 file dst count roff = Some (Done (m2, p2, roff + of_nat k, sint (of_nat k :: u32)))"
    using r(1) assms(8) by (simp add: pipe_file_read_def)
  moreover have "k = min (unat count) (length (pipe_bytes m p) + unat n)" by (simp add: k_def len)
  ultimately show ?thesis using w(1) r(2) by blast
qed

definition demo_pipe :: pipe where
  "demo_pipe = \<lparr>pp_buf = example_rb\<lparr>elem_size := 1\<rparr>, n_writers = 1, n_readers = 1\<rparr>"

theorem pipe_write_read_witness:
  "\<exists>m1 p1 m2 p2 k. pipe_file_write (\<lambda>a. ucast a) demo_pipe 50 2 0 = Some (Done (m1, p1, 2, 2)) \<and>
    pipe_file_read m1 p1 demo_node 70 9 0 = Some (Done (m2, p2, of_nat k, sint (of_nat k :: u32))) \<and>
    bytes_at m2 70 k @ pipe_bytes m2 p2 = pipe_bytes (\<lambda>a. ucast a) demo_pipe @ bytes_at (\<lambda>a. ucast a) 50 2"
proof -
  have wf: "pipe_wf demo_pipe" and room: "unat (rb_size (pp_buf demo_pipe)) + unat (2 :: u32) \<le> unat (max_size (pp_buf demo_pipe))"
    and o: "outside demo_pipe 50 (unat (2 :: u32))" "outside demo_pipe 70 (unat (9 :: u32))" and eof: "\<not> n_eof demo_node"
    and bnd: "unat (50 :: u32) + unat (2 :: u32) < 4294967296" and pos: "0 < (2 :: u32)" "0 < (9 :: u32)"
    by (simp_all add: demo_pipe_def pipe_wf_def example_rb_def rb_wf_def outside_def regions_disjoint_def demo_node_def
      demo_nodes_def)
  obtain m1 p1 m2 p2 k where r: "pipe_file_write (\<lambda>a. ucast a) demo_pipe 50 2 0 = Some (Done (m1, p1, 0 + 2, sint (2 :: u32)))"
    "pipe_file_read m1 p1 demo_node 70 9 0 = Some (Done (m2, p2, 0 + of_nat k, sint (of_nat k :: u32)))"
    "bytes_at m2 70 k @ pipe_bytes m2 p2 = pipe_bytes (\<lambda>a. ucast a) demo_pipe @ bytes_at (\<lambda>a. ucast a) 50 (unat (2 :: u32))"
    using pipe_write_read[OF wf room bnd o pos eof, of "\<lambda>a. ucast a" 0 0] by blast
  then show ?thesis by (intro exI[of _ m1] exI[of _ p1] exI[of _ m2] exI[of _ p2] exI[of _ k]) simp
qed

text \<open>
  The wait of a reader does not end by closing the pipe: with no writers left an empty pipe still blocks, unless the
  end-of-file mark of this very file had been set before.
\<close>

lemma pipe_read_blocks: "\<not> n_eof file \<Longrightarrow> rb_size (pp_buf p) = 0 \<Longrightarrow> pipe_file_read m p file buffer count off = Some Blocked"
  by (simp add: pipe_file_read_def pipe_read_ready_def)

text \<open>A write larger than the whole buffer waits for ever: it blocks in every state of the pipe.\<close>

lemma pipe_write_too_large:
  assumes "pipe_wf p" "max_size (pp_buf p) < count" "unat (max_size (pp_buf p)) + unat count < 4294967296"
  shows "pipe_file_write m p buffer count off = Some Blocked"
proof -
  have "rb_size (pp_buf p) \<le> max_size (pp_buf p)" using assms(1) by (simp add: pipe_wf_def rb_wf_def)
  then have "unat (rb_size (pp_buf p) + count) = unat (rb_size (pp_buf p)) + unat count"
    using assms(3) by (simp add: unat_word_ariths word_le_nat_alt)
  then have "rb_size (pp_buf p) + count > max_size (pp_buf p)" using assms(2) by (simp add: word_less_nat_alt)
  then show ?thesis by (simp add: pipe_file_write_def)
qed

text \<open>
  C26: readers and writers of a pipe never wait for each other: in every state of a pipe, a read that has to wait finds
  the pipe empty, and then every write of at most the pipe's capacity completes, after which the read completes too.
\<close>

theorem pipe_no_deadlock:
  assumes "pipe_wf p" "pipe_read_ready m p dst count roff = Some Blocked"
    and "0 < n" "n \<le> max_size (pp_buf p)" "unat src + unat n < 4294967296" "outside p src (unat n)"
    and "0 < count" "outside p dst (unat count)"
  shows "\<exists>m1 p1 r2. pipe_file_write m p src n woff = Some (Done (m1, p1, woff + n, sint n)) \<and>
    pipe_read_ready m1 p1 dst count roff = Some (Done r2)"
proof -
  have "rb_size (pp_buf p) = 0" using assms(2) by (auto simp: pipe_read_ready_def bind_eq_Some_conv split: if_splits)
  then have room: "unat (rb_size (pp_buf p)) + unat n \<le> unat (max_size (pp_buf p))"
    using assms(4) by (simp add: word_le_nat_alt)
  obtain m1 p1 where w: "pipe_file_write m p src n woff = Some (Done (m1, p1, woff + n, sint n))" "pipe_wf p1"
    "pipe_bytes m1 p1 = pipe_bytes m p @ bytes_at m src (unat n)"
    "rb_data (pp_buf p1) = rb_data (pp_buf p)" "max_size (pp_buf p1) = max_size (pp_buf p)"
    using pipe_write_ok[OF assms(1) room assms(5,6)] by blast
  have "pipe_bytes m1 p1 \<noteq> []" using w(3) assms(3) by (auto simp: bytes_at_def word_less_nat_alt)
  moreover have "outside p1 dst (unat count)" using assms(8) w(4,5) by (simp add: outside_def)
  ultimately show ?thesis using pipe_read_ok[OF w(2) _ assms(7)] w(1) by blast
qed

theorem pipe_no_deadlock_witness:
  "\<exists>m1 p1 r2. pipe_file_write (\<lambda>_. 0) (demo_pipe\<lparr>pp_buf := (pp_buf demo_pipe)\<lparr>rb_size := 0, write_idx := 2\<rparr>\<rparr>) 50 3 0 =
      Some (Done (m1, p1, 0 + 3, sint (3 :: u32))) \<and> pipe_read_ready m1 p1 70 9 0 = Some (Done r2)"
  by (rule pipe_no_deadlock)
    (simp_all add: demo_pipe_def pipe_wf_def example_rb_def rb_wf_def outside_def regions_disjoint_def pipe_read_ready_def)

end
