(* ===== verification/Socket.thy ===== *)
theory Socket
  imports Pipe
begin

text \<open>
  Local sockets, \<^verbatim>\<open>net/local_socket.c\<close> and \<^verbatim>\<open>include/depthos/socket.h\<close>: sockets with a queue of waiting connections and a queue
  of messages, and the table of bound paths. A message is a pointer into the sender's memory and a size; nothing is
  copied when it is sent. Lists of pointers are lists of object numbers. Waiting is \<open>Blocked\<close>, a fault \<open>None\<close>.

  Two functions of the source end without a \<open>return\<close>: what their callers receive is an argument of the model
  (\<open>ret\<close> for \<open>local_socket_send\<close>; for \<open>create_local_socket\<close> the pointer \<open>ret\<close>, which need not be the new socket).
\<close>

definition AF_UNIX :: int where "AF_UNIX = 3"
definition SOCK_STREAM :: int where "SOCK_STREAM = 4"
definition SOCK_STATE_DISCONNECTED :: int where "SOCK_STATE_DISCONNECTED = 0"
definition SOCK_STATE_LISTENING :: int where "SOCK_STATE_LISTENING = 1"
definition SOCK_STATE_CONNECTED :: int where "SOCK_STATE_CONNECTED = 2"

abbreviation AF_LOCAL :: int where "AF_LOCAL \<equiv> AF_UNIX"

record net_message =
  msg_data :: ptr
  msg_size :: size_t

record socket =
  so_family :: int
  so_type :: int
  so_state :: int
  conn_queue :: "nat list"
  so_backlog :: int
  so_messages :: "net_message list"
  so_peer :: "nat option"

record sockets =
  sock_at :: "nat \<Rightarrow> socket"
  sock_next :: nat
  bound_sockets :: "(nat \<times> string) list"

definition upd_sock :: "nat \<Rightarrow> (socket \<Rightarrow> socket) \<Rightarrow> sockets \<Rightarrow> sockets" where
  "upd_sock i f ss = ss\<lparr>sock_at := (sock_at ss)(i := f (sock_at ss i))\<rparr>"

lemma upd_sock_simps [simp]:
  "sock_at (upd_sock i f ss) = (sock_at ss)(i := f (sock_at ss i))" "sock_next (upd_sock i f ss) = sock_next ss"
  "bound_sockets (upd_sock i f ss) = bound_sockets ss"
  by (simp_all add: upd_sock_def)

section \<open>Operations\<close>

text \<open>The result of \<open>vfs_create\<close> is not looked at. 0777 is octal.\<close>

definition local_socket_bind ::
    "'w vfs \<Rightarrow> string \<Rightarrow> 'w nodes \<Rightarrow> sockets \<Rightarrow> nat \<Rightarrow> string \<Rightarrow> ('w nodes \<times> sockets \<times> int) option" where
  "local_socket_bind v junk s ss sock path = do {
     (s, fn) \<leftarrow> vfs_open v junk s path;
     if fn \<noteq> None then Some (s, ss, - EADDRINUSE)
     else do {
       (s, fn) \<leftarrow> vfs_create v junk s path 0x1FF FS_SOCKET 0;
       Some (s, ss\<lparr>bound_sockets := bound_sockets ss @ [(sock, path)]\<rparr>, 0) } }"

definition local_socket_connect :: "sockets \<Rightarrow> nat \<Rightarrow> string \<Rightarrow> sockets \<times> int" where
  "local_socket_connect ss sock path =
     (case find (\<lambda>(b, p). path = p) (bound_sockets ss) of
        None \<Rightarrow> (ss, - ECONNREFUSED)
      | Some (b, p) \<Rightarrow>
          if int (length (conn_queue (sock_at ss b))) \<ge> so_backlog (sock_at ss b) then (ss, - ECONNREFUSED)
          else (upd_sock b (\<lambda>x. x\<lparr>conn_queue := conn_queue x @ [sock]\<rparr>) ss, 0))"

definition local_socket_recv :: "mem \<Rightarrow> sockets \<Rightarrow> nat \<Rightarrow> ptr \<Rightarrow> size_t \<Rightarrow> (mem \<times> sockets \<times> int) blocking" where
  "local_socket_recv m ss sock buf sz =
     (case so_messages (sock_at ss sock) of
        [] \<Rightarrow> Blocked
      | msg # queue \<Rightarrow>
          let n = (if sz > msg_size msg then msg_size msg else sz);
              m = memcpy m buf (msg_data msg) n;
              queue = (if sz < msg_size msg
                       then msg\<lparr>msg_data := msg_data msg + sz, msg_size := msg_size msg - sz\<rparr> # queue else queue)
          in Done (m, upd_sock sock (\<lambda>x. x\<lparr>so_messages := queue\<rparr>) ss, sint n))"

definition local_socket_send :: "int \<Rightarrow> sockets \<Rightarrow> nat \<Rightarrow> ptr \<Rightarrow> size_t \<Rightarrow> (sockets \<times> int) option" where
  "local_socket_send ret ss sock buf sz = do {
     peer \<leftarrow> so_peer (sock_at ss sock);
     Some (upd_sock peer (\<lambda>x. x\<lparr>so_messages := so_messages x @ [\<lparr>msg_data = buf, msg_size = sz\<rparr>]\<rparr>) ss, ret) }"

definition local_socket_poll :: "sockets \<Rightarrow> nat \<Rightarrow> u16" where
  "local_socket_poll ss sock = (if so_messages (sock_at ss sock) \<noteq> [] then POLLOUT OR POLLIN else POLLOUT)"

text \<open>\<open>junk\<close> is the block \<open>kmalloc\<close> returned: \<open>backlog\<close> and \<open>peer\<close> stay as they were. The assertion is a fault.\<close>

definition create_local_socket :: "socket \<Rightarrow> nat option \<Rightarrow> sockets \<Rightarrow> int \<Rightarrow> (sockets \<times> nat option) option" where
  "create_local_socket junk ret ss type =
     (if type \<noteq> SOCK_STREAM then None
      else
        let sock = junk\<lparr>so_family := AF_LOCAL, so_type := type, conn_queue := [], so_messages := [],
                        so_state := SOCK_STATE_DISCONNECTED\<rparr>
        in Some (ss\<lparr>sock_at := (sock_at ss)(sock_next ss := sock), sock_next := Suc (sock_next ss)\<rparr>, ret))"

definition create_socket :: "socket \<Rightarrow> nat option \<Rightarrow> sockets \<Rightarrow> int \<Rightarrow> int \<Rightarrow> (sockets \<times> nat option) option" where
  "create_socket junk ret ss family type =
     (if family = AF_LOCAL then create_local_socket junk ret ss type else Some (ss, None))"

section \<open>Messages form a stream\<close>

text \<open>The bytes waiting at a socket, read from the memory the messages point to.\<close>

definition stream :: "mem \<Rightarrow> socket \<Rightarrow> u8 list" where
  "stream m s = concat (map (\<lambda>msg. bytes_at m (msg_data msg) (unat (msg_size msg))) (so_messages s))"

definition msgs_outside :: "socket \<Rightarrow> ptr \<Rightarrow> nat \<Rightarrow> bool" where
  "msgs_outside s buf n \<longleftrightarrow> (\<forall>msg \<in> set (so_messages s). regions_disjoint buf n (msg_data msg) (unat (msg_size msg)))"

lemma bytes_at_memcpy_other:
  assumes "regions_disjoint dst (unat n) src (unat n)" "regions_disjoint dst (unat n) a k" "k \<le> 4294967296"
  shows "bytes_at (memcpy m dst src n) a k = bytes_at m a k"
proof (rule bytes_at_cong)
  fix i assume "i < k"
  then have "\<not> in_region dst (unat n) (a + of_nat i)"
    using assms(2,3) unat_u32_bound[of n] by (intro region_not_in) auto
  then show "memcpy m dst src n (a + of_nat i) = m (a + of_nat i)" using memcpy_apply[OF assms(1)] by simp
qed

lemma bytes_at_memcpy_dst:
  assumes "regions_disjoint dst (unat n) src (unat n)"
  shows "bytes_at (memcpy m dst src n) dst (unat n) = bytes_at m src (unat n)"
proof (rule bytes_at_cong)
  fix i assume i: "i < unat n"
  then have "unat (of_nat i :: u32) = i" using unat_u32_bound[of n] by (simp add: of_nat_unat_u32)
  then show "memcpy m dst src n (dst + of_nat i) = m (src + of_nat i)"
    using memcpy_apply[OF assms] i by (simp add: in_region_def)
qed

lemma bytes_at_app: "bytes_at m p (a + b) = bytes_at m p a @ bytes_at m (p + of_nat a) b"
  by (induction b) (simp_all add: bytes_at_def add.assoc)

lemma regions_disjoint_take:
  "regions_disjoint a n b k \<Longrightarrow> n' \<le> n \<Longrightarrow> k' \<le> k \<Longrightarrow> regions_disjoint a n' b k'"
  by (auto simp: regions_disjoint_def)

text \<open>Shortening the first message keeps the tail of its bytes.\<close>

lemma stream_shorten:
  assumes "sz < msg_size msg"
  shows "bytes_at m (msg_data msg + sz) (unat (msg_size msg - sz)) =
    drop (unat sz) (bytes_at m (msg_data msg) (unat (msg_size msg)))"
proof -
  have "unat (msg_size msg - sz) = unat (msg_size msg) - unat sz" using assms by (simp add: unat_sub)
  moreover have "unat (msg_size msg) = unat sz + (unat (msg_size msg) - unat sz)"
    using assms by (simp add: word_less_nat_alt)
  ultimately show ?thesis using bytes_at_app[of m "msg_data msg" "unat sz" "unat (msg_size msg) - unat sz"] by simp
qed
lemma recv_head:
  assumes "regions_disjoint buf (unat sz) (msg_data msg) (unat (msg_size msg))"
    and "\<forall>x \<in> set queue. regions_disjoint buf (unat sz) (msg_data x) (unat (msg_size x))"
  defines "n \<equiv> if sz > msg_size msg then msg_size msg else sz"
  shows "bytes_at (memcpy m buf (msg_data msg) n) buf (unat n) = take (unat n) (bytes_at m (msg_data msg) (unat (msg_size msg)))"
    "map (\<lambda>x. bytes_at (memcpy m buf (msg_data msg) n) (msg_data x) (unat (msg_size x))) queue =
       map (\<lambda>x. bytes_at m (msg_data x) (unat (msg_size x))) queue"
    "bytes_at (memcpy m buf (msg_data msg) n) (msg_data msg) (unat (msg_size msg)) = bytes_at m (msg_data msg) (unat (msg_size msg))"
proof -
  have n: "unat n \<le> unat sz" "unat n \<le> unat (msg_size msg)" by (auto simp: n_def word_less_nat_alt)
  have dis: "regions_disjoint buf (unat n) (msg_data msg) (unat n)"
    by (rule regions_disjoint_take[OF assms(1) n])
  have "take (unat n) (bytes_at m (msg_data msg) (unat (msg_size msg))) = bytes_at m (msg_data msg) (unat n)"
    using n(2) bytes_at_app[of m "msg_data msg" "unat n" "unat (msg_size msg) - unat n"] by simp
  then show "bytes_at (memcpy m buf (msg_data msg) n) buf (unat n) =
      take (unat n) (bytes_at m (msg_data msg) (unat (msg_size msg)))"
    using bytes_at_memcpy_dst[OF dis] by simp
  have k: "unat w \<le> 4294967296" for w :: u32 using unat_u32_bound[of w] by simp
  show "map (\<lambda>x. bytes_at (memcpy m buf (msg_data msg) n) (msg_data x) (unat (msg_size x))) queue =
       map (\<lambda>x. bytes_at m (msg_data x) (unat (msg_size x))) queue"
    using assms(2) n(1) k by (auto intro!: bytes_at_memcpy_other[OF dis] elim!: regions_disjoint_take)
  show "bytes_at (memcpy m buf (msg_data msg) n) (msg_data msg) (unat (msg_size msg)) =
      bytes_at m (msg_data msg) (unat (msg_size msg))"
    by (rule bytes_at_memcpy_other[OF dis regions_disjoint_take[OF assms(1) n(1)] k]) simp
qed

lemma socket_recv_ok:
  assumes "so_messages (sock_at ss sock) = msg # queue" "msgs_outside (sock_at ss sock) buf (unat sz)"
  defines "n \<equiv> if sz > msg_size msg then msg_size msg else sz"
  shows "\<exists>m' ss'. local_socket_recv m ss sock buf sz = Done (m', ss', sint n) \<and>
    bytes_at m' buf (unat n) @ stream m' (sock_at ss' sock) = stream m (sock_at ss sock)"
proof -
  let ?m = "memcpy m buf (msg_data msg) n"
  let ?q = "if sz < msg_size msg then msg\<lparr>msg_data := msg_data msg + sz, msg_size := msg_size msg - sz\<rparr> # queue else queue"
  have d: "regions_disjoint buf (unat sz) (msg_data msg) (unat (msg_size msg))"
    "\<forall>x \<in> set queue. regions_disjoint buf (unat sz) (msg_data x) (unat (msg_size x))"
    using assms(2) by (auto simp: msgs_outside_def assms(1))
  note r = recv_head[OF d, where m = m, folded n_def]
  have "concat (map (\<lambda>x. bytes_at ?m (msg_data x) (unat (msg_size x))) ?q) =
      drop (unat n) (bytes_at m (msg_data msg) (unat (msg_size msg))) @
      concat (map (\<lambda>x. bytes_at m (msg_data x) (unat (msg_size x))) queue)"
  proof (cases "sz < msg_size msg")
    case True
    moreover from True have "n = sz" by (auto simp: n_def)
    ultimately show ?thesis using r(3) arg_cong[OF r(2), of concat] stream_shorten[OF True, of ?m] by simp
  next
    case False
    then have "n = msg_size msg" by (auto simp: n_def)
    then show ?thesis using False arg_cong[OF r(2), of concat] by simp
  qed
  then have "bytes_at ?m buf (unat n) @ stream ?m (sock_at (upd_sock sock (\<lambda>x. x\<lparr>so_messages := ?q\<rparr>) ss) sock) =
      stream m (sock_at ss sock)"
    using r(1) by (simp add: stream_def assms(1) flip: append.assoc)
  then show ?thesis
    by (intro exI[of _ ?m] exI[of _ "upd_sock sock (\<lambda>x. x\<lparr>so_messages := ?q\<rparr>) ss"])
      (simp add: local_socket_recv_def assms(1) n_def Let_def)
qed


definition demo_socks :: sockets where
  "demo_socks = \<lparr>sock_at = \<lambda>i. \<lparr>so_family = AF_LOCAL, so_type = SOCK_STREAM, so_state = SOCK_STATE_CONNECTED, conn_queue = [],
     so_backlog = 0, so_messages = [], so_peer = Some (1 - i)\<rparr>, sock_next = 2, bound_sockets = []\<rparr>"


text \<open>
  A message is not a copy: a byte that the sender stores in its buffer after the send and before the receive is what
  the receiver gets.
\<close>

lemma socket_send_keeps_pointer:
  assumes "so_peer (sock_at ss a) = Some b" "so_messages (sock_at ss b) = []" "buf \<noteq> data"
  shows "\<exists>ss1 m2 ss2. local_socket_send ret ss a data 1 = Some (ss1, ret) \<and>
    local_socket_recv (m(data := later)) ss1 b buf 1 = Done (m2, ss2, 1) \<and> m2 buf = later"
  using assms by (auto simp: local_socket_send_def local_socket_recv_def memcpy_1 Let_def)

lemma socket_send_keeps_pointer_example:
  "\<exists>ss1 m2 ss2. local_socket_send 0 demo_socks 0 100 1 = Some (ss1, 0) \<and>
    local_socket_recv ((\<lambda>_. 0)(100 := 9)) ss1 1 200 1 = Done (m2, ss2, 1) \<and> m2 200 = 9"
  using socket_send_keeps_pointer[of demo_socks 0 1 200 100 0 "\<lambda>_. 0" 9] by (simp add: demo_socks_def)

end
