(* ===== verification/Fdops.thy ===== *)
theory Fdops
  imports Socket
begin

text \<open>
  The system calls on file descriptors, \<^verbatim>\<open>fs/fdops.c\<close>, over the file table of the calling task. The state holds the
  mounts, the open files, pipes and sockets, the memory, the file table, the working directory of the process
  (\<open>None\<close> for a task without one) and \<open>errno\<close>; \<open>fd_freed\<close> records the nodes handed back to the heap.

  A call returns \<open>Some (Done (s, r))\<close> with the C result \<open>r\<close>, \<open>Some Blocked\<close> while it waits in a loop around
  \<open>sched_yield\<close>, or \<open>None\<close> when the kernel faults. What the code relies on outside this file comes as the record \<open>env\<close>:
  the operation tables of the file systems, the class of a device, the contents of blocks fresh from \<open>kmalloc\<close>, and what
  a caller finds in the return register of a function without a \<open>return\<close>.
\<close>

section \<open>State\<close>

definition FILETABLE_SIZE :: nat where "FILETABLE_SIZE = 256"
definition O_CREAT :: u32 where "O_CREAT = 0x10"
definition FD_RDONLY :: u32 where "FD_RDONLY = 2"

record 'w fd_state =
  fd_vfs :: "'w vfs"
  fd_nodes :: "'w nodes"
  fd_pipes :: pipes
  fd_socks :: sockets
  fd_mem :: mem
  fd_table :: "nat option list option"
  fd_cwd :: "string option"
  errno :: int
  fd_freed :: "nat list"

record dentry =
  de_type :: u8
  de_inode :: u32
  de_offset :: u32
  de_name :: string

text \<open>The members of \<open>struct file_operations\<close> these calls use; the offset they are given is the position of the file.\<close>

record 'w file_operations =
  fo_seek :: "('w fd_state \<Rightarrow> nat \<Rightarrow> int \<Rightarrow> int \<Rightarrow> ('w fd_state \<times> int) option) option"
  fo_read :: "('w fd_state \<Rightarrow> nat \<Rightarrow> ptr \<Rightarrow> size_t \<Rightarrow> ('w fd_state \<times> int) blocking option) option"
  fo_iter :: "('w fd_state \<Rightarrow> nat \<Rightarrow> size_t \<Rightarrow> ('w fd_state \<times> dentry \<times> int) option) option"
  fo_write :: "('w fd_state \<Rightarrow> nat \<Rightarrow> ptr \<Rightarrow> size_t \<Rightarrow> ('w fd_state \<times> int) blocking option) option"
  fo_ioctl :: "('w fd_state \<Rightarrow> nat \<Rightarrow> int \<Rightarrow> ptr \<Rightarrow> ('w fd_state \<times> int) option) option"
  fo_close :: "('w fd_state \<Rightarrow> nat \<Rightarrow> 'w fd_state option) option"

record 'w env =
  e_ops :: "nat \<Rightarrow> 'w file_operations"
  e_class :: "nat \<Rightarrow> u16"
  e_junk :: string
  e_pre :: char
  e_node_r :: fs_node
  e_node_w :: fs_node
  e_sock :: socket
  e_pipe :: pipe
  e_rbp :: ptr
  e_rb :: ringbuffer
  e_data :: ptr
  e_ret :: int
  e_newsock :: "nat option"

type_synonym 'w result = "('w fd_state \<times> int) blocking option"

definition upd_nodes :: "('w nodes \<Rightarrow> 'w nodes) \<Rightarrow> 'w fd_state \<Rightarrow> 'w fd_state" where
  "upd_nodes f s = s\<lparr>fd_nodes := f (fd_nodes s)\<rparr>"

definition the_node :: "'w fd_state \<Rightarrow> nat \<Rightarrow> fs_node" where
  "the_node s n = node (fd_nodes s) n"

text \<open>
  The table an operations pointer refers to. The pipe tables hold only \<open>pipe_file_read\<close>, which is never reached through
  them because files with a pipe are handled before the table is used.
\<close>

definition no_file_ops :: "'w file_operations" where
  "no_file_ops = \<lparr>fo_seek = None, fo_read = None, fo_iter = None, fo_write = None, fo_ioctl = None, fo_close = None\<rparr>"

fun ops_of :: "'w env \<Rightarrow> fops \<Rightarrow> 'w file_operations option" where
  "ops_of e No_ops = None"
| "ops_of e Pipe_read_ops = Some no_file_ops"
| "ops_of e Pipe_write_ops = Some no_file_ops"
| "ops_of e (Fs_ops k) = Some (e_ops e k)"

definition ret :: "'w fd_state \<Rightarrow> int \<Rightarrow> 'w result" where
  "ret s r = Some (Done (s, r))"

section \<open>The file table\<close>

definition lookup_file :: "'w fd_state \<Rightarrow> int \<Rightarrow> ('w fd_state \<times> nat option) option" where
  "lookup_file s fd =
     (if fd < 0 \<or> fd \<ge> int FILETABLE_SIZE then Some (s\<lparr>errno := EBADF\<rparr>, None)
      else do {
        t \<leftarrow> fd_table s;
        let file = t ! nat fd;
        Some (if file = None then s\<lparr>errno := EBADF\<rparr> else s, file) })"

text \<open>\<open>lookup_file\<close> followed by \<^verbatim>\<open>if (!file) return -errno\<close>.\<close>

definition with_file :: "'w fd_state \<Rightarrow> int \<Rightarrow> ('w fd_state \<Rightarrow> nat \<Rightarrow> 'w result) \<Rightarrow> 'w result" where
  "with_file s fd k = do {
     (s, file) \<leftarrow> lookup_file s fd;
     case file of None \<Rightarrow> ret s (- errno s) | Some f \<Rightarrow> k s f }"

definition find_free :: "nat option list \<Rightarrow> nat option" where
  "find_free t = find (\<lambda>i. t ! i = None) [0..<FILETABLE_SIZE]"

definition find_available_fd :: "'w fd_state \<Rightarrow> int option" where
  "find_available_fd s = do { t \<leftarrow> fd_table s; Some (case find_free t of Some i \<Rightarrow> int i | None \<Rightarrow> - 1) }"

text \<open>\<^verbatim>\<open>current_task->filetable[fd] = file\<close>; outside the table is a fault.\<close>

definition set_fd :: "'w fd_state \<Rightarrow> int \<Rightarrow> nat option \<Rightarrow> 'w fd_state option" where
  "set_fd s fd file =
     (if fd < 0 \<or> fd \<ge> int FILETABLE_SIZE then None
      else do { t \<leftarrow> fd_table s; Some (s\<lparr>fd_table := Some (t[nat fd := file])\<rparr>) })"

definition CHECK_BUF :: "ptr \<Rightarrow> bool" where
  "CHECK_BUF buf \<longleftrightarrow> \<not> (buf = NULL \<or> buf > VIRT_BASE)"

section \<open>Reading and writing\<close>

definition pipe_done :: "nat \<Rightarrow> nat \<Rightarrow> 'w fd_state \<Rightarrow> (mem \<times> pipe \<times> u32 \<times> int) blocking option \<Rightarrow> 'w result" where
  "pipe_done f p s r = map_option (\<lambda>b. case b of
       Blocked \<Rightarrow> Blocked
     | Done (m, pp, pos, n) \<Rightarrow>
         Done (upd_nodes (upd_node f (\<lambda>x. x\<lparr>n_pos := pos\<rparr>)) (s\<lparr>fd_mem := m, fd_pipes := upd_pipe p (\<lambda>_. pp) (fd_pipes s)\<rparr>), n)) r"

definition net_socket_send :: "'w env \<Rightarrow> 'w fd_state \<Rightarrow> nat \<Rightarrow> ptr \<Rightarrow> size_t \<Rightarrow> 'w result" where
  "net_socket_send e s sock buf n = do {
     (ss, r) \<leftarrow> local_socket_send (e_ret e) (fd_socks s) sock buf n;
     ret (s\<lparr>fd_socks := ss\<rparr>) r }"

definition net_socket_recv :: "'w fd_state \<Rightarrow> nat \<Rightarrow> ptr \<Rightarrow> size_t \<Rightarrow> 'w result" where
  "net_socket_recv s sock buf n =
     (case local_socket_recv (fd_mem s) (fd_socks s) sock buf n of
        Blocked \<Rightarrow> Some Blocked
      | Done (m, ss, r) \<Rightarrow> ret (s\<lparr>fd_mem := m, fd_socks := ss\<rparr>) r)"

definition sys_write :: "'w env \<Rightarrow> 'w fd_state \<Rightarrow> int \<Rightarrow> ptr \<Rightarrow> size_t \<Rightarrow> 'w result" where
  "sys_write e s fd buf n =
     (if \<not> CHECK_BUF buf then ret s (- EFAULT)
      else with_file (s\<lparr>errno := 0\<rparr>) fd (\<lambda>s f.
        let file = the_node s f
        in case n_pipe file of
             Some p \<Rightarrow>
               if \<not> n_rdonly file
               then pipe_done f p s (pipe_file_write (fd_mem s) (pipe_at (fd_pipes s) p) buf n (n_pos file))
               else ret s (- ENOSYS)
           | None \<Rightarrow>
               (case n_socket file of
                  Some sock \<Rightarrow> net_socket_send e s sock buf n
                | None \<Rightarrow> do {
                    ops \<leftarrow> ops_of e (n_ops file);
                    case fo_write ops of None \<Rightarrow> ret s (- ENOSYS) | Some w \<Rightarrow> w s f buf n })))"

definition sys_read :: "'w env \<Rightarrow> 'w fd_state \<Rightarrow> int \<Rightarrow> ptr \<Rightarrow> size_t \<Rightarrow> 'w result" where
  "sys_read e s fd buf n =
     (if \<not> CHECK_BUF buf then ret s (- EFAULT)
      else with_file (s\<lparr>errno := 0\<rparr>) fd (\<lambda>s f.
        let file = the_node s f
        in case n_pipe file of
             Some p \<Rightarrow>
               if n_rdonly file
               then pipe_done f p s (pipe_file_read (fd_mem s) (pipe_at (fd_pipes s) p) file buf n (n_pos file))
               else ret s (- ENOSYS)
           | None \<Rightarrow>
               (case n_socket file of
                  Some sock \<Rightarrow> net_socket_recv s sock buf n
                | None \<Rightarrow> do {
                    ops \<leftarrow> ops_of e (n_ops file);
                    case fo_read ops of None \<Rightarrow> ret s (- ENOSYS) | Some r \<Rightarrow> r s f buf n })))"

section \<open>Opening and closing\<close>

definition open_in :: "'w env \<Rightarrow> 'w fd_state \<Rightarrow> string \<Rightarrow> ('w fd_state \<times> nat option) option" where
  "open_in e s path = do {
     (ns, r) \<leftarrow> vfs_open (fd_vfs s) (e_junk e) (fd_nodes s) path;
     Some (s\<lparr>fd_nodes := ns\<rparr>, r) }"

definition cwd_or_root :: "'w fd_state \<Rightarrow> string option" where
  "cwd_or_root s = (case fd_cwd s of Some c \<Rightarrow> Some c | None \<Rightarrow> Some ''/'')"

text \<open>
  The parts of \<open>open\<close> after the file has been found or created. The result of \<open>vfs_create\<close> is used without a check: a
  file that cannot be created is a fault.
\<close>

definition open_pipe_end :: "'w env \<Rightarrow> 'w fd_state \<Rightarrow> nat \<Rightarrow> u32 \<Rightarrow> 'w fd_state option" where
  "open_pipe_end e s f flags =
     (if n_type (the_node s f) = FS_PIPE then do {
        (m, ps, p) \<leftarrow> pipe_open (e_rbp e) (e_rb e) (e_data e) (fd_mem s) (fd_pipes s) (n_dev (the_node s f)) (n_inode (the_node s f));
        let ps = upd_pipe p (\<lambda>x. if flags AND FD_RDONLY \<noteq> 0 then x\<lparr>n_readers := n_readers x + 1\<rparr>
                                 else x\<lparr>n_writers := n_writers x + 1\<rparr>) ps;
        Some (upd_nodes (upd_node f (\<lambda>x. x\<lparr>n_pipe := Some p\<rparr>)) (s\<lparr>fd_mem := m, fd_pipes := ps\<rparr>)) }
      else Some s)"

definition install_file :: "'w env \<Rightarrow> 'w fd_state \<Rightarrow> nat \<Rightarrow> u32 \<Rightarrow> 'w result" where
  "install_file e s f flags = do {
     s \<leftarrow> open_pipe_end e s f flags;
     let s = upd_nodes (upd_node f (\<lambda>x. x\<lparr>n_rdonly := (flags AND FD_RDONLY \<noteq> 0)\<rparr>)) s;
     fd \<leftarrow> find_available_fd s;
     if fd < 0 then ret s (- EMFILE)
     else do { s \<leftarrow> set_fd s fd (Some f); ret s fd } }"

definition create_in :: "'w env \<Rightarrow> 'w fd_state \<Rightarrow> string \<Rightarrow> ('w fd_state \<times> nat option) option" where
  "create_in e s path = do {
     (ns, r) \<leftarrow> vfs_create (fd_vfs s) (e_junk e) (fd_nodes s) path 0x1FF FS_FILE 0;
     Some (s\<lparr>fd_nodes := ns\<rparr>, r) }"

definition sys_open :: "'w env \<Rightarrow> 'w fd_state \<Rightarrow> string option \<Rightarrow> u32 \<Rightarrow> 'w result" where
  "sys_open e s path flags =
     (if fd_table s = None then ret s (- ENIMPL)
      else do {
        rpath \<leftarrow> vfs_resolve (e_pre e) path (cwd_or_root s);
        (s, r) \<leftarrow> open_in e s rpath;
        case r of
          Some f \<Rightarrow> install_file e s f flags
        | None \<Rightarrow>
            if flags AND O_CREAT = 0 then ret s (- ENOENT)
            else do { (s, r) \<leftarrow> create_in e s rpath; f \<leftarrow> r; install_file e s f flags } })"

definition sys_seek :: "'w env \<Rightarrow> 'w fd_state \<Rightarrow> int \<Rightarrow> int \<Rightarrow> int \<Rightarrow> 'w result" where
  "sys_seek e s fd offset whence = with_file (s\<lparr>errno := 0\<rparr>) fd (\<lambda>s f. do {
     ops \<leftarrow> ops_of e (n_ops (the_node s f));
     case fo_seek ops of None \<Rightarrow> ret s (- ENOSYS) | Some sk \<Rightarrow> map_option Done (sk s f offset whence) })"

definition vfs_close :: "'w env \<Rightarrow> 'w fd_state \<Rightarrow> nat \<Rightarrow> 'w fd_state option" where
  "vfs_close e s f = do {
     ops \<leftarrow> ops_of e (n_ops (the_node s f));
     case fo_close ops of None \<Rightarrow> Some s | Some c \<Rightarrow> c s f }"

definition sys_close :: "'w env \<Rightarrow> 'w fd_state \<Rightarrow> int \<Rightarrow> 'w result" where
  "sys_close e s fd = with_file (s\<lparr>errno := 0\<rparr>) fd (\<lambda>s f. do {
     s \<leftarrow> (case n_pipe (the_node s f) of
             Some p \<Rightarrow>
               if n_type (the_node s f) = FS_PIPE
               then map_option (\<lambda>(pp, x). upd_nodes (upd_node f (\<lambda>_. x)) (s\<lparr>fd_pipes := upd_pipe p (\<lambda>_. pp) (fd_pipes s)\<rparr>))
                 (pipe_file_close (pipe_at (fd_pipes s) p) (the_node s f))
               else Some s
           | None \<Rightarrow> Some s);
     s \<leftarrow> vfs_close e s f;
     s \<leftarrow> set_fd s fd None;
     ret s 0 })"

definition sys_dup3 :: "'w fd_state \<Rightarrow> int \<Rightarrow> int \<Rightarrow> 'w result" where
  "sys_dup3 s oldfd newfd = with_file (s\<lparr>errno := 0\<rparr>) oldfd (\<lambda>s f.
     if newfd = - 1 then do {
       fd \<leftarrow> find_available_fd s;
       if fd < 0 then ret s (- EMFILE) else do { s \<leftarrow> set_fd s fd (Some f); ret s fd } }
     else if newfd < 0 \<or> newfd \<ge> int FILETABLE_SIZE then ret s (- EBADF)
     else do { s \<leftarrow> set_fd s newfd (Some f); ret s newfd })"

definition sys_ioctl :: "'w env \<Rightarrow> 'w fd_state \<Rightarrow> int \<Rightarrow> int \<Rightarrow> ptr \<Rightarrow> 'w result" where
  "sys_ioctl e s fd request data = with_file (s\<lparr>errno := 0\<rparr>) fd (\<lambda>s f. do {
     ops \<leftarrow> ops_of e (n_ops (the_node s f));
     case fo_ioctl ops of None \<Rightarrow> ret s (- ENOSYS) | Some io \<Rightarrow> map_option Done (io s f request data) })"

section \<open>Directories and attributes\<close>

definition copy_out :: "mem \<Rightarrow> ptr \<Rightarrow> u8 list \<Rightarrow> mem" where
  "copy_out m p bs = for_upto (length bs) (\<lambda>i m. m(p + of_nat i := bs ! i)) m"

text \<open>The packed \<open>struct dentry_user\<close>: type, inode and offset in 9 bytes, the name behind them.\<close>

definition dentry_user_size :: u32 where "dentry_user_size = 9"

definition put_dentry :: "mem \<Rightarrow> ptr \<Rightarrow> dentry \<Rightarrow> mem" where
  "put_dentry m buf d = store32 (store32 (m(buf := de_type d)) (buf + 1) (de_inode d)) (buf + 5) (de_offset d)"

definition put_name :: "mem \<Rightarrow> ptr \<Rightarrow> string \<Rightarrow> u32 \<Rightarrow> mem" where
  "put_name m buf name name_len =
     (copy_out m (buf + dentry_user_size) (take (unat name_len) (map of_char name)))(buf + dentry_user_size + name_len := 0)"

definition sys_readentry :: "'w env \<Rightarrow> 'w fd_state \<Rightarrow> int \<Rightarrow> ptr \<Rightarrow> size_t \<Rightarrow> 'w result" where
  "sys_readentry e s fd buf sz = with_file (s\<lparr>errno := 0\<rparr>) fd (\<lambda>s f.
     if n_type (the_node s f) \<noteq> FS_DIR then ret s (- ENOTDIR)
     else do {
       ops \<leftarrow> ops_of e (n_ops (the_node s f));
       case fo_iter ops of
         None \<Rightarrow> ret s (- ENOSYS)
       | Some iter \<Rightarrow>
           if sz < dentry_user_size then ret s (- EINVAL)
           else do {
             let max_name_len = sz - dentry_user_size;
             (s, tmp, r) \<leftarrow> iter s f max_name_len;
             if r = 0 then ret s 0
             else
               let len = of_nat (length (de_name tmp));
                   name_len = (if max_name_len - 1 > len then len else max_name_len - 1);
                   m = put_name (put_dentry (fd_mem s) buf tmp) buf (de_name tmp) name_len
               in ret (s\<lparr>fd_mem := m\<rparr>) (sint (dentry_user_size + name_len + 1)) } })"

definition sys_isatty :: "'w env \<Rightarrow> 'w fd_state \<Rightarrow> int \<Rightarrow> 'w result" where
  "sys_isatty e s fd = with_file (s\<lparr>errno := 0\<rparr>) fd (\<lambda>s f.
     if n_type (the_node s f) \<noteq> FS_DEV then ret s (- ENOTTY)
     else if e_class e (n_impl (the_node s f)) \<noteq> DEV_C_TTY then ret s (- ENOTTY)
     else ret s 0)"

record stat =
  st_mode :: u32
  st_dev :: u32
  st_inode :: u32
  st_size :: u32

text \<open>The fields \<open>do_stat\<close> assigns; all others are zero. The calls return them beside the state.\<close>

definition do_stat :: "fs_node \<Rightarrow> stat" where
  "do_stat file = \<lparr>st_mode = stat_make_mode 0x1FF (n_type file), st_dev = n_dev file, st_inode = n_inode file, st_size = n_size file\<rparr>"

definition sys_statfd :: "'w fd_state \<Rightarrow> int \<Rightarrow> ('w fd_state \<times> stat option \<times> int) option" where
  "sys_statfd s fd = do {
     (s, file) \<leftarrow> lookup_file (s\<lparr>errno := 0\<rparr>) fd;
     Some (case file of None \<Rightarrow> (s, None, - errno s) | Some f \<Rightarrow> (s, Some (do_stat (the_node s f)), 0)) }"

text \<open>A log message reads the working directory of the process before the check whether there is one.\<close>

definition sys_stat :: "'w env \<Rightarrow> 'w fd_state \<Rightarrow> string option \<Rightarrow> ('w fd_state \<times> stat option \<times> int) option" where
  "sys_stat e s path = do {
     cwd \<leftarrow> fd_cwd s;
     rpath \<leftarrow> vfs_resolve (e_pre e) path (Some cwd);
     (s, file) \<leftarrow> open_in e s rpath;
     Some (case file of None \<Rightarrow> (s, None, - ENOENT) | Some f \<Rightarrow> (s, Some (do_stat (the_node s f)), 0)) }"

definition sys_fchdir :: "'w env \<Rightarrow> 'w fd_state \<Rightarrow> int \<Rightarrow> 'w result" where
  "sys_fchdir e s fd =
     (if fd_cwd s = None then ret s (- EFAULT)
      else with_file s fd (\<lambda>s file. do {
        cwd \<leftarrow> vfs_resolve (e_pre e) (Some (n_path (the_node s file))) (fd_cwd s);
        (s, r) \<leftarrow> open_in e s cwd;
        case r of
          None \<Rightarrow> ret s (- ENOENT)
        | Some f \<Rightarrow>
            if n_type (the_node s f) \<noteq> FS_DIR then ret s (- ENOTDIR)
            else do { s \<leftarrow> vfs_close e s f; ret (s\<lparr>fd_cwd := Some cwd\<rparr>) 0 } }))"

section \<open>Pipes\<close>

text \<open>
  One of the two loops of \<open>pipe\<close>: the first free slot takes the file and its number is stored; \<open>i\<close> is the value of the
  counter afterwards.
\<close>

definition place :: "'w fd_state \<Rightarrow> nat \<Rightarrow> int \<Rightarrow> ('w fd_state \<times> int \<times> nat) option" where
  "place s f old = do {
     t \<leftarrow> fd_table s;
     case find_free t of
       None \<Rightarrow> Some (s, old, FILETABLE_SIZE)
     | Some i \<Rightarrow> Some (s\<lparr>fd_table := Some (t[i := Some f])\<rparr>, int i, i) }"

definition new_pipe_file :: "'w env \<Rightarrow> 'w fd_state \<Rightarrow> nat \<Rightarrow> bool \<Rightarrow> 'w fd_state \<times> nat" where
  "new_pipe_file e s p write =
     (let (ps, x) = create_pipe_file (if write then e_node_w e else e_node_r e) (fd_pipes s) p write;
          (f, ns) = new_node x (fd_nodes s)
      in (s\<lparr>fd_pipes := ps, fd_nodes := ns\<rparr>, f))"

text \<open>
  The two counters of the pipe are whatever the fresh block held. The result is the pair stored through \<open>fds\<close> beside the
  C result; on the error path both files are handed back to the heap.
\<close>

definition sys_pipe :: "'w env \<Rightarrow> 'w fd_state \<Rightarrow> int \<times> int \<Rightarrow> ('w fd_state \<times> (int \<times> int) \<times> int) option" where
  "sys_pipe e s fds = do {
     (m, rb) \<leftarrow> ringbuffer_create (fd_mem s) (e_rbp e) (e_rb e) (e_data e) PAGE_SIZE 1;
     let (p, ps) = new_pipe ((e_pipe e)\<lparr>pp_buf := rb\<rparr>) (fd_pipes s);
     let (s, rf) = new_pipe_file e (s\<lparr>fd_mem := m, fd_pipes := ps\<rparr>) p False;
     let (s, wf) = new_pipe_file e s p True;
     (s, fd0, _) \<leftarrow> place s rf (fst fds);
     (s, fd1, i) \<leftarrow> place s wf (snd fds);
     Some (if i = FILETABLE_SIZE then (s\<lparr>fd_freed := rf # wf # fd_freed s\<rparr>, (fd0, fd1), - EMFILE)
           else (s, (fd0, fd1), 0)) }"

section \<open>Sockets\<close>

definition sock_node :: "nat option \<Rightarrow> fs_node" where
  "sock_node sock = zero_node\<lparr>n_type := FS_SOCKET, n_size := 0, n_socket := sock\<rparr>"

definition sys_socket :: "'w env \<Rightarrow> 'w fd_state \<Rightarrow> int \<Rightarrow> int \<Rightarrow> int \<Rightarrow> 'w result" where
  "sys_socket e s domain type protocol =
     (if domain \<noteq> AF_LOCAL then ret s (- EINVAL)
      else if type \<noteq> SOCK_STREAM then ret s (- EINVAL)
      else do {
        (ss, sock) \<leftarrow> create_local_socket (e_sock e) (e_newsock e) (fd_socks s) type;
        let s = s\<lparr>fd_socks := ss\<rparr>;
        fd \<leftarrow> find_available_fd s;
        let (f, ns) = new_node (sock_node sock) (fd_nodes s);
        s \<leftarrow> set_fd (s\<lparr>fd_nodes := ns\<rparr>) fd (Some f);
        ret s fd })"

definition with_sock :: "'w fd_state \<Rightarrow> int \<Rightarrow> ('w fd_state \<Rightarrow> nat \<Rightarrow> 'w result) \<Rightarrow> 'w result" where
  "with_sock s fd k = with_file s fd (\<lambda>s f.
     case n_socket (the_node s f) of
       None \<Rightarrow> ret s (- ENOTSOCK)
     | Some sock \<Rightarrow> if n_type (the_node s f) \<noteq> FS_SOCKET then ret s (- ENOTSOCK) else k s sock)"

text \<open>\<open>family\<close> and \<open>path\<close> are the two members of the address the caller passes.\<close>

definition sys_bind :: "'w env \<Rightarrow> 'w fd_state \<Rightarrow> int \<Rightarrow> int \<Rightarrow> string \<Rightarrow> 'w result" where
  "sys_bind e s fd family path =
     (if family \<noteq> AF_UNIX then ret s (- EINVAL)
      else with_sock s fd (\<lambda>s sock. do {
        (ns, ss, r) \<leftarrow> local_socket_bind (fd_vfs s) (e_junk e) (fd_nodes s) (fd_socks s) sock path;
        ret (s\<lparr>fd_nodes := ns, fd_socks := ss\<rparr>) r }))"

definition sys_connect :: "'w fd_state \<Rightarrow> int \<Rightarrow> int \<Rightarrow> string \<Rightarrow> 'w result" where
  "sys_connect s fd family path =
     (if family \<noteq> AF_UNIX then ret s (- EINVAL)
      else with_sock s fd (\<lambda>s sock.
        let (ss, r) = local_socket_connect (fd_socks s) sock path in ret (s\<lparr>fd_socks := ss\<rparr>) r))"

definition sys_listen :: "'w fd_state \<Rightarrow> int \<Rightarrow> int \<Rightarrow> 'w result" where
  "sys_listen s fd backlog =
     with_sock s fd (\<lambda>s sock. ret (s\<lparr>fd_socks := upd_sock sock (\<lambda>x. x\<lparr>so_backlog := backlog\<rparr>) (fd_socks s)\<rparr>) 0)"

text \<open>The check for a full table compares the descriptor with 0 instead of a negative number.\<close>

definition accept_file :: "'w fd_state \<Rightarrow> nat \<Rightarrow> 'w result" where
  "accept_file s sock =
     (let (f, ns) = new_node (sock_node (Some sock)) (fd_nodes s);
          s = s\<lparr>fd_nodes := ns\<rparr>
      in do {
        nfd \<leftarrow> find_available_fd s;
        if nfd = 0 then ret s (- EMFILE)
        else do { s \<leftarrow> set_fd s nfd (Some f); ret s nfd } })"

definition sys_accept :: "'w env \<Rightarrow> 'w fd_state \<Rightarrow> int \<Rightarrow> 'w result" where
  "sys_accept e s fd = with_sock s fd (\<lambda>s srv.
     case conn_queue (sock_at (fd_socks s) srv) of
       [] \<Rightarrow> Some Blocked
     | client # queue \<Rightarrow> do {
         let ss = upd_sock srv (\<lambda>x. x\<lparr>conn_queue := queue\<rparr>) (fd_socks s);
         (ss, r) \<leftarrow> create_socket (e_sock e) (e_newsock e) ss (so_family (sock_at ss client)) (so_type (sock_at ss client));
         sock \<leftarrow> r;
         let ss = upd_sock client (\<lambda>x. x\<lparr>so_state := SOCK_STATE_CONNECTED\<rparr>) ss;
         let ss = upd_sock sock (\<lambda>x. x\<lparr>so_state := SOCK_STATE_LISTENING\<rparr>) ss;
         let ss = upd_sock client (\<lambda>x. x\<lparr>so_peer := Some sock\<rparr>) ss;
         let ss = upd_sock sock (\<lambda>x. x\<lparr>so_peer := Some client\<rparr>) ss;
         accept_file (s\<lparr>fd_socks := ss\<rparr>) sock })"

definition sys_send :: "'w env \<Rightarrow> 'w fd_state \<Rightarrow> int \<Rightarrow> ptr \<Rightarrow> size_t \<Rightarrow> 'w result" where
  "sys_send e s sockfd buf sz = with_sock s sockfd (\<lambda>s sock. net_socket_send e s sock buf sz)"

definition sys_recv :: "'w fd_state \<Rightarrow> int \<Rightarrow> ptr \<Rightarrow> size_t \<Rightarrow> 'w result" where
  "sys_recv s sockfd buf sz = with_sock s sockfd (\<lambda>s sock. net_socket_recv s sock buf sz)"

section \<open>Polling\<close>

record pollfd =
  pf_fd :: int
  pf_events :: u16
  pf_revents :: u16

text \<open>
  One pass over the descriptors. The table of local sockets has no \<open>poll\<close>, so polling a socket calls through the null
  pointer. The result is the early \<open>return 0\<close> for a negative descriptor (\<open>True\<close>) or the end of the pass.
\<close>

fun poll_pass :: "'w fd_state \<Rightarrow> pollfd list \<Rightarrow> int \<Rightarrow> ('w fd_state \<times> pollfd list \<times> int \<times> bool) option" where
  "poll_pass s [] n = Some (s, [], n, False)"
| "poll_pass s (p # fds) n =
     (if pf_fd p < 0 then Some (s, p # fds, 0, True)
      else do {
        (s, file) \<leftarrow> lookup_file s (pf_fd p);
        (p, n) \<leftarrow> (case file of
            None \<Rightarrow> Some (p, n)
          | Some f \<Rightarrow> do {
              revents \<leftarrow> (case n_socket (the_node s f) of
                  Some sock \<Rightarrow> None
                | None \<Rightarrow> (case n_pipe (the_node s f) of
                    Some q \<Rightarrow> Some (pipe_file_poll (pipe_at (fd_pipes s) q)) | None \<Rightarrow> Some 0));
              let ev = revents AND pf_events p;
              Some (p\<lparr>pf_revents := ev\<rparr>, if ev \<noteq> 0 then n + 1 else n) });
        (s, fds, n, early) \<leftarrow> poll_pass s fds n;
        Some (s, p # fds, n, early) })"

text \<open>\<open>Blocked\<close> means that the pass found nothing; the next one starts from the updated descriptors.\<close>

definition do_poll :: "'w fd_state \<Rightarrow> pollfd list \<Rightarrow> ('w fd_state \<times> pollfd list \<times> int) blocking option" where
  "do_poll s fds = do {
     (s, fds, n, early) \<leftarrow> poll_pass s fds 0;
     Some (if early then Done (s, fds, 0) else if n > 0 then Done (s, fds, n) else Blocked) }"

definition sys_poll :: "'w fd_state \<Rightarrow> pollfd list \<Rightarrow> ('w fd_state \<times> pollfd list \<times> int) blocking option" where
  "sys_poll s fds = do_poll s fds"

section \<open>Descriptors\<close>

lemma find_free_Some:
  "find_free t = Some i \<longleftrightarrow> i < FILETABLE_SIZE \<and> t ! i = None \<and> (\<forall>j < i. t ! j \<noteq> None)"
  by (auto simp: find_free_def find_Some_iff)

lemma find_available_fd_Some:
  "fd_table s = Some t \<Longrightarrow> find_available_fd s = Some (case find_free t of Some i \<Rightarrow> int i | None \<Rightarrow> - 1)"
  by (simp add: find_available_fd_def)

lemma find_available_fd_iff:
  assumes "fd_table s = Some t"
  shows "find_available_fd s = Some fd \<longleftrightarrow> (if fd < 0 then fd = - 1 \<and> find_free t = None else find_free t = Some (nat fd))"
  using assms by (auto simp: find_available_fd_def split: option.splits)

text \<open>What a call does that installs a new descriptor: an error leaves the table alone, success uses the lowest free slot.\<close>

definition installs :: "'w fd_state \<Rightarrow> int \<Rightarrow> 'w fd_state \<Rightarrow> bool" where
  "installs s r s' \<longleftrightarrow> (case fd_table s of
       None \<Rightarrow> False
     | Some t \<Rightarrow>
         (if r < 0 then fd_table s' = Some t
          else find_free t = Some (nat r) \<and> (\<exists>f. fd_table s' = Some (t[nat r := Some f]))))"

lemma set_fd_Some: "set_fd s fd v = Some s' \<Longrightarrow> fd_table s = Some t \<Longrightarrow> 0 \<le> fd \<and> fd_table s' = Some (t[nat fd := v])"
  by (auto simp: set_fd_def split: if_splits)

lemma installs_set:
  assumes "find_available_fd u = Some fd" "set_fd s fd (Some f) = Some s'"
    and "fd_table u = fd_table s0" "fd_table s = fd_table s0" "fd_table s0 = Some t"
  shows "installs s0 fd s'"
proof -
  have u: "fd_table u = Some t" and s: "fd_table s = Some t" using assms(3-5) by auto
  show ?thesis using assms(1,5) set_fd_Some[OF assms(2) s] unfolding find_available_fd_iff[OF u]
    by (auto simp: installs_def split: if_splits)
qed

lemma installs_err: "fd_table s' = fd_table s0 \<Longrightarrow> fd_table s0 = Some t \<Longrightarrow> r < 0 \<Longrightarrow> installs s0 r s'"
  by (simp add: installs_def)

lemma lookup_file_table: "lookup_file s fd = Some (s', r) \<Longrightarrow> fd_table s' = fd_table s \<and> (r = None \<longrightarrow> errno s' = EBADF)"
  by (auto simp: lookup_file_def Let_def bind_eq_Some_conv split: if_splits dest: arg_cong[where f = errno])

lemma with_file_installs:
  assumes "with_file s fd k = Some (Done (s', r))" "fd_table s0 = fd_table s" "fd_table s0 = Some t"
    and "\<And>u f. k u f = Some (Done (s', r)) \<Longrightarrow> fd_table u = Some t \<Longrightarrow> installs s0 r s'"
  shows "installs s0 r s'"
proof -
  from assms(1) obtain u fo where u: "lookup_file s fd = Some (u, fo)"
    and k: "(case fo of None \<Rightarrow> ret u (- errno u) | Some f \<Rightarrow> k u f) = Some (Done (s', r))"
    by (auto simp: with_file_def bind_eq_Some_conv)
  have tb: "fd_table u = Some t" "fo = None \<longrightarrow> errno u = EBADF" using lookup_file_table[OF u] assms(2,3) by auto
  show ?thesis
  proof (cases fo)
    case None
    with k have "s' = u" "r = - EBADF" using tb by (auto simp: ret_def)
    then show ?thesis using tb assms(3) by (auto intro!: installs_err simp: errno_defs)
  next
    case (Some f)
    then show ?thesis using k assms(4) tb by simp
  qed
qed

lemma open_in_table: "open_in e s path = Some (s', r) \<Longrightarrow> fd_table s' = fd_table s"
  by (auto simp: open_in_def bind_eq_Some_conv)

lemma open_pipe_end_table: "open_pipe_end e s f flags = Some s' \<Longrightarrow> fd_table s' = fd_table s"
  by (auto simp: open_pipe_end_def upd_nodes_def bind_eq_Some_conv Let_def split: if_splits)

lemma upd_nodes_table [simp]: "fd_table (upd_nodes f s) = fd_table s"
  by (simp add: upd_nodes_def)

lemma create_in_table: "create_in e s path = Some (s', r) \<Longrightarrow> fd_table s' = fd_table s"
  by (auto simp: create_in_def bind_eq_Some_conv)

lemma install_file_installs:
  assumes "install_file e s f flags = Some (Done (s', r))" "fd_table s = Some t" "fd_table s0 = Some t"
  shows "installs s0 r s'"
proof -
  obtain s1 fd where s1: "open_pipe_end e s f flags = Some s1"
    and fd: "find_available_fd (upd_nodes (upd_node f (\<lambda>x. x\<lparr>n_rdonly := (flags AND FD_RDONLY \<noteq> 0)\<rparr>)) s1) = Some fd"
    and r: "(if fd < 0 then ret (upd_nodes (upd_node f (\<lambda>x. x\<lparr>n_rdonly := (flags AND FD_RDONLY \<noteq> 0)\<rparr>)) s1) (- EMFILE)
      else do { s \<leftarrow> set_fd (upd_nodes (upd_node f (\<lambda>x. x\<lparr>n_rdonly := (flags AND FD_RDONLY \<noteq> 0)\<rparr>)) s1) fd (Some f);
        ret s fd }) = Some (Done (s', r))"
    using assms(1) by (auto simp: install_file_def bind_eq_Some_conv Let_def)
  have t1: "fd_table s1 = Some t" using open_pipe_end_table[OF s1] assms(2) by simp
  show ?thesis
  proof (cases "fd < 0")
    case True
    then show ?thesis using r t1 assms(3) by (auto simp: ret_def errno_defs intro!: installs_err)
  next
    case False
    with r obtain s2 where sf:
      "set_fd (upd_nodes (upd_node f (\<lambda>x. x\<lparr>n_rdonly := (flags AND FD_RDONLY \<noteq> 0)\<rparr>)) s1) fd (Some f) = Some s2"
      and "s2 = s'" "fd = r"
      by (auto simp: ret_def bind_eq_Some_conv)
    then show ?thesis using installs_set[OF fd sf, of s0 t] t1 assms(3) by simp
  qed
qed

lemma sys_open_installs:
  assumes "sys_open e s path flags = Some (Done (s', r))" "fd_table s = Some t"
  shows "installs s r s'"
proof -
  from assms obtain rpath s1 fo where 1: "open_in e s rpath = Some (s1, fo)" and
    2: "(case fo of
          Some f \<Rightarrow> install_file e s1 f flags
        | None \<Rightarrow>
            if flags AND O_CREAT = 0 then ret s1 (- ENOENT)
            else do { (s, r) \<leftarrow> create_in e s1 rpath; f \<leftarrow> r; install_file e s f flags }) = Some (Done (s', r))"
    unfolding sys_open_def by (auto simp: bind_eq_Some_conv)
  have t1: "fd_table s1 = Some t" using open_in_table[OF 1] assms(2) by simp
  show ?thesis
    using 2 t1 assms(2) create_in_table[of e s1 rpath]
    by (auto simp: ret_def errno_defs bind_eq_Some_conv split: option.splits if_splits
      intro: installs_err install_file_installs)
qed

lemma sys_dup3_installs:
  assumes "sys_dup3 s oldfd (- 1) = Some (Done (s', r))" "fd_table s = Some t"
  shows "installs s r s'"
  using assms(1) unfolding sys_dup3_def
proof (rule with_file_installs)
  show "fd_table s = fd_table (s\<lparr>errno := 0\<rparr>)" by simp
  show "fd_table s = Some t" by fact
  fix u f
  show "(if (- 1 :: int) = - 1
        then do { fd \<leftarrow> find_available_fd u; if fd < 0 then ret u (- EMFILE) else do { s \<leftarrow> set_fd u fd (Some f); ret s fd } }
        else if (- 1 :: int) < 0 \<or> int FILETABLE_SIZE \<le> - 1 then ret u (- EBADF)
        else do { s \<leftarrow> set_fd u (- 1) (Some f); ret s (- 1) }) = Some (Done (s', r)) \<Longrightarrow>
      fd_table u = Some t \<Longrightarrow> installs s r s'"
    using assms(2)
    by (auto simp: ret_def bind_eq_Some_conv errno_defs split: if_splits intro: installs_err installs_set)
qed

lemma sys_socket_installs:
  assumes "sys_socket e s domain type protocol = Some (Done (s', r))" "fd_table s = Some t"
  shows "installs s r s'"
proof (cases "domain = AF_LOCAL \<and> type = SOCK_STREAM")
  case False
  then show ?thesis using assms by (auto simp: sys_socket_def ret_def errno_defs split: if_splits intro!: installs_err)
next
  case True
  with assms(1) obtain ss sock fd where fd: "find_available_fd (s\<lparr>fd_socks := ss\<rparr>) = Some fd"
    and sf: "set_fd (s\<lparr>fd_socks := ss, fd_nodes := snd (new_node (sock_node sock) (fd_nodes s))\<rparr>) fd
      (Some (fst (new_node (sock_node sock) (fd_nodes s)))) = Some s'" and "fd = r"
    by (auto simp: sys_socket_def ret_def bind_eq_Some_conv Let_def case_prod_beta)
  then show ?thesis using installs_set[OF fd sf, of s t] assms(2) by simp
qed

lemma with_sock_installs:
  assumes "with_sock s fd k = Some (Done (s', r))" "fd_table s = Some t"
    and "\<And>u sock. k u sock = Some (Done (s', r)) \<Longrightarrow> fd_table u = Some t \<Longrightarrow> installs s r s'"
  shows "installs s r s'"
  using assms(1) unfolding with_sock_def
proof (rule with_file_installs[OF _ refl assms(2)])
  fix u f
  assume "(case n_socket (the_node u f) of None \<Rightarrow> ret u (- ENOTSOCK)
    | Some sock \<Rightarrow> if n_type (the_node u f) \<noteq> FS_SOCKET then ret u (- ENOTSOCK) else k u sock) = Some (Done (s', r))"
    and "fd_table u = Some t"
  then show "installs s r s'"
    using assms(2,3) by (auto simp: ret_def errno_defs split: option.splits if_splits intro: installs_err)
qed

lemma accept_file_installs:
  assumes "accept_file u sock = Some (Done (s', r))" "fd_table u = Some t" "fd_table s = Some t"
  shows "installs s r s'"
proof -
  define f ns where "f = fst (new_node (sock_node (Some sock)) (fd_nodes u))"
    and "ns = snd (new_node (sock_node (Some sock)) (fd_nodes u))"
  from assms(1) obtain nfd where nfd: "find_available_fd (u\<lparr>fd_nodes := ns\<rparr>) = Some nfd"
    and r: "(if nfd = 0 then ret (u\<lparr>fd_nodes := ns\<rparr>) (- EMFILE)
      else do { s \<leftarrow> set_fd (u\<lparr>fd_nodes := ns\<rparr>) nfd (Some f); ret s nfd }) = Some (Done (s', r))"
    unfolding f_def ns_def by (auto simp: accept_file_def bind_eq_Some_conv Let_def case_prod_beta)
  show ?thesis
  proof (cases "nfd = 0")
    case True
    then show ?thesis using r assms(2,3) by (auto simp: ret_def errno_defs intro!: installs_err)
  next
    case False
    with r have sf: "set_fd (u\<lparr>fd_nodes := ns\<rparr>) nfd (Some f) = Some s'" and "nfd = r"
      by (auto simp: ret_def bind_eq_Some_conv)
    then show ?thesis using installs_set[OF nfd sf, of s t] assms(2,3) by simp
  qed
qed

lemma sys_accept_installs:
  assumes "sys_accept e s fd = Some (Done (s', r))" "fd_table s = Some t"
  shows "installs s r s'"
  using assms(1) unfolding sys_accept_def
proof (rule with_sock_installs[OF _ assms(2)], goal_cases)
  case (1 u srv)
  then obtain ss sock where acc: "accept_file (u\<lparr>fd_socks := ss\<rparr>) sock = Some (Done (s', r))"
    by (auto simp: bind_eq_Some_conv Let_def case_prod_beta split: list.splits)
  show ?case using 1(2) assms(2) by (intro accept_file_installs[OF acc]) auto
qed

text \<open>The system calls that hand out a new descriptor.\<close>

inductive fd_alloc :: "'w env \<Rightarrow> 'w fd_state \<Rightarrow> int \<Rightarrow> 'w fd_state \<Rightarrow> bool" for e where
  opened: "sys_open e s path flags = Some (Done (s', r)) \<Longrightarrow> fd_alloc e s r s'"
| duped: "sys_dup3 s oldfd (- 1) = Some (Done (s', r)) \<Longrightarrow> fd_alloc e s r s'"
| socketed: "sys_socket e s domain type protocol = Some (Done (s', r)) \<Longrightarrow> fd_alloc e s r s'"
| accepted: "sys_accept e s fd = Some (Done (s', r)) \<Longrightarrow> fd_alloc e s r s'"


definition demo_env :: "unit env" where
  "demo_env = \<lparr>e_ops = \<lambda>_. no_file_ops, e_class = \<lambda>_. 0, e_junk = [], e_pre = CHR ''/'', e_node_r = zero_node, e_node_w = zero_node,
     e_sock = sock_at demo_socks 0, e_pipe = demo_pipe, e_rbp = 4096, e_rb = example_rb, e_data = 8192, e_ret = 0,
     e_newsock = Some 2\<rparr>"

text \<open>A task with descriptor 0 in use.\<close>

definition demo_fds :: "unit fd_state" where
  "demo_fds = \<lparr>fd_vfs = demo_vfs, fd_nodes = demo_nodes, fd_pipes = \<lparr>pipe_at = \<lambda>_. demo_pipe, pipe_next = 0, open_pipes = []\<rparr>,
     fd_socks = demo_socks, fd_mem = \<lambda>_. 0, fd_table = Some (Some 0 # replicate 255 None), fd_cwd = Some ''/'', errno = 0,
     fd_freed = []\<rparr>"

lemma demo_free: "find_free (Some 0 # replicate 255 None) = Some 1"
  by (simp add: find_free_Some FILETABLE_SIZE_def)


section \<open>Directory entries stay inside the caller's buffer\<close>

lemma copy_out_apply:
  assumes "length bs < 4294967296"
  shows "copy_out m p bs a = (if unat (a - p) < length bs then bs ! unat (a - p) else m a)"
proof -
  have "k \<le> length bs \<Longrightarrow> for_upto k (\<lambda>i m. m(p + of_nat i := bs ! i)) m a = (if unat (a - p) < k then bs ! unat (a - p) else m a)" for k
  proof (induction k)
    case (Suc k)
    have "unat (a - p) < Suc k \<longleftrightarrow> unat (a - p) < k \<or> a = p + of_nat k"
      using Suc.prems assms by (intro in_window_Suc) simp
    moreover have "unat (of_nat k :: u32) = k" using Suc.prems assms by (intro of_nat_unat_u32) simp
    ultimately show ?case using Suc by auto
  qed simp
  then show ?thesis by (simp add: copy_out_def)
qed

lemma put_dentry_frame: "9 \<le> unat (a - buf) \<Longrightarrow> put_dentry m buf d a = m a"
proof -
  assume a: "9 \<le> unat (a - buf)"
  have "a \<noteq> buf + k" if "unat k < 9" for k :: u32 using a that by auto
  from this[of 0] this[of 1] this[of 2] this[of 3] this[of 4] this[of 5] this[of 6] this[of 7] this[of 8]
  show ?thesis by (simp add: put_dentry_def store32_def add.assoc)
qed

lemma put_name_apply:
  assumes "unat l \<le> length name" "unat l < 4294967287"
  shows "put_name m buf name l a =
    (if a = buf + 9 + l then 0
     else if unat (a - (buf + 9)) < unat l then of_char (name ! unat (a - (buf + 9))) else m a)"
proof -
  have "length (take (unat l) (map of_char name :: u8 list)) = unat l" using assms(1) by simp
  then show ?thesis
    using copy_out_apply[of "take (unat l) (map of_char name)" m "buf + 9" a] assms
    by (auto simp: put_name_def dentry_user_size_def)
qed

lemma readentry_mem:
  assumes nl: "unat nl = l" and l: "l \<le> length name" "l < 2147483648"
  shows "l + 10 \<le> unat (a - buf) \<Longrightarrow> put_name (put_dentry m buf d) buf name nl a = m a"
    and "i < l \<Longrightarrow> put_name (put_dentry m buf d) buf name nl (buf + 9 + of_nat i) = of_char (name ! i)"
    and "put_name (put_dentry m buf d) buf name nl (buf + 9 + nl) = 0"
proof -
  show "put_name (put_dentry m buf d) buf name nl a = m a" if a: "l + 10 \<le> unat (a - buf)"
  proof -
    have eq: "a - (buf + 9) = a - buf - 9" by simp
    have "unat (a - buf - 9) = unat (a - buf) - 9" using a by (subst unat_sub) (simp_all add: word_le_nat_alt)
    then have "\<not> unat (a - (buf + 9)) \<le> l" unfolding eq using a by simp
    then have "a \<noteq> buf + 9 + nl" "\<not> unat (a - (buf + 9)) < l" using nl by auto
    then show ?thesis using put_name_apply[of nl name] put_dentry_frame[of a buf] a nl l by simp
  qed
  show "put_name (put_dentry m buf d) buf name nl (buf + 9 + of_nat i) = of_char (name ! i)" if "i < l"
  proof -
    have "unat (of_nat i :: u32) = i" using that l(2) by (intro of_nat_unat_u32) simp
    moreover from this have "(of_nat i :: u32) \<noteq> nl" using that nl by auto
    ultimately show ?thesis using put_name_apply[of nl name] nl l that by simp
  qed
  show "put_name (put_dentry m buf d) buf name nl (buf + 9 + nl) = 0" using put_name_apply[of nl name] nl l by simp
qed

text \<open>
  C24: \<open>readentry\<close> with a buffer of at least 10 bytes stores the next directory entry inside the buffer: nothing outside
  the given size changes, the name is cut to the room there is and always terminated, and the result is the number of
  bytes used.
\<close>

theorem readentry_within_buffer:
  assumes "fd_table s = Some t" "0 \<le> fd" "fd < int FILETABLE_SIZE" "t ! nat fd = Some f"
    and "n_type (the_node s f) = FS_DIR" "ops_of e (n_ops (the_node s f)) = Some ops" "fo_iter ops = Some iter"
    and "iter (s\<lparr>errno := 0\<rparr>) f (sz - 9) = Some (s2, tmp, r)" "r \<noteq> 0"
    and "10 \<le> sz" "unat sz < 2147483648" "length (de_name tmp) < 2147483648"
  shows "let l = min (unat sz - 10) (length (de_name tmp))
    in \<exists>m'. sys_readentry e s fd buf sz = Some (Done (s2\<lparr>fd_mem := m'\<rparr>, int l + 10)) \<and> l + 10 \<le> unat sz \<and>
      (\<forall>a. unat sz \<le> unat (a - buf) \<longrightarrow> m' a = fd_mem s2 a) \<and>
      (\<forall>i < l. m' (buf + 9 + of_nat i) = of_char (de_name tmp ! i)) \<and> m' (buf + 9 + of_nat l) = 0"
proof -
  define l where "l = min (unat sz - 10) (length (de_name tmp))"
  define nl :: u32 where "nl = of_nat l"
  define m where "m = put_name (put_dentry (fd_mem s2) buf tmp) buf (de_name tmp) nl"
  have sz10: "10 \<le> unat sz" using assms(10) by (simp add: word_le_nat_alt)
  have l: "l + 10 \<le> unat sz" "l \<le> length (de_name tmp)" "l < 2147483648"
    using sz10 assms(11) by (auto simp: l_def)
  have nl: "unat nl = l" unfolding nl_def using l(3) by (intro of_nat_unat_u32) simp
  have "unat (sz - 9 - 1) = unat sz - 10" using sz10 by (subst unat_sub) (simp_all add: word_le_nat_alt unat_sub_if')
  then have "(if sz - 9 - 1 > of_nat (length (de_name tmp)) then of_nat (length (de_name tmp)) else sz - 9 - 1) = nl"
    using assms(12) by (auto simp: nl_def l_def word_less_nat_alt of_nat_unat_u32 word_unat_eq_iff min_def)
  moreover have "\<not> sz < 9" using sz10 by (simp add: word_less_nat_alt)
  moreover have "unat (9 + nl + 1) = l + 10" using nl l assms(11) by (simp add: unat_word_ariths)
  then have "sint (9 + nl + 1) = int l + 10" unfolding sint_u32 using l assms(11) by simp
  ultimately have "sys_readentry e s fd buf sz = Some (Done (s2\<lparr>fd_mem := m\<rparr>, int l + 10))"
    using assms(1-9)
    by (simp add: sys_readentry_def with_file_def lookup_file_def the_node_def ret_def dentry_user_size_def Let_def m_def)
  moreover have "m a = fd_mem s2 a" if "unat sz \<le> unat (a - buf)" for a
    using readentry_mem(1)[OF nl, of "de_name tmp" a buf "fd_mem s2" tmp] l that by (simp add: m_def)
  moreover have "m (buf + 9 + of_nat i) = of_char (de_name tmp ! i)" if "i < l" for i
    using readentry_mem(2)[OF nl] l that by (simp add: m_def)
  moreover have "m (buf + 9 + nl) = 0" using readentry_mem(3)[OF nl] l by (simp add: m_def)
  ultimately show ?thesis unfolding l_def[symmetric] nl_def Let_def using l(1) by (intro exI[of _ m]) auto
qed

definition demo_dir_ops :: "unit file_operations" where
  "demo_dir_ops = no_file_ops\<lparr>fo_iter := Some (\<lambda>s f n. Some (s,
     \<lparr>de_type = 1, de_inode = 7, de_offset = 0, de_name = ''hello''\<rparr>, 1))\<rparr>"

definition demo_dir :: "unit fd_state" where
  "demo_dir = demo_fds\<lparr>fd_nodes := upd_node 0 (\<lambda>x. x\<lparr>n_type := FS_DIR\<rparr>) demo_nodes\<rparr>"

theorem readentry_within_buffer_witness:
  "\<exists>m'. sys_readentry (demo_env\<lparr>e_ops := \<lambda>_. demo_dir_ops\<rparr>) demo_dir 0 1000 12 =
      Some (Done (demo_dir\<lparr>errno := 0, fd_mem := m'\<rparr>, 12)) \<and> m' 1009 = 0x68 \<and> m' 1010 = 0x65 \<and> m' 1011 = 0 \<and> m' 1012 = 0"
proof -
  let ?e = "demo_env\<lparr>e_ops := \<lambda>_. demo_dir_ops\<rparr>"
  let ?d = "\<lparr>de_type = 1, de_inode = 7, de_offset = 0, de_name = ''hello''\<rparr>"
  let ?it = "\<lambda>s f n. Some (s, ?d, 1 :: int)"
  have h: "fd_table demo_dir = Some (Some 0 # replicate 255 None)" "(0 :: int) < int FILETABLE_SIZE"
    "(Some 0 # replicate 255 None) ! nat 0 = Some (0 :: nat)" "n_type (the_node demo_dir 0) = FS_DIR"
    "ops_of ?e (n_ops (the_node demo_dir 0)) = Some demo_dir_ops" "fo_iter demo_dir_ops = Some ?it"
    "?it (demo_dir\<lparr>errno := 0\<rparr>) 0 (12 - 9 :: u32) = Some (demo_dir\<lparr>errno := 0\<rparr>, ?d, 1)" "(10 :: u32) \<le> 12"
    "unat (12 :: u32) < 2147483648" "length (de_name ?d) < 2147483648"
    by (simp_all add: the_node_def demo_dir_def demo_fds_def demo_dir_ops_def demo_nodes_def FILETABLE_SIZE_def)
  have l: "min (unat (12 :: u32) - 10) (length (de_name ?d)) = 2" by simp
  obtain m' where m': "sys_readentry ?e demo_dir 0 1000 12 = Some (Done (demo_dir\<lparr>errno := 0, fd_mem := m'\<rparr>, int 2 + 10))"
    "\<forall>a. unat (12 :: u32) \<le> unat (a - 1000) \<longrightarrow> m' a = fd_mem (demo_dir\<lparr>errno := 0\<rparr>) a"
    "\<forall>i < 2. m' (1000 + 9 + of_nat i) = of_char (de_name ?d ! i)" "m' (1000 + 9 + of_nat 2) = 0"
    using readentry_within_buffer[OF h(1) order.refl h(2-7) one_neq_zero h(8-10), of 1000]
    unfolding Let_def l by blast
  have "m' 1009 = 0x68" "m' 1010 = 0x65" using m'(3)[rule_format, of 0] m'(3)[rule_format, of 1] by simp_all
  moreover have "m' 1012 = 0" using m'(2)[rule_format, of 1012] by (simp add: demo_dir_def demo_fds_def)
  ultimately show ?thesis using m'(1,4) by (intro exI[of _ m']) simp
qed

text \<open>With a buffer of exactly 9 bytes the limit wraps around, and the whole name is stored behind the buffer.\<close>

lemma readentry_overflow:
  assumes "fd_table s = Some t" "0 \<le> fd" "fd < int FILETABLE_SIZE" "t ! nat fd = Some f"
    and "n_type (the_node s f) = FS_DIR" "ops_of e (n_ops (the_node s f)) = Some ops" "fo_iter ops = Some iter"
    and "iter (s\<lparr>errno := 0\<rparr>) f 0 = Some (s2, tmp, r)" "r \<noteq> 0" "length (de_name tmp) < 2147483648"
  shows "sys_readentry e s fd buf 9 = Some (Done (s2\<lparr>fd_mem :=
      put_name (put_dentry (fd_mem s2) buf tmp) buf (de_name tmp) (of_nat (length (de_name tmp)))\<rparr>,
      sint (10 + of_nat (length (de_name tmp)) :: u32)))"
proof -
  have "unat (- 1 :: u32) = 4294967295" by (simp add: unsigned_minus_1_eq_mask mask_eq_exp_minus_1)
  then have "(- 1 :: u32) > of_nat (length (de_name tmp))"
    using assms(10) by (simp add: word_less_nat_alt of_nat_unat_u32)
  then show ?thesis using assms
    by (simp add: sys_readentry_def with_file_def lookup_file_def the_node_def ret_def dentry_user_size_def Let_def algebra_simps)
qed

section \<open>Sockets and pipes as descriptors\<close>

text \<open>
  A socket cannot be closed: its file has no operations, and \<open>close\<close> reads the close operation through the null
  pointer. Every descriptor that \<open>socket\<close> returns leads there.
\<close>

lemma close_socket_faults:
  assumes "sys_socket e s AF_LOCAL SOCK_STREAM protocol = Some (Done (s', fd))" "fd_table s = Some t"
    and "length t = FILETABLE_SIZE"
  shows "sys_close e s' fd = None"
proof -
  from assms(1) obtain ss sock where fd: "find_available_fd (s\<lparr>fd_socks := ss\<rparr>) = Some fd"
    and sf: "set_fd (s\<lparr>fd_socks := ss, fd_nodes := snd (new_node (sock_node sock) (fd_nodes s))\<rparr>) fd
      (Some (fst (new_node (sock_node sock) (fd_nodes s)))) = Some s'"
    by (auto simp: sys_socket_def ret_def bind_eq_Some_conv Let_def case_prod_beta)
  then show ?thesis
    using assms(2,3)
    by (auto simp: sys_close_def with_file_def lookup_file_def set_fd_def vfs_close_def the_node_def new_node_def sock_node_def
      zero_node_def nat_less_iff Let_def split: if_splits)
qed

lemma close_socket_faults_example:
  "\<exists>s' fd. sys_socket demo_env demo_fds AF_LOCAL SOCK_STREAM 0 = Some (Done (s', fd)) \<and> sys_close demo_env s' fd = None"
proof -
  have t: "fd_table demo_fds = Some (Some 0 # replicate 255 None)" by (simp add: demo_fds_def)
  obtain s' where s': "sys_socket demo_env demo_fds AF_LOCAL SOCK_STREAM 0 = Some (Done (s', 1))"
    using demo_free
    by (simp add: sys_socket_def create_local_socket_def find_available_fd_def t set_fd_def FILETABLE_SIZE_def ret_def new_node_def Let_def)
  show ?thesis using close_socket_faults[OF s' t] s' by (auto simp: FILETABLE_SIZE_def)
qed

lemma place_free:
  "fd_table s = Some t \<Longrightarrow> find_free t = Some i \<Longrightarrow> place s f old = Some (s\<lparr>fd_table := Some (t[i := Some f])\<rparr>, int i, i)"
  by (simp add: place_def)

lemma place_full: "fd_table s = Some t \<Longrightarrow> find_free t = None \<Longrightarrow> place s f old = Some (s, old, FILETABLE_SIZE)"
  by (simp add: place_def)

lemma new_pipe_file_table: "fd_table (fst (new_pipe_file e s p write)) = fd_table s" "fd_freed (fst (new_pipe_file e s p write)) = fd_freed s"
  by (simp_all add: new_pipe_file_def case_prod_beta Let_def)

lemma full_after_last:
  assumes "length t = FILETABLE_SIZE" "i < FILETABLE_SIZE" "\<forall>j < FILETABLE_SIZE. j \<noteq> i \<longrightarrow> t ! j \<noteq> None"
  shows "find_free (t[i := Some f]) = None"
  using assms by (auto simp: find_free_def find_None_iff nth_list_update_if)

text \<open>
  when only one slot of the file table is free, \<open>pipe\<close> fails with \<open>EMFILE\<close> but leaves its reading end, which it has
  just released, in that slot: the descriptor refers to freed memory.
\<close>

lemma pipe_failure_leaves_descriptor:
  assumes "fd_table s = Some t" "length t = FILETABLE_SIZE" "i < FILETABLE_SIZE" "t ! i = None"
    and "\<forall>j < FILETABLE_SIZE. j \<noteq> i \<longrightarrow> t ! j \<noteq> None" "e_rbp e \<noteq> NULL"
  shows "\<exists>s' fds' f. sys_pipe e s fds = Some (s', fds', - EMFILE) \<and> fd_table s' = Some (t[i := Some f]) \<and> f \<in> set (fd_freed s')"
proof -
  obtain m rb where rb: "ringbuffer_create (fd_mem s) (e_rbp e) (e_rb e) (e_data e) PAGE_SIZE 1 = Some (m, rb)"
    using assms(6) by (auto simp: ringbuffer_create_def ringbuffer_init_def Let_def)
  obtain p ps where p: "new_pipe ((e_pipe e)\<lparr>pp_buf := rb\<rparr>) (fd_pipes s) = (p, ps)" by fastforce
  obtain s1 rf where s1: "new_pipe_file e (s\<lparr>fd_mem := m, fd_pipes := ps\<rparr>) p False = (s1, rf)" by fastforce
  obtain s2 wf where s2: "new_pipe_file e s1 p True = (s2, wf)" by fastforce
  have t2: "fd_table s2 = Some t"
    using new_pipe_file_table(1)[of e s1 p True] new_pipe_file_table(1)[of e "s\<lparr>fd_mem := m, fd_pipes := ps\<rparr>" p False] s1 s2 assms(1)
    by simp
  have free: "find_free t = Some i" using assms(3-5) by (auto simp: find_free_Some)
  let ?s3 = "s2\<lparr>fd_table := Some (t[i := Some rf])\<rparr>"
  have "place s2 rf (fst fds) = Some (?s3, int i, i)" by (rule place_free[OF t2 free])
  moreover have "place ?s3 wf (snd fds) = Some (?s3, snd fds, FILETABLE_SIZE)"
    by (rule place_full[OF _ full_after_last[OF assms(2,3,5)]]) simp
  ultimately have "sys_pipe e s fds = Some (?s3\<lparr>fd_freed := rf # wf # fd_freed ?s3\<rparr>, (int i, snd fds), - EMFILE)"
    by (simp add: sys_pipe_def rb p s1 s2 Let_def)
  then show ?thesis by fastforce
qed

lemma pipe_failure_leaves_descriptor_example:
  "\<exists>s' fds' f. sys_pipe demo_env (demo_fds\<lparr>fd_table := Some (None # replicate 255 (Some 0))\<rparr>) (0, 0) = Some (s', fds', - EMFILE) \<and>
    fd_table s' = Some ((None # replicate 255 (Some 0))[0 := Some f]) \<and> f \<in> set (fd_freed s')"
  by (rule pipe_failure_leaves_descriptor) (simp_all add: FILETABLE_SIZE_def demo_env_def nth_Cons')

end
