(* ===== verification/Format.thy ===== *)
theory Format
  imports Strconv Ringbuffer Vfs
begin

text \<open>
  Formatted output: the interpreter of format strings \<^verbatim>\<open>lib/vformat.c\<close> and the functions of \<^verbatim>\<open>lib/stdio.c\<close> on top of it.

  The callback \<open>output\<close> is a function \<open>out\<close> on the caller's context, called with one chunk at a time; \<open>mm\<close> is the memory
  as the context sees it, from which the strings of \<^verbatim>\<open>%s\<close> are read. The format string is a NUL-free character list, read as NUL
  at its end; the byte in front of it is \<open>pre\<close>. The arguments are the 32-bit words of the variable argument list; taking
  one that is not there is a fault, \<open>None\<close>.
\<close>

section \<open>Flags\<close>

datatype fsign = SIGN_DEFAULT | SIGN_SPACE | SIGN_PLUS

datatype flength = LENGTH_DEFAULT | LENGTH_CHAR | LENGTH_SHORT | LENGTH_LONG | LENGTH_LONG_LONG | LENGTH_INTMAX_T |
  LENGTH_SIZE_T | LENGTH_PTRDIFF_T

record vformat_flags =
  f_alternate :: bool
  f_padding :: bool
  f_left :: bool
  f_width :: bool
  f_precision :: bool
  f_signed_value :: bool
  padding_value :: char
  width_value :: int
  precision_value :: int
  f_length :: flength
  f_sign :: fsign
  f_radix :: int

definition flags0 :: vformat_flags where
  "flags0 = \<lparr>f_alternate = False, f_padding = False, f_left = False, f_width = False, f_precision = False,
     f_signed_value = False, padding_value = CHR 0x00, width_value = 0, precision_value = 0, f_length = LENGTH_DEFAULT,
     f_sign = SIGN_DEFAULT, f_radix = 0\<rparr>"

section \<open>Numbers\<close>

text \<open>\<open>output_copy\<close> sends \<open>n\<close> copies of a byte in pieces of at most 64.\<close>

function output_copy :: "('c \<Rightarrow> u8 list \<Rightarrow> 'c) \<Rightarrow> 'c \<Rightarrow> u8 \<Rightarrow> nat \<Rightarrow> 'c" where
  "output_copy out ctx c n =
     (if n > 0 then let w = (if n < 64 then n else 64) in output_copy out (out ctx (replicate w c)) c (n - w) else ctx)"
  by auto
termination by (relation "measure (\<lambda>(out, ctx, c, n). n)") (auto simp: Let_def)

declare output_copy.simps [simp del]

definition digit_char :: "nat \<Rightarrow> u8" where
  "digit_char k = of_char (''0123456789abcdef'' ! k)"

text \<open>The loop of \<open>format_int\<close> fills its buffer of 32 characters from the end; \<open>c\<close> is what is filled.\<close>

function format_int_loop :: "u32 \<Rightarrow> u32 \<Rightarrow> u8 list \<Rightarrow> u8 list" where
  "format_int_loop v base c =
     (if v > 0 \<and> base \<ge> 2 then format_int_loop (v div base) base (digit_char (unat (v mod base)) # c) else c)"
  by auto
termination
proof (relation "measure (\<lambda>(v, base, c). unat v)", goal_cases)
  case (2 v base c)
  then have "0 < unat v" "1 < unat base" by (simp_all add: word_less_nat_alt word_le_nat_alt)
  then show ?case by (simp add: unat_div)
qed simp

declare format_int_loop.simps [simp del]

definition format_int_digits :: "u32 \<Rightarrow> u32 \<Rightarrow> u8 list" where
  "format_int_digits v base =
     (if v = 0 \<or> base < 2 \<or> base > 16 then [digit_char 0] else format_int_loop v base [])"

definition format_int :: "('c \<Rightarrow> u8 list \<Rightarrow> 'c) option \<Rightarrow> 'c \<Rightarrow> u32 \<Rightarrow> u32 \<Rightarrow> 'c \<times> int" where
  "format_int out ctx v base =
     (let c = format_int_digits v base
      in (case out of None \<Rightarrow> ctx | Some f \<Rightarrow> f ctx c, int (length c)))"

text \<open>
  \<open>format_rich_int\<close>: the widths first (sign, prefix, digits, padding left, zeros, padding right), then the output. With
  precision 0 the width of the value 0 is counted as 0, but the digit is printed nevertheless.
\<close>

definition rich_widths :: "u32 \<Rightarrow> vformat_flags \<Rightarrow> int \<times> int \<times> int \<times> int \<times> int \<times> int" where
  "rich_widths v flags =
     (let neg = f_signed_value flags \<and> sint v < 0;
          sw = (if f_signed_value flags \<and> (f_sign flags \<noteq> SIGN_DEFAULT \<or> sint v < 0) then 1 else 0);
          aw = (if f_alternate flags then if f_radix flags = 8 \<and> v \<noteq> 0 then 1 else if f_radix flags = 16 then 2 else 0 else 0);
          (vw, w1) =
            (if f_precision flags \<and> precision_value flags = 0 \<and> v = 0 then (0, 0)
             else let vw = int (length (format_int_digits (if neg then - v else v) (word_of_int (f_radix flags))))
                  in (vw, if precision_value flags > vw then precision_value flags - vw else 0));
          dw = width_value flags - (sw + aw + w1 + vw)
      in if f_width flags \<and> sw + aw + w1 + vw < width_value flags
         then if f_left flags then (sw, aw, vw, 0, w1, dw)
              else if f_precision flags \<or> padding_value flags = CHR '' '' then (sw, aw, vw, dw, w1, 0)
              else (sw, aw, vw, 0, dw, 0)
         else (sw, aw, vw, 0, w1, 0))"

definition format_rich_int ::
    "('c \<Rightarrow> u8 list \<Rightarrow> 'c) \<Rightarrow> 'c \<Rightarrow> u32 \<Rightarrow> vformat_flags \<Rightarrow> 'c \<times> int" where
  "format_rich_int out ctx v flags =
     (let (sw, aw, vw, w0, w1, w2) = rich_widths v flags;
          ctx = (if w0 \<noteq> 0 then output_copy out ctx 0x20 (unat (word_of_int w0 :: u32)) else ctx);
          (ctx, v) =
            (if f_signed_value flags
             then if sint v < 0 then (out ctx [0x2D], - v)
                  else if f_sign flags \<noteq> SIGN_DEFAULT then (out ctx [if f_sign flags = SIGN_PLUS then 0x2B else 0x20], v)
                  else (ctx, v)
             else (ctx, v));
          ctx = (if f_alternate flags
                 then if f_radix flags = 8 \<and> v \<noteq> 0 then out ctx [0x30]
                      else if f_radix flags = 16 then out ctx [0x30, 0x78] else ctx
                 else ctx);
          ctx = (if w1 \<noteq> 0 then output_copy out ctx 0x30 (unat (word_of_int w1 :: u32)) else ctx);
          ctx = fst (format_int (Some out) ctx v (word_of_int (f_radix flags)));
          ctx = (if w2 \<noteq> 0 then output_copy out ctx 0x20 (unat (word_of_int w2 :: u32)) else ctx)
      in (ctx, w0 + sw + aw + w1 + vw + w2))"

section \<open>Strings\<close>

text \<open>\<open>dat\<close> is the data the pointer leads to, read from memory or from a local variable.\<close>

definition format_string :: "('c \<Rightarrow> u8 list \<Rightarrow> 'c) \<Rightarrow> 'c \<Rightarrow> ('c \<Rightarrow> nat \<Rightarrow> u8 list) \<Rightarrow> vformat_flags \<Rightarrow> 'c" where
  "format_string out ctx dat flags =
     (let dw = width_value flags - precision_value flags;
          (w0, w1) = (if f_width flags \<and> width_value flags > precision_value flags
                      then if f_left flags then (0, dw) else (dw, 0) else (0, 0));
          ctx = (if w0 \<noteq> 0 then output_copy out ctx 0x20 (unat (word_of_int w0 :: u32)) else ctx);
          ctx = out ctx (dat ctx (unat (word_of_int (precision_value flags) :: u32)))
      in if w1 \<noteq> 0 then output_copy out ctx 0x20 (unat (word_of_int w1 :: u32)) else ctx)"

section \<open>The interpreter\<close>

definition char_at :: "string \<Rightarrow> nat \<Rightarrow> char" where
  "char_at s i = (if i < length s then s ! i else CHR 0x00)"

function fetch_int_loop :: "string \<Rightarrow> nat \<Rightarrow> int \<Rightarrow> int \<times> nat" where
  "fetch_int_loop s i v =
     (if i < length s \<and> of_char (s ! i) \<ge> (48 :: nat) \<and> of_char (s ! i) \<le> (57 :: nat)
      then fetch_int_loop s (Suc i) (wrap32 (v * 10 + (of_char (s ! i) - 48))) else (v, i))"
  by auto
termination by (relation "measure (\<lambda>(s, i, v). length s - i)") auto

declare fetch_int_loop.simps [simp del]

definition fetch_int :: "string \<Rightarrow> nat \<Rightarrow> int \<times> nat" where
  "fetch_int s start = fetch_int_loop s start 0"

text \<open>\<^verbatim>\<open>va_arg\<close> for a type of one word.\<close>

definition va_arg :: "u32 list \<Rightarrow> (u32 \<times> u32 list) option" where
  "va_arg ap = (case ap of [] \<Rightarrow> None | a # ap \<Rightarrow> Some (a, ap))"

text \<open>A width or a precision: \<^verbatim>\<open>*\<close> takes it from the arguments, digits give it in place. The flag tells whether there was one.\<close>

definition fetch_number :: "string \<Rightarrow> nat \<Rightarrow> u32 list \<Rightarrow> (bool \<times> int \<times> nat \<times> u32 list) option" where
  "fetch_number s i ap =
     (if char_at s i = CHR ''*'' then do { (a, ap) \<leftarrow> va_arg ap; Some (True, sint a, Suc i, ap) }
      else let (v, p) = fetch_int s i in Some (p \<noteq> i, v, p, ap))"

definition fetch_length :: "string \<Rightarrow> nat \<Rightarrow> flength \<times> nat" where
  "fetch_length s i =
     (let c = char_at s i; c' = char_at s (Suc i)
      in if c = CHR ''h'' then if c' = CHR ''h'' then (LENGTH_CHAR, i + 2) else (LENGTH_SHORT, Suc i)
         else if c = CHR ''l'' then if c' = CHR ''l'' then (LENGTH_LONG_LONG, i + 2) else (LENGTH_LONG, Suc i)
         else if c = CHR ''j'' then (LENGTH_INTMAX_T, Suc i)
         else if c = CHR ''z'' then (LENGTH_SIZE_T, Suc i)
         else if c = CHR ''t'' then (LENGTH_PTRDIFF_T, Suc i)
         else (LENGTH_DEFAULT, i))"

text \<open>
  The integer argument of a conversion by its length; \<open>old\<close> is what the variable held before, which stays when no case
  applies. A \<open>long long\<close> is two words and is truncated to the low one.
\<close>

definition int_arg :: "bool \<Rightarrow> flength \<Rightarrow> u32 \<Rightarrow> u32 list \<Rightarrow> (u32 \<times> u32 list) option" where
  "int_arg sgnd len old ap =
     (case len of
        LENGTH_DEFAULT \<Rightarrow> va_arg ap
      | LENGTH_LONG \<Rightarrow> va_arg ap
      | LENGTH_SIZE_T \<Rightarrow> va_arg ap
      | LENGTH_LONG_LONG \<Rightarrow> do { (a, ap) \<leftarrow> va_arg ap; (b, ap) \<leftarrow> va_arg ap; Some (a, ap) }
      | LENGTH_CHAR \<Rightarrow> if sgnd then va_arg ap else Some (old, ap)
      | LENGTH_SHORT \<Rightarrow> if sgnd then va_arg ap else Some (old, ap)
      | _ \<Rightarrow> Some (old, ap))"

text \<open>
  What follows the flags: width, precision, length and the conversion. \<open>ps\<close> is the position of the percent sign; \<open>ui\<close> and
  \<open>si\<close> are the local variables of the same names. The result has the position behind the conversion.

  An unknown conversion prints from the character in front of the percent sign on.
\<close>

definition unknown_text :: "char \<Rightarrow> string \<Rightarrow> nat \<Rightarrow> nat \<Rightarrow> u8 list" where
  "unknown_text pre s ps i =
     (let t = (if ps = 0 then of_char pre else of_char (s ! (ps - 1)))
      in t # map (\<lambda>k. of_char (char_at s k)) [ps..<Suc i])"

text \<open>
  The conversion \<open>s\<close>. For a null pointer and a precision of at least 7, as many bytes as the precision says are sent from the
  literal \<^verbatim>\<open>"(null)"\<close>, which has 7 with its NUL: beyond that the read leaves the array, \<open>None\<close>. For a null pointer and a smaller
  precision the bytes come from address 0.
\<close>

definition format_s :: "('c \<Rightarrow> u8 list \<Rightarrow> 'c) \<Rightarrow> ('c \<Rightarrow> mem) \<Rightarrow> 'c \<Rightarrow> ptr \<Rightarrow> vformat_flags \<Rightarrow> 'c option" where
  "format_s out mm ctx p fl =
     (let null = (\<lambda>_ n. take n (map of_char ''(null)'' @ [0]))
      in if p = NULL then
           if f_precision fl \<and> (word_of_int (precision_value fl) :: u32) \<ge> 7
           then if precision_value fl = 7 then Some (format_string out ctx null fl) else None
           else if \<not> f_precision fl then Some (format_string out ctx null (fl\<lparr>precision_value := 6\<rparr>))
           else Some (format_string out ctx (\<lambda>c. bytes_at (mm c) NULL) fl)
         else if f_precision fl then
           let q = memchr (mm ctx) p 0 (word_of_int (precision_value fl))
           in Some (format_string out ctx (\<lambda>c. bytes_at (mm c) p)
                (if q \<noteq> NULL then fl\<lparr>precision_value := sint (q - p)\<rparr> else fl))
         else do {
           n \<leftarrow> strlen (mm ctx) p;
           Some (format_string out ctx (\<lambda>c. bytes_at (mm c) p) (fl\<lparr>precision_value := sint n\<rparr>)) })"

definition format_type ::
    "('c \<Rightarrow> u8 list \<Rightarrow> 'c) \<Rightarrow> ('c \<Rightarrow> mem) \<Rightarrow> char \<Rightarrow> string \<Rightarrow> nat \<Rightarrow> nat \<Rightarrow> vformat_flags \<Rightarrow>
     'c \<Rightarrow> u32 list \<Rightarrow> u32 \<Rightarrow> u32 \<Rightarrow> (nat \<times> 'c \<times> u32 list \<times> u32 \<times> u32) option" where
  "format_type out mm pre s ps i fl ctx ap ui si =
     (let fl = (if f_left fl \<and> f_padding fl then fl\<lparr>f_padding := False\<rparr> else fl);
          fl = (if \<not> f_padding fl then fl\<lparr>padding_value := CHR '' ''\<rparr> else fl);
          c = char_at s i
      in if c = CHR ''d'' \<or> c = CHR ''i'' then do {
           (si, ap) \<leftarrow> int_arg True (f_length fl) si ap;
           Some (Suc i, fst (format_rich_int out ctx si (fl\<lparr>f_signed_value := True, f_radix := 10\<rparr>)), ap, ui, si) }
         else if c = CHR ''u'' \<or> c = CHR ''o'' \<or> c = CHR ''x'' then do {
           (ui, ap) \<leftarrow> int_arg False (f_length fl) ui ap;
           let radix = (if c = CHR ''u'' then 10 else if c = CHR ''o'' then 8 else 16);
           Some (Suc i, fst (format_rich_int out ctx ui (fl\<lparr>f_radix := radix\<rparr>)), ap, ui, si) }
         else if c = CHR ''p'' then do {
           (v, ap) \<leftarrow> va_arg ap;
           Some (Suc i, fst (format_rich_int out ctx v (fl\<lparr>f_alternate := True, f_radix := 16\<rparr>)), ap, ui, si) }
         else if c = CHR ''c'' then do {
           (v, ap) \<leftarrow> va_arg ap;
           Some (Suc i, format_string out ctx (\<lambda>_ n. [ucast v]) (fl\<lparr>f_precision := True, precision_value := 1\<rparr>), ap, ui, si) }
         else if c = CHR ''s'' then do {
           (p, ap) \<leftarrow> va_arg ap;
           ctx \<leftarrow> format_s out mm ctx p fl;
           Some (Suc i, ctx, ap, ui, si) }
         else
           let i = (if c = CHR 0x00 then i - 1 else i)
           in Some (Suc i, out ctx (unknown_text pre s ps i), ap, ui, si))"

definition format_spec ::
    "('c \<Rightarrow> u8 list \<Rightarrow> 'c) \<Rightarrow> ('c \<Rightarrow> mem) \<Rightarrow> char \<Rightarrow> string \<Rightarrow> nat \<Rightarrow> nat \<Rightarrow> vformat_flags \<Rightarrow>
     'c \<Rightarrow> u32 list \<Rightarrow> u32 \<Rightarrow> u32 \<Rightarrow> (nat \<times> 'c \<times> u32 list \<times> u32 \<times> u32) option" where
  "format_spec out mm pre s ps i fl ctx ap ui si = do {
     (w, v, i, ap) \<leftarrow> fetch_number s i ap;
     let fl = fl\<lparr>width_value := v, f_width := (w \<or> f_width fl)\<rparr>;
     (fl, i, ap) \<leftarrow> (if char_at s i = CHR ''.'' then do {
         (w, v, i, ap) \<leftarrow> fetch_number s (Suc i) ap;
         Some (fl\<lparr>precision_value := v, f_precision := (w \<or> f_precision fl)\<rparr>, i, ap) }
       else Some (fl, i, ap));
     let (len, i) = fetch_length s i;
     format_type out mm pre s ps i (if len = LENGTH_DEFAULT then fl else fl\<lparr>f_length := len\<rparr>) ctx ap ui si }"

text \<open>
  One round of the state \<open>PERCENT\<close> at position \<open>i\<close>: the result is either the next position inside the specification, with
  the flags so far, or the position behind it.
\<close>

datatype fstate = LITERAL | PERCENT nat vformat_flags

definition percent_step ::
    "('c \<Rightarrow> u8 list \<Rightarrow> 'c) \<Rightarrow> ('c \<Rightarrow> mem) \<Rightarrow> char \<Rightarrow> string \<Rightarrow> nat \<Rightarrow> nat \<Rightarrow> vformat_flags \<Rightarrow>
     'c \<Rightarrow> u32 list \<Rightarrow> u32 \<Rightarrow> u32 \<Rightarrow> (fstate \<times> nat \<times> 'c \<times> u32 list \<times> u32 \<times> u32) option" where
  "percent_step out mm pre s ps i fl ctx ap ui si =
     (let c = char_at s i
      in if c = CHR ''%'' then Some (LITERAL, Suc i, out ctx [of_char c], ap, ui, si)
         else if c = CHR ''#'' then Some (PERCENT ps (fl\<lparr>f_alternate := True\<rparr>), Suc i, ctx, ap, ui, si)
         else if c = CHR ''0'' then Some (PERCENT ps (fl\<lparr>padding_value := CHR ''0'', f_padding := True\<rparr>), Suc i, ctx, ap, ui, si)
         else if c = CHR '' '' then
           Some (PERCENT ps (if f_sign fl = SIGN_DEFAULT then fl\<lparr>f_sign := SIGN_SPACE\<rparr> else fl), Suc i, ctx, ap, ui, si)
         else if c = CHR ''-'' then Some (PERCENT ps (fl\<lparr>f_left := True\<rparr>), Suc i, ctx, ap, ui, si)
         else if c = CHR ''+'' then Some (PERCENT ps (fl\<lparr>f_sign := SIGN_PLUS\<rparr>), Suc i, ctx, ap, ui, si)
         else do {
           (i, ctx, ap, ui, si) \<leftarrow> format_spec out mm pre s ps i fl ctx ap ui si;
           Some (LITERAL, i, ctx, ap, ui, si) })"

text \<open>The end of the literal text at \<open>i\<close>.\<close>

definition literal_end :: "string \<Rightarrow> nat \<Rightarrow> nat" where
  "literal_end s i = i + length (takeWhile (\<lambda>c. c \<noteq> CHR 0x00 \<and> c \<noteq> CHR ''%'') (drop i s))"

definition vformat_step ::
    "('c \<Rightarrow> u8 list \<Rightarrow> 'c) \<Rightarrow> ('c \<Rightarrow> mem) \<Rightarrow> char \<Rightarrow> string \<Rightarrow> fstate \<Rightarrow> nat \<Rightarrow>
     'c \<Rightarrow> u32 list \<Rightarrow> u32 \<Rightarrow> u32 \<Rightarrow> (fstate \<times> nat \<times> 'c \<times> u32 list \<times> u32 \<times> u32) option" where
  "vformat_step out mm pre s st i ctx ap ui si =
     (case st of
        PERCENT ps fl \<Rightarrow> percent_step out mm pre s ps i fl ctx ap ui si
      | LITERAL \<Rightarrow>
          let p = literal_end s i;
              ctx = out ctx (map of_char (take (p - i) (drop i s)))
          in if char_at s p = CHR ''%'' then percent_step out mm pre s p (Suc p) flags0 ctx ap ui si
             else Some (LITERAL, p, ctx, ap, ui, si))"

section \<open>Every round makes progress\<close>

lemma fetch_int_progress: "fetch_int_loop s i v = (w, j) \<Longrightarrow> i \<le> j"
  by (induction s i v arbitrary: w j rule: fetch_int_loop.induct) (subst (asm) (2) fetch_int_loop.simps, auto split: if_splits)

lemma fetch_number_progress: "fetch_number s i ap = Some (w, v, j, ap') \<Longrightarrow> i \<le> j"
  by (auto simp: fetch_number_def fetch_int_def bind_eq_Some_conv dest: fetch_int_progress split: if_splits prod.splits)

lemma fetch_length_progress: "fetch_length s i = (l, j) \<Longrightarrow> i \<le> j"
  by (auto simp: fetch_length_def Let_def split: if_splits)

lemma format_type_progress:
  "format_type out mm pre s ps i fl ctx ap ui si = Some (j, r) \<Longrightarrow> i \<le> j \<and> (char_at s i \<noteq> CHR 0x00 \<longrightarrow> i < j)"
  by (auto simp: format_type_def Let_def bind_eq_Some_conv split: if_splits)

lemma progress_chain:
  "k \<le> j \<and> (char_at s k \<noteq> CHR 0x00 \<longrightarrow> k < j) \<Longrightarrow> i \<le> k \<Longrightarrow> i \<le> j \<and> (char_at s i \<noteq> CHR 0x00 \<longrightarrow> i < j)"
  by (cases "i = k") auto

lemma format_spec_progress:
  assumes "format_spec out mm pre s ps i fl ctx ap ui si = Some (j, r)"
  shows "i \<le> j \<and> (char_at s i \<noteq> CHR 0x00 \<longrightarrow> i < j)"
proof -
  obtain w v i1 ap1 where n: "fetch_number s i ap = Some (w, v, i1, ap1)"
    using assms by (cases "fetch_number s i ap") (auto simp: format_spec_def)
  obtain k ap2 fl2 where k: "i1 \<le> k"
    and t: "format_type out mm pre s ps (snd (fetch_length s k)) fl2 ctx ap2 ui si = Some (j, r)"
  proof (cases "char_at s i1 = CHR ''.''")
    case True
    then obtain w' v' k ap2 where m: "fetch_number s (Suc i1) ap1 = Some (w', v', k, ap2)"
      using assms n by (cases "fetch_number s (Suc i1) ap1") (auto simp: format_spec_def Let_def)
    have "i1 \<le> k" using fetch_number_progress[OF m] by simp
    then show thesis using that assms n m True by (simp add: format_spec_def Let_def split_def)
  next
    case False
    then show thesis using that[of i1] assms n by (simp add: format_spec_def Let_def split_def)
  qed
  have "i \<le> i1" by (rule fetch_number_progress[OF n])
  moreover have "k \<le> snd (fetch_length s k)" by (rule fetch_length_progress[of _ _ "fst (fetch_length s k)"]) simp
  ultimately show ?thesis using k by (intro progress_chain[OF format_type_progress[OF t]]) simp
qed

lemma percent_step_progress:
  assumes "percent_step out mm pre s ps i fl ctx ap ui si = Some (st, j, r)"
  shows "i \<le> j \<and> (char_at s i \<noteq> CHR 0x00 \<longrightarrow> i < j)"
  using assms by (auto simp: percent_step_def Let_def bind_eq_Some_conv dest: format_spec_progress split: if_splits)

lemma literal_end_progress:
  assumes "char_at s i \<noteq> CHR 0x00"
  shows "i \<le> literal_end s i" and "char_at s (literal_end s i) \<noteq> CHR ''%'' \<Longrightarrow> i < literal_end s i"
proof -
  have i: "i < length s" "s ! i \<noteq> CHR 0x00" using assms by (auto simp: char_at_def split: if_splits)
  then obtain r where "drop i s = s ! i # r" by (metis Cons_nth_drop_Suc)
  then have "s ! i = CHR ''%'' \<or> i < literal_end s i" using i(2) by (auto simp: literal_end_def)
  moreover have "literal_end s i = i \<Longrightarrow> char_at s (literal_end s i) = s ! i" using i(1) by (simp add: char_at_def)
  ultimately show "char_at s (literal_end s i) \<noteq> CHR ''%'' \<Longrightarrow> i < literal_end s i"
    by (auto simp: literal_end_def)
qed (simp add: literal_end_def)

lemma vformat_step_progress:
  assumes "vformat_step out mm pre s st i ctx ap ui si = Some (st', j, r)" and "char_at s i \<noteq> CHR 0x00"
  shows "i < j"
proof (cases st)
  case LITERAL
  then show ?thesis using assms literal_end_progress[OF assms(2)]
    by (auto simp: vformat_step_def Let_def dest: percent_step_progress split: if_splits)
qed (use assms in \<open>auto simp: vformat_step_def dest: percent_step_progress\<close>)

section \<open>The loop\<close>

function vformat_loop ::
    "('c \<Rightarrow> u8 list \<Rightarrow> 'c) \<Rightarrow> ('c \<Rightarrow> mem) \<Rightarrow> char \<Rightarrow> string \<Rightarrow> fstate \<Rightarrow> nat \<Rightarrow> 'c \<Rightarrow> u32 list \<Rightarrow> u32 \<Rightarrow> u32 \<Rightarrow> 'c option" where
  "vformat_loop out mm pre s st i ctx ap ui si =
     (if char_at s i = CHR 0x00 then Some ctx
      else case vformat_step out mm pre s st i ctx ap ui si of
        None \<Rightarrow> None
      | Some (st, i, ctx, ap, ui, si) \<Rightarrow> vformat_loop out mm pre s st i ctx ap ui si)"
  by pat_completeness auto
termination
  by (relation "measure (\<lambda>(out, mm, pre, s, st, i, _). length s - i)")
    (auto dest!: vformat_step_progress intro!: diff_less_mono2 simp: char_at_def split: if_splits)

declare vformat_loop.simps [simp del]

text \<open>\<open>ui\<close> and \<open>si\<close> are what the uninitialised variables hold.\<close>

definition vformat ::
    "('c \<Rightarrow> u8 list \<Rightarrow> 'c) \<Rightarrow> ('c \<Rightarrow> mem) \<Rightarrow> u32 \<Rightarrow> u32 \<Rightarrow> char \<Rightarrow> 'c \<Rightarrow> string \<Rightarrow> u32 list \<Rightarrow> 'c option" where
  "vformat out mm ui si pre ctx fmt ap = vformat_loop out mm pre fmt LITERAL 0 ctx ap ui si"

section \<open>Output to a buffer\<close>

text \<open>
  \<^verbatim>\<open>lib/stdio.c\<close>: the context with the position and the room left, and the memory that is written. A chunk is stored byte by byte.
\<close>

record str_output_context =
  so_mem :: mem
  so_str :: ptr
  so_limit :: size_t

definition output_str :: "str_output_context \<Rightarrow> u8 list \<Rightarrow> str_output_context" where
  "output_str context d =
     (let sz = of_nat (length d); l = so_limit context;
          context = (if l \<le> 1 then context
                     else if l < sz then context\<lparr>so_mem := put_bytes (so_mem context) (so_str context) (take (unat (l - 1)) d),
                                                so_limit := 1\<rparr>
                     else context\<lparr>so_mem := put_bytes (so_mem context) (so_str context) (take (unat sz) d), so_limit := l - sz\<rparr>)
      in context\<lparr>so_str := so_str context + sz\<rparr>)"

definition vsprintf :: "u32 \<Rightarrow> u32 \<Rightarrow> char \<Rightarrow> mem \<Rightarrow> ptr \<Rightarrow> string \<Rightarrow> u32 list \<Rightarrow> (mem \<times> int) option" where
  "vsprintf ui si pre m str fmt ap = do {
     context \<leftarrow> vformat output_str so_mem ui si pre \<lparr>so_mem = m, so_str = str, so_limit = - 1\<rparr> fmt ap;
     Some ((so_mem context)(so_str context := 0), sint (so_str context - str)) }"

definition vsnprintf :: "u32 \<Rightarrow> u32 \<Rightarrow> char \<Rightarrow> mem \<Rightarrow> ptr \<Rightarrow> size_t \<Rightarrow> string \<Rightarrow> u32 list \<Rightarrow> (mem \<times> int) option" where
  "vsnprintf ui si pre m str sz fmt ap = do {
     context \<leftarrow> vformat output_str so_mem ui si pre \<lparr>so_mem = m, so_str = str, so_limit = sz\<rparr> fmt ap;
     Some (if sz \<noteq> 0 then (so_mem context)(str + (sz - so_limit context) := 0) else so_mem context,
           sint (so_str context - str)) }"

section \<open>What holds for every output function\<close>

text \<open>
  The contract of a callback: every chunk keeps \<open>P\<close>. Then formatting keeps it, whatever the format string and the arguments.
\<close>

locale output_callback =
  fixes out :: "'c \<Rightarrow> u8 list \<Rightarrow> 'c" and P :: "'c \<Rightarrow> bool"
  assumes out_keeps: "P ctx \<Longrightarrow> P (out ctx d)"
begin

lemma output_copy_keeps: "P ctx \<Longrightarrow> P (output_copy out ctx c n)"
proof (induction n arbitrary: ctx rule: less_induct)
  case (less n)
  show ?case
    using less.prems less.IH[of "n - (if n < 64 then n else 64)"]
    by (subst output_copy.simps) (auto simp: Let_def intro!: less.IH out_keeps)
qed

lemma format_rich_int_keeps: "P ctx \<Longrightarrow> P (fst (format_rich_int out ctx v fl))"
  by (simp add: format_rich_int_def format_int_def Let_def split_def output_copy_keeps out_keeps)

lemma format_string_keeps: "P ctx \<Longrightarrow> P (format_string out ctx dat fl)"
  by (simp add: format_string_def Let_def split_def output_copy_keeps out_keeps)

lemma format_s_keeps: "P ctx \<Longrightarrow> format_s out mm ctx p fl = Some ctx' \<Longrightarrow> P ctx'"
  by (auto simp: format_s_def Let_def bind_eq_Some_conv format_string_keeps split: if_splits)

lemma format_type_keeps:
  "P ctx \<Longrightarrow> format_type out mm pre s ps i fl ctx ap ui si = Some (j, ctx', r) \<Longrightarrow> P ctx'"
  by (auto simp: format_type_def Let_def bind_eq_Some_conv format_string_keeps format_rich_int_keeps out_keeps
      intro: format_s_keeps split: if_splits)

lemma format_spec_keeps:
  "P ctx \<Longrightarrow> format_spec out mm pre s ps i fl ctx ap ui si = Some (j, ctx', r) \<Longrightarrow> P ctx'"
  by (auto simp: format_spec_def bind_eq_Some_conv Let_def split_def intro: format_type_keeps)

lemma percent_step_keeps:
  "P ctx \<Longrightarrow> percent_step out mm pre s ps i fl ctx ap ui si = Some (st, j, ctx', r) \<Longrightarrow> P ctx'"
  by (auto simp: percent_step_def Let_def bind_eq_Some_conv out_keeps intro: format_spec_keeps split: if_splits)

lemma vformat_step_keeps:
  "P ctx \<Longrightarrow> vformat_step out mm pre s st i ctx ap ui si = Some (st', j, ctx', r) \<Longrightarrow> P ctx'"
  by (auto simp: vformat_step_def Let_def out_keeps intro: percent_step_keeps[rotated] split: fstate.splits if_splits)

lemma vformat_loop_keeps: "P ctx \<Longrightarrow> vformat_loop out mm pre s st i ctx ap ui si = Some ctx' \<Longrightarrow> P ctx'"
proof (induction "length s - i" arbitrary: st i ctx ap ui si rule: less_induct)
  case less
  show ?case
  proof (cases "char_at s i = CHR 0x00")
    case True
    with less.prems show ?thesis by (simp add: vformat_loop.simps)
  next
    case False
    with less.prems(2) obtain st1 j c ap1 ui1 si1 where
      st: "vformat_step out mm pre s st i ctx ap ui si = Some (st1, j, c, ap1, ui1, si1)"
      and rec: "vformat_loop out mm pre s st1 j c ap1 ui1 si1 = Some ctx'"
      by (subst (asm) vformat_loop.simps) (auto split: option.splits)
    have "i < length s" using False by (simp add: char_at_def split: if_splits)
    then have "length s - j < length s - i" using vformat_step_progress[OF st False] by simp
    from less.hyps[OF this vformat_step_keeps[OF less.prems(1) st] rec] show ?thesis .
  qed
qed

lemma vformat_keeps: "P ctx \<Longrightarrow> vformat out mm ui si pre ctx fmt ap = Some ctx' \<Longrightarrow> P ctx'"
  unfolding vformat_def by (rule vformat_loop_keeps)

end

section \<open>The buffer\<close>

lemma unat_sub_u32: "unat (x - y) = (if unat y \<le> unat x then unat x - unat y else 4294967296 + unat x - unat y)" for x y :: u32
  using unat_sub_if'[of x y] by (simp add: add.commute[of "unat x"])

text \<open>The bytes that were changed lie in front of the room that is left, and while there is room the position is where it begins.\<close>

definition within_room :: "mem \<Rightarrow> ptr \<Rightarrow> size_t \<Rightarrow> str_output_context \<Rightarrow> bool" where
  "within_room m str sz c \<longleftrightarrow> so_limit c \<le> sz \<and> (\<forall>b. unat sz - unat (so_limit c) \<le> unat (b - str) \<longrightarrow> so_mem c b = m b) \<and>
     (1 < so_limit c \<longrightarrow> so_str c = str + (sz - so_limit c))"

lemma within_room_write:
  assumes "within_room m str sz c" and "1 < so_limit c" and "length d + unat l = unat (so_limit c)"
    and "1 < l \<Longrightarrow> p = str + (sz - l)"
  shows "within_room m str sz (c\<lparr>so_mem := put_bytes (so_mem c) (so_str c) d, so_limit := l, so_str := p\<rparr>)"
proof -
  let ?L = "so_limit c"
  have L: "?L \<le> sz" "so_str c = str + (sz - ?L)"
    and eq: "\<And>b. unat sz - unat ?L \<le> unat (b - str) \<Longrightarrow> so_mem c b = m b"
    using assms(1,2) by (auto simp: within_room_def)
  have sub: "unat (sz - ?L) = unat sz - unat ?L" using L(1) by (intro unat_sub)
  have "put_bytes (so_mem c) (so_str c) d b = m b" if b: "unat sz - unat l \<le> unat (b - str)" for b
  proof -
    have "b - so_str c = (b - str) - (sz - ?L)" using L(2) by (simp only: diff_diff_eq)
    moreover have le: "unat (sz - ?L) \<le> unat (b - str)" using sub b assms(3) by linarith
    ultimately have "unat (b - so_str c) = unat (b - str) - unat (sz - ?L)"
      by (metis unat_sub word_le_nat_alt)
    then have "\<not> unat (b - so_str c) < length d" using sub b assms(3) L(1) by (simp add: word_le_nat_alt)
    moreover have "length d \<le> 4294967296" using assms(3) unat_u32_bound[of ?L] by linarith
    ultimately show ?thesis using eq le sub by (simp add: put_bytes_apply)
  qed
  moreover have "l \<le> sz" using assms(3) L(1) by (simp add: word_le_nat_alt)
  ultimately show ?thesis using assms(4) by (simp add: within_room_def)
qed

lemma output_str_within_room:
  assumes "within_room m str sz c"
  shows "within_room m str sz (output_str c d)"
proof -
  let ?L = "so_limit c" and ?n = "of_nat (length d) :: u32"
  have n: "unat ?n \<le> length d" by (simp add: unat_of_nat)
  consider "?L \<le> 1" | "1 < ?L" "?L < ?n" | "1 < ?L" "?n \<le> ?L" by fastforce
  then show ?thesis
  proof cases
    case 1
    then show ?thesis using assms by (auto simp: output_str_def within_room_def)
  next
    case 2
    have "unat (?L - 1) = unat ?L - 1" using 2(1) by (subst unat_sub) (simp_all add: word_less_nat_alt word_le_nat_alt)
    then have "length (take (unat (?L - 1)) d) + unat (1 :: u32) = unat ?L"
      using 2 n by (simp add: word_less_nat_alt)
    from within_room_write[OF assms 2(1) this] show ?thesis
      using 2 by (auto simp: output_str_def Let_def)
  next
    case 3
    have d: "unat (?L - ?n) = unat ?L - unat ?n" using 3(2) by (intro unat_sub)
    then have "length (take (unat ?n) d) + unat (?L - ?n) = unat ?L"
      using 3 n by (simp add: word_le_nat_alt)
    moreover have "so_str c = str + (sz - ?L)" using assms 3(1) by (simp add: within_room_def)
    ultimately show ?thesis
      using within_room_write[OF assms 3(1), of "take (unat ?n) d" "?L - ?n" "so_str c + ?n"] 3
      by (auto simp: output_str_def Let_def algebra_simps)
  qed
qed

interpretation sn: output_callback output_str "within_room m str sz" for m str sz
  by unfold_locales (rule output_str_within_room)

text \<open>
  C30: \<open>vsnprintf\<close> and its buffer, for every format string, all arguments and every size: what it changes lies in the \<open>size + 1\<close> bytes
  from the start of the buffer, nothing at all is changed for size 0, and otherwise a terminator is stored among these bytes.
\<close>

theorem vsnprintf_within_buffer:
  assumes "vsnprintf ui si pre m str sz fmt ap = Some (m', r)"
  shows "(\<forall>b. in_region str (Suc (unat sz)) b \<or> m' b = m b) \<and> (sz = 0 \<longrightarrow> m' = m) \<and>
    (sz \<noteq> 0 \<longrightarrow> (\<exists>k \<le> unat sz. m' (str + of_nat k) = 0))"
proof -
  obtain c where c: "vformat output_str so_mem ui si pre \<lparr>so_mem = m, so_str = str, so_limit = sz\<rparr> fmt ap = Some c"
    and m': "m' = (if sz \<noteq> 0 then (so_mem c)(str + (sz - so_limit c) := 0) else so_mem c)"
    using assms by (auto simp: vsnprintf_def bind_eq_Some_conv)
  have "within_room m str sz \<lparr>so_mem = m, so_str = str, so_limit = sz\<rparr>" by (simp add: within_room_def)
  then have w: "within_room m str sz c" using c by (rule sn.vformat_keeps)
  then have le: "unat (sz - so_limit c) \<le> unat sz" by (simp add: within_room_def unat_sub)
  have "m' b = m b" if "\<not> in_region str (Suc (unat sz)) b" for b
  proof -
    have b: "unat sz < unat (b - str)" using that by (simp add: in_region_def)
    then have "b \<noteq> str + (sz - so_limit c)" using le by auto
    moreover have "so_mem c b = m b" using w b by (auto simp: within_room_def)
    ultimately show ?thesis by (simp add: m')
  qed
  moreover have "sz = 0 \<Longrightarrow> m' = m" using w by (auto simp: within_room_def m' fun_eq_iff)
  moreover have "sz \<noteq> 0 \<Longrightarrow> m' (str + of_nat (unat (sz - so_limit c))) = 0" by (simp add: m')
  ultimately show ?thesis using le by auto
qed

theorem vsnprintf_within_buffer_witness:
  "\<exists>m' r. vsnprintf 0 0 (CHR ''x'') (\<lambda>_. 7) 1000 3 ''abc'' [] = Some (m', r) \<and> m' 999 = 7 \<and> m' 1004 = 7"
proof -
  obtain m' r where r: "vsnprintf 0 0 (CHR ''x'') (\<lambda>_. 7) 1000 3 ''abc'' [] = Some (m', r)"
    by (auto simp: vsnprintf_def vformat_def vformat_loop.simps vformat_step_def char_at_def literal_end_def Let_def)
  have "in_region 1000 (Suc (unat (3 :: u32))) 999 \<or> m' 999 = 7" "in_region 1000 (Suc (unat (3 :: u32))) 1004 \<or> m' 1004 = 7"
    using vsnprintf_within_buffer[OF r] by blast+
  moreover have "\<not> in_region 1000 (Suc (unat (3 :: u32))) 999" "\<not> in_region 1000 (Suc (unat (3 :: u32))) 1004"
    unfolding in_region_def unat_sub_u32 by simp_all
  ultimately show ?thesis using r by blast
qed

section \<open>Numerals\<close>

text \<open>The digits of \<open>format_int\<close> are those of \<open>itoa\<close>, for all 32-bit values.\<close>

lemma digit_char_itoa:
  assumes "k < 16"
  shows "digit_char k = itoa_digit (of_nat k)"
proof -
  have "k \<in> set [0..<16]" using assms by simp
  then show ?thesis by (simp add: upt_rec) (auto simp: itoa_digit_def digit_char_def)
qed

lemma digit_char_mod:
  fixes v base :: u32
  assumes "2 \<le> unat base" and "unat base \<le> 16"
  shows "digit_char (unat (v mod base)) = itoa_digit (v mod base)" and "itoa_digit (v mod base) \<noteq> 0"
    and "digit_val (itoa_digit (v mod base)) = unat v mod unat base"
proof -
  have "unat (v mod base) < 16" using assms by (simp add: unat_mod less_le_trans[OF mod_less_divisor])
  from digit_char_itoa[OF this] digit_val_itoa_digit[OF this] show "digit_char (unat (v mod base)) = itoa_digit (v mod base)"
    "itoa_digit (v mod base) \<noteq> 0" "digit_val (itoa_digit (v mod base)) = unat v mod unat base"
    by (metis of_nat_unat ucast_id, simp, simp add: unat_mod)
qed

lemma format_int_loop_digits:
  assumes "2 \<le> unat base" and "unat base \<le> 16" and "unat v < 2 ^ n"
  shows "\<exists>ds. format_int_loop v base c = ds @ c \<and> length ds \<le> n \<and> le_value_of (unat base) (rev ds) = unat v \<and>
    (if v = 0 then ds = [] else ds \<noteq> [] \<and> digit_val (hd ds) \<noteq> 0) \<and> (\<forall>d \<in> set ds. d \<noteq> 0 \<and> digit_val d < unat base)"
  using assms(3)
proof (induction n arbitrary: v c)
  case 0
  then show ?case by (subst format_int_loop.simps) (simp add: unat_eq_0)
next
  case (Suc n)
  show ?case
  proof (cases "v = 0")
    case True
    then show ?thesis by (subst format_int_loop.simps) simp
  next
    case False
    let ?d = "itoa_digit (v mod base)"
    note d = digit_char_mod[OF assms(1,2), of v]
    have "unat v div unat base \<le> unat v div 2" using assms(1) by (intro div_le_mono2) auto
    with Suc.prems have "unat (v div base) < 2 ^ n" by (simp add: unat_div)
    from Suc.IH[OF this, of "?d # c"] obtain ds where
      ds: "format_int_loop (v div base) base (?d # c) = ds @ ?d # c" "length ds \<le> n"
        "le_value_of (unat base) (rev ds) = unat v div unat base" "\<forall>d \<in> set ds. d \<noteq> 0 \<and> digit_val d < unat base"
        "if v div base = 0 then ds = [] else ds \<noteq> [] \<and> digit_val (hd ds) \<noteq> 0"
      unfolding unat_div by blast
    have "format_int_loop v base c = (ds @ [?d]) @ c"
      using False ds(1) d(1) assms(1) by (subst format_int_loop.simps) (simp add: word_le_nat_alt word_gt_0)
    moreover have "digit_val (hd (ds @ [?d])) \<noteq> 0"
    proof (cases "v div base = 0")
      case True
      then have "unat v < unat base" using assms(1) by (simp add: unat_eq_0[symmetric] unat_div div_eq_0_iff)
      then show ?thesis using True ds(5) d(3) False by (simp add: unat_eq_0)
    qed (use ds(5) in auto)
    ultimately show ?thesis using ds(2-4) d assms(1) False by (intro exI[of _ "ds @ [?d]"]) auto
  qed
qed

lemma format_int_loop_acc: "format_int_loop v base c = format_int_loop v base [] @ c"
proof (induction "unat v" arbitrary: v c rule: less_induct)
  case less
  show ?case
  proof (cases "v > 0 \<and> base \<ge> 2")
    case True
    then have "0 < unat v" "1 < unat base" by (simp_all add: word_less_nat_alt word_le_nat_alt)
    then have "unat (v div base) < unat v" by (simp add: unat_div)
    note IH = less[OF this]
    have step: "format_int_loop v base x = format_int_loop (v div base) base (digit_char (unat (v mod base)) # x)" for x
      using True by (subst format_int_loop.simps) (simp only: if_True simp_thms)
    show ?thesis unfolding step IH[of "_ # _"] by simp
  next
    case False
    then have "format_int_loop v base x = x" for x by (subst format_int_loop.simps) (simp only: if_False)
    then show ?thesis by simp
  qed
qed

lemma itoa_loop_format_int:
  assumes "2 \<le> unat base" and "unat base \<le> 16" and "unat v < 2 ^ n" and "length c + n \<le> 31"
  shows "itoa_loop v base c = Some (c @ rev (format_int_loop v base []))"
  using assms(3,4)
proof (induction n arbitrary: v c)
  case 0
  then show ?case by (simp add: itoa_loop.simps format_int_loop.simps unat_eq_0)
next
  case (Suc n)
  show ?case
  proof (cases "v = 0")
    case True
    then show ?thesis by (simp add: itoa_loop.simps format_int_loop.simps)
  next
    case False
    have "(2::nat) ^ Suc n \<le> 2 ^ 31" using Suc.prems(2) by (intro power_increasing) auto
    then have pos: "0 < sint v" using Suc.prems(1) False by (simp add: sint_pos_iff unat_gt_0)
    have "unat v div unat base \<le> unat v div 2" using assms(1) by (intro div_le_mono2) auto
    with Suc.prems(1) have lt: "unat (v div base) < 2 ^ n" by (simp add: unat_div)
    have "format_int_loop v base [] = format_int_loop (v div base) base [] @ [itoa_digit (v mod base)]"
      using False assms(1) digit_char_mod(1)[OF assms(1,2), of v]
      by (subst format_int_loop.simps) (simp add: format_int_loop_acc[of "v div base" base "[_]"] word_le_nat_alt word_gt_0)
    then show ?thesis
      using Suc.IH[OF lt, of "c @ [itoa_digit (v mod base)]"] Suc.prems(2) pos assms(1)
      by (subst itoa_loop.simps) auto
  qed
qed

lemma format_int_digits_numeral:
  assumes "2 \<le> unat base" and "unat base \<le> 16"
  shows "length (format_int_digits v base) \<le> 32" and "le_value_of (unat base) (rev (format_int_digits v base)) = unat v"
    and "\<forall>d \<in> set (format_int_digits v base). d \<noteq> 0 \<and> digit_val d < unat base"
    and "v \<noteq> 0 \<longrightarrow> digit_val (hd (format_int_digits v base)) \<noteq> 0"
proof -
  have b: "\<not> base < 2" "\<not> 16 < base" using assms by (simp_all add: word_less_nat_alt)
  have z: "digit_char 0 = 48" by (simp add: digit_char_def)
  have "unat v < 2 ^ 32" using unat_u32_bound[of v] by simp
  from format_int_loop_digits[OF assms this, of "[]"] b z assms(1)
  show "length (format_int_digits v base) \<le> 32" "le_value_of (unat base) (rev (format_int_digits v base)) = unat v"
    "\<forall>d \<in> set (format_int_digits v base). d \<noteq> 0 \<and> digit_val d < unat base"
    "v \<noteq> 0 \<longrightarrow> digit_val (hd (format_int_digits v base)) \<noteq> 0"
    by (auto simp: format_int_digits_def digit_val_def split: if_splits)
qed

text \<open>
  C31: The two number printers of the library agree: for positive values below \<open>2^31\<close> and bases 2 to 16, \<open>itoa\<close> leaves in memory exactly
  the digits \<open>format_int\<close> sends out, terminated. For every 32-bit value \<open>format_int\<close> sends at most the 32 digits its buffer
  holds, each a digit of the base, without a leading zero and with the number as their value.
\<close>

theorem format_int_itoa:
  assumes "2 \<le> unat base" and "unat base \<le> 16"
  shows "fst (format_int (Some (\<lambda>t d. t @ d)) [] v base) = format_int_digits v base \<and>
    length (format_int_digits v base) \<le> 32 \<and> le_value_of (unat base) (rev (format_int_digits v base)) = unat v \<and>
    (\<forall>d \<in> set (format_int_digits v base). digit_val d < unat base) \<and>
    (v \<noteq> 0 \<longrightarrow> digit_val (hd (format_int_digits v base)) \<noteq> 0) \<and>
    (0 < sint v \<longrightarrow> (\<exists>m'. itoa m v base buf = Some m' \<and> cstr m' buf (format_int_digits v base)))"
proof -
  have "\<exists>m'. itoa m v base buf = Some m' \<and> cstr m' buf (format_int_digits v base)" if "0 < sint v"
  proof -
    have v: "0 < unat v" "unat v < 2 ^ 31" using that by (auto simp: sint_pos_iff)
    obtain ds where ds: "itoa_loop v base [] = Some ds" "length ds \<le> 31" "0 \<notin> set ds"
      using itoa_loop_digits[OF assms v(2), of "[]"] by auto
    have "v \<noteq> 0" "\<not> base < 2" "\<not> 16 < base" using v(1) assms by (auto simp: word_less_nat_alt)
    then have "rev ds = format_int_digits v base"
      using ds(1) itoa_loop_format_int[OF assms v(2), of "[]"] by (auto simp: format_int_digits_def)
    with itoa_result[OF ds \<open>v \<noteq> 0\<close> assms(2), of m buf] show ?thesis by metis
  qed
  with format_int_digits_numeral[OF assms, of v] show ?thesis by (simp add: format_int_def Let_def)
qed

theorem format_int_itoa_witness:
  "fst (format_int (Some (\<lambda>t d. t @ d)) [] 255 16) = format_int_digits 255 16 \<and>
    length (format_int_digits 255 16) \<le> 32 \<and> le_value_of (unat (16 :: u32)) (rev (format_int_digits 255 16)) = unat (255 :: u32) \<and>
    (\<exists>m'. itoa (\<lambda>_. 7) 255 16 1000 = Some m' \<and> cstr m' 1000 (format_int_digits 255 16))"
  using format_int_itoa[of 16 255 "\<lambda>_. 7" 1000] by simp

section \<open>Text around a number\<close>

definition plain_text :: "string \<Rightarrow> bool" where
  "plain_text s \<longleftrightarrow> (\<forall>c \<in> set s. c \<noteq> CHR 0x00 \<and> c \<noteq> CHR ''%'')"

lemma literal_end_plain:
  assumes "plain_text a" and "r = [] \<or> hd r = CHR ''%''"
  shows "literal_end (p @ a @ r) (length p) = length p + length a"
proof -
  have "takeWhile (\<lambda>c. c \<noteq> CHR 0x00 \<and> c \<noteq> CHR ''%'') (a @ r) = a"
    using assms by (cases r) (auto simp: plain_text_def takeWhile_append2)
  then show ?thesis by (simp add: literal_end_def)
qed

lemma char_at_append: "char_at (p @ c # r) (length p) = c"
  by (simp add: char_at_def)

lemma vformat_loop_plain_end:
  assumes "plain_text b"
  shows "vformat_loop out mm pre (p @ b) LITERAL (length p) ctx ap ui si = Some (if b = [] then ctx else out ctx (map of_char b))"
proof (cases b)
  case Nil
  then show ?thesis by (simp add: vformat_loop.simps char_at_def)
next
  case (Cons c b')
  have "char_at (p @ b) (length p) \<noteq> CHR 0x00" using assms Cons by (simp add: char_at_append plain_text_def)
  moreover have "literal_end (p @ b) (length p) = length (p @ b)" using literal_end_plain[OF assms, of "[]" p] by simp
  moreover have "char_at (p @ b) (length (p @ b)) = CHR 0x00" by (simp add: char_at_def)
  ultimately show ?thesis using Cons
    by (subst vformat_loop.simps) (simp add: vformat_step_def Let_def vformat_loop.simps[of _ _ _ "_ @ _" LITERAL])
qed

text \<open>The chunks of the decimal numeral of a signed value.\<close>

definition decimal :: "u32 \<Rightarrow> u8 list list" where
  "decimal v = (if sint v < 0 then [[0x2D], format_int_digits (- v) 10] else [format_int_digits v 10])"

lemma percent_d:
  assumes "char_at s i = CHR ''d''"
  shows "percent_step out mm pre s ps i flags0 ctx (v # ap) ui si = Some (LITERAL, Suc i, foldl out ctx (decimal v), ap, ui, v)"
proof -
  have "fetch_int_loop s i 0 = (0, i)"
    using assms by (subst fetch_int_loop.simps) (auto simp: char_at_def split: if_splits)
  then have "format_spec out mm pre s ps i flags0 ctx (v # ap) ui si =
      Some (Suc i, fst (format_rich_int out ctx v (flags0\<lparr>padding_value := CHR '' '', f_signed_value := True, f_radix := 10\<rparr>)),
        ap, ui, v)"
    using assms by (simp add: format_spec_def fetch_number_def fetch_int_def fetch_length_def format_type_def flags0_def
        int_arg_def va_arg_def Let_def)
  then show ?thesis using assms
    by (simp add: percent_step_def Let_def format_rich_int_def rich_widths_def format_int_def flags0_def decimal_def)
qed

lemma vformat_decimal:
  assumes "plain_text a" and "plain_text b"
  shows "vformat out mm ui si pre ctx (a @ ''%d'' @ b) (v # ap) =
    Some (foldl out ctx (map of_char a # decimal v @ (if b = [] then [] else [map of_char b])))"
proof -
  let ?s = "a @ ''%d'' @ b"
  have "char_at ?s 0 \<noteq> CHR 0x00" using assms(1) by (cases a) (auto simp: char_at_def plain_text_def)
  moreover have "literal_end ?s 0 = length a" using literal_end_plain[OF assms(1), of "''%d'' @ b" "[]"] by simp
  moreover have "char_at ?s (length a) = CHR ''%''" "char_at ?s (Suc (length a)) = CHR ''d''"
    by (simp_all add: char_at_def nth_append)
  ultimately have "vformat out mm ui si pre ctx ?s (v # ap) =
      vformat_loop out mm pre ((a @ ''%d'') @ b) LITERAL (length (a @ ''%d'')) (foldl out (out ctx (map of_char a)) (decimal v)) ap ui v"
    unfolding vformat_def by (subst vformat_loop.simps) (simp add: vformat_step_def Let_def percent_d)
  then show ?thesis unfolding vformat_loop_plain_end[OF assms(2)] by simp
qed

section \<open>Text in the buffer\<close>

definition holds_text :: "mem \<Rightarrow> ptr \<Rightarrow> size_t \<Rightarrow> u8 list \<Rightarrow> str_output_context \<Rightarrow> bool" where
  "holds_text m str sz t c \<longleftrightarrow> length t < unat sz \<and> so_mem c = put_bytes m str t \<and> so_str c = str + of_nat (length t) \<and>
     so_limit c = sz - of_nat (length t)"

lemma put_bytes_append:
  assumes "length (t @ d) \<le> 4294967295"
  shows "put_bytes (put_bytes m p t) (p + of_nat (length t)) d = put_bytes m p (t @ d)"
proof
  fix b
  let ?u = "unat (b - p)"
  have l: "unat (of_nat (length t) :: u32) = length t" using assms by (simp add: of_nat_unat_u32)
  have eq: "b - (p + of_nat (length t)) = (b - p) - of_nat (length t)" by (simp only: diff_diff_eq)
  have u: "unat (b - (p + of_nat (length t))) = (if length t \<le> ?u then ?u - length t else 4294967296 + ?u - length t)"
    unfolding eq by (subst unat_sub_u32, subst l, subst l, subst l) (rule refl)
  have lt: "length t + length d \<le> 4294967295" using assms by simp
  have "length t \<le> 4294967296" "length d \<le> 4294967296" "length (t @ d) \<le> 4294967296" using lt by auto
  then show "put_bytes (put_bytes m p t) (p + of_nat (length t)) d b = put_bytes m p (t @ d) b"
    using lt by (simp add: put_bytes_apply u nth_append) linarith
qed

lemma output_str_text:
  assumes "holds_text m str sz t c" and "length (t @ d) < unat sz"
  shows "holds_text m str sz (t @ d) (output_str c d)"
proof -
  have "unat sz < 4294967296" by (rule unat_u32_bound)
  then have l: "unat (of_nat (length t) :: u32) = length t" "unat (of_nat (length d) :: u32) = length d"
    using assms(2) by (simp_all add: of_nat_unat_u32)
  have c: "so_mem c = put_bytes m str t" "so_str c = str + of_nat (length t)" "so_limit c = sz - of_nat (length t)"
    using assms(1) by (auto simp: holds_text_def)
  have L: "unat (so_limit c) = unat sz - length t"
    unfolding c(3) using l(1) assms(2) by (subst unat_sub) (simp_all add: word_le_nat_alt)
  have p: "put_bytes (so_mem c) (so_str c) d = put_bytes m str (t @ d)"
    using assms(2) \<open>unat sz < 4294967296\<close> unfolding c(1,2) by (intro put_bytes_append) simp
  show ?thesis
  proof (cases "so_limit c \<le> 1")
    case True
    then have "d = []" using L assms(2) by (cases d) (auto simp: word_le_nat_alt)
    then show ?thesis using True assms(1) by (simp add: output_str_def)
  next
    case False
    have "\<not> so_limit c < of_nat (length d)" using L l(2) assms(2) by (simp add: word_less_nat_alt)
    then have "output_str c d = c\<lparr>so_mem := put_bytes m str (t @ d), so_limit := so_limit c - of_nat (length d),
        so_str := so_str c + of_nat (length d)\<rparr>"
      using False l(2) p by (simp add: output_str_def Let_def)
    then show ?thesis using assms(2) c by (simp add: holds_text_def)
  qed
qed

lemma output_str_texts:
  assumes "holds_text m str sz t c" and "length (t @ concat ds) < unat sz"
  shows "holds_text m str sz (t @ concat ds) (foldl output_str c ds)"
  using assms
proof (induction ds arbitrary: t c)
  case (Cons d ds)
  have "holds_text m str sz (t @ d) (output_str c d)" using Cons.prems by (intro output_str_text) simp_all
  from Cons.IH[OF this] Cons.prems show ?case by simp
qed simp

lemma decimal_nonzero: "x \<in> set (concat (decimal v)) \<Longrightarrow> x \<noteq> 0"
  using format_int_digits_numeral(3)[of 10 v] format_int_digits_numeral(3)[of 10 "- v"]
  by (auto simp: decimal_def split: if_splits)

lemma plain_nonzero: "plain_text a \<Longrightarrow> c \<in> set a \<Longrightarrow> (of_char c :: u8) \<noteq> 0"
proof -
  assume "plain_text a" "c \<in> set a"
  then have "c \<noteq> CHR 0x00" by (auto simp: plain_text_def)
  then have "(of_char c :: nat) \<noteq> of_char (CHR 0x00)" unfolding of_char_eq_iff .
  then have "(of_char c :: nat) \<noteq> 0" by simp
  moreover have "unat (of_nat (of_char c) :: u8) = of_char c" by (simp only: unat_of_nat) simp
  ultimately have "unat (of_nat (of_char c) :: u8) \<noteq> 0" by simp
  then show "(of_char c :: u8) \<noteq> 0" unfolding of_nat_of_char by auto
qed

lemma put_bytes_cstr:
  assumes "length t < 4294967295" and "0 \<notin> set t"
  shows "cstr (put_bytes m p (t @ [0])) p t"
proof -
  have "put_bytes m p (t @ [0]) (p + of_nat i) = (t @ [0]) ! i" if "i \<le> length t" for i
    using that assms(1) by (simp add: put_bytes_apply of_nat_unat_u32)
  then show ?thesis unfolding cstr_iff using assms(2) by (auto simp: nth_append in_set_conv_nth)
qed

lemma vsnprintf_eq:
  assumes "vformat output_str so_mem ui si pre \<lparr>so_mem = m, so_str = str, so_limit = sz\<rparr> fmt ap = Some c" and "sz \<noteq> 0"
  shows "vsnprintf ui si pre m str sz fmt ap = Some ((so_mem c)(str + (sz - so_limit c) := 0), sint (so_str c - str))"
  using assms by (simp add: vsnprintf_def)

text \<open>
  \<open>vsnprintf\<close> of a number between two texts: when the result is shorter than the buffer, the buffer holds the first text, the
  decimal numeral of the signed argument and the second text, terminated; the result is the length, and no byte behind the
  terminator is changed.
\<close>

lemma vsnprintf_decimal:
  assumes "plain_text a" and "plain_text b" and "t = map of_char a @ concat (decimal v) @ map of_char b"
    and "length t < unat sz" and "length t < 2147483648"
  shows "\<exists>m'. vsnprintf ui si pre m str sz (a @ ''%d'' @ b) (v # ap) = Some (m', int (length t)) \<and> cstr m' str t \<and>
    (\<forall>x. in_region str (Suc (length t)) x \<or> m' x = m x)"
proof -
  let ?init = "\<lparr>so_mem = m, so_str = str, so_limit = sz\<rparr>"
  let ?ds = "map of_char a # decimal v @ (if b = [] then [] else [map of_char b])"
  let ?c = "foldl output_str ?init ?ds"
  have t: "concat ?ds = t" using assms(3) by simp
  have "0 < unat sz" using assms(4) by linarith
  then have "holds_text m str sz [] ?init" by (simp add: holds_text_def put_bytes_def)
  from output_str_texts[OF this, of ?ds] have h: "holds_text m str sz t ?c" unfolding t using assms(4) by simp
  have z: "put_bytes m str (t @ [0]) = (put_bytes m str t)(str + of_nat (length t) := 0)"
    using put_bytes_append[of t "[0]" m str] assms(5) by (simp add: put_bytes_def[of _ _ "[_]"] for_upto_def)
  have i: "sint (of_nat (length t) :: u32) = int (length t)" using assms(5) by (simp add: sint_u32 of_nat_unat_u32)
  have c: "so_mem ?c = put_bytes m str t" "so_str ?c - str = of_nat (length t)" "sz - so_limit ?c = of_nat (length t)" "sz \<noteq> 0"
    using h \<open>0 < unat sz\<close> unfolding holds_text_def by auto
  have "vsnprintf ui si pre m str sz (a @ ''%d'' @ b) (v # ap) = Some (put_bytes m str (t @ [0]), int (length t))"
    unfolding vsnprintf_eq[OF vformat_decimal[OF assms(1,2)] c(4)] c(1-3) z i by (rule refl)
  moreover have "0 \<notin> set t" using plain_nonzero[OF assms(1)] plain_nonzero[OF assms(2)] decimal_nonzero[of _ v] unfolding assms(3) by auto
  then have "cstr (put_bytes m str (t @ [0])) str t" using assms(5) by (intro put_bytes_cstr) simp_all
  moreover have "in_region str (Suc (length t)) x \<or> put_bytes m str (t @ [0]) x = m x" for x
    using assms(5) by (simp add: put_bytes_apply in_region_def)
  ultimately show ?thesis by blast
qed

lemma vsnprintf_decimal_hyps:
  "plain_text ''n='' \<and> plain_text [] \<and> length (map of_char ''n='' @ concat (decimal (- 5)) @ map of_char [] :: u8 list) = 4"
  by code_simp

lemma vsnprintf_decimal_example:
  "\<exists>m'. vsnprintf 0 0 (CHR ''x'') (\<lambda>_. 7) 1000 8 (''n='' @ ''%d'' @ []) [- 5] =
      Some (m', int (length (map of_char ''n='' @ concat (decimal (- 5)) @ map of_char [] :: u8 list))) \<and>
    cstr m' 1000 (map of_char ''n='' @ concat (decimal (- 5)) @ map of_char [])"
  using vsnprintf_decimal[of "''n=''" "[]" _ "- 5" 8 0 0 "CHR ''x''" "\<lambda>_. 7" 1000 "[]", OF _ _ refl] vsnprintf_decimal_hyps
  by auto

text \<open>
  A text of exactly \<open>size\<close> bytes is stored in full, which leaves room 0, and the terminator is written to the byte behind the buffer.
\<close>

lemma vsnprintf_exact_overruns:
  assumes "plain_text fmt" and "length fmt = unat sz" and "1 < sz"
  shows "\<exists>m' r. vsnprintf ui si pre m str sz fmt ap = Some (m', r) \<and> m' (str + sz) = 0"
proof -
  have "fmt \<noteq> []" using assms(2,3) by (auto simp: word_less_nat_alt)
  moreover have "\<not> sz \<le> 1" "sz \<noteq> 0" using assms(3) by auto
  moreover have "(of_nat (length fmt) :: u32) = sz" using assms(2) by simp
  ultimately show ?thesis
    using vformat_loop_plain_end[OF assms(1), of output_str so_mem pre "[]" "\<lparr>so_mem = m, so_str = str, so_limit = sz\<rparr>" ap ui si]
    by (simp add: vsnprintf_def vformat_def output_str_def Let_def)
qed

section \<open>Where the interpreter departs from printf\<close>

text \<open>
  An unknown conversion is printed with the character in front of the percent sign; an unsigned conversion with length \<open>h\<close>
  prints what the variable held before and takes no argument; with precision 0 the value 0 is printed, although its
  width is counted as 0.
\<close>

lemma unknown_conversion_example:
  "vformat (\<lambda>t d. t @ d) (\<lambda>_ _. 0) 0 0 (CHR ''x'') [] ''a%q'' [] = Some (map of_char ''aa%q'')"
  by code_simp

lemma short_unsigned_example:
  "vformat (\<lambda>t d. t @ d) (\<lambda>_ _. 0) 77 0 (CHR ''x'') [] ''%hu'' [5] = Some (map of_char ''77'')"
  by code_simp

lemma zero_precision_example:
  "vformat (\<lambda>t d. t @ d) (\<lambda>_ _. 0) 0 0 (CHR ''x'') [] ''%3.0d'' [0] = Some (map of_char ''   0'')"
  by code_simp

end
