(* ===== verification/Keyboard.thy ===== *)
theory Keyboard
  imports Prelude
begin

text \<open>
  The keyboard, \<^verbatim>\<open>drivers/keyboard.c\<close> and \<^verbatim>\<open>include/depthos/keyboard.h\<close>: key codes, the decoding of scan codes and the conversions
  between key codes and characters. The ports of \<^verbatim>\<open>drivers/ps2.c\<close> are arguments. A fault, here an index outside a table or a
  missing return value, is \<open>None\<close>.
\<close>

section \<open>Key codes\<close>

text \<open>The constants of the enumeration, whose values are the positions in the macro \<^verbatim>\<open>KEYCODES\<close>.\<close>

type_synonym keycode = nat

named_theorems key_defs

definition KEY_UNKNOWN :: keycode where [key_defs]: "KEY_UNKNOWN = 0"
definition KEY_SPACE :: keycode where [key_defs]: "KEY_SPACE = 1"
definition KEY_0 :: keycode where [key_defs]: "KEY_0 = 2"
definition KEY_1 :: keycode where [key_defs]: "KEY_1 = 3"
definition KEY_2 :: keycode where [key_defs]: "KEY_2 = 4"
definition KEY_3 :: keycode where [key_defs]: "KEY_3 = 5"
definition KEY_4 :: keycode where [key_defs]: "KEY_4 = 6"
definition KEY_5 :: keycode where [key_defs]: "KEY_5 = 7"
definition KEY_6 :: keycode where [key_defs]: "KEY_6 = 8"
definition KEY_7 :: keycode where [key_defs]: "KEY_7 = 9"
definition KEY_8 :: keycode where [key_defs]: "KEY_8 = 10"
definition KEY_9 :: keycode where [key_defs]: "KEY_9 = 11"
definition KEY_A :: keycode where [key_defs]: "KEY_A = 12"
definition KEY_B :: keycode where [key_defs]: "KEY_B = 13"
definition KEY_C :: keycode where [key_defs]: "KEY_C = 14"
definition KEY_D :: keycode where [key_defs]: "KEY_D = 15"
definition KEY_E :: keycode where [key_defs]: "KEY_E = 16"
definition KEY_F :: keycode where [key_defs]: "KEY_F = 17"
definition KEY_G :: keycode where [key_defs]: "KEY_G = 18"
definition KEY_H :: keycode where [key_defs]: "KEY_H = 19"
definition KEY_I :: keycode where [key_defs]: "KEY_I = 20"
definition KEY_J :: keycode where [key_defs]: "KEY_J = 21"
definition KEY_K :: keycode where [key_defs]: "KEY_K = 22"
definition KEY_L :: keycode where [key_defs]: "KEY_L = 23"
definition KEY_M :: keycode where [key_defs]: "KEY_M = 24"
definition KEY_N :: keycode where [key_defs]: "KEY_N = 25"
definition KEY_O :: keycode where [key_defs]: "KEY_O = 26"
definition KEY_P :: keycode where [key_defs]: "KEY_P = 27"
definition KEY_Q :: keycode where [key_defs]: "KEY_Q = 28"
definition KEY_R :: keycode where [key_defs]: "KEY_R = 29"
definition KEY_S :: keycode where [key_defs]: "KEY_S = 30"
definition KEY_T :: keycode where [key_defs]: "KEY_T = 31"
definition KEY_U :: keycode where [key_defs]: "KEY_U = 32"
definition KEY_V :: keycode where [key_defs]: "KEY_V = 33"
definition KEY_W :: keycode where [key_defs]: "KEY_W = 34"
definition KEY_X :: keycode where [key_defs]: "KEY_X = 35"
definition KEY_Y :: keycode where [key_defs]: "KEY_Y = 36"
definition KEY_Z :: keycode where [key_defs]: "KEY_Z = 37"
definition KEY_DOT :: keycode where [key_defs]: "KEY_DOT = 38"
definition KEY_COMMA :: keycode where [key_defs]: "KEY_COMMA = 39"
definition KEY_COLON :: keycode where [key_defs]: "KEY_COLON = 40"
definition KEY_SEMICOLON :: keycode where [key_defs]: "KEY_SEMICOLON = 41"
definition KEY_SLASH :: keycode where [key_defs]: "KEY_SLASH = 42"
definition KEY_BACKSLASH :: keycode where [key_defs]: "KEY_BACKSLASH = 43"
definition KEY_PLUS :: keycode where [key_defs]: "KEY_PLUS = 44"
definition KEY_MINUS :: keycode where [key_defs]: "KEY_MINUS = 45"
definition KEY_ASTERISK :: keycode where [key_defs]: "KEY_ASTERISK = 46"
definition KEY_EXCLAMATION :: keycode where [key_defs]: "KEY_EXCLAMATION = 47"
definition KEY_QUESTION :: keycode where [key_defs]: "KEY_QUESTION = 48"
definition KEY_QUOTEDOUBLE :: keycode where [key_defs]: "KEY_QUOTEDOUBLE = 49"
definition KEY_QUOTE :: keycode where [key_defs]: "KEY_QUOTE = 50"
definition KEY_EQUAL :: keycode where [key_defs]: "KEY_EQUAL = 51"
definition KEY_HASH :: keycode where [key_defs]: "KEY_HASH = 52"
definition KEY_PERCENT :: keycode where [key_defs]: "KEY_PERCENT = 53"
definition KEY_AMPERSAND :: keycode where [key_defs]: "KEY_AMPERSAND = 54"
definition KEY_UNDERSCORE :: keycode where [key_defs]: "KEY_UNDERSCORE = 55"
definition KEY_LEFTPARENTHESIS :: keycode where [key_defs]: "KEY_LEFTPARENTHESIS = 56"
definition KEY_RIGHTPARENTHESIS :: keycode where [key_defs]: "KEY_RIGHTPARENTHESIS = 57"
definition KEY_LEFTBRACKET :: keycode where [key_defs]: "KEY_LEFTBRACKET = 58"
definition KEY_RIGHTBRACKET :: keycode where [key_defs]: "KEY_RIGHTBRACKET = 59"
definition KEY_LEFTCURL :: keycode where [key_defs]: "KEY_LEFTCURL = 60"
definition KEY_RIGHTCURL :: keycode where [key_defs]: "KEY_RIGHTCURL = 61"
definition KEY_DOLLAR :: keycode where [key_defs]: "KEY_DOLLAR = 62"
definition KEY_POUND :: keycode where [key_defs]: "KEY_POUND = 63"
definition KEY_EURO :: keycode where [key_defs]: "KEY_EURO = 64"
definition KEY_LESS :: keycode where [key_defs]: "KEY_LESS = 65"
definition KEY_GREATER :: keycode where [key_defs]: "KEY_GREATER = 66"
definition KEY_BAR :: keycode where [key_defs]: "KEY_BAR = 67"
definition KEY_GRAVE :: keycode where [key_defs]: "KEY_GRAVE = 68"
definition KEY_TILDE :: keycode where [key_defs]: "KEY_TILDE = 69"
definition KEY_AT :: keycode where [key_defs]: "KEY_AT = 70"
definition KEY_CARRET :: keycode where [key_defs]: "KEY_CARRET = 71"
definition KEY_RETURN :: keycode where [key_defs]: "KEY_RETURN = 72"
definition KEY_ESCAPE :: keycode where [key_defs]: "KEY_ESCAPE = 73"
definition KEY_BACKSPACE :: keycode where [key_defs]: "KEY_BACKSPACE = 74"
definition KEY_CARRIAGE_RETURN :: keycode where [key_defs]: "KEY_CARRIAGE_RETURN = 75"
definition KEY_UP :: keycode where [key_defs]: "KEY_UP = 76"
definition KEY_DOWN :: keycode where [key_defs]: "KEY_DOWN = 77"
definition KEY_LEFT :: keycode where [key_defs]: "KEY_LEFT = 78"
definition KEY_RIGHT :: keycode where [key_defs]: "KEY_RIGHT = 79"
definition KEY_F1 :: keycode where [key_defs]: "KEY_F1 = 80"
definition KEY_F2 :: keycode where [key_defs]: "KEY_F2 = 81"
definition KEY_F3 :: keycode where [key_defs]: "KEY_F3 = 82"
definition KEY_F4 :: keycode where [key_defs]: "KEY_F4 = 83"
definition KEY_F5 :: keycode where [key_defs]: "KEY_F5 = 84"
definition KEY_F6 :: keycode where [key_defs]: "KEY_F6 = 85"
definition KEY_F7 :: keycode where [key_defs]: "KEY_F7 = 86"
definition KEY_F8 :: keycode where [key_defs]: "KEY_F8 = 87"
definition KEY_F9 :: keycode where [key_defs]: "KEY_F9 = 88"
definition KEY_F10 :: keycode where [key_defs]: "KEY_F10 = 89"
definition KEY_F11 :: keycode where [key_defs]: "KEY_F11 = 90"
definition KEY_F12 :: keycode where [key_defs]: "KEY_F12 = 91"
definition KEY_F13 :: keycode where [key_defs]: "KEY_F13 = 92"
definition KEY_F14 :: keycode where [key_defs]: "KEY_F14 = 93"
definition KEY_F15 :: keycode where [key_defs]: "KEY_F15 = 94"
definition KEY_KP_0 :: keycode where [key_defs]: "KEY_KP_0 = 95"
definition KEY_KP_1 :: keycode where [key_defs]: "KEY_KP_1 = 96"
definition KEY_KP_2 :: keycode where [key_defs]: "KEY_KP_2 = 97"
definition KEY_KP_3 :: keycode where [key_defs]: "KEY_KP_3 = 98"
definition KEY_KP_4 :: keycode where [key_defs]: "KEY_KP_4 = 99"
definition KEY_KP_5 :: keycode where [key_defs]: "KEY_KP_5 = 100"
definition KEY_KP_6 :: keycode where [key_defs]: "KEY_KP_6 = 101"
definition KEY_KP_7 :: keycode where [key_defs]: "KEY_KP_7 = 102"
definition KEY_KP_8 :: keycode where [key_defs]: "KEY_KP_8 = 103"
definition KEY_KP_9 :: keycode where [key_defs]: "KEY_KP_9 = 104"
definition KEY_KP_PLUS :: keycode where [key_defs]: "KEY_KP_PLUS = 105"
definition KEY_KP_MINUS :: keycode where [key_defs]: "KEY_KP_MINUS = 106"
definition KEY_KP_DECIMAL :: keycode where [key_defs]: "KEY_KP_DECIMAL = 107"
definition KEY_KP_DIVIDE :: keycode where [key_defs]: "KEY_KP_DIVIDE = 108"
definition KEY_KP_ASTERISK :: keycode where [key_defs]: "KEY_KP_ASTERISK = 109"
definition KEY_KP_NUMLOCK :: keycode where [key_defs]: "KEY_KP_NUMLOCK = 110"
definition KEY_KP_ENTER :: keycode where [key_defs]: "KEY_KP_ENTER = 111"
definition KEY_TAB :: keycode where [key_defs]: "KEY_TAB = 112"
definition KEY_CAPSLOCK :: keycode where [key_defs]: "KEY_CAPSLOCK = 113"
definition KEY_LSHIFT :: keycode where [key_defs]: "KEY_LSHIFT = 114"
definition KEY_LCTRL :: keycode where [key_defs]: "KEY_LCTRL = 115"
definition KEY_LALT :: keycode where [key_defs]: "KEY_LALT = 116"
definition KEY_LSYS :: keycode where [key_defs]: "KEY_LSYS = 117"
definition KEY_RSHIFT :: keycode where [key_defs]: "KEY_RSHIFT = 118"
definition KEY_RCTRL :: keycode where [key_defs]: "KEY_RCTRL = 119"
definition KEY_RALT :: keycode where [key_defs]: "KEY_RALT = 120"
definition KEY_RSYS :: keycode where [key_defs]: "KEY_RSYS = 121"
definition KEY_INSERT :: keycode where [key_defs]: "KEY_INSERT = 122"
definition KEY_DELETE :: keycode where [key_defs]: "KEY_DELETE = 123"
definition KEY_HOME :: keycode where [key_defs]: "KEY_HOME = 124"
definition KEY_END :: keycode where [key_defs]: "KEY_END = 125"
definition KEY_PAGEUP :: keycode where [key_defs]: "KEY_PAGEUP = 126"
definition KEY_PAGEDOWN :: keycode where [key_defs]: "KEY_PAGEDOWN = 127"
definition KEY_SCROLLLOCK :: keycode where [key_defs]: "KEY_SCROLLLOCK = 128"
definition KEY_PAUSE :: keycode where [key_defs]: "KEY_PAUSE = 129"

text \<open>The macro's list of keys and representations.\<close>

definition KEYCODES :: "(keycode \<times> string) list" where
  "KEYCODES = [
     (KEY_UNKNOWN, ''Unknown''), (KEY_SPACE, '' ''), (KEY_0, ''0''), (KEY_1, ''1''), (KEY_2, ''2''), (KEY_3, ''3''),
     (KEY_4, ''4''), (KEY_5, ''5''), (KEY_6, ''6''), (KEY_7, ''7''), (KEY_8, ''8''), (KEY_9, ''9''), (KEY_A, ''a''),
     (KEY_B, ''b''), (KEY_C, ''c''), (KEY_D, ''d''), (KEY_E, ''e''), (KEY_F, ''f''), (KEY_G, ''g''), (KEY_H, ''h''),
     (KEY_I, ''i''), (KEY_J, ''j''), (KEY_K, ''k''), (KEY_L, ''l''), (KEY_M, ''m''), (KEY_N, ''n''), (KEY_O, ''o''),
     (KEY_P, ''p''), (KEY_Q, ''q''), (KEY_R, ''r''), (KEY_S, ''s''), (KEY_T, ''t''), (KEY_U, ''u''), (KEY_V, ''v''),
     (KEY_W, ''w''), (KEY_X, ''x''), (KEY_Y, ''y''), (KEY_Z, ''z''), (KEY_DOT, ''.''), (KEY_COMMA, [CHR 0x2C]),
     (KEY_COLON, [CHR 0x3A]), (KEY_SEMICOLON, [CHR 0x3B]), (KEY_SLASH, ''/''), (KEY_BACKSLASH, [CHR 0x5C]),
     (KEY_PLUS, ''+''), (KEY_MINUS, ''-''), (KEY_ASTERISK, ''*''), (KEY_EXCLAMATION, [CHR 0x21]),
     (KEY_QUESTION, [CHR 0x3F]), (KEY_QUOTEDOUBLE, [CHR 0x22]), (KEY_QUOTE, [CHR 0x27]), (KEY_EQUAL, [CHR 0x3D]),
     (KEY_HASH, [CHR 0x23]), (KEY_PERCENT, [CHR 0x25]), (KEY_AMPERSAND, [CHR 0x26]), (KEY_UNDERSCORE, [CHR 0x5F]),
     (KEY_LEFTPARENTHESIS, [CHR 0x28]), (KEY_RIGHTPARENTHESIS, [CHR 0x29]), (KEY_LEFTBRACKET, ''[''),
     (KEY_RIGHTBRACKET, [CHR 0x5D]), (KEY_LEFTCURL, [CHR 0x7B]), (KEY_RIGHTCURL, [CHR 0x7D]),
     (KEY_DOLLAR, [CHR 0x24]), (KEY_POUND, [CHR 0x24]), (KEY_EURO, [CHR 0x24]), (KEY_LESS, [CHR 0x3C]),
     (KEY_GREATER, [CHR 0x3E]), (KEY_BAR, [CHR 0x7C]), (KEY_GRAVE, [CHR 0x60]), (KEY_TILDE, [CHR 0x7E]),
     (KEY_AT, [CHR 0x40]), (KEY_CARRET, [CHR 0x5E]), (KEY_RETURN, [CHR 0x0A]), (KEY_ESCAPE, [CHR 0x1B]),
     (KEY_BACKSPACE, [CHR 0x08]), (KEY_CARRIAGE_RETURN, [CHR 0x0D]), (KEY_UP, CHR 0x1B # ''[1A''),
     (KEY_DOWN, CHR 0x1B # ''[1B''), (KEY_LEFT, CHR 0x1B # ''[1C''), (KEY_RIGHT, CHR 0x1B # ''[1D''),
     (KEY_F1, ''F1''), (KEY_F2, ''F2''), (KEY_F3, ''F3''), (KEY_F4, ''F4''), (KEY_F5, ''F5''), (KEY_F6, ''F6''),
     (KEY_F7, ''F7''), (KEY_F8, ''F8''), (KEY_F9, ''F9''), (KEY_F10, ''F10''), (KEY_F11, ''F11''),
     (KEY_F12, ''F12''), (KEY_F13, ''F13''), (KEY_F14, ''F14''), (KEY_F15, ''F15''), (KEY_KP_0, ''Numpad0''),
     (KEY_KP_1, ''Numpad1''), (KEY_KP_2, ''Numpad2''), (KEY_KP_3, ''Numpad3''), (KEY_KP_4, ''Numpad4''),
     (KEY_KP_5, ''Numpad5''), (KEY_KP_6, ''Numpad6''), (KEY_KP_7, ''Numpad7''), (KEY_KP_8, ''Numpad8''),
     (KEY_KP_9, ''Numpad9''), (KEY_KP_PLUS, ''Numpad +''), (KEY_KP_MINUS, ''Numpad -''),
     (KEY_KP_DECIMAL, ''Numpad .''), (KEY_KP_DIVIDE, ''Numpad /''), (KEY_KP_ASTERISK, ''Numpad *''),
     (KEY_KP_NUMLOCK, ''NumLock''), (KEY_KP_ENTER, ''Enter''), (KEY_TAB, [CHR 0x09]), (KEY_CAPSLOCK, ''CapsLock''),
     (KEY_LSHIFT, ''Shift''), (KEY_LCTRL, ''Ctrl''), (KEY_LALT, ''Alt''), (KEY_LSYS, ''System''),
     (KEY_RSHIFT, ''RShift''), (KEY_RCTRL, ''RCtrl''), (KEY_RALT, ''RAlt''), (KEY_RSYS, ''RSystem''),
     (KEY_INSERT, ''Insert''), (KEY_DELETE, ''Delete''), (KEY_HOME, ''Home''), (KEY_END, ''End''),
     (KEY_PAGEUP, ''PageUp''), (KEY_PAGEDOWN, ''PageDown''), (KEY_SCROLLLOCK, ''ScrollLock''), (KEY_PAUSE, ''Pause'')]"

text \<open>The switch has no default and nothing behind it: for other values the result is undefined.\<close>

definition keycode_to_string :: "keycode \<Rightarrow> string option" where
  "keycode_to_string k = map_of KEYCODES k"

text \<open>The labels \<^verbatim>\<open>MATCH_LETTER\<close> (a letter and the code 32 above it) and \<^verbatim>\<open>MATCH_CHAR\<close> of \<open>keycode_from_codepoint\<close>.\<close>

definition match_letters :: "(nat \<times> keycode) list" where
  "match_letters = [
     (65, KEY_A), (97, KEY_A), (66, KEY_B), (98, KEY_B), (67, KEY_C), (99, KEY_C), (68, KEY_D), (100, KEY_D),
     (69, KEY_E), (101, KEY_E), (70, KEY_F), (102, KEY_F), (71, KEY_G), (103, KEY_G), (72, KEY_H), (104, KEY_H),
     (73, KEY_I), (105, KEY_I), (74, KEY_J), (106, KEY_J), (75, KEY_K), (107, KEY_K), (76, KEY_L), (108, KEY_L),
     (77, KEY_M), (109, KEY_M), (78, KEY_N), (110, KEY_N), (79, KEY_O), (111, KEY_O), (80, KEY_P), (112, KEY_P),
     (81, KEY_Q), (113, KEY_Q), (82, KEY_R), (114, KEY_R), (83, KEY_S), (115, KEY_S), (84, KEY_T), (116, KEY_T),
     (85, KEY_U), (117, KEY_U), (86, KEY_V), (118, KEY_V), (87, KEY_W), (119, KEY_W), (88, KEY_X), (120, KEY_X),
     (89, KEY_Y), (121, KEY_Y), (90, KEY_Z), (122, KEY_Z)]"

definition match_chars :: "(nat \<times> keycode) list" where
  "match_chars = [
     (48, KEY_0), (49, KEY_1), (50, KEY_2), (51, KEY_3), (52, KEY_4), (53, KEY_5), (54, KEY_6), (55, KEY_7),
     (56, KEY_8), (57, KEY_9), (32, KEY_SPACE), (46, KEY_DOT), (44, KEY_COMMA), (58, KEY_COLON), (59, KEY_SEMICOLON),
     (47, KEY_SLASH), (92, KEY_BACKSLASH), (43, KEY_PLUS), (45, KEY_MINUS), (42, KEY_ASTERISK),
     (33, KEY_EXCLAMATION), (63, KEY_QUESTION), (34, KEY_QUOTEDOUBLE), (39, KEY_QUOTE), (61, KEY_EQUAL),
     (35, KEY_HASH), (37, KEY_PERCENT), (38, KEY_AMPERSAND), (95, KEY_UNDERSCORE), (40, KEY_LEFTPARENTHESIS),
     (41, KEY_RIGHTPARENTHESIS), (91, KEY_LEFTBRACKET), (93, KEY_RIGHTBRACKET), (123, KEY_LEFTCURL),
     (125, KEY_RIGHTCURL), (36, KEY_DOLLAR), (60, KEY_LESS), (62, KEY_GREATER), (124, KEY_BAR), (96, KEY_GRAVE),
     (126, KEY_TILDE), (64, KEY_AT), (94, KEY_CARRET), (10, KEY_RETURN), (8, KEY_BACKSPACE), (13, KEY_CARRIAGE_RETURN)]"

definition keycode_from_codepoint :: "u32 \<Rightarrow> keycode" where
  "keycode_from_codepoint codepoint =
     (case map_of (match_letters @ match_chars) (unat codepoint) of Some k \<Rightarrow> k | None \<Rightarrow> KEY_UNKNOWN)"

section \<open>Scan codes\<close>

definition scancode_set_1 :: "keycode list" where
  "scancode_set_1 = [
       KEY_UNKNOWN, KEY_ESCAPE, KEY_1, KEY_2, KEY_3, KEY_4, KEY_5, KEY_6, KEY_7, KEY_8, KEY_9, KEY_0, KEY_MINUS,
       KEY_EQUAL, KEY_BACKSPACE, KEY_TAB, KEY_Q, KEY_W, KEY_E, KEY_R, KEY_T, KEY_Y, KEY_U, KEY_I, KEY_O, KEY_P,
       KEY_LEFTBRACKET, KEY_RIGHTBRACKET, KEY_RETURN, KEY_LCTRL, KEY_A, KEY_S, KEY_D, KEY_F, KEY_G, KEY_H, KEY_J,
       KEY_K, KEY_L, KEY_SEMICOLON, KEY_QUOTE, KEY_GRAVE, KEY_LSHIFT, KEY_BACKSLASH, KEY_Z, KEY_X, KEY_C, KEY_V,
       KEY_B, KEY_N, KEY_M, KEY_COMMA, KEY_DOT, KEY_SLASH, KEY_RSHIFT, KEY_KP_ASTERISK, KEY_RALT, KEY_SPACE,
       KEY_CAPSLOCK, KEY_F1, KEY_F2, KEY_F3, KEY_F4, KEY_F5, KEY_F6, KEY_F7, KEY_F8, KEY_F9, KEY_F10, KEY_KP_NUMLOCK,
       KEY_SCROLLLOCK, KEY_KP_7, KEY_KP_8, KEY_KP_9, KEY_KP_MINUS, KEY_KP_4, KEY_KP_5, KEY_KP_6, KEY_KP_PLUS,
       KEY_KP_1, KEY_KP_2, KEY_KP_3, KEY_KP_0, KEY_KP_DECIMAL]"

definition scancode_set_1_shift :: "keycode list" where
  "scancode_set_1_shift = [
       KEY_UNKNOWN, KEY_ESCAPE, KEY_EXCLAMATION, KEY_AT, KEY_HASH, KEY_DOLLAR, KEY_PERCENT, KEY_CARRET,
       KEY_AMPERSAND, KEY_ASTERISK, KEY_LEFTPARENTHESIS, KEY_RIGHTPARENTHESIS, KEY_UNDERSCORE, KEY_PLUS,
       KEY_BACKSPACE, KEY_TAB, KEY_Q, KEY_W, KEY_E, KEY_R, KEY_T, KEY_Y, KEY_U, KEY_I, KEY_O, KEY_P, KEY_LEFTCURL,
       KEY_RIGHTCURL, KEY_RETURN, KEY_LCTRL, KEY_A, KEY_S, KEY_D, KEY_F, KEY_G, KEY_H, KEY_J, KEY_K, KEY_L,
       KEY_COLON, KEY_QUOTEDOUBLE, KEY_TILDE, KEY_LSHIFT, KEY_BAR, KEY_Z, KEY_X, KEY_C, KEY_V, KEY_B, KEY_N, KEY_M,
       KEY_LESS, KEY_GREATER, KEY_QUESTION, KEY_RSHIFT, KEY_KP_ASTERISK, KEY_RALT, KEY_SPACE, KEY_CAPSLOCK, KEY_F1,
       KEY_F2, KEY_F3, KEY_F4, KEY_F5, KEY_F6, KEY_F7, KEY_F8, KEY_F9, KEY_F10, KEY_KP_NUMLOCK, KEY_SCROLLLOCK,
       KEY_HOME, KEY_KP_8, KEY_PAGEUP, KEY_KP_2, KEY_KP_3, KEY_KP_0, KEY_KP_DECIMAL, KEY_UNKNOWN, KEY_UNKNOWN,
       KEY_UNKNOWN, KEY_F11, KEY_F12]"

definition KEYBOARD_MODIFIER_CTRL :: u8 where "KEYBOARD_MODIFIER_CTRL = 0x1"
definition KEYBOARD_MODIFIER_ALT :: u8 where "KEYBOARD_MODIFIER_ALT = 0x2"
definition KEYBOARD_MODIFIER_SHIFT :: u8 where "KEYBOARD_MODIFIER_SHIFT = 0x4"
definition KEYBOARD_MODIFIER_CAPSLOCK :: u8 where "KEYBOARD_MODIFIER_CAPSLOCK = 0x8"

record keyboard_event =
  ev_keycode :: keycode
  ev_pressed :: bool
  ev_modifiers :: u8

definition upd_modifier :: "bool \<Rightarrow> u8 \<Rightarrow> u8 \<Rightarrow> u8" where
  "upd_modifier pressed name modifiers = (if pressed then modifiers OR name else modifiers AND NOT name)"

text \<open>The result is the new modifiers and the event that the current handler is called with, if any.\<close>

definition ps2_keyboard_handle_scancode :: "u8 \<Rightarrow> u8 \<Rightarrow> (u8 \<times> keyboard_event option) option" where
  "ps2_keyboard_handle_scancode modifiers payload =
     (let scancode = unat (payload AND 0x7f);
          pressed = (payload AND 0x80 = 0);
          tab = (if modifiers AND KEYBOARD_MODIFIER_SHIFT \<noteq> 0 then scancode_set_1_shift else scancode_set_1)
      in if scancode \<ge> length tab then None
         else
           let keycode = tab ! scancode
           in Some
             (if keycode = KEY_LALT \<or> keycode = KEY_RALT then (upd_modifier pressed KEYBOARD_MODIFIER_ALT modifiers, None)
              else if keycode = KEY_LCTRL \<or> keycode = KEY_RCTRL then (upd_modifier pressed KEYBOARD_MODIFIER_CTRL modifiers, None)
              else if keycode = KEY_LSHIFT \<or> keycode = KEY_RSHIFT then (upd_modifier pressed KEYBOARD_MODIFIER_SHIFT modifiers, None)
              else if keycode = KEY_CAPSLOCK
              then (if pressed then modifiers XOR KEYBOARD_MODIFIER_CAPSLOCK else modifiers, None)
              else (modifiers, Some \<lparr>ev_keycode = keycode, ev_pressed = pressed, ev_modifiers = modifiers\<rparr>)))"

definition ps2_keyboard_irq_handler :: "u8 \<Rightarrow> u8 \<Rightarrow> u8 \<Rightarrow> (u8 \<times> keyboard_event option) option" where
  "ps2_keyboard_irq_handler status dat modifiers =
     (if status AND 0x01 \<noteq> 0 then ps2_keyboard_handle_scancode modifiers dat else Some (modifiers, None))"

text \<open>The current handler is a function pointer; a null pointer is ignored.\<close>

definition keyboard_set_handler :: "'h option \<Rightarrow> 'h \<Rightarrow> 'h" where
  "keyboard_set_handler handler old = (case handler of None \<Rightarrow> old | Some h \<Rightarrow> h)"

section \<open>Characters and key codes\<close>

lemma keycodes_enumerated: "map fst KEYCODES = [0..<130]"
  by (simp add: KEYCODES_def key_defs upt_rec)

lemma keycode_to_string_nth: "k < 130 \<Longrightarrow> keycode_to_string k = Some (snd (KEYCODES ! k))"
proof -
  assume k: "k < 130"
  have len: "length KEYCODES = 130" using arg_cong[OF keycodes_enumerated, of length] by simp
  have "fst (KEYCODES ! k) = k" using k len arg_cong[OF keycodes_enumerated, of "\<lambda>xs. xs ! k"] by simp
  then have "(k, snd (KEYCODES ! k)) \<in> set KEYCODES" using k len nth_mem[of k KEYCODES] by (metis prod.collapse)
  then show ?thesis using keycodes_enumerated by (simp add: keycode_to_string_def map_of_eq_Some_iff)
qed

definition lower :: "nat \<Rightarrow> nat" where
  "lower c = (if 65 \<le> c \<and> c \<le> 90 then c + 32 else c)"

lemma match_labels_repr:
  "\<forall>(c, k) \<in> set (match_letters @ match_chars). k < 130 \<and> map of_char (snd (KEYCODES ! k)) = [lower c]"
  by (simp add: match_letters_def match_chars_def KEYCODES_def key_defs lower_def)

lemma printable_codepoints: "\<forall>c \<in> set [32..<127]. map_of (match_letters @ match_chars) c \<noteq> None"
  by (simp add: match_letters_def match_chars_def upt_rec)

text \<open>
  Every printable ASCII character has a key, and for every character with a key the representation of the key is the character
  itself, in lower case for a letter.
\<close>

lemma keycode_codepoint_roundtrip:
  assumes "map_of (match_letters @ match_chars) (unat c) \<noteq> None"
  shows "\<exists>ch. keycode_to_string (keycode_from_codepoint c) = Some [ch] \<and> of_char ch = lower (unat c)"
proof -
  obtain k where k: "map_of (match_letters @ match_chars) (unat c) = Some k" using assms by blast
  have "(unat c, k) \<in> set (match_letters @ match_chars)" using k by (rule map_of_SomeD)
  then have "k < 130" "map of_char (snd (KEYCODES ! k)) = [lower (unat c)]" using match_labels_repr by fastforce+
  moreover have "keycode_from_codepoint c = k" using k by (simp add: keycode_from_codepoint_def)
  ultimately show ?thesis by (auto simp: keycode_to_string_nth)
qed

section \<open>Decoding\<close>

text \<open>A key of the main block is decoded by its table; the tables agree where shift makes no difference.\<close>

lemma upd_modifier_undo: "m AND name = 0 \<Longrightarrow> upd_modifier False name (upd_modifier True name m) = m"
  by (auto simp: upd_modifier_def intro!: bit_eqI simp: bit_simps) (metis bit_and_iff bit_0_eq bot_apply bot_bool_def)

text \<open>Pressing and releasing the left shift key restores the modifiers, and in between keys are decoded by the shifted table.\<close>

lemma shift_press_release:
  assumes "modifiers AND KEYBOARD_MODIFIER_SHIFT = 0"
  shows "ps2_keyboard_handle_scancode modifiers 0x2a = Some (modifiers OR KEYBOARD_MODIFIER_SHIFT, None)"
    and "ps2_keyboard_handle_scancode (modifiers OR KEYBOARD_MODIFIER_SHIFT) 0xaa = Some (modifiers, None)"
proof -
  have t: "scancode_set_1 ! 42 = KEY_LSHIFT \<and> scancode_set_1_shift ! 42 = KEY_LSHIFT \<and> length scancode_set_1 = 84 \<and>
      length scancode_set_1_shift = 83 \<and> KEY_LSHIFT \<noteq> KEY_LALT \<and> KEY_LSHIFT \<noteq> KEY_RALT \<and>
      KEY_LSHIFT \<noteq> KEY_LCTRL \<and> KEY_LSHIFT \<noteq> KEY_RCTRL"
    by (simp add: scancode_set_1_def scancode_set_1_shift_def key_defs)
  have s: "(modifiers OR KEYBOARD_MODIFIER_SHIFT) AND KEYBOARD_MODIFIER_SHIFT \<noteq> 0"
    by (simp add: bit.conj_disj_distrib2 assms) (simp add: KEYBOARD_MODIFIER_SHIFT_def)
  show "ps2_keyboard_handle_scancode modifiers 0x2a = Some (modifiers OR KEYBOARD_MODIFIER_SHIFT, None)"
    using t assms by (simp add: ps2_keyboard_handle_scancode_def upd_modifier_def)
  show "ps2_keyboard_handle_scancode (modifiers OR KEYBOARD_MODIFIER_SHIFT) 0xaa = Some (modifiers, None)"
    using t s upd_modifier_undo[OF assms] by (simp add: ps2_keyboard_handle_scancode_def upd_modifier_def)
qed

text \<open>
  The shifted table lacks the codes \<open>0x4A\<close> to \<open>0x4F\<close>, so the keys behind it are decoded with the wrong entries: keypad minus as keypad
  2, keypad 2 as unknown. Both tables end before the function keys 11 and 12, whose codes read behind them.
\<close>

lemma shift_table_misaligned:
  "scancode_set_1 ! 0x4A = KEY_KP_MINUS \<and> scancode_set_1_shift ! 0x4A = KEY_KP_2 \<and>
   scancode_set_1 ! 0x50 = KEY_KP_2 \<and> scancode_set_1_shift ! 0x50 = KEY_UNKNOWN"
  by (simp add: scancode_set_1_def scancode_set_1_shift_def)

lemma scancode_behind_table: "ps2_keyboard_handle_scancode 0 0x57 = None \<and> ps2_keyboard_handle_scancode KEYBOARD_MODIFIER_SHIFT 0x57 = None"
  by (simp add: ps2_keyboard_handle_scancode_def scancode_set_1_def scancode_set_1_shift_def KEYBOARD_MODIFIER_SHIFT_def)

end
