(* ===== verification/Tty.thy ===== *)
theory Tty
  imports Keyboard Pipe Format
begin

text \<open>
  The terminal, \<^verbatim>\<open>kernel/tty.c\<close>: keys fill a ring buffer that reads of the device empty, and output goes to \<open>putk\<close>, whose calls are
  the result of the functions here. The strings \<^verbatim>\<open>"[[^"\<close> and the copy made by \<open>strdup\<close> lie in memory, at \<open>lit\<close> and \<open>dup\<close>. Waiting for input
  yields the processor: that state is \<open>Blocked\<close>, after which the read is entered again. A fault is \<open>None\<close>.
\<close>

definition TTY_BUFFER_SIZE :: u32 where "TTY_BUFFER_SIZE = 100"

text \<open>The static buffer, with its array at \<open>dat\<close>.\<close>

definition tty_buffer :: "ptr \<Rightarrow> ringbuffer" where
  "tty_buffer dat = \<lparr>rb_data = dat, elem_size = 1, max_size = TTY_BUFFER_SIZE, read_idx = 0, write_idx = 0, rb_size = 0\<rparr>"

text \<open>The characters passed to \<open>putk\<close>, and the result; the one escape sequence that is recognised does nothing.\<close>

definition tty_write :: "mem \<Rightarrow> ptr \<Rightarrow> size_t \<Rightarrow> u8 list \<times> int" where
  "tty_write m buffer nbytes =
     (if nbytes \<ge> 3 \<and> m buffer = 0x1b \<and> m (buffer + 1) = 0x5b \<and> m (buffer + 2) = 0x5d then []
      else bytes_at m buffer (unat nbytes), sint nbytes)"

text \<open>The jumps to \<open>read_more\<close>; the first argument is what is left of \<open>nbytes\<close>.\<close>

primrec tty_read_more :: "nat \<Rightarrow> mem \<Rightarrow> ringbuffer \<Rightarrow> ptr \<Rightarrow> (mem \<times> ringbuffer \<times> nat) option" where
  "tty_read_more 0 m rb buffer = Some (m, rb, 0)"
| "tty_read_more (Suc n) m rb buffer = do {
     (rb, rbe) \<leftarrow> ringbuffer_pop rb;
     if rbe \<noteq> NULL then do {
       (m, rb, r) \<leftarrow> tty_read_more n (m(buffer := m rbe)) rb (buffer + 1);
       Some (m, rb, Suc r) }
     else Some (m, rb, 0) }"

definition tty_read :: "mem \<Rightarrow> ringbuffer \<Rightarrow> ptr \<Rightarrow> size_t \<Rightarrow> (mem \<times> ringbuffer \<times> int) blocking option" where
  "tty_read m rb buffer nbytes =
     (if nbytes = 0 then Some (Done (m, rb, 0))
      else do {
        (m, rb, r) \<leftarrow> tty_read_more (unat nbytes) m rb buffer;
        if r > 0 then Some (Done (m, rb, sint (of_nat r :: u32))) else Some Blocked })"

definition tty_ioctl :: "u32 \<Rightarrow> int" where
  "tty_ioctl request = - ENOSYS"

definition shift_keycode :: "keyboard_event \<Rightarrow> bool option" where
  "shift_keycode event =
     (if (ev_modifiers event AND KEYBOARD_MODIFIER_SHIFT = 0) \<noteq> (ev_modifiers event AND KEYBOARD_MODIFIER_CAPSLOCK = 0)
      then do {
        str \<leftarrow> keycode_to_string (ev_keycode event);
        Some (length str = 1 \<and> of_char (hd str) \<ge> (97 :: nat) \<and> of_char (hd str) \<le> (122 :: nat)) }
      else Some False)"

text \<open>The loop that pushes a string; the last part of the result is where the pointer ends.\<close>

partial_function (option) push_str :: "mem \<Rightarrow> ringbuffer \<Rightarrow> ptr \<Rightarrow> (mem \<times> ringbuffer \<times> ptr) option" where
  "push_str m rb str =
     (if m str = 0 then Some (m, rb, str)
      else do { (m, rb, e) \<leftarrow> ringbuffer_push m rb str; push_str m rb (str + 1) })"

text \<open>
  The handler of key events. The result is memory, buffer, the characters sent to the screen and the arguments of \<open>kfree\<close> when it
  is called: by then the pointer has moved to the end of the string.
\<close>

definition tty_keyboard_handler ::
    "mem \<Rightarrow> ringbuffer \<Rightarrow> ptr \<Rightarrow> ptr \<Rightarrow> keyboard_event \<Rightarrow> (mem \<times> ringbuffer \<times> u8 list \<times> (ptr \<times> size_t) option) option" where
  "tty_keyboard_handler m rb lit dup event =
     (if \<not> ev_pressed event then Some (m, rb, [], None)
      else do {
        (m, str, free_str) \<leftarrow>
          (if ev_keycode event = KEY_KP_8 then Some (m, lit, False)
           else do {
             s \<leftarrow> keycode_to_string (ev_keycode event);
             let m = put_bytes m dup (map of_char s @ [0]);
             sh \<leftarrow> shift_keycode event;
             Some (if sh then m(dup := m dup - 32) else m, dup, True) });
        n \<leftarrow> strlen m str;
        let shown = (if m str = 8 then [8, 32, 8] else fst (tty_write m str n));
        (m, rb, str) \<leftarrow> push_str m rb str;
        n \<leftarrow> strlen m str;
        Some (m, rb, shown, if free_str then Some (str, n) else None) })"

text \<open>
  The initialisation: the buffer, the handler \<open>h\<close> of key events in place of \<open>old\<close>, and the four names of the device \<open>dev\<close>.
\<close>

definition tty_init ::
    "mem \<Rightarrow> ptr \<Rightarrow> 'h \<Rightarrow> 'h \<Rightarrow> 's devreg \<Rightarrow> 'w nodes \<Rightarrow> nat \<Rightarrow> (mem \<times> ringbuffer) \<times> 'h \<times> 's devreg \<times> 'w nodes" where
  "tty_init m dat h old r s dev =
     (let (r, s) = devfs_register r s ''console'' dev;
          (r, s) = devfs_register r s ''tty'' dev;
          (r, s) = devfs_register r s ''tty0'' dev;
          (r, s) = devfs_register r s ''tty1'' dev
      in (ringbuffer_init m (tty_buffer dat) 1, keyboard_set_handler (Some h) old, r, s))"

section \<open>Typing and reading\<close>

text \<open>Reading is the loop of pipes on the terminal's buffer.\<close>

lemma tty_read_more_pipe:
  assumes "rb_wf rb" and "elem_size rb = 1" and "0 < n \<Longrightarrow> regions_disjoint (rb_data rb) (unat (max_size rb)) buffer n"
  shows "tty_read_more n m rb buffer = pipe_read_loop n m rb buffer"
  using assms
proof (induction n arbitrary: m rb buffer)
  case (Suc n)
  show ?case
  proof (cases "rb_size rb = 0")
    case True
    then show ?thesis by (simp add: ringbuffer_pop_def ringbuffer_empty_def)
  next
    case False
    have "rb_elems m rb \<noteq> []" using False by (simp add: rb_elems_def unat_eq_0)
    then obtain x xs where xs: "rb_elems m rb = x # xs" by (cases "rb_elems m rb") auto
    have idx: "unat (read_idx rb) < unat (max_size rb)" using Suc.prems(1) by (simp add: rb_wf_def word_less_nat_alt)
    obtain rb1 where pop: "ringbuffer_pop rb = Some (rb1, rb_slot rb (unat (read_idx rb)))"
      using ringbuffer_pop_ok[OF Suc.prems(1) xs] by blast
    moreover have "rb_slot rb (unat (read_idx rb)) \<noteq> NULL" by (rule rb_slot_nonnull[OF Suc.prems(1) idx])
    moreover obtain rb1' e where p: "ringbuffer_pop rb = Some (rb1', e)" "rb_wf rb1'" "elem_size rb1' = 1"
      "0 < n \<longrightarrow> regions_disjoint (rb_data rb1') (unat (max_size rb1')) (buffer + 1) n"
      using pop_byte[OF Suc.prems(1,2) False] Suc.prems(3) by blast
    ultimately show ?thesis using False Suc.IH[OF p(2,3)] p by (simp add: memcpy_1 fun_upd_def)
  qed
qed simp

lemma push_str_ok:
  assumes "rb_wf rb" and "elem_size rb = 1" and "\<forall>i \<le> length s. rb_arg m rb (str + of_nat i) = Some [(s @ [0]) ! i]" and "0 \<notin> set s"
    and "unat (rb_size rb) + length s \<le> unat (max_size rb)"
  shows "\<exists>m' rb'. push_str m rb str = Some (m', rb', str + of_nat (length s)) \<and> rb_wf rb' \<and> elem_size rb' = 1 \<and>
    rb_elems m' rb' = rb_elems m rb @ map (\<lambda>c. [c]) s \<and> rb_data rb' = rb_data rb \<and> max_size rb' = max_size rb \<and>
    (\<forall>u. rb_arg m' rb' u = rb_arg m rb u)"
  using assms
proof (induction s arbitrary: m rb str)
  case Nil
  have "m str = 0" using Nil.prems(2,3) by (auto simp: rb_arg_def bytes_at_def split: if_splits)
  then show ?case using Nil by (simp add: push_str.simps)
next
  case (Cons c s)
  have arg: "rb_arg m rb str = Some [c]" using Cons.prems(3) by (auto dest: spec[of _ 0])
  then have c: "m str = c" "c \<noteq> 0" using Cons.prems(2,4) by (auto simp: rb_arg_def bytes_at_def split: if_splits)
  have room: "unat (rb_size rb) < unat (max_size rb)" using Cons.prems(5) by simp
  obtain m1 rb1 e where p: "ringbuffer_push m rb str = Some (m1, rb1, e)" "rb_wf rb1" "rb_elems m1 rb1 = rb_elems m rb @ [[c]]"
    "max_size rb1 = max_size rb" "elem_size rb1 = 1" "rb_data rb1 = rb_data rb" "\<forall>u. rb_arg m1 rb1 u = rb_arg m rb u"
    using ringbuffer_push_ok[OF Cons.prems(1) arg room] Cons.prems(2) by auto
  have "rb_arg m1 rb1 ((str + 1) + of_nat i) = Some [(s @ [0]) ! i]" if "i \<le> length s" for i
    using Cons.prems(3) that p(7) spec[of _ "Suc i"] by (fastforce simp: add.assoc)
  moreover have "unat (rb_size rb1) = Suc (unat (rb_size rb))"
    using arg_cong[OF p(3), of length] by simp
  ultimately obtain m' rb' where "push_str m1 rb1 (str + 1) = Some (m', rb', (str + 1) + of_nat (length s))" "rb_wf rb'"
      "elem_size rb' = 1" "rb_elems m' rb' = rb_elems m1 rb1 @ map (\<lambda>c. [c]) s" "rb_data rb' = rb_data rb1"
      "max_size rb' = max_size rb1" "\<forall>u. rb_arg m' rb' u = rb_arg m1 rb1 u"
    using Cons.IH[OF p(2,5), of m1 "str + 1"] Cons.prems(4,5) p(4) by auto
  then show ?case using c p by (subst push_str.simps) (simp add: add.assoc)
qed

text \<open>What the terminal receives for a key: its representation, with the first letter in upper case under shift or caps lock.\<close>

definition key_text :: "keyboard_event \<Rightarrow> u8 list" where
  "key_text event =
     (let s = map of_char (the (keycode_to_string (ev_keycode event)))
      in if shift_keycode event = Some True then (hd s - 32) # tl s else s)"

lemma keycode_reprs:
  "\<forall>(k, s) \<in> set KEYCODES. s \<noteq> [] \<and> CHR 0x00 \<notin> set s \<and> length s \<le> 10 \<and> take 3 s \<noteq> [CHR 0x1B, CHR 0x5B, CHR 0x5D]"
  by (simp add: KEYCODES_def)

lemma unat_of_char: "unat (of_char x :: u8) = of_char x"
proof -
  have "unat (of_nat (of_char x) :: u8) = of_char x" by (simp only: unat_of_nat) simp
  then show ?thesis unfolding of_nat_of_char .
qed

lemma of_char_u8_eq: "(of_char c :: u8) = of_char d \<longleftrightarrow> c = d"
  using unat_of_char by (metis of_char_eq_iff)

lemma key_text_props:
  assumes "keycode_to_string (ev_keycode event) = Some s"
  obtains sh where "shift_keycode event = Some sh"
    and "key_text event = (if sh then (of_char (hd s) - 32) # map of_char (tl s) else map of_char s)"
    and "key_text event \<noteq> []" and "0 \<notin> set (key_text event)" and "length (key_text event) = length s" and "length s \<le> 10"
    and "take 3 (key_text event) \<noteq> [0x1b, 0x5b, 0x5d]" and "s \<noteq> []"
proof -
  have "(ev_keycode event, s) \<in> set KEYCODES" using assms by (auto simp: keycode_to_string_def dest: map_of_SomeD)
  then have s: "s \<noteq> []" "CHR 0x00 \<notin> set s" "length s \<le> 10" "take 3 s \<noteq> [CHR 0x1B, CHR 0x5B, CHR 0x5D]"
    using keycode_reprs by auto
  have "\<exists>sh. shift_keycode event = Some sh" using assms by (auto simp: shift_keycode_def)
  then obtain sh where sh: "shift_keycode event = Some sh" by blast
  have t: "key_text event = (if sh then (of_char (hd s) - 32) # map of_char (tl s) else map of_char s)"
    using assms s(1) sh by (simp add: key_text_def hd_map map_tl Let_def)
  show thesis
  proof (cases sh)
    case True
    then have l: "length s = 1" "of_char (hd s) \<ge> (97 :: nat)" "of_char (hd s) \<le> (122 :: nat)"
      using sh assms by (auto simp: shift_keycode_def split: if_splits)
    have u: "unat (of_char (hd s) :: u8) = of_char (hd s)" by (rule unat_of_char)
    then have "unat (of_char (hd s) - 32 :: u8) = of_char (hd s) - 32"
      using l(2) by (subst unat_sub) (simp_all add: word_le_nat_alt)
    then have "of_char (hd s) - 32 \<noteq> (0 :: u8)" using l(2) by auto
    then show thesis using that[OF sh t] True t l(1) s(1,3) by (cases s) auto
  next
    case False
    have "(of_char (CHR 0x00) :: u8) = 0" by simp
    then have "0 \<notin> (of_char ` set s :: u8 set)" using s(2) of_char_u8_eq by (metis imageE)
    moreover have "map of_char (take 3 s) \<noteq> (map of_char [CHR 0x1B, CHR 0x5B, CHR 0x5D] :: u8 list)"
      using s(4) of_char_u8_eq by (metis (mono_tags, lifting) injI inj_map_eq_map)
    ultimately show thesis using that[OF sh t] False t s(1,3) by (auto simp: take_map)
  qed
qed

lemma put_bytes_first: "length r < 4294967295 \<Longrightarrow> (put_bytes m p (c # r))(p := x) = put_bytes m p (x # r)"
  by (auto simp: put_bytes_apply fun_eq_iff nth_Cons unat_eq_0 split: nat.splits)

text \<open>The string in memory and the buffer when the loop begins.\<close>

lemma put_text_arg:
  fixes m :: mem and dup :: ptr and t :: "u8 list"
  assumes "rb_wf rb" and "elem_size rb = 1" and "length t \<le> 10"
    and "regions_disjoint (rb_data rb) (unat (max_size rb)) dup (Suc (length t))"
  defines "m1 \<equiv> put_bytes m dup (t @ [0])"
  shows "i \<le> length t \<Longrightarrow> rb_arg m1 rb (dup + of_nat i) = Some [(t @ [0]) ! i]" and "rb_elems m1 rb = rb_elems m rb"
proof -
  have len: "length (t @ [0]) \<le> 4294967296" using assms(3) by simp
  show "rb_arg m1 rb (dup + of_nat i) = Some [(t @ [0]) ! i]" if i: "i \<le> length t"
  proof -
    have "regions_disjoint (dup + of_nat i) 1 (rb_data rb) (unat (max_size rb))"
      using assms(4) i by (intro regions_disjoint_sub[of _ "Suc (length t)"]) (simp_all add: regions_disjoint_sym)
    moreover have "m1 (dup + of_nat i) = (t @ [0]) ! i"
      using i assms(3) unfolding m1_def put_bytes_apply[OF len] by (simp add: of_nat_unat_u32)
    ultimately show ?thesis using assms(2) by (simp add: rb_arg_def bytes_at_def regions_disjoint_sym)
  qed
  have "m1 (rb_data rb + of_nat j) = m (rb_data rb + of_nat j)" if "j < unat (max_size rb)" for j
  proof -
    have "\<not> in_region dup (Suc (length t)) (rb_data rb + of_nat j)"
      using that assms(3,4) less_imp_le[OF unat_u32_bound[of "max_size rb"]]
      by (intro region_not_in) (simp_all add: regions_disjoint_sym)
    then show ?thesis unfolding m1_def put_bytes_apply[OF len] by (simp add: in_region_def)
  qed
  then show "rb_elems m1 rb = rb_elems m rb" by (rule rb_elems_frame[OF assms(1,2)])
qed

lemma tty_write_text:
  assumes "cstr m p t" and "length t \<le> 10" and "take 3 t \<noteq> [0x1b, 0x5b, 0x5d]"
  shows "fst (tty_write m p (of_nat (length t))) = t"
proof -
  have b: "m (p + of_nat i) = t ! i" if "i < length t" for i using assms(1) that by (simp add: cstr_iff)
  have n: "unat (of_nat (length t) :: u32) = length t" using assms(2) by (simp add: of_nat_unat_u32)
  have "bytes_at m p (length t) = t" by (rule nth_equalityI) (simp_all add: bytes_at_def b)
  moreover have "\<not> (3 \<le> length t \<and> m p = 0x1b \<and> m (p + 1) = 0x5b \<and> m (p + 2) = 0x5d)"
  proof
    assume a: "3 \<le> length t \<and> m p = 0x1b \<and> m (p + 1) = 0x5b \<and> m (p + 2) = 0x5d"
    then obtain x y z r where "t = x # y # z # r" by (auto simp: numeral_3_eq_3 Suc_le_length_iff)
    then have "take 3 t = [t ! 0, t ! 1, t ! 2]" by simp
    moreover have "0 < length t" using a by linarith
    ultimately show False using a b[of 0] b[of 1] b[of 2] assms(3) by simp
  qed
  ultimately show ?thesis using n by (auto simp: tty_write_def word_le_nat_alt)
qed

lemma handler_ok:
  assumes "ev_pressed event" and "ev_keycode event \<noteq> KEY_KP_8" and "keycode_to_string (ev_keycode event) = Some s"
    and "rb_wf rb" and "elem_size rb = 1" and "unat (rb_size rb) + length s \<le> unat (max_size rb)"
    and "regions_disjoint (rb_data rb) (unat (max_size rb)) dup (Suc (length s))"
  defines "t \<equiv> key_text event"
  shows "\<exists>m' rb'. tty_keyboard_handler m rb lit dup event =
      Some (m', rb', if hd t = 8 then [8, 32, 8] else t, Some (dup + of_nat (length t), 0)) \<and> rb_wf rb' \<and> elem_size rb' = 1 \<and>
    rb_elems m' rb' = rb_elems m rb @ map (\<lambda>c. [c]) t \<and> rb_data rb' = rb_data rb \<and> max_size rb' = max_size rb"
proof -
  from assms(3) obtain sh where sh: "shift_keycode event = Some sh"
    and t: "t = (if sh then (of_char (hd s) - 32) # map of_char (tl s) else map of_char s)" "t \<noteq> []" "0 \<notin> set t"
      "length t = length s" "length s \<le> 10" "take 3 t \<noteq> [0x1b, 0x5b, 0x5d]" "s \<noteq> []"
    unfolding t_def by (rule key_text_props) blast
  define m1 where "m1 = put_bytes m dup (t @ [0])"
  let ?m0 = "put_bytes m dup (map of_char s @ [0])"
  have m1: "(if sh then ?m0(dup := ?m0 dup - 32) else ?m0) = m1"
    using t(1,5,7) by (cases s) (auto simp: m1_def put_bytes_first put_bytes_apply)
  have d: "regions_disjoint (rb_data rb) (unat (max_size rb)) dup (Suc (length t))" "length t \<le> 10" using assms(7) t(4,5) by simp_all
  note arg = put_text_arg[OF assms(4,5) d(2,1), where m = m, folded m1_def]
  obtain m' rb' where p: "push_str m1 rb dup = Some (m', rb', dup + of_nat (length t))" "rb_wf rb'" "elem_size rb' = 1"
      "rb_elems m' rb' = rb_elems m1 rb @ map (\<lambda>c. [c]) t" "rb_data rb' = rb_data rb" "max_size rb' = max_size rb"
      "\<forall>u. rb_arg m' rb' u = rb_arg m1 rb u"
    using push_str_ok[OF assms(4,5) _ t(3)] arg(1) assms(6) t(4) by metis
  have c: "cstr m1 dup t" unfolding m1_def using t(3,4,5) by (intro put_bytes_cstr) simp_all
  have "rb_arg m' rb' (dup + of_nat (length t)) = Some [0]" using p(7) arg(1)[of "length t"] by simp
  then have "m' (dup + of_nat (length t)) = 0" using p(3) by (auto simp: rb_arg_def bytes_at_def split: if_splits)
  then have "cstr m' (dup + of_nat (length t)) []" by simp
  from strlen_cstr[OF this] have z: "strlen m' (dup + of_nat (length t)) = Some 0" by simp
  have h: "m1 dup = hd t" using c t(2) by (cases t) auto
  have "fst (tty_write m1 dup (of_nat (length t))) = t" using c d(2) t(6) by (rule tty_write_text)
  then show ?thesis using p(2-6) arg(2) h assms(1,2,3) sh m1 strlen_cstr[OF c] p(1) z
    by (simp add: tty_keyboard_handler_def)
qed

lemma concat_singletons: "concat (map (\<lambda>c. [c]) t) = t"
  by (induction t) simp_all


text \<open>The key of the letter a with the shift key held down, typed into an empty buffer.\<close>

definition demo_event :: keyboard_event where
  "demo_event = \<lparr>ev_keycode = KEY_A, ev_pressed = True, ev_modifiers = KEYBOARD_MODIFIER_SHIFT\<rparr>"

lemma demo_event_text: "ps2_keyboard_handle_scancode KEYBOARD_MODIFIER_SHIFT 0x1e = Some (KEYBOARD_MODIFIER_SHIFT, Some demo_event)"
    "keycode_to_string KEY_A = Some ''a''" "key_text demo_event = [65]"
proof -
  show "ps2_keyboard_handle_scancode KEYBOARD_MODIFIER_SHIFT 0x1e = Some (KEYBOARD_MODIFIER_SHIFT, Some demo_event)"
    by (simp add: ps2_keyboard_handle_scancode_def scancode_set_1_shift_def demo_event_def KEYBOARD_MODIFIER_SHIFT_def key_defs)
  show k: "keycode_to_string KEY_A = Some ''a''" by (simp add: keycode_to_string_nth KEY_A_def KEYCODES_def)
  show "key_text demo_event = [65]"
    using k by (simp add: key_text_def shift_keycode_def demo_event_def KEYBOARD_MODIFIER_SHIFT_def KEYBOARD_MODIFIER_CAPSLOCK_def)
qed


text \<open>Without a waiting byte a read of the terminal does not return.\<close>

lemma tty_read_blocks: "rb_size rb = 0 \<Longrightarrow> n \<noteq> 0 \<Longrightarrow> tty_read m rb buffer n = Some Blocked"
  by (cases "unat n") (auto simp: tty_read_def ringbuffer_pop_def ringbuffer_empty_def unat_eq_0)

text \<open>A full buffer is emptied by the next byte typed (see \<open>ringbuffer_push_full_empties\<close>): the handler does not test for room.\<close>

lemma tty_overflow_loses_input:
  assumes "rb_wf rb" and "ringbuffer_full rb" and "m str \<noteq> 0"
  shows "\<exists>m' rb' e. ringbuffer_push m rb str = Some (m', rb', e) \<and> rb_elems m' rb' = [] \<and> push_str m rb str = push_str m' rb' (str + 1)"
  using ringbuffer_push_full_empties[OF assms(1,2), of m str] assms(3) by (subst push_str.simps) auto

end
