(* ===== verification/Ports.thy ===== *)
theory Ports
  imports Prelude
begin

text \<open>
  Port instructions, \<^verbatim>\<open>io/ports.c\<close>. The hardware is a parameter: \<open>bus_in w p\<close> and \<open>bus_out w p v\<close> are what an access of \<open>w\<close> bytes to
  port \<open>p\<close> does to the state \<open>'s\<close> of the devices. Drivers are functions over an arbitrary bus, and what they rely on of
  a device is a hypothesis about it. The bus \<open>trace_bus\<close> records the accesses and answers reads from a list.
\<close>

record 's bus =
  bus_in :: "nat \<Rightarrow> u16 \<Rightarrow> 's \<Rightarrow> u32 \<times> 's"
  bus_out :: "nat \<Rightarrow> u16 \<Rightarrow> u32 \<Rightarrow> 's \<Rightarrow> 's"

definition outb :: "'s bus \<Rightarrow> u16 \<Rightarrow> u8 \<Rightarrow> 's \<Rightarrow> 's" where "outb b port v s = bus_out b 1 port (ucast v) s"
definition outw :: "'s bus \<Rightarrow> u16 \<Rightarrow> u16 \<Rightarrow> 's \<Rightarrow> 's" where "outw b port v s = bus_out b 2 port (ucast v) s"
definition outl :: "'s bus \<Rightarrow> u16 \<Rightarrow> u32 \<Rightarrow> 's \<Rightarrow> 's" where "outl b port v s = bus_out b 4 port v s"

definition inb :: "'s bus \<Rightarrow> u16 \<Rightarrow> 's \<Rightarrow> u8 \<times> 's" where "inb b port s = (let (v, s) = bus_in b 1 port s in (ucast v, s))"
definition inw :: "'s bus \<Rightarrow> u16 \<Rightarrow> 's \<Rightarrow> u16 \<times> 's" where "inw b port s = (let (v, s) = bus_in b 2 port s in (ucast v, s))"
definition inl :: "'s bus \<Rightarrow> u16 \<Rightarrow> 's \<Rightarrow> u32 \<times> 's" where "inl b port s = bus_in b 4 port s"

text \<open>The counter of \<open>iowait\<close> is an \<open>int\<close> compared as an unsigned value.\<close>

definition iowait :: "'s bus \<Rightarrow> u32 \<Rightarrow> 's \<Rightarrow> 's" where
  "iowait b microseconds s = for_upto (unat microseconds) (\<lambda>_ s. snd (inb b 0x80 s)) s"

lemma ucast_there_and_back [simp]:
  "ucast (ucast x :: u32) = (x :: u8)" "ucast (ucast y :: u32) = (y :: u16)"
  by (rule bit_word_eqI, simp add: bit_simps, linarith?)+

section \<open>A bus that records\<close>

datatype access = In nat u16 | Out nat u16 u32

definition trace_bus :: "(access list \<times> u32 list) bus" where
  "trace_bus = \<lparr>bus_in = \<lambda>w p (t, q). (case q of [] \<Rightarrow> (0, t @ [In w p], []) | v # q \<Rightarrow> (v, t @ [In w p], q)),
     bus_out = \<lambda>w p v (t, q). (t @ [Out w p v], q)\<rparr>"

named_theorems port_simps

lemma trace_out [port_simps]:
  "outb trace_bus p v8 (t, q) = (t @ [Out 1 p (ucast v8)], q)"
  "outw trace_bus p v16 (t, q) = (t @ [Out 2 p (ucast v16)], q)"
  "outl trace_bus p v32 (t, q) = (t @ [Out 4 p v32], q)"
  by (simp_all add: outb_def outw_def outl_def trace_bus_def)

lemma trace_in [port_simps]:
  "inb trace_bus p (t, v # q) = (ucast v, t @ [In 1 p], q)"
  "inw trace_bus p (t, v # q) = (ucast v, t @ [In 2 p], q)"
  "inl trace_bus p (t, v # q) = (v, t @ [In 4 p], q)"
  by (simp_all add: inb_def inw_def inl_def trace_bus_def)

end
