(* ===== verification/Console.thy ===== *)
theory Console
  imports Ports Format
begin

text \<open>
  The text console, \<^verbatim>\<open>io/console.c\<close>: a screen of \<open>strs_count\<close> rows of \<open>strs_len\<close> cells in video memory, a cursor and the cursor registers of
  the display controller. \<open>video\<close> is video memory by cell index; the index is not clamped, so a write outside the screen
  is a write to a cell the screen does not have. The recursion of \<open>console_putchara\<close> ends when a row has at least two
  cells; otherwise its value is \<open>None\<close>.
\<close>

record 's console =
  video :: "int \<Rightarrow> u16"
  strs_count :: int
  strs_len :: int
  dbcolor :: int
  dfcolor :: int
  cursorx :: int
  cursory :: int
  con_hw :: 's

section \<open>Operations\<close>

definition console_flushc :: "'s bus \<Rightarrow> 's console \<Rightarrow> 's console" where
  "console_flushc b con =
     (let pos = word_of_int (cursory con * strs_len con + cursorx con) :: u16;
          h = outb b 0x3D4 14 (con_hw con);
          h = outb b 0x3D5 (ucast (drop_bit 8 pos)) h;
          h = outb b 0x3D4 15 h;
          h = outb b 0x3D5 (ucast pos) h
      in con\<lparr>con_hw := h\<rparr>)"

text \<open>Division by a row length of 0 is a fault.\<close>

definition console_getcursor :: "'s bus \<Rightarrow> 's console \<Rightarrow> ('s console \<times> int \<times> int) option" where
  "console_getcursor b con =
     (let h = outb b 0x3D4 0x0F (con_hw con);
          (lo, h) = inb b 0x3D5 h;
          h = outb b 0x3D4 0x0E h;
          (hi, h) = inb b 0x3D5 h;
          pos = ucast lo OR push_bit 8 (ucast hi) :: u16
      in if strs_len con = 0 then None
         else Some (con\<lparr>con_hw := h\<rparr>, c_mod (uint pos) (strs_len con), c_div (uint pos) (strs_len con)))"

definition console_init :: "'s bus \<Rightarrow> int \<Rightarrow> int \<Rightarrow> int \<Rightarrow> int \<Rightarrow> 's console \<Rightarrow> 's console option" where
  "console_init bus s l b f con =
     (let con = (if s > 0 then con\<lparr>strs_count := s\<rparr> else con);
          con = (if l > 0 then con\<lparr>strs_len := l\<rparr> else con);
          con = (if b > 0 then con\<lparr>dbcolor := b\<rparr> else con);
          con = (if f > 0 then con\<lparr>dfcolor := f\<rparr> else con)
      in do {
        (con, x, y) \<leftarrow> console_getcursor bus con;
        Some (console_flushc bus (con\<lparr>cursorx := x, cursory := y\<rparr>)) })"

definition console_movec :: "'s bus \<Rightarrow> int \<Rightarrow> int \<Rightarrow> 's console \<Rightarrow> 's console" where
  "console_movec b x y con =
     (let con = (if cursorx con + x \<ge> 0 then con\<lparr>cursorx := cursorx con + x\<rparr> else con);
          con = (if cursory con + y \<ge> 0 then con\<lparr>cursory := cursory con + y\<rparr> else con)
      in console_flushc b con)"

definition console_attr :: "'s console \<Rightarrow> u8" where
  "console_attr con = word_of_int (push_bit 4 (dbcolor con) OR (dfcolor con AND 0x0F))"

definition console_blank :: "'s console \<Rightarrow> u16" where
  "console_blank con = 0x20 OR push_bit 8 (ucast (console_attr con))"

definition console_clear :: "'s bus \<Rightarrow> 's console \<Rightarrow> 's console" where
  "console_clear b con =
     (let v = for_upto (nat (strs_len con * strs_count con)) (\<lambda>i v. v(int i := console_blank con)) (video con)
      in console_flushc b (con\<lparr>video := v, cursorx := 0, cursory := 0\<rparr>))"

text \<open>Scrolling: each cell takes the value of the one below it, from the top; then the last row is filled.\<close>

definition console_flushs :: "'s console \<Rightarrow> 's console" where
  "console_flushs con =
     (if cursory con \<ge> strs_count con then
        let l = strs_len con; top = (strs_count con - 1) * l;
            v = for_upto (nat top) (\<lambda>i v. v(int i := v (int i + l))) (video con);
            v = for_upto (nat (strs_count con * l - top)) (\<lambda>i v. v(top + int i := console_blank con)) v
        in con\<lparr>video := v, cursory := strs_count con - 1\<rparr>
      else con)"

partial_function (option) console_putchara :: "'s bus \<Rightarrow> u8 \<Rightarrow> u8 \<Rightarrow> 's console \<Rightarrow> 's console option" where
  "console_putchara b c a con =
     (let con =
        (if c = 0x08 \<and> cursorx con \<noteq> 0 then con\<lparr>cursorx := cursorx con - 1\<rparr>
         else if c = 0x09 then con\<lparr>cursorx := (cursorx con + 8) AND NOT 7\<rparr>
         else if c = 0x0D then con\<lparr>cursorx := 0\<rparr>
         else if c = 0x0A then con\<lparr>cursorx := 0, cursory := cursory con + 1\<rparr>
         else con)
      in if c = 0x1B then do {
           con \<leftarrow> console_putchara b 0x5E a con;
           console_putchara b 0x5B a con }
         else
           let con =
             (if c \<ge> 0x20
              then con\<lparr>video := (video con)(cursory con * strs_len con + cursorx con := ucast c OR push_bit 8 (ucast a)),
                       cursorx := cursorx con + 1\<rparr>
              else con)
           in do {
             con \<leftarrow> (if cursorx con \<ge> strs_len con \<or> cursorx con = strs_len con - 1
                     then console_putchara b 0x0A (console_attr con) con else Some con);
             Some (console_flushc b (console_flushs con)) })"

definition console_putchar :: "'s bus \<Rightarrow> u8 \<Rightarrow> 's console \<Rightarrow> 's console option" where
  "console_putchar b c con = console_putchara b c (console_attr con) con"

text \<open>A string of \<open>sz\<close> bytes; \<open>console_write\<close> and \<open>console_writea\<close> stop at the terminator.\<close>

primrec console_output :: "'s bus \<Rightarrow> u8 list \<Rightarrow> 's console \<Rightarrow> 's console option" where
  "console_output b [] con = Some con"
| "console_output b (c # d) con = do { con \<leftarrow> console_putchar b c con; console_output b d con }"

partial_function (option) console_writea :: "'s bus \<Rightarrow> mem \<Rightarrow> ptr \<Rightarrow> u8 \<Rightarrow> 's console \<Rightarrow> 's console option" where
  "console_writea b m buf a con =
     (if m buf = 0 then Some con
      else do { con \<leftarrow> console_putchara b (m buf) a con; console_writea b m (buf + 1) a con })"

partial_function (option) console_write :: "'s bus \<Rightarrow> mem \<Rightarrow> ptr \<Rightarrow> 's console \<Rightarrow> 's console option" where
  "console_write b m buf con =
     (if m buf = 0 then Some con
      else do { con \<leftarrow> console_putchar b (m buf) con; console_write b m (buf + 1) con })"

text \<open>
  \<open>console_write_int\<close> has the digit loop of \<open>itoa\<close>; the reversed digits are a local string. The array has 33 bytes with the
  terminator.
\<close>

definition console_write_int :: "'s bus \<Rightarrow> u32 \<Rightarrow> u32 \<Rightarrow> 's console \<Rightarrow> 's console option" where
  "console_write_int b v base con =
     (if v = 0 \<or> base > 16 then console_putchar b 0x30 con
      else do {
        c \<leftarrow> itoa_loop v base [];
        if 33 \<le> length c then None else console_output b (rev c) con })"

definition console_write_hex :: "'s bus \<Rightarrow> u32 \<Rightarrow> 's console \<Rightarrow> 's console option" where
  "console_write_hex b v con = do { con \<leftarrow> console_output b [0x30, 0x78] con; console_write_int b v 16 con }"

definition console_write_dec :: "'s bus \<Rightarrow> u32 \<Rightarrow> 's console \<Rightarrow> 's console option" where
  "console_write_dec b v con = console_write_int b v 10 con"

text \<open>The colours of a call; a negative one stands for the default, converted to a byte.\<close>

definition color_attr :: "8 word \<Rightarrow> 8 word \<Rightarrow> 's console \<Rightarrow> u8" where
  "color_attr b f con =
     (let b = (if sint b < 0 then word_of_int (dbcolor con) else b :: 8 word);
          f = (if sint f < 0 then word_of_int (dfcolor con) else f :: 8 word)
      in word_of_int (push_bit 4 (sint b) OR (sint f AND 0x0F)))"

definition console_write_color :: "'s bus \<Rightarrow> mem \<Rightarrow> ptr \<Rightarrow> 8 word \<Rightarrow> 8 word \<Rightarrow> 's console \<Rightarrow> 's console option" where
  "console_write_color bus m buf b f con = console_writea bus m buf (color_attr b f con) con"

definition console_putchar_color :: "'s bus \<Rightarrow> u8 \<Rightarrow> 8 word \<Rightarrow> 8 word \<Rightarrow> 's console \<Rightarrow> 's console option" where
  "console_putchar_color bus c b f con = console_putchara bus c (color_attr b f con) con"

text \<open>
  The current output function is a pointer, \<open>console_output\<close> unless \<open>switch_console_provider\<close> has been called: an argument here.
\<close>

definition putk :: "('c \<Rightarrow> u8 list \<Rightarrow> 'c) \<Rightarrow> u8 \<Rightarrow> 'c \<Rightarrow> 'c" where
  "putk output_console c ctx = output_console ctx [c]"

definition vprintk ::
    "('c \<Rightarrow> u8 list \<Rightarrow> 'c) \<Rightarrow> ('c \<Rightarrow> mem) \<Rightarrow> u32 \<Rightarrow> u32 \<Rightarrow> char \<Rightarrow> 'c \<Rightarrow> string \<Rightarrow> u32 list \<Rightarrow> 'c option" where
  "vprintk output_console mm ui si pre ctx fmt ap = vformat output_console mm ui si pre ctx fmt ap"

definition console_out :: "'s bus \<Rightarrow> 's console option \<Rightarrow> u8 list \<Rightarrow> 's console option" where
  "console_out b con d = Option.bind con (console_output b d)"

definition consoledev_write :: "'s bus \<Rightarrow> mem \<Rightarrow> ptr \<Rightarrow> size_t \<Rightarrow> u32 \<Rightarrow> 's console \<Rightarrow> ('s console \<times> u32 \<times> int) option" where
  "consoledev_write b m buffer nbytes off con = do {
     con \<leftarrow> console_output b (bytes_at m buffer (unat nbytes)) con;
     Some (con, off + nbytes, sint nbytes) }"

definition CONSOLE_IOCTL_CLEAR :: u32 where "CONSOLE_IOCTL_CLEAR = 1"
definition CONSOLE_IOCTL_MOVECURSOR :: u32 where "CONSOLE_IOCTL_MOVECURSOR = 2"

text \<open>The function has no return statement; the result is not modelled.\<close>

definition consoledev_ioctl :: "'s bus \<Rightarrow> mem \<Rightarrow> u32 \<Rightarrow> ptr \<Rightarrow> 's console \<Rightarrow> 's console" where
  "consoledev_ioctl b m request dat con =
     (if request = CONSOLE_IOCTL_CLEAR then console_clear b con
      else if request = CONSOLE_IOCTL_MOVECURSOR
      then console_movec b (sint (load32 m dat)) (sint (load32 m (dat + 4))) con
      else con)"

section \<open>The screen\<close>

lemma fill_loop:
  "for_upto n (\<lambda>i v. v(t + int i := x)) v j = (if t \<le> j \<and> j < t + int n then x else v j)"
  by (induction n) auto

lemma shift_loop:
  assumes "0 < l"
  shows "for_upto n (\<lambda>i v. v(int i := v (int i + l))) v j = (if 0 \<le> j \<and> j < int n then v (j + l) else v j)"
  using assms by (induction n arbitrary: j) auto

definition same_screen :: "'s console \<Rightarrow> 's console \<Rightarrow> bool" where
  "same_screen con con' \<longleftrightarrow> strs_count con' = strs_count con \<and> strs_len con' = strs_len con \<and>
     (\<forall>i. i < 0 \<or> strs_count con * strs_len con \<le> i \<longrightarrow> video con' i = video con i)"

definition con_wf :: "'s console \<Rightarrow> bool" where
  "con_wf con \<longleftrightarrow> 2 \<le> strs_len con \<and> 1 \<le> strs_count con \<and> 0 \<le> cursorx con \<and> cursorx con < strs_len con - 1 \<and>
     0 \<le> cursory con \<and> cursory con < strs_count con"

lemma same_screen_refl [simp]: "same_screen con con"
  by (simp add: same_screen_def)

lemma same_screen_trans: "same_screen a b \<Longrightarrow> same_screen b c \<Longrightarrow> same_screen a c"
  by (auto simp: same_screen_def)

lemma flushc_simps [simp]:
  "video (console_flushc b con) = video con" "strs_count (console_flushc b con) = strs_count con"
  "strs_len (console_flushc b con) = strs_len con" "cursorx (console_flushc b con) = cursorx con"
  "cursory (console_flushc b con) = cursory con" "dbcolor (console_flushc b con) = dbcolor con"
  "dfcolor (console_flushc b con) = dfcolor con"
  by (simp_all add: console_flushc_def Let_def)

text \<open>The screen after scrolling, by cell.\<close>

lemma flushs_video:
  assumes "1 \<le> strs_len con" and "1 \<le> strs_count con"
  defines "upper \<equiv> (strs_count con - 1) * strs_len con"
  shows "video (console_flushs con) i =
    (if cursory con \<ge> strs_count con \<and> 0 \<le> i \<and> i < strs_count con * strs_len con
     then if i < upper then video con (i + strs_len con) else console_blank con else video con i)"
proof -
  have "0 \<le> upper" using assms(1,2) by (simp add: upper_def)
  moreover have "strs_count con * strs_len con = upper + strs_len con" by (simp add: upper_def left_diff_distrib)
  ultimately show ?thesis using assms(1)
    by (auto simp: console_flushs_def Let_def fill_loop shift_loop upper_def[symmetric])
qed

lemma flushs_simps [simp]:
  "strs_count (console_flushs con) = strs_count con" "strs_len (console_flushs con) = strs_len con"
  "cursorx (console_flushs con) = cursorx con" "dbcolor (console_flushs con) = dbcolor con" "dfcolor (console_flushs con) = dfcolor con"
  "cursory (console_flushs con) = (if cursory con \<ge> strs_count con then strs_count con - 1 else cursory con)"
  by (simp_all add: console_flushs_def Let_def)

lemma flushs_same_screen: "2 \<le> strs_len con \<Longrightarrow> 1 \<le> strs_count con \<Longrightarrow> same_screen con (console_flushs con)"
  by (auto simp: same_screen_def flushs_video)

text \<open>What remains of a character when the cursor has been moved: the wrap at the end of a row and the scrolling.\<close>

lemma putchara_newline:
  assumes "2 \<le> strs_len con"
  shows "console_putchara b 0x0A a con = Some (console_flushc b (console_flushs (con\<lparr>cursorx := 0, cursory := cursory con + 1\<rparr>)))"
  using assms by (subst console_putchara.simps) simp

definition moved :: "'s console \<Rightarrow> u8 \<Rightarrow> u8 \<Rightarrow> 's console" where
  "moved con c a =
     (let con =
        (if c = 0x08 \<and> cursorx con \<noteq> 0 then con\<lparr>cursorx := cursorx con - 1\<rparr>
         else if c = 0x09 then con\<lparr>cursorx := (cursorx con + 8) AND NOT 7\<rparr>
         else if c = 0x0D then con\<lparr>cursorx := 0\<rparr>
         else if c = 0x0A then con\<lparr>cursorx := 0, cursory := cursory con + 1\<rparr>
         else con)
      in if c \<ge> 0x20
         then con\<lparr>video := (video con)(cursory con * strs_len con + cursorx con := ucast c OR push_bit 8 (ucast a)),
                  cursorx := cursorx con + 1\<rparr>
         else con)"

lemma putchara_moved:
  fixes con :: "'s console" and a :: u8
  assumes "2 \<le> strs_len con" and "c \<noteq> 0x1B"
  defines "con1 \<equiv> moved con c a"
  shows "console_putchara b c a con = Some (console_flushc b (console_flushs
    (if cursorx con1 \<ge> strs_len con1 - 1
     then console_flushc b (console_flushs (con1\<lparr>cursorx := 0, cursory := cursory con1 + 1\<rparr>)) else con1)))"
proof -
  have l: "2 \<le> strs_len con1" using assms(1) by (auto simp: con1_def moved_def Let_def)
  have "console_putchara b c a con = do {
      con \<leftarrow> (if cursorx con1 \<ge> strs_len con1 \<or> cursorx con1 = strs_len con1 - 1
              then console_putchara b 0x0A (console_attr con1) con1 else Some con1);
      Some (console_flushc b (console_flushs con)) }"
    using assms(2) unfolding con1_def moved_def Let_def by (subst console_putchara.simps) (simp add: Let_def)
  moreover have "cursorx con1 \<ge> strs_len con1 \<or> cursorx con1 = strs_len con1 - 1 \<longleftrightarrow> cursorx con1 \<ge> strs_len con1 - 1" by linarith
  ultimately show ?thesis using putchara_newline[OF l] by simp
qed

lemma moved_screen:
  assumes "con_wf con"
  shows "same_screen con (moved con c a)" "0 \<le> cursorx (moved con c a)" "0 \<le> cursory (moved con c a)"
    "cursory (moved con c a) \<le> strs_count con" "cursory (moved con c a) = strs_count con \<Longrightarrow> c = 0x0A"
    "strs_len (moved con c a) = strs_len con" "strs_count (moved con c a) = strs_count con"
proof -
  let ?i = "cursory con * strs_len con + cursorx con"
  have w: "2 \<le> strs_len con" "0 \<le> cursorx con" "cursorx con < strs_len con - 1" "0 \<le> cursory con" "cursory con < strs_count con"
    using assms by (auto simp: con_wf_def)
  have "(cursory con + 1) * strs_len con \<le> strs_count con * strs_len con" using w by (intro mult_right_mono) auto
  then have "?i < strs_count con * strs_len con" using w by (simp add: distrib_right)
  moreover have "0 \<le> ?i" using w by simp
  moreover have "\<not> c < 0x20 \<Longrightarrow> c \<noteq> 8 \<and> c \<noteq> 9 \<and> c \<noteq> 0xD \<and> c \<noteq> 0xA" by auto
  ultimately show "same_screen con (moved con c a)" by (auto simp: moved_def same_screen_def Let_def not_less)
  show "0 \<le> cursorx (moved con c a)" "0 \<le> cursory (moved con c a)" "cursory (moved con c a) \<le> strs_count con"
    "cursory (moved con c a) = strs_count con \<Longrightarrow> c = 0x0A" "strs_len (moved con c a) = strs_len con"
    "strs_count (moved con c a) = strs_count con"
    using w by (auto simp: moved_def Let_def split: if_splits)
qed

lemma settle_ok:
  assumes "2 \<le> strs_len con" "1 \<le> strs_count con" "0 \<le> cursorx con" "cursorx con < strs_len con - 1" "0 \<le> cursory con"
  shows "con_wf (console_flushc b (console_flushs con))" "same_screen con (console_flushc b (console_flushs con))"
proof -
  show "con_wf (console_flushc b (console_flushs con))" using assms by (auto simp: con_wf_def)
  have "same_screen con (console_flushs con)" using assms by (intro flushs_same_screen)
  then show "same_screen con (console_flushc b (console_flushs con))" by (simp add: same_screen_def)
qed

lemma putchara_plain_ok:
  assumes "con_wf con" and "c \<noteq> 0x1B"
  shows "\<exists>con'. console_putchara b c a con = Some con' \<and> con_wf con' \<and> same_screen con con'"
proof -
  let ?m = "moved con c a"
  note m = moved_screen[OF assms(1), of c a]
  have l: "2 \<le> strs_len con" "1 \<le> strs_count con" using assms(1) by (auto simp: con_wf_def)
  show ?thesis
  proof (cases "cursorx ?m \<ge> strs_len ?m - 1")
    case True
    let ?n = "?m\<lparr>cursorx := 0, cursory := cursory ?m + 1\<rparr>"
    have n: "2 \<le> strs_len ?n" "1 \<le> strs_count ?n" "0 \<le> cursorx ?n" "cursorx ?n < strs_len ?n - 1" "0 \<le> cursory ?n"
      using m l by auto
    have w: "con_wf (console_flushc b (console_flushs ?n))" "same_screen con (console_flushc b (console_flushs ?n))"
      using settle_ok[OF n] m(1) by (auto simp: same_screen_def)
    then have "con_wf (console_flushc b (console_flushs (console_flushc b (console_flushs ?n))))"
        "same_screen con (console_flushc b (console_flushs (console_flushc b (console_flushs ?n))))"
      using settle_ok[of "console_flushc b (console_flushs ?n)" b] by (auto simp: con_wf_def intro: same_screen_trans)
    then show ?thesis using putchara_moved[OF l(1) assms(2), of b a] True by simp
  next
    case False
    have "con_wf (console_flushc b (console_flushs ?m))" "same_screen ?m (console_flushc b (console_flushs ?m))"
      using settle_ok[of ?m b] m l False by auto
    then show ?thesis using putchara_moved[OF l(1) assms(2), of b a] False m(1) by (auto intro: same_screen_trans)
  qed
qed

text \<open>The recursion ends, the cursor stays on the screen and no cell outside the screen is changed.\<close>

lemma console_putchara_ok:
  assumes "con_wf con"
  shows "\<exists>con'. console_putchara b c a con = Some con' \<and> con_wf con' \<and> same_screen con con'"
proof (cases "c = 0x1B")
  case True
  obtain con1 where 1: "console_putchara b 0x5E a con = Some con1" "con_wf con1" "same_screen con con1"
    using putchara_plain_ok[OF assms, of "0x5E" b a] by auto
  obtain con2 where 2: "console_putchara b 0x5B a con1 = Some con2" "con_wf con2" "same_screen con1 con2"
    using putchara_plain_ok[OF 1(2), of "0x5B" b a] by auto
  have "console_putchara b 0x1B a con = Some con2" using 1(1) 2(1) by (subst console_putchara.simps) (simp add: Let_def)
  then show ?thesis using 1 2 True by (auto intro: same_screen_trans)
qed (rule putchara_plain_ok[OF assms])

lemma console_output_ok:
  assumes "con_wf con"
  shows "\<exists>con'. console_output b d con = Some con' \<and> con_wf con' \<and> same_screen con con'"
  using assms
proof (induction d arbitrary: con)
  case (Cons c d)
  obtain con1 where 1: "console_putchar b c con = Some con1" "con_wf con1" "same_screen con con1"
    using console_putchara_ok[OF Cons.prems, of b c "console_attr con"] by (auto simp: console_putchar_def)
  obtain con2 where "console_output b d con1 = Some con2" "con_wf con2" "same_screen con1 con2" using Cons.IH[OF 1(2)] by blast
  then show ?case using 1 by (auto intro: same_screen_trans)
qed simp

definition on_screen :: "'s console \<Rightarrow> 's console option \<Rightarrow> bool" where
  "on_screen con0 r \<longleftrightarrow> (case r of None \<Rightarrow> False | Some con \<Rightarrow> con_wf con \<and> same_screen con0 con)"

lemma console_out_on_screen:
  assumes "on_screen con0 r"
  shows "on_screen con0 (console_out b r d)"
proof -
  obtain con where c: "r = Some con" "con_wf con" "same_screen con0 con" using assms by (auto simp: on_screen_def split: option.splits)
  obtain con' where "console_output b d con = Some con'" "con_wf con'" "same_screen con con'"
    using console_output_ok[OF c(2), of b d] by blast
  then show ?thesis using c by (auto simp: on_screen_def console_out_def intro: same_screen_trans)
qed

interpretation con: output_callback "console_out b" "on_screen con0" for b con0
  by unfold_locales (rule console_out_on_screen)

text \<open>
  For every format and arguments that provide what it asks for (the value is \<open>None\<close> otherwise), all output of \<open>printk\<close> on a console
  with at least two columns is printed: the console ends in a state with the cursor on the screen, and no cell outside
  the screen has been changed.
\<close>

lemma printk_on_screen:
  assumes "con_wf con" and "vprintk (console_out b) mm ui si pre (Some con) fmt ap = Some r"
  shows "\<exists>con'. r = Some con' \<and> con_wf con' \<and> same_screen con con'"
proof -
  have "on_screen con (Some con)" using assms(1) by (simp add: on_screen_def)
  then have "on_screen con r" using assms(2) unfolding vprintk_def by (rule con.vformat_keeps)
  then show ?thesis by (auto simp: on_screen_def split: option.splits)
qed

section \<open>Text on the screen\<close>

definition printable :: "u8 \<Rightarrow> bool" where
  "printable c \<longleftrightarrow> c \<ge> 0x20"

text \<open>A printable character in front of the last but one column: one cell is written and the cursor moves on.\<close>

lemma putchar_printable:
  assumes "con_wf con" and "printable c" and "cursorx con + 1 < strs_len con - 1"
  shows "\<exists>con'. console_putchar b c con = Some con' \<and> con_wf con' \<and> cursorx con' = cursorx con + 1 \<and> cursory con' = cursory con \<and>
    strs_len con' = strs_len con \<and> strs_count con' = strs_count con \<and> console_attr con' = console_attr con \<and>
    video con' = (video con)(cursory con * strs_len con + cursorx con := ucast c OR push_bit 8 (ucast (console_attr con)))"
proof -
  have c: "c \<noteq> 0x1B" "c \<noteq> 8" "c \<noteq> 9" "c \<noteq> 0xD" "c \<noteq> 0xA" "0x20 \<le> c" using assms(2) by (auto simp: printable_def)
  have w: "2 \<le> strs_len con" "1 \<le> strs_count con" "0 \<le> cursorx con" "0 \<le> cursory con" "cursory con < strs_count con"
    using assms(1) by (auto simp: con_wf_def)
  let ?m = "con\<lparr>video := (video con)(cursory con * strs_len con + cursorx con := ucast c OR push_bit 8 (ucast (console_attr con))),
      cursorx := cursorx con + 1\<rparr>"
  have m: "moved con c (console_attr con) = ?m" using c by (simp add: moved_def)
  have "console_putchar b c con = Some (console_flushc b (console_flushs ?m))"
    using putchara_moved[OF w(1) c(1), of b "console_attr con"] assms(3) unfolding m console_putchar_def by simp
  moreover have "console_flushs ?m = ?m" using w(5) by (simp add: console_flushs_def)
  moreover have "console_attr (console_flushc b ?m) = console_attr con" by (simp add: console_attr_def)
  ultimately show ?thesis using w assms(3) by (simp add: con_wf_def)
qed

text \<open>
  A text of printable characters that fits in the row is printed cell by cell from the cursor on, in the console's colours; the
  cursor ends behind it and the rest of the screen is unchanged.
\<close>

lemma console_output_text:
  assumes "con_wf con" and "\<forall>c \<in> set d. printable c" and "cursorx con + int (length d) < strs_len con - 1"
  shows "\<exists>con'. console_output b d con = Some con' \<and> con_wf con' \<and> cursorx con' = cursorx con + int (length d) \<and>
    cursory con' = cursory con \<and>
    (\<forall>i. let k = i - (cursory con * strs_len con + cursorx con)
         in video con' i = (if 0 \<le> k \<and> k < int (length d) then ucast (d ! nat k) OR push_bit 8 (ucast (console_attr con)) else video con i))"
  using assms
proof (induction d arbitrary: con)
  case (Cons c d)
  obtain con1 where 1: "console_putchar b c con = Some con1" "con_wf con1" "cursorx con1 = cursorx con + 1" "cursory con1 = cursory con"
      "strs_len con1 = strs_len con" "console_attr con1 = console_attr con"
      "video con1 = (video con)(cursory con * strs_len con + cursorx con := ucast c OR push_bit 8 (ucast (console_attr con)))"
    using putchar_printable[OF Cons.prems(1), of c b] Cons.prems(2,3) by auto
  let ?p = "cursory con * strs_len con + cursorx con"
  obtain con2 where 2: "console_output b d con1 = Some con2" "con_wf con2" "cursorx con2 = cursorx con1 + int (length d)"
      "cursory con2 = cursory con1"
      "\<And>i. video con2 i = (if 0 \<le> i - (?p + 1) \<and> i - (?p + 1) < int (length d)
         then ucast (d ! nat (i - (?p + 1))) OR push_bit 8 (ucast (console_attr con)) else video con1 i)"
    using Cons.IH[OF 1(2)] Cons.prems(2,3) 1(3-6) by (auto simp: Let_def algebra_simps)
  have "video con2 i = (if 0 \<le> i - ?p \<and> i - ?p < int (length (c # d))
      then ucast ((c # d) ! nat (i - ?p)) OR push_bit 8 (ucast (console_attr con)) else video con i)" for i
  proof (cases "i = ?p")
    case False
    then have "0 \<le> i - ?p \<Longrightarrow> nat (i - ?p) = Suc (nat (i - (?p + 1)))" by linarith
    then show ?thesis using False 2(5)[of i] 1(7) by auto
  qed (use 2(5)[of i] 1(7) in auto)
  then show ?case using 1 2 by (auto simp: Let_def)
qed (auto simp: Let_def)

definition demo_console :: "(access list \<times> u32 list) console" where
  "demo_console = \<lparr>video = \<lambda>_. 0, strs_count = 25, strs_len = 80, dbcolor = 0, dfcolor = 15, cursorx = 0, cursory = 0, con_hw = ([], [])\<rparr>"

lemma demo_console_wf: "con_wf demo_console"
  by (simp add: con_wf_def demo_console_def)

lemma printk_on_screen_example:
  "\<exists>con'. vprintk (console_out trace_bus) (\<lambda>_ _. 0) 0 0 (CHR ''x'') (Some demo_console) ''hi'' [] = Some (Some con') \<and> con_wf con'"
proof -
  have "plain_text ''hi''" by (simp add: plain_text_def)
  from vformat_loop_plain_end[OF this, of "console_out trace_bus" "\<lambda>_ _. 0" "CHR ''x''" "[]" "Some demo_console" "[]" 0 0]
  have "vprintk (console_out trace_bus) (\<lambda>_ _. 0) 0 0 (CHR ''x'') (Some demo_console) ''hi'' [] =
      Some (console_out trace_bus (Some demo_console) (map of_char ''hi''))" by (simp add: vprintk_def vformat_def)
  with printk_on_screen[OF demo_console_wf this] show ?thesis by auto
qed

lemma console_output_text_example:
  "\<exists>con'. console_output trace_bus [0x68, 0x69] demo_console = Some con' \<and> cursorx con' = 2 \<and> video con' 0 = 0x0F68 \<and>
    video con' 1 = 0x0F69 \<and> video con' 2 = 0"
proof -
  have a: "console_attr demo_console = 0x0F" by (simp add: console_attr_def demo_console_def)
  have p: "\<forall>c \<in> set [0x68, 0x69]. printable c" "cursorx demo_console + int (length [0x68, 0x69 :: u8]) < strs_len demo_console - 1"
    by (simp_all add: printable_def demo_console_def)
  from console_output_text[OF demo_console_wf p, of trace_bus] obtain con' where
    c: "console_output trace_bus [0x68, 0x69] demo_console = Some con'" "cursorx con' = cursorx demo_console + int (length [0x68, 0x69 :: u8])"
      "\<And>i. video con' i = (if 0 \<le> i \<and> i < 2 then ucast ([0x68, 0x69 :: u8] ! nat i) OR push_bit 8 0x0F else 0)"
    unfolding a Let_def by (auto simp: demo_console_def)
  show ?thesis using c(1,2) c(3)[of 0] c(3)[of 1] c(3)[of 2] by (auto simp: demo_console_def)
qed

text \<open>A line feed on the last row moves every row up and blanks the last one.\<close>

lemma newline_scrolls:
  assumes "con_wf con" and "cursory con = strs_count con - 1"
  shows "\<exists>con'. console_putchar b 0x0A con = Some con' \<and> cursorx con' = 0 \<and> cursory con' = cursory con \<and>
    (\<forall>x y. 0 \<le> x \<and> x < strs_len con \<and> 0 \<le> y \<and> y < strs_count con \<longrightarrow>
       video con' (y * strs_len con + x) =
       (if y < strs_count con - 1 then video con ((y + 1) * strs_len con + x) else console_blank con))"
proof -
  have w: "2 \<le> strs_len con" "1 \<le> strs_count con" using assms(1) by (auto simp: con_wf_def)
  let ?m = "con\<lparr>cursorx := 0, cursory := cursory con + 1\<rparr>"
  have "video (console_flushs ?m) (y * strs_len con + x) =
      (if y < strs_count con - 1 then video con ((y + 1) * strs_len con + x) else console_blank con)"
    if "0 \<le> x" "x < strs_len con" "0 \<le> y" "y < strs_count con" for x y
  proof -
    have "(y + 1) * strs_len con \<le> strs_count con * strs_len con" using that w by (intro mult_right_mono) auto
    then have "y * strs_len con + x < strs_count con * strs_len con" using that by (simp add: distrib_right)
    moreover have "y * strs_len con + x < (strs_count con - 1) * strs_len con \<longleftrightarrow> y < strs_count con - 1"
    proof
      assume "y * strs_len con + x < (strs_count con - 1) * strs_len con"
      then have "y * strs_len con < (strs_count con - 1) * strs_len con" using that by linarith
      then show "y < strs_count con - 1" using w by (simp add: mult_less_cancel_right)
    next
      assume "y < strs_count con - 1"
      then have "(y + 1) * strs_len con \<le> (strs_count con - 1) * strs_len con" using w by (intro mult_right_mono) auto
      then show "y * strs_len con + x < (strs_count con - 1) * strs_len con" using that by (simp add: distrib_right)
    qed
    moreover have "console_blank ?m = console_blank con" by (simp add: console_blank_def console_attr_def)
    ultimately show ?thesis using that w assms(2) flushs_video[of ?m "y * strs_len con + x"]
      by (simp add: distrib_right algebra_simps)
  qed
  then show ?thesis using putchara_newline[OF w(1), of b "console_attr con"] assms(2) by (simp add: console_putchar_def)
qed

text \<open>Numbers are printed with the digits of \<open>format_int\<close>; values of \<open>2^31\<close> and more print nothing.\<close>

lemma console_write_int_digits:
  assumes "2 \<le> unat base" and "unat base \<le> 16" and "0 < sint v"
  shows "console_write_int b v base con = console_output b (format_int_digits v base) con"
proof -
  have v: "unat v < 2 ^ 31" "v \<noteq> 0" using assms(3) by (auto simp: sint_pos_iff)
  have "\<not> base < 2" "\<not> 16 < base" using assms(1,2) by (auto simp: word_less_nat_alt)
  moreover have "itoa_loop v base [] = Some (rev (format_int_loop v base []))"
    using itoa_loop_format_int[OF assms(1,2) v(1), of "[]"] by simp
  moreover have "length (format_int_digits v base) \<le> 31"
    using format_int_loop_digits[OF assms(1,2) v(1), of "[]"] v(2) calculation by (auto simp: format_int_digits_def)
  ultimately show ?thesis using v(2) by (simp add: console_write_int_def format_int_digits_def)
qed

lemma console_write_int_large: "2147483648 \<le> unat v \<Longrightarrow> unat base \<le> 16 \<Longrightarrow> console_write_int b v base con = Some con"
proof -
  assume a: "2147483648 \<le> unat v" "unat base \<le> 16"
  then have "\<not> 0 < sint v" "v \<noteq> 0" "\<not> 16 < base" by (auto simp: sint_pos_iff word_less_nat_alt)
  then show ?thesis by (simp add: console_write_int_def itoa_loop.simps)
qed

text \<open>A terminated string in memory is printed like a chunk.\<close>

lemma console_write_cstr: "cstr m buf d \<Longrightarrow> console_write b m buf con = console_output b d con"
proof (induction d arbitrary: buf con)
  case (Cons c d)
  then have "console_write b m (buf + 1) = console_output b d" by auto
  then show ?case using Cons.prems by (subst console_write.simps) simp
qed (simp add: console_write.simps)

text \<open>
  Moving the cursor tests the lower bounds only: behind the last row the next printable character is stored outside the
  screen.
\<close>

lemma movec_leaves_screen:
  "cursory (console_movec trace_bus 0 30 demo_console) = 30"
  "\<exists>con'. console_putchar trace_bus 0x41 (console_movec trace_bus 0 30 demo_console) = Some con' \<and> video con' (30 * 80) \<noteq> video demo_console (30 * 80)"
proof -
  let ?c = "console_movec trace_bus 0 30 demo_console"
  show "cursory ?c = 30" by (simp add: console_movec_def demo_console_def)
  have "2 \<le> strs_len ?c" by (simp add: console_movec_def demo_console_def)
  from putchara_moved[OF this, of "0x41" trace_bus "console_attr ?c"]
  show "\<exists>con'. console_putchar trace_bus 0x41 ?c = Some con' \<and> video con' (30 * 80) \<noteq> video demo_console (30 * 80)"
    by (simp add: console_putchar_def moved_def flushs_video console_movec_def demo_console_def console_attr_def)
qed

end
