(* ===== verification/Interrupts.thy ===== *)
theory Interrupts
  imports Ports Sched Descriptors Heap
begin

text \<open>
  Interrupts: the interrupt controllers \<^verbatim>\<open>arch/x86/pic.c\<close>, the gate table and the dispatch of \<^verbatim>\<open>arch/x86/idt.c\<close>, the programming of the timer
  \<^verbatim>\<open>kernel/pit.c\<close> (its tick is in \<^verbatim>\<open>Sched\<close>) and the dispatch of system calls \<^verbatim>\<open>kernel/syscall.c\<close>.

  Handlers work on a machine state \<open>'k\<close>, which is also the state of the bus. A handler returns the changed registers and
  state; \<open>None\<close> is a panic, a handler that leaves for another task, or an access outside a table. The addresses of the assembly
  stubs are arguments; messages are left out.
\<close>

section \<open>The interrupt controllers\<close>

record pic_config =
  dirty_mask :: bool
  iowait_mode :: bool
  sfn_mode :: bool
  bufmode :: bool
  ps_bufmode :: bool
  auto_eoi :: bool
  mp_mode :: bool
  primary_offset :: u8
  secondary_offset :: u8
  sec_irq_line_num :: u8
  sconn_irq_line :: u8
  pc_mask :: u16

definition PIC_PRIMARY_CMD_PORT :: u16 where "PIC_PRIMARY_CMD_PORT = 0x20"
definition PIC_SECONDARY_CMD_PORT :: u16 where "PIC_SECONDARY_CMD_PORT = 0xA0"
definition PIC_PRIMARY_DATA_PORT :: u16 where "PIC_PRIMARY_DATA_PORT = 0x21"
definition PIC_SECONDARY_DATA_PORT :: u16 where "PIC_SECONDARY_DATA_PORT = 0xA1"

definition pic_iowait :: "'k bus \<Rightarrow> 'k \<Rightarrow> 'k" where "pic_iowait b k = outb b 0x80 0 k"

text \<open>One command followed by the pause the configuration asks for.\<close>

definition pic_command :: "'k bus \<Rightarrow> pic_config \<Rightarrow> u16 \<Rightarrow> u8 \<Rightarrow> 'k \<Rightarrow> 'k" where
  "pic_command b cfg port v k = (let k = outb b port v k in if iowait_mode cfg then pic_iowait b k else k)"

definition pic_mode :: "pic_config \<Rightarrow> u8" where
  "pic_mode cfg = of_bool (mp_mode cfg) OR push_bit 1 (of_bool (auto_eoi cfg)) OR push_bit 2 (of_bool (bufmode cfg))
     OR push_bit 3 (of_bool (ps_bufmode cfg)) OR push_bit 4 (of_bool (sfn_mode cfg))"

definition pic_masks :: "'k bus \<Rightarrow> pic_config \<Rightarrow> 'k \<Rightarrow> u8 \<times> u8 \<times> 'k" where
  "pic_masks b cfg k =
     (if dirty_mask cfg then
        let (v, k) = inb b PIC_PRIMARY_DATA_PORT k; (w, k) = inb b PIC_SECONDARY_DATA_PORT k
        in (v OR ucast (NOT (pc_mask cfg)), w OR ucast (drop_bit 8 (NOT (pc_mask cfg))), k)
      else (NOT (ucast (pc_mask cfg)), NOT (ucast (drop_bit 8 (pc_mask cfg))), k))"

definition pic_init :: "'k bus \<Rightarrow> pic_config \<Rightarrow> 'k \<Rightarrow> pic_config \<times> 'k" where
  "pic_init b cfg k =
     (let (primary_mask, secondary_mask, k) = pic_masks b cfg k;
          k = pic_command b cfg PIC_PRIMARY_CMD_PORT 0x11 k;
          k = pic_command b cfg PIC_SECONDARY_CMD_PORT 0x11 k;
          k = pic_command b cfg PIC_PRIMARY_DATA_PORT (primary_offset cfg) k;
          k = pic_command b cfg PIC_SECONDARY_DATA_PORT (secondary_offset cfg) k;
          k = pic_command b cfg PIC_PRIMARY_DATA_PORT (sconn_irq_line cfg) k;
          k = pic_command b cfg PIC_SECONDARY_DATA_PORT (sec_irq_line_num cfg) k;
          k = pic_command b cfg PIC_PRIMARY_DATA_PORT (pic_mode cfg) k;
          k = pic_command b cfg PIC_SECONDARY_DATA_PORT (pic_mode cfg) k;
          k = pic_command b cfg PIC_PRIMARY_DATA_PORT primary_mask k;
          k = pic_command b cfg PIC_SECONDARY_DATA_PORT secondary_mask k
      in (cfg, k))"

definition pic_eoi :: "'k bus \<Rightarrow> pic_config \<Rightarrow> u32 \<Rightarrow> 'k \<Rightarrow> 'k" where
  "pic_eoi b current_pic_config int_num k =
     (if auto_eoi current_pic_config then k
      else let k = (if int_num \<ge> 40 then outb b 0xA0 0x20 k else k) in outb b 0x20 0x20 k)"

definition default_pic_config :: pic_config where
  "default_pic_config = \<lparr>dirty_mask = False, iowait_mode = True, sfn_mode = False, bufmode = False, ps_bufmode = False, auto_eoi = False,
     mp_mode = True, primary_offset = 0x20, secondary_offset = 0x28, sec_irq_line_num = 0x2, sconn_irq_line = 0x4, pc_mask = 0xFFFF\<rparr>"

section \<open>Gates and handlers\<close>

definition IDT_SIZE :: nat where "IDT_SIZE = 256"
definition INTERRUPTS_COUNT :: nat where "INTERRUPTS_COUNT = 129"

record idt_entry =
  ie_addr_low :: u16
  ie_sel :: u16
  ie_zero :: u8
  ie_flags :: u8
  ie_addr_high :: u16

type_synonym 'k intr_handler_t = "registers \<Rightarrow> 'k \<Rightarrow> (registers \<times> 'k) option"

record 'k interrupts =
  idt_set :: bool
  idt :: "idt_entry list"
  idt_ptr_size :: u16
  idt_ptr_addr :: u32
  intrs :: "'k intr_handler_t option list"
  current_pic_config :: pic_config

definition idt_register_llhandler :: "idt_entry list \<Rightarrow> u8 \<Rightarrow> u8 \<Rightarrow> u8 \<Rightarrow> u32 \<Rightarrow> idt_entry list" where
  "idt_register_llhandler t i type dpl cb =
     (if unat i \<ge> IDT_SIZE then t
      else t[unat i := \<lparr>ie_addr_low = ucast (cb AND 0x0000ffff), ie_sel = 0x8, ie_zero = 0,
                        ie_flags = (type AND 0xF) OR push_bit 5 dpl OR 0x80,
                        ie_addr_high = ucast (drop_bit 16 (cb AND 0xffff0000))\<rparr>])"

definition idt_register_interrupt :: "u32 \<Rightarrow> 'k intr_handler_t \<Rightarrow> 'k interrupts \<Rightarrow> 'k interrupts" where
  "idt_register_interrupt i f it = (if unat i \<ge> INTERRUPTS_COUNT then it else it\<lparr>intrs := (intrs it)[unat i := Some f]\<rparr>)"

text \<open>The handlers of exceptions print a message and stop the kernel.\<close>

definition except_gpf_handler :: "'k intr_handler_t" where "except_gpf_handler r k = None"
definition except_zero_handler :: "'k intr_handler_t" where "except_zero_handler r k = None"
definition except_non_maskable_interrupt :: "'k intr_handler_t" where "except_non_maskable_interrupt r k = None"
definition except_invalid_op :: "'k intr_handler_t" where "except_invalid_op r k = None"

text \<open>
  \<open>idt_handlers.h\<close> registers the stubs 0 to 128 in order. \<open>intr i\<close> is the address of stub \<open>i\<close>, \<open>unreg\<close> that of the empty function for the
  other vectors, \<open>addr\<close> that of the table.
\<close>

definition idt_gates :: "(nat \<Rightarrow> u32) \<Rightarrow> u32 \<Rightarrow> idt_entry list" where
  "idt_gates intr unreg =
     (let t = replicate IDT_SIZE \<lparr>ie_addr_low = 0, ie_sel = 0, ie_zero = 0, ie_flags = 0, ie_addr_high = 0\<rparr>;
          t = for_upto INTERRUPTS_COUNT (\<lambda>i t. idt_register_llhandler t (of_nat i) 0xE 0 (intr i)) t;
          t = for_upto (IDT_SIZE - INTERRUPTS_COUNT) (\<lambda>i t. idt_register_llhandler t (of_nat (INTERRUPTS_COUNT + i)) 0xE 0 unreg) t;
          t = idt_register_llhandler t 0x64 0xE 3 (intr 100);
          t = idt_register_llhandler t 0x80 0xE 3 (intr 128)
      in idt_register_llhandler t 0x30 0xE 3 (intr 48))"

definition idt_init :: "'k bus \<Rightarrow> (nat \<Rightarrow> u32) \<Rightarrow> u32 \<Rightarrow> u32 \<Rightarrow> 'k interrupts \<Rightarrow> 'k \<Rightarrow> 'k interrupts \<times> 'k" where
  "idt_init b intr unreg addr it k =
     (let (cfg, k) = pic_init b default_pic_config k;
          it = it\<lparr>idt_set := True, idt_ptr_size := of_nat (8 * IDT_SIZE) - 1, idt_ptr_addr := addr,
                  idt := idt_gates intr unreg, current_pic_config := cfg\<rparr>;
          it = idt_register_interrupt 13 except_gpf_handler it;
          it = idt_register_interrupt 6 except_invalid_op it;
          it = idt_register_interrupt 0 except_zero_handler it;
          it = idt_register_interrupt 2 except_non_maskable_interrupt it
      in (it, k))"

definition idt_interrupt_handler :: "'k interrupts \<Rightarrow> 'k intr_handler_t" where
  "idt_interrupt_handler it r k =
     (if unat (r_int_num r) \<ge> INTERRUPTS_COUNT then None
      else case intrs it ! unat (r_int_num r) of None \<Rightarrow> Some (r, k) | Some h \<Rightarrow> h r k)"

definition idt_hwinterrupt_handler :: "'k bus \<Rightarrow> 'k interrupts \<Rightarrow> 'k intr_handler_t" where
  "idt_hwinterrupt_handler b it r k = do {
     (r, k) \<leftarrow> idt_interrupt_handler it r k;
     Some (r, pic_eoi b (current_pic_config it) (r_int_num r) k) }"

section \<open>The timer\<close>

definition pit_get_counter :: "'k bus \<Rightarrow> 'k \<Rightarrow> u16 \<times> 'k" where
  "pit_get_counter b k =
     (let k = outb b 0x43 0xC0 k; (lo, k) = inb b 0x40 k; (hi, k) = inb b 0x40 k
      in (ucast lo OR push_bit 8 (ucast hi), k))"

text \<open>The argument \<open>ticker\<close> is \<open>pit_ticker\<close>, the handler of vector 32. The rate \<open>pit_tps\<close> is part of the result; a rate of 0 is a division by zero.\<close>

definition pit_init ::
    "'k bus \<Rightarrow> u32 \<Rightarrow> 'k intr_handler_t \<Rightarrow> 'k interrupts \<Rightarrow> 'k \<Rightarrow> (u32 \<times> 'k interrupts \<times> 'k) option" where
  "pit_init b tps ticker it k =
     (let it = idt_register_interrupt (0x20 + 0x0) ticker it
      in if tps = 0 then None
         else
           let divisor = 1193180 div tps;
               k = outb b 0x43 0x36 k;
               l = ucast (divisor AND 0xFF);
               h = ucast (drop_bit 8 divisor AND 0xFF);
               k = outb b 0x40 l k;
               k = outb b 0x40 h k
           in Some (tps, it, k))"

text \<open>\<open>sleep\<close> spins on the tick counter; \<open>seen i\<close> is the value its \<open>i\<close>-th reading of the counter yields. The result counts the rounds.\<close>

partial_function (option) sleep_loop :: "(nat \<Rightarrow> u32) \<Rightarrow> u32 \<Rightarrow> nat \<Rightarrow> nat option" where
  "sleep_loop seen max_tick i = (if seen i < max_tick then sleep_loop seen max_tick (i + 1) else Some i)"

definition sleep :: "(nat \<Rightarrow> u32) \<Rightarrow> u32 \<Rightarrow> nat option" where
  "sleep seen ms = sleep_loop seen (seen 0 + ms) 1"

text \<open>The buffer is \<open>user\<close>, \<open>sys\<close> and two words that the initialiser clears; there is no return value.\<close>

definition sys_times :: "u32 \<Rightarrow> mem \<Rightarrow> task \<Rightarrow> ptr \<Rightarrow> mem option" where
  "sys_times pit_tps m t buf =
     (if pit_tps = 0 then None
      else
        let m = store32 m buf ((1000000 div pit_tps) * t_running_time t);
            m = store32 m (buf + 4) 0;
            m = store32 m (buf + 8) 0
        in Some (store32 m (buf + 12) 0))"

section \<open>System calls\<close>

datatype syscall = SC_exit | SC_write | SC_fork | SC_execve | SC_thcreate | SC_thkill | SC_read | SC_open | SC_close | SC_ioctl | SC_mmap
  | SC_prctl | SC_sleep | SC_dup3 | SC_getpid | SC_getppid | SC_readentry | SC_seek | SC_isatty | SC_statfd | SC_stat | SC_times
  | SC_sigaction | SC_sigrestore | SC_sigselfsend | SC_chdir | SC_pipe | SC_getcwd | SC_fchdir | SC_waitpid | SC_socket | SC_bind
  | SC_connect | SC_listen | SC_accept | SC_send | SC_recv | SC_poll

text \<open>The table of \<^verbatim>\<open>kernel/syscall_decl.inc\<close>, by position.\<close>

definition syscall_entries :: "syscall option list" where
  "syscall_entries = None # map Some
     [SC_exit, SC_write, SC_fork, SC_execve, SC_thcreate, SC_thkill, SC_fork, SC_read, SC_open, SC_close, SC_ioctl, SC_mmap, SC_prctl,
      SC_sleep, SC_dup3, SC_getpid, SC_getppid, SC_readentry, SC_seek, SC_isatty, SC_statfd, SC_stat, SC_times, SC_sigaction,
      SC_sigrestore, SC_sigselfsend, SC_chdir, SC_pipe, SC_getcwd, SC_fchdir, SC_waitpid, SC_socket, SC_bind, SC_connect,
      SC_listen, SC_accept, SC_send, SC_recv, SC_poll]"

fun resolve_posix_syscall_no :: "u32 \<Rightarrow> syscall option" where
  "resolve_posix_syscall_no no =
     (if no = 0x1 then Some SC_exit else if no = 0x2 then Some SC_fork else if no = 0x4 then Some SC_write
      else if no = 0xB then Some SC_execve else None)"

text \<open>
  The functions are an argument: \<open>call f a k\<close> runs \<open>f\<close> on the five words \<open>a\<close> and yields the result and the changed kernel, or \<open>None\<close> when it does not
  come back. The registers are those the current task points to; a function of the null address is a fault.
\<close>

definition exec_syscall ::
    "(syscall \<Rightarrow> u32 list \<Rightarrow> kernel \<Rightarrow> (u32 \<times> kernel) option) \<Rightarrow> kernel \<Rightarrow> registers \<Rightarrow> syscall option \<Rightarrow> kernel option" where
  "exec_syscall call k r function =
     (let t = current_task k;
          k = upd_task t (\<lambda>x. x\<lparr>t_regs := r\<rparr>) k
      in do {
        f \<leftarrow> function;
        (ret, k) \<leftarrow> call f [r_ebx r, r_ecx r, r_edx r, r_esi r, r_edi r] k;
        Some (upd_task t (\<lambda>x. x\<lparr>t_regs := (t_regs x)\<lparr>r_eax := ret\<rparr>\<rparr>) k) })"

definition posix_syscall_handler ::
    "(syscall \<Rightarrow> u32 list \<Rightarrow> kernel \<Rightarrow> (u32 \<times> kernel) option) \<Rightarrow> kernel \<Rightarrow> registers \<Rightarrow> kernel option" where
  "posix_syscall_handler call k r = exec_syscall call k r (resolve_posix_syscall_no (r_eax r))"

text \<open>
  For a number without a function only the register of the result changes, in the frame the handler was called with; the task's
  own copy is that frame when the task entered the kernel. The second part of the result is the variable \<open>errno\<close>.
\<close>

definition syscall_handler ::
    "(syscall \<Rightarrow> u32 list \<Rightarrow> kernel \<Rightarrow> (u32 \<times> kernel) option) \<Rightarrow> kernel \<Rightarrow> int \<Rightarrow> registers \<Rightarrow> (registers \<times> kernel \<times> int) option" where
  "syscall_handler call k errno r =
     (if unat (r_eax r) \<ge> length syscall_entries \<or> syscall_entries ! unat (r_eax r) = None
      then Some (r\<lparr>r_eax := word_of_int (- ENOSYS)\<rparr>, k, errno)
      else do {
        k' \<leftarrow> exec_syscall call k r (syscall_entries ! unat (r_eax r));
        Some (t_regs (tasks k' (current_task k)), k', 0) })"

text \<open>A copy into the null pointer of an exhausted heap is a fault.\<close>

definition copy_userspace_ptr :: "mem \<Rightarrow> kheap \<Rightarrow> ptr \<Rightarrow> size_t \<Rightarrow> (mem \<times> kheap \<times> ptr) option" where
  "copy_userspace_ptr m h p n = do {
     (m, h, kptr) \<leftarrow> kmalloc m h n;
     if kptr = NULL \<and> n \<noteq> 0 then None else Some (memcpy m kptr p n, h, kptr) }"

section \<open>Gates\<close>

lemma and_mask_bytes:
  fixes d :: u32
  shows "unat (ucast (d AND 0xFF) :: u8) = unat d mod 256" "unat (ucast (drop_bit 8 d AND 0xFF) :: u8) = unat d div 256 mod 256"
proof -
  have m: "w AND 0xFF = take_bit 8 w" for w :: u32 by (simp add: take_bit_eq_mask mask_numeral)
  show "unat (ucast (d AND 0xFF) :: u8) = unat d mod 256" "unat (ucast (drop_bit 8 d AND 0xFF) :: u8) = unat d div 256 mod 256"
    unfolding m using unsigned_less[of d, where ?'a = nat] by (simp_all add: unsigned_ucast_eq unsigned_take_bit_eq unsigned_drop_bit_eq take_bit_nat_def drop_bit_nat_def)
qed

definition gate_target :: "idt_entry \<Rightarrow> u32" where
  "gate_target e = ucast (ie_addr_low e) OR push_bit 16 (ucast (ie_addr_high e))"

definition gate_dpl :: "idt_entry \<Rightarrow> u8" where
  "gate_dpl e = drop_bit 5 (ie_flags e) AND 3"

definition gate_to :: "u32 \<Rightarrow> u8 \<Rightarrow> idt_entry \<Rightarrow> bool" where
  "gate_to cb dpl e \<longleftrightarrow> gate_target e = cb \<and> ie_sel e = 0x8 \<and> gate_dpl e = dpl \<and> bit (ie_flags e) 7 \<and> ie_flags e AND 0xF = 0xE"

lemma length_register [simp]: "length (idt_register_llhandler t i ty dpl cb) = length t"
  by (simp add: idt_register_llhandler_def)

lemma split_target: "ucast (ucast (cb AND 0x0000ffff) :: u16) OR push_bit 16 (ucast (ucast (drop_bit 16 (cb AND 0xffff0000)) :: u16)) = (cb :: u32)"
  (is "?l = _")
proof (rule bit_word_eqI)
  fix n assume n: "n < LENGTH(32)"
  show "bit ?l n = bit cb n"
    unfolding bit_or_iff bit_push_bit_iff bit_unsigned_iff bit_drop_bit_eq bit_and_iff bit_masks
    using n by (cases "n < 16") auto
qed

lemma register_nth:
  assumes "length t = IDT_SIZE" and "dpl = 0 \<or> dpl = 3"
  shows "gate_to cb dpl (idt_register_llhandler t i 0xE dpl cb ! unat i)"
    and "j \<noteq> unat i \<Longrightarrow> idt_register_llhandler t i 0xE dpl cb ! j = t ! j"
proof -
  have i: "unat i < 256" using unsigned_less[of i, where ?'a = nat] by simp
  show "gate_to cb dpl (idt_register_llhandler t i 0xE dpl cb ! unat i)"
    using assms i by (auto simp: idt_register_llhandler_def IDT_SIZE_def gate_to_def gate_target_def gate_dpl_def split_target[simplified] bit_simps)
  show "j \<noteq> unat i \<Longrightarrow> idt_register_llhandler t i 0xE dpl cb ! j = t ! j"
    using assms i by (simp add: idt_register_llhandler_def IDT_SIZE_def)
qed

lemma register_loop:
  assumes "length t = IDT_SIZE" and "s + n \<le> IDT_SIZE"
  shows "let t' = for_upto n (\<lambda>i t. idt_register_llhandler t (of_nat (s + i)) 0xE 0 (f i)) t
    in length t' = IDT_SIZE \<and> (\<forall>j < n. gate_to (f j) 0 (t' ! (s + j))) \<and> (\<forall>j. j < s \<or> s + n \<le> j \<longrightarrow> t' ! j = t ! j)"
  using assms(2)
proof (induction n)
  case (Suc n)
  let ?t = "for_upto n (\<lambda>i t. idt_register_llhandler t (of_nat (s + i)) 0xE 0 (f i)) t"
  have IH: "length ?t = IDT_SIZE" "\<And>j. j < n \<Longrightarrow> gate_to (f j) 0 (?t ! (s + j))" "\<And>j. j < s \<or> s + n \<le> j \<Longrightarrow> ?t ! j = t ! j"
    using Suc by (auto simp: Let_def)
  have u: "unat (of_nat (s + n) :: u8) = s + n" using Suc.prems by (simp add: unat_of_nat IDT_SIZE_def del: of_nat_add)
  note r = register_nth[OF IH(1), where dpl = 0 and i = "of_nat (s + n)" and cb = "f n", unfolded u, simplified]
  have "gate_to (f j) 0 (idt_register_llhandler ?t (of_nat (s + n)) 0xE 0 (f n) ! (s + j))" if "j < Suc n" for j
    using that r IH(2) by (cases "j = n") auto
  moreover have "idt_register_llhandler ?t (of_nat (s + n)) 0xE 0 (f n) ! j = t ! j" if "j < s \<or> s + Suc n \<le> j" for j
    using that r IH(3) by auto
  ultimately show ?case using IH(1) by (simp add: Let_def del: of_nat_add)
qed (use assms(1) in simp)

lemma idt_gates_nth:
  assumes "i < IDT_SIZE"
  shows "gate_to (if i < INTERRUPTS_COUNT then intr i else unreg) (if i \<in> {0x30, 0x64, 0x80} then 3 else 0) (idt_gates intr unreg ! i)"
proof -
  let ?z = "replicate IDT_SIZE \<lparr>ie_addr_low = 0, ie_sel = 0, ie_zero = 0, ie_flags = 0, ie_addr_high = 0\<rparr>"
  define t1 where "t1 = for_upto INTERRUPTS_COUNT (\<lambda>i t. idt_register_llhandler t (of_nat i) 0xE 0 (intr i)) ?z"
  define t2 where "t2 = for_upto (IDT_SIZE - INTERRUPTS_COUNT) (\<lambda>i t. idt_register_llhandler t (of_nat (INTERRUPTS_COUNT + i)) 0xE 0 unreg) t1"
  have 1: "length t1 = IDT_SIZE" "\<And>j. j < INTERRUPTS_COUNT \<Longrightarrow> gate_to (intr j) 0 (t1 ! j)"
    using register_loop[of ?z 0 INTERRUPTS_COUNT intr] by (simp_all add: t1_def Let_def IDT_SIZE_def INTERRUPTS_COUNT_def)
  have 2: "length t2 = IDT_SIZE" "\<And>j. j < IDT_SIZE - INTERRUPTS_COUNT \<Longrightarrow> gate_to unreg 0 (t2 ! (INTERRUPTS_COUNT + j))"
      "\<And>j. j < INTERRUPTS_COUNT \<Longrightarrow> t2 ! j = t1 ! j"
    using register_loop[OF 1(1), of INTERRUPTS_COUNT "IDT_SIZE - INTERRUPTS_COUNT" "\<lambda>_. unreg"]
    by (simp_all add: t2_def Let_def IDT_SIZE_def INTERRUPTS_COUNT_def)
  have 3: "gate_to (if i < INTERRUPTS_COUNT then intr i else unreg) 0 (t2 ! i)"
    using 1(2)[of i] 2(2)[of "i - INTERRUPTS_COUNT"] 2(3)[of i] assms by (auto simp: not_less)
  define t3 where "t3 = idt_register_llhandler t2 0x64 0xE 3 (intr 100)"
  define t4 where "t4 = idt_register_llhandler t3 0x80 0xE 3 (intr 128)"
  have l: "length t3 = IDT_SIZE" "length t4 = IDT_SIZE" by (simp_all add: t3_def t4_def 2(1))
  have e: "idt_gates intr unreg = idt_register_llhandler t4 0x30 0xE 3 (intr 48)"
    by (simp add: idt_gates_def t1_def t2_def t3_def t4_def)
  have "t3 ! i = t2 ! i" if "i \<noteq> 100" using register_nth(2)[OF 2(1), of 3 i "0x64"] that by (simp add: t3_def)
  moreover have "gate_to (intr 100) 3 (t3 ! 100)" using register_nth(1)[OF 2(1), of 3 _ "0x64"] by (simp add: t3_def)
  moreover have "t4 ! i = t3 ! i" if "i \<noteq> 128" using register_nth(2)[OF l(1), of 3 i "0x80"] that by (simp add: t4_def)
  moreover have "gate_to (intr 128) 3 (t4 ! 128)" using register_nth(1)[OF l(1), of 3 _ "0x80"] by (simp add: t4_def)
  moreover have "idt_gates intr unreg ! i = t4 ! i" if "i \<noteq> 48" using register_nth(2)[OF l(2), of 3 i "0x30"] that by (simp add: e)
  moreover have "gate_to (intr 48) 3 (idt_gates intr unreg ! 48)" using register_nth(1)[OF l(2), of 3 _ "0x30"] by (simp add: e)
  moreover note 3
  ultimately show ?thesis by (cases "i = 48"; cases "i = 100"; cases "i = 128") (simp_all add: INTERRUPTS_COUNT_def)
qed

text \<open>
  C32: The gates that \<open>idt_init\<close> leaves behind: every vector has a present interrupt gate in the kernel's code segment that leads to its
  stub, or to the function for unregistered vectors from 129 on, and user programs can raise exactly the vectors of
  \<open>sched_yield\<close> (0x30) and of the two system call interfaces (0x64 and 0x80).
\<close>

theorem idt_init_gates:
  assumes "i < IDT_SIZE"
  shows "let e = idt (fst (idt_init b intr unreg addr it k)) ! i
    in gate_target e = (if i < INTERRUPTS_COUNT then intr i else unreg) \<and> ucast (ie_sel e) = GDT_KERNEL_CODE_SEL \<and>
       bit (ie_flags e) 7 \<and> ie_flags e AND 0xF = 0xE \<and> (gate_dpl e = 3 \<longleftrightarrow> i \<in> {0x30, 0x64, 0x80}) \<and> (gate_dpl e = 0 \<longleftrightarrow> i \<notin> {0x30, 0x64, 0x80})"
proof -
  have "idt (fst (idt_init b intr unreg addr it k)) = idt_gates intr unreg"
    by (simp add: idt_init_def idt_register_interrupt_def Let_def split: prod.splits)
  then show ?thesis
    using idt_gates_nth[OF assms, of intr unreg] by (auto simp: Let_def gate_to_def GDT_KERNEL_CODE_SEL_def split: if_splits)
qed

text \<open>A state before initialisation, without handlers.\<close>

definition interrupts0 :: "'k interrupts" where
  "interrupts0 = \<lparr>idt_set = False, idt = [], idt_ptr_size = 0, idt_ptr_addr = 0, intrs = replicate INTERRUPTS_COUNT None,
     current_pic_config = default_pic_config\<rparr>"

theorem idt_init_gates_witness:
  "gate_target (idt (fst (idt_init trace_bus (\<lambda>i. of_nat i * 16) 7 0 interrupts0 ([], []))) ! 33) = 528 \<and>
   gate_dpl (idt (fst (idt_init trace_bus (\<lambda>i. of_nat i * 16) 7 0 interrupts0 ([], []))) ! 100) = 3"
  using idt_init_gates[of 33 trace_bus "\<lambda>i. of_nat i * 16" 7 0 interrupts0 "([], [])"]
    idt_init_gates[of 100 trace_bus "\<lambda>i. of_nat i * 16" 7 0 interrupts0 "([], [])"]
  by (simp add: Let_def IDT_SIZE_def INTERRUPTS_COUNT_def)

section \<open>Dispatch\<close>

text \<open>
  The handler registered last for a vector is the one that runs, handlers of other vectors stay, and an interrupt of a controller is
  acknowledged afterwards: at the secondary controller for its eight lines, and at the primary one always.
\<close>

lemma hwinterrupt_dispatch:
  assumes "length (intrs it) = INTERRUPTS_COUNT" and "i < INTERRUPTS_COUNT" and "r_int_num r = of_nat i" and "h r k = Some (r', k')"
    and "r_int_num r' = r_int_num r" and "\<not> auto_eoi (current_pic_config it)"
  shows "idt_hwinterrupt_handler b (idt_register_interrupt (of_nat i) h it) r k =
      Some (r', outb b 0x20 0x20 (if 40 \<le> i then outb b 0xA0 0x20 k' else k'))"
    and "j \<noteq> i \<Longrightarrow> intrs (idt_register_interrupt (of_nat i) h it) ! j = intrs it ! j"
proof -
  have u: "unat (of_nat i :: u32) = i" using assms(2) by (simp add: unat_of_nat INTERRUPTS_COUNT_def)
  then have "(of_nat i :: u32) \<ge> 40 \<longleftrightarrow> 40 \<le> i" by (simp add: word_le_nat_alt)
  with assms u show "idt_hwinterrupt_handler b (idt_register_interrupt (of_nat i) h it) r k =
      Some (r', outb b 0x20 0x20 (if 40 \<le> i then outb b 0xA0 0x20 k' else k'))"
    by (simp add: idt_hwinterrupt_handler_def idt_interrupt_handler_def idt_register_interrupt_def pic_eoi_def Let_def)
  show "j \<noteq> i \<Longrightarrow> intrs (idt_register_interrupt (of_nat i) h it) ! j = intrs it ! j"
    using u by (simp add: idt_register_interrupt_def)
qed

text \<open>
  With the default configuration the ports see the initialisation sequence of the two controllers: vectors 32 to 39 and 40 to 47,
  the connection on line 2, 8086 mode, and all lines enabled.
\<close>

lemma pic_init_default:
  "snd (pic_init trace_bus default_pic_config ([], [])) =
     (concat (map (\<lambda>(p, v). [Out 1 p v, Out 1 0x80 0])
        [(0x20, 0x11), (0xA0, 0x11), (0x21, 0x20), (0xA1, 0x28), (0x21, 4), (0xA1, 2), (0x21, 1), (0xA1, 1), (0x21, 0), (0xA1, 0)]), [])"
  by (simp add: pic_init_def pic_masks_def pic_command_def pic_iowait_def pic_mode_def default_pic_config_def port_simps Let_def
      PIC_PRIMARY_CMD_PORT_def PIC_SECONDARY_CMD_PORT_def PIC_PRIMARY_DATA_PORT_def PIC_SECONDARY_DATA_PORT_def)

section \<open>The timer and the clock\<close>

text \<open>The two bytes sent to the timer are the divisor when it has 16 bits; for a rate below 19 the divisor is cut off.\<close>

lemma pit_init_divisor:
  assumes "tps \<noteq> 0"
  shows "\<exists>(l :: u8) (h :: u8). pit_init trace_bus tps f it ([], []) = Some (tps, idt_register_interrupt 0x20 f it,
      [Out 1 0x43 0x36, Out 1 0x40 (ucast l), Out 1 0x40 (ucast h)], []) \<and> unat l + 256 * unat h = 1193180 div unat tps mod 65536"
proof -
  let ?d = "1193180 div tps"
  define l h :: u8 where "l = ucast (?d AND 0xFF)" and "h = ucast (drop_bit 8 ?d AND 0xFF)"
  have ul: "unat l = unat ?d mod 256" unfolding l_def by (rule and_mask_bytes)
  have uh: "unat h = unat ?d div 256 mod 256" unfolding h_def by (rule and_mask_bytes)
  have "unat ?d = 1193180 div unat tps" by (simp add: unat_div)
  moreover have "n mod 256 + 256 * (n div 256 mod 256) = n mod 65536" for n :: nat
    using mod_mult2_eq[of n 256 256] by simp
  ultimately have "unat l + 256 * unat h = 1193180 div unat tps mod 65536"
    by (simp add: ul uh)
  moreover have "pit_init trace_bus tps f it ([], []) = Some (tps, idt_register_interrupt 0x20 f it,
      [Out 1 0x43 0x36, Out 1 0x40 (ucast l), Out 1 0x40 (ucast h)], [])"
    unfolding l_def h_def using assms by (simp add: pit_init_def Let_def port_simps)
  ultimately show ?thesis by blast
qed

text \<open>\<open>sleep\<close> returns at the first reading that has reached the end of the interval; when the end wraps around it does not wait.\<close>

lemma sleep_first:
  assumes "seen 0 + ms \<le> seen n" and "0 < n" and "\<forall>i. 0 < i \<and> i < n \<longrightarrow> seen i < seen 0 + ms"
  shows "sleep seen ms = Some n"
proof -
  have "0 < i \<Longrightarrow> i \<le> n \<Longrightarrow> sleep_loop seen (seen 0 + ms) i = Some n" for i
  proof (induction "n - i" arbitrary: i)
    case 0
    then show ?case using assms(1) by (subst sleep_loop.simps) (auto simp: not_less)
  next
    case (Suc d)
    then show ?case using assms(3) by (subst sleep_loop.simps) auto
  qed
  from this[of 1] assms(2) show ?thesis by (simp add: sleep_def)
qed

lemma sleep_wraps: "seen 0 + ms < seen 0 \<Longrightarrow> seen 0 \<le> seen 1 \<Longrightarrow> sleep seen ms = Some 1"
  by (rule sleep_first) auto

section \<open>System calls\<close>

text \<open>
  A number of the table runs its function on the five argument registers, with the caller's frame as the registers of the task, and the
  result arrives in \<open>eax\<close> of that frame; any other number yields \<open>-ENOSYS\<close> and changes nothing else.
\<close>

lemma syscall_result:
  assumes "unat (r_eax r) < length syscall_entries" and "syscall_entries ! unat (r_eax r) = Some f"
    and "call f [r_ebx r, r_ecx r, r_edx r, r_esi r, r_edi r] (upd_task (current_task k) (\<lambda>x. x\<lparr>t_regs := r\<rparr>) k) = Some (ret, k')"
  shows "\<exists>k''. syscall_handler call k e r = Some ((t_regs (tasks k' (current_task k)))\<lparr>r_eax := ret\<rparr>, k'', 0)"
  using assms by (simp add: syscall_handler_def exec_syscall_def Let_def upd_task_def)

lemma syscall_unknown: "length syscall_entries \<le> unat (r_eax r) \<Longrightarrow> syscall_handler call k e r = Some (r\<lparr>r_eax := 0xFFFFFFFC\<rparr>, k, e)"
  by (simp add: syscall_handler_def ENIMPL_def)

text \<open>The other interface has no such test: a number it does not know is a call of the null address.\<close>

lemma posix_syscall_unknown: "r_eax r \<notin> {1, 2, 4, 11} \<Longrightarrow> posix_syscall_handler call k r = None"
  by (auto simp: posix_syscall_handler_def exec_syscall_def)

end
