(* ===== verification/Bytefile.thy ===== *)
theory Bytefile
  imports Initrd
begin

text \<open>
  Files as the kernel reads them itself: \<open>vfs_read\<close> and \<open>vfs_seek\<close> of \<^verbatim>\<open>include/depthos/fs.h\<close> call the operations of the file. The contract
  \<open>byte_file\<close> says what the program loader and the symbol table rely on: reading delivers the next bytes of a fixed content,
  a seek inside the file sets the position, and no seek changes the content. Files of the initial ram disk fulfil it
  (\<open>ird\<close>), with the bytes passed through a buffer of the kernel.
\<close>

locale byte_file =
  fixes rd :: "'f \<Rightarrow> size_t \<Rightarrow> (u8 list \<times> int \<times> 'f) option"
    and sk :: "'f \<Rightarrow> int \<Rightarrow> int \<Rightarrow> int \<times> 'f"
    and content :: "'f \<Rightarrow> u8 list"
    and fpos :: "'f \<Rightarrow> nat"
    and ok :: "'f \<Rightarrow> bool"
  assumes rd_ok: "ok f \<Longrightarrow> \<exists>f'. rd f n = Some (take (unat n) (drop (fpos f) (content f)), int (length (take (unat n) (drop (fpos f) (content f)))), f') \<and>
      ok f' \<and> content f' = content f \<and> fpos f' = fpos f + length (take (unat n) (drop (fpos f) (content f)))"
    and sk_set: "ok f \<Longrightarrow> p < length (content f) \<Longrightarrow> \<exists>f'. sk f (int p) SEEK_SET = (int p, f') \<and> ok f' \<and> content f' = content f \<and> fpos f' = p"
    and sk_any: "ok f \<Longrightarrow> ok (snd (sk f q w)) \<and> content (snd (sk f q w)) = content f"
    and small: "ok f \<Longrightarrow> length (content f) < 2147483648"
begin

lemma read_at:
  assumes "ok f" and "p < length (content f)"
  shows "\<exists>f'. rd (snd (sk f (int p) SEEK_SET)) n =
      Some (take (unat n) (drop p (content f)), int (length (take (unat n) (drop p (content f)))), f') \<and> ok f' \<and> content f' = content f"
proof -
  obtain f1 where f1: "sk f (int p) SEEK_SET = (int p, f1)" "ok f1" "content f1 = content f" "fpos f1 = p"
    using sk_set[OF assms] by blast
  then show ?thesis using rd_ok[OF f1(2), of n] by auto
qed

end

section \<open>Files of the initial ram disk\<close>

text \<open>Reading through a buffer of the kernel that does not overlap the disk; memory outside the buffer does not change.\<close>

definition initrd_vread :: "initrd \<Rightarrow> ptr \<Rightarrow> mem \<times> fs_node \<Rightarrow> size_t \<Rightarrow> (u8 list \<times> int \<times> mem \<times> fs_node) option" where
  "initrd_vread d buf f n = do {
     (m', file', off, r) \<leftarrow> initrdfs_read d (fst f) (snd f) buf n (n_pos (snd f));
     Some (map (\<lambda>k. m' (buf + of_nat k)) [0..<nat r], r, fst f, file'\<lparr>n_pos := off\<rparr>) }"

definition initrd_vseek :: "initrd \<Rightarrow> mem \<times> fs_node \<Rightarrow> int \<Rightarrow> int \<Rightarrow> int \<times> mem \<times> fs_node" where
  "initrd_vseek d f pos whence = (let (file, r) = initrdfs_seek d (fst f) (snd f) pos whence in (r, fst f, file))"

definition initrd_content :: "initrd \<Rightarrow> mem \<times> fs_node \<Rightarrow> u8 list" where
  "initrd_content d f = file_bytes (fst f) d (n_impl (snd f))"

definition initrd_fpos :: "mem \<times> fs_node \<Rightarrow> nat" where
  "initrd_fpos f = unat (n_pos (snd f))"

definition initrd_ok :: "initrd \<Rightarrow> ptr \<Rightarrow> mem \<times> fs_node \<Rightarrow> bool" where
  "initrd_ok d buf f \<longleftrightarrow> (let l = hdr_length (fst f) d (n_impl (snd f))
     in unat l < 2147483648 \<and> n_pos (snd f) \<le> l \<and> 0 < l \<and>
        regions_disjoint buf (unat l) (initrd_data d + hdr_offset (fst f) d (n_impl (snd f))) (unat l))"

lemma initrd_ok_size: "initrd_ok d buf f \<Longrightarrow> length (initrd_content d f) < 2147483648"
  by (simp add: initrd_ok_def initrd_content_def file_bytes_def Let_def)

lemma initrd_vread_ok:
  assumes "initrd_ok d buf f"
  shows "\<exists>f'. initrd_vread d buf f n = Some (take (unat n) (drop (initrd_fpos f) (initrd_content d f)),
      int (length (take (unat n) (drop (initrd_fpos f) (initrd_content d f)))), f') \<and>
    initrd_ok d buf f' \<and> initrd_content d f' = initrd_content d f \<and>
    initrd_fpos f' = initrd_fpos f + length (take (unat n) (drop (initrd_fpos f) (initrd_content d f)))"
proof -
  obtain m nd where f: "f = (m, nd)" by (cases f)
  let ?l = "hdr_length m d (n_impl nd)" and ?bs = "take (unat n) (drop (unat (n_pos nd)) (file_bytes m d (n_impl nd)))"
  have ok: "unat ?l < 2147483648" "n_pos nd \<le> ?l" "0 < ?l"
      "regions_disjoint buf (unat ?l) (initrd_data d + hdr_offset m d (n_impl nd)) (unat ?l)"
    using assms by (simp_all add: initrd_ok_def f Let_def)
  then have dis: "regions_disjoint buf (min (unat n) (unat ?l)) (initrd_data d + hdr_offset m d (n_impl nd)) (unat ?l)"
    by (auto simp: regions_disjoint_def)
  obtain m' where m': "initrdfs_read d m nd buf n (n_pos nd) =
      Some (m', if ?bs = [] then nd\<lparr>n_eof := True\<rparr> else nd, n_pos nd + of_nat (length ?bs), int (length ?bs))"
      "\<forall>k < length ?bs. m' (buf + of_nat k) = ?bs ! k"
    using initrd_read_content[OF ok(2,1) dis] by (auto simp: Let_def)
  have b: "map (\<lambda>k. m' (buf + of_nat k)) [0..<length ?bs] = ?bs" using m'(2) by (intro nth_equalityI) auto
  have fl: "length (file_bytes m d (n_impl nd)) = unat ?l" by (simp add: file_bytes_def)
  have le: "unat (n_pos nd) + length ?bs \<le> unat ?l" using ok(2) by (simp add: fl word_le_nat_alt)
  then have u: "unat (n_pos nd + of_nat (length ?bs)) = unat (n_pos nd) + length ?bs"
    using ok(1) by (simp add: unat_word_ariths unat_of_nat del: length_take length_drop)
  let ?f = "(if ?bs = [] then nd\<lparr>n_eof := True\<rparr> else nd)\<lparr>n_pos := n_pos nd + of_nat (length ?bs)\<rparr>"
  have "initrd_vread d buf f n = Some (?bs, int (length ?bs), m, ?f)"
    using b by (simp add: initrd_vread_def f m'(1))
  moreover have "n_impl ?f = n_impl nd" "n_pos ?f = n_pos nd + of_nat (length ?bs)" by auto
  moreover from this have "initrd_ok d buf (m, ?f)"
    using ok le u by (simp add: initrd_ok_def Let_def word_le_nat_alt)
  ultimately show ?thesis using u by (auto simp: f initrd_content_def initrd_fpos_def)
qed

lemma generic_seek_cases:
  "fst (generic_file_seek_size nd p lim w) = nd \<or>
     (\<exists>q. fst (generic_file_seek_size nd p lim w) = nd\<lparr>n_pos := word_of_int q\<rparr> \<and> 0 \<le> q \<and> q \<le> sint lim)"
proof -
  have "fst (vfs_setpos nd q l) = nd \<or> (fst (vfs_setpos nd q l) = nd\<lparr>n_pos := word_of_int q\<rparr> \<and> 0 \<le> q \<and> q \<le> l)" for q l
    by (simp add: vfs_setpos_def)
  moreover have "generic_file_seek_size nd p lim w = (nd, sint (n_pos nd)) \<or> (\<exists>q. generic_file_seek_size nd p lim w = vfs_setpos nd q (sint lim))"
    unfolding generic_file_seek_size_def Let_def by (cases "w = SEEK_CUR \<and> p = 0") (simp, simp only: if_False, blast)
  ultimately show ?thesis by (elim disjE exE) (simp, metis)
qed

lemma initrd_vseek_ok:
  assumes "initrd_ok d buf f"
  shows "initrd_ok d buf (snd (initrd_vseek d f p w)) \<and> initrd_content d (snd (initrd_vseek d f p w)) = initrd_content d f"
    and "q < length (initrd_content d f) \<Longrightarrow> \<exists>f'. initrd_vseek d f (int q) SEEK_SET = (int q, f') \<and> initrd_ok d buf f' \<and>
      initrd_content d f' = initrd_content d f \<and> initrd_fpos f' = q"
proof -
  obtain m nd where f: "f = (m, nd)" by (cases f)
  let ?l = "hdr_length m d (n_impl nd)"
  have ok: "unat ?l < 2147483648" "0 < ?l" using assms by (simp_all add: initrd_ok_def f Let_def)
  have "unat (?l - 1) = unat ?l - 1" using ok(2) by (intro unat_minus_one) (auto simp: word_neq_0_conv)
  then have l: "sint (?l - 1) = int (unat ?l) - 1"
    using ok sint_u32[of "?l - 1"] by (auto simp: word_less_nat_alt of_nat_diff)
  have moved: "initrd_ok d buf (m, nd\<lparr>n_pos := word_of_int q\<rparr>) \<and> initrd_content d (m, nd\<lparr>n_pos := word_of_int q\<rparr>) = initrd_content d f \<and>
      initrd_fpos (m, nd\<lparr>n_pos := word_of_int q\<rparr>) = nat q" if "0 \<le> q" "q \<le> int (unat ?l) - 1" for q
  proof -
    have "(word_of_int q :: u32) = of_nat (nat q)" using that(1) by simp
    moreover have "nat q < 4294967296" using that ok(1) by linarith
    ultimately have "unat (word_of_int q :: u32) = nat q" using of_nat_unat_u32[of "nat q"] by metis
    moreover have "nat q \<le> unat ?l" using that by linarith
    ultimately show ?thesis using assms by (auto simp: initrd_ok_def initrd_content_def initrd_fpos_def f Let_def word_le_nat_alt)
  qed
  show "initrd_ok d buf (snd (initrd_vseek d f p w)) \<and> initrd_content d (snd (initrd_vseek d f p w)) = initrd_content d f"
  proof -
    have e: "snd (initrd_vseek d f p w) = (m, fst (generic_file_seek_size nd p (?l - 1) w))"
      by (simp add: initrd_vseek_def initrdfs_seek_def f split: prod.splits)
    show ?thesis using generic_seek_cases[of nd p "?l - 1" w] moved assms unfolding e[unfolded f] l f by metis
  qed
  show "\<exists>f'. initrd_vseek d f (int q) SEEK_SET = (int q, f') \<and> initrd_ok d buf f' \<and> initrd_content d f' = initrd_content d f \<and>
      initrd_fpos f' = q" if "q < length (initrd_content d f)"
  proof -
    have "q < unat ?l" using that by (simp add: initrd_content_def file_bytes_def f)
    then have q: "int q \<le> int (unat ?l) - 1" by linarith
    then have "initrd_vseek d f (int q) SEEK_SET = (int q, m, nd\<lparr>n_pos := word_of_int (int q)\<rparr>)"
      unfolding initrd_vseek_def initrdfs_seek_def generic_file_seek_size_def vfs_setpos_def f l fst_conv snd_conv
      by (simp add: SEEK_SET_def SEEK_END_def SEEK_CUR_def)
    then show ?thesis using moved[of "int q"] q by auto
  qed
qed

interpretation ird: byte_file "initrd_vread d buf" "initrd_vseek d" "initrd_content d" initrd_fpos "initrd_ok d buf" for d buf
  by unfold_locales (use initrd_vread_ok initrd_vseek_ok in \<open>auto simp: initrd_ok_size\<close>)

end
