(* ===== verification/Elf.thy ===== *)
theory Elf
  imports Bytefile Paging Signal
begin

text \<open>
  Program loading, \<^verbatim>\<open>kernel/elf.c\<close> with the structures of \<^verbatim>\<open>include/depthos/elf.h\<close>.

  The operations \<open>rd\<close> and \<open>sk\<close> of the file are arguments. What a buffer holds behind the bytes that a read delivered is the argument \<open>raw\<close>.
  The header and the two arrays are local or in blocks of their own and are kept as values; the blocks are allocated and
  released. User memory is a byte memory per page directory; a store to a page without an entry, or at or above
  \<open>VIRT_BASE\<close>, is a fault, as is a negative or short read where the code panics. Messages are left out.
\<close>

section \<open>Structures\<close>

definition le16 :: "(nat \<Rightarrow> u8) \<Rightarrow> nat \<Rightarrow> u16" where
  "le16 g i = ucast (g i) OR push_bit 8 (ucast (g (i + 1)))"

definition le32 :: "(nat \<Rightarrow> u8) \<Rightarrow> nat \<Rightarrow> u32" where
  "le32 g i = ucast (le16 g i) OR push_bit 16 (ucast (le16 g (i + 2)))"

record elf_header_ident =
  ei_magic :: "u8 list"
  ei_x64 :: u8
  ei_big_endian :: u8
  ei_version :: u8
  ei_abi :: u8

record elf_header =
  eh_ident :: elf_header_ident
  eh_type :: u16
  eh_machine :: u16
  eh_version :: u32
  eh_entry :: u32
  eh_pheader_offset :: u32
  eh_sheader_offset :: u32
  eh_flags :: u32
  eh_header_size :: u16
  eh_phentry_size :: u16
  eh_pheader_num :: u16
  eh_shentry_size :: u16
  eh_sheader_num :: u16
  eh_shstrndx :: u16

definition elf_header_size :: u32 where "elf_header_size = 52"

definition read_header :: "(nat \<Rightarrow> u8) \<Rightarrow> elf_header" where
  "read_header g =
     \<lparr>eh_ident = \<lparr>ei_magic = [g 0, g 1, g 2, g 3], ei_x64 = g 4, ei_big_endian = g 5, ei_version = g 6, ei_abi = g 7\<rparr>,
      eh_type = le16 g 16, eh_machine = le16 g 18, eh_version = le32 g 20, eh_entry = le32 g 24, eh_pheader_offset = le32 g 28,
      eh_sheader_offset = le32 g 32, eh_flags = le32 g 36, eh_header_size = le16 g 40, eh_phentry_size = le16 g 42,
      eh_pheader_num = le16 g 44, eh_shentry_size = le16 g 46, eh_sheader_num = le16 g 48, eh_shstrndx = le16 g 50\<rparr>"

record elf_section_header =
  sh_name :: u32
  sh_type :: u32
  sh_flags :: u32
  sh_addr :: u32
  sh_offset :: u32
  sh_size :: u32
  sh_link :: u32
  sh_info :: u32
  sh_addralign :: u32
  sh_entsize :: u32

record elf_program_header =
  ph_type :: u32
  ph_offset :: u32
  ph_vaddr :: u32
  ph_paddr :: u32
  ph_filesz :: u32
  ph_memsz :: u32
  ph_flags :: u32
  ph_align :: u32

text \<open>Array elements have the size of the structures, 40 and 32 bytes, whatever entry size the header states.\<close>

definition section_at :: "(nat \<Rightarrow> u8) \<Rightarrow> nat \<Rightarrow> elf_section_header" where
  "section_at g i =
     (let w = \<lambda>j. le32 g (40 * i + 4 * j)
      in \<lparr>sh_name = w 0, sh_type = w 1, sh_flags = w 2, sh_addr = w 3, sh_offset = w 4, sh_size = w 5, sh_link = w 6, sh_info = w 7,
          sh_addralign = w 8, sh_entsize = w 9\<rparr>)"

definition segment_at :: "(nat \<Rightarrow> u8) \<Rightarrow> nat \<Rightarrow> elf_program_header" where
  "segment_at g i =
     (let w = \<lambda>j. le32 g (32 * i + 4 * j)
      in \<lparr>ph_type = w 0, ph_offset = w 1, ph_vaddr = w 2, ph_paddr = w 3, ph_filesz = w 4, ph_memsz = w 5, ph_flags = w 6, ph_align = w 7\<rparr>)"

definition ELF_PHEADER_LOAD :: u32 where "ELF_PHEADER_LOAD = 1"

record 'f elf_state =
  el_pg :: pgstate
  el_umem :: "ptr \<Rightarrow> mem"
  el_active :: ptr
  el_file :: 'f

section \<open>Probing\<close>

definition filled :: "(nat \<Rightarrow> u8) \<Rightarrow> u8 list \<Rightarrow> nat \<Rightarrow> u8" where
  "filled raw bs i = (if i < length bs then bs ! i else raw i)"

text \<open>
  \<open>magic\<close> has four bytes; after a complete read the terminator is stored in the byte behind it, where \<open>strcmp\<close> finds it. A negative
  result of the read is an index in front of the array.
\<close>

definition elf_probef ::
    "('f \<Rightarrow> size_t \<Rightarrow> (u8 list \<times> int \<times> 'f) option) \<Rightarrow> ('f \<Rightarrow> int \<Rightarrow> int \<Rightarrow> int \<times> 'f) \<Rightarrow> (nat \<Rightarrow> u8) \<Rightarrow> 'f \<Rightarrow> (bool \<times> 'f) option" where
  "elf_probef rd sk raw f = do {
     (bs, b, f) \<leftarrow> rd (snd (sk f 0 SEEK_SET)) 4;
     if b < 0 then None
     else let magic = (filled raw bs)(nat b := 0)
          in Some (magic 0 = 0x7f \<and> magic 1 = 0x45 \<and> magic 2 = 0x4C \<and> magic 3 = 0x46 \<and> magic 4 = 0, f) }"

text \<open>Opening is an argument; the second part of the result is \<open>errno\<close>.\<close>

definition elf_probe ::
    "('f \<Rightarrow> size_t \<Rightarrow> (u8 list \<times> int \<times> 'f) option) \<Rightarrow> ('f \<Rightarrow> int \<Rightarrow> int \<Rightarrow> int \<times> 'f) \<Rightarrow> (nat \<Rightarrow> u8) \<Rightarrow> (string \<Rightarrow> 'f option) \<Rightarrow>
     string \<Rightarrow> int \<Rightarrow> (bool \<times> int) option" where
  "elf_probe rd sk raw opn path errno =
     (case opn path of
        None \<Rightarrow> Some (False, ENOENT)
      | Some f \<Rightarrow> map_option (\<lambda>(r, _). (r, errno)) (elf_probef rd sk raw f))"

section \<open>Loading\<close>

definition user_mapped :: "'f elf_state \<Rightarrow> u32 \<Rightarrow> nat \<Rightarrow> bool" where
  "user_mapped st a n \<longleftrightarrow>
     (\<forall>k < n. unat (a + of_nat k) < 3221225472 \<and> page_entry (pg_mem (el_pg st)) (el_active st) (a + of_nat k) \<noteq> 0)"

definition user_store :: "u32 \<Rightarrow> u8 list \<Rightarrow> 'f elf_state \<Rightarrow> 'f elf_state option" where
  "user_store a bs st =
     (if user_mapped st a (length bs)
      then Some (st\<lparr>el_umem := (el_umem st)(el_active st := put_bytes (el_umem st (el_active st)) a bs)\<rparr>) else None)"

definition map_segment :: "ptr \<Rightarrow> u32 \<Rightarrow> u32 \<Rightarrow> pgstate \<Rightarrow> pgstate option" where
  "map_segment pgd vaddr memsz pg =
     for_opt (unat (PG_RND_UP memsz div PAGE_SIZE)) (\<lambda>i pg. map_option fst (map_addr pg pgd (vaddr + of_nat i * PAGE_SIZE) 1 1 0)) pg"

definition elf_load_segment ::
    "('f \<Rightarrow> size_t \<Rightarrow> (u8 list \<times> int \<times> 'f) option) \<Rightarrow> ('f \<Rightarrow> int \<Rightarrow> int \<Rightarrow> int \<times> 'f) \<Rightarrow> task \<Rightarrow> elf_program_header \<Rightarrow>
     'f elf_state \<Rightarrow> 'f elf_state option" where
  "elf_load_segment rd sk tsk segment st =
     (if ph_type segment \<noteq> ELF_PHEADER_LOAD then Some st
      else if ph_vaddr segment + ph_memsz segment \<ge> VIRT_BASE then Some st
      else
        let f = snd (sk (el_file st) (sint (ph_offset segment)) SEEK_SET);
            addr = ph_vaddr segment
        in do {
          pg \<leftarrow> map_segment (tk_pgd tsk) (ph_vaddr segment) (ph_memsz segment) (el_pg st);
          (bs, b, f) \<leftarrow> rd f (ph_filesz segment);
          st \<leftarrow> user_store addr bs (st\<lparr>el_pg := pg, el_file := f\<rparr>);
          if word_of_int b \<noteq> ph_filesz segment then None
          else if ph_memsz segment > ph_filesz segment
          then user_store (addr + ph_filesz segment) (replicate (unat (ph_memsz segment - ph_filesz segment)) 0) st
          else Some st })"

text \<open>The loop over the sections only prints; it moves the position of the file.\<close>

definition walk_sections ::
    "('f \<Rightarrow> size_t \<Rightarrow> (u8 list \<times> int \<times> 'f) option) \<Rightarrow> ('f \<Rightarrow> int \<Rightarrow> int \<Rightarrow> int \<times> 'f) \<Rightarrow> (nat \<Rightarrow> u8) \<Rightarrow> elf_header \<Rightarrow> 'f \<Rightarrow> 'f option" where
  "walk_sections rd sk sections header f =
     for_opt (unat (eh_sheader_num header))
       (\<lambda>i f. do {
          (_, _, f) \<leftarrow> rd (snd (sk f (sint (sh_offset (section_at sections (unat (eh_shstrndx header))) + sh_name (section_at sections i))) SEEK_SET)) 50;
          Some f }) f"

definition elf_alloc :: "u32 \<Rightarrow> 'f elf_state \<Rightarrow> ('f elf_state \<times> ptr) option" where
  "elf_alloc n st = do {
     (pg, p) \<leftarrow> st_kmalloc (el_pg st) n;
     if p = NULL \<and> n \<noteq> 0 then None else Some (st\<lparr>el_pg := pg\<rparr>, p) }"

text \<open>A file that is not an ELF file leaves everything but its position unchanged.\<close>

definition elf_loadf ::
    "('f \<Rightarrow> size_t \<Rightarrow> (u8 list \<times> int \<times> 'f) option) \<Rightarrow> ('f \<Rightarrow> int \<Rightarrow> int \<Rightarrow> int \<times> 'f) \<Rightarrow> (nat \<Rightarrow> u8) \<Rightarrow> ptr \<Rightarrow> string \<Rightarrow>
     task \<Rightarrow> 'f elf_state \<Rightarrow> (task \<times> 'f elf_state) option" where
  "elf_loadf rd sk raw kpgd path tsk st = do {
     (good, f) \<leftarrow> elf_probef rd sk raw (el_file st);
     if \<not> good then Some (tsk, st\<lparr>el_file := f\<rparr>)
     else do {
       (bs, _, f) \<leftarrow> rd (snd (sk f 0 SEEK_SET)) elf_header_size;
       let header = read_header (filled raw bs);
       let segsize = ucast (eh_phentry_size header) * ucast (eh_pheader_num header);
       let secsize = ucast (eh_shentry_size header) * ucast (eh_sheader_num header);
       let f = snd (sk f (sint (eh_pheader_offset header)) SEEK_SET);
       (st, segp) \<leftarrow> elf_alloc segsize st;
       (bs, _, f) \<leftarrow> rd f segsize;
       let segments = filled raw bs;
       let f = snd (sk f (sint (eh_sheader_offset header)) SEEK_SET);
       (st, secp) \<leftarrow> elf_alloc secsize st;
       (bs, _, f) \<leftarrow> rd f secsize;
       let sections = filled raw bs;
       f \<leftarrow> walk_sections rd sk sections header f;
       let st = (if tk_pgd tsk \<noteq> NULL then st\<lparr>el_active := kpgd, el_pg := st_kfree (el_pg st) (tk_pgd tsk) 4096\<rparr> else st);
       (pg, new_pgd) \<leftarrow> create_pgd (el_pg st) kpgd;
       let tsk = tsk\<lparr>tk_pgd := new_pgd\<rparr>;
       let pgd = el_active st;
       let (tmp, f) = sk f 0 SEEK_CUR;
       let (max_pos, f) = sk f 0 SEEK_END;
       let f = snd (sk f tmp SEEK_SET);
       st \<leftarrow> for_opt (unat (eh_pheader_num header)) (\<lambda>i st. elf_load_segment rd sk tsk (segment_at segments i) st)
              (st\<lparr>el_pg := pg, el_active := new_pgd, el_file := f\<rparr>);
       let pg = st_kfree (st_kfree (el_pg st) segp segsize) secp secsize;
       Some (tsk\<lparr>t_entry := eh_entry header, t_name := path\<rparr>, st\<lparr>el_active := pgd, el_pg := pg\<rparr>) } }"

text \<open>A file that cannot be opened is a null pointer, which \<open>elf_probef\<close> reads through.\<close>

definition elf_load ::
    "('f \<Rightarrow> size_t \<Rightarrow> (u8 list \<times> int \<times> 'f) option) \<Rightarrow> ('f \<Rightarrow> int \<Rightarrow> int \<Rightarrow> int \<times> 'f) \<Rightarrow> (nat \<Rightarrow> u8) \<Rightarrow> ptr \<Rightarrow> (string \<Rightarrow> 'f option) \<Rightarrow>
     task \<Rightarrow> string \<Rightarrow> 'f elf_state \<Rightarrow> (task \<times> 'f elf_state) option" where
  "elf_load rd sk raw kpgd opn tsk path st = do {
     f \<leftarrow> opn path;
     elf_loadf rd sk raw kpgd path tsk (st\<lparr>el_file := f\<rparr>) }"

section \<open>Stores\<close>

lemma user_store_ok:
  assumes "user_mapped st a (length bs)" and "length bs \<le> 4294967296" and "el_active st = pgd" and "el_umem st = um"
  shows "\<exists>st'. user_store a bs st = Some st' \<and> el_pg st' = el_pg st \<and> el_active st' = pgd \<and> el_file st' = el_file st \<and>
    (\<forall>p x. el_umem st' p x = (if p = pgd \<and> unat (x - a) < length bs then bs ! unat (x - a) else um p x))"
  using assms by (auto simp: user_store_def put_bytes_apply)

text \<open>An address is in the tail of a range exactly when its distance from the start is between the two sizes.\<close>

lemma tail_range:
  fixes x v n :: u32
  assumes "unat n \<le> k" and "k \<le> 4294967296"
  shows "unat (x - (v + n)) < k - unat n \<longleftrightarrow> unat n \<le> unat (x - v) \<and> unat (x - v) < k"
proof -
  have e: "x - (v + n) = (x - v) - n" by simp
  show ?thesis unfolding e using unat_u32_bound[of "x - v"] unat_u32_bound[of n] assms by (auto simp: unat_sub_if')
qed

section \<open>Mapping of a segment\<close>

lemma map_one:
  assumes inv: "pgd_inv pg fls pgd" and w: "unat w < 3221225472" and m: "map_addr pg pgd w 1 user 0 = Some (pg', ph)"
  shows "\<exists>fls'. pgd_inv pg' fls' pgd"
    and "unat x < 3221225472 \<Longrightarrow> page_entry (pg_mem pg') pgd x \<noteq> 0 \<longleftrightarrow> page_entry (pg_mem pg) pgd x \<noteq> 0 \<or> unat w div 4096 = unat x div 4096"
proof -
  let ?v = "PG_RND_DOWN w"
  obtain ph p where al: "pmm_alloc (pg_pmm pg) 1 = (ph, p)" by fastforce
  have v: "unat ?v = unat w div 4096 * 4096" by (rule PG_RND_DOWN_page)
  then have d: "PG_RND_DOWN ?v = ?v" by (intro PG_RND_DOWN_aligned) simp
  have l: "map_addr_loop 1 0 (pg\<lparr>pg_pmm := p\<rparr>) pgd ?v ph user 0 = Some pg'"
    using m unfolding map_addr_def map_addr_fixed_def Let_def al prod.case d
    by (auto simp: bind_eq_Some_conv simp del: map_addr_loop.simps)
  have i: "pgd_inv (pg\<lparr>pg_pmm := p\<rparr>) fls pgd" using inv by (simp add: pgd_inv_def)
  have "unat (?v + 0 * PAGE_SIZE) + 1 * 4096 \<le> 3221225472" using v w by simp
  note r = map_addr_loop_refines[OF i this l]
  show "\<exists>fls'. pgd_inv pg' fls' pgd" using r by simp
  have "in_pages ?v 1 x \<longleftrightarrow> unat w div 4096 = unat x div 4096" for x by (auto simp: in_pages_def v)
  then show "unat x < 3221225472 \<Longrightarrow> page_entry (pg_mem pg') pgd x \<noteq> 0 \<longleftrightarrow> page_entry (pg_mem pg) pgd x \<noteq> 0 \<or> unat w div 4096 = unat x div 4096"
    using r by (auto simp: map_range_def make_pte_nonzero)
qed

lemma map_pages:
  assumes "pgd_inv pg fls pgd" and "unat v + n * 4096 \<le> 3221225472"
    and "for_opt n (\<lambda>i pg. map_option fst (map_addr pg pgd (v + of_nat i * PAGE_SIZE) 1 1 0)) pg = Some pg'"
  shows "(\<exists>fls'. pgd_inv pg' fls' pgd) \<and>
    (\<forall>x. unat x < 3221225472 \<longrightarrow> (page_entry (pg_mem pg') pgd x \<noteq> 0 \<longleftrightarrow>
       page_entry (pg_mem pg) pgd x \<noteq> 0 \<or> unat v div 4096 \<le> unat x div 4096 \<and> unat x div 4096 < unat v div 4096 + n))"
  using assms(2,3)
proof (induction n arbitrary: pg')
  case 0
  then show ?case using assms(1) by auto
next
  case (Suc n)
  let ?w = "v + of_nat n * PAGE_SIZE"
  obtain pg1 ph where 1: "for_opt n (\<lambda>i pg. map_option fst (map_addr pg pgd (v + of_nat i * PAGE_SIZE) 1 1 0)) pg = Some pg1"
      "map_addr pg1 pgd ?w 1 1 0 = Some (pg', ph)"
    using Suc.prems(2) by (auto simp: bind_eq_Some_conv)
  from Suc.IH[OF _ 1(1)] Suc.prems(1) obtain fls1 where IH: "pgd_inv pg1 fls1 pgd"
    "\<And>x. unat x < 3221225472 \<Longrightarrow> page_entry (pg_mem pg1) pgd x \<noteq> 0 \<longleftrightarrow>
       page_entry (pg_mem pg) pgd x \<noteq> 0 \<or> unat v div 4096 \<le> unat x div 4096 \<and> unat x div 4096 < unat v div 4096 + n" by auto
  have "unat (of_nat n * PAGE_SIZE) = n * 4096" using Suc.prems(1) by (simp add: PAGE_SIZE_def unat_word_ariths of_nat_unat_u32)
  then have w: "unat ?w = unat v + n * 4096" using Suc.prems(1) by (simp add: unat_word_ariths)
  then have "unat ?w < 3221225472" using Suc.prems(1) by simp
  from map_one[OF IH(1) this 1(2)] IH(2) w show ?case by (auto simp: less_Suc_eq)
qed

section \<open>Loading a segment\<close>

text \<open>A segment inside the file and below the kernel, that starts at a page boundary.\<close>

definition valid_segment :: "u8 list \<Rightarrow> elf_program_header \<Rightarrow> bool" where
  "valid_segment bs seg \<longleftrightarrow> unat (ph_vaddr seg) + unat (ph_memsz seg) < 3221225472 \<and> ph_filesz seg \<le> ph_memsz seg \<and>
     unat (ph_offset seg) < length bs \<and> unat (ph_offset seg) + unat (ph_filesz seg) \<le> length bs \<and> 4096 dvd unat (ph_vaddr seg)"

text \<open>What the segment puts at an address of its range.\<close>

definition segment_byte :: "u8 list \<Rightarrow> elf_program_header \<Rightarrow> u32 \<Rightarrow> u8" where
  "segment_byte bs seg x =
     (let k = unat (x - ph_vaddr seg) in if k < unat (ph_filesz seg) then bs ! (unat (ph_offset seg) + k) else 0)"

lemma segment_mapped:
  assumes "valid_segment bs seg" and "pgd_inv pg fls pgd" and "map_segment pgd (ph_vaddr seg) (ph_memsz seg) pg = Some pg'"
  shows "(\<exists>fls'. pgd_inv pg' fls' pgd)"
    and "k < unat (ph_memsz seg) \<Longrightarrow> unat (ph_vaddr seg + of_nat k) < 3221225472 \<and> page_entry (pg_mem pg') pgd (ph_vaddr seg + of_nat k) \<noteq> 0"
proof -
  let ?v = "ph_vaddr seg" and ?n = "(unat (ph_memsz seg) + 4095) div 4096"
  have b: "unat ?v + unat (ph_memsz seg) < 3221225472" "4096 dvd unat ?v" using assms(1) by (auto simp: valid_segment_def)
  have "unat (PG_RND_UP (ph_memsz seg) div PAGE_SIZE) = ?n"
    using PG_RND_UP_nat[of "ph_memsz seg"] b(1) by (simp add: unat_div PAGE_SIZE_def)
  then have m: "for_opt ?n (\<lambda>i pg. map_option fst (map_addr pg pgd (?v + of_nat i * PAGE_SIZE) 1 1 0)) pg = Some pg'"
    using assms(3) by (simp add: map_segment_def)
  obtain a where a: "unat ?v = 4096 * a" using b(2) by (auto simp: dvd_def)
  have "(4096 * a + (unat (ph_memsz seg) + 4095)) div 4096 = a + ?n" by simp
  moreover have "(4096 * a + (unat (ph_memsz seg) + 4095)) div 4096 < 786433" using b(1) unfolding a by (intro less_mult_imp_div_less) simp
  ultimately have "unat ?v + ?n * 4096 \<le> 3221225472" unfolding a by simp
  note mp = map_pages[OF assms(2) this m]
  show "\<exists>fls'. pgd_inv pg' fls' pgd" using mp by simp
  show "unat (?v + of_nat k) < 3221225472 \<and> page_entry (pg_mem pg') pgd (?v + of_nat k) \<noteq> 0" if k: "k < unat (ph_memsz seg)"
  proof -
    have u: "unat (?v + of_nat k) = unat ?v + k" using k b(1) by (simp add: unat_word_ariths of_nat_unat_u32)
    have "(4096 * a + k) div 4096 = a + k div 4096" by simp
    moreover have "k div 4096 < ?n" using div_le_mono[of "k + 4096" "unat (ph_memsz seg) + 4095" 4096] k by simp
    ultimately have "(4096 * a + k) div 4096 < a + ?n" by simp
    then show ?thesis using mp u k b(1) by (auto simp: a)
  qed
qed

context byte_file begin

lemma load_segment:
  assumes o: "ok (el_file st)" and t: "ph_type seg = ELF_PHEADER_LOAD" and v: "valid_segment (content (el_file st)) seg"
    and inv: "pgd_inv (el_pg st) fls (tk_pgd tsk)" and act: "el_active st = tk_pgd tsk"
    and m: "map_segment (tk_pgd tsk) (ph_vaddr seg) (ph_memsz seg) (el_pg st) = Some pg"
  shows "\<exists>st'. elf_load_segment rd sk tsk seg st = Some st' \<and> el_pg st' = pg \<and> el_active st' = el_active st \<and>
    ok (el_file st') \<and> content (el_file st') = content (el_file st) \<and>
    (\<forall>p x. el_umem st' p x = (if p = tk_pgd tsk \<and> unat (x - ph_vaddr seg) < unat (ph_memsz seg)
       then segment_byte (content (el_file st)) seg x else el_umem st p x))"
proof -
  let ?c = "content (el_file st)" and ?v = "ph_vaddr seg"
  have b: "unat ?v + unat (ph_memsz seg) < 3221225472" "unat (ph_filesz seg) \<le> unat (ph_memsz seg)" "unat (ph_offset seg) < length ?c"
      "unat (ph_offset seg) + unat (ph_filesz seg) \<le> length ?c"
    using v by (auto simp: valid_segment_def word_le_nat_alt)
  have so: "sint (ph_offset seg) = int (unat (ph_offset seg))" using b(3) small[OF o] by (simp add: sint_u32)
  define bs where "bs = take (unat (ph_filesz seg)) (drop (unat (ph_offset seg)) ?c)"
  have lb: "length bs = unat (ph_filesz seg)" using b(4) by (simp add: bs_def)
  obtain f where f: "rd (snd (sk (el_file st) (sint (ph_offset seg)) SEEK_SET)) (ph_filesz seg) = Some (bs, int (length bs), f)" "ok f" "content f = ?c"
    using read_at[OF o b(3), of "ph_filesz seg"] unfolding so bs_def by auto
  have low: "\<not> VIRT_BASE \<le> ?v + ph_memsz seg" using b(1) by (simp add: word_le_nat_alt VIRT_BASE_def unat_word_ariths)
  let ?st = "st\<lparr>el_pg := pg, el_file := f\<rparr>"
  note sm = segment_mapped(2)[OF v inv m]
  have um: "user_mapped s a n" if "el_pg s = pg" "el_active s = tk_pgd tsk" "unat (a - ?v) + n \<le> unat (ph_memsz seg)" for a n and s :: "'f elf_state"
  proof -
    have e: "a + of_nat k = ?v + of_nat (unat (a - ?v) + k)" for k by simp
    have "unat (a + of_nat k) < 3221225472 \<and> page_entry (pg_mem pg) (tk_pgd tsk) (a + of_nat k) \<noteq> 0" if "k < n" for k
      unfolding e using that \<open>unat (a - ?v) + n \<le> unat (ph_memsz seg)\<close> by (intro sm) linarith
    then show ?thesis using that(1,2) by (simp add: user_mapped_def)
  qed
  have "user_mapped ?st ?v (length bs)" using act b(2) by (intro um) (simp_all add: lb)
  from user_store_ok[OF this _ refl refl] obtain st1 where s1: "user_store ?v bs ?st = Some st1" "el_pg st1 = pg" "el_active st1 = tk_pgd tsk"
      "el_file st1 = f" "\<And>p x. el_umem st1 p x = (if p = tk_pgd tsk \<and> unat (x - ?v) < length bs then bs ! unat (x - ?v) else el_umem st p x)"
    unfolding lb using less_imp_le[OF unat_u32_bound] act by auto
  have w: "word_of_int (int (length bs)) = ph_filesz seg" by (simp add: lb)
  have byte: "bs ! k = ?c ! (unat (ph_offset seg) + k)" if "k < length bs" for k using that b(4) by (simp add: bs_def)
  show ?thesis
  proof (cases "ph_memsz seg > ph_filesz seg")
    case True
    let ?z = "replicate (unat (ph_memsz seg - ph_filesz seg)) (0 :: u8)" and ?a = "?v + ph_filesz seg"
    have lz: "length ?z = unat (ph_memsz seg) - unat (ph_filesz seg)" using b(2) by (simp add: unat_sub word_le_nat_alt)
    have "user_mapped st1 ?a (length ?z)" using s1 b(2) by (intro um) (simp_all add: lz del: length_replicate)
    from user_store_ok[OF this _ s1(3) refl] obtain st2 where s2: "user_store ?a ?z st1 = Some st2" "el_pg st2 = pg" "el_active st2 = tk_pgd tsk"
        "el_file st2 = f" "\<And>p x. el_umem st2 p x = (if p = tk_pgd tsk \<and> unat (x - ?a) < length ?z then ?z ! unat (x - ?a) else el_umem st1 p x)"
      unfolding length_replicate using less_imp_le[OF unat_u32_bound] s1 by auto
    have "el_umem st2 p x = (if p = tk_pgd tsk \<and> unat (x - ?v) < unat (ph_memsz seg) then segment_byte ?c seg x else el_umem st p x)" for p x
    proof -
      have "unat (x - ?a) < length ?z \<longleftrightarrow> unat (ph_filesz seg) \<le> unat (x - ?v) \<and> unat (x - ?v) < unat (ph_memsz seg)"
        unfolding lz by (rule tail_range) (use b(2) in \<open>simp_all add: less_imp_le[OF unat_u32_bound]\<close>)
      then show ?thesis using byte lb b(2) by (auto simp: s2(5) s1(5) segment_byte_def Let_def lz[simplified])
    qed
    then show ?thesis using t low m f s1 s2 w True act
      by (auto simp: elf_load_segment_def Let_def intro!: exI[of _ st2])
  next
    case False
    then have "unat (ph_memsz seg) = unat (ph_filesz seg)" using b(2) by (simp add: word_less_nat_alt)
    then have "el_umem st1 p x = (if p = tk_pgd tsk \<and> unat (x - ?v) < unat (ph_memsz seg) then segment_byte ?c seg x else el_umem st p x)" for p x
      using byte lb by (auto simp: s1(5) segment_byte_def Let_def)
    then show ?thesis using t low m f s1 w False act
      by (auto simp: elf_load_segment_def Let_def intro!: exI[of _ st1])
  qed
qed

end

context byte_file begin

text \<open>Segments whose ranges do not overlap are all in place after the loop over the program headers.\<close>

lemma load_program:
  assumes "for_opt n (\<lambda>i st. elf_load_segment rd sk tsk (segs i) st) st = Some st'"
    and "ok (el_file st)" and "pgd_inv (el_pg st) fls (tk_pgd tsk)" and "el_active st = tk_pgd tsk"
    and "\<And>i. i < n \<Longrightarrow> ph_type (segs i) = ELF_PHEADER_LOAD \<Longrightarrow> valid_segment (content (el_file st)) (segs i)"
    and "\<And>i j x. i < j \<Longrightarrow> j < n \<Longrightarrow> ph_type (segs i) = ELF_PHEADER_LOAD \<Longrightarrow> ph_type (segs j) = ELF_PHEADER_LOAD \<Longrightarrow>
      unat (x - ph_vaddr (segs i)) < unat (ph_memsz (segs i)) \<Longrightarrow> \<not> unat (x - ph_vaddr (segs j)) < unat (ph_memsz (segs j))"
  shows "ok (el_file st') \<and> content (el_file st') = content (el_file st) \<and> el_active st' = tk_pgd tsk \<and> (\<exists>fls'. pgd_inv (el_pg st') fls' (tk_pgd tsk)) \<and>
    (\<forall>i < n. \<forall>x. ph_type (segs i) = ELF_PHEADER_LOAD \<and> unat (x - ph_vaddr (segs i)) < unat (ph_memsz (segs i)) \<longrightarrow>
      el_umem st' (tk_pgd tsk) x = segment_byte (content (el_file st)) (segs i) x)"
  using assms(1,5,6)
proof (induction n arbitrary: st')
  case 0
  then show ?case using assms(2-4) by auto
next
  case (Suc n)
  obtain st1 where 1: "for_opt n (\<lambda>i st. elf_load_segment rd sk tsk (segs i) st) st = Some st1" "elf_load_segment rd sk tsk (segs n) st1 = Some st'"
    using Suc.prems(1) by (auto simp: bind_eq_Some_conv)
  have IH: "ok (el_file st1)" "content (el_file st1) = content (el_file st)" "el_active st1 = tk_pgd tsk" "\<exists>fls'. pgd_inv (el_pg st1) fls' (tk_pgd tsk)"
      "\<And>i x. i < n \<Longrightarrow> ph_type (segs i) = ELF_PHEADER_LOAD \<Longrightarrow> unat (x - ph_vaddr (segs i)) < unat (ph_memsz (segs i)) \<Longrightarrow>
        el_umem st1 (tk_pgd tsk) x = segment_byte (content (el_file st)) (segs i) x"
    using Suc.IH[OF 1(1)] Suc.prems(2,3) by auto
  show ?case
  proof (cases "ph_type (segs n) = ELF_PHEADER_LOAD")
    case False
    then have "st' = st1" using 1(2) by (simp add: elf_load_segment_def)
    then show ?thesis using IH False by (auto simp: less_Suc_eq)
  next
    case True
    have v: "valid_segment (content (el_file st1)) (segs n)" using Suc.prems(2)[of n] True IH(2) by simp
    then have "\<not> VIRT_BASE \<le> ph_vaddr (segs n) + ph_memsz (segs n)"
      by (simp add: valid_segment_def word_le_nat_alt VIRT_BASE_def unat_word_ariths)
    then obtain pg where m: "map_segment (tk_pgd tsk) (ph_vaddr (segs n)) (ph_memsz (segs n)) (el_pg st1) = Some pg"
      using 1(2) True by (auto simp: elf_load_segment_def Let_def bind_eq_Some_conv)
    obtain fls1 where inv: "pgd_inv (el_pg st1) fls1 (tk_pgd tsk)" using IH(4) by blast
    have l: "el_pg st' = pg" "el_active st' = tk_pgd tsk" "ok (el_file st')" "content (el_file st') = content (el_file st)"
        "\<And>x. el_umem st' (tk_pgd tsk) x = (if unat (x - ph_vaddr (segs n)) < unat (ph_memsz (segs n))
          then segment_byte (content (el_file st)) (segs n) x else el_umem st1 (tk_pgd tsk) x)"
      using load_segment[OF IH(1) True v inv IH(3) m] 1(2) IH(2,3) by auto
    have "el_umem st' (tk_pgd tsk) x = segment_byte (content (el_file st)) (segs i) x"
      if "i < Suc n" "ph_type (segs i) = ELF_PHEADER_LOAD" "unat (x - ph_vaddr (segs i)) < unat (ph_memsz (segs i))" for i x
    proof (cases "i = n")
      case False
      then show ?thesis using that IH(5) l(5) Suc.prems(3)[of i n x] True by simp
    qed (use that l(5) in simp)
    then show ?thesis using l(1-4) segment_mapped(1)[OF v inv m] by auto
  qed
qed

end


definition demo_segment :: elf_program_header where
  "demo_segment = \<lparr>ph_type = 1, ph_offset = 1, ph_vaddr = 0x08000000, ph_paddr = 0, ph_filesz = 2, ph_memsz = 5, ph_flags = 7, ph_align = 4096\<rparr>"

definition demo_elf :: "(mem \<times> fs_node) elf_state" where
  "demo_elf = \<lparr>el_pg = example_table, el_umem = \<lambda>_ _. 0xAA, el_active = HEAP_BASE, el_file = (demo_image, demo_node)\<rparr>"

lemma demo_segment_maps: "\<exists>pg. map_segment HEAP_BASE 0x08000000 5 example_table = Some pg"
proof -
  let ?q = "snd (pmm_alloc example_pmm 1)" and ?p = "fst (pmm_alloc example_pmm 1)"
  have "\<exists>st. map_page (example_table\<lparr>pg_pmm := ?q\<rparr>) HEAP_BASE 0x08000000 ?p 1 = Some st"
    using map_page_existing[of "example_table\<lparr>pg_pmm := ?q\<rparr>" "[[]]" HEAP_BASE "0x08000000" ?p 1] example_table_inv example_table_page
    by (simp add: pgd_inv_def)
  moreover have "pg_pmm example_table = example_pmm" by (simp add: example_table_def)
  moreover have "unat (PG_RND_UP 5 div PAGE_SIZE) = Suc 0" by (simp add: PG_RND_UP_def ROUND_UP_def PAGE_SIZE_def)
  ultimately show ?thesis
    by (elim exE) (simp add: map_segment_def map_addr_def map_addr_fixed_def Let_def PG_RND_DOWN_def ROUND_DOWN_def PAGE_SIZE_def case_prod_beta)
qed


text \<open>
  The number of pages is computed from the size alone. A segment that does not start at a page boundary can reach into one page more;
  unless that page is mapped already, storing the file's bytes faults.
\<close>

lemma elf_unaligned_segment_faults:
  assumes "ph_type seg = ELF_PHEADER_LOAD" and "unat (ph_vaddr seg) + unat (ph_memsz seg) + 4096 \<le> 3221225472"
    and "pgd_inv (el_pg st) fls (tk_pgd tsk)" and "el_active st = tk_pgd tsk"
    and "unat (ph_vaddr seg) div 4096 + (unat (ph_memsz seg) + 4095) div 4096 \<le> (unat (ph_vaddr seg) + k) div 4096"
    and "page_entry (pg_mem (el_pg st)) (tk_pgd tsk) (ph_vaddr seg + of_nat k) = 0" and "k < unat (ph_memsz seg)"
    and "\<And>f bs r f'. rd f (ph_filesz seg) = Some (bs, r, f') \<Longrightarrow> k < length bs"
  shows "elf_load_segment rd sk tsk seg st = None"
proof (rule ccontr)
  let ?n = "(unat (ph_memsz seg) + 4095) div 4096" and ?x = "ph_vaddr seg + of_nat k"
  assume "elf_load_segment rd sk tsk seg st \<noteq> None"
  moreover have "\<not> VIRT_BASE \<le> ph_vaddr seg + ph_memsz seg" using assms(2) by (simp add: word_le_nat_alt VIRT_BASE_def unat_word_ariths)
  ultimately obtain pg bs r f st1 where
    m: "map_segment (tk_pgd tsk) (ph_vaddr seg) (ph_memsz seg) (el_pg st) = Some pg"
    and b: "rd (snd (sk (el_file st) (sint (ph_offset seg)) SEEK_SET)) (ph_filesz seg) = Some (bs, r, f)"
    and u: "user_store (ph_vaddr seg) bs (st\<lparr>el_pg := pg, el_file := f\<rparr>) = Some st1"
    using assms(1) by (auto simp: elf_load_segment_def Let_def bind_eq_Some_conv)
  have "user_mapped (st\<lparr>el_pg := pg, el_file := f\<rparr>) (ph_vaddr seg) (length bs)" using u by (auto simp: user_store_def split: if_splits)
  then have present: "page_entry (pg_mem pg) (tk_pgd tsk) ?x \<noteq> 0" using assms(4) assms(8)[OF b] by (simp add: user_mapped_def)
  have "unat (PG_RND_UP (ph_memsz seg) div PAGE_SIZE) = ?n"
    using PG_RND_UP_nat[of "ph_memsz seg"] assms(2) by (simp add: unat_div PAGE_SIZE_def)
  then have l: "for_opt ?n (\<lambda>i pg. map_option fst (map_addr pg (tk_pgd tsk) (ph_vaddr seg + of_nat i * PAGE_SIZE) 1 1 0)) (el_pg st) = Some pg"
    using m by (simp add: map_segment_def)
  have "unat (ph_vaddr seg) + ?n * 4096 \<le> 3221225472" using assms(2) div_times_less_eq_dividend[of "unat (ph_memsz seg) + 4095" 4096] by linarith
  note mp = map_pages[OF assms(3) this l]
  have ux: "unat ?x = unat (ph_vaddr seg) + k" using assms(2,7) by (simp add: unat_word_ariths of_nat_unat_u32)
  then show False using mp present assms(2,5,6,7) by auto
qed

end
