(* ===== verification/Ksymbols.thy ===== *)
theory Ksymbols
  imports Bytefile
begin

text \<open>
  The table of kernel symbols, \<^verbatim>\<open>kernel/ksymbols.c\<close>: it is read from a map file with a line per symbol (address, type and name) and searched
  by address for stack traces.

  The operations of the file are arguments: reading \<open>rd\<close>, seeking \<open>sk\<close>, the mark \<open>eof\<close> and the increment \<open>bump\<close> of its position. \<open>c\<close> is the first
  byte of the buffer, which keeps its value when a read delivers nothing. A table of more than 3072 symbols or a name of
  more than 255 bytes is written behind its array: a fault of the model.
\<close>

record kernel_symbol =
  ks_address :: u32
  ks_type :: u8
  ks_name :: "u8 list"

definition MAX_KERNEL_SYMBOLS :: nat where "MAX_KERNEL_SYMBOLS = 1024 * 3"

text \<open>\<open>None\<close> is \<open>errno = EINVAL\<close>.\<close>

definition parse_hex :: "int \<Rightarrow> int option" where
  "parse_hex s = (if s < 0x30 \<or> s > 0x66 then None else Some (if s \<ge> 0x61 then 10 + s - 0x61 else s - 0x30))"

partial_function (option) address_loop ::
    "('f \<Rightarrow> size_t \<Rightarrow> (u8 list \<times> int \<times> 'f) option) \<Rightarrow> 'f \<Rightarrow> u8 \<Rightarrow> u32 \<Rightarrow> (u32 option \<times> u8 \<times> 'f) option" where
  "address_loop rd f c address = do {
     (bs, r, f) \<leftarrow> rd f 1;
     let c = (case bs of [] \<Rightarrow> c | b # _ \<Rightarrow> b);
     if r = 0 \<or> c = 0x20 then Some (Some address, c, f)
     else case parse_hex (sint c) of
       None \<Rightarrow> Some (None, c, f)
     | Some v \<Rightarrow> address_loop rd f c (push_bit 4 address + word_of_int v) }"

text \<open>The bytes stored so far are \<open>acc\<close>; the byte under the pointer keeps its value \<open>c\<close> when nothing is read.\<close>

partial_function (option) name_loop ::
    "('f \<Rightarrow> size_t \<Rightarrow> (u8 list \<times> int \<times> 'f) option) \<Rightarrow> (nat \<Rightarrow> u8) \<Rightarrow> 'f \<Rightarrow> u8 list \<Rightarrow> (u8 list \<times> 'f) option" where
  "name_loop rd raw f acc = do {
     (bs, r, f) \<leftarrow> rd f 1;
     let c = (case bs of [] \<Rightarrow> raw (length acc) | b # _ \<Rightarrow> b);
     if r = 0 \<or> c = 0x0A then Some (acc, f)
     else if 255 \<le> length acc then None
     else name_loop rd raw f (acc @ [c]) }"

partial_function (option) symbols_loop ::
    "('f \<Rightarrow> size_t \<Rightarrow> (u8 list \<times> int \<times> 'f) option) \<Rightarrow> ('f \<Rightarrow> bool) \<Rightarrow> ('f \<Rightarrow> 'f) \<Rightarrow> (nat \<Rightarrow> u8) \<Rightarrow> 'f \<Rightarrow> u8 \<Rightarrow> kernel_symbol list \<Rightarrow>
     (kernel_symbol list \<times> 'f) option" where
  "symbols_loop rd eof bump raw f c syms =
     (if MAX_KERNEL_SYMBOLS \<le> length syms then None
      else do {
        (a, c, f) \<leftarrow> address_loop rd f c 0;
        case a of
          None \<Rightarrow> Some (syms, f)
        | Some address \<Rightarrow>
            if eof f then Some (syms, f)
            else do {
              (bs, r, f) \<leftarrow> rd f 1;
              if r = 0 then Some (syms, f)
              else do {
                (name, f) \<leftarrow> name_loop rd (raw(0 := 0)) (bump f) [];
                let syms = syms @ [\<lparr>ks_address = address, ks_type = (case bs of [] \<Rightarrow> 0 | b # _ \<Rightarrow> b), ks_name = takeWhile (\<lambda>x. x \<noteq> 0) name\<rparr>];
                if eof f then Some (syms, f)
                else symbols_loop rd eof bump raw f (hd (name @ [0])) syms } } })"

text \<open>Opening is an argument; the buffer is released and the file closed afterwards.\<close>

definition ksymbols_load_file ::
    "('f \<Rightarrow> size_t \<Rightarrow> (u8 list \<times> int \<times> 'f) option) \<Rightarrow> ('f \<Rightarrow> int \<Rightarrow> int \<Rightarrow> int \<times> 'f) \<Rightarrow> ('f \<Rightarrow> bool) \<Rightarrow> ('f \<Rightarrow> 'f) \<Rightarrow> (nat \<Rightarrow> u8) \<Rightarrow>
     (string \<Rightarrow> 'f option) \<Rightarrow> string \<Rightarrow> kernel_symbol list \<Rightarrow> (kernel_symbol list \<times> int) option" where
  "ksymbols_load_file rd sk eof bump raw opn path syms =
     (case opn path of
        None \<Rightarrow> Some (syms, - ENOENT)
      | Some f \<Rightarrow> do {
          (syms, _) \<leftarrow> symbols_loop rd eof bump raw (snd (sk f 0 SEEK_SET)) (raw 0) [];
          Some (syms, int (length syms)) })"

fun lookup_from :: "kernel_symbol list \<Rightarrow> u32 \<Rightarrow> bool \<Rightarrow> nat \<Rightarrow> kernel_symbol option" where
  "lookup_from syms addr precise 0 = None"
| "lookup_from syms addr precise (Suc i) =
     (if addr = ks_address (syms ! i) \<or> \<not> precise \<and> addr > ks_address (syms ! i) then Some (syms ! i)
      else lookup_from syms addr precise i)"

definition ksymbols_lookup :: "kernel_symbol list \<Rightarrow> u32 \<Rightarrow> bool \<Rightarrow> kernel_symbol option" where
  "ksymbols_lookup syms addr precise = lookup_from syms addr precise (length syms)"

section \<open>Map files\<close>

definition hex_char :: "nat \<Rightarrow> u8" where
  "hex_char d = of_nat (if d < 10 then 0x30 + d else 0x57 + d)"

definition hex_digits :: "nat \<Rightarrow> nat \<Rightarrow> nat list" where
  "hex_digits n k = map (\<lambda>i. k div 16 ^ i mod 16) (rev [0..<n])"

definition map_line :: "kernel_symbol \<Rightarrow> u8 list" where
  "map_line s = map hex_char (hex_digits 8 (unat (ks_address s))) @ 0x20 # ks_type s # 0x20 # ks_name s @ [0x0A]"

definition map_file :: "kernel_symbol list \<Rightarrow> u8 list" where
  "map_file syms = concat (map map_line syms)"

definition symbol_ok :: "kernel_symbol \<Rightarrow> bool" where
  "symbol_ok s \<longleftrightarrow> length (ks_name s) \<le> 255 \<and> 0 \<notin> set (ks_name s) \<and> 0x0A \<notin> set (ks_name s)"

lemma parse_hex_char: "d < 16 \<Longrightarrow> parse_hex (sint (hex_char d)) = Some (int d)"
proof -
  assume d: "d < 16"
  have "sint (hex_char d) = (if d < 10 then 0x30 + int d else 0x57 + int d)"
    using d by (auto simp: hex_char_def sint_uint signed_take_bit_int_eq_self uint_nat unat_of_nat)
  then show ?thesis using d by (auto simp: parse_hex_def)
qed

lemma hex_char_not_space: "d < 16 \<Longrightarrow> hex_char d \<noteq> 0x20"
proof
  assume "d < 16" and "hex_char d = 0x20"
  then have "parse_hex (sint (0x20 :: u8)) = Some (int d)" using parse_hex_char by metis
  then show False by (simp add: parse_hex_def)
qed

lemma hex_digits_Suc: "hex_digits (Suc n) k = k div 16 ^ n mod 16 # hex_digits n k"
  by (simp add: hex_digits_def)

lemma hex_digits_value: "fold (\<lambda>d x. 16 * x + d) (hex_digits n k) x = x * 16 ^ n + k mod 16 ^ n"
proof (induction n arbitrary: x)
  case (Suc n)
  have "k mod 16 ^ Suc n = 16 ^ n * (k div 16 ^ n mod 16) + k mod 16 ^ n" using mod_mult2_eq[of k "16 ^ n" 16] by (simp add: mult.commute)
  then show ?case using Suc by (simp add: hex_digits_Suc algebra_simps)
qed (simp add: hex_digits_def)

section \<open>Reading a map file\<close>

locale symbol_file = byte_file +
  fixes eof :: "'a \<Rightarrow> bool" and bump :: "'a \<Rightarrow> 'a"
  assumes rd_eof: "ok f \<Longrightarrow> rd f n = Some (bs, r, f') \<Longrightarrow> eof f' \<longleftrightarrow> eof f \<or> bs = []"
    and sk_eof: "ok f \<Longrightarrow> eof (snd (sk f q w)) = eof f"
    and bump_ok: "ok f \<Longrightarrow> fpos f < length (content f) \<Longrightarrow> ok (bump f) \<and> content (bump f) = content f \<and> fpos (bump f) = fpos f + 1 \<and> eof (bump f) = eof f"
begin

text \<open>The file stands in front of \<open>bs\<close> and its end has not been met.\<close>

definition at :: "'a \<Rightarrow> u8 list \<Rightarrow> bool" where
  "at f bs \<longleftrightarrow> ok f \<and> drop (fpos f) (content f) = bs \<and> \<not> eof f"

lemma read_byte:
  assumes "at f (b # bs)"
  obtains f' where "rd f 1 = Some ([b], 1, f')" "at f' bs"
proof -
  have "take (unat (1 :: u32)) (drop (fpos f) (content f)) = [b]" using assms by (simp add: at_def)
  then obtain f' where f': "rd f 1 = Some ([b], 1, f')" "ok f'" "content f' = content f" "fpos f' = fpos f + 1"
    using rd_ok[of f 1] assms by (auto simp: at_def)
  have "drop (fpos f + 1) (content f) = bs" using assms by (metis One_nat_def add.commute at_def drop_drop drop_Suc_Cons drop0 plus_1_eq_Suc)
  then show ?thesis using that[OF f'(1)] f' rd_eof[OF _ f'(1)] assms by (auto simp: at_def)
qed

lemma read_end:
  assumes "at f []"
  obtains f' where "rd f 1 = Some ([], 0, f')" "eof f'"
  using rd_ok[of f 1] rd_eof[of f 1] assms that by (auto simp: at_def)

lemma bump_at: "at f (b # bs) \<Longrightarrow> at (bump f) bs"
  using bump_ok[of f] by (auto simp: at_def drop_eq_Nil simp flip: drop_drop) (metis drop_Suc drop_eq_Nil leI list.sel(3) neq_Nil_conv tl_drop list.distinct(1))+

lemma address_digits:
  assumes "at f (map hex_char ds @ 0x20 # bs)" and "\<forall>d \<in> set ds. d < 16"
  shows "\<exists>f'. address_loop rd f c (of_nat x) = Some (Some (of_nat (fold (\<lambda>d x. 16 * x + d) ds x)), 0x20, f') \<and> at f' bs"
  using assms
proof (induction ds arbitrary: f c x)
  case Nil
  then obtain f' where "rd f 1 = Some ([0x20], 1, f')" "at f' bs" by (auto elim: read_byte)
  then show ?case by (subst address_loop.simps) simp
next
  case (Cons d ds)
  then obtain f' where f': "rd f 1 = Some ([hex_char d], 1, f')" "at f' (map hex_char ds @ 0x20 # bs)" by (auto elim: read_byte)
  have "push_bit 4 (of_nat x) + of_nat d = (of_nat (16 * x + d) :: u32)" by (simp add: push_bit_eq_mult)
  with Cons.IH[OF f'(2), of "hex_char d" "16 * x + d"] Cons.prems(2) show ?case
    by (subst address_loop.simps) (simp add: f'(1) parse_hex_char hex_char_not_space del: of_nat_add)
qed

lemma name_bytes:
  assumes "at f (name @ 0x0A # bs)" and "0x0A \<notin> set name" and "length acc + length name \<le> 255"
  shows "\<exists>f'. name_loop rd raw f acc = Some (acc @ name, f') \<and> at f' bs"
  using assms
proof (induction name arbitrary: f acc)
  case Nil
  then obtain f' where "rd f 1 = Some ([0x0A], 1, f')" "at f' bs" by (auto elim: read_byte)
  then show ?case by (subst name_loop.simps) simp
next
  case (Cons b name)
  then obtain f' where f': "rd f 1 = Some ([b], 1, f')" "at f' (name @ 0x0A # bs)" by (auto elim: read_byte)
  with Cons.IH[OF f'(2), of "acc @ [b]"] Cons.prems show ?case by (subst name_loop.simps) auto
qed

lemma symbols_of_map_file:
  assumes "at f (map_file syms)" and "\<forall>s \<in> set syms. symbol_ok s" and "length done_syms + length syms < MAX_KERNEL_SYMBOLS"
  shows "\<exists>f'. symbols_loop rd eof bump raw f c done_syms = Some (done_syms @ syms, f')"
  using assms
proof (induction syms arbitrary: f c done_syms)
  case Nil
  then obtain f' where "rd f 1 = Some ([], 0, f')" "eof f'" by (auto simp: map_file_def elim: read_end)
  then show ?case using Nil.prems(3) by (subst symbols_loop.simps, subst address_loop.simps) auto
next
  case (Cons s syms)
  let ?ds = "hex_digits 8 (unat (ks_address s))"
  have "at f (map hex_char ?ds @ 0x20 # ks_type s # 0x20 # ks_name s @ 0x0A # map_file syms)"
    using Cons.prems(1) by (simp add: map_file_def map_line_def)
  moreover have "\<forall>d \<in> set ?ds. d < 16" by (auto simp: hex_digits_def)
  ultimately obtain f1 where 1: "address_loop rd f c 0 = Some (Some (of_nat (fold (\<lambda>d x. 16 * x + d) ?ds 0)), 0x20, f1)"
      "at f1 (ks_type s # 0x20 # ks_name s @ 0x0A # map_file syms)"
    using address_digits[of f ?ds _ c 0] by auto
  have a: "of_nat (fold (\<lambda>d x. 16 * x + d) ?ds 0) = ks_address s"
    unfolding hex_digits_value using unat_u32_bound[of "ks_address s"] by simp
  obtain f2 where 2: "rd f1 1 = Some ([ks_type s], 1, f2)" "at f2 (0x20 # ks_name s @ 0x0A # map_file syms)" using 1(2) by (rule read_byte)
  have s: "symbol_ok s" using Cons.prems(2) by simp
  obtain f3 where 3: "name_loop rd (raw(0 := 0)) (bump f2) [] = Some (ks_name s, f3)" "at f3 (map_file syms)"
    using name_bytes[OF bump_at[OF 2(2)], of "[]"] s by (auto simp: symbol_ok_def)
  have tw: "takeWhile (\<lambda>x. x \<noteq> 0) (ks_name s) = ks_name s" using s by (auto simp: symbol_ok_def takeWhile_eq_all_conv)
  have e: "\<lparr>ks_address = ks_address s, ks_type = ks_type s, ks_name = ks_name s\<rparr> = s" by (cases s) simp
  obtain f' where "symbols_loop rd eof bump raw f3 (hd (ks_name s @ [0])) (done_syms @ [s]) = Some ((done_syms @ [s]) @ syms, f')"
    using Cons.IH[OF 3(2), of "done_syms @ [s]"] Cons.prems(2,3) by auto
  then show ?case
    using 1 2 3 Cons.prems(3) by (subst symbols_loop.simps) (simp add: a tw at_def e)
qed

end

definition initrd_bump :: "mem \<times> fs_node \<Rightarrow> mem \<times> fs_node" where
  "initrd_bump f = (fst f, (snd f)\<lparr>n_pos := n_pos (snd f) + 1\<rparr>)"

definition initrd_eof :: "mem \<times> fs_node \<Rightarrow> bool" where
  "initrd_eof f = n_eof (snd f)"

lemma initrd_vread_eof:
  assumes "initrd_vread d buf f n = Some (bs, r, f')"
  shows "initrd_eof f' \<longleftrightarrow> initrd_eof f \<or> bs = []"
proof -
  let ?n = "read_count (fst f) d (n_impl (snd f)) n (n_pos (snd f))"
  obtain m' nd off where r: "initrdfs_read d (fst f) (snd f) buf n (n_pos (snd f)) = Some (m', nd, off, r)"
      "bs = map (\<lambda>k. m' (buf + of_nat k)) [0..<nat r]" "f' = (fst f, nd\<lparr>n_pos := off\<rparr>)"
    using assms by (auto simp: initrd_vread_def bind_eq_Some_conv)
  have "unat ?n < 2147483648" "r = sint ?n" "n_eof nd \<longleftrightarrow> n_eof (snd f) \<or> ?n = 0"
    using r(1) by (auto simp: initrdfs_read_def Let_def split: if_splits)
  then have "bs = [] \<longleftrightarrow> ?n = 0" unfolding r(2) sint_u32 by (simp add: unat_eq_0 split: if_splits)
  with \<open>n_eof nd \<longleftrightarrow> _\<close> show ?thesis by (simp add: initrd_eof_def r(3))
qed

lemma initrd_vseek_eof: "initrd_eof (snd (initrd_vseek d f q w)) = initrd_eof f"
proof -
  obtain m nd where f: "f = (m, nd)" by (cases f)
  have "snd (initrd_vseek d f q w) = (m, fst (generic_file_seek_size nd q (hdr_length m d (n_impl nd) - 1) w))"
    by (simp add: initrd_vseek_def initrdfs_seek_def f split: prod.splits)
  then show ?thesis
    using generic_seek_cases[of nd q "hdr_length m d (n_impl nd) - 1" w] by (auto simp: initrd_eof_def f)
qed

lemma initrd_bump_ok:
  assumes "initrd_ok d buf f" and "initrd_fpos f < length (initrd_content d f)"
  shows "initrd_ok d buf (initrd_bump f) \<and> initrd_content d (initrd_bump f) = initrd_content d f \<and>
    initrd_fpos (initrd_bump f) = initrd_fpos f + 1 \<and> initrd_eof (initrd_bump f) = initrd_eof f"
proof -
  have lt: "unat (n_pos (snd f)) < unat (hdr_length (fst f) d (n_impl (snd f)))"
    using assms(2) by (simp add: initrd_fpos_def initrd_content_def file_bytes_def)
  then have "unat (n_pos (snd f) + 1) = unat (n_pos (snd f)) + 1"
    using unat_u32_bound[of "hdr_length (fst f) d (n_impl (snd f))"] by (simp add: unat_word_ariths)
  then show ?thesis
    using assms(1) lt by (simp add: initrd_ok_def initrd_bump_def initrd_content_def initrd_fpos_def initrd_eof_def Let_def word_le_nat_alt)
qed

interpretation irs: symbol_file "initrd_vread d buf" "initrd_vseek d" "initrd_content d" initrd_fpos "initrd_ok d buf" initrd_eof initrd_bump
  for d buf
  by unfold_locales (use initrd_vread_eof initrd_vseek_eof initrd_bump_ok in auto)

text \<open>
  C21: Symbols that were written as a map file (eight hexadecimal digits, the type, the name and a line feed) are read back unchanged from the
  initial ram disk, in order, and the number of symbols is returned; there may be at most 3071 of them, with names of at
  most 255 bytes.
\<close>

theorem ksymbols_roundtrip:
  assumes "opn path = Some f" and "initrd_ok d buf f" and "\<not> initrd_eof f" and "initrd_content d f = map_file syms"
    and "\<forall>s \<in> set syms. symbol_ok s" and "length syms < MAX_KERNEL_SYMBOLS"
  shows "ksymbols_load_file (initrd_vread d buf) (initrd_vseek d) initrd_eof initrd_bump raw opn path old = Some (syms, int (length syms))"
proof -
  have "0 < length (initrd_content d f)" using assms(2) by (auto simp: initrd_ok_def initrd_content_def file_bytes_def Let_def word_less_nat_alt)
  then obtain f' where f': "initrd_vseek d f 0 SEEK_SET = (0, f')" "initrd_ok d buf f'" "initrd_content d f' = initrd_content d f" "initrd_fpos f' = 0"
    using ird.sk_set[OF assms(2), of 0] by auto
  moreover have "\<not> initrd_eof f'" using initrd_vseek_eof[of d f 0 SEEK_SET] assms(3) f'(1) by simp
  ultimately have "irs.at d buf f' (map_file syms)" using assms(4) by (simp add: irs.at_def)
  from irs.symbols_of_map_file[OF this assms(5), where done_syms = "[]" and raw = raw and c = "raw 0"] assms(6) f'(1) show ?thesis
    by (auto simp: ksymbols_load_file_def assms(1))
qed

definition demo_symbol :: kernel_symbol where
  "demo_symbol = \<lparr>ks_address = 0xC0100000, ks_type = 0x54, ks_name = [0x6D]\<rparr>"

definition demo_map_image :: mem where
  "demo_map_image a =
     (if a = 1060 then 13 else if a = 1064 then 0 else if unat (a - 1068) < 13 then map_file [demo_symbol] ! unat (a - 1068) else 0)"

lemma demo_map_line: "map_file [demo_symbol] = [0x63, 0x30, 0x31, 0x30, 0x30, 0x30, 0x30, 0x30, 0x20, 0x54, 0x20, 0x6D, 0x0A]"
  by (simp add: map_file_def map_line_def demo_symbol_def hex_digits_def hex_char_def upt_conv_Cons)

lemma demo_map_header: "hdr_length demo_map_image demo_initrd 0 = 13" "hdr_offset demo_map_image demo_initrd 0 = 0"
  by (simp_all add: hdr_length_def hdr_offset_def hdr_at_def header_size_def demo_initrd_def demo_map_image_def load32_def unsigned_minus_1_eq_mask mask_eq_exp_minus_1)

theorem ksymbols_roundtrip_witness:
  "ksymbols_load_file (initrd_vread demo_initrd 5000) (initrd_vseek demo_initrd) initrd_eof initrd_bump (\<lambda>_. 0)
     (\<lambda>_. Some (demo_map_image, demo_node)) ''/kernel.map'' [] = Some ([demo_symbol], 1)"
proof -
  have i: "n_impl demo_node = 0" "n_pos demo_node = 3" "\<not> n_eof demo_node" by (simp_all add: demo_node_def demo_nodes_def)
  have "initrd_content demo_initrd (demo_map_image, demo_node) = map_file [demo_symbol]"
    unfolding initrd_content_def file_bytes_def fst_conv snd_conv i demo_map_header
    by (simp add: upt_conv_Cons demo_initrd_def demo_map_image_def demo_map_line)
  moreover have "initrd_ok demo_initrd 5000 (demo_map_image, demo_node)"
    by (simp add: initrd_ok_def i demo_map_header Let_def regions_disjoint_def) (simp add: demo_initrd_def)
  moreover have "symbol_ok demo_symbol" by (simp add: symbol_ok_def demo_symbol_def)
  ultimately show ?thesis
    using ksymbols_roundtrip[of "\<lambda>_. Some (demo_map_image, demo_node)" "''/kernel.map''" "(demo_map_image, demo_node)" demo_initrd 5000
        "[demo_symbol]" "\<lambda>_. 0" "[]"] i by (simp add: initrd_eof_def MAX_KERNEL_SYMBOLS_def)
qed

section \<open>Looking up\<close>

text \<open>
  In a table sorted by address, which is how the map file is written, the lookup returns the last of the symbols that start at or
  below the address, or exactly there when \<open>precise\<close>; it finds nothing only when there is none.
\<close>

lemma lookup_from_cases:
  "lookup_from syms addr precise n =
     (if \<exists>i < n. addr = ks_address (syms ! i) \<or> \<not> precise \<and> addr > ks_address (syms ! i)
      then Some (syms ! (GREATEST i. i < n \<and> (addr = ks_address (syms ! i) \<or> \<not> precise \<and> addr > ks_address (syms ! i)))) else None)"
proof (induction n)
  case (Suc n)
  let ?P = "\<lambda>i. addr = ks_address (syms ! i) \<or> \<not> precise \<and> addr > ks_address (syms ! i)"
  show ?case
  proof (cases "?P n")
    case True
    then have "(GREATEST i. i < Suc n \<and> ?P i) = n" by (intro Greatest_equality) auto
    then show ?thesis using True by auto
  next
    case False
    then have "(\<lambda>i. i < Suc n \<and> ?P i) = (\<lambda>i. i < n \<and> ?P i)" by (auto simp: less_Suc_eq)
    then show ?thesis using Suc False by (auto simp: less_Suc_eq)
  qed
qed simp

lemma lookup_nearest:
  assumes "sorted (map ks_address syms)" and "ksymbols_lookup syms addr False = Some s"
  shows "s \<in> set syms \<and> ks_address s \<le> addr \<and> (\<forall>t \<in> set syms. ks_address t \<le> addr \<longrightarrow> ks_address t \<le> ks_address s)"
proof -
  let ?P = "\<lambda>i. i < length syms \<and> (addr = ks_address (syms ! i) \<or> \<not> False \<and> addr > ks_address (syms ! i))"
  let ?g = "GREATEST i. ?P i"
  have ex: "\<exists>i. ?P i" and s: "s = syms ! ?g"
    using assms(2) by (auto simp: ksymbols_lookup_def lookup_from_cases split: if_splits)
  have g: "?P ?g" by (rule GreatestI_ex_nat[OF ex, of "length syms"]) auto
  have "ks_address (syms ! i) \<le> ks_address s" if "i < length syms" "ks_address (syms ! i) \<le> addr" for i
  proof -
    have "i \<le> ?g" by (rule Greatest_le_nat[of ?P _ "length syms"]) (use that in auto)
    then show ?thesis unfolding s using sorted_nth_mono[OF assms(1), of i ?g] g by simp
  qed
  then show ?thesis using g s by (auto simp: in_set_conv_nth)
qed

text \<open>The digits are not tested exactly: the characters between the decimal digits and the letters are taken for digits as well.\<close>

lemma parse_hex_accepts_colon: "parse_hex 0x3A = Some 10" "parse_hex 0x5F = Some 47"
  by (simp_all add: parse_hex_def)

end
