(* ===== verification/Pci.thy ===== *)
theory Pci
  imports Ports
begin

text \<open>
  The PCI configuration space and the enumeration of functions, \<^verbatim>\<open>drivers/pci.c\<close>, and the ISA DMA controllers, \<^verbatim>\<open>kernel/dma-isa.c\<close>, over an
  arbitrary bus. The initialisers of drivers are functions on the state of the bus; the list of drivers is a sequence.
  The fields of a structure initialiser are read in the order in which they are written. The table of vendor names only
  serves a message.
\<close>

section \<open>Configuration space\<close>

definition PCI_CONF_ADDR_PORT :: u16 where "PCI_CONF_ADDR_PORT = 0xCF8"
definition PCI_CONF_DATA_PORT :: u16 where "PCI_CONF_DATA_PORT = 0xCFC"
definition PCI_NUM_BUSES :: nat where "PCI_NUM_BUSES = 256"
definition PCI_NUM_DEVICES :: nat where "PCI_NUM_DEVICES = 32"
definition PCI_INVALID_VENDOR :: u16 where "PCI_INVALID_VENDOR = 0xFFFF"
definition PCI_HEADER_GENERAL_DEV :: u8 where "PCI_HEADER_GENERAL_DEV = 0"

record pci_device =
  pd_bus :: u8
  pd_slot :: u8
  pd_func :: u8

definition pci_conf_field_addr :: "u8 \<Rightarrow> u8 \<Rightarrow> u8 \<Rightarrow> u8 \<Rightarrow> u32" where
  "pci_conf_field_addr bus slot func offset =
     push_bit 31 1 OR push_bit 16 (ucast bus) OR push_bit 11 (ucast slot AND 0x1F) OR push_bit 8 (ucast func AND 0x7) OR (ucast offset AND 0xFC)"

definition pci_conf_select :: "'s bus \<Rightarrow> pci_device \<Rightarrow> u8 \<Rightarrow> 's \<Rightarrow> 's" where
  "pci_conf_select b dev offset s = outl b PCI_CONF_ADDR_PORT (pci_conf_field_addr (pd_bus dev) (pd_slot dev) (pd_func dev) offset) s"

definition pci_conf_read8 :: "'s bus \<Rightarrow> pci_device \<Rightarrow> u8 \<Rightarrow> 's \<Rightarrow> u32 \<times> 's" where
  "pci_conf_read8 b dev offset s =
     (let (v, s) = inb b (PCI_CONF_DATA_PORT + (ucast offset AND 3)) (pci_conf_select b dev offset s) in (ucast v, s))"

definition pci_conf_read16 :: "'s bus \<Rightarrow> pci_device \<Rightarrow> u8 \<Rightarrow> 's \<Rightarrow> u16 \<times> 's" where
  "pci_conf_read16 b dev offset s = inw b (PCI_CONF_DATA_PORT + (ucast offset AND 2)) (pci_conf_select b dev offset s)"

definition pci_conf_read32 :: "'s bus \<Rightarrow> pci_device \<Rightarrow> u8 \<Rightarrow> 's \<Rightarrow> u32 \<times> 's" where
  "pci_conf_read32 b dev offset s = inl b PCI_CONF_DATA_PORT (pci_conf_select b dev offset s)"

definition pci_conf_write8 :: "'s bus \<Rightarrow> pci_device \<Rightarrow> u8 \<Rightarrow> u8 \<Rightarrow> 's \<Rightarrow> 's" where
  "pci_conf_write8 b dev offset v s = outb b (PCI_CONF_DATA_PORT + (ucast offset AND 3)) v (pci_conf_select b dev offset s)"

definition pci_conf_write16 :: "'s bus \<Rightarrow> pci_device \<Rightarrow> u8 \<Rightarrow> u16 \<Rightarrow> 's \<Rightarrow> 's" where
  "pci_conf_write16 b dev offset v s = outw b (PCI_CONF_DATA_PORT + (ucast offset AND 2)) v (pci_conf_select b dev offset s)"

definition pci_conf_write32 :: "'s bus \<Rightarrow> pci_device \<Rightarrow> u8 \<Rightarrow> u32 \<Rightarrow> 's \<Rightarrow> 's" where
  "pci_conf_write32 b dev offset v s = outl b PCI_CONF_DATA_PORT v (pci_conf_select b dev offset s)"

section \<open>Headers\<close>

record pci_header_general_dev =
  pg_bars :: "u32 list"
  pg_cardbus_cis_ptr :: u32
  pg_subsystem_vendor_id :: u16
  pg_subsystem_id :: u16
  pg_expansion_rom_addr :: u32
  pg_capabilities_ptr :: u8
  pg_intr_line :: u8
  pg_intr_pin :: u8
  pg_min_grant :: u8
  pg_max_latency :: u8

record pci_header =
  pc_vendor_id :: u16
  pc_device_id :: u16
  pc_status_reg :: u16
  pc_command_reg :: u16
  pc_class :: u8
  pc_subclass :: u8
  pc_prog_iface :: u8
  pc_revision_id :: u8
  pc_bist :: u8
  pc_header_type :: u8
  pc_multifunction :: bool
  pc_latency_timer :: u8
  pc_cache_line_size :: u8
  pc_general_device :: "pci_header_general_dev option"

definition invalid_header :: pci_header where
  "invalid_header = \<lparr>pc_vendor_id = PCI_INVALID_VENDOR, pc_device_id = 0, pc_status_reg = 0, pc_command_reg = 0, pc_class = 0, pc_subclass = 0,
     pc_prog_iface = 0, pc_revision_id = 0, pc_bist = 0, pc_header_type = 0, pc_multifunction = False, pc_latency_timer = 0,
     pc_cache_line_size = 0, pc_general_device = None\<rparr>"

definition pci_get_general :: "'s bus \<Rightarrow> pci_device \<Rightarrow> 's \<Rightarrow> pci_header_general_dev \<times> 's" where
  "pci_get_general b dev s =
     (let (b0, s) = pci_conf_read32 b dev 0x10 s;
          (b1, s) = pci_conf_read32 b dev 0x14 s;
          (b2, s) = pci_conf_read32 b dev 0x18 s;
          (b3, s) = pci_conf_read32 b dev 0x1C s;
          (b4, s) = pci_conf_read32 b dev 0x20 s;
          (b5, s) = pci_conf_read32 b dev 0x24 s;
          (cis, s) = pci_conf_read32 b dev 0x28 s;
          (sv, s) = pci_conf_read16 b dev 0x2C s;
          (si, s) = pci_conf_read16 b dev 0x2E s;
          (rom, s) = pci_conf_read32 b dev 0x30 s;
          (cap, s) = pci_conf_read8 b dev 0x34 s;
          (line, s) = pci_conf_read8 b dev 0x3C s;
          (pin, s) = pci_conf_read8 b dev 0x3D s;
          (mg, s) = pci_conf_read8 b dev 0x3E s;
          (ml, s) = pci_conf_read8 b dev 0x3F s
      in (\<lparr>pg_bars = [b0, b1, b2, b3, b4, b5], pg_cardbus_cis_ptr = cis, pg_subsystem_vendor_id = sv, pg_subsystem_id = si,
           pg_expansion_rom_addr = rom, pg_capabilities_ptr = ucast cap, pg_intr_line = ucast line, pg_intr_pin = ucast pin,
           pg_min_grant = ucast mg, pg_max_latency = ucast ml\<rparr>, s))"

definition pci_get_header :: "'s bus \<Rightarrow> pci_device \<Rightarrow> 's \<Rightarrow> pci_header \<times> 's" where
  "pci_get_header b dev s =
     (let (vendor_id, s) = pci_conf_read16 b dev 0x0 s
      in if vendor_id = PCI_INVALID_VENDOR then (invalid_header, s)
         else
           let (dev_id, s) = pci_conf_read16 b dev 0x2 s;
               (cmd, s) = pci_conf_read16 b dev 0x4 s;
               (stat, s) = pci_conf_read16 b dev 0x6 s;
               (rev_id, s) = pci_conf_read8 b dev 0x8 s;
               (prog, s) = pci_conf_read8 b dev 0x9 s;
               (sub, s) = pci_conf_read8 b dev 0xA s;
               (cls, s) = pci_conf_read8 b dev 0xB s;
               (cache, s) = pci_conf_read8 b dev 0xC s;
               (lat, s) = pci_conf_read8 b dev 0xD s;
               (ht, s) = pci_conf_read8 b dev 0xE s;
               (mf, s) = pci_conf_read8 b dev 0xE s;
               (bist, s) = pci_conf_read8 b dev 0xF s;
               h = \<lparr>pc_vendor_id = vendor_id, pc_device_id = dev_id, pc_status_reg = stat, pc_command_reg = cmd, pc_class = ucast cls,
                    pc_subclass = ucast sub, pc_prog_iface = ucast prog, pc_revision_id = ucast rev_id, pc_bist = ucast bist,
                    pc_header_type = ucast (ht AND 0x3), pc_multifunction = (mf AND 0x80 \<noteq> 0), pc_latency_timer = ucast lat,
                    pc_cache_line_size = ucast cache, pc_general_device = None\<rparr>
           in if pc_header_type h = PCI_HEADER_GENERAL_DEV
              then let (g, s) = pci_get_general b dev s in (h\<lparr>pc_general_device := Some g\<rparr>, s)
              else (h, s))"

section \<open>Drivers and enumeration\<close>

record 's pci_driver =
  dr_vendor_id :: u16
  dr_device_id :: u16
  dr_init :: "pci_device \<Rightarrow> pci_header \<Rightarrow> 's \<Rightarrow> 's"

definition pci_init :: "'s pci_driver list" where "pci_init = []"

definition pci_register_driver :: "'s pci_driver \<Rightarrow> 's pci_driver list \<Rightarrow> 's pci_driver list" where
  "pci_register_driver d ds = ds @ [d]"

definition pci_enum_func :: "'s pci_driver list \<Rightarrow> pci_device \<Rightarrow> pci_header \<Rightarrow> 's \<Rightarrow> 's" where
  "pci_enum_func ds dev h s =
     fold (\<lambda>d s. if dr_vendor_id d \<noteq> pc_vendor_id h \<or> dr_device_id d \<noteq> pc_device_id h then s else dr_init d dev h s) ds s"

definition pci_enum_slot :: "'s bus \<Rightarrow> 's pci_driver list \<Rightarrow> u8 \<Rightarrow> u8 \<Rightarrow> 's \<Rightarrow> 's" where
  "pci_enum_slot b ds bus slot s =
     (let dev = \<lparr>pd_bus = bus, pd_slot = slot, pd_func = 0\<rparr>;
          (h, s) = pci_get_header b dev s
      in if pc_vendor_id h = PCI_INVALID_VENDOR then s
         else
           let s = pci_enum_func ds dev h s
           in if pc_multifunction h
              then for_upto 7 (\<lambda>i s.
                     let dev = dev\<lparr>pd_func := of_nat (1 + i)\<rparr>;
                         (h, s) = pci_get_header b dev s
                     in if pc_vendor_id h = PCI_INVALID_VENDOR then s else pci_enum_func ds dev h s) s
              else s)"

definition pci_enum :: "'s bus \<Rightarrow> 's pci_driver list \<Rightarrow> 's \<Rightarrow> 's" where
  "pci_enum b ds s = for_upto PCI_NUM_BUSES (\<lambda>bus s. for_upto PCI_NUM_DEVICES (\<lambda>slot s. pci_enum_slot b ds (of_nat bus) (of_nat slot) s) s) s"

section \<open>What enumeration finds\<close>

text \<open>
  The documented configuration mechanism: writing an address to the address port selects the double word of the configuration space
  that the data port then shows; reading changes nothing of the space. \<open>conf s\<close> is the space, \<open>calls s\<close> is any observation of the
  state that accesses to the two ports do not change.
\<close>

definition conf_mechanism :: "'s bus \<Rightarrow> ('s \<Rightarrow> u32 \<Rightarrow> u32) \<Rightarrow> ('s \<Rightarrow> 'c) \<Rightarrow> bool" where
  "conf_mechanism b conf calls \<longleftrightarrow>
     (\<forall>s a k. k < 4 \<longrightarrow> (\<exists>s'. inb b (PCI_CONF_DATA_PORT + of_nat k) (outl b PCI_CONF_ADDR_PORT a s) = (ucast (drop_bit (8 * k) (conf s a)), s') \<and>
        conf s' = conf s \<and> calls s' = calls s)) \<and>
     (\<forall>s a k. k = 0 \<or> k = 2 \<longrightarrow> (\<exists>s'. inw b (PCI_CONF_DATA_PORT + of_nat k) (outl b PCI_CONF_ADDR_PORT a s) = (ucast (drop_bit (8 * k) (conf s a)), s') \<and>
        conf s' = conf s \<and> calls s' = calls s)) \<and>
     (\<forall>s a. \<exists>s'. inl b PCI_CONF_DATA_PORT (outl b PCI_CONF_ADDR_PORT a s) = (conf s a, s') \<and> conf s' = conf s \<and> calls s' = calls s)"

definition dev_addr :: "pci_device \<Rightarrow> u8 \<Rightarrow> u32" where
  "dev_addr dev offset = pci_conf_field_addr (pd_bus dev) (pd_slot dev) (pd_func dev) offset"

definition conf8 :: "(u32 \<Rightarrow> u32) \<Rightarrow> pci_device \<Rightarrow> u8 \<Rightarrow> u8" where
  "conf8 c dev offset = ucast (drop_bit (8 * unat (offset AND 3)) (c (dev_addr dev offset)))"

definition conf16 :: "(u32 \<Rightarrow> u32) \<Rightarrow> pci_device \<Rightarrow> u8 \<Rightarrow> u16" where
  "conf16 c dev offset = ucast (drop_bit (8 * unat (offset AND 2)) (c (dev_addr dev offset)))"

definition general_of :: "(u32 \<Rightarrow> u32) \<Rightarrow> pci_device \<Rightarrow> pci_header_general_dev" where
  "general_of c dev = \<lparr>pg_bars = map (\<lambda>o'. c (dev_addr dev o')) [0x10, 0x14, 0x18, 0x1C, 0x20, 0x24], pg_cardbus_cis_ptr = c (dev_addr dev 0x28),
     pg_subsystem_vendor_id = conf16 c dev 0x2C, pg_subsystem_id = conf16 c dev 0x2E, pg_expansion_rom_addr = c (dev_addr dev 0x30),
     pg_capabilities_ptr = conf8 c dev 0x34, pg_intr_line = conf8 c dev 0x3C, pg_intr_pin = conf8 c dev 0x3D,
     pg_min_grant = conf8 c dev 0x3E, pg_max_latency = conf8 c dev 0x3F\<rparr>"

definition header_of :: "(u32 \<Rightarrow> u32) \<Rightarrow> pci_device \<Rightarrow> pci_header" where
  "header_of c dev =
     (if conf16 c dev 0 = PCI_INVALID_VENDOR then invalid_header
      else \<lparr>pc_vendor_id = conf16 c dev 0, pc_device_id = conf16 c dev 2, pc_status_reg = conf16 c dev 6, pc_command_reg = conf16 c dev 4,
            pc_class = conf8 c dev 0xB, pc_subclass = conf8 c dev 0xA, pc_prog_iface = conf8 c dev 9, pc_revision_id = conf8 c dev 8,
            pc_bist = conf8 c dev 0xF, pc_header_type = conf8 c dev 0xE AND 3, pc_multifunction = bit (conf8 c dev 0xE) 7,
            pc_latency_timer = conf8 c dev 0xD, pc_cache_line_size = conf8 c dev 0xC,
            pc_general_device = (if conf8 c dev 0xE AND 3 = 0 then Some (general_of c dev) else None)\<rparr>)"

lemma conf_reads:
  assumes "conf_mechanism b conf calls"
  shows "\<exists>s'. pci_conf_read8 b dev off s = (ucast (conf8 (conf s) dev off), s') \<and> conf s' = conf s \<and> calls s' = calls s"
    and "\<exists>s'. pci_conf_read16 b dev off s = (conf16 (conf s) dev off, s') \<and> conf s' = conf s \<and> calls s' = calls s"
    and "\<exists>s'. pci_conf_read32 b dev off s = (conf s (dev_addr dev off), s') \<and> conf s' = conf s \<and> calls s' = calls s"
proof -
  note m = assms[unfolded conf_mechanism_def, THEN conjunct1, rule_format] assms[unfolded conf_mechanism_def, THEN conjunct2, THEN conjunct1, rule_format]
    assms[unfolded conf_mechanism_def, THEN conjunct2, THEN conjunct2, rule_format]
  have n: "ucast (w AND 3) = (ucast w AND 3 :: u16)" "ucast (w AND 2) = (ucast w AND 2 :: u16)" for w :: u8
    by (simp_all add: unsigned_and_eq)
  have "unat (off AND 3) \<le> unat (3 :: u8)" using word_and_le1[of off 3] by (simp add: word_le_nat_alt)
  then have "unat (off AND 3) < 4" by simp
  then show "\<exists>s'. pci_conf_read8 b dev off s = (ucast (conf8 (conf s) dev off), s') \<and> conf s' = conf s \<and> calls s' = calls s"
    using m(1)[of "unat (off AND 3)" "dev_addr dev off" s]
    by (auto simp: n pci_conf_read8_def pci_conf_select_def conf8_def dev_addr_def)
  show "\<exists>s'. pci_conf_read16 b dev off s = (conf16 (conf s) dev off, s') \<and> conf s' = conf s \<and> calls s' = calls s"
  proof -
    have "off AND 2 = 0 \<or> off AND 2 = 2"
    proof (cases "bit off 1")
      case True
      have "(2 :: u8) = push_bit 1 1" by simp
      then have "off AND 2 = 2" by (simp only:) (rule bit_word_eqI, use True in \<open>auto simp: bit_simps\<close>)
      then show ?thesis ..
    next
      case False
      then have "off AND 2 ^ 1 = 0" by (simp only: and_exp_eq_0_iff_not_bit) simp
      then show ?thesis by simp
    qed
    then have "unat (off AND 2) = 0 \<or> unat (off AND 2) = 2" by (elim disjE) simp_all
    from m(2)[OF this, of "dev_addr dev off" s] show ?thesis
      by (auto simp: n pci_conf_read16_def pci_conf_select_def conf16_def dev_addr_def)
  qed
  show "\<exists>s'. pci_conf_read32 b dev off s = (conf s (dev_addr dev off), s') \<and> conf s' = conf s \<and> calls s' = calls s"
    using m(3)[of "dev_addr dev off" s] by (auto simp: pci_conf_read32_def pci_conf_select_def dev_addr_def)
qed

lemma conf_read_parts:
  assumes "conf_mechanism b conf calls"
  shows "fst (pci_conf_read8 b dev off s) = ucast (conf8 (conf s) dev off)" "conf (snd (pci_conf_read8 b dev off s)) = conf s"
    "calls (snd (pci_conf_read8 b dev off s)) = calls s"
    "fst (pci_conf_read16 b dev off s) = conf16 (conf s) dev off" "conf (snd (pci_conf_read16 b dev off s)) = conf s"
    "calls (snd (pci_conf_read16 b dev off s)) = calls s"
    "fst (pci_conf_read32 b dev off s) = conf s (dev_addr dev off)" "conf (snd (pci_conf_read32 b dev off s)) = conf s"
    "calls (snd (pci_conf_read32 b dev off s)) = calls s"
  using conf_reads[OF assms, of dev off s] by auto

lemma byte_in_word:
  fixes x :: u8
  shows "ucast (ucast x :: u32) = x" "ucast (ucast x AND 3 :: u32) = x AND 3" "(ucast x :: u32) AND 0x80 \<noteq> 0 \<longleftrightarrow> bit x 7"
proof -
  show "ucast (ucast x :: u32) = x" by (rule bit_word_eqI) (simp add: bit_simps)
  then show "ucast (ucast x AND 3 :: u32) = x AND 3" by (simp add: unsigned_and_eq)
  have "(ucast x :: u32) AND 2 ^ 7 = 0 \<longleftrightarrow> \<not> bit (ucast x :: u32) 7" by (rule and_exp_eq_0_iff_not_bit)
  then show "(ucast x :: u32) AND 0x80 \<noteq> 0 \<longleftrightarrow> bit x 7" by (simp add: bit_simps)
qed

lemma general_parts:
  assumes "conf_mechanism b conf calls"
  shows "fst (pci_get_general b dev s) = general_of (conf s) dev" "conf (snd (pci_get_general b dev s)) = conf s"
    "calls (snd (pci_get_general b dev s)) = calls s"
  unfolding pci_get_general_def Let_def case_prod_beta
  by (simp_all add: conf_read_parts[OF assms] general_of_def byte_in_word)

lemma header_parts:
  assumes "conf_mechanism b conf calls"
  shows "fst (pci_get_header b dev s) = header_of (conf s) dev" "conf (snd (pci_get_header b dev s)) = conf s"
    "calls (snd (pci_get_header b dev s)) = calls s"
  unfolding pci_get_header_def Let_def case_prod_beta
  by (simp_all add: conf_read_parts[OF assms] general_parts[OF assms] header_of_def byte_in_word PCI_HEADER_GENERAL_DEV_def)

text \<open>The functions that answer: function 0 of each slot, and of a multifunction device the others, in the order of the numbers.\<close>

definition slot_functions :: "(u32 \<Rightarrow> u32) \<Rightarrow> u8 \<Rightarrow> u8 \<Rightarrow> pci_device list" where
  "slot_functions c bus slot =
     (let d = \<lparr>pd_bus = bus, pd_slot = slot, pd_func = 0\<rparr>
      in if conf16 c d 0 = PCI_INVALID_VENDOR then []
         else d # (if pc_multifunction (header_of c d)
                   then filter (\<lambda>d. conf16 c d 0 \<noteq> PCI_INVALID_VENDOR) (map (\<lambda>i. d\<lparr>pd_func := of_nat (1 + i)\<rparr>) [0..<7]) else []))"

definition pci_functions :: "(u32 \<Rightarrow> u32) \<Rightarrow> pci_device list" where
  "pci_functions c = concat (map (\<lambda>bus. concat (map (\<lambda>slot. slot_functions c (of_nat bus) (of_nat slot)) [0..<PCI_NUM_DEVICES])) [0..<PCI_NUM_BUSES])"

definition init_calls :: "('s pci_driver \<Rightarrow> 't) \<Rightarrow> 's pci_driver list \<Rightarrow> (u32 \<Rightarrow> u32) \<Rightarrow> pci_device \<Rightarrow> ('t \<times> pci_device \<times> pci_header) list" where
  "init_calls tag ds c dev =
     map (\<lambda>d. (tag d, dev, header_of c dev))
       (filter (\<lambda>d. dr_vendor_id d = pc_vendor_id (header_of c dev) \<and> dr_device_id d = pc_device_id (header_of c dev)) ds)"

lemma header_vendor: "pc_vendor_id (header_of c dev) = conf16 c dev 0"
  by (simp add: header_of_def invalid_header_def)

lemma enum_func_calls:
  assumes "\<And>d dev h s. d \<in> set ds \<Longrightarrow> conf (dr_init d dev h s) = conf s \<and> calls (dr_init d dev h s) = calls s @ [(tag d, dev, h)]"
  shows "conf (pci_enum_func ds dev (header_of c dev) s) = conf s \<and>
    calls (pci_enum_func ds dev (header_of c dev) s) = calls s @ init_calls tag ds c dev"
  using assms
proof (induction ds arbitrary: s)
  case (Cons d ds)
  then show ?case using Cons.IH Cons.prems by (auto simp: pci_enum_func_def init_calls_def)
qed (simp add: pci_enum_func_def init_calls_def)

lemma for_upto_calls:
  assumes "\<And>i s. i < n \<Longrightarrow> conf s = c \<Longrightarrow> conf (f i s) = c \<and> calls (f i s) = calls s @ g i" and "conf s = c"
  shows "conf (for_upto n f s) = c \<and> calls (for_upto n f s) = calls s @ concat (map g [0..<n])"
  using assms(1)
proof (induction n)
  case (Suc n)
  then show ?case by simp
qed (simp add: assms(2))

lemma concat_map_concat: "concat (map f (concat xss)) = concat (map (\<lambda>xs. concat (map f xs)) xss)"
  by (induction xss) auto

lemma enum_slot_calls:
  assumes m: "conf_mechanism b conf calls"
    and i: "\<And>d dev h s. d \<in> set ds \<Longrightarrow> conf (dr_init d dev h s) = conf s \<and> calls (dr_init d dev h s) = calls s @ [(tag d, dev, h)]"
    and c: "conf s = c"
  shows "conf (pci_enum_slot b ds bus slot s) = c \<and>
    calls (pci_enum_slot b ds bus slot s) = calls s @ concat (map (init_calls tag ds c) (slot_functions c bus slot))"
proof -
  let ?d = "\<lparr>pd_bus = bus, pd_slot = slot, pd_func = 0\<rparr>"
  define probe where "probe = (\<lambda>i s. let dev = ?d\<lparr>pd_func := of_nat (1 + i)\<rparr>; (h, s) = pci_get_header b dev s
     in if pc_vendor_id h = PCI_INVALID_VENDOR then s else pci_enum_func ds dev h s)"
  have p: "conf (probe i s) = c \<and> calls (probe i s) = calls s @
      (if conf16 c (?d\<lparr>pd_func := of_nat (1 + i)\<rparr>) 0 = PCI_INVALID_VENDOR then [] else init_calls tag ds c (?d\<lparr>pd_func := of_nat (1 + i)\<rparr>))"
    if "conf s = c" for i s
    using that enum_func_calls[OF i, where ?c = c] header_parts[OF m]
    by (simp add: probe_def Let_def case_prod_beta header_vendor)
  have h: "pci_enum_slot b ds bus slot s =
     (let s1 = snd (pci_get_header b ?d s); h = header_of c ?d
      in if conf16 c ?d 0 = PCI_INVALID_VENDOR then s1
         else if pc_multifunction h then for_upto 7 probe (pci_enum_func ds ?d h s1) else pci_enum_func ds ?d h s1)"
    using c header_parts[OF m, of ?d s] by (simp add: pci_enum_slot_def probe_def Let_def case_prod_beta header_vendor)
  define s1 where "s1 = snd (pci_get_header b ?d s)"
  have s1: "conf s1 = c" "calls s1 = calls s" using header_parts[OF m, of ?d s] c by (simp_all add: s1_def)
  define s2 where "s2 = pci_enum_func ds ?d (header_of c ?d) s1"
  have s2: "conf s2 = c" "calls s2 = calls s @ init_calls tag ds c ?d" using enum_func_calls[OF i, where ?c = c] s1 by (simp_all add: s2_def)
  have fl: "concat (map (\<lambda>i. if P (h i) then [] else f (h i)) ns) = concat (map f (filter (\<lambda>x. \<not> P x) (map h ns)))"
    for P f h and ns :: "nat list"
    by (induction ns) auto
  have "conf (for_upto 7 probe s2) = c \<and> calls (for_upto 7 probe s2) = calls s2 @
      concat (map (\<lambda>i. if conf16 c (?d\<lparr>pd_func := of_nat (1 + i)\<rparr>) 0 = PCI_INVALID_VENDOR then [] else init_calls tag ds c (?d\<lparr>pd_func := of_nat (1 + i)\<rparr>)) [0..<7])"
    by (rule for_upto_calls) (use p s2(1) in auto)
  then have "conf (for_upto 7 probe s2) = c \<and> calls (for_upto 7 probe s2) = calls s2 @
      concat (map (init_calls tag ds c) (filter (\<lambda>d. conf16 c d 0 \<noteq> PCI_INVALID_VENDOR) (map (\<lambda>i. ?d\<lparr>pd_func := of_nat (1 + i)\<rparr>) [0..<7])))"
    unfolding fl[of "\<lambda>x. conf16 c x 0 = PCI_INVALID_VENDOR" "\<lambda>i. ?d\<lparr>pd_func := of_nat (1 + i)\<rparr>" "init_calls tag ds c"] .
  then show ?thesis
    unfolding h Let_def s1_def[symmetric] s2_def[symmetric] slot_functions_def using s1 s2 by simp
qed

text \<open>
  On a machine with the documented configuration mechanism, the enumeration calls the initialiser of every driver once for every function
  that answers and has the driver's vendor and device number, with the header of the function, in the order of bus, slot,
  function and registration, and calls no initialiser otherwise.
\<close>

lemma pci_enum_calls:
  assumes "conf_mechanism b conf calls"
    and "\<And>d dev h s. d \<in> set ds \<Longrightarrow> conf (dr_init d dev h s) = conf s \<and> calls (dr_init d dev h s) = calls s @ [(tag d, dev, h)]"
  shows "calls (pci_enum b ds s) = calls s @ concat (map (init_calls tag ds (conf s)) (pci_functions (conf s)))"
proof -
  let ?c = "conf s" and ?g = "\<lambda>bus slot. concat (map (init_calls tag ds (conf s)) (slot_functions (conf s) (of_nat bus) (of_nat slot)))"
  have slot: "conf (for_upto PCI_NUM_DEVICES (\<lambda>slot s. pci_enum_slot b ds (of_nat bus) (of_nat slot) s) t) = ?c \<and>
      calls (for_upto PCI_NUM_DEVICES (\<lambda>slot s. pci_enum_slot b ds (of_nat bus) (of_nat slot) s) t) =
        calls t @ concat (map (?g bus) [0..<PCI_NUM_DEVICES])" if "conf t = ?c" for bus t
    by (rule for_upto_calls) (use enum_slot_calls[OF assms] that in auto)
  have "calls (pci_enum b ds s) = calls s @ concat (map (\<lambda>bus. concat (map (?g bus) [0..<PCI_NUM_DEVICES])) [0..<PCI_NUM_BUSES])"
    unfolding pci_enum_def by (rule for_upto_calls[where conf = conf and s = s and c = ?c, THEN conjunct2]) (rule slot, assumption, rule refl)
  then show ?thesis by (simp add: pci_functions_def concat_map_concat comp_def)
qed

section \<open>ISA DMA\<close>

definition ISA_DMA_MAX_ADDR :: u32 where "ISA_DMA_MAX_ADDR = 16 * 1024 * 1024"
definition ISA_DMA_MAX_LEN :: u32 where "ISA_DMA_MAX_LEN = 64 * 1024"
definition ISA_DMA_NUM_CHANNELS :: int where "ISA_DMA_NUM_CHANNELS = 8"
definition ISA_DMA_NUM_CONTROLLER_CHANNELS :: int where "ISA_DMA_NUM_CONTROLLER_CHANNELS = 4"
definition ISA_DMA_MODE_TYPE_MASK :: int where "ISA_DMA_MODE_TYPE_MASK = 3"

definition isa_dma_addr_ports :: "u16 list" where "isa_dma_addr_ports = [0x0, 0x2, 0x4, 0x6, 0xC0, 0xC4, 0xC8, 0xCC]"
definition isa_dma_addrx_ports :: "u16 list" where "isa_dma_addrx_ports = [0x87, 0x83, 0x81, 0x82, 0x8F, 0x8B, 0x89, 0x8A]"
definition isa_dma_offset_ports :: "u16 list" where "isa_dma_offset_ports = [0x1, 0x3, 0x5, 0x7, 0xC2, 0xC6, 0xCA, 0xCE]"

text \<open>The port of a register for the controller of a channel.\<close>

definition PORTV :: "u16 \<times> u16 \<Rightarrow> int \<Rightarrow> u16" where
  "PORTV p ch = (if ch \<ge> ISA_DMA_NUM_CONTROLLER_CHANNELS then snd p else fst p)"

definition isa_dma_single_mask_port :: "u16 \<times> u16" where "isa_dma_single_mask_port = (0x0A, 0xD4)"
definition isa_dma_mode_port :: "u16 \<times> u16" where "isa_dma_mode_port = (0x0B, 0xD6)"
definition isa_dma_flipflop_reset_port :: "u16 \<times> u16" where "isa_dma_flipflop_reset_port = (0x0C, 0xD8)"

definition isa_dma_set_mode :: "'s bus \<Rightarrow> int \<Rightarrow> int \<Rightarrow> bool \<Rightarrow> bool \<Rightarrow> int \<Rightarrow> 's \<Rightarrow> bool \<times> 's" where
  "isa_dma_set_mode b ch dir autoinit down type s =
     (if ch \<ge> ISA_DMA_NUM_CHANNELS then (False, s)
      else if dir > ISA_DMA_MODE_TYPE_MASK then (False, s)
      else if type > ISA_DMA_MODE_TYPE_MASK - 1 then (False, s)
      else
        let v = word_of_int (ch AND 3) OR word_of_int (push_bit 2 (dir AND 3)) OR push_bit 4 (of_bool autoinit) OR push_bit 5 (of_bool down)
                OR word_of_int (push_bit 6 (type AND ISA_DMA_MODE_TYPE_MASK)) :: u8
        in (True, outb b (PORTV isa_dma_mode_port ch) v s))"

definition isa_dma_set_state :: "'s bus \<Rightarrow> int \<Rightarrow> bool \<Rightarrow> 's \<Rightarrow> bool \<times> 's" where
  "isa_dma_set_state b ch enabled s =
     (if ch \<ge> ISA_DMA_NUM_CHANNELS then (False, s)
      else (True, outb b (PORTV isa_dma_single_mask_port ch) (push_bit 2 (of_bool (\<not> enabled)) OR word_of_int (ch AND 3)) s))"

definition isa_dma_reset_flipflop :: "'s bus \<Rightarrow> int \<Rightarrow> 's \<Rightarrow> bool \<times> 's" where
  "isa_dma_reset_flipflop b ch s =
     (if ch \<ge> ISA_DMA_NUM_CHANNELS then (False, s) else (True, outb b (PORTV isa_dma_flipflop_reset_port ch) 0 s))"

text \<open>A negative channel indexes in front of the arrays, a fault.\<close>

definition isa_dma_set_address :: "'s bus \<Rightarrow> int \<Rightarrow> u32 \<Rightarrow> 's \<Rightarrow> (bool \<times> 's) option" where
  "isa_dma_set_address b ch addr s =
     (if ch \<ge> ISA_DMA_NUM_CHANNELS then Some (False, s)
      else if addr > ISA_DMA_MAX_ADDR then Some (False, s)
      else if ch < 0 then None
      else
        let s = snd (isa_dma_reset_flipflop b ch s);
            start = drop_bit 1 addr;
            s = outb b (isa_dma_addr_ports ! nat ch) (ucast (start AND 0xFF)) s;
            s = outb b (isa_dma_addr_ports ! nat ch) (ucast (drop_bit 8 start AND 0xFF)) s;
            s = outb b (isa_dma_addrx_ports ! nat ch) (ucast (drop_bit 16 addr AND 0xFF)) s
        in Some (True, s))"

definition isa_dma_set_length :: "'s bus \<Rightarrow> int \<Rightarrow> size_t \<Rightarrow> 's \<Rightarrow> (bool \<times> 's) option" where
  "isa_dma_set_length b ch len s =
     (if ch \<ge> ISA_DMA_NUM_CHANNELS then Some (False, s)
      else if len > ISA_DMA_MAX_LEN then Some (False, s)
      else if ch < 0 then None
      else
        let s = snd (isa_dma_reset_flipflop b ch s);
            s = outb b (isa_dma_offset_ports ! nat ch) (ucast (len AND 0xFF)) s;
            s = outb b (isa_dma_offset_ports ! nat ch) (ucast (drop_bit 8 len AND 0xFF)) s
        in Some (True, s))"

text \<open>
  The start address is halved for every channel, although only the channels of the second controller count in words: channel 1 is
  programmed with the address 0x18000 for a buffer at 0x10000.
\<close>

lemma isa_dma_address_halved:
  "isa_dma_set_address trace_bus 1 0x10000 ([], []) = Some (True, [Out 1 0x0C 0, Out 1 2 0, Out 1 2 0x80, Out 1 0x83 1], [])"
  by (simp add: isa_dma_set_address_def ISA_DMA_NUM_CHANNELS_def ISA_DMA_MAX_ADDR_def isa_dma_reset_flipflop_def PORTV_def
      ISA_DMA_NUM_CONTROLLER_CHANNELS_def isa_dma_flipflop_reset_port_def isa_dma_addr_ports_def isa_dma_addrx_ports_def port_simps Let_def)

text \<open>A channel of the second controller is programmed with the word address and the page of the buffer.\<close>

lemma isa_dma_address_words:
  "isa_dma_set_address trace_bus 5 0x21234 ([], []) = Some (True, [Out 1 0xD8 0, Out 1 0xC4 0x1A, Out 1 0xC4 0x09, Out 1 0x8B 2], [])"
  by (simp add: isa_dma_set_address_def ISA_DMA_NUM_CHANNELS_def ISA_DMA_MAX_ADDR_def isa_dma_reset_flipflop_def PORTV_def
      ISA_DMA_NUM_CONTROLLER_CHANNELS_def isa_dma_flipflop_reset_port_def isa_dma_addr_ports_def isa_dma_addrx_ports_def port_simps Let_def)

lemma isa_dma_refuses:
  "ISA_DMA_NUM_CHANNELS \<le> ch \<Longrightarrow> isa_dma_set_address b ch addr s = Some (False, s)"
  "ISA_DMA_MAX_ADDR < addr \<Longrightarrow> isa_dma_set_address b ch addr s = Some (False, s)"
  "ISA_DMA_MAX_LEN < len \<Longrightarrow> isa_dma_set_length b ch len s = Some (False, s)"
  by (simp_all add: isa_dma_set_address_def isa_dma_set_length_def)

end
