(* ===== verification/Ata.thy ===== *)
theory Ata
  imports Pci Paging Devices Strconv
begin

text \<open>
  The driver for ATA disks, \<^verbatim>\<open>drivers/ata.c\<close>, over an arbitrary bus: polling, identification, transfers by programmed input and output and by
  DMA, and the device operations.

  Functions work on kernel memory and the state of the bus. \<open>None\<close> is a panic, a failed assertion, a store through a null pointer, or a
  drive that stays busy for ever. A DMA transfer changes memory behind the processor's back: \<open>fill s\<close> is what the drive has put
  into the transfer region when the wait ends. Log messages are compiled out in the configuration of the repository.
\<close>

section \<open>Registers\<close>

definition ATA_REG_DATA :: u16 where "ATA_REG_DATA = 0"
definition ATA_REG_SECTOR_COUNT :: u16 where "ATA_REG_SECTOR_COUNT = 2"
definition ATA_REG_LBA_LOW :: u16 where "ATA_REG_LBA_LOW = 3"
definition ATA_REG_LBA_MID :: u16 where "ATA_REG_LBA_MID = 4"
definition ATA_REG_LBA_HI :: u16 where "ATA_REG_LBA_HI = 5"
definition ATA_REG_DRIVE_HEAD :: u16 where "ATA_REG_DRIVE_HEAD = 6"
definition ATA_REG_STAT :: u16 where "ATA_REG_STAT = 7"
definition ATA_REG_CMD :: u16 where "ATA_REG_CMD = 7"
definition ATA_REG_DEV_CTL :: u16 where "ATA_REG_DEV_CTL = 0"
definition ATA_REG_ALT_STAT :: u16 where "ATA_REG_ALT_STAT = 0"
definition ATA_REG_BM_CMD :: u16 where "ATA_REG_BM_CMD = 0"
definition ATA_REG_BM_STATUS :: u16 where "ATA_REG_BM_STATUS = 2"
definition ATA_REG_BM_PRDT :: u16 where "ATA_REG_BM_PRDT = 4"
definition ATA_BM_SECONDARY_OFFSET :: u32 where "ATA_BM_SECONDARY_OFFSET = 8"
definition ATA_BM_STATUS_INTR :: u8 where "ATA_BM_STATUS_INTR = 4"
definition ATA_BM_STATUS_ERR :: u8 where "ATA_BM_STATUS_ERR = 2"
definition ATA_STATUS_BSY :: u8 where "ATA_STATUS_BSY = 0x80"
definition ATA_STATUS_DFA :: u8 where "ATA_STATUS_DFA = 0x20"
definition ATA_STATUS_DRQ :: u8 where "ATA_STATUS_DRQ = 0x08"
definition ATA_STATUS_ERR :: u8 where "ATA_STATUS_ERR = 0x01"
definition ATA_CMD_IDENTIFY :: u8 where "ATA_CMD_IDENTIFY = 0xEC"
definition ATA_CMD_FLUSH :: u8 where "ATA_CMD_FLUSH = 0xE7"
definition ATA_CMD_READ :: u8 where "ATA_CMD_READ = 0x20"
definition ATA_CMD_WRITE :: u8 where "ATA_CMD_WRITE = 0x30"
definition ATA_CMD_READ_DMA :: u8 where "ATA_CMD_READ_DMA = 0xC8"

lemmas ata_regs = ATA_REG_DATA_def ATA_REG_SECTOR_COUNT_def ATA_REG_LBA_LOW_def ATA_REG_LBA_MID_def ATA_REG_LBA_HI_def
  ATA_REG_DRIVE_HEAD_def ATA_REG_STAT_def ATA_REG_CMD_def ATA_REG_DEV_CTL_def ATA_REG_ALT_STAT_def

record ata_prd_entry =
  prd_phys_addr :: u32
  prd_nbytes :: u16
  prd_is_end :: bool

record ata_port =
  ap_io_base :: u16
  ap_ctl_base :: u16
  ap_dma :: bool
  ap_busmaster :: u16
  ap_dma_region :: ptr
  ap_prdt :: ptr
  ap_prd :: ata_prd_entry

definition store16 :: "mem \<Rightarrow> ptr \<Rightarrow> u16 \<Rightarrow> mem" where
  "store16 m a v = m(a := ucast v, a + 1 := ucast (drop_bit 8 v))"

definition load16 :: "mem \<Rightarrow> ptr \<Rightarrow> u16" where
  "load16 m a = ucast (m a) OR push_bit 8 (ucast (m (a + 1)))"

section \<open>Commands\<close>

definition ata_stat_port :: "ata_port \<Rightarrow> bool \<Rightarrow> u16" where
  "ata_stat_port port alternate = (if alternate then ap_ctl_base port + ATA_REG_ALT_STAT else ap_io_base port + ATA_REG_STAT)"

definition ata_io_wait :: "'s bus \<Rightarrow> ata_port \<Rightarrow> bool \<Rightarrow> 's \<Rightarrow> 's" where
  "ata_io_wait b port alternate s = for_upto 14 (\<lambda>_ s. snd (inb b (ata_stat_port port alternate) s)) s"

partial_function (option) ata_poll :: "'s bus \<Rightarrow> ata_port \<Rightarrow> bool \<Rightarrow> bool \<Rightarrow> bool \<Rightarrow> 's \<Rightarrow> 's option" where
  "ata_poll b port alternate data dma s =
     (let (v, s) = inb b (ata_stat_port port alternate) s;
          (dv, s) = (if dma then inb b (ap_busmaster port + ATA_REG_BM_STATUS) s else (0, s))
      in if dma \<and> dv AND ATA_BM_STATUS_INTR \<noteq> 0 \<and> dv AND ATA_BM_STATUS_ERR = 0 \<or>
            (v AND ATA_STATUS_BSY \<noteq> 0 \<or> data \<and> v AND ATA_STATUS_DRQ = 0) \<and> v AND ATA_STATUS_ERR = 0 \<and> v AND ATA_STATUS_DFA = 0
         then ata_poll b port alternate data dma s
         else if dma \<and> dv AND ATA_BM_STATUS_ERR \<noteq> 0 then None
         else if v AND ATA_STATUS_ERR \<noteq> 0 \<or> v AND ATA_STATUS_DFA \<noteq> 0 then None
         else Some s)"

definition ata_drive_select :: "'s bus \<Rightarrow> ata_port \<Rightarrow> int \<Rightarrow> 's \<Rightarrow> 's" where
  "ata_drive_select b port drive s = outb b (ap_io_base port + ATA_REG_DRIVE_HEAD) (0xA0 OR push_bit 4 (word_of_int (drive AND 1))) s"

definition ata_get_selected_drive :: "'s bus \<Rightarrow> ata_port \<Rightarrow> 's \<Rightarrow> u8 \<times> 's" where
  "ata_get_selected_drive b port s = (let (v, s) = inb b (ap_io_base port + ATA_REG_DRIVE_HEAD) s in (drop_bit 4 v AND 1, s))"

definition ata_send_command :: "'s bus \<Rightarrow> ata_port \<Rightarrow> u8 \<Rightarrow> 's \<Rightarrow> 's" where
  "ata_send_command b port command s = outb b (ap_io_base port + ATA_REG_CMD) command s"

definition ata_read_status :: "'s bus \<Rightarrow> ata_port \<Rightarrow> bool \<Rightarrow> 's \<Rightarrow> u8 \<times> 's" where
  "ata_read_status b port alternate s = inb b (ata_stat_port port alternate) s"

definition ata_reset :: "'s bus \<Rightarrow> ata_port \<Rightarrow> 's \<Rightarrow> 's option" where
  "ata_reset b port s =
     (let s = outb b (ap_ctl_base port + ATA_REG_DEV_CTL) 4 s;
          s = for_upto 12 (\<lambda>_ s. ata_io_wait b port False s) s;
          s = outb b (ap_ctl_base port + ATA_REG_DEV_CTL) 0 s
      in ata_poll b port False False False s)"

text \<open>The order of the two bytes of each word is exchanged in place.\<close>

definition ata_reorder_string :: "mem \<Rightarrow> ptr \<Rightarrow> int \<Rightarrow> mem" where
  "ata_reorder_string m str sz =
     for_upto (nat (c_div sz 2))
       (\<lambda>i m. let v = load16 m (str + 2 * of_nat i);
                  m = m(str + 2 * of_nat i := ucast (drop_bit 8 v))
              in m(str + 2 * of_nat i + 1 := ucast v)) m"

text \<open>Polling after the identification command; \<open>None\<close> in the result is a device that is not an ATA disk, otherwise the error bit.\<close>

partial_function (option) ata_identify_poll :: "'s bus \<Rightarrow> ata_port \<Rightarrow> u8 \<Rightarrow> 's \<Rightarrow> (bool option \<times> 's) option" where
  "ata_identify_poll b port status s =
     (if status AND ATA_STATUS_ERR \<noteq> 0 then Some (Some True, s)
      else if status AND ATA_STATUS_DRQ \<noteq> 0 then Some (Some False, s)
      else
        let (v, s) = inb b (ap_io_base port + ATA_REG_LBA_MID) s;
            (w, s) = (if v \<noteq> 0 then (v, s) else inb b (ap_io_base port + ATA_REG_LBA_HI) s)
        in if w \<noteq> 0 then Some (None, s)
           else let (status, s) = ata_read_status b port False s in ata_identify_poll b port status s)"

definition ata_identify :: "'s bus \<Rightarrow> ata_port \<Rightarrow> int \<Rightarrow> mem \<times> kheap \<times> 's \<Rightarrow> ((mem \<times> kheap \<times> 's) \<times> ptr) option" where
  "ata_identify b port drive st = do {
     let (m, h, s) = st;
     (m, h, rdata) \<leftarrow> kmalloc m h 512;
     if rdata = NULL then None
     else do {
       let m = memset m rdata 0 512;
       s \<leftarrow> ata_reset b port s;
       let s = ata_drive_select b port drive (ata_io_wait b port False s);
       s \<leftarrow> ata_poll b port False False False s;
       let s = outb b (ap_io_base port + ATA_REG_LBA_LOW) 0 s;
       let s = outb b (ap_io_base port + ATA_REG_LBA_MID) 0 s;
       let s = outb b (ap_io_base port + ATA_REG_LBA_HI) 0 s;
       let s = ata_send_command b port ATA_CMD_IDENTIFY s;
       let (status, s) = ata_read_status b port False s;
       if status = 0 then (let (m, h) = kfree m h rdata 512 in Some ((m, h, s), NULL))
       else do {
         let (lba_lo, s) = inb b (ap_io_base port + ATA_REG_LBA_LOW) s;
         let (lba_hi, s) = inb b (ap_io_base port + ATA_REG_LBA_HI) s;
         if lba_lo \<noteq> 0 \<or> lba_hi \<noteq> 0 then (let (m, h) = kfree m h rdata 512 in Some ((m, h, s), NULL))
         else do {
           let (status, s) = ata_read_status b port False s;
           (r, s) \<leftarrow> ata_identify_poll b port status s;
           case r of
             None \<Rightarrow> (let (m, h) = kfree m h rdata 512 in Some ((m, h, s), NULL))
           | Some True \<Rightarrow> Some ((m, h, s), NULL)
           | Some False \<Rightarrow>
               let (m, s) = for_upto 256 (\<lambda>i (m, s). let (v, s) = inw b (ap_io_base port + ATA_REG_DATA) s
                                                    in (store16 m (rdata + 2 * of_nat i) v, s)) (m, s);
                   m = ata_reorder_string m (rdata + 54) 40;
                   m = ata_reorder_string m (rdata + 20) 20
               in Some ((m, h, s), rdata) } } } }"

section \<open>Transfers\<close>

definition ata_prepare_transfer :: "'s bus \<Rightarrow> ata_port \<Rightarrow> u8 \<Rightarrow> u32 \<Rightarrow> u8 \<Rightarrow> 's \<Rightarrow> 's option" where
  "ata_prepare_transfer b port command lba sector_count s =
     (let (d, s) = ata_get_selected_drive b port s;
          s = outb b (ap_io_base port + ATA_REG_DRIVE_HEAD) (push_bit 4 d OR 0xE0 OR ucast (drop_bit 24 lba AND 0x0F)) s;
          s = outb b (ap_io_base port + ATA_REG_SECTOR_COUNT) sector_count s;
          s = outb b (ap_io_base port + ATA_REG_LBA_LOW) (ucast (lba AND 0xFF)) s;
          s = outb b (ap_io_base port + ATA_REG_LBA_MID) (ucast (drop_bit 8 lba AND 0xFF)) s;
          s = outb b (ap_io_base port + ATA_REG_LBA_HI) (ucast (drop_bit 16 lba AND 0xFF)) s
      in do {
        s \<leftarrow> ata_poll b port False False False s;
        Some (outb b (ap_io_base port + ATA_REG_CMD) command s) })"

definition read_sector :: "'s bus \<Rightarrow> ata_port \<Rightarrow> ptr \<Rightarrow> mem \<times> 's \<Rightarrow> mem \<times> 's" where
  "read_sector b port buf st =
     for_upto 256 (\<lambda>j (m, s). let (v, s) = inw b (ap_io_base port + ATA_REG_DATA) s in (store16 m (buf + 2 * of_nat j) v, s)) st"

definition ata_pio_read :: "'s bus \<Rightarrow> ata_port \<Rightarrow> ptr \<Rightarrow> u32 \<Rightarrow> u8 \<Rightarrow> mem \<times> 's \<Rightarrow> (mem \<times> 's) option" where
  "ata_pio_read b port buf lba sector_count st = do {
     let (m, s) = st;
     s \<leftarrow> ata_poll b port False False False s;
     s \<leftarrow> ata_prepare_transfer b port ATA_CMD_READ lba sector_count s;
     for_opt (unat sector_count)
       (\<lambda>i (m, s). do {
          s \<leftarrow> ata_poll b port False True False s;
          Some (read_sector b port (buf + 512 * of_nat i) (m, s)) }) (m, s) }"

definition write_sector :: "'s bus \<Rightarrow> ata_port \<Rightarrow> ptr \<Rightarrow> mem \<Rightarrow> 's \<Rightarrow> 's" where
  "write_sector b port buf m s = for_upto 256 (\<lambda>j s. outw b (ap_io_base port + ATA_REG_DATA) (load16 m (buf + 2 * of_nat j)) s) s"

definition ata_pio_write :: "'s bus \<Rightarrow> ata_port \<Rightarrow> ptr \<Rightarrow> u32 \<Rightarrow> u8 \<Rightarrow> mem \<times> 's \<Rightarrow> (mem \<times> 's) option" where
  "ata_pio_write b port buf lba sector_count st = do {
     let (m, s) = st;
     s \<leftarrow> ata_poll b port False False False s;
     s \<leftarrow> ata_prepare_transfer b port ATA_CMD_WRITE lba sector_count s;
     s \<leftarrow> ata_poll b port False False False s;
     s \<leftarrow> for_opt (unat sector_count)
       (\<lambda>i s. ata_poll b port False False False
          (outb b (ap_io_base port + ATA_REG_CMD) ATA_CMD_FLUSH (write_sector b port (buf + 512 * of_nat i) m s))) s;
     Some (m, s) }"

partial_function (option) ata_dma_wait :: "'s bus \<Rightarrow> ata_port \<Rightarrow> 's \<Rightarrow> 's option" where
  "ata_dma_wait b port s =
     (let (dst, s) = inb b (ap_busmaster port + ATA_REG_BM_STATUS) s;
          (st, s) = inb b (ap_io_base port + ATA_REG_STAT) s
      in if dst AND ATA_BM_STATUS_INTR = 0 then ata_dma_wait b port s
         else if st AND ATA_STATUS_BSY = 0 then Some s
         else ata_dma_wait b port s)"

text \<open>Writing the status bits back resets them.\<close>

definition ata_bm_reset :: "'s bus \<Rightarrow> ata_port \<Rightarrow> 's \<Rightarrow> 's" where
  "ata_bm_reset b port s =
     (let (v, s) = inb b (ap_busmaster port + ATA_REG_BM_STATUS) s
      in outb b (ap_busmaster port + ATA_REG_BM_STATUS) (v OR ATA_BM_STATUS_INTR OR ATA_BM_STATUS_ERR) s)"

definition ata_dma_read ::
    "'s bus \<Rightarrow> ('s \<Rightarrow> nat \<Rightarrow> u8) \<Rightarrow> ata_port \<Rightarrow> ptr \<Rightarrow> u32 \<Rightarrow> u8 \<Rightarrow> mem \<times> 's \<Rightarrow> (ata_port \<times> mem \<times> 's) option" where
  "ata_dma_read b fill port buf lba sector_count st = do {
     let (m, s) = st;
     if sector_count > 128 then None
     else do {
       s \<leftarrow> ata_poll b port False False False s;
       let port = port\<lparr>ap_prd := (ap_prd port)\<lparr>prd_nbytes := ucast sector_count * 512\<rparr>\<rparr>;
       let s = outb b (ap_busmaster port + ATA_REG_BM_CMD) 0 s;
       let s = outl b (ap_busmaster port + ATA_REG_BM_PRDT) (ADDR_TO_PHYS (ap_prdt port)) s;
       let s = ata_bm_reset b port s;
       let s = outb b (ap_busmaster port + ATA_REG_BM_CMD) 8 s;
       s \<leftarrow> ata_poll b port False False False s;
       s \<leftarrow> ata_prepare_transfer b port ATA_CMD_READ_DMA lba sector_count s;
       let s = ata_io_wait b port False s;
       let s = outb b (ap_busmaster port + ATA_REG_BM_CMD) (0x08 OR 0x1) s;
       s \<leftarrow> ata_dma_wait b port s;
       let m = put_bytes m (ap_dma_region port) (map (fill s) [0..<512 * unat sector_count]);
       let m = memcpy m buf (ap_dma_region port) (ucast sector_count * 512);
       Some (port, m, ata_bm_reset b port s) } }"

section \<open>The device\<close>

record ata_dev_impl =
  ad_port :: ata_port
  ad_info :: ptr
  ad_drive :: int

definition current_sector_capacity :: "mem \<Rightarrow> ptr \<Rightarrow> u32" where
  "current_sector_capacity m info = load32 m (info + 114)"

text \<open>\<open>BOUNDS_CHECK\<close>: \<open>None\<close> is the early return of 0.\<close>

definition bounds_check :: "u32 \<Rightarrow> u32 \<Rightarrow> u32 \<Rightarrow> u32 option" where
  "bounds_check cap sector n =
     (if sector \<ge> cap then None else if sector + n \<ge> cap then Some (cap - sector) else Some n)"

definition ata_write :: "'s bus \<Rightarrow> ata_dev_impl \<Rightarrow> (mem \<times> 's) transfer" where
  "ata_write b d st buf count off =
     (case bounds_check (current_sector_capacity (fst st) (ad_info d)) off count of
        None \<Rightarrow> Some (st, off, 0)
      | Some count \<Rightarrow>
          if count = 0 then Some (st, off, 0)
          else do {
            st \<leftarrow> ata_pio_write b (ad_port d) buf off (ucast count) (fst st, ata_drive_select b (ad_port d) (ad_drive d) (snd st));
            Some (st, off + count, sint count) })"

definition ata_read :: "'s bus \<Rightarrow> ('s \<Rightarrow> nat \<Rightarrow> u8) \<Rightarrow> ata_dev_impl \<Rightarrow> (mem \<times> 's) transfer" where
  "ata_read b fill d st buf count off =
     (case bounds_check (current_sector_capacity (fst st) (ad_info d)) off count of
        None \<Rightarrow> Some (st, off, 0)
      | Some count \<Rightarrow>
          if count = 0 then Some (st, off, 0)
          else do {
            st \<leftarrow> (if ap_dma (ad_port d) then map_option snd (ata_dma_read b fill (ad_port d) buf off (ucast count) st)
                   else ata_pio_read b (ad_port d) buf off (ucast count) st);
            Some (st, off + count, sint count) })"


definition ATA_PRDT_BYTES :: u32 where "ATA_PRDT_BYTES = 8"

text \<open>
  Device and port structures are values, created from the uninitialised block \<open>raw\<close>. The name of a device is the contents of its
  buffer, \<^verbatim>\<open>"ata"\<close> and the number of the device.
\<close>

definition create_ata_device :: "(mem \<times> 's) device \<Rightarrow> 's bus \<Rightarrow> ('s \<Rightarrow> nat \<Rightarrow> u8) \<Rightarrow> ata_dev_impl \<Rightarrow> (mem \<times> 's) device" where
  "create_ata_device raw b fill impl =
     raw\<lparr>d_write := Some (ata_write b impl), d_read := Some (ata_read b fill impl), d_seek := None, d_type := DEV_BLOCK, d_block_size := 512,
       d_class := DEV_C_STORAGE, d_pos := 0\<rparr>"

definition create_ata_port :: "ata_port \<Rightarrow> u16 \<Rightarrow> u16 \<Rightarrow> ata_port" where
  "create_ata_port raw ctl io = raw\<lparr>ap_ctl_base := ctl, ap_io_base := io, ap_busmaster := 0\<rparr>"

definition ata_dma_init :: "pgstate \<Rightarrow> ptr \<Rightarrow> ata_port \<Rightarrow> u16 \<Rightarrow> (pgstate \<times> ata_port) option" where
  "ata_dma_init st kernel_pgd port busmaster = do {
     let port = port\<lparr>ap_dma := True, ap_busmaster := busmaster\<rparr>;
     (st, prdt) \<leftarrow> st_kmalloc st ATA_PRDT_BYTES;
     if prdt = NULL then None
     else if prdt mod 4 \<noteq> 0 then None
     else do {
       let (region, p) = pmm_alloc (pg_pmm st) 16;
       st \<leftarrow> map_addr_fixed (st\<lparr>pg_pmm := p\<rparr>) kernel_pgd (ADDR_TO_VIRT region) region 16 0 0;
       Some (st, port\<lparr>ap_prdt := prdt, ap_dma_region := ADDR_TO_VIRT region,
                    ap_prd := \<lparr>prd_phys_addr = region, prd_nbytes = 0, prd_is_end = True\<rparr>\<rparr>) } }"

text \<open>The result is the state with the primary and the secondary port. A header without a general part has zero base addresses.\<close>

definition ata_pci_init ::
    "'s bus \<Rightarrow> ptr \<Rightarrow> pci_device \<Rightarrow> pci_header \<Rightarrow> pgstate \<times> ata_port \<times> ata_port \<times> 's \<Rightarrow> (pgstate \<times> ata_port \<times> ata_port \<times> 's) option" where
  "ata_pci_init b kernel_pgd dev h st = do {
     let (pst, primary, secondary, s) = st;
     let bar4 = (case pc_general_device h of Some g \<Rightarrow> pg_bars g ! 4 | None \<Rightarrow> 0) AND NOT 3;
     let (cmd, s) = pci_conf_read16 b dev 0x4 s;
     let s = pci_conf_write16 b dev 0x4 (cmd OR 0x4) s;
     (pst, primary) \<leftarrow> ata_dma_init pst kernel_pgd primary (ucast bar4);
     (pst, secondary) \<leftarrow> ata_dma_init pst kernel_pgd secondary (ucast (bar4 + ATA_BM_SECONDARY_OFFSET));
     Some (pst, primary, secondary, s) }"

text \<open>
  One use of \<^verbatim>\<open>ATA_REGDEV\<close> and the whole initialisation: \<open>raw\<close> and \<open>obj\<close> give the block and the object number of the device
  that is created for the number \<open>i\<close>.
\<close>

definition ATA_REGDEV ::
    "'s bus \<Rightarrow> ('s \<Rightarrow> nat \<Rightarrow> u8) \<Rightarrow> (u32 \<Rightarrow> (mem \<times> 's) device) \<Rightarrow> (u32 \<Rightarrow> nat) \<Rightarrow> ata_port \<Rightarrow> int \<Rightarrow>
     (mem \<times> kheap \<times> 's) \<times> (mem \<times> 's) devreg \<times> 'w nodes \<times> u32 \<Rightarrow> ((mem \<times> kheap \<times> 's) \<times> (mem \<times> 's) devreg \<times> 'w nodes \<times> u32) option" where
  "ATA_REGDEV b fill raw obj p d st = do {
     let (ms, r, ns, i) = st;
     ((m, h, s), info) \<leftarrow> ata_identify b p d ms;
     if info = NULL then Some ((m, h, s), r, ns, i)
     else do {
       (m, h, buf) \<leftarrow> kmalloc m h 8;
       if buf = NULL then None
       else do {
         let m = memset m buf 0 8;
         m \<leftarrow> itoa m i 10 (buf + 3);
         let m = put_bytes m buf (map (\<lambda>ch. of_nat (of_char ch)) ''ata'');
         let dev = create_ata_device (raw i) b fill \<lparr>ad_port = p, ad_info = info, ad_drive = d\<rparr>;
         len \<leftarrow> strlen m buf;
         let dev = dev\<lparr>d_name := map (\<lambda>j. char_of (unat (m (buf + of_nat j)))) [0..<unat len]\<rparr>;
         let r = r\<lparr>dobj := (dobj r)(obj i := dev)\<rparr>;
         let (r, ns) = register_device r ns (obj i);
         Some ((m, h, s), r, ns, i + 1) } } }"

definition ata_init ::
    "'s bus \<Rightarrow> ('s \<Rightarrow> nat \<Rightarrow> u8) \<Rightarrow> (u32 \<Rightarrow> (mem \<times> 's) device) \<Rightarrow> (u32 \<Rightarrow> nat) \<Rightarrow> ata_port \<Rightarrow> ata_port \<Rightarrow> 's pci_driver \<Rightarrow> 's pci_driver list \<Rightarrow>
     (mem \<times> kheap \<times> 's) \<times> (mem \<times> 's) devreg \<times> 'w nodes \<Rightarrow>
     (((mem \<times> kheap \<times> 's) \<times> (mem \<times> 's) devreg \<times> 'w nodes \<times> u32) \<times> 's pci_driver list) option" where
  "ata_init b fill raw obj raw1 raw2 driver ds st = do {
     let primary = create_ata_port raw1 0x3F6 0x1F0;
     let secondary = create_ata_port raw2 0x376 0x170;
     let (ms, r, ns) = st;
     st \<leftarrow> ATA_REGDEV b fill raw obj primary 0 (ms, r, ns, 0);
     st \<leftarrow> ATA_REGDEV b fill raw obj primary 1 st;
     st \<leftarrow> ATA_REGDEV b fill raw obj secondary 0 st;
     st \<leftarrow> ATA_REGDEV b fill raw obj secondary 1 st;
     Some (st, pci_register_driver driver ds) }"

section \<open>A drive\<close>

text \<open>
  The documented register protocol of a drive, as a reference: after a read command the drive is busy for some time, then offers the
  words of the sectors in the order of their numbers, busy again after each sector; after a write command it takes the words of
  one sector. The status shows \<^verbatim>\<open>BSY\<close> for as many reads as \<open>dk_busy\<close> says, for arbitrary times \<open>delay\<close>. A command that arrives during
  a transfer, and data that arrive while the drive is busy, have no effect.
\<close>

record drive =
  dk_head :: u8
  dk_count :: u8
  dk_low :: u8
  dk_mid :: u8
  dk_hi :: u8
  dk_busy :: nat
  dk_out :: "u16 list"
  dk_wr :: "(nat \<times> u16 list) option"
  dk_sectors :: "nat \<Rightarrow> u16 list"

definition dk_lba :: "drive \<Rightarrow> nat" where
  "dk_lba d = unat (ucast (dk_low d) OR push_bit 8 (ucast (dk_mid d)) OR push_bit 16 (ucast (dk_hi d)) OR push_bit 24 (ucast (dk_head d) AND 0x0F) :: u32)"

definition dk_drq :: "drive \<Rightarrow> bool" where
  "dk_drq d \<longleftrightarrow> dk_out d \<noteq> [] \<or> dk_wr d \<noteq> None"

definition drive_in :: "(drive \<Rightarrow> nat) \<Rightarrow> nat \<Rightarrow> u16 \<Rightarrow> drive \<Rightarrow> u32 \<times> drive" where
  "drive_in delay w reg d =
     (if reg = 7 then (case dk_busy d of Suc n \<Rightarrow> (0x80, d\<lparr>dk_busy := n\<rparr>) | 0 \<Rightarrow> (if dk_drq d then 0x48 else 0x40, d))
      else if reg = 6 then (ucast (dk_head d), d)
      else if reg = 0 \<and> w = 2 \<and> dk_busy d = 0 then
        (case dk_out d of [] \<Rightarrow> (0, d)
         | v # q \<Rightarrow> (ucast v, d\<lparr>dk_out := q, dk_busy := if 256 dvd length q then delay d else 0\<rparr>))
      else (0, d))"

definition drive_out :: "(drive \<Rightarrow> nat) \<Rightarrow> nat \<Rightarrow> u16 \<Rightarrow> u32 \<Rightarrow> drive \<Rightarrow> drive" where
  "drive_out delay w reg v d =
     (if reg = 7 then
        if dk_busy d \<noteq> 0 \<or> dk_drq d then d
        else if v = 0x20 then
          d\<lparr>dk_out := concat (map (dk_sectors d) [dk_lba d..<dk_lba d + (if dk_count d = 0 then 256 else unat (dk_count d))]), dk_busy := delay d\<rparr>
        else if v = 0x30 then d\<lparr>dk_wr := Some (dk_lba d, []), dk_busy := delay d\<rparr>
        else d\<lparr>dk_busy := delay d\<rparr>
      else if reg = 6 then d\<lparr>dk_head := ucast v\<rparr>
      else if reg = 5 then d\<lparr>dk_hi := ucast v\<rparr>
      else if reg = 4 then d\<lparr>dk_mid := ucast v\<rparr>
      else if reg = 3 then d\<lparr>dk_low := ucast v\<rparr>
      else if reg = 2 then d\<lparr>dk_count := ucast v\<rparr>
      else if reg = 0 \<and> w = 2 \<and> dk_busy d = 0 then
        (case dk_wr d of None \<Rightarrow> d
         | Some (l, ws) \<Rightarrow>
             if length ws = 255 then d\<lparr>dk_wr := None, dk_sectors := (dk_sectors d)(l := ws @ [ucast v]), dk_busy := delay d\<rparr>
             else d\<lparr>dk_wr := Some (l, ws @ [ucast v])\<rparr>)
      else d)"

text \<open>A bus on which the eight registers at \<open>io\<close> behave like such a drive; \<open>view\<close> reads the drive from the state of the bus.\<close>

definition drive_at :: "'s bus \<Rightarrow> u16 \<Rightarrow> (drive \<Rightarrow> nat) \<Rightarrow> ('s \<Rightarrow> drive) \<Rightarrow> bool" where
  "drive_at b io delay view \<longleftrightarrow>
     (\<forall>w reg s. reg < 8 \<longrightarrow> fst (bus_in b w (io + reg) s) = fst (drive_in delay w reg (view s)) \<and>
        view (snd (bus_in b w (io + reg) s)) = snd (drive_in delay w reg (view s))) \<and>
     (\<forall>w reg v s. reg < 8 \<longrightarrow> view (bus_out b w (io + reg) v s) = drive_out delay w reg v (view s))"

lemma drive_accesses:
  assumes "drive_at b io delay view" and "reg < 8"
  shows "view (outb b (io + reg) v8 s) = drive_out delay 1 reg (ucast v8) (view s)"
    and "view (outw b (io + reg) v16 s) = drive_out delay 2 reg (ucast v16) (view s)"
    and "fst (inb b (io + reg) s) = ucast (fst (drive_in delay 1 reg (view s)))"
    and "view (snd (inb b (io + reg) s)) = snd (drive_in delay 1 reg (view s))"
    and "fst (inw b (io + reg) s) = ucast (fst (drive_in delay 2 reg (view s)))"
    and "view (snd (inw b (io + reg) s)) = snd (drive_in delay 2 reg (view s))"
  using assms by (auto simp: drive_at_def outb_def outw_def inb_def inw_def case_prod_beta)

text \<open>Polling ends, however long the drive is busy.\<close>

lemma ata_poll_ready:
  assumes law: "drive_at b (ap_io_base port) delay view" and "data \<Longrightarrow> dk_drq (view s)"
  shows "\<exists>s'. ata_poll b port False data False s = Some s' \<and> view s' = (view s)\<lparr>dk_busy := 0\<rparr>"
  using assms(2)
proof (induction "dk_busy (view s)" arbitrary: s)
  case 0
  note st = drive_accesses(3,4)[OF law, of 7 s]
  from 0 st show ?case
    by (subst ata_poll.simps, cases data)
      (simp_all add: ata_stat_port_def ata_regs case_prod_beta drive_in_def ATA_STATUS_BSY_def ATA_STATUS_DRQ_def ATA_STATUS_ERR_def ATA_STATUS_DFA_def)
next
  case (Suc n)
  define s1 where "s1 = snd (inb b (ap_io_base port + 7) s)"
  have v: "fst (inb b (ap_io_base port + 7) s) = 0x80" "view s1 = (view s)\<lparr>dk_busy := n\<rparr>"
    using drive_accesses(3,4)[OF law, of 7 s] Suc(2) by (simp_all add: drive_in_def s1_def split: nat.splits)
  have "ata_poll b port False data False s = ata_poll b port False data False s1"
    using v(1) by (subst ata_poll.simps)
      (simp add: ata_stat_port_def ata_regs case_prod_beta s1_def ATA_STATUS_BSY_def ATA_STATUS_DRQ_def ATA_STATUS_ERR_def ATA_STATUS_DFA_def)
  with Suc(1)[of s1] v(2) Suc(3) show ?case by (auto simp: dk_drq_def)
qed

lemma lba_registers:
  assumes "unat lba < 2 ^ 28"
  shows "(ucast (ucast (lba AND 0xFF) :: u8) OR push_bit 8 (ucast (ucast (drop_bit 8 lba AND 0xFF) :: u8)) OR
      push_bit 16 (ucast (ucast (drop_bit 16 lba AND 0xFF) :: u8)) OR
      push_bit 24 (ucast (push_bit 4 h OR 0xE0 OR ucast (drop_bit 24 lba AND 0x0F) :: u8) AND 0x0F)) = (lba :: u32)"
proof (rule bit_word_eqI)
  have m: "(0xFF :: u32) = mask 8" "(0x0F :: u32) = mask 4" "(0xE0 :: u8) = push_bit 5 (mask 3)" by (simp_all add: mask_eq_exp_minus_1)
  have hi: "\<not> bit lba n" if "28 \<le> n" for n
  proof -
    have "take_bit 28 lba = lba" using assms by (simp add: take_bit_nat_eq_self unsigned_take_bit_eq word_unat_eq_iff)
    then have "bit lba n = bit (take_bit 28 lba) n" by simp
    with that show ?thesis by (simp add: bit_take_bit_iff)
  qed
  fix n assume "n < LENGTH(32)"
  then show "bit (ucast (ucast (lba AND 0xFF) :: u8) OR push_bit 8 (ucast (ucast (drop_bit 8 lba AND 0xFF) :: u8)) OR
      push_bit 16 (ucast (ucast (drop_bit 16 lba AND 0xFF) :: u8)) OR
      push_bit 24 (ucast (push_bit 4 h OR 0xE0 OR ucast (drop_bit 24 lba AND 0x0F) :: u8) AND 0x0F) :: u32) n = bit lba n"
  proof -
    consider "n < 8" | "8 \<le> n" "n < 16" | "16 \<le> n" "n < 24" | "24 \<le> n" "n < 28" | "28 \<le> n" by linarith
    then show ?thesis unfolding m using hi[of n] by cases (auto simp: bit_simps less_diff_conv2)
  qed
qed

text \<open>The registers that a transfer command finds: the number of the first sector and the count.\<close>

lemma ata_prepare_ready:
  assumes law: "drive_at b (ap_io_base port) delay view" and lba: "unat lba < 2 ^ 28"
  shows "\<exists>s' d. ata_prepare_transfer b port command lba n s = Some s' \<and> view s' = drive_out delay 1 7 (ucast command) d \<and>
    dk_busy d = 0 \<and> dk_lba d = unat lba \<and> dk_count d = n \<and> dk_out d = dk_out (view s) \<and> dk_wr d = dk_wr (view s) \<and>
    dk_sectors d = dk_sectors (view s)"
proof -
  let ?io = "ap_io_base port"
  define h where "h = fst (ata_get_selected_drive b port s)"
  define hd' where "hd' = push_bit 4 h OR 0xE0 OR ucast (drop_bit 24 lba AND 0x0F)"
  define t where "t = outb b (?io + 5) (ucast (drop_bit 16 lba AND 0xFF)) (outb b (?io + 4) (ucast (drop_bit 8 lba AND 0xFF))
     (outb b (?io + 3) (ucast (lba AND 0xFF)) (outb b (?io + 2) n (outb b (?io + 6) hd' (snd (ata_get_selected_drive b port s))))))"
  have "view (snd (ata_get_selected_drive b port s)) = view s"
    using drive_accesses(4)[OF law, of 6 s] by (simp add: ata_get_selected_drive_def ata_regs case_prod_beta drive_in_def)
  then have t: "view t = (view s)\<lparr>dk_head := hd', dk_count := n, dk_low := ucast (lba AND 0xFF), dk_mid := ucast (drop_bit 8 lba AND 0xFF),
      dk_hi := ucast (drop_bit 16 lba AND 0xFF)\<rparr>"
    by (simp add: t_def drive_accesses(1)[OF law] drive_out_def)
  obtain s1 where s1: "ata_poll b port False False False t = Some s1" "view s1 = (view t)\<lparr>dk_busy := 0\<rparr>"
    using ata_poll_ready[OF law, of False t] by auto
  have "ata_prepare_transfer b port command lba n s = Some (outb b (?io + 7) command s1)"
    using s1(1) by (simp add: ata_prepare_transfer_def case_prod_beta Let_def ata_regs t_def hd'_def h_def)
  moreover have "dk_lba (view s1) = unat lba"
  proof -
    have "dk_low (view s1) = ucast (lba AND 0xFF)" "dk_mid (view s1) = ucast (drop_bit 8 lba AND 0xFF)"
      "dk_hi (view s1) = ucast (drop_bit 16 lba AND 0xFF)" "dk_head (view s1) = hd'"
      by (simp_all add: s1(2) t)
    then show ?thesis by (simp only: dk_lba_def hd'_def lba_registers[OF lba])
  qed
  ultimately show ?thesis using drive_accesses(1)[OF law, of 7 command s1]
    by (intro exI[of _ "outb b (?io + 7) command s1"] exI[of _ "view s1"]) (simp add: s1(2) t)
qed

section \<open>Reading sectors\<close>

definition word_bytes :: "u16 \<Rightarrow> u8 list" where
  "word_bytes v = [ucast v, ucast (drop_bit 8 v)]"

definition put_words :: "mem \<Rightarrow> ptr \<Rightarrow> u16 list \<Rightarrow> mem" where
  "put_words m p ws = fold (\<lambda>i m. store16 m (p + 2 * of_nat i) (ws ! i)) [0..<length ws] m"

lemma put_words_Nil [simp]: "put_words m p [] = m"
  by (simp add: put_words_def)

lemma put_words_snoc: "put_words m p (ws @ [v]) = store16 (put_words m p ws) (p + 2 * of_nat (length ws)) v"
proof -
  have "fold (\<lambda>i m. store16 m (p + 2 * of_nat i) ((ws @ [v]) ! i)) [0..<length ws] m = put_words m p ws"
    unfolding put_words_def by (rule fold_cong) (auto simp: nth_append)
  then show ?thesis by (simp add: put_words_def)
qed

lemma put_words_append: "put_words m p (us @ vs) = put_words (put_words m p us) (p + 2 * of_nat (length us)) vs"
  by (induction vs rule: rev_induct) (simp_all add: put_words_snoc flip: append_assoc add: algebra_simps)

lemma read_sector_words:
  assumes law: "drive_at b (ap_io_base port) delay view" and out: "dk_out (view s) = ws @ rest" and len: "length ws = 256" "256 dvd length rest"
    and busy: "dk_busy (view s) = 0"
  shows "\<exists>s' k. read_sector b port buf (m, s) = (put_words m buf ws, s') \<and> view s' = (view s)\<lparr>dk_out := rest, dk_busy := k\<rparr>"
proof -
  define f where "f = (\<lambda>j (m, s). let (v, s) = inw b (ap_io_base port + ATA_REG_DATA) s in (store16 m (buf + 2 * of_nat j) v, s))"
  have f: "f j (m, t) = (store16 m (buf + 2 * of_nat j) (fst (inw b (ap_io_base port) t)), snd (inw b (ap_io_base port) t))" for j m t
    by (simp add: f_def case_prod_beta ata_regs Let_def)
  have loop: "\<exists>s' k. for_upto n f (m, s) = (put_words m buf (take n ws), s') \<and>
      view s' = (view s)\<lparr>dk_out := drop n ws @ rest, dk_busy := k\<rparr> \<and> (n < 256 \<longrightarrow> k = 0)" if "n \<le> 256" for n
    using that
  proof (induction n)
    case 0
    have "view s = (view s)\<lparr>dk_out := ws @ rest, dk_busy := 0\<rparr>" using out busy by (cases "view s") simp
    then show ?case by auto
  next
    case (Suc n)
    then obtain s1 where s1: "for_upto n f (m, s) = (put_words m buf (take n ws), s1)" "view s1 = (view s)\<lparr>dk_out := drop n ws @ rest, dk_busy := 0\<rparr>"
      by auto
    have n: "n < length ws" using Suc.prems len by simp
    have dr: "drop n ws @ rest = ws ! n # (drop (Suc n) ws @ rest)" using n by (simp add: Cons_nth_drop_Suc)
    have nd: "\<not> 256 dvd length (drop (Suc n) ws @ rest)" if "Suc n < 256"
    proof
      assume "256 dvd length (drop (Suc n) ws @ rest)"
      then have "256 dvd 255 - n" using len by (simp add: dvd_add_left_iff)
      then have "256 \<le> 255 - n" using that by (intro dvd_imp_le) auto
      then show False by simp
    qed
    from s1(2) dr have "drive_in delay 2 0 (view s1) = (ucast (ws ! n), (view s)\<lparr>dk_out := drop (Suc n) ws @ rest,
        dk_busy := if 256 dvd length (drop (Suc n) ws @ rest) then delay (view s1) else 0\<rparr>)"
      by (simp add: drive_in_def)
    with drive_accesses(5,6)[OF law, of 0 s1] have "fst (inw b (ap_io_base port) s1) = ws ! n"
        "view (snd (inw b (ap_io_base port) s1)) = (view s)\<lparr>dk_out := drop (Suc n) ws @ rest,
          dk_busy := if 256 dvd length (drop (Suc n) ws @ rest) then delay (view s1) else 0\<rparr>" by simp_all
    moreover have "take (Suc n) ws = take n ws @ [ws ! n]" "length (take n ws) = n" using n by (simp_all add: take_Suc_conv_app_nth)
    ultimately show ?case using s1(1) nd by (auto simp: f put_words_snoc)
  qed
  from loop[of 256] len show ?thesis by (auto simp: read_sector_def f_def)
qed

text \<open>
  On a bus with an idle drive at the port, whatever its delays, \<open>ata_pio_read\<close> of \<open>n\<close> sectors from a 28-bit sector number returns, and
  the buffer then holds the words of those sectors in order.
\<close>

lemma ata_pio_read_sectors:
  assumes law: "drive_at b (ap_io_base port) delay view" and idle: "\<not> dk_drq (view s)" and lba: "unat lba < 2 ^ 28" and n: "n \<noteq> 0"
    and sec: "\<And>i. i < unat n \<Longrightarrow> length (dk_sectors (view s) (unat lba + i)) = 256"
  shows "\<exists>s'. ata_pio_read b port buf lba n (m, s) =
      Some (put_words m buf (concat (map (dk_sectors (view s)) [unat lba..<unat lba + unat n])), s') \<and>
    dk_sectors (view s') = dk_sectors (view s) \<and> \<not> dk_drq (view s')"
proof -
  let ?S = "dk_sectors (view s)" and ?N = "unat n"
  let ?sec = "\<lambda>i j. concat (map ?S [unat lba + i..<unat lba + j])"
  obtain s1 where s1: "ata_poll b port False False False s = Some s1" "view s1 = (view s)\<lparr>dk_busy := 0\<rparr>"
    using ata_poll_ready[OF law, of False s] by auto
  obtain s2 d where s2: "ata_prepare_transfer b port ATA_CMD_READ lba n s1 = Some s2" "view s2 = drive_out delay 1 7 (ucast ATA_CMD_READ) d"
      "dk_busy d = 0" "dk_lba d = unat lba" "dk_count d = n" "dk_out d = dk_out (view s1)" "dk_wr d = dk_wr (view s1)" "dk_sectors d = dk_sectors (view s1)"
    using ata_prepare_ready[OF law lba, of ATA_CMD_READ n s1] by blast
  have i: "dk_out (view s) = []" "dk_wr (view s) = None" using idle unfolding dk_drq_def by blast+
  have v2: "dk_out (view s2) = ?sec 0 ?N" "dk_sectors (view s2) = ?S" "dk_wr (view s2) = None"
    using s2 s1(2) i n by (simp_all add: drive_out_def dk_drq_def ATA_CMD_READ_def)
  let ?f = "\<lambda>i (m, s). do { s \<leftarrow> ata_poll b port False True False s; Some (read_sector b port (buf + 512 * of_nat i) (m, s)) }"
  have len: "length (?sec i j) = 256 * (j - i)" if "j \<le> ?N" for i j
  proof -
    have "map length (map ?S [unat lba + i..<unat lba + j]) = map (\<lambda>_. 256) [unat lba + i..<unat lba + j]"
    proof (clarsimp simp: comp_def)
      fix x assume "unat lba + i \<le> x" "x < unat lba + j"
      then show "length (?S x) = 256" using sec[of "x - unat lba"] that by simp
    qed
    then show ?thesis by (simp only: length_concat) (simp add: sum_list_triv)
  qed
  have loop: "\<exists>s'. for_opt i ?f (m, s2) = Some (put_words m buf (?sec 0 i), s') \<and> dk_out (view s') = ?sec i ?N \<and>
      dk_sectors (view s') = ?S \<and> dk_wr (view s') = None" if "i \<le> ?N" for i
    using that
  proof (induction i)
    case 0
    then show ?case using v2 by auto
  next
    case (Suc i)
    then obtain t where t: "for_opt i ?f (m, s2) = Some (put_words m buf (?sec 0 i), t)" "dk_out (view t) = ?sec i ?N"
        "dk_sectors (view t) = ?S" "dk_wr (view t) = None" by auto
    have split: "?sec i ?N = ?S (unat lba + i) @ ?sec (Suc i) ?N" using Suc.prems by (simp add: upt_conv_Cons)
    have li: "length (?S (unat lba + i)) = 256" using sec[of i] Suc.prems by simp
    have "dk_drq (view t)" using t(2) li unfolding split dk_drq_def by auto
    then obtain t1 where t1: "ata_poll b port False True False t = Some t1" "view t1 = (view t)\<lparr>dk_busy := 0\<rparr>"
      using ata_poll_ready[OF law, of True t] by auto
    obtain t2 k where t2: "read_sector b port (buf + 512 * of_nat i) (put_words m buf (?sec 0 i), t1) =
          (put_words (put_words m buf (?sec 0 i)) (buf + 512 * of_nat i) (?S (unat lba + i)), t2)"
        "view t2 = (view t1)\<lparr>dk_out := ?sec (Suc i) ?N, dk_busy := k\<rparr>"
      using read_sector_words[OF law, of t1 "?S (unat lba + i)" "?sec (Suc i) ?N" "buf + 512 * of_nat i" "put_words m buf (?sec 0 i)"]
        t1(2) t(2) split li len[of ?N "Suc i"] by auto
    have "buf + 2 * of_nat (length (?sec 0 i)) = buf + 512 * of_nat i" using len[of i 0] Suc.prems by simp
    then have "put_words (put_words m buf (?sec 0 i)) (buf + 512 * of_nat i) (?S (unat lba + i)) = put_words m buf (?sec 0 (Suc i))"
      using put_words_append[of m buf "?sec 0 i" "?S (unat lba + i)"] by simp
    then show ?case using t t1 t2 by simp
  qed
  from loop[of ?N] s1(1) s2(1) show ?thesis by (auto simp: ata_pio_read_def dk_drq_def)
qed

lemma word_bytes_length [simp]: "length (concat (map word_bytes ws)) = 2 * length ws"
  by (induction ws) (simp_all add: word_bytes_def)

lemma put_bytes_snoc: "put_bytes m p (xs @ [v]) = (put_bytes m p xs)(p + of_nat (length xs) := v)"
proof -
  have "fold (\<lambda>i m. m(p + of_nat i := (xs @ [v]) ! i)) [0..<length xs] m = fold (\<lambda>i m. m(p + of_nat i := xs ! i)) [0..<length xs] m"
    by (rule fold_cong) (auto simp: nth_append)
  then show ?thesis by (simp add: put_bytes_def for_upto_def)
qed

lemma put_words_bytes: "put_words m p ws = put_bytes m p (concat (map word_bytes ws))"
proof (induction ws rule: rev_induct)
  case (snoc v ws)
  have "concat (map word_bytes (ws @ [v])) = (concat (map word_bytes ws) @ [ucast v]) @ [ucast (drop_bit 8 v)]" by (simp add: word_bytes_def)
  then show ?case
    by (simp only: put_words_snoc put_bytes_snoc snoc store16_def) (simp add: algebra_simps)
qed (simp add: put_bytes_def)

lemma word_bytes_load16: "word_bytes (load16 m a) = [m a, m (a + 1)]"
proof -
  have "ucast (load16 m a) = m a" "ucast (drop_bit 8 (load16 m a)) = m (a + 1)"
    by (rule bit_word_eqI; auto simp: load16_def bit_simps dest: bit_imp_le_length)+
  then show ?thesis by (simp add: word_bytes_def)
qed

definition load_words :: "mem \<Rightarrow> ptr \<Rightarrow> nat \<Rightarrow> u16 list" where
  "load_words m p n = map (\<lambda>j. load16 m (p + 2 * of_nat j)) [0..<n]"

lemma load_words_bytes: "concat (map word_bytes (load_words m p n)) = map (\<lambda>i. m (p + of_nat i)) [0..<2 * n]"
  by (induction n) (simp_all add: load_words_def word_bytes_load16 algebra_simps)

section \<open>Writing a sector\<close>

lemma write_sector_words:
  assumes law: "drive_at b (ap_io_base port) delay view" and wr: "dk_wr (view s) = Some (l, [])" and busy: "dk_busy (view s) = 0"
  shows "\<exists>k. view (write_sector b port buf m s) =
    (view s)\<lparr>dk_wr := None, dk_sectors := (dk_sectors (view s))(l := load_words m buf 256), dk_busy := k\<rparr>"
proof -
  define f where "f = (\<lambda>j s. outw b (ap_io_base port) (load16 m (buf + 2 * of_nat j)) s)"
  have v: "view (f j t) = drive_out delay 2 0 (ucast (load16 m (buf + 2 * of_nat j))) (view t)" for j t
    using drive_accesses(2)[OF law, of 0] by (simp add: f_def)
  have loop: "view (for_upto n f s) = (view s)\<lparr>dk_wr := Some (l, load_words m buf n)\<rparr>" if "n \<le> 255" for n
    using that
  proof (induction n)
    case 0
    have "view s = (view s)\<lparr>dk_wr := Some (l, [])\<rparr>" using wr by (cases "view s") simp
    then show ?case by (simp add: load_words_def)
  next
    case (Suc n)
    then show ?case by (simp add: v drive_out_def busy load_words_def)
  qed
  have "view (for_upto (Suc 255) f s) = drive_out delay 2 0 (ucast (load16 m (buf + 2 * of_nat 255))) ((view s)\<lparr>dk_wr := Some (l, load_words m buf 255)\<rparr>)"
    by (simp only: for_upto_Suc v loop order_refl)
  then have "\<exists>k. view (for_upto (Suc 255) f s) = (view s)\<lparr>dk_wr := None, dk_sectors := (dk_sectors (view s))(l := load_words m buf 255 @ [load16 m (buf + 2 * of_nat 255)]), dk_busy := k\<rparr>"
    by (auto simp: drive_out_def busy load_words_def)
  moreover have "load_words m buf 255 @ [load16 m (buf + 2 * of_nat 255)] = load_words m buf 256"
  proof -
    have "load_words m buf (Suc 255) = load_words m buf 255 @ [load16 m (buf + 2 * of_nat 255)]" by (simp only: load_words_def upt_Suc) simp
    then show ?thesis by simp
  qed
  moreover have "write_sector b port buf m s = for_upto (Suc 255) f s" unfolding write_sector_def f_def by (simp add: ata_regs)
  ultimately show ?thesis by simp
qed

lemma ata_pio_write_sector:
  assumes law: "drive_at b (ap_io_base port) delay view" and idle: "\<not> dk_drq (view s)" and lba: "unat lba < 2 ^ 28"
  shows "\<exists>s'. ata_pio_write b port buf lba 1 (m, s) = Some (m, s') \<and>
    dk_sectors (view s') = (dk_sectors (view s))(unat lba := load_words m buf 256) \<and> \<not> dk_drq (view s')"
proof -
  obtain s1 where s1: "ata_poll b port False False False s = Some s1" "view s1 = (view s)\<lparr>dk_busy := 0\<rparr>"
    using ata_poll_ready[OF law, of False s] by auto
  obtain s2 d where s2: "ata_prepare_transfer b port ATA_CMD_WRITE lba 1 s1 = Some s2" "view s2 = drive_out delay 1 7 (ucast ATA_CMD_WRITE) d"
      "dk_busy d = 0" "dk_lba d = unat lba" "dk_count d = 1" "dk_out d = dk_out (view s1)" "dk_wr d = dk_wr (view s1)" "dk_sectors d = dk_sectors (view s1)"
    using ata_prepare_ready[OF law lba, of ATA_CMD_WRITE 1 s1] by blast
  have i: "dk_out (view s) = []" "dk_wr (view s) = None" using idle unfolding dk_drq_def by blast+
  obtain s3 where s3: "ata_poll b port False False False s2 = Some s3" "view s3 = (view s2)\<lparr>dk_busy := 0\<rparr>"
    using ata_poll_ready[OF law, of False s2] by auto
  have v3: "dk_wr (view s3) = Some (unat lba, [])" "dk_busy (view s3) = 0" "dk_out (view s3) = []" "dk_sectors (view s3) = dk_sectors (view s)"
    using s2 s1(2) s3(2) i by (simp_all add: drive_out_def dk_drq_def ATA_CMD_WRITE_def)
  define s4 where "s4 = outb b (ap_io_base port + ATA_REG_CMD) ATA_CMD_FLUSH (write_sector b port buf m s3)"
  have v4: "dk_sectors (view s4) = (dk_sectors (view s))(unat lba := load_words m buf 256)" "dk_wr (view s4) = None" "dk_out (view s4) = []"
    using write_sector_words[OF law v3(1,2), of buf m] drive_accesses(1)[OF law, of 7] v3
    by (auto simp: s4_def ata_regs drive_out_def dk_drq_def ATA_CMD_FLUSH_def)
  obtain s5 where s5: "ata_poll b port False False False s4 = Some s5" "view s5 = (view s4)\<lparr>dk_busy := 0\<rparr>"
    using ata_poll_ready[OF law, of False s4] by auto
  have "ata_pio_write b port buf lba 1 (m, s) = Some (m, s5)"
    using s1(1) s2(1) s3(1) s5(1) by (simp add: ata_pio_write_def s4_def)
  with v4 s5(2) show ?thesis by (auto simp: dk_drq_def)
qed

section \<open>The device on a drive\<close>

lemma bounds_check_inside:
  assumes "off < cap" and "unat off + unat count < 2 ^ 32"
  shows "bounds_check cap off count = Some (if unat off + unat count \<ge> unat cap then cap - off else count)"
proof -
  have "unat (off + count) = unat off + unat count" using assms(2) by (simp add: unat_word_ariths)
  with assms(1) show ?thesis by (simp add: bounds_check_def word_le_nat_alt word_less_nat_alt)
qed

text \<open>A bus that is the drive and nothing else.\<close>

definition drive_bus :: "u16 \<Rightarrow> (drive \<Rightarrow> nat) \<Rightarrow> drive bus" where
  "drive_bus io delay = \<lparr>bus_in = \<lambda>w p d. drive_in delay w (p - io) d, bus_out = \<lambda>w p v d. drive_out delay w (p - io) v d\<rparr>"

lemma drive_bus_at: "drive_at (drive_bus io delay) io delay id"
  by (simp add: drive_at_def drive_bus_def)

text \<open>
  C34: reading from a disk without DMA. For an idle drive with any delays, a request of \<open>count\<close> sectors at \<open>off\<close> inside the disk returns with
  as many sectors as the disk has from there on, at most \<open>count\<close>: the buffer holds their contents in order and nothing else
  of memory changes, the offset has moved behind them, and their number is the result. The disk has at most \<open>2 ^ 28\<close> sectors, and
  at most 255 sectors are asked for.
\<close>

theorem ata_read_sectors:
  assumes law: "drive_at b (ap_io_base (ad_port d)) delay view" and idle: "\<not> dk_drq (view s)" and pio: "\<not> ap_dma (ad_port d)"
    and cap: "current_sector_capacity m (ad_info d) = cap" "unat cap \<le> 2 ^ 28" and off: "off < cap" and count: "0 < count" "unat count < 256"
    and sec: "\<And>i. i < unat cap \<Longrightarrow> length (dk_sectors (view s) i) = 256"
    and k: "k = min (unat count) (unat cap - unat off)"
  shows "\<exists>s'. ata_read b fill d (m, s) buf count off =
      Some ((put_bytes m buf (concat (map word_bytes (concat (map (dk_sectors (view s)) [unat off..<unat off + k])))), s'), off + of_nat k, int k) \<and>
    dk_sectors (view s') = dk_sectors (view s)"
proof -
  have bound: "unat off + unat count < 2 ^ 32" using off cap(2) count(2) by (simp add: word_less_nat_alt)
  have o: "unat off < unat cap" using off by (simp add: word_less_nat_alt)
  define c where "c = (if unat off + unat count \<ge> unat cap then cap - off else count)"
  have c: "unat c = k" using k o unat_sub[of off cap] by (simp add: c_def word_le_nat_alt)
  have k0: "0 < k" "k < 256" using k o count by (auto simp: word_less_nat_alt)
  then have u8: "unat (ucast c :: u8) = k" "ucast c \<noteq> (0 :: u8)" using c
    by (simp_all add: unsigned_ucast_eq take_bit_nat_eq_self word_unat_eq_iff)
  have "c \<noteq> 0" "sint c = int k" "c = of_nat k" using c k0 by (auto simp: sint_u32 word_unat_eq_iff)
  moreover have "bounds_check cap off count = Some c" using bounds_check_inside[OF off bound] by (simp add: c_def)
  moreover have "length (dk_sectors (view s) (unat off + i)) = 256" if "i < unat (ucast c :: u8)" for i
    by (rule sec) (use that o u8(1) k in linarith)
  then obtain s' where "ata_pio_read b (ad_port d) buf off (ucast c) (m, s) =
        Some (put_words m buf (concat (map (dk_sectors (view s)) [unat off..<unat off + k])), s')" "dk_sectors (view s') = dk_sectors (view s)"
    using ata_pio_read_sectors[OF law idle _ u8(2), of off buf m] o cap(2) u8(1) by auto
  ultimately show ?thesis using pio cap(1) by (simp add: ata_read_def put_words_bytes)
qed

definition sample_port :: ata_port where
  "sample_port = \<lparr>ap_io_base = 0x1F0, ap_ctl_base = 0x3F6, ap_dma = False, ap_busmaster = 0, ap_dma_region = 0, ap_prdt = 0,
     ap_prd = \<lparr>prd_phys_addr = 0, prd_nbytes = 0, prd_is_end = False\<rparr>\<rparr>"

text \<open>An idle drive whose sector \<open>l\<close> holds the word \<open>l\<close> everywhere, and memory in which the disk at 0x100 has ten sectors.\<close>

definition sample_drive :: drive where
  "sample_drive = \<lparr>dk_head = 0xA0, dk_count = 0, dk_low = 0, dk_mid = 0, dk_hi = 0, dk_busy = 0, dk_out = [], dk_wr = None,
     dk_sectors = \<lambda>l. replicate 256 (of_nat l)\<rparr>"

definition sample_mem :: mem where
  "sample_mem = (\<lambda>_. 0)(0x172 := 10)"

definition sample_disk :: ata_dev_impl where
  "sample_disk = \<lparr>ad_port = sample_port, ad_info = 0x100, ad_drive = 0\<rparr>"

lemmas sample_disk_simps = sample_disk_def sample_port_def sample_drive_def dk_drq_def

lemma sample_capacity: "current_sector_capacity sample_mem (ad_info sample_disk) = 10"
  by (simp add: current_sector_capacity_def sample_mem_def load32_def sample_disk_def)

theorem ata_read_sectors_witness:
  "\<exists>s'. ata_read (drive_bus 0x1F0 (\<lambda>_. 3)) (\<lambda>_ _. 0) sample_disk (sample_mem, sample_drive) 0x1000 5 8 =
      Some ((put_bytes sample_mem 0x1000 (concat (map word_bytes (concat (map (\<lambda>l. replicate 256 (of_nat l)) [8..<10])))), s'), 10, 2)"
proof -
  have law: "drive_at (drive_bus 0x1F0 (\<lambda>_. 3)) (ap_io_base (ad_port sample_disk)) (\<lambda>_. 3) id"
    using drive_bus_at[of "0x1F0" "\<lambda>_. 3"] by (simp add: sample_disk_simps)
  have v: "dk_sectors (id sample_drive) = (\<lambda>l. replicate 256 (of_nat l))" "\<not> dk_drq (id sample_drive)" "\<not> ap_dma (ad_port sample_disk)"
    by (simp_all add: sample_disk_simps)
  have n: "unat (8 :: u32) = 8" "unat (8 :: u32) + 2 = 10" "(8 :: u32) + of_nat 2 = 10" "int 2 = 2" by simp_all
  from ata_read_sectors[OF law v(2,3) sample_capacity, of 8 5 2 "\<lambda>_ _. 0" "0x1000", unfolded v(1) n] show ?thesis by fastforce
qed

text \<open>
  C35: what is written to a disk is read back. On an idle drive with any delays, one sector is written from \<open>src\<close> to a sector of the disk, and
  reading that sector into \<open>dst\<close> puts the same 512 bytes there and leaves the rest of memory alone.
\<close>

theorem ata_write_read_back:
  assumes law: "drive_at b (ap_io_base (ad_port d)) delay view" and idle: "\<not> dk_drq (view s)" and pio: "\<not> ap_dma (ad_port d)"
    and cap: "current_sector_capacity m (ad_info d) = cap" "unat cap \<le> 2 ^ 28" and off: "off < cap"
  shows "\<exists>s1 s2. ata_write b d (m, s) src 1 off = Some ((m, s1), off + 1, 1) \<and>
    ata_read b fill d (m, s1) dst 1 off = Some ((put_bytes m dst (map (\<lambda>i. m (src + of_nat i)) [0..<512]), s2), off + 1, 1)"
proof -
  have o: "unat off < unat cap" using off by (simp add: word_less_nat_alt)
  have "unat off + unat (1 :: u32) < 2 ^ 32" using o cap(2) by simp
  then have bc: "bounds_check cap off 1 = Some 1"
  proof (subst bounds_check_inside[OF off])
    have "cap - off = 1" if "unat cap \<le> unat off + 1"
    proof -
      have "unat (cap - off) = 1" using that o by (subst unat_sub) (auto simp: word_le_nat_alt)
      then show ?thesis by (simp add: word_unat_eq_iff)
    qed
    then show "Some (if unat cap \<le> unat off + unat (1 :: u32) then cap - off else 1) = Some 1" by simp
  qed
  have lba: "unat off < 2 ^ 28" using o cap(2) by simp
  define s0 where "s0 = ata_drive_select b (ad_port d) (ad_drive d) s"
  have "view s0 = (view s)\<lparr>dk_head := dk_head (view s0)\<rparr>"
    using drive_accesses(1)[OF law, of 6] by (simp add: s0_def ata_drive_select_def ata_regs drive_out_def)
  then have i0: "\<not> dk_drq (view s0)" using idle unfolding dk_drq_def by (metis drive.select_convs(7,8) drive.surjective drive.update_convs(1))
  obtain s1 where s1: "ata_pio_write b (ad_port d) src off 1 (m, s0) = Some (m, s1)"
      "dk_sectors (view s1) = (dk_sectors (view s0))(unat off := load_words m src 256)" "\<not> dk_drq (view s1)"
    using ata_pio_write_sector[OF law i0 lba] by blast
  have "length (dk_sectors (view s1) (unat off + i)) = 256" if "i < unat (1 :: u8)" for i using that s1(2) by (simp add: load_words_def)
  then obtain s2 where s2: "ata_pio_read b (ad_port d) dst off 1 (m, s1) = Some (put_words m dst (load_words m src 256), s2)"
    using ata_pio_read_sectors[OF law s1(3) lba, of 1 dst m] s1(2) by auto
  have "ata_write b d (m, s) src 1 off = Some ((m, s1), off + 1, 1)"
    using s1(1) cap(1) bc by (simp add: ata_write_def s0_def)
  moreover have "ata_read b fill d (m, s1) dst 1 off = Some ((put_words m dst (load_words m src 256), s2), off + 1, 1)"
    using s2 cap(1) bc pio by (simp add: ata_read_def)
  ultimately show ?thesis by (simp add: put_words_bytes load_words_bytes)
qed

theorem ata_write_read_back_witness:
  "\<exists>s1 s2. ata_write (drive_bus 0x1F0 (\<lambda>_. 3)) sample_disk (sample_mem, sample_drive) 0x100 1 9 = Some ((sample_mem, s1), 10, 1) \<and>
    ata_read (drive_bus 0x1F0 (\<lambda>_. 3)) (\<lambda>_ _. 0) sample_disk (sample_mem, s1) 0x1000 1 9 =
      Some ((put_bytes sample_mem 0x1000 (map (\<lambda>i. sample_mem (0x100 + of_nat i)) [0..<512]), s2), 10, 1)"
proof -
  have law: "drive_at (drive_bus 0x1F0 (\<lambda>_. 3)) (ap_io_base (ad_port sample_disk)) (\<lambda>_. 3) id"
    using drive_bus_at[of "0x1F0" "\<lambda>_. 3"] by (simp add: sample_disk_simps)
  show ?thesis
    using ata_write_read_back[OF law _ _ sample_capacity, of sample_drive 9 "0x100" "\<lambda>_ _. 0" "0x1000"] by (simp add: sample_disk_simps)
qed

text \<open>
  The number of sectors of a request is cut to eight bits on its way to the drive: a request for 256 sectors writes nothing to the buffer,
  reports 256 sectors, and leaves the drive in the middle of a transfer.
\<close>

lemma ata_read_256_sectors:
  assumes law: "drive_at b (ap_io_base (ad_port d)) delay view" and idle: "\<not> dk_drq (view s)" and pio: "\<not> ap_dma (ad_port d)"
    and cap: "current_sector_capacity m (ad_info d) = cap" and off: "unat off + 256 < unat cap" "unat off < 2 ^ 28"
    and sec: "dk_sectors (view s) (unat off) \<noteq> []"
  shows "\<exists>s'. ata_read b fill d (m, s) buf 256 off = Some ((m, s'), off + 256, 256) \<and> dk_drq (view s')"
proof -
  have less: "off < cap" using off(1) by (simp add: word_less_nat_alt)
  have "bounds_check cap off 256 = Some 256" using bounds_check_inside[OF less, of 256] off(1) unat_u32_bound[of cap] by simp
  moreover obtain s1 where s1: "ata_poll b (ad_port d) False False False s = Some s1" "view s1 = (view s)\<lparr>dk_busy := 0\<rparr>"
    using ata_poll_ready[OF law, of False s] by auto
  moreover obtain s2 x where s2: "ata_prepare_transfer b (ad_port d) ATA_CMD_READ off 0 s1 = Some s2" "view s2 = drive_out delay 1 7 (ucast ATA_CMD_READ) x"
      "dk_busy x = 0" "dk_lba x = unat off" "dk_count x = 0" "dk_out x = dk_out (view s1)" "dk_wr x = dk_wr (view s1)" "dk_sectors x = dk_sectors (view s1)"
    using ata_prepare_ready[OF law off(2), of ATA_CMD_READ 0 s1] by blast
  have i: "dk_out (view s) = []" "dk_wr (view s) = None" using idle unfolding dk_drq_def by blast+
  have "dk_out (view s2) = concat (map (dk_sectors (view s)) [unat off..<unat off + 256])"
    using s2 s1(2) i by (simp add: drive_out_def dk_drq_def ATA_CMD_READ_def)
  then have "dk_drq (view s2)" using sec by (auto simp: dk_drq_def)
  moreover have "ata_prepare_transfer b (ad_port d) ATA_CMD_READ off 256 s1 = Some s2"
  proof -
    have z: "(256 :: u8) = 0" by (simp add: word_unat_eq_iff)
    show ?thesis unfolding z by (rule s2(1))
  qed
  ultimately show ?thesis using cap pio by (simp add: ata_read_def ata_pio_read_def)
qed

text \<open>The sum of sector and count may wrap: such a request is not shortened and reaches past the end of the disk.\<close>

lemma bounds_check_wraps: "bounds_check 10 1 0xFFFFFFFF = Some 0xFFFFFFFF"
  by (simp add: bounds_check_def word_le_nat_alt)

end
