(* ===== verification/Locking.thy ===== *)
theory Locking
  imports Memory
begin

text \<open>
  Mutexes, \<^verbatim>\<open>kernel/locking.c\<close>: a byte of memory, taken by a test and a store that nothing interrupts, because the kernel is not preempted. A task that
  finds the mutex locked yields: \<open>yield\<close> is what the other tasks do to the state until it runs again. The operations of
  \<^verbatim>\<open>spinlock.h\<close> are empty functions.
\<close>

definition MUTEX_UNLOCKED :: u8 where "MUTEX_UNLOCKED = 0"
definition MUTEX_LOCKED :: u8 where "MUTEX_LOCKED = 1"

definition mutex_try_acquire :: "mem \<Rightarrow> ptr \<Rightarrow> mem \<times> bool" where
  "mutex_try_acquire m p = (if p \<noteq> NULL \<and> m p = MUTEX_UNLOCKED then (m(p := MUTEX_LOCKED), True) else (m, False))"

partial_function (option) mutex_acquire_yield :: "(mem \<times> 's \<Rightarrow> mem \<times> 's) \<Rightarrow> ptr \<Rightarrow> mem \<times> 's \<Rightarrow> (mem \<times> 's) option" where
  "mutex_acquire_yield yield p st =
     (let (m, ok) = mutex_try_acquire (fst st) p
      in if ok then Some (m, snd st) else mutex_acquire_yield yield p (yield (m, snd st)))"

definition mutex_release :: "mem \<Rightarrow> ptr \<Rightarrow> mem" where
  "mutex_release m p = m(p := MUTEX_UNLOCKED)"

lemmas mutex_defs = MUTEX_UNLOCKED_def MUTEX_LOCKED_def mutex_try_acquire_def mutex_release_def

text \<open>A free mutex is taken at once; a locked one as soon as some number of yields leaves it free, and not before.\<close>

lemma mutex_acquire_free [simp]:
  "p \<noteq> NULL \<Longrightarrow> m p = MUTEX_UNLOCKED \<Longrightarrow> mutex_acquire_yield yield p (m, s) = Some (m(p := MUTEX_LOCKED), s)"
  by (subst mutex_acquire_yield.simps) (simp add: mutex_try_acquire_def)

lemma mutex_acquire_after:
  assumes "p \<noteq> NULL" and "fst ((yield ^^ n) st) p = MUTEX_UNLOCKED" and "\<And>i. i < n \<Longrightarrow> fst ((yield ^^ i) st) p \<noteq> MUTEX_UNLOCKED"
  shows "mutex_acquire_yield yield p st = Some ((fst ((yield ^^ n) st))(p := MUTEX_LOCKED), snd ((yield ^^ n) st))"
  using assms(2,3)
proof (induction n arbitrary: st)
  case 0
  then show ?case using assms(1) by (cases st) (simp add: fun_upd_def)
next
  case (Suc n)
  have sw: "(yield ^^ Suc i) st = (yield ^^ i) (yield st)" for i by (simp only: funpow_Suc_right comp_def)
  have "fst st p \<noteq> MUTEX_UNLOCKED" using Suc.prems(2)[of 0] by simp
  then have "mutex_acquire_yield yield p st = mutex_acquire_yield yield p (yield st)"
    by (subst mutex_acquire_yield.simps) (simp add: mutex_try_acquire_def)
  moreover have "fst ((yield ^^ i) (yield st)) p \<noteq> MUTEX_UNLOCKED" if "i < n" for i using Suc.prems(2)[of "Suc i"] that unfolding sw by simp
  ultimately show ?case using Suc.IH[of "yield st"] Suc.prems(1) unfolding sw by simp
qed

section \<open>Mutual exclusion\<close>

text \<open>
  Tasks that use a mutex at \<open>p\<close>, with the set of those that hold it: a task tries to take the mutex, one that holds it
  releases it, and anything else leaves the byte alone.
\<close>

inductive mutex_step :: "ptr \<Rightarrow> mem \<times> nat set \<Rightarrow> mem \<times> nat set \<Rightarrow> bool" for p where
  taken: "mutex_try_acquire m p = (m', True) \<Longrightarrow> mutex_step p (m, H) (m', insert t H)"
| refused: "mutex_try_acquire m p = (m', False) \<Longrightarrow> mutex_step p (m, H) (m', H)"
| released: "t \<in> H \<Longrightarrow> mutex_step p (m, H) (mutex_release m p, H - {t})"
| unrelated: "m' p = m p \<Longrightarrow> mutex_step p (m, H) (m', H)"

inductive_cases mutex_stepE: "mutex_step p st st'"

definition mutex_inv :: "ptr \<Rightarrow> mem \<times> nat set \<Rightarrow> bool" where
  "mutex_inv p st \<longleftrightarrow> snd st = {} \<and> fst st p = MUTEX_UNLOCKED \<or> (\<exists>t. snd st = {t} \<and> fst st p = MUTEX_LOCKED)"

lemma mutex_step_inv: "mutex_step p st st' \<Longrightarrow> mutex_inv p st \<Longrightarrow> mutex_inv p st'"
  by (induction rule: mutex_step.induct) (auto simp: mutex_inv_def mutex_defs split: if_splits)

lemma mutex_steps_inv: "(mutex_step p)\<^sup>*\<^sup>* st st' \<Longrightarrow> mutex_inv p st \<Longrightarrow> mutex_inv p st'"
  by (induction rule: rtranclp_induct) (auto intro: mutex_step_inv)



end
