(* ===== verification/Serial.thy ===== *)
theory Serial
  imports Console Keyboard Interrupts Devices
begin

text \<open>
  The serial console, \<^verbatim>\<open>drivers/serial.c\<close>, and the beeper, \<^verbatim>\<open>drivers/beeper.c\<close>, over an arbitrary bus. \<open>None\<close> is a line whose status never
  changes, an access outside the table of lines, or a division by zero.
\<close>

section \<open>The serial line\<close>

record serial_device =
  sd_base :: u32

definition TX :: "serial_device \<Rightarrow> u16" where "TX dev = ucast (sd_base dev)"
definition DLAB_LO :: "serial_device \<Rightarrow> u16" where "DLAB_LO dev = ucast (sd_base dev)"
definition DLAB_HI :: "serial_device \<Rightarrow> u16" where "DLAB_HI dev = ucast (sd_base dev + 1)"
definition INTR_ENABLE :: "serial_device \<Rightarrow> u16" where "INTR_ENABLE dev = ucast (sd_base dev + 1)"
definition INTR_IDENT :: "serial_device \<Rightarrow> u16" where "INTR_IDENT dev = ucast (sd_base dev + 2)"
definition LINE_CONTROL :: "serial_device \<Rightarrow> u16" where "LINE_CONTROL dev = ucast (sd_base dev + 3)"
definition MODEM_CONTROL :: "serial_device \<Rightarrow> u16" where "MODEM_CONTROL dev = ucast (sd_base dev + 4)"
definition LINE_STATUS :: "serial_device \<Rightarrow> u16" where "LINE_STATUS dev = ucast (sd_base dev + 5)"

definition INTR_IDENT_NO_PENDING :: u8 where "INTR_IDENT_NO_PENDING = 0x1"
definition INTR_IDENT_RECV_LINE_STATUS :: u8 where "INTR_IDENT_RECV_LINE_STATUS = 0x6"
definition INTR_IDENT_FIFO_ENABLE :: u8 where "INTR_IDENT_FIFO_ENABLE = 0xC0"
definition MODEM_CONTROL_DTR :: u8 where "MODEM_CONTROL_DTR = 0x1"
definition MODEM_CONTROL_RTS :: u8 where "MODEM_CONTROL_RTS = 0x2"
definition MODEM_CONTROL_OUT1 :: u8 where "MODEM_CONTROL_OUT1 = 0x4"
definition MODEM_CONTROL_OUT2 :: u8 where "MODEM_CONTROL_OUT2 = 0x8"
definition MODEM_CONTROL_LOOP :: u8 where "MODEM_CONTROL_LOOP = 0x10"
definition LINE_CONTROL_8BIT :: u8 where "LINE_CONTROL_8BIT = 0x03"
definition LINE_CONTROL_DLAB :: u8 where "LINE_CONTROL_DLAB = 0x80"
definition LINE_STATUS_DR :: u8 where "LINE_STATUS_DR = 0x1"
definition LINE_STATUS_THRE :: u8 where "LINE_STATUS_THRE = 0x20"

definition serial_devices :: "serial_device list" where
  "serial_devices = [\<lparr>sd_base = 0x3f8\<rparr>, \<lparr>sd_base = 0x2f8\<rparr>, \<lparr>sd_base = 0x3e8\<rparr>, \<lparr>sd_base = 0x2e8\<rparr>]"

text \<open>The loops that wait for a bit of the line status.\<close>

partial_function (option) serial_wait :: "'s bus \<Rightarrow> serial_device \<Rightarrow> u8 \<Rightarrow> 's \<Rightarrow> 's option" where
  "serial_wait b dev flag s =
     (let (v, s) = inb b (LINE_STATUS dev) s in if v AND flag = 0 then serial_wait b dev flag s else Some s)"

primrec serial_write :: "'s bus \<Rightarrow> serial_device \<Rightarrow> u8 list \<Rightarrow> 's \<Rightarrow> 's option" where
  "serial_write b dev [] s = Some s"
| "serial_write b dev (c # d) s = do {
     s \<leftarrow> serial_wait b dev LINE_STATUS_THRE s;
     serial_write b dev d (outb b (TX dev) c s) }"

text \<open>The end of the buffer is \<open>buf + n - 1\<close>: a request for no bytes runs through the whole address space.\<close>

partial_function (option) serial_read_loop :: "'s bus \<Rightarrow> serial_device \<Rightarrow> ptr \<Rightarrow> ptr \<Rightarrow> mem \<times> 's \<Rightarrow> (mem \<times> 's) option" where
  "serial_read_loop b dev buf stop st =
     (if buf = stop then Some ((fst st)(buf := 0), snd st)
      else do {
        s \<leftarrow> serial_wait b dev LINE_STATUS_DR (snd st);
        let (v, s) = inb b (TX dev) s;
        serial_read_loop b dev (buf + 1) stop ((fst st)(buf := v), s) })"

definition serial_read :: "'s bus \<Rightarrow> u32 \<Rightarrow> ptr \<Rightarrow> size_t \<Rightarrow> mem \<times> 's \<Rightarrow> (mem \<times> 's) option" where
  "serial_read b k buf n st =
     (if unat k \<ge> length serial_devices then None
      else serial_read_loop b (serial_devices ! unat k) buf (buf + n - 1) st)"

text \<open>
  The handler reads one byte into its static buffer at \<open>buf\<close> and passes a key press to the current event handler: the result holds the
  event. The byte is a signed \<open>char\<close>, so that a byte from 0x80 on becomes a large code point.
\<close>

definition serial_console_irq_handler :: "'s bus \<Rightarrow> ptr \<Rightarrow> mem \<times> 's \<Rightarrow> ((mem \<times> 's) \<times> keyboard_event) option" where
  "serial_console_irq_handler b buf st = do {
     st \<leftarrow> serial_read b 0 buf 2 st;
     let c = fst st buf;
     let keycode = (if c = 0x0D then KEY_RETURN else if c = 0x7F then KEY_BACKSPACE else keycode_from_codepoint (scast c));
     Some (st, \<lparr>ev_keycode = keycode, ev_pressed = True, ev_modifiers = if 0x41 \<le> sint c \<and> sint c \<le> 0x5A then KEYBOARD_MODIFIER_SHIFT else 0\<rparr>) }"
text \<open>
  Initialisation: the state holds the table of interrupts, the line that console output goes to (\<open>None\<close> is the screen) and the bus; \<open>h\<close> is the
  handler that is registered. The messages are left out.
\<close>

definition serial_setup :: "'s bus \<Rightarrow> serial_device \<Rightarrow> 's \<Rightarrow> u8 \<times> 's" where
  "serial_setup b dev s =
     (let s = outb b (INTR_ENABLE dev) 0 s;
          s = outb b (LINE_CONTROL dev) (LINE_CONTROL_8BIT OR LINE_CONTROL_DLAB) s;
          s = outb b (DLAB_LO dev) 1 s;
          s = outb b (DLAB_HI dev) 0 s;
          s = outb b (LINE_CONTROL dev) LINE_CONTROL_8BIT s;
          s = outb b (INTR_IDENT dev) (INTR_IDENT_RECV_LINE_STATUS OR INTR_IDENT_FIFO_ENABLE OR INTR_IDENT_NO_PENDING) s;
          s = outb b (MODEM_CONTROL dev) (MODEM_CONTROL_DTR OR MODEM_CONTROL_RTS OR MODEM_CONTROL_OUT2) s;
          s = outb b (MODEM_CONTROL dev) (MODEM_CONTROL_DTR OR MODEM_CONTROL_RTS OR MODEM_CONTROL_OUT1 OR MODEM_CONTROL_OUT2 OR MODEM_CONTROL_LOOP) s;
          s = outb b (TX dev) 0xDE s
      in inb b (TX dev) s)"

definition serial_console_init ::
    "'s bus \<Rightarrow> 'k intr_handler_t \<Rightarrow> u32 \<Rightarrow> 'k interrupts \<times> serial_device option \<times> 's \<Rightarrow> 'k interrupts \<times> serial_device option \<times> 's" where
  "serial_console_init b h k st =
     (if unat k \<ge> length serial_devices then st
      else
        let dev = serial_devices ! unat k;
            (it, provider, s) = st;
            (tbyte, s) = serial_setup b dev s
        in if tbyte \<noteq> 0xDE then (it, provider, s)
           else
             let s = outb b (MODEM_CONTROL dev) (MODEM_CONTROL_DTR OR MODEM_CONTROL_RTS OR MODEM_CONTROL_OUT1 OR MODEM_CONTROL_OUT2) s;
                 it = idt_register_interrupt 0x23 h it;
                 it = idt_register_interrupt 0x24 h it;
                 s = outb b (INTR_ENABLE dev) 1 s
             in (it, Some dev, s))"

section \<open>The beeper\<close>

definition PIT2_FREQ_DIV :: u32 where "PIT2_FREQ_DIV = 1193180"
definition BEEPER_IOCTL_NPLAY :: u32 where "BEEPER_IOCTL_NPLAY = 1"
definition BEEPER_IOCTL_NSTOP :: u32 where "BEEPER_IOCTL_NSTOP = 0"

definition beeper_play :: "'s bus \<Rightarrow> u32 \<Rightarrow> 's \<Rightarrow> 's option" where
  "beeper_play b nf s =
     (if nf = 0 then None
      else
        let dv = PIT2_FREQ_DIV div nf;
            s = outb b 0x43 0xb6 s;
            s = outb b 0x42 (ucast dv) s;
            s = outb b 0x42 (ucast (drop_bit 8 dv)) s;
            (tmp, s) = inb b 0x61 s
        in Some (if tmp \<noteq> tmp OR 3 then outb b 0x61 (tmp OR 3) s else s))"

definition beeper_stop :: "'s bus \<Rightarrow> 's \<Rightarrow> 's" where
  "beeper_stop b s = (let (v, s) = inb b 0x61 s in outb b 0x61 (v AND 0xFC) s)"

text \<open>Only the branch for a frequency of zero has a return statement: \<open>garbage\<close> is what the caller finds otherwise.\<close>

definition beeper_ioctl :: "'s bus \<Rightarrow> int \<Rightarrow> 's \<Rightarrow> u32 \<Rightarrow> ptr \<Rightarrow> ('s \<times> int) option" where
  "beeper_ioctl b garbage s req data =
     (if req = BEEPER_IOCTL_NPLAY then
        if data = 0 then Some (s, - EINVAL) else map_option (\<lambda>s. (s, garbage)) (beeper_play b data s)
      else if req = BEEPER_IOCTL_NSTOP then Some (beeper_stop b s, garbage)
      else Some (s, garbage))"

definition beeper_device :: "'s bus \<Rightarrow> int \<Rightarrow> 's device" where
  "beeper_device b garbage = \<lparr>d_type = 0, d_class = 0, d_idx = 0, d_block_size = 0, d_name = ''beeper'', d_read = None, d_seek = None,
     d_write = None, d_ioctl = Some (beeper_ioctl b garbage), d_mmap = None, d_pos = 0\<rparr>"

definition beeper_init :: "'s bus \<Rightarrow> int \<Rightarrow> 's devreg \<Rightarrow> 'w nodes \<Rightarrow> nat \<Rightarrow> 's devreg \<times> 'w nodes" where
  "beeper_init b garbage r ns obj = register_device (r\<lparr>dobj := (dobj r)(obj := beeper_device b garbage)\<rparr>) ns obj"

section \<open>Output on the line\<close>

text \<open>
  A transmitter as documented: the line status shows an empty holding register after some number of reads, a byte written to the data
  register is sent. \<open>u_wait\<close> counts the reads that are left, \<open>u_sent\<close> are the bytes sent, \<open>delay\<close> is arbitrary.
\<close>

record uart =
  u_wait :: nat
  u_sent :: "u8 list"

definition uart_at :: "'s bus \<Rightarrow> serial_device \<Rightarrow> (uart \<Rightarrow> nat) \<Rightarrow> ('s \<Rightarrow> uart) \<Rightarrow> bool" where
  "uart_at b dev delay view \<longleftrightarrow>
     (\<forall>s. (fst (inb b (LINE_STATUS dev) s) AND LINE_STATUS_THRE = 0 \<longleftrightarrow> u_wait (view s) \<noteq> 0) \<and>
          view (snd (inb b (LINE_STATUS dev) s)) = (view s)\<lparr>u_wait := u_wait (view s) - 1\<rparr>) \<and>
     (\<forall>c s. u_wait (view s) = 0 \<longrightarrow> view (outb b (TX dev) c s) = \<lparr>u_wait = delay (view s), u_sent = u_sent (view s) @ [c]\<rparr>)"

lemma serial_wait_ends:
  assumes law: "uart_at b dev delay view"
  shows "\<exists>s'. serial_wait b dev LINE_STATUS_THRE s = Some s' \<and> view s' = (view s)\<lparr>u_wait := 0\<rparr>"
proof (induction "u_wait (view s)" arbitrary: s)
  case 0
  then show ?case using law by (subst serial_wait.simps) (auto simp: uart_at_def case_prod_beta)
next
  case (Suc n)
  define s1 where "s1 = snd (inb b (LINE_STATUS dev) s)"
  have "serial_wait b dev LINE_STATUS_THRE s = serial_wait b dev LINE_STATUS_THRE s1"
    using law Suc(2) by (subst serial_wait.simps) (auto simp: uart_at_def case_prod_beta s1_def)
  moreover have "view s1 = (view s)\<lparr>u_wait := n\<rparr>" using law Suc(2) by (simp add: uart_at_def s1_def flip: Suc(2))
  ultimately show ?case using Suc(1)[of s1] by simp
qed

lemma serial_write_sends:
  assumes law: "uart_at b dev delay view"
  shows "\<exists>s'. serial_write b dev d s = Some s' \<and> u_sent (view s') = u_sent (view s) @ d"
proof (induction d arbitrary: s)
  case (Cons c d)
  obtain s1 where s1: "serial_wait b dev LINE_STATUS_THRE s = Some s1" "view s1 = (view s)\<lparr>u_wait := 0\<rparr>"
    using serial_wait_ends[OF law] by blast
  have "u_sent (view (outb b (TX dev) c s1)) = u_sent (view s) @ [c]" using law s1(2) by (simp add: uart_at_def)
  then show ?case using Cons[of "outb b (TX dev) c s1"] s1(1) by auto
qed simp

text \<open>The output function of the line as a callback of the formatter, and what it keeps: the line answers, and nothing that was sent is lost.\<close>

definition serial_out :: "'s bus \<Rightarrow> serial_device \<Rightarrow> 's option \<Rightarrow> u8 list \<Rightarrow> 's option" where
  "serial_out b dev s d = Option.bind s (serial_write b dev d)"

definition on_line :: "('s \<Rightarrow> uart) \<Rightarrow> u8 list \<Rightarrow> 's option \<Rightarrow> bool" where
  "on_line view sent r \<longleftrightarrow> (case r of None \<Rightarrow> False | Some s \<Rightarrow> take (length sent) (u_sent (view s)) = sent \<and> length sent \<le> length (u_sent (view s)))"

text \<open>The state of a bus without a transmitter at the line satisfies the contract in the trivial way.\<close>

definition kept_on_line :: "'s bus \<Rightarrow> serial_device \<Rightarrow> (uart \<Rightarrow> nat) \<Rightarrow> ('s \<Rightarrow> uart) \<Rightarrow> u8 list \<Rightarrow> 's option \<Rightarrow> bool" where
  "kept_on_line b dev delay view sent r \<longleftrightarrow> (uart_at b dev delay view \<longrightarrow> on_line view sent r)"

interpretation ser: output_callback "serial_out b dev" "kept_on_line b dev delay view sent" for b dev delay view sent
proof
  fix r d
  assume kept: "kept_on_line b dev delay view sent r"
  show "kept_on_line b dev delay view sent (serial_out b dev r d)"
    unfolding kept_on_line_def
  proof
    assume law: "uart_at b dev delay view"
    then obtain s where s: "r = Some s" "take (length sent) (u_sent (view s)) = sent" "length sent \<le> length (u_sent (view s))"
      using kept by (auto simp: kept_on_line_def on_line_def split: option.splits)
    then show "on_line view sent (serial_out b dev r d)" using serial_write_sends[OF law, of d s] by (auto simp: serial_out_def on_line_def)
  qed
qed

text \<open>Whatever is printed, the line never blocks the kernel for ever.\<close>

lemma printk_line_answers:
  assumes "uart_at b dev delay view" and "vprintk (serial_out b dev) mm ui si pre (Some s) fmt ap = Some r"
  shows "on_line view (u_sent (view s)) r"
  using ser.vformat_keeps[of b dev delay view "u_sent (view s)" "Some s" mm ui si pre fmt ap r] assms
  by (simp add: kept_on_line_def vprintk_def on_line_def)

lemma serial_out_chunks:
  assumes "uart_at b dev delay view"
  shows "\<exists>s'. foldl (serial_out b dev) (Some s) ds = Some s' \<and> u_sent (view s') = u_sent (view s) @ concat ds"
proof (induction ds arbitrary: s)
  case (Cons d ds)
  obtain s1 where "serial_write b dev d s = Some s1" "u_sent (view s1) = u_sent (view s) @ d" using serial_write_sends[OF assms] by blast
  then show ?case using Cons[of s1] by (auto simp: serial_out_def)
qed simp

text \<open>
  printing on the serial console. However slow the transmitter is, \<open>printk\<close> of a number between two texts returns, and the bytes
  it has sent are the first text, the decimal numeral of the signed argument and the second text.
\<close>

lemma printk_on_serial:
  assumes "uart_at b dev delay view" and "plain_text t1" and "plain_text t2"
  shows "\<exists>s'. vprintk (serial_out b dev) mm ui si pre (Some s) (t1 @ ''%d'' @ t2) (v # ap) = Some (Some s') \<and>
    u_sent (view s') = u_sent (view s) @ map of_char t1 @ concat (decimal v) @ map of_char t2"
proof -
  have e: "concat (map of_char t1 # decimal v @ (if t2 = [] then [] else [map of_char t2])) =
      map of_char t1 @ concat (decimal v) @ map of_char t2" by simp
  show ?thesis
    using serial_out_chunks[OF assms(1), of s "map of_char t1 # decimal v @ (if t2 = [] then [] else [map of_char t2])"]
    unfolding e vprintk_def vformat_decimal[OF assms(2,3)] by auto
qed

text \<open>A transmitter that is busy for three reads of the status after every byte.\<close>

definition uart_bus :: "serial_device \<Rightarrow> uart bus" where
  "uart_bus dev = \<lparr>bus_in = \<lambda>w p u. if p = LINE_STATUS dev then (if u_wait u = 0 then 0x20 else 0, u\<lparr>u_wait := u_wait u - 1\<rparr>) else (0, u),
     bus_out = \<lambda>w p v u. if p = TX dev then \<lparr>u_wait = 3, u_sent = u_sent u @ [ucast v]\<rparr> else u\<rparr>"

lemma uart_bus_at: "uart_at (uart_bus dev) dev (\<lambda>_. 3) id"
  by (simp add: uart_at_def uart_bus_def inb_def outb_def LINE_STATUS_def TX_def LINE_STATUS_THRE_def)

lemma printk_on_serial_example:
  "\<exists>s'. vprintk (serial_out (uart_bus \<lparr>sd_base = 0x3f8\<rparr>) \<lparr>sd_base = 0x3f8\<rparr>) (\<lambda>_ _. 0) 0 0 (CHR ''x'') (Some \<lparr>u_wait = 5, u_sent = [1]\<rparr>)
      (''n='' @ ''%d'' @ []) [- 5] = Some (Some s') \<and> u_sent s' = [1] @ map of_char ''n='' @ concat (decimal (- 5)) @ map of_char []"
proof -
  have "plain_text ''n=''" "plain_text []" by (simp_all add: plain_text_def)
  then show ?thesis using printk_on_serial[OF uart_bus_at, of "''n=''" "[]" "\<lparr>sd_base = 0x3f8\<rparr>" "\<lambda>_ _. 0" 0 0 "CHR ''x''" "\<lparr>u_wait = 5, u_sent = [1]\<rparr>" "- 5" "[]"]
    by simp
qed

section \<open>Keys from the line\<close>

text \<open>
  One byte in the receiver becomes one key press: a letter becomes its key, with the shift modifier for a capital, carriage return and delete
  become return and backspace.
\<close>

lemma serial_key:
  assumes "s = (t, [1, ucast (c :: u8)])"
  shows "\<exists>m' t'. serial_console_irq_handler trace_bus buf (m, s) = Some ((m', t', []),
    \<lparr>ev_keycode = if c = 0x0D then KEY_RETURN else if c = 0x7F then KEY_BACKSPACE else keycode_from_codepoint (scast c),
     ev_pressed = True, ev_modifiers = if 0x41 \<le> sint c \<and> sint c \<le> 0x5A then KEYBOARD_MODIFIER_SHIFT else 0\<rparr>)"
proof -
  have stop: "buf + 2 - 1 = buf + 1" "buf \<noteq> buf + 1" by simp_all
  have w: "serial_wait trace_bus dev LINE_STATUS_DR (t, 1 # q) = Some (t @ [In 1 (LINE_STATUS dev)], q)" for dev t q
    by (subst serial_wait.simps) (simp add: port_simps LINE_STATUS_DR_def)
  have "serial_read_loop trace_bus dev buf (buf + 1) (m, t, [1, ucast c]) =
      Some (m(buf := c, buf + 1 := 0), t @ [In 1 (LINE_STATUS dev), In 1 (TX dev)], [])" for dev
    by (subst serial_read_loop.simps) (simp add: w port_simps serial_read_loop.simps[of _ _ "buf + 1" "buf + 1"])
  then have r: "serial_read trace_bus 0 buf 2 (m, s) = Some (m(buf := c, buf + 1 := 0), t @ [In 1 (LINE_STATUS (serial_devices ! 0)), In 1 (TX (serial_devices ! 0))], [])"
    unfolding serial_read_def stop assms by (simp add: serial_devices_def)
  have "(m(buf := c, buf + 1 := 0)) buf = c" by simp
  with r show ?thesis unfolding serial_console_irq_handler_def by (simp only: Option.bind.simps Let_def fst_conv) blast
qed

text \<open>The beeper is programmed with the divisor of the frequency; a frequency of one hertz does not fit into the sixteen bits of the counter.\<close>

lemma beeper_play_divisor:
  assumes "nf \<noteq> 0"
  shows "\<exists>q'. beeper_play trace_bus nf (t, [v]) = Some (t @ [Out 1 0x43 0xb6, Out 1 0x42 (ucast (ucast (PIT2_FREQ_DIV div nf) :: u8)),
    Out 1 0x42 (ucast (ucast (drop_bit 8 (PIT2_FREQ_DIV div nf)) :: u8)), In 1 0x61] @
    (if ucast v \<noteq> ucast v OR (3 :: u8) then [Out 1 0x61 (ucast (ucast v OR (3 :: u8)))] else []), q')"
  using assms by (simp add: beeper_play_def port_simps Let_def)

lemma beeper_ioctl_zero: "beeper_ioctl b garbage s BEEPER_IOCTL_NPLAY 0 = Some (s, - EINVAL)"
  by (simp add: beeper_ioctl_def)

text \<open>A request never crashes the kernel: a frequency of zero is refused.\<close>

lemma beeper_ioctl_total: "beeper_ioctl b garbage s req dat \<noteq> None"
  by (simp add: beeper_ioctl_def beeper_play_def Let_def case_prod_beta)

end
