(* ===== verification/Sound.thy ===== *)
theory Sound
  imports Locking Pci Paging Devices Interrupts
begin

text \<open>
  The sound card driver, \<^verbatim>\<open>drivers/sb16.c\<close>: the signal processor and the mixer of the card, the programming of a DMA transfer, the device
  operations and the interrupt that ends a transfer.

  Functions work on memory and the bus. \<open>yield\<close> is what other tasks do while the driver waits for a mutex; the two mutexes of the DMA
  controller are bytes of memory at \<open>isa_dma_channel_mutex\<close> (that of channel 5) and \<open>isa_dma_mutex\<close>. \<open>None\<close> is a failed assertion or a
  device that never answers. Log messages are left out, \<open>garbage\<close> is the value of a function that ends without a return
  statement.
\<close>

section \<open>The card\<close>

definition SB16_RESET_CYCLES :: nat where "SB16_RESET_CYCLES = 3000"
definition SB16_BASE_JS1 :: u16 where "SB16_BASE_JS1 = 0x220"
definition SB16_MIXER_ADDRESS_PORT :: u16 where "SB16_MIXER_ADDRESS_PORT = 0x04"
definition SB16_MIXER_DATA_PORT :: u16 where "SB16_MIXER_DATA_PORT = 0x05"
definition SB16_DSP_RESET_PORT :: u16 where "SB16_DSP_RESET_PORT = 0x06"
definition SB16_DSP_READ_PORT :: u16 where "SB16_DSP_READ_PORT = 0x0A"
definition SB16_DSP_WRITE_PORT :: u16 where "SB16_DSP_WRITE_PORT = 0x0C"
definition SB16_DSP_STATUS_PORT :: u16 where "SB16_DSP_STATUS_PORT = 0x0E"
definition SB16_DSP_ACK16_PORT :: u16 where "SB16_DSP_ACK16_PORT = 0x0F"
definition SB16_MIXER_REG_COMPAT_MASTER_VOL :: u8 where "SB16_MIXER_REG_COMPAT_MASTER_VOL = 0x22"
definition SB16_MIXER_REG_MASTER_VOL_L :: u8 where "SB16_MIXER_REG_MASTER_VOL_L = 0x30"
definition SB16_MIXER_REG_MASTER_VOL_R :: u8 where "SB16_MIXER_REG_MASTER_VOL_R = 0x31"
definition SB16_DSP_CMD_GET_VERSION :: u8 where "SB16_DSP_CMD_GET_VERSION = 0xE1"
definition SB16_DSP_CMD_SET_BLOCK_TRANSFER_SIZE :: u8 where "SB16_DSP_CMD_SET_BLOCK_TRANSFER_SIZE = 0x48"
definition SB16_DSP_CMD_SET_SAMPLE_RATE_OUT :: u8 where "SB16_DSP_CMD_SET_SAMPLE_RATE_OUT = 0x41"
definition SB16_DSP_CMD_SET_SAMPLE_RATE_IN :: u8 where "SB16_DSP_CMD_SET_SAMPLE_RATE_IN = 0x42"
definition SB16_DSP_CMD_16BIT_DMA_PROGRAM_BASE :: u8 where "SB16_DSP_CMD_16BIT_DMA_PROGRAM_BASE = 0xB0"
definition SB16_MAX_BLK_SIZE :: u32 where "SB16_MAX_BLK_SIZE = ISA_DMA_MAX_LEN"
definition SB16_IOCTL_SET_SAMPLERATE :: u32 where "SB16_IOCTL_SET_SAMPLERATE = 3"
definition SB16_IOCTL_SET_STEREO :: u32 where "SB16_IOCTL_SET_STEREO = 4"
definition SB16_IOCTL_GET_PERIOD :: u32 where "SB16_IOCTL_GET_PERIOD = 5"

record sound_card_sb16 =
  sc_base_port :: u16
  sc_dsp_major :: u8
  sc_dsp_minor :: u8
  sc_sample_rate :: u16
  sc_stereo :: bool
  sc_dma_data :: ptr
  sc_dma_size :: size_t
  sc_curr_start :: ptr
  sc_curr_end :: ptr
  sc_curr_pgd :: ptr
  sc_mu :: u8
  sc_owner :: ptr
  sc_owner_fd :: int

text \<open>The loop of the reset: \<open>n\<close> attempts are left.\<close>

primrec sb16_reset_loop :: "'s bus \<Rightarrow> sound_card_sb16 \<Rightarrow> nat \<Rightarrow> 's \<Rightarrow> bool \<times> 's" where
  "sb16_reset_loop b dev 0 s = (False, s)"
| "sb16_reset_loop b dev (Suc n) s =
     (let s = outb b (sc_base_port dev + SB16_DSP_RESET_PORT) 1 s;
          s = for_upto SB16_RESET_CYCLES (\<lambda>_ s. snd (inb b (sc_base_port dev + SB16_DSP_RESET_PORT) s)) s;
          s = outb b (sc_base_port dev + SB16_DSP_RESET_PORT) 0 s;
          (v, s) = inb b (sc_base_port dev + SB16_DSP_READ_PORT) s
      in if v = 0xAA then (True, s) else sb16_reset_loop b dev n s)"

definition sb16_dsp_reset :: "'s bus \<Rightarrow> sound_card_sb16 \<Rightarrow> 's \<Rightarrow> bool \<times> 's" where
  "sb16_dsp_reset b dev s = sb16_reset_loop b dev SB16_RESET_CYCLES s"

text \<open>Waiting until the top bit of the status has the given value.\<close>

partial_function (option) sb16_wait :: "'s bus \<Rightarrow> sound_card_sb16 \<Rightarrow> u8 \<Rightarrow> 's \<Rightarrow> 's option" where
  "sb16_wait b dev v s =
     (let (st, s) = inb b (sc_base_port dev + SB16_DSP_STATUS_PORT) s in if drop_bit 7 st \<noteq> v then sb16_wait b dev v s else Some s)"

definition sb16_dsp_read :: "'s bus \<Rightarrow> sound_card_sb16 \<Rightarrow> 's \<Rightarrow> (u8 \<times> 's) option" where
  "sb16_dsp_read b dev s = do { s \<leftarrow> sb16_wait b dev 1 s; Some (inb b (sc_base_port dev + SB16_DSP_READ_PORT) s) }"

definition sb16_dsp_write :: "'s bus \<Rightarrow> sound_card_sb16 \<Rightarrow> u8 \<Rightarrow> 's \<Rightarrow> 's option" where
  "sb16_dsp_write b dev v s = do { s \<leftarrow> sb16_wait b dev 0 s; Some (outb b (sc_base_port dev + SB16_DSP_WRITE_PORT) v s) }"

definition sb16_mixer_read :: "'s bus \<Rightarrow> sound_card_sb16 \<Rightarrow> u8 \<Rightarrow> 's \<Rightarrow> u8 \<times> 's" where
  "sb16_mixer_read b dev reg s = inb b (sc_base_port dev + SB16_MIXER_DATA_PORT) (outb b (sc_base_port dev + SB16_MIXER_ADDRESS_PORT) reg s)"

definition sb16_mixer_write :: "'s bus \<Rightarrow> sound_card_sb16 \<Rightarrow> u8 \<Rightarrow> u8 \<Rightarrow> 's \<Rightarrow> 's" where
  "sb16_mixer_write b dev reg v s = outb b (sc_base_port dev + SB16_MIXER_DATA_PORT) v (outb b (sc_base_port dev + SB16_MIXER_ADDRESS_PORT) reg s)"

definition sb16_mix_compat_set_master_vol :: "'s bus \<Rightarrow> sound_card_sb16 \<Rightarrow> u8 \<Rightarrow> u8 \<Rightarrow> 's \<Rightarrow> bool \<times> 's" where
  "sb16_mix_compat_set_master_vol b dev level_l level_r s =
     (if level_l > 15 \<or> level_r > 15 then (False, s)
      else (True, sb16_mixer_write b dev SB16_MIXER_REG_COMPAT_MASTER_VOL (level_r OR push_bit 4 level_l) s))"

definition sb16_mix_set_master_vol :: "'s bus \<Rightarrow> bool \<Rightarrow> sound_card_sb16 \<Rightarrow> u8 \<Rightarrow> u8 \<Rightarrow> 's \<Rightarrow> bool \<times> 's" where
  "sb16_mix_set_master_vol b garbage dev level_l level_r s =
     (if level_l > 31 \<or> level_r > 31 then (False, s)
      else (garbage, sb16_mixer_write b dev SB16_MIXER_REG_MASTER_VOL_R level_r (sb16_mixer_write b dev SB16_MIXER_REG_MASTER_VOL_L level_l s)))"

section \<open>Transfers\<close>

definition sb16_dsp_program_dma_16 :: "'s bus \<Rightarrow> sound_card_sb16 \<Rightarrow> bool \<Rightarrow> bool \<Rightarrow> bool \<Rightarrow> bool \<Rightarrow> u16 \<Rightarrow> 's \<Rightarrow> 's option" where
  "sb16_dsp_program_dma_16 b dev ad autoinit stereo signed_data nsamples s =
     (let dsp_command = SB16_DSP_CMD_16BIT_DMA_PROGRAM_BASE OR push_bit 3 (of_bool ad) OR push_bit 2 (of_bool autoinit);
          mode = push_bit 5 (of_bool stereo) OR push_bit 4 (of_bool signed_data)
      in do {
        s \<leftarrow> sb16_dsp_write b dev dsp_command s;
        s \<leftarrow> sb16_dsp_write b dev mode s;
        s \<leftarrow> sb16_dsp_write b dev (ucast (nsamples AND 0xFF)) s;
        sb16_dsp_write b dev (ucast (drop_bit 8 nsamples AND 0xFF)) s })"

definition sb16_dsp_set_sampling_rate :: "'s bus \<Rightarrow> sound_card_sb16 \<Rightarrow> u16 \<Rightarrow> bool \<Rightarrow> 's \<Rightarrow> 's option" where
  "sb16_dsp_set_sampling_rate b dev sampling_rate input s = do {
     s \<leftarrow> sb16_dsp_write b dev (if input then SB16_DSP_CMD_SET_SAMPLE_RATE_IN else SB16_DSP_CMD_SET_SAMPLE_RATE_OUT) s;
     s \<leftarrow> sb16_dsp_write b dev (ucast (drop_bit 8 sampling_rate AND 0xFF)) s;
     sb16_dsp_write b dev (ucast (sampling_rate AND 0xFF)) s }"

definition sb16_dsp_set_trblock_size :: "'s bus \<Rightarrow> sound_card_sb16 \<Rightarrow> u16 \<Rightarrow> 's \<Rightarrow> 's option" where
  "sb16_dsp_set_trblock_size b dev v s = do {
     s \<leftarrow> sb16_dsp_write b dev SB16_DSP_CMD_SET_BLOCK_TRANSFER_SIZE s;
     s \<leftarrow> sb16_dsp_write b dev (ucast (v AND 0xFF)) s;
     sb16_dsp_write b dev (ucast (drop_bit 8 v AND 0xFF)) s }"

record dma_locks =
  isa_dma_channel_mutex :: ptr
  isa_dma_mutex :: ptr

text \<open>The value of an assertion is the state if it holds.\<close>

definition asserted :: "bool \<times> 's \<Rightarrow> 's option" where
  "asserted r = (if fst r then Some (snd r) else None)"

definition sb16_prepare_dma16 ::
    "'s bus \<Rightarrow> (mem \<times> 's \<Rightarrow> mem \<times> 's) \<Rightarrow> dma_locks \<Rightarrow> u32 \<Rightarrow> size_t \<Rightarrow> bool \<Rightarrow> mem \<times> 's \<Rightarrow> (mem \<times> 's) option" where
  "sb16_prepare_dma16 b yield l buffer len autoinit st = do {
     st \<leftarrow> mutex_acquire_yield yield (isa_dma_channel_mutex l) st;
     st \<leftarrow> mutex_acquire_yield yield (isa_dma_mutex l) st;
     let (m, s) = st;
     s \<leftarrow> asserted (isa_dma_set_state b 5 False s);
     s \<leftarrow> asserted (isa_dma_set_mode b 5 2 autoinit False 1 s);
     r \<leftarrow> isa_dma_set_address b 5 buffer s;
     s \<leftarrow> asserted r;
     r \<leftarrow> isa_dma_set_length b 5 len s;
     s \<leftarrow> asserted r;
     s \<leftarrow> asserted (isa_dma_set_state b 5 True s);
     Some (mutex_release m (isa_dma_mutex l), s) }"

definition sb16_conclude_dma16 :: "dma_locks \<Rightarrow> mem \<Rightarrow> mem" where
  "sb16_conclude_dma16 l m = mutex_release m (isa_dma_channel_mutex l)"

definition sb16_start_transfer ::
    "'s bus \<Rightarrow> (mem \<times> 's \<Rightarrow> mem \<times> 's) \<Rightarrow> dma_locks \<Rightarrow> sound_card_sb16 \<Rightarrow> size_t \<Rightarrow> bool \<Rightarrow> mem \<times> 's \<Rightarrow> (mem \<times> 's) option" where
  "sb16_start_transfer b yield l dev nbytes autoinit st = do {
     let nbytes = min nbytes (sc_dma_size dev);
     let nsamples = nbytes div 2;
     let nsamples = (if sc_stereo dev then nsamples div 2 else nsamples);
     (m, s) \<leftarrow> sb16_prepare_dma16 b yield l (ADDR_TO_PHYS (sc_dma_data dev)) (nbytes - 1) autoinit st;
     s \<leftarrow> sb16_dsp_set_sampling_rate b dev (sc_sample_rate dev) False s;
     s \<leftarrow> sb16_dsp_program_dma_16 b dev False autoinit (sc_stereo dev) True (ucast (nsamples - 1)) s;
     Some (m, s) }"

section \<open>The device\<close>

definition sb16_dev_write ::
    "'s bus \<Rightarrow> (mem \<times> 's \<Rightarrow> mem \<times> 's) \<Rightarrow> dma_locks \<Rightarrow> ptr \<Rightarrow> sound_card_sb16 \<Rightarrow> ptr \<Rightarrow> size_t \<Rightarrow> mem \<times> 's \<Rightarrow> (sound_card_sb16 \<times> (mem \<times> 's) \<times> int) option" where
  "sb16_dev_write b yield l pgd snd_card buffer nbytes st =
     (if nbytes = 0 then Some (snd_card, st, 0)
      else if sc_curr_start snd_card \<noteq> NULL then Some (snd_card, st, - EAGAIN)
      else
        let n = min nbytes (sc_dma_size snd_card);
            m = memcpy (fst st) (sc_dma_data snd_card) buffer n;
            snd_card = snd_card\<lparr>sc_curr_start := buffer, sc_curr_end := buffer + nbytes, sc_curr_pgd := pgd\<rparr>
        in do {
          st \<leftarrow> sb16_start_transfer b yield l snd_card n False (m, snd st);
          Some (snd_card, st, sint n) })"

definition sb16_irq_handler :: "'s bus \<Rightarrow> dma_locks \<Rightarrow> sound_card_sb16 \<Rightarrow> mem \<times> 's \<Rightarrow> sound_card_sb16 \<times> mem \<times> 's" where
  "sb16_irq_handler b l snd_card st =
     (let s = snd (inb b (sc_base_port snd_card + SB16_DSP_ACK16_PORT) (snd st))
      in (snd_card\<lparr>sc_curr_start := NULL, sc_curr_end := NULL\<rparr>, sb16_conclude_dma16 l (fst st), s))"

definition sb16_dev_ioctl :: "sound_card_sb16 \<Rightarrow> u32 \<Rightarrow> ptr \<Rightarrow> sound_card_sb16 \<times> int" where
  "sb16_dev_ioctl snd_card req data =
     (if req = SB16_IOCTL_SET_SAMPLERATE then (snd_card\<lparr>sc_sample_rate := ucast data\<rparr>, 0)
      else if req = SB16_IOCTL_SET_STEREO then (snd_card\<lparr>sc_stereo := (data \<noteq> 0)\<rparr>, 0)
      else if req = SB16_IOCTL_GET_PERIOD then (snd_card, sint (ISA_DMA_MAX_LEN div 2))
      else (snd_card, 0))"

text \<open>The buffer of 64 KB is taken from the frames; \<open>raw\<close> is the block \<open>kmalloc\<close> returns for the structure.\<close>

definition create_sb16_card :: "pgstate \<Rightarrow> ptr \<Rightarrow> sound_card_sb16 \<Rightarrow> u16 \<Rightarrow> (pgstate \<times> sound_card_sb16) option" where
  "create_sb16_card st kpgd raw base_port =
     (let (dma, p) = pmm_alloc (pg_pmm st) 16; st = st\<lparr>pg_pmm := p\<rparr>
      in if dma = 0xFFFFFFFF then None
         else if \<not> dma < 0x1000000 then None
         else do {
           st \<leftarrow> map_addr_fixed st kpgd (ADDR_TO_VIRT dma) dma 16 0 0;
           let snd_card = raw\<lparr>sc_mu := MUTEX_UNLOCKED, sc_base_port := base_port, sc_dma_data := ADDR_TO_VIRT dma, sc_dma_size := SB16_MAX_BLK_SIZE,
                          sc_curr_start := NULL, sc_curr_end := NULL,
                          sc_owner := NULL, sc_owner_fd := - 1\<rparr>;
           Some (st\<lparr>pg_mem := memset (pg_mem st) (sc_dma_data snd_card) 0 (sc_dma_size snd_card)\<rparr>, snd_card) })"

text \<open>
  The function ends without a return statement; compiled code leaves the device in the result register. The state that the operations of the
  device work on holds the card.
\<close>

definition create_sb16_device ::
    "'s bus \<Rightarrow> (mem \<times> 's \<Rightarrow> mem \<times> 's) \<Rightarrow> dma_locks \<Rightarrow> ptr \<Rightarrow> (sound_card_sb16 \<times> mem \<times> 's) device \<Rightarrow> (sound_card_sb16 \<times> mem \<times> 's) device" where
  "create_sb16_device b yield l pgd raw =
     raw\<lparr>d_name := ''sb16'', d_seek := None, d_read := None,
       d_write := Some (\<lambda>(c, st) buffer count off. map_option (\<lambda>(c, st, r). ((c, st), off, r)) (sb16_dev_write b yield l pgd c buffer count st)),
       d_ioctl := Some (\<lambda>(c, st) req data. let (c, r) = sb16_dev_ioctl c req data in Some ((c, st), r)),
       d_mmap := None, d_class := DEV_C_GENERIC, d_type := DEV_BLOCK, d_block_size := 1, d_pos := 0\<rparr>"

text \<open>
  The part of the initialisation that talks to the card: \<open>False\<close> for a card that does not answer the reset; the signal processor must have
  version 4. Then the device is registered and its handler set for interrupt 0x25.
\<close>

definition sb16_probe :: "'s bus \<Rightarrow> sound_card_sb16 \<Rightarrow> 's \<Rightarrow> (bool \<times> sound_card_sb16 \<times> 's) option" where
  "sb16_probe b snd_card s = do {
     let (reset, s) = sb16_dsp_reset b snd_card s;
     if \<not> reset then Some (False, snd_card, s)
     else do {
       s \<leftarrow> sb16_dsp_write b snd_card SB16_DSP_CMD_GET_VERSION s;
       (mj, s) \<leftarrow> sb16_dsp_read b snd_card s;
       (mn, s) \<leftarrow> sb16_dsp_read b snd_card s;
       if mj \<noteq> 4 then None else Some (True, snd_card\<lparr>sc_dsp_major := mj, sc_dsp_minor := mn\<rparr>, s) } }"

definition sb16_init ::
    "'s bus \<Rightarrow> ptr \<Rightarrow> sound_card_sb16 \<Rightarrow> 'k intr_handler_t \<Rightarrow> nat \<Rightarrow> 'd devreg \<times> 'w nodes \<times> 'k interrupts \<Rightarrow> pgstate \<times> 's \<Rightarrow>
     (sound_card_sb16 \<times> ('d devreg \<times> 'w nodes \<times> 'k interrupts) \<times> pgstate \<times> 's) option" where
  "sb16_init b kpgd raw h dev regs st = do {
     (pst, snd_card) \<leftarrow> create_sb16_card (fst st) kpgd raw SB16_BASE_JS1;
     (ok, snd_card, s) \<leftarrow> sb16_probe b snd_card (snd st);
     if \<not> ok then Some (snd_card, regs, pst, s)
     else
       let (r, ns, it) = regs;
           (r, ns) = register_device r ns dev
       in Some (snd_card, (r, ns, idt_register_interrupt 0x25 h it), pst, s) }"

section \<open>One transfer\<close>

text \<open>A signal processor that answers: each time the status says it is busy, it is closer to being ready.\<close>

definition dsp_answers :: "'s bus \<Rightarrow> u16 \<Rightarrow> ('s \<Rightarrow> nat) \<Rightarrow> bool" where
  "dsp_answers b base busy \<longleftrightarrow>
     (\<forall>s. drop_bit 7 (fst (inb b (base + SB16_DSP_STATUS_PORT) s)) \<noteq> 0 \<longrightarrow> busy (snd (inb b (base + SB16_DSP_STATUS_PORT) s)) < busy s)"

lemma sb16_wait_ends:
  assumes "dsp_answers b (sc_base_port dev) busy"
  shows "\<exists>s'. sb16_wait b dev 0 s = Some s'"
proof (induction "busy s" arbitrary: s rule: less_induct)
  case less
  show ?case
    using assms less[of "snd (inb b (sc_base_port dev + SB16_DSP_STATUS_PORT) s)"]
    by (subst sb16_wait.simps) (auto simp: dsp_answers_def case_prod_beta)
qed

lemma sb16_dsp_write_ends: "dsp_answers b (sc_base_port dev) busy \<Longrightarrow> \<exists>s'. sb16_dsp_write b dev v s = Some s'"
  using sb16_wait_ends[of b dev busy s] by (auto simp: sb16_dsp_write_def)

lemma sb16_programs_end:
  assumes "dsp_answers b (sc_base_port dev) busy"
  shows "\<exists>s'. sb16_dsp_set_sampling_rate b dev rate i s = Some s'" "\<exists>s'. sb16_dsp_program_dma_16 b dev a ai st sg n s = Some s'"
proof -
  note w = sb16_dsp_write_ends[OF assms]
  have bind: "\<exists>s'. Option.bind x f = Some s'" if "\<exists>s'. x = Some s'" "\<And>s. \<exists>s'. f s = Some s'" for x :: "'a option" and f :: "'a \<Rightarrow> 'a option"
    using that by auto
  show "\<exists>s'. sb16_dsp_set_sampling_rate b dev rate i s = Some s'" "\<exists>s'. sb16_dsp_program_dma_16 b dev a ai st sg n s = Some s'"
    unfolding sb16_dsp_set_sampling_rate_def sb16_dsp_program_dma_16_def Let_def by (intro bind w)+
qed

lemma isa_dma_channel5:
  "\<exists>s'. isa_dma_set_state b 5 en s = (True, s')"
  "\<exists>s'. isa_dma_set_mode b 5 2 ai False 1 s = (True, s')"
  "addr \<le> ISA_DMA_MAX_ADDR \<Longrightarrow> \<exists>s'. isa_dma_set_address b 5 addr s = Some (True, s')"
  "len \<le> ISA_DMA_MAX_LEN \<Longrightarrow> \<exists>s'. isa_dma_set_length b 5 len s = Some (True, s')"
  by (simp_all add: isa_dma_set_state_def isa_dma_set_mode_def isa_dma_set_address_def isa_dma_set_length_def ISA_DMA_NUM_CHANNELS_def
      ISA_DMA_MODE_TYPE_MASK_def not_less Let_def)

text \<open>
  The invariant of the driver: the buffer is inside what the controller can reach, the mutexes lie outside it, the mutex of the controller is
  free between operations, and that of the channel is held exactly while a transfer is under way.
\<close>

definition sb16_static :: "dma_locks \<Rightarrow> sound_card_sb16 \<Rightarrow> bool" where
  "sb16_static l c \<longleftrightarrow>
     isa_dma_channel_mutex l \<noteq> NULL \<and> isa_dma_mutex l \<noteq> NULL \<and> isa_dma_channel_mutex l \<noteq> isa_dma_mutex l \<and>
     \<not> in_region (sc_dma_data c) (unat (sc_dma_size c)) (isa_dma_channel_mutex l) \<and> \<not> in_region (sc_dma_data c) (unat (sc_dma_size c)) (isa_dma_mutex l) \<and>
     0 < sc_dma_size c \<and> sc_dma_size c \<le> ISA_DMA_MAX_LEN \<and> ADDR_TO_PHYS (sc_dma_data c) \<le> ISA_DMA_MAX_ADDR"

definition sb16_inv :: "dma_locks \<Rightarrow> sound_card_sb16 \<Rightarrow> mem \<Rightarrow> bool" where
  "sb16_inv l c m \<longleftrightarrow> sb16_static l c \<and> m (isa_dma_mutex l) = MUTEX_UNLOCKED \<and>
     m (isa_dma_channel_mutex l) = (if sc_curr_start c = NULL then MUTEX_UNLOCKED else MUTEX_LOCKED)"

lemma sb16_prepare_dma16_ok:
  assumes "sb16_static l c" and free: "m (isa_dma_channel_mutex l) = MUTEX_UNLOCKED" "m (isa_dma_mutex l) = MUTEX_UNLOCKED"
    and len: "len \<le> ISA_DMA_MAX_LEN"
  shows "\<exists>s'. sb16_prepare_dma16 b yield l (ADDR_TO_PHYS (sc_dma_data c)) len ai (m, s) = Some (m(isa_dma_channel_mutex l := MUTEX_LOCKED), s')"
proof -
  let ?p = "isa_dma_channel_mutex l" and ?q = "isa_dma_mutex l" and ?addr = "ADDR_TO_PHYS (sc_dma_data c)"
  have st: "?p \<noteq> NULL" "?q \<noteq> NULL" "?p \<noteq> ?q" "?addr \<le> ISA_DMA_MAX_ADDR" using assms(1) by (simp_all add: sb16_static_def)
  obtain s1 where s1: "isa_dma_set_state b 5 False s = (True, s1)" using isa_dma_channel5(1)[of b False s] by blast
  obtain s2 where s2: "isa_dma_set_mode b 5 2 ai False 1 s1 = (True, s2)" using isa_dma_channel5(2)[of b ai s1] by blast
  obtain s3 where s3: "isa_dma_set_address b 5 ?addr s2 = Some (True, s3)" using isa_dma_channel5(3)[OF st(4), of b s2] by blast
  obtain s4 where s4: "isa_dma_set_length b 5 len s3 = Some (True, s4)" using isa_dma_channel5(4)[OF len, of b s3] by blast
  obtain s5 where s5: "isa_dma_set_state b 5 True s4 = (True, s5)" using isa_dma_channel5(1)[of b True s4] by blast
  have "(m(?p := MUTEX_LOCKED, ?q := MUTEX_LOCKED))(?q := MUTEX_UNLOCKED) = m(?p := MUTEX_LOCKED)" using st(3) free(2) by auto
  then show ?thesis using st(1-3) free by (simp add: sb16_prepare_dma16_def asserted_def s1 s2 s3 s4 s5 mutex_release_def)
qed

lemma sb16_start_transfer_ok:
  assumes st: "sb16_static l c" and free: "m (isa_dma_channel_mutex l) = MUTEX_UNLOCKED" "m (isa_dma_mutex l) = MUTEX_UNLOCKED"
    and n: "0 < n" "n \<le> sc_dma_size c" and d: "dsp_answers b (sc_base_port c) busy"
  shows "\<exists>s'. sb16_start_transfer b yield l c n False (m, s) = Some (m(isa_dma_channel_mutex l := MUTEX_LOCKED), s')"
proof -
  have len: "n - 1 \<le> ISA_DMA_MAX_LEN" using n st by (auto simp: sb16_static_def word_le_nat_alt word_less_nat_alt unat_sub)
  obtain s1 where "sb16_prepare_dma16 b yield l (ADDR_TO_PHYS (sc_dma_data c)) (n - 1) False (m, s) = Some (m(isa_dma_channel_mutex l := MUTEX_LOCKED), s1)"
    using sb16_prepare_dma16_ok[OF st free len, of b yield False s] by blast
  moreover obtain s2 where "sb16_dsp_set_sampling_rate b c (sc_sample_rate c) False s1 = Some s2" using sb16_programs_end(1)[OF d, of "sc_sample_rate c" False s1] by blast
  moreover obtain s3 where
    "sb16_dsp_program_dma_16 b c False False (sc_stereo c) True (ucast ((if sc_stereo c then n div 2 div 2 else n div 2) - 1)) s2 = Some s3"
    using sb16_programs_end(2)[OF d, where s = s2] by blast
  ultimately show ?thesis using n(2) by (simp add: sb16_start_transfer_def min_absorb1 Let_def)
qed

text \<open>
  C36: the life of a sound transfer. On a card whose signal processor answers and that is idle, a write of a buffer that does not overlap the
  DMA buffer returns the number of bytes taken, at most the size of the DMA buffer, which then holds these bytes; the driver's
  invariant holds with the channel locked, every further write is refused with \<open>-EAGAIN\<close> and changes nothing, until the
  interrupt handler runs: it leaves the card idle with the invariant, ready for the next write.
\<close>

theorem sb16_write_cycle:
  assumes inv: "sb16_inv l c m" and idle: "sc_curr_start c = NULL" and d: "dsp_answers b (sc_base_port c) busy"
    and buf: "buffer \<noteq> NULL" "nbytes \<noteq> 0" and n: "n = min nbytes (sc_dma_size c)"
    and disj: "regions_disjoint (sc_dma_data c) (unat n) buffer (unat n)"
  shows "\<exists>c' m' s'. sb16_dev_write b yield l pgd c buffer nbytes (m, s) = Some (c', (m', s'), int (unat n)) \<and>
    (\<forall>i. i < unat n \<longrightarrow> m' (sc_dma_data c + of_nat i) = m (buffer + of_nat i)) \<and> sb16_inv l c' m' \<and>
    (\<forall>buffer2 k st. k \<noteq> 0 \<longrightarrow> sb16_dev_write b yield l pgd c' buffer2 k st = Some (c', st, - EAGAIN)) \<and>
    (\<forall>s2. case sb16_irq_handler b l c' (m', s2) of (c2, m2, _) \<Rightarrow> sb16_inv l c2 m2 \<and> sc_curr_start c2 = NULL)"
proof -
  define c' where "c' = c\<lparr>sc_curr_start := buffer, sc_curr_end := buffer + nbytes, sc_curr_pgd := pgd\<rparr>"
  define m1 where "m1 = memcpy m (sc_dma_data c) buffer n"
  have st: "sb16_static l c" using inv by (simp add: sb16_inv_def)
  have n0: "0 < n" "n \<le> sc_dma_size c" using buf(2) st n by (auto simp: sb16_static_def min_def word_gt_0)
  have small: "unat n \<le> 65536" using n0(2) st by (auto simp: sb16_static_def word_le_nat_alt ISA_DMA_MAX_LEN_def)
  have out: "m1 q = m q" if "\<not> in_region (sc_dma_data c) (unat (sc_dma_size c)) q" for q
    using that n0(2) memcpy_apply[OF disj, of m q] by (auto simp: m1_def in_region_def word_le_nat_alt)
  have free: "m1 (isa_dma_channel_mutex l) = MUTEX_UNLOCKED" "m1 (isa_dma_mutex l) = MUTEX_UNLOCKED"
    using inv out idle by (auto simp: sb16_inv_def sb16_static_def)
  define m' where "m' = m1(isa_dma_channel_mutex l := MUTEX_LOCKED)"
  have st': "sb16_static l c'" using st by (simp add: c'_def sb16_static_def)
  obtain s' where "sb16_start_transfer b yield l c' n False (m1, s) = Some (m', s')"
    using sb16_start_transfer_ok[OF st' free, of n b busy yield s] n0 d by (auto simp: c'_def m'_def)
  then have "sb16_dev_write b yield l pgd c buffer nbytes (m, s) = Some (c', (m', s'), int (unat n))"
    using buf(2) idle small n by (simp add: sb16_dev_write_def Let_def m1_def c'_def sint_u32)
  moreover have "m' (sc_dma_data c + of_nat i) = m (buffer + of_nat i)" if "i < unat n" for i
  proof -
    have i: "unat (of_nat i :: u32) = i" using that small by (simp add: unat_of_nat)
    then have r: "in_region (sc_dma_data c) (unat n) (sc_dma_data c + of_nat i)" using that by (simp add: in_region_def)
    then have "in_region (sc_dma_data c) (unat (sc_dma_size c)) (sc_dma_data c + of_nat i)" using n0(2) by (simp add: in_region_def word_le_nat_alt)
    then have "sc_dma_data c + of_nat i \<noteq> isa_dma_channel_mutex l" using st by (auto simp: sb16_static_def)
    then show ?thesis using r memcpy_apply[OF disj, of m "sc_dma_data c + of_nat i"] by (simp add: m'_def m1_def)
  qed
  moreover have inv': "sb16_inv l c' m'" using st' free buf(1) by (auto simp: sb16_inv_def sb16_static_def m'_def c'_def)
  moreover have "sb16_dev_write b yield l pgd c' buffer2 k st2 = Some (c', st2, - EAGAIN)" if "k \<noteq> 0" for buffer2 k st2
    using that buf(1) by (simp add: sb16_dev_write_def c'_def)
  moreover have "case sb16_irq_handler b l c' (m', s2) of (c2, m2, _) \<Rightarrow> sb16_inv l c2 m2 \<and> sc_curr_start c2 = NULL" for s2
    using inv' by (auto simp: sb16_irq_handler_def sb16_conclude_dma16_def mutex_release_def sb16_inv_def sb16_static_def Let_def)
  ultimately show ?thesis by blast
qed

text \<open>A card at 0x220 with a buffer of 64 bytes at 0xC0100000, on a bus that answers every read with zero.\<close>

definition sample_card :: sound_card_sb16 where
  "sample_card = \<lparr>sc_base_port = 0x220, sc_dsp_major = 4, sc_dsp_minor = 0, sc_sample_rate = 44100, sc_stereo = False, sc_dma_data = 0xC0100000,
     sc_dma_size = 64, sc_curr_start = 0, sc_curr_end = 0, sc_curr_pgd = 0, sc_mu = 0, sc_owner = 0, sc_owner_fd = - 1\<rparr>"

definition sample_locks :: dma_locks where
  "sample_locks = \<lparr>isa_dma_channel_mutex = 0xC0200005, isa_dma_mutex = 0xC0200010\<rparr>"

lemma sample_card_inv: "sb16_inv sample_locks sample_card (\<lambda>_. 0)"
  by (simp add: sb16_inv_def sb16_static_def sample_locks_def sample_card_def in_region_def ISA_DMA_MAX_LEN_def ISA_DMA_MAX_ADDR_def ADDR_TO_PHYS_def
      VIRT_BASE_def MUTEX_UNLOCKED_def word_le_nat_alt word_less_nat_alt)

lemma sample_dsp_answers: "dsp_answers \<lparr>bus_in = \<lambda>_ _ s. (0, s), bus_out = \<lambda>_ _ _ s. s\<rparr> base (\<lambda>_. 0)"
  by (simp add: dsp_answers_def inb_def)

theorem sb16_write_cycle_witness:
  "\<exists>c' m' s'. sb16_dev_write \<lparr>bus_in = \<lambda>_ _ s. (0, s), bus_out = \<lambda>_ _ _ s. s\<rparr> id sample_locks 0 sample_card 0x1000 100 (\<lambda>_. 0, ()) =
      Some (c', (m', s'), 64) \<and> sb16_inv sample_locks c' m'"
proof -
  have h: "regions_disjoint (sc_dma_data sample_card) (unat (64 :: u32)) 0x1000 (unat (64 :: u32))" "sc_curr_start sample_card = NULL"
      "(64 :: u32) = min 100 (sc_dma_size sample_card)" "(0x1000 :: ptr) \<noteq> NULL" "(100 :: u32) \<noteq> 0" "int (unat (64 :: u32)) = 64"
    by (simp_all add: regions_disjoint_def sample_card_def)
  from sb16_write_cycle[OF sample_card_inv h(2) sample_dsp_answers h(4,5,3,1), of id 0 "()", unfolded h(6)] show ?thesis by blast
qed

text \<open>
  The count that the signal processor gets is the number of samples less one: a write of a single byte is half a sample and starts a transfer
  of 65536 samples.
\<close>

lemma sb16_one_byte_plays_all:
  assumes "sc_dma_size c \<noteq> 0"
  shows "sb16_start_transfer b yield l c 1 ai (m, s) = do {
     (m, s) \<leftarrow> sb16_prepare_dma16 b yield l (ADDR_TO_PHYS (sc_dma_data c)) 0 ai (m, s);
     s \<leftarrow> sb16_dsp_set_sampling_rate b c (sc_sample_rate c) False s;
     s \<leftarrow> sb16_dsp_program_dma_16 b c False ai (sc_stereo c) True 0xFFFF s;
     Some (m, s) }"
proof -
  have "min 1 (sc_dma_size c) = 1" using assms by (simp add: min_def word_le_nat_alt word_unat_eq_iff)
  moreover have "ucast (- 1 :: u32) = (0xFFFF :: u16)"
  proof -
    have "ucast (- 1 :: u32) = (mask 16 :: u16)" by (rule bit_word_eqI) (simp add: bit_simps)
    then show ?thesis by (simp add: mask_eq_exp_minus_1)
  qed
  ultimately show ?thesis by (simp add: sb16_start_transfer_def Let_def)
qed

text \<open>The channel counts words, but is programmed with the number of bytes less one: twice the length of the data.\<close>

lemma sb16_length_in_bytes:
  "isa_dma_set_length trace_bus 5 (0x1000 - 1) ([], []) = Some (True, [Out 1 0xD8 0, Out 1 0xC6 0xFF, Out 1 0xC6 0x0F], [])"
  by (simp add: isa_dma_set_length_def ISA_DMA_NUM_CHANNELS_def ISA_DMA_MAX_LEN_def isa_dma_reset_flipflop_def PORTV_def
      ISA_DMA_NUM_CONTROLLER_CHANNELS_def isa_dma_flipflop_reset_port_def isa_dma_offset_ports_def port_simps Let_def)

end
