(* ===== verification/Boot_Paging.thy ===== *)
theory Boot_Paging
  imports Vmm Signal Interrupts
begin

text \<open>
  The rest of \<^verbatim>\<open>mm/paging.c\<close>: the control registers, the tables that \<open>paging_init\<close> builds for the kernel, and the handler of page faults, which
  joins the areas of \<^verbatim>\<open>Vmm\<close> and the signals of \<^verbatim>\<open>Signal\<close>.

  The theorem about the tables justifies the memory model of the development: kernel addresses are translated linearly.
\<close>

section \<open>Control registers\<close>

record mmu =
  cr0 :: u32
  cr3 :: u32
  cr4 :: u32
  mmu_paging_enabled :: bool
  mmu_current_pgd :: ptr
  hwinterrupts :: bool

definition activate_pgd :: "ptr \<Rightarrow> mmu \<Rightarrow> mmu" where
  "activate_pgd pgd u = u\<lparr>cr3 := ADDR_TO_PHYS pgd, mmu_current_pgd := pgd\<rparr>"

definition get_current_pgd :: "mmu \<Rightarrow> ptr" where
  "get_current_pgd u = ADDR_TO_VIRT (cr3 u)"

definition enable_paging :: "mmu \<Rightarrow> mmu" where
  "enable_paging u = u\<lparr>cr4 := cr4 u AND 0xffffffef, cr0 := cr0 u OR 0x80000000, mmu_paging_enabled := True\<rparr>"

section \<open>The kernel's tables\<close>

text \<open>The addresses of the page directory and the four tables, which the linker places.\<close>

record kernel_tables =
  kt_pgd :: ptr
  kt_kernel :: ptr
  kt_heap_1 :: ptr
  kt_heap_2 :: ptr
  kt_heap_3 :: ptr

definition map_kernel_table :: "ptr \<Rightarrow> mem \<Rightarrow> mem" where
  "map_kernel_table t m =
     for_upto 1024 (\<lambda>k m. let i = of_nat k * PAGE_SIZE in store32 m (t + 4 * pte_index i) (make_pte i 0 0)) m"

text \<open>The loops over the tables of the heap; \<open>extra i\<close> is what the second and the third loop add to the address.\<close>

definition map_heap_table :: "ptr \<Rightarrow> nat \<Rightarrow> (nat \<Rightarrow> u32) \<Rightarrow> mem \<Rightarrow> mem" where
  "map_heap_table t j extra m =
     for_upto 1024 (\<lambda>i m. let offset = (PAGE_TABLE_SIZE * of_nat j + of_nat i) * PAGE_SIZE
                          in store32 m (t + 4 * pte_index (HEAP_BASE + offset)) (make_pte (extra i + ADDR_TO_PHYS HEAP_BASE + offset) 1 0)) m"

definition paging_tables :: "kernel_tables \<Rightarrow> mem \<Rightarrow> mem" where
  "paging_tables t m =
     (let m = map_kernel_table (kt_kernel t) m;
          m = map_heap_table (kt_heap_1 t) 0 (\<lambda>_. 0) m;
          m = map_heap_table (kt_heap_2 t) 1 of_nat m;
          m = map_heap_table (kt_heap_3 t) 2 of_nat m;
          m = store32 m (kt_kernel t + 4 * pte_index 0) (make_pte 0 0 0);
          m = store32 m (kt_pgd t + 4 * pde_index VIRT_BASE) (make_pde (ADDR_TO_PHYS (kt_kernel t)) 1 0);
          m = store32 m (kt_pgd t + 4 * pde_index (VIRT_BASE + 1 * 1024 * 4096)) (make_pde (ADDR_TO_PHYS (kt_heap_1 t)) 1 0);
          m = store32 m (kt_pgd t + 4 * pde_index (VIRT_BASE + 2 * 1024 * 4096)) (make_pde (ADDR_TO_PHYS (kt_heap_2 t)) 1 0)
      in store32 m (kt_pgd t + 4 * pde_index (VIRT_BASE + 3 * 1024 * 4096)) (make_pde (ADDR_TO_PHYS (kt_heap_3 t)) 1 0))"

definition paging_init ::
    "'k intr_handler_t \<Rightarrow> kernel_tables \<Rightarrow> mem \<times> mmu \<times> 'k interrupts \<Rightarrow> mem \<times> mmu \<times> 'k interrupts" where
  "paging_init handler t st =
     (let (m, u, it) = st;
          u = u\<lparr>hwinterrupts := False\<rparr>;
          m = paging_tables t m;
          it = idt_register_interrupt 14 handler it;
          u = activate_pgd (kt_pgd t) u
      in (m, enable_paging u, it))"

section \<open>Page faults\<close>

text \<open>
  \<open>mt\<close> is the current task as \<^verbatim>\<open>Vmm\<close> sees it, \<open>None\<close> before there is one. A fault of the kernel ends in a panic. The kind of the fault
  is not passed on: what \<open>vma_pagefault_handler\<close> returns is only compared with \<open>VM_FAULT_IGNORE\<close>. The messages are left out.
\<close>

definition do_user_pgf :: "(kernel \<Rightarrow> kernel option) \<Rightarrow> kernel \<Rightarrow> u32 \<Rightarrow> outcome option" where
  "do_user_pgf resched k fault_addr =
     signal_send resched k (current_task k)
       \<lparr>s_number = SIGSEGV, s_code = 0, s_errno = 0xDEAD, s_pid = word_of_int (t_thid (tasks k (current_task k))), s_uid = 0,
        s_fault_addr = fault_addr, s_status = 0, s_band = 0, s_queue_val = 0\<rparr>"

definition pagefault_handler ::
    "(nat \<Rightarrow> load_page option) \<Rightarrow> (kernel \<Rightarrow> kernel option) \<Rightarrow> ptr \<Rightarrow> u32 \<Rightarrow> mm_task option \<Rightarrow> registers \<Rightarrow> vmm \<times> kernel \<Rightarrow> (vmm \<times> outcome) option" where
  "pagefault_handler ops resched kpgd fault_addr mt r st = do {
     let (vm, k) = st;
     (vm, res) \<leftarrow> (case mt of
         Some t \<Rightarrow> if t_vm_areas t \<noteq> None then vma_pagefault_handler ops vm t kpgd (r_err_code r) fault_addr else Some (vm, VM_FAULT_CRASH)
       | None \<Rightarrow> Some (vm, VM_FAULT_CRASH));
     if res = VM_FAULT_IGNORE then Some (vm, Continue k)
     else if r_eip r \<ge> VIRT_BASE then None
     else do { out \<leftarrow> do_user_pgf resched k fault_addr; Some (vm, out) } }"

text \<open>
  A fault outside the areas of the task: the program gets \<open>SIGSEGV\<close> with the address and nothing is mapped, a fault of the kernel itself
  is a panic.
\<close>

lemma pagefault_outside_areas:
  assumes "t_vm_areas t = Some l" and "areas_ok (vm_objs vm) l" and "\<And>a. a \<in> set l \<Longrightarrow> \<not> in_area (vm_objs vm a) addr"
  shows "pagefault_handler ops resched kpgd addr (Some t) r (vm, k) =
    (if r_eip r \<ge> VIRT_BASE then None else map_option (\<lambda>out. (vm, out)) (do_user_pgf resched k addr))"
  using fault_walk_misses[OF assms(2,3)] assms(1)
  by (simp add: pagefault_handler_def vma_pagefault_handler_def map_option_case split: option.splits)

text \<open>A fault that the areas resolve leaves tasks and signals alone.\<close>

lemma pagefault_resolved:
  assumes "t_vm_areas t \<noteq> None" and "vma_pagefault_handler ops vm t kpgd (r_err_code r) addr = Some (vm', VM_FAULT_IGNORE)"
  shows "pagefault_handler ops resched kpgd addr (Some t) r (vm, k) = Some (vm', Continue k)"
  using assms by (simp add: pagefault_handler_def)

section \<open>The linear map\<close>

text \<open>Where the linker places the tables: aligned, inside the first four megabytes of the kernel, apart from each other.\<close>

definition table_list :: "kernel_tables \<Rightarrow> ptr list" where
  "table_list t = [kt_kernel t, kt_heap_1 t, kt_heap_2 t, kt_heap_3 t]"

definition tables_placed :: "kernel_tables \<Rightarrow> bool" where
  "tables_placed t \<longleftrightarrow>
     (\<forall>p \<in> set (kt_pgd t # table_list t). 4096 dvd unat p \<and> 0xC0000000 < unat p \<and> unat p + 4096 \<le> 0xC0400000) \<and>
     distinct (kt_pgd t # table_list t)"

lemma aligned_apart:
  fixes p q :: ptr
  assumes "4096 dvd unat p" "4096 dvd unat q" "p \<noteq> q" "unat p + 4096 \<le> 4294967296" "unat q + 4096 \<le> 4294967296"
  shows "obj_apart p 4096 q 4096"
proof -
  obtain a b where ab: "unat p = 4096 * a" "unat q = 4096 * b" using assms(1,2) by (auto elim!: dvdE)
  have "a \<noteq> b" using ab assms(3) by (auto simp: word_unat_eq_iff)
  then have "a + 1 \<le> b \<or> b + 1 \<le> a" by linarith
  then show ?thesis using assms(4,5) ab by (auto simp: obj_apart_def)
qed

lemma fill_table:
  assumes "unat t + 4096 \<le> 4294967296" and "n \<le> 1024"
  shows "k < n \<Longrightarrow> load32 (for_upto n (\<lambda>i m. store32 m (t + 4 * of_nat i) (f i)) m) (t + 4 * of_nat k) = f k"
    and "obj_apart t 4096 q 4096 \<Longrightarrow> k < 1024 \<Longrightarrow>
      load32 (for_upto n (\<lambda>i m. store32 m (t + 4 * of_nat i) (f i)) m) (q + 4 * of_nat k) = load32 m (q + 4 * of_nat k)"
  using assms(2)
proof (induction n)
  case (Suc n)
  {
    case 1
    show ?case
    proof (cases "k = n")
      case False
      then show ?thesis using 1 Suc.IH(1) assms(1) slot_other[of t t n k] by simp
    qed simp
  next
    case 2
    then show ?case using Suc.IH(2) slot_other[of t q n k] by (cases "t = q") (auto simp: obj_apart_def)
  }
qed simp_all

lemma unat_and_not_mask12: "unat (x AND NOT (mask 12) :: u32) = unat x div 4096 * 4096"
proof -
  have "x AND NOT (mask 12) = push_bit 12 (drop_bit 12 x)" by (rule bit_word_eqI) (auto simp: bit_simps)
  moreover have "unat (drop_bit 12 x) = unat x div 4096" by (rule unat_drop_bit_12)
  moreover have "unat x div 4096 < 1048576" using unat_u32_bound[of x] by (simp add: div_less_iff_less_mult)
  ultimately show ?thesis by (simp add: push_bit_eq_mult unat_word_ariths)
qed

lemma kernel_table_slots:
  "map_kernel_table t m = for_upto 1024 (\<lambda>i m. store32 m (t + 4 * of_nat i) (make_pte (of_nat i * 4096) 0 0)) m"
proof -
  have "pte_index (of_nat k * PAGE_SIZE) = of_nat k" if "k < 1024" for k
  proof -
    have "unat (of_nat k * PAGE_SIZE :: u32) = k * 4096" using that by (simp add: PAGE_SIZE_def unat_word_ariths of_nat_unat_u32)
    then have "unat (pte_index (of_nat k * PAGE_SIZE)) = k" using that by (simp add: unat_pte_index)
    then show ?thesis using that by (simp add: word_unat_eq_iff of_nat_unat_u32)
  qed
  then show ?thesis unfolding map_kernel_table_def for_upto_def Let_def by (intro fold_cong) (auto simp: PAGE_SIZE_def)
qed

lemma heap_table_slots:
  assumes "j < 3"
  shows "map_heap_table t j extra m =
    for_upto 1024 (\<lambda>i m. store32 m (t + 4 * of_nat i) (make_pte (extra i + of_nat (4194304 + j * 4194304 + i * 4096)) 1 0)) m"
proof -
  have off: "(PAGE_TABLE_SIZE * of_nat j + of_nat i) * PAGE_SIZE = of_nat (j * 4194304 + i * 4096)" for i
    by (simp add: PAGE_TABLE_SIZE_def PAGE_SIZE_def algebra_simps)
  have ix: "pte_index (HEAP_BASE + of_nat (j * 4194304 + i * 4096)) = of_nat i" if "i < 1024" for i
  proof -
    have "unat (HEAP_BASE + of_nat (j * 4194304 + i * 4096)) = 3225419776 + j * 4194304 + i * 4096"
      using that assms by (simp add: HEAP_BASE_val unat_word_ariths of_nat_unat_u32 del: of_nat_add of_nat_mult)
    moreover have "(3225419776 + j * 4194304 + i * 4096) div 4096 mod 1024 = i"
    proof -
      have e: "3225419776 + j * 4194304 + i * 4096 = 4096 * (1024 * (769 + j) + i)" by simp
      have d: "4096 * (1024 * (769 + j) + i) div 4096 = 1024 * (769 + j) + i" by (rule nonzero_mult_div_cancel_left) simp
      show ?thesis unfolding e d using that by (simp only: mod_mult_self4 mod_less)
    qed
    ultimately show ?thesis using that by (simp add: word_unat_eq_iff unat_pte_index of_nat_unat_u32)
  qed
  have fr: "extra i + ADDR_TO_PHYS HEAP_BASE + of_nat (j * 4194304 + i * 4096) = extra i + of_nat (4194304 + j * 4194304 + i * 4096)" for i
    by (simp add: ADDR_TO_PHYS_def HEAP_BASE_def add.assoc)
  show ?thesis unfolding map_heap_table_def for_upto_def Let_def off fr by (intro fold_cong) (auto simp only: ix set_upt atLeastLessThan_iff)
qed

text \<open>The four entries of the directory and the entries of the four tables; \<open>table_list t ! j\<close> is the table of the \<open>j\<close>th four megabytes.\<close>

lemma paging_tables_entries:
  assumes placed: "tables_placed t"
  shows "j < 4 \<Longrightarrow> load32 (paging_tables t m) (kt_pgd t + 4 * of_nat (768 + j)) = make_pde (ADDR_TO_PHYS (table_list t ! j)) 1 0"
    and "i < 1024 \<Longrightarrow> \<not> (768 \<le> i \<and> i < 772) \<Longrightarrow> load32 (paging_tables t m) (kt_pgd t + 4 * of_nat i) = load32 m (kt_pgd t + 4 * of_nat i)"
    and "j < 4 \<Longrightarrow> k < 1024 \<Longrightarrow> \<exists>e w. e < 4096 \<and>
      load32 (paging_tables t m) (table_list t ! j + 4 * of_nat k) = make_pte (of_nat (j * 4194304 + k * 4096 + e)) w 0"
proof -
  let ?P = "kt_pgd t" and ?K = "kt_kernel t" and ?A = "kt_heap_1 t" and ?B = "kt_heap_2 t" and ?C = "kt_heap_3 t"
  define sl :: "ptr \<Rightarrow> nat \<Rightarrow> ptr" where "sl p k = p + 4 * of_nat k" for p k
  define T where "T = {?P, ?K, ?A, ?B, ?C}"
  have idx: "?K + 4 * pte_index 0 = sl ?K 0" "?P + 4 * pde_index VIRT_BASE = sl ?P 768" "?P + 4 * pde_index (VIRT_BASE + 1 * 1024 * 4096) = sl ?P 769"
    "?P + 4 * pde_index (VIRT_BASE + 2 * 1024 * 4096) = sl ?P 770" "?P + 4 * pde_index (VIRT_BASE + 3 * 1024 * 4096) = sl ?P 771"
    by (simp_all add: sl_def pte_index_def pde_index_def VIRT_BASE_def PAGE_SIZE_def PAGE_TABLE_SIZE_def)
  note res = paging_tables_def[of t m, unfolded Let_def idx]
  have b: "unat p + 4096 \<le> 4294967296" if "p \<in> T" for p using placed that by (auto simp: tables_placed_def table_list_def T_def)
  have ap: "obj_apart p 4096 q 4096" if "p \<in> T" "q \<in> T" "p \<noteq> q" for p q
    using placed that b[OF that(1)] b[OF that(2)] by (intro aligned_apart) (auto simp: tables_placed_def table_list_def T_def)
  have n0: "?P \<noteq> ?K" "?P \<noteq> ?A" "?P \<noteq> ?B" "?P \<noteq> ?C" "?K \<noteq> ?A" "?K \<noteq> ?B" "?K \<noteq> ?C" "?A \<noteq> ?B" "?A \<noteq> ?C" "?B \<noteq> ?C"
    and inT: "?P \<in> T" "?K \<in> T" "?A \<in> T" "?B \<in> T" "?C \<in> T"
    using placed by (auto simp: tables_placed_def table_list_def T_def)
  note ne = n0 n0[symmetric]
  have st: "load32 (store32 m' (sl p k) v) (sl q l) = (if p = q \<and> k = l then v else load32 m' (sl q l))"
    if "p \<in> T" "q \<in> T" "k < 1024" "l < 1024" for m' p q k l v
    using slot_other[of p q k l m' v] ap[OF that(1,2)] b[OF that(1)] that(3-) by (auto simp: sl_def)
  have kt: "load32 (map_kernel_table p m') (sl q l) = (if p = q then make_pte (of_nat l * 4096) 0 0 else load32 m' (sl q l))"
    if "p \<in> T" "q \<in> T" "l < 1024" for m' p q l
    using fill_table[OF b[OF that(1)] order_refl] ap[OF that(1,2)] that(3) by (auto simp: kernel_table_slots sl_def)
  have ht: "load32 (map_heap_table p j f m') (sl q l) =
      (if p = q then make_pte (f l + of_nat (4194304 + j * 4194304 + l * 4096)) 1 0 else load32 m' (sl q l))"
    if "j < 3" "p \<in> T" "q \<in> T" "l < 1024" for m' p q l j f
    using fill_table[OF b[OF that(2)] order_refl] ap[OF that(2,3)] that by (auto simp: heap_table_slots sl_def simp del: of_nat_add of_nat_mult)
  have dir: "load32 (paging_tables t m) (sl ?P i) =
      (if i = 771 then make_pde (ADDR_TO_PHYS ?C) 1 0 else if i = 770 then make_pde (ADDR_TO_PHYS ?B) 1 0
       else if i = 769 then make_pde (ADDR_TO_PHYS ?A) 1 0 else if i = 768 then make_pde (ADDR_TO_PHYS ?K) 1 0 else load32 m (sl ?P i))"
    if "i < 1024" for i
    unfolding res using that ne by (simp add: st kt ht inT)
  show "j < 4 \<Longrightarrow> load32 (paging_tables t m) (?P + 4 * of_nat (768 + j)) = make_pde (ADDR_TO_PHYS (table_list t ! j)) 1 0"
  proof -
    assume "j < 4"
    then consider "j = 0" | "j = 1" | "j = 2" | "j = 3" by linarith
    then show ?thesis using dir[of "768 + j"] unfolding sl_def by cases (simp_all add: table_list_def)
  qed
  show "i < 1024 \<Longrightarrow> \<not> (768 \<le> i \<and> i < 772) \<Longrightarrow> load32 (paging_tables t m) (?P + 4 * of_nat i) = load32 m (?P + 4 * of_nat i)"
    using dir[of i] unfolding sl_def by auto
  show "\<exists>e w. e < 4096 \<and> load32 (paging_tables t m) (table_list t ! j + 4 * of_nat k) = make_pte (of_nat (j * 4194304 + k * 4096 + e)) w 0"
    if "j < 4" "k < 1024"
  proof -
    have "load32 (paging_tables t m) (sl ?K k) = make_pte (of_nat (0 * 4194304 + k * 4096 + 0)) 0 0"
      unfolding res using that(2) ne by (simp add: st kt ht inT)
    moreover have "load32 (paging_tables t m) (sl ?A k) = make_pte (of_nat (1 * 4194304 + k * 4096 + 0)) 1 0"
      unfolding res using that(2) ne by (simp add: st kt ht inT)
    moreover have "load32 (paging_tables t m) (sl ?B k) = make_pte (of_nat (2 * 4194304 + k * 4096 + k)) 1 0"
      unfolding res using that(2) ne by (simp add: st kt ht inT algebra_simps)
    moreover have "load32 (paging_tables t m) (sl ?C k) = make_pte (of_nat (3 * 4194304 + k * 4096 + k)) 1 0"
      unfolding res using that(2) ne by (simp add: st kt ht inT algebra_simps)
    moreover have "j = 0 \<or> j = 1 \<or> j = 2 \<or> j = 3" "k < 4096" "(0 :: nat) < 4096" using that by auto
    moreover have nth: "table_list t ! 0 = ?K" "table_list t ! 1 = ?A" "table_list t ! 2 = ?B" "table_list t ! 3 = ?C"
      by (simp_all add: table_list_def numeral_eq_Suc)
    ultimately show ?thesis unfolding sl_def by (elim disjE) (simp_all only: nth, blast+)
  qed
qed

lemma frame_of_address:
  assumes i: "unat (pde_index v) = 768 + j" and e: "e < 4096" and v: "unat v < 0xC1000000"
  shows "(of_nat (j * 4194304 + unat (pte_index v) * 4096 + e) AND NOT (mask 12)) + PG_OFFSET v = ADDR_TO_PHYS v"
proof -
  define q where "q = unat v div 4096"
  have "unat v = q * 4096 + unat v mod 4096" by (simp add: q_def)
  moreover have "q = q div 1024 * 1024 + q mod 1024" by simp
  moreover have "q div 1024 = 768 + j" using i by (simp add: q_def unat_pde_index flip: div_mult2_eq)
  moreover have "q mod 1024 = unat (pte_index v)" by (simp add: q_def unat_pte_index)
  ultimately have u: "unat v = 0xC0000000 + (j * 4194304 + unat (pte_index v) * 4096 + unat v mod 4096)" by simp
  let ?X = "j * 4194304 + unat (pte_index v) * 4096"
  have X: "?X + unat v mod 4096 < 0x1000000" using u v by linarith
  have "unat (of_nat (?X + e) :: u32) = ?X + e" using X e by (intro of_nat_unat_u32) simp
  moreover have "(?X + e) div 4096 * 4096 = ?X"
  proof -
    have x: "?X = 4096 * (j * 1024 + unat (pte_index v))" by simp
    show ?thesis unfolding x using e by (simp only: div_mult_self4 zero_neq_numeral not_False_eq_True div_less) simp
  qed
  ultimately have "unat (of_nat (?X + e) AND NOT (mask 12) :: u32) = ?X" by (simp only: unat_and_not_mask12)
  moreover have "unat (PG_OFFSET v) = unat v mod 4096" by (simp add: PG_OFFSET_def PAGE_SIZE_def unat_mod)
  ultimately have "unat ((of_nat (?X + e) AND NOT (mask 12)) + PG_OFFSET v) = ?X + unat v mod 4096" using X by (simp only: unat_word_ariths) simp
  moreover have "unat (ADDR_TO_PHYS v) = unat v - 0xC0000000"
    unfolding ADDR_TO_PHYS_def VIRT_BASE_def using u by (subst unat_sub) (simp_all add: word_le_nat_alt)
  ultimately have "unat ((of_nat (?X + e) AND NOT (mask 12)) + PG_OFFSET v) = unat (ADDR_TO_PHYS v)" using u by linarith
  then show ?thesis by (rule unsigned_word_eqI)
qed

text \<open>
  C33: the linear map of the kernel. After \<open>paging_init\<close>, with the tables where the linker places them and a directory that was empty, paging
  is enabled on the kernel's directory, every address of the first sixteen megabytes of the kernel's space is translated to the address
  less \<open>VIRT_BASE\<close>, as \<open>ADDR_TO_PHYS\<close> computes it, and no other address has a translation. This includes the heap, whose second
  and third table are filled with addresses that are off by up to a page.
\<close>

theorem kernel_linear_map:
  assumes placed: "tables_placed t" and empty: "\<And>i. i < 1024 \<Longrightarrow> load32 m (kt_pgd t + 4 * of_nat i) = 0"
    and run: "paging_init handler t (m, u, it) = (m', u', it')"
  shows "mmu_paging_enabled u' \<and> get_current_pgd u' = kt_pgd t \<and>
    get_phys_addr m' True (kt_pgd t) v = (if 0xC0000000 \<le> unat v \<and> unat v < 0xC1000000 then ADDR_TO_PHYS v else INVALID_ADDR)"
proof -
  have m': "m' = paging_tables t m" and u': "mmu_paging_enabled u'" "get_current_pgd u' = kt_pgd t"
    using run by (auto simp: paging_init_def Let_def enable_paging_def activate_pgd_def get_current_pgd_def)
  note ent = paging_tables_entries[OF placed, where m = m, folded m']
  let ?i = "unat (pde_index v)" and ?k = "unat (pte_index v)"
  have i: "?i < 1024" using unat_u32_bound[of v] by (simp add: unat_pde_index div_less_iff_less_mult)
  have k: "?k < 1024" by (rule pte_index_bound)
  have "get_phys_addr m' True (kt_pgd t) v = (if 0xC0000000 \<le> unat v \<and> unat v < 0xC1000000 then ADDR_TO_PHYS v else INVALID_ADDR)"
  proof (cases "0xC0000000 \<le> unat v \<and> unat v < 0xC1000000")
    case False
    then have "\<not> (768 \<le> ?i \<and> ?i < 772)" by (auto simp: unat_pde_index)
    then have "table_frame m' (kt_pgd t) ?i = 0" using ent(2)[OF i] empty[OF i] by (simp add: table_frame_def PDE_EXTRACT_ADDR_def)
    then show ?thesis unfolding if_not_P[OF False] by (simp add: get_phys_addr_def get_page_eq)
  next
    case True
    define j where "j = ?i - 768"
    have j: "j < 4" "?i = 768 + j" using True unfolding j_def unat_pde_index by auto
    define T where "T = table_list t ! j"
    have "T \<in> set (kt_pgd t # table_list t)" unfolding T_def using j(1) nth_mem[of j "table_list t"] by (simp add: table_list_def)
    then have T: "4096 dvd unat T" "0xC0000000 < unat T" "unat T + 4096 \<le> 0xC0400000" using placed by (auto simp: tables_placed_def)
    have uT: "unat (ADDR_TO_PHYS T) = unat T - 0xC0000000"
      unfolding ADDR_TO_PHYS_def VIRT_BASE_def using T(2) by (subst unat_sub) (simp_all add: word_le_nat_alt)
    have "4096 dvd unat (ADDR_TO_PHYS T)" unfolding uT using T(1) by (intro dvd_diff_nat) simp_all
    then have tf: "table_frame m' (kt_pgd t) ?i = ADDR_TO_PHYS T"
      unfolding table_frame_def j(2) ent(1)[OF j(1)] T_def[symmetric] by (rule extract_make_pte_aligned(2))
    have nz: "ADDR_TO_PHYS T \<noteq> 0" "T \<noteq> 0" using uT T(2) by auto
    obtain e w where e: "e < 4096" "load32 m' (T + 4 * of_nat ?k) = make_pte (of_nat (j * 4194304 + ?k * 4096 + e)) w 0"
      using ent(3)[OF j(1) k] unfolding T_def by blast
    have "get_page m' (kt_pgd t) v = T + 4 * of_nat ?k" unfolding get_page_eq tf using nz by (simp add: Let_def)
    moreover have "T + 4 * of_nat ?k \<noteq> 0"
    proof -
      have "unat (T + 4 * of_nat ?k) = unat T + 4 * ?k" using T(3) k by (intro slot_unat) simp_all
      then show ?thesis using T(2) by auto
    qed
    ultimately have "get_phys_addr m' True (kt_pgd t) v = PTE_EXTRACT_ADDR (make_pte (of_nat (j * 4194304 + ?k * 4096 + e)) w 0) + PG_OFFSET v"
      using e(2) by (simp add: get_phys_addr_def)
    also have "\<dots> = ADDR_TO_PHYS v"
      using frame_of_address[OF j(2) e(1)] True unfolding extract_make_pte by simp
    finally show ?thesis using True by simp
  qed
  with u' show ?thesis by simp
qed

definition sample_tables :: kernel_tables where
  "sample_tables = \<lparr>kt_pgd = 0xC0101000, kt_kernel = 0xC0102000, kt_heap_1 = 0xC0103000, kt_heap_2 = 0xC0104000, kt_heap_3 = 0xC0105000\<rparr>"

lemma sample_tables_placed: "tables_placed sample_tables"
  by (simp add: tables_placed_def table_list_def sample_tables_def dvd_eq_mod_eq_0)

definition sample_mmu :: mmu where
  "sample_mmu = \<lparr>cr0 = 1, cr3 = 0, cr4 = 0, mmu_paging_enabled = False, mmu_current_pgd = 0, hwinterrupts = True\<rparr>"

theorem kernel_linear_map_witness:
  "get_phys_addr (fst (paging_init (\<lambda>_ _. None) sample_tables (\<lambda>_. 0, sample_mmu, interrupts0 :: unit interrupts))) True 0xC0101000 0xC0912345 =
    0x00912345"
proof -
  obtain m' u' and it' :: "unit interrupts" where
    run: "paging_init (\<lambda>_ _. None) sample_tables (\<lambda>_. 0, sample_mmu, interrupts0) = (m', u', it')" by (metis prod_cases3)
  have "load32 (\<lambda>_. 0) (kt_pgd sample_tables + 4 * of_nat i) = 0" for i by (simp add: load32_def)
  from kernel_linear_map[OF sample_tables_placed this run, of "0xC0912345"] show ?thesis
    unfolding run by (simp add: sample_tables_def ADDR_TO_PHYS_def VIRT_BASE_def)
qed

end
