(* ===== verification/Multiboot.thy ===== *)
theory Multiboot
  imports Serial Initrd Vmm
begin

text \<open>
  What the boot loader passes to the kernel, \<^verbatim>\<open>kernel/multiboot.c\<close>: the command line, the modules, the map of memory and the frame buffer with
  its device. The structures of the loader are in memory, the fields of the main one in a record. \<open>None\<close> is a loop that does not end.
  The state of the boot holds the globals that the functions set.
\<close>

section \<open>Structures\<close>

record multiboot_information =
  mb_flags :: u32
  mb_cmdline :: ptr
  mb_mods_count :: u32
  mb_mods :: ptr
  mb_mmap_length :: u32
  mb_mmap :: ptr
  mb_framebuffer_addr :: u64
  mb_framebuffer_pitch :: u32
  mb_framebuffer_width :: u32
  mb_framebuffer_height :: u32
  mb_framebuffer_bpp :: u8
  mb_framebuffer_type :: u8

definition MULTIBOOT_FLAG_CMDLINE :: u32 where "MULTIBOOT_FLAG_CMDLINE = push_bit 2 1"
definition MULTIBOOT_FLAG_MODULES :: u32 where "MULTIBOOT_FLAG_MODULES = push_bit 3 1"
definition MULTIBOOT_FLAG_MMAP :: u32 where "MULTIBOOT_FLAG_MMAP = push_bit 6 1"
definition MULTIBOOT_FLAG_FB :: u32 where "MULTIBOOT_FLAG_FB = push_bit 12 1"
definition MULTIBOOT_MMAP_AREA_AVAILABLE :: u32 where "MULTIBOOT_MMAP_AREA_AVAILABLE = 1"
definition MULTIBOOT_FRAMEBUFFER_RGB :: u8 where "MULTIBOOT_FRAMEBUFFER_RGB = 1"

definition MULTIBOOT_HAS_FEATURE :: "multiboot_information \<Rightarrow> u32 \<Rightarrow> bool" where
  "MULTIBOOT_HAS_FEATURE info feature \<longleftrightarrow> mb_flags info AND feature \<noteq> 0"

record framebuffer_varinfo =
  fv_xres :: u16
  fv_yres :: u16

record framebuffer_stinfo =
  fs_width :: u16
  fs_height :: u16
  fs_pitch :: u16
  fs_bpp :: u8

record multiboot_fb_dev_impl =
  fb_static_info :: framebuffer_stinfo
  fb_variable_info :: framebuffer_varinfo
  fb_phys_addr :: u32

definition FRAMEBUFFER_IOCTL_NVARINFO :: u32 where "FRAMEBUFFER_IOCTL_NVARINFO = 1"
definition FRAMEBUFFER_IOCTL_NSTINFO :: u32 where "FRAMEBUFFER_IOCTL_NSTINFO = 2"
definition FRAMEBUFFER_IOCTL_NSETVARINFO :: u32 where "FRAMEBUFFER_IOCTL_NSETVARINFO = 3"

definition get16 :: "mem \<Rightarrow> ptr \<Rightarrow> u16" where
  "get16 m a = ucast (m a) OR push_bit 8 (ucast (m (a + 1)))"

definition set16 :: "mem \<Rightarrow> ptr \<Rightarrow> u16 \<Rightarrow> mem" where
  "set16 m a v = m(a := ucast v, a + 1 := ucast (drop_bit 8 v))"

section \<open>The map of memory\<close>

definition mmap_entry_length :: "mem \<Rightarrow> ptr \<Rightarrow> u64" where
  "mmap_entry_length m p = ucast (load32 m (p + 12)) OR push_bit 32 (ucast (load32 m (p + 16)))"

partial_function (option) mmap_sum :: "mem \<Rightarrow> ptr \<Rightarrow> ptr \<Rightarrow> u64 \<Rightarrow> u64 option" where
  "mmap_sum m stop p mem_length =
     (if p < stop then
        let mem_length = (if load32 m (p + 20) = MULTIBOOT_MMAP_AREA_AVAILABLE then mem_length + mmap_entry_length m p else mem_length)
        in mmap_sum m stop (p + load32 m p + 4) mem_length
      else Some mem_length)"

text \<open>The result is the new value of \<^verbatim>\<open>__total_memory\<close>, a \<open>size_t\<close>.\<close>

definition multiboot_load_mmap :: "mem \<Rightarrow> ptr \<Rightarrow> size_t \<Rightarrow> size_t option" where
  "multiboot_load_mmap m base len = map_option ucast (mmap_sum m (base + len) base 0)"

section \<open>The frame buffer\<close>

text \<open>The requests that succeed have no return statement.\<close>

definition multiboot_fb_ioctl :: "int \<Rightarrow> multiboot_fb_dev_impl \<times> mem \<Rightarrow> u32 \<Rightarrow> ptr \<Rightarrow> (multiboot_fb_dev_impl \<times> mem) \<times> int" where
  "multiboot_fb_ioctl garbage st req data =
     (let (impl, m) = st
      in if req = FRAMEBUFFER_IOCTL_NVARINFO
         then ((impl, set16 (set16 m data (fv_xres (fb_variable_info impl))) (data + 2) (fv_yres (fb_variable_info impl))), garbage)
         else if req = FRAMEBUFFER_IOCTL_NSTINFO
         then let s = fb_static_info impl;
                  m = set16 m data (fs_width s);
                  m = set16 m (data + 2) (fs_height s);
                  m = set16 m (data + 4) (fs_pitch s)
              in ((impl, m(data + 6 := fs_bpp s)), garbage)
         else if req = FRAMEBUFFER_IOCTL_NSETVARINFO
         then let xres = get16 m data; yres = get16 m (data + 2)
              in if xres > fs_width (fb_static_info impl) \<or> yres > fs_height (fb_static_info impl) then (st, EINVAL)
                 else ((impl\<lparr>fb_variable_info := \<lparr>fv_xres = xres, fv_yres = yres\<rparr>\<rparr>, m), garbage)
         else (st, ENOIOCTL))"

definition multiboot_fb_mmap :: "multiboot_fb_dev_impl \<Rightarrow> vm_area \<Rightarrow> vm_area \<times> int" where
  "multiboot_fb_mmap impl area =
     (let area = area\<lparr>vma_phys_addr := fb_phys_addr impl\<rparr>;
          limit = word_of_int (uint (fs_pitch (fb_static_info impl)) * uint (fs_height (fb_static_info impl))) :: size_t
      in (area\<lparr>vma_n_pages := word_of_int (ceil_div (sint limit) (sint PAGE_SIZE)), vma_limit := limit\<rparr>, 0))"

text \<open>The loop that takes the frames of the buffer; it is left when the address is equal to the size of the buffer.\<close>

partial_function (option) fb_reserve :: "u32 \<Rightarrow> u32 \<Rightarrow> pmm \<Rightarrow> pmm option" where
  "fb_reserve limit fa p = (if fa \<noteq> limit then fb_reserve limit (fa + PAGE_SIZE) (pmm_set p fa 1 0) else Some p)"

section \<open>Initialisation\<close>

text \<open>The globals: whether the console has colours and graphics is wanted, the boot allocator, the amount of memory, and what the serial console sets.\<close>

record ('k, 's) boot =
  console_no_color :: bool
  multiboot_graphics_enabled :: bool
  boot_imalloc_ptr :: ptr
  total_memory :: size_t
  boot_serial :: "'k interrupts \<times> serial_device option \<times> 's"

text \<open>\<open>lit\<close> gives the addresses of the string literals, \<open>h\<close> is the handler of the serial line.\<close>

definition cmdline_flag :: "mem \<Rightarrow> (string \<Rightarrow> ptr) \<Rightarrow> multiboot_information \<Rightarrow> string \<Rightarrow> bool option" where
  "cmdline_flag m lit info flag = do { p \<leftarrow> strstr m (mb_cmdline info) (lit flag); Some (p \<noteq> NULL) }"

definition cmdline_flags ::
    "'s bus \<Rightarrow> 'k intr_handler_t \<Rightarrow> (string \<Rightarrow> ptr) \<Rightarrow> mem \<Rightarrow> multiboot_information \<Rightarrow> ('k, 's) boot \<Rightarrow> ('k, 's) boot option" where
  "cmdline_flags b h lit m info st = do {
     serial \<leftarrow> cmdline_flag m lit info ''console=ttyS0'';
     let st = (if serial then st\<lparr>boot_serial := serial_console_init b h 0 (boot_serial st)\<rparr> else st);
     nocolor \<leftarrow> cmdline_flag m lit info ''console_no_color'';
     let st = (if nocolor then st\<lparr>console_no_color := True\<rparr> else st);
     graphics \<leftarrow> cmdline_flag m lit info ''graphics'';
     Some (if graphics then st\<lparr>multiboot_graphics_enabled := True\<rparr> else st) }"

definition multiboot_init_early ::
    "'s bus \<Rightarrow> 'k intr_handler_t \<Rightarrow> (string \<Rightarrow> ptr) \<Rightarrow> mem \<Rightarrow> multiboot_information \<Rightarrow> ('k, 's) boot \<Rightarrow> ('k, 's) boot option" where
  "multiboot_init_early b h lit m info st = do {
     st \<leftarrow> (if MULTIBOOT_HAS_FEATURE info MULTIBOOT_FLAG_CMDLINE then cmdline_flags b h lit m info st else Some st);
     let st = (if MULTIBOOT_HAS_FEATURE info MULTIBOOT_FLAG_MODULES \<and> mb_mods_count info > 0
               then st\<lparr>boot_imalloc_ptr := ADDR_TO_VIRT (load32 m (mb_mods info + 16 * (mb_mods_count info - 1) + 4))\<rparr> else st);
     if MULTIBOOT_HAS_FEATURE info MULTIBOOT_FLAG_MMAP \<and> mb_mmap_length info > 0
     then map_option (\<lambda>n. st\<lparr>total_memory := n\<rparr>) (multiboot_load_mmap m (mb_mmap info) (mb_mmap_length info))
     else Some st }"

definition multiboot_fb_impl :: "multiboot_information \<Rightarrow> multiboot_fb_dev_impl" where
  "multiboot_fb_impl info =
     \<lparr>fb_static_info = \<lparr>fs_width = ucast (mb_framebuffer_width info), fs_height = ucast (mb_framebuffer_height info),
                        fs_pitch = ucast (mb_framebuffer_pitch info), fs_bpp = mb_framebuffer_bpp info\<rparr>,
      fb_variable_info = \<lparr>fv_xres = ucast (mb_framebuffer_width info), fv_yres = ucast (mb_framebuffer_height info)\<rparr>,
      fb_phys_addr = ucast (mb_framebuffer_addr info)\<rparr>"

text \<open>
  The state on which the operations of the device work holds the implementation, memory and the areas by number. The device is the static
  structure \<^verbatim>\<open>multiboot_fb_dev\<close>.
\<close>

type_synonym fb_state = "multiboot_fb_dev_impl \<times> mem \<times> (nat \<Rightarrow> vm_area)"

definition multiboot_fb_dev :: "int \<Rightarrow> fb_state device" where
  "multiboot_fb_dev garbage = \<lparr>d_type = DEV_CHAR, d_class = DEV_C_VIDEO, d_idx = 0, d_block_size = 0, d_name = ''fb0'', d_read = None,
     d_seek = None, d_write = None,
     d_ioctl = Some (\<lambda>(impl, m, areas) req data. let ((impl, m), r) = multiboot_fb_ioctl garbage (impl, m) req data in Some ((impl, m, areas), r)),
     d_mmap = Some (\<lambda>(impl, m, areas) a. let (area, r) = multiboot_fb_mmap impl (areas a) in Some ((impl, m, areas(a := area)), r)),
     d_pos = 0\<rparr>"

text \<open>The result holds the initial ram disk and the implementation of the frame buffer, where there are such.\<close>

definition multiboot_init ::
    "int \<Rightarrow> mem \<Rightarrow> nat \<Rightarrow> multiboot_information \<Rightarrow> fb_state devreg \<times> 'w nodes \<times> pmm \<Rightarrow>
     (initrd option \<times> multiboot_fb_dev_impl option \<times> fb_state devreg \<times> 'w nodes \<times> pmm) option" where
  "multiboot_init garbage m obj info st = do {
     let (r, ns, p) = st;
     let rd = (if MULTIBOOT_HAS_FEATURE info MULTIBOOT_FLAG_MODULES \<and> mb_mods_count info \<ge> 1
               then Some (initrd_init m (load32 m (ADDR_TO_VIRT (mb_mods info)))) else None);
     if MULTIBOOT_HAS_FEATURE info MULTIBOOT_FLAG_FB \<and> mb_framebuffer_type info = MULTIBOOT_FRAMEBUFFER_RGB
     then do {
       let impl = multiboot_fb_impl info;
       let (r, ns) = register_device (r\<lparr>dobj := (dobj r)(obj := multiboot_fb_dev garbage)\<rparr>) ns obj;
       p \<leftarrow> fb_reserve (mb_framebuffer_pitch info * mb_framebuffer_height info) (ucast (mb_framebuffer_addr info)) p;
       Some (rd, Some impl, r, ns, p) }
     else Some (rd, None, r, ns, p) }"

section \<open>The amount of memory\<close>

text \<open>The map as the loader writes it: entries of twenty bytes behind their size field, with type and length.\<close>

fun mmap_entries :: "mem \<Rightarrow> ptr \<Rightarrow> (u32 \<times> u64) list \<Rightarrow> bool" where
  "mmap_entries m p [] \<longleftrightarrow> True"
| "mmap_entries m p ((ty, len) # es) \<longleftrightarrow>
     load32 m p = 20 \<and> load32 m (p + 20) = ty \<and> mmap_entry_length m p = len \<and> mmap_entries m (p + 24) es"

definition available :: "(u32 \<times> u64) list \<Rightarrow> u64" where
  "available es = sum_list (map snd (filter (\<lambda>e. fst e = MULTIBOOT_MMAP_AREA_AVAILABLE) es))"

lemma available_Cons: "available ((ty, len) # es) = (if ty = MULTIBOOT_MMAP_AREA_AVAILABLE then len else 0) + available es"
  by (simp add: available_def)

lemma mmap_sum_entries:
  assumes "mmap_entries m p es" and "unat p + 24 * length es < 4294967296"
  shows "mmap_sum m (p + 24 * of_nat (length es)) p acc = Some (acc + available es)"
  using assms
proof (induction es arbitrary: p acc)
  case Nil
  then show ?case by (subst mmap_sum.simps) (simp add: available_def)
next
  case (Cons e es)
  obtain ty len where e: "e = (ty, len)" by (cases e)
  have stop: "p + 24 * of_nat (length (e # es)) = (p + 24) + 24 * of_nat (length es)" by (simp add: algebra_simps)
  have "unat (p + 24 * of_nat (length (e # es))) = unat p + 24 * length (e # es)"
  proof -
    have o: "p + 24 * of_nat (length (e # es)) = p + of_nat (24 * length (e # es))" by simp
    have "unat (of_nat (24 * length (e # es)) :: u32) = 24 * length (e # es)" using Cons.prems(2) by (intro of_nat_unat_u32) simp
    then show ?thesis unfolding o unat_word_ariths using Cons.prems(2) by simp
  qed
  then have less: "p < p + 24 * of_nat (length (e # es))" by (simp add: word_less_nat_alt)
  have p24: "unat (p + 24) = unat p + 24" using Cons.prems(2) by (simp add: unat_word_ariths)
  have "mmap_sum m (p + 24 * of_nat (length (e # es))) p acc =
      mmap_sum m (p + 24 * of_nat (length (e # es))) (p + 24) (acc + (if ty = MULTIBOOT_MMAP_AREA_AVAILABLE then len else 0))"
    using Cons.prems(1) less by (subst mmap_sum.simps) (simp add: e Let_def add.assoc)
  also have "\<dots> = Some (acc + (if ty = MULTIBOOT_MMAP_AREA_AVAILABLE then len else 0) + available es)"
    unfolding stop using Cons.prems p24 by (intro Cons.IH) (simp_all add: e)
  finally show ?case by (simp add: e available_Cons add.assoc)
qed

text \<open>
  The loader's map of memory is read to its end, and the amount of memory is the sum of the lengths of the available areas, cut to 32 bits:
  four gigabytes of memory count as none.
\<close>

lemma multiboot_load_mmap_total:
  assumes "mmap_entries m p es" and "unat p + 24 * length es < 4294967296"
  shows "multiboot_load_mmap m p (24 * of_nat (length es)) = Some (ucast (available es))"
  using mmap_sum_entries[OF assms, of 0] by (simp add: multiboot_load_mmap_def)

lemma four_gigabytes_count_as_none: "ucast (available [(1, 0x100000000)]) = (0 :: size_t)"
  by (simp add: available_def MULTIBOOT_MMAP_AREA_AVAILABLE_def)

section \<open>Frames of the frame buffer\<close>

text \<open>
  The loop is left only at the address that is equal to the size of the buffer: it does not end when address and size differ by something
  else than whole pages, and the frames it takes are not those of the buffer.
\<close>

lemma fb_reserve_step: "fa \<noteq> limit \<Longrightarrow> fb_reserve limit fa p = fb_reserve limit (fa + PAGE_SIZE) (pmm_set p fa 1 0)"
  by (subst fb_reserve.simps) simp

lemma fb_reserve_pages:
  assumes "fb_reserve limit fa p = Some p'"
  shows "\<exists>n. limit = fa + of_nat n * PAGE_SIZE"
proof (rule fb_reserve.raw_induct[where P = "\<lambda>limit fa p p'. \<exists>n. limit = fa + of_nat n * PAGE_SIZE", OF _ assms])
  fix rec limit fa p and p' :: pmm
  assume ih: "\<And>limit fa p (p' :: pmm). rec limit fa p = Some p' \<Longrightarrow> \<exists>n. limit = fa + of_nat n * PAGE_SIZE"
    and run: "(if fa \<noteq> limit then rec limit (fa + PAGE_SIZE) (pmm_set p fa 1 0) else Some p) = Some p'"
  show "\<exists>n. limit = fa + of_nat n * PAGE_SIZE"
  proof (cases "fa = limit")
    case True
    then show ?thesis by (intro exI[of _ 0]) simp
  next
    case False
    with run have "rec limit (fa + PAGE_SIZE) (pmm_set p fa 1 0) = Some p'" by simp
    from ih[OF this] obtain n where "limit = fa + PAGE_SIZE + of_nat n * PAGE_SIZE" by blast
    then show ?thesis by (intro exI[of _ "Suc n"]) (simp add: algebra_simps)
  qed
qed

lemma fb_reserve_aligned:
  assumes "\<not> 4096 dvd unat (limit - fa)"
  shows "fb_reserve limit fa p = None"
proof (rule ccontr)
  assume "fb_reserve limit fa p \<noteq> None"
  then obtain n where "limit = fa + of_nat n * PAGE_SIZE" using fb_reserve_pages by blast
  then have "limit - fa = of_nat (n * 4096)" by (simp add: PAGE_SIZE_def)
  then have "unat (limit - fa) = n * 4096 mod 4294967296" by (simp only: unat_of_nat) simp
  moreover have "(4096 :: nat) dvd n * 4096 mod 4294967296" by (rule dvd_mod) simp_all
  ultimately show False using assms by simp
qed

text \<open>A buffer of 800 times 600 pixels of four bytes at a page boundary is such a case: the initialisation never ends.\<close>

lemma fb_800_600_hangs:
  assumes "MULTIBOOT_HAS_FEATURE info MULTIBOOT_FLAG_FB" and "mb_framebuffer_type info = MULTIBOOT_FRAMEBUFFER_RGB"
    and "mb_framebuffer_pitch info = 3200" and "mb_framebuffer_height info = 600" and "mb_framebuffer_addr info = 0xFD000000"
  shows "multiboot_init garbage m obj info st = None"
proof -
  have "unat (3200 * 600 - (0xFD000000 :: u32)) = 52251648" by simp
  then have "fb_reserve (3200 * 600) 0xFD000000 p = None" for p by (intro fb_reserve_aligned) simp
  then show ?thesis using assms by (simp add: multiboot_init_def case_prod_beta Let_def)
qed

section \<open>The device of the frame buffer\<close>

text \<open>The resolution that a program asks for never exceeds the size of the buffer, and reading it back gives what was set.\<close>

definition fb_ok :: "multiboot_fb_dev_impl \<Rightarrow> bool" where
  "fb_ok impl \<longleftrightarrow> fv_xres (fb_variable_info impl) \<le> fs_width (fb_static_info impl) \<and> fv_yres (fb_variable_info impl) \<le> fs_height (fb_static_info impl)"

lemma multiboot_fb_impl_ok: "fb_ok (multiboot_fb_impl info)"
  by (simp add: fb_ok_def multiboot_fb_impl_def)

lemma multiboot_fb_ioctl_ok: "fb_ok impl \<Longrightarrow> fb_ok (fst (fst (multiboot_fb_ioctl garbage (impl, m) req dat)))"
  by (auto simp: fb_ok_def multiboot_fb_ioctl_def Let_def)

lemma get16_set16: "get16 (set16 m a v) a = v"
  by (rule bit_word_eqI) (auto simp: get16_def set16_def bit_simps)

lemma get16_set16_other: "b \<noteq> a \<Longrightarrow> b \<noteq> a + 1 \<Longrightarrow> b + 1 \<noteq> a \<Longrightarrow> get16 (set16 m a v) b = get16 m b"
  by (auto simp: get16_def set16_def)

lemma fb_resolution_roundtrip:
  assumes "multiboot_fb_ioctl garbage (impl, m) FRAMEBUFFER_IOCTL_NSETVARINFO p = ((impl', m'), r)"
    and "get16 m p \<le> fs_width (fb_static_info impl)" and "get16 m (p + 2) \<le> fs_height (fb_static_info impl)"
    and "multiboot_fb_ioctl garbage (impl', m') FRAMEBUFFER_IOCTL_NVARINFO q = ((impl'', m''), r')"
  shows "get16 m'' q = get16 m p \<and> get16 m'' (q + 2) = get16 m (p + 2)"
proof -
  have n: "q + 2 \<noteq> q" "q + 2 \<noteq> q + 1" "q + 2 + 1 \<noteq> q" "q \<noteq> q + 2" "q \<noteq> q + 2 + 1" "q + 1 \<noteq> q + 2" by simp_all
  have "impl' = impl\<lparr>fb_variable_info := \<lparr>fv_xres = get16 m p, fv_yres = get16 m (p + 2)\<rparr>\<rparr>" "m' = m"
    using assms(1-3) by (auto simp: multiboot_fb_ioctl_def Let_def FRAMEBUFFER_IOCTL_NVARINFO_def FRAMEBUFFER_IOCTL_NSTINFO_def
        FRAMEBUFFER_IOCTL_NSETVARINFO_def not_less split: if_splits)
  then have "m'' = set16 (set16 m q (get16 m p)) (q + 2) (get16 m (p + 2))"
    using assms(4) by (simp add: multiboot_fb_ioctl_def Let_def)
  then show ?thesis using n by (simp add: get16_set16 get16_set16_other)
qed

end
