(* ===== verification/Diagnostics.thy ===== *)
theory Diagnostics
  imports Serial Ksymbols Task
begin

text \<open>
  What the kernel says about itself: \<^verbatim>\<open>io/logging.c\<close>, \<^verbatim>\<open>kernel/trace.c\<close> and the debug ports of \<^verbatim>\<open>kernel/emu.c\<close>.

  Formatted output goes to an arbitrary output function \<open>out\<close> over a context, as in \<^verbatim>\<open>Console\<close>. \<open>lit\<close> gives the addresses of string literals
  that are printed by address. The build does not define \<^verbatim>\<open>CONFIG_EMULATOR_QEMU\<close>, and \<^verbatim>\<open>KLOG_ENABLED\<close> is 0.
\<close>

section \<open>The debug ports\<close>

definition qemu_shutdown :: "'s bus \<Rightarrow> 's \<Rightarrow> 's" where
  "qemu_shutdown b h = outw b 0x604 0x2000 (outw b 0xB004 0x2000 h)"

definition qemu_debugc :: "'s bus \<Rightarrow> u8 \<Rightarrow> 's \<Rightarrow> 's" where
  "qemu_debugc b c h = outb b 0xE9 c h"

partial_function (option) qemu_debug :: "'s bus \<Rightarrow> mem \<Rightarrow> ptr \<Rightarrow> 's \<Rightarrow> 's option" where
  "qemu_debug b m s h = (if m s \<noteq> 0 then qemu_debug b m (s + 1) (qemu_debugc b (m s) h) else Some h)"

section \<open>Messages\<close>

text \<open>What the formatting leaves open: the two uninitialised variables of \<open>vformat\<close> and the byte in front of each format.\<close>

record fmt_env =
  fe_ui :: u32
  fe_si :: u32
  fe_pre :: "string \<Rightarrow> char"

definition printk :: "fmt_env \<Rightarrow> ('c \<Rightarrow> u8 list \<Rightarrow> 'c) \<Rightarrow> mem \<Rightarrow> string \<Rightarrow> u32 list \<Rightarrow> 'c \<Rightarrow> 'c option" where
  "printk g out m fmt ap ctx = vprintk out (\<lambda>_. m) (fe_ui g) (fe_si g) (fe_pre g fmt) ctx fmt ap"

text \<open>\<open>buffer\<close> is the address of the static array of 1024 bytes that each of the functions has.\<close>

definition debug :: "fmt_env \<Rightarrow> ('c \<Rightarrow> u8 list \<Rightarrow> 'c) \<Rightarrow> ptr \<Rightarrow> mem \<Rightarrow> 'c \<Rightarrow> string \<Rightarrow> u32 list \<Rightarrow> (mem \<times> 'c) option" where
  "debug g out buffer m ctx msg ap = do {
     (m, _) \<leftarrow> vsnprintf (fe_ui g) (fe_si g) (fe_pre g msg) m buffer 1024 msg ap;
     ctx \<leftarrow> printk g out m ''%s'' [buffer] ctx;
     Some (m, ctx) }"

definition klogv :: "fmt_env \<Rightarrow> ptr \<Rightarrow> mem \<Rightarrow> string \<Rightarrow> u32 list \<Rightarrow> mem option" where
  "klogv g buffer m msg ap = do { (m, _) \<leftarrow> vsprintf (fe_ui g) (fe_si g) (fe_pre g msg) m buffer msg ap; Some m }"

definition WGREEN_COLOR :: "8 word" where "WGREEN_COLOR = 10"
definition PINK_COLOR :: "8 word" where "PINK_COLOR = 12"
definition YELLOW_COLOR :: "8 word" where "YELLOW_COLOR = 14"
definition WBLUE_COLOR :: "8 word" where "WBLUE_COLOR = 9"

definition LOG_STATUS_SUCCESS :: int where "LOG_STATUS_SUCCESS = 0"
definition LOG_STATUS_ERROR :: int where "LOG_STATUS_ERROR = 1"
definition LOG_STATUS_WARNING :: int where "LOG_STATUS_WARNING = 2"

definition bootlog_status :: "int \<Rightarrow> (string \<times> 8 word) option" where
  "bootlog_status status =
     (if status = LOG_STATUS_SUCCESS then Some (''OK   '', WGREEN_COLOR)
      else if status = LOG_STATUS_ERROR then Some (''ERROR'', PINK_COLOR)
      else if status = LOG_STATUS_WARNING then Some (''WARN '', YELLOW_COLOR)
      else None)"

definition bootlog :: "'s bus \<Rightarrow> (string \<Rightarrow> ptr) \<Rightarrow> mem \<Rightarrow> ptr \<Rightarrow> int \<Rightarrow> 's console \<Rightarrow> 's console option" where
  "bootlog b lit m msg status con =
     (case bootlog_status status of
        None \<Rightarrow> Some con
      | Some (md, color) \<Rightarrow> do {
          con \<leftarrow> console_write b m (lit ''['') con;
          con \<leftarrow> console_write_color b m (lit md) (- 1) color con;
          con \<leftarrow> console_write b m (lit ''] '') con;
          con \<leftarrow> console_write_color b m msg (- 1) WBLUE_COLOR con;
          console_write b m (lit [CHR 0x0A]) con })"

definition dump_registers :: "fmt_env \<Rightarrow> ('c \<Rightarrow> u8 list \<Rightarrow> 'c) \<Rightarrow> mem \<Rightarrow> registers \<Rightarrow> 'c \<Rightarrow> 'c option" where
  "dump_registers g out m r ctx = do {
     ctx \<leftarrow> printk g out m (''EIP=0x%x CS=0x%x EFLAGS=0x%x USERESP=0x%x STACK=0x%x'' @ [CHR 0x0A])
       [r_eip r, r_cs r, r_eflags r, r_useresp r, r_ss r] ctx;
     ctx \<leftarrow> printk g out m (''FS=0x%x GS=0x%x ES=0x%x DS=0x%x'' @ [CHR 0x0A]) [r_fs r, r_gs r, r_es r, r_ds r] ctx;
     printk g out m (''EDI=0x%x ESI=0x%x EBP=0x%x ESP=0x%x EBX=0x%x EDX=0x%x ECX=0x%x EAX=0x%x'' @ [CHR 0x0A])
       [r_edi r, r_esi r, r_ebp r, r_esp r, r_ebx r, r_edx r, r_ecx r, r_eax r] ctx }"

section \<open>Call traces\<close>

text \<open>A stack frame holds the address of the frame of the caller and the return address.\<close>

fun trace_skip :: "mem \<Rightarrow> nat \<Rightarrow> ptr \<Rightarrow> ptr" where
  "trace_skip m 0 ebp = ebp"
| "trace_skip m (Suc n) ebp = (if ebp \<noteq> NULL then trace_skip m n (load32 m ebp) else ebp)"

text \<open>\<open>name_at\<close> gives the address of the name of a symbol.\<close>

definition trace_line ::
    "fmt_env \<Rightarrow> ('c \<Rightarrow> u8 list \<Rightarrow> 'c) \<Rightarrow> mem \<Rightarrow> kernel_symbol list \<Rightarrow> (kernel_symbol \<Rightarrow> ptr) \<Rightarrow> u32 \<Rightarrow> 'c \<Rightarrow> 'c option" where
  "trace_line g out m syms name_at eip ctx = do {
     ctx \<leftarrow> printk g out m [CHR 0x09] [] ctx;
     ctx \<leftarrow> printk g out m ''<%p> '' [eip] ctx;
     case (if eip \<ge> VIRT_BASE then ksymbols_lookup syms eip False else None) of
       Some s \<Rightarrow>
         if ks_type s = 0x54 \<or> ks_type s = 0x74
         then printk g out m (''%s+0x%x'' @ [CHR 0x0A]) [name_at s, eip - ks_address s] ctx
         else printk g out m (''??'' @ [CHR 0x0A]) [] ctx
     | None \<Rightarrow> printk g out m (''??'' @ [CHR 0x0A]) [] ctx }"

fun trace_loop ::
    "fmt_env \<Rightarrow> ('c \<Rightarrow> u8 list \<Rightarrow> 'c) \<Rightarrow> mem \<Rightarrow> kernel_symbol list \<Rightarrow> (kernel_symbol \<Rightarrow> ptr) \<Rightarrow> nat \<Rightarrow> ptr \<Rightarrow> 'c \<Rightarrow> 'c option" where
  "trace_loop g out m syms name_at 0 ebp ctx = Some ctx"
| "trace_loop g out m syms name_at (Suc n) ebp ctx =
     (if ebp \<noteq> NULL
      then do { ctx \<leftarrow> trace_line g out m syms name_at (load32 m (ebp + 4)) ctx; trace_loop g out m syms name_at n (load32 m ebp) ctx }
      else Some ctx)"

text \<open>The current task, if there is one: the path and the number of a thread of a process, or the name of a kernel task.\<close>

datatype traced_task = Thread ptr int | Kernel_Thread ptr

definition trace_task :: "fmt_env \<Rightarrow> ('c \<Rightarrow> u8 list \<Rightarrow> 'c) \<Rightarrow> mem \<Rightarrow> traced_task option \<Rightarrow> 'c \<Rightarrow> 'c option" where
  "trace_task g out m t ctx = do {
     ctx \<leftarrow> (case t of
        None \<Rightarrow> Some ctx
      | Some (Thread filepath thid) \<Rightarrow> printk g out m ''thread: %s [%d]'' [filepath, word_of_int thid] ctx
      | Some (Kernel_Thread name) \<Rightarrow> printk g out m ''kernel thread: %s'' [name] ctx);
     printk g out m [CHR 0x0A] [] ctx }"

definition trace ::
    "fmt_env \<Rightarrow> ('c \<Rightarrow> u8 list \<Rightarrow> 'c) \<Rightarrow> mem \<Rightarrow> kernel_symbol list \<Rightarrow> (kernel_symbol \<Rightarrow> ptr) \<Rightarrow> traced_task option \<Rightarrow> ptr \<Rightarrow>
     u32 \<Rightarrow> u32 \<Rightarrow> 'c \<Rightarrow> 'c option" where
  "trace g out m syms name_at t ebp skip mx ctx = do {
     let ebp = trace_skip m (unat skip) ebp;
     ctx \<leftarrow> printk g out m (''Call trace:'' @ [CHR 0x0A]) [] ctx;
     ctx \<leftarrow> trace_loop g out m syms name_at (unat mx) ebp ctx;
     trace_task g out m t ctx }"

text \<open>
  \<open>panic\<close> does not return: the value is the output and memory with which the processor stays halted, with hardware interrupts disabled.
  \<open>loc\<close> and \<open>fname\<close> are the addresses of the names of the function and the file.
\<close>

definition panic ::
    "fmt_env \<Rightarrow> ('c \<Rightarrow> u8 list \<Rightarrow> 'c) \<Rightarrow> kernel_symbol list \<Rightarrow> (kernel_symbol \<Rightarrow> ptr) \<Rightarrow> traced_task option \<Rightarrow> ptr \<Rightarrow> bool \<Rightarrow> ptr \<Rightarrow>
     ptr \<Rightarrow> int \<Rightarrow> ptr \<Rightarrow> string \<Rightarrow> u32 list \<Rightarrow> mem \<Rightarrow> 'c \<Rightarrow> (mem \<times> 'c) option" where
  "panic g out syms name_at t ebp no_color buffer fname line loc fmt ap m ctx = do {
     (m, _) \<leftarrow> vsprintf (fe_ui g) (fe_si g) (fe_pre g fmt) m buffer fmt ap;
     ctx \<leftarrow> (if \<not> no_color then printk g out m (CHR 0x1B # ''[31;1m'') [] ctx else Some ctx);
     ctx \<leftarrow> printk g out m (''%s (%s:%d): kernel panic: %s'' @ [CHR 0x0A]) [loc, fname, word_of_int line, buffer] ctx;
     ctx \<leftarrow> (if \<not> no_color then printk g out m (CHR 0x1B # ''[0m'') [] ctx else Some ctx);
     ctx \<leftarrow> trace g out m syms name_at t ebp 1 20 ctx;
     Some (m, ctx) }"

section \<open>What is printed\<close>

text \<open>A terminated string goes byte by byte to the debug port.\<close>

lemma qemu_debug_string: "cstr m p s \<Longrightarrow> qemu_debug b m p h = Some (fold (outb b 0xE9) s h)"
proof (induction s arbitrary: p h)
  case Nil
  then show ?case by (subst qemu_debug.simps) simp
next
  case (Cons c s)
  then have "m p \<noteq> 0" "m p = c" "cstr m (p + 1) s" by auto
  then show ?case using Cons.IH by (subst qemu_debug.simps) (simp add: qemu_debugc_def)
qed

text \<open>The frames of a chain of calls, from the innermost on.\<close>

fun frames :: "mem \<Rightarrow> ptr \<Rightarrow> u32 list \<Rightarrow> bool" where
  "frames m ebp [] \<longleftrightarrow> ebp = NULL"
| "frames m ebp (eip # eips) \<longleftrightarrow> ebp \<noteq> NULL \<and> load32 m (ebp + 4) = eip \<and> frames m (load32 m ebp) eips"

primrec print_lines :: "('a \<Rightarrow> 'c \<Rightarrow> 'c option) \<Rightarrow> 'a list \<Rightarrow> 'c \<Rightarrow> 'c option" where
  "print_lines line [] ctx = Some ctx"
| "print_lines line (x # xs) ctx = do { ctx \<leftarrow> line x ctx; print_lines line xs ctx }"

lemma trace_skip_frames: "frames m ebp eips \<Longrightarrow> frames m (trace_skip m n ebp) (drop n eips)"
proof (induction n arbitrary: ebp eips)
  case (Suc n)
  then show ?case by (cases eips) auto
qed simp

lemma trace_loop_frames:
  "frames m ebp eips \<Longrightarrow> trace_loop g out m syms name_at n ebp ctx = print_lines (trace_line g out m syms name_at) (take n eips) ctx"
proof (induction n arbitrary: ebp eips ctx)
  case (Suc n)
  then show ?case by (cases eips) (auto intro!: Option.bind_cong)
qed simp

text \<open>
  A call trace prints one line for each of the callers, from the innermost on, without the first \<open>skip\<close> and at most \<open>mx\<close> of them.
\<close>

lemma trace_prints_callers:
  assumes "frames m ebp eips"
  shows "trace g out m syms name_at t ebp skip mx ctx = do {
    ctx \<leftarrow> printk g out m (''Call trace:'' @ [CHR 0x0A]) [] ctx;
    ctx \<leftarrow> print_lines (trace_line g out m syms name_at) (take (unat mx) (drop (unat skip) eips)) ctx;
    trace_task g out m t ctx }"
  by (simp add: trace_def trace_loop_frames[OF trace_skip_frames[OF assms]])

text \<open>\<open>klogv\<close> does not know the size of its buffer: a message of 1024 characters and more is stored behind its end, although nothing is printed.\<close>

lemma klogv_overruns:
  assumes "plain_text msg" and "1024 \<le> length msg" and "length msg < 4294967295"
  shows "\<exists>m'. klogv g buffer m msg ap = Some m' \<and> m' (buffer + of_nat (length msg)) = 0"
proof -
  have l: "unat (of_nat (length msg) :: u32) = length msg" using assms(3) by (intro of_nat_unat_u32) simp
  have "\<not> (- 1 :: u32) < of_nat (length msg)" "msg \<noteq> []" using assms(2,3) l by (auto simp: not_less)
  moreover have "\<not> (- 1 :: u32) \<le> 1" by code_simp
  ultimately show ?thesis
    using vformat_loop_plain_end[OF assms(1), of output_str so_mem "fe_pre g msg" "[]" "\<lparr>so_mem = m, so_str = buffer, so_limit = - 1\<rparr>" ap "fe_ui g" "fe_si g"]
    by (simp add: klogv_def vsprintf_def vformat_def output_str_def Let_def)
qed

text \<open>\<open>bootlog\<close> prints nothing for a status it does not know.\<close>

lemma bootlog_unknown: "status < 0 \<or> 2 < status \<Longrightarrow> bootlog b lit m msg status con = Some con"
  by (auto simp: bootlog_def bootlog_status_def LOG_STATUS_SUCCESS_def LOG_STATUS_ERROR_def LOG_STATUS_WARNING_def)

end
