(* ===== verification/Shell.thy ===== *)
theory Shell
  imports Diagnostics Vfs
begin

text \<open>
  The kernel's command shell, \<^verbatim>\<open>kernel/shell.c\<close>, and the printing helpers of \<^verbatim>\<open>kernel/kmain.c\<close>. The arrays of the shell are in memory at the
  addresses that the linker chooses; an index that leaves an array addresses what lies behind it. \<open>None\<close> is a loop that does not end.
\<close>

section \<open>State\<close>

record shell_vars =
  shell_buffer :: ptr
  shell_playback_buffer :: ptr
  shell_user :: ptr
  shell_hostname :: ptr
  command_argv :: ptr

record 's shell =
  sh_mem :: mem
  sh_con :: "'s console"
  shell_buffer_idx :: int
  shell_playback_buffer_idx :: int
  shell_executing :: bool
  command_argc :: int

definition BLACK_COLOR :: "8 word" where "BLACK_COLOR = 0"
definition GREEN_COLOR :: "8 word" where "GREEN_COLOR = 2"
definition RED_COLOR :: "8 word" where "RED_COLOR = 4"
definition BROWN_COLOR :: "8 word" where "BROWN_COLOR = 6"

text \<open>Output of the shell: a function on the console, lifted to the state.\<close>

definition on_console :: "('s console \<Rightarrow> 's console option) \<Rightarrow> 's shell \<Rightarrow> 's shell option" where
  "on_console f sh = map_option (\<lambda>con. sh\<lparr>sh_con := con\<rparr>) (f (sh_con sh))"

definition sh_write_color :: "'s bus \<Rightarrow> ptr \<Rightarrow> 8 word \<Rightarrow> 8 word \<Rightarrow> 's shell \<Rightarrow> 's shell option" where
  "sh_write_color b p bg fg sh = on_console (console_write_color b (sh_mem sh) p bg fg) sh"

definition sh_printk :: "'s bus \<Rightarrow> fmt_env \<Rightarrow> string \<Rightarrow> u32 list \<Rightarrow> 's shell \<Rightarrow> 's shell option" where
  "sh_printk b g fmt ap sh = do {
     r \<leftarrow> printk g (console_out b) (sh_mem sh) fmt ap (Some (sh_con sh));
     con \<leftarrow> r;
     Some (sh\<lparr>sh_con := con\<rparr>) }"

section \<open>Commands\<close>

definition command_prompt :: "'s bus \<Rightarrow> shell_vars \<Rightarrow> 's shell \<Rightarrow> 's shell option" where
  "command_prompt b sv sh = do {
     sh \<leftarrow> sh_write_color b (shell_user sv) (- 1) PINK_COLOR sh;
     sh \<leftarrow> on_console (console_putchar_color b 0x40 (- 1) GREEN_COLOR) sh;
     sh \<leftarrow> sh_write_color b (shell_hostname sv) (- 1) BROWN_COLOR sh;
     sh \<leftarrow> on_console (console_putchar_color b 0x23 (- 1) GREEN_COLOR) sh;
     on_console (console_putchar b 0x20) sh }"

definition argv :: "shell_vars \<Rightarrow> u32 \<Rightarrow> ptr" where
  "argv sv i = command_argv sv + 256 * i"

definition command_is :: "shell_vars \<Rightarrow> (string \<Rightarrow> ptr) \<Rightarrow> string \<Rightarrow> u32 \<Rightarrow> 's shell \<Rightarrow> bool option" where
  "command_is sv lit name i sh = do { r \<leftarrow> strcmp (sh_mem sh) (argv sv i) (lit name); Some (r = 0) }"

definition command_uname :: "'s bus \<Rightarrow> shell_vars \<Rightarrow> (string \<Rightarrow> ptr) \<Rightarrow> 's shell \<Rightarrow> 's shell option" where
  "command_uname b sv lit sh = do {
     all \<leftarrow> (if command_argc sh > 1 then command_is sv lit ''-a'' 1 sh else Some False);
     sh \<leftarrow> sh_write_color b (lit (if all then ''DEPTHOS_ARCTIC depthos 0.0.1 2019 i686 DepthOS'' else ''DepthOS'')) BLACK_COLOR GREEN_COLOR sh;
     on_console (console_putchar b 0x0A) sh }"

text \<open>\<open>setuser\<close> and \<open>hostname\<close>: the argument is copied to an array of 64 bytes.\<close>

definition command_set :: "'s bus \<Rightarrow> shell_vars \<Rightarrow> (string \<Rightarrow> ptr) \<Rightarrow> string \<Rightarrow> ptr \<Rightarrow> 's shell \<Rightarrow> 's shell option" where
  "command_set b sv lit msg dst sh =
     (if command_argc sh < 2 then sh_write_color b (lit msg) BLACK_COLOR RED_COLOR sh
      else map_option (\<lambda>m. sh\<lparr>sh_mem := m\<rparr>) (strcpy (sh_mem sh) dst (argv sv 1)))"

definition command_shutdown :: "'s bus \<Rightarrow> 's shell \<Rightarrow> 's shell option" where
  "command_shutdown b sh =
     on_console (\<lambda>con. Some (con\<lparr>con_hw := outw b 0x4004 0x3400 (outw b 0x604 0x2000 (outw b 0xB004 0x2000 (con_hw con)))\<rparr>)) sh"

definition command_time :: "'s bus \<Rightarrow> fmt_env \<Rightarrow> u32 \<Rightarrow> 's shell \<Rightarrow> 's shell option" where
  "command_time b g ticks sh =
     sh_printk b g (''%dh %dm %ds %dms have passed since OS started'' @ [CHR 0x0A])
       [ticks div 1000 div 60 div 60, ticks div 1000 div 60, ticks div 1000, ticks mod 1000] sh"

text \<open>
  \<open>opn\<close> and \<open>rd\<close> are opening of and reading from a file: the data goes to the block at \<open>buf\<close>, which \<open>kmalloc\<close> returned. A negative result
  is used as an index like any other.
\<close>

definition command_cat ::
    "'s bus \<Rightarrow> fmt_env \<Rightarrow> shell_vars \<Rightarrow> (string \<Rightarrow> ptr) \<Rightarrow> (u8 list \<Rightarrow> 'f option) \<Rightarrow> ('f \<Rightarrow> size_t \<Rightarrow> (u8 list \<times> int) option) \<Rightarrow> ptr \<Rightarrow>
     's shell \<Rightarrow> 's shell option" where
  "command_cat b g sv lit opn rd buf sh =
     (if command_argc sh < 2 then sh_write_color b (lit ''No file specified'') BLACK_COLOR RED_COLOR sh
      else do {
        n \<leftarrow> strlen (sh_mem sh) (argv sv 1);
        case opn (bytes_at (sh_mem sh) (argv sv 1) (unat n)) of
          None \<Rightarrow> sh_write_color b (lit (''No such file or directory'' @ [CHR 0x0A])) BLACK_COLOR RED_COLOR sh
        | Some f \<Rightarrow> do {
            (d, r) \<leftarrow> rd f 1024;
            let m = put_bytes (sh_mem sh) buf d;
            sh_printk b g ''%s'' [buf] (sh\<lparr>sh_mem := m(buf + word_of_int r := 0)\<rparr>) } })"

definition help_lines :: "(string \<times> string) list" where
  "help_lines =
     [(''uname'', ''Output OS version and hostname''), (''setuser'', ''Change username''), (''hostname'', ''Change hostname''),
      (''clear'', ''Clear console''), (''time'', ''Output elapsed time from the boot''), (''shutdown'', ''Shutdown the OS'')]"

definition command_help :: "'s bus \<Rightarrow> fmt_env \<Rightarrow> (string \<Rightarrow> ptr) \<Rightarrow> 's shell \<Rightarrow> 's shell option" where
  "command_help b g lit sh = print_lines (\<lambda>(c, desc). sh_printk b g (''%-10s - %s'' @ [CHR 0x0A]) [lit c, lit desc]) help_lines sh"

text \<open>The commands in the order in which their names are compared.\<close>

primrec try_commands :: "shell_vars \<Rightarrow> (string \<Rightarrow> ptr) \<Rightarrow> (string \<times> ('s shell \<Rightarrow> 's shell option)) list \<Rightarrow> 's shell \<Rightarrow> 's shell option" where
  "try_commands sv lit [] sh = Some sh"
| "try_commands sv lit (c # cs) sh = do {
     y \<leftarrow> command_is sv lit (fst c) 0 sh;
     if y then snd c sh else try_commands sv lit cs sh }"

definition commands ::
    "'s bus \<Rightarrow> fmt_env \<Rightarrow> shell_vars \<Rightarrow> (string \<Rightarrow> ptr) \<Rightarrow> (u8 list \<Rightarrow> 'f option) \<Rightarrow> ('f \<Rightarrow> size_t \<Rightarrow> (u8 list \<times> int) option) \<Rightarrow> ptr \<Rightarrow> u32 \<Rightarrow>
     (string \<times> ('s shell \<Rightarrow> 's shell option)) list" where
  "commands b g sv lit opn rd buf ticks =
     [(''uname'', command_uname b sv lit),
      (''setuser'', command_set b sv lit ''No user specified'' (shell_user sv)),
      (''shutdown'', command_shutdown b), (''exit'', command_shutdown b),
      (''clear'', on_console (\<lambda>con. Some (console_clear b con))),
      (''hostname'', command_set b sv lit ''No hostname specified'' (shell_hostname sv)),
      (''time'', command_time b g ticks),
      (''cat'', command_cat b g sv lit opn rd buf),
      (''help'', command_help b g lit)]"

definition execute_command ::
    "'s bus \<Rightarrow> fmt_env \<Rightarrow> shell_vars \<Rightarrow> (string \<Rightarrow> ptr) \<Rightarrow> (u8 list \<Rightarrow> 'f option) \<Rightarrow> ('f \<Rightarrow> size_t \<Rightarrow> (u8 list \<times> int) option) \<Rightarrow> ptr \<Rightarrow> u32 \<Rightarrow>
     's shell \<Rightarrow> 's shell option" where
  "execute_command b g sv lit opn rd buf ticks sh = do {
     let sh = sh\<lparr>shell_executing := True\<rparr>;
     (m, argc) \<leftarrow> strsplt (sh_mem sh) (shell_buffer sv) (command_argv sv) 256 0 0x20;
     let sh = sh\<lparr>sh_mem := m, command_argc := sint argc\<rparr>;
     if argc = 0 then Some sh
     else do {
       sh \<leftarrow> try_commands sv lit (commands b g sv lit opn rd buf ticks) sh;
       sh \<leftarrow> on_console (console_write b (sh_mem sh) (shell_playback_buffer sv)) sh;
       Some (sh\<lparr>shell_executing := False, shell_playback_buffer_idx := 0\<rparr>) } }"

section \<open>Keys\<close>

text \<open>\<open>standard_keycode_handler\<close> is an empty function. What is stored is the code of the key, cut to a byte.\<close>

definition shell_keyhandler ::
    "'s bus \<Rightarrow> fmt_env \<Rightarrow> shell_vars \<Rightarrow> (string \<Rightarrow> ptr) \<Rightarrow> (u8 list \<Rightarrow> 'f option) \<Rightarrow> ('f \<Rightarrow> size_t \<Rightarrow> (u8 list \<times> int) option) \<Rightarrow> ptr \<Rightarrow> u32 \<Rightarrow>
     keyboard_event \<Rightarrow> 's shell \<Rightarrow> 's shell option" where
  "shell_keyhandler b g sv lit opn rd buf ticks e sh =
     (let keycode = ev_keycode e
      in if shell_executing sh
         then Some (sh\<lparr>sh_mem := (sh_mem sh)(shell_playback_buffer sv + word_of_int (shell_playback_buffer_idx sh) := of_nat keycode),
                       shell_playback_buffer_idx := shell_playback_buffer_idx sh + 1\<rparr>)
         else if keycode \<in> {KEY_RALT, KEY_LCTRL, KEY_RCTRL, KEY_LSHIFT, KEY_RSHIFT} then Some sh
         else if keycode = KEY_RETURN
         then do {
           let sh = sh\<lparr>sh_mem := (sh_mem sh)(shell_buffer sv + word_of_int (shell_buffer_idx sh) := 0), shell_buffer_idx := 0\<rparr>;
           sh \<leftarrow> on_console (console_putchar b 0x0A) sh;
           sh \<leftarrow> execute_command b g sv lit opn rd buf ticks sh;
           command_prompt b sv sh }
         else if keycode = KEY_BACKSPACE
         then Some (if shell_buffer_idx sh > 0 then sh\<lparr>shell_buffer_idx := shell_buffer_idx sh - 1\<rparr> else sh)
         else Some (sh\<lparr>sh_mem := (sh_mem sh)(shell_buffer sv + word_of_int (shell_buffer_idx sh) := of_nat keycode),
                       shell_buffer_idx := shell_buffer_idx sh + 1\<rparr>))"

definition shell_eventloop :: "'s bus \<Rightarrow> shell_vars \<Rightarrow> 'h \<Rightarrow> 'h \<times> 's shell \<Rightarrow> ('h \<times> 's shell) option" where
  "shell_eventloop b sv handler st = do {
     sh \<leftarrow> command_prompt b sv (snd st);
     Some (keyboard_set_handler (Some handler) (fst st), sh) }"

section \<open>Greetings\<close>

text \<open>The difference in the position of the cursor is computed with an unsigned length.\<close>

definition console_write_color_centered :: "'s bus \<Rightarrow> mem \<Rightarrow> ptr \<Rightarrow> 8 word \<Rightarrow> 8 word \<Rightarrow> 's console \<Rightarrow> 's console option" where
  "console_write_color_centered b m str bg fg con = do {
     let tmp = cursorx con;
     n \<leftarrow> strlen m str;
     let con = con\<lparr>cursorx := sint (word_of_int (c_div (strs_len con) 2) - n div 2)\<rparr>;
     con \<leftarrow> console_write_color b m str bg fg (console_flushc b con);
     Some (con\<lparr>cursorx := tmp\<rparr>) }"

definition console_write_centered :: "'s bus \<Rightarrow> mem \<Rightarrow> ptr \<Rightarrow> 's console \<Rightarrow> 's console option" where
  "console_write_centered b m str con = console_write_color_centered b m str (- 1) (- 1) con"

text \<open>The build does not define \<^verbatim>\<open>CONFIG_WELCOME_FULLSCREEN\<close>; \<open>osver\<close> is the version it passes.\<close>

definition welcome_message :: "'s bus \<Rightarrow> (string \<Rightarrow> ptr) \<Rightarrow> string \<Rightarrow> mem \<Rightarrow> 's console \<Rightarrow> 's console option" where
  "welcome_message b lit osver m con = do {
     con \<leftarrow> console_putchar b 0x0A con;
     con \<leftarrow> console_write_color b m (lit ''Welcome to DepthOS v'') (- 1) WGREEN_COLOR con;
     con \<leftarrow> console_write_color b m (lit osver) (- 1) WGREEN_COLOR con;
     console_putchar b 0x0A con }"

definition resolve_filetype :: "u8 \<Rightarrow> string" where
  "resolve_filetype ty =
     (if ty = FS_FILE then ''file'' else if ty = FS_DIR then ''directory'' else if ty = FS_PIPE then ''pipe'' else ''unknown'')"

section \<open>Commands of one word\<close>

text \<open>The literals with the names of the commands lie outside the array of the arguments.\<close>

definition names_placed :: "shell_vars \<Rightarrow> (string \<Rightarrow> ptr) \<Rightarrow> mem \<Rightarrow> nat \<Rightarrow> string list \<Rightarrow> bool" where
  "names_placed sv lit m n names \<longleftrightarrow>
     (\<forall>name \<in> set names. cstr m (lit name) (map of_char name) \<and> regions_disjoint (command_argv sv) n (lit name) (Suc (length name)))"

lemma strsplt_word:
  assumes "cstr m src w" and "0x20 \<notin> set w" and "regions_disjoint dst (Suc (length w)) src (Suc (length w))"
  shows "\<exists>m'. strsplt m src dst sz 0 0x20 = Some (m', 1) \<and> cstr m' dst w \<and> (\<forall>a. \<not> in_region dst (Suc (length w)) a \<longrightarrow> m' a = m a)"
proof -
  have "0x20 \<notin> sint ` set w"
  proof
    assume "0x20 \<in> sint ` set w"
    then obtain x where "x \<in> set w" "sint x = 0x20" by auto
    then have "x = 0x20" by (intro signed_word_eqI) simp
    then show False using \<open>x \<in> set w\<close> assms(2) by simp
  qed
  then have c: "strchr m src 0x20 = Some NULL" using strchr_cstr[OF assms(1)] by simp
  obtain m' where "strcpy m dst src = Some m'" "cstr m' dst w" "\<forall>a. \<not> in_region dst (Suc (length w)) a \<longrightarrow> m' a = m a"
    using strcpy_copies[OF assms(1,3)] by blast
  then show ?thesis using c by (auto simp: strsplt_def strsplt_loop.simps Let_def)
qed

lemma command_is_word:
  assumes "cstr (sh_mem sh) (command_argv sv) w" and "cstr (sh_mem sh) (lit name) (map of_char name)"
  shows "command_is sv lit name 0 sh = Some (w = map of_char name)"
  using strcmp_char_diff[OF assms] strcmp_eq_0[OF assms] by (simp add: command_is_def argv_def)

lemma try_commands_word:
  assumes "cstr (sh_mem sh) (command_argv sv) w" and "\<And>name. name \<in> fst ` set cs \<Longrightarrow> cstr (sh_mem sh) (lit name) (map of_char name)"
  shows "try_commands sv lit cs sh = (case find (\<lambda>c. w = map of_char (fst c)) cs of None \<Rightarrow> Some sh | Some c \<Rightarrow> snd c sh)"
  using assms(2) by (induction cs) (auto simp: command_is_word[OF assms(1)])

lemma names_kept:
  assumes "names_placed sv lit m n names" and "\<forall>a. \<not> in_region (command_argv sv) n a \<longrightarrow> m' a = m a" and "name \<in> set names" and "n \<le> 4294967296"
  shows "cstr m' (lit name) (map of_char name)"
proof -
  have c: "cstr m (lit name) (map of_char name)" and d: "regions_disjoint (command_argv sv) n (lit name) (Suc (length name))"
    using assms(1,3) by (auto simp: names_placed_def)
  have "length name < 4294967296" using cstr_length[OF c] by simp
  then have "\<not> in_region (command_argv sv) n (lit name + of_nat i)" if "i \<le> length name" for i
    using region_not_in[OF d, of i] assms(4) that by simp
  then show ?thesis using c assms(2) by (simp add: cstr_iff)
qed

text \<open>
  A line of one word runs the command of that name, if there is one, with no arguments; then the keys typed meanwhile are printed and the shell
  is ready for the next line. Of memory, only the array of the arguments changes before the command runs.
\<close>

lemma execute_word:
  fixes w
  defines "n \<equiv> Suc (length w)"
  assumes "cstr (sh_mem sh) (shell_buffer sv) w" and "0x20 \<notin> set w" and "regions_disjoint (command_argv sv) n (shell_buffer sv) n"
    and "names_placed sv lit (sh_mem sh) n (map fst (commands b g sv lit opn rd buf ticks))"
  shows "\<exists>m'. cstr m' (command_argv sv) w \<and> (\<forall>a. \<not> in_region (command_argv sv) n a \<longrightarrow> m' a = sh_mem sh a) \<and>
    execute_command b g sv lit opn rd buf ticks sh = do {
      let sh1 = sh\<lparr>shell_executing := True, sh_mem := m', command_argc := 1\<rparr>;
      sh2 \<leftarrow> (case find (\<lambda>c. w = map of_char (fst c)) (commands b g sv lit opn rd buf ticks) of None \<Rightarrow> Some sh1 | Some c \<Rightarrow> snd c sh1);
      sh3 \<leftarrow> on_console (console_write b (sh_mem sh2) (shell_playback_buffer sv)) sh2;
      Some (sh3\<lparr>shell_executing := False, shell_playback_buffer_idx := 0\<rparr>) }"
proof -
  obtain m' where m': "strsplt (sh_mem sh) (shell_buffer sv) (command_argv sv) 256 0 0x20 = Some (m', 1)" "cstr m' (command_argv sv) w"
    "\<forall>a. \<not> in_region (command_argv sv) n a \<longrightarrow> m' a = sh_mem sh a"
    using strsplt_word[OF assms(2,3), of "command_argv sv" 256] assms(4) unfolding n_def by blast
  let ?sh1 = "sh\<lparr>shell_executing := True, sh_mem := m', command_argc := 1\<rparr>"
  have "try_commands sv lit (commands b g sv lit opn rd buf ticks) ?sh1 =
      (case find (\<lambda>c. w = map of_char (fst c)) (commands b g sv lit opn rd buf ticks) of None \<Rightarrow> Some ?sh1 | Some c \<Rightarrow> snd c ?sh1)"
    using m'(2) names_kept[OF assms(5) m'(3)] cstr_length[OF assms(2)] by (intro try_commands_word) (auto simp: n_def)
  then have "execute_command b g sv lit opn rd buf ticks sh = do {
      let sh1 = ?sh1;
      sh2 \<leftarrow> (case find (\<lambda>c. w = map of_char (fst c)) (commands b g sv lit opn rd buf ticks) of None \<Rightarrow> Some sh1 | Some c \<Rightarrow> snd c sh1);
      sh3 \<leftarrow> on_console (console_write b (sh_mem sh2) (shell_playback_buffer sv)) sh2;
      Some (sh3\<lparr>shell_executing := False, shell_playback_buffer_idx := 0\<rparr>) }"
    using m'(1) by (simp add: execute_command_def Let_def)
  with m'(2,3) show ?thesis by blast
qed

section \<open>What the keys store\<close>

text \<open>
  The codes of the keys are stored, not the characters, and both when a key is pressed and when it is released: of what is typed, no space
  separates arguments, and the key of the letter A counts twice.
\<close>

lemma shell_space_is_no_blank: "(of_nat KEY_SPACE :: u8) \<noteq> 0x20"
  by (simp add: key_defs)

lemma shell_key_stored_twice:
  assumes "\<not> shell_executing sh" and "ev_keycode e = k" and "ev_keycode e' = k"
    and "k \<notin> {KEY_RALT, KEY_LCTRL, KEY_RCTRL, KEY_LSHIFT, KEY_RSHIFT, KEY_RETURN, KEY_BACKSPACE}"
  shows "Option.bind (shell_keyhandler b g sv lit opn rd buf ticks e sh) (shell_keyhandler b g sv lit opn rd buf ticks e') =
    Some (sh\<lparr>sh_mem := (sh_mem sh)(shell_buffer sv + word_of_int (shell_buffer_idx sh) := of_nat k,
                                   shell_buffer sv + word_of_int (shell_buffer_idx sh + 1) := of_nat k),
             shell_buffer_idx := shell_buffer_idx sh + 2\<rparr>)"
  using assms by (simp add: shell_keyhandler_def Let_def)

text \<open>Nothing keeps the index inside the buffer of 1024 bytes: the next key is stored in the byte behind it.\<close>

lemma shell_buffer_overruns:
  assumes "\<not> shell_executing sh" and "shell_buffer_idx sh = 1024"
    and "ev_keycode e \<notin> {KEY_RALT, KEY_LCTRL, KEY_RCTRL, KEY_LSHIFT, KEY_RSHIFT, KEY_RETURN, KEY_BACKSPACE}"
  shows "map_option (\<lambda>sh. sh_mem sh (shell_buffer sv + 1024)) (shell_keyhandler b g sv lit opn rd buf ticks e sh) = Some (of_nat (ev_keycode e))"
  using assms by (simp add: shell_keyhandler_def Let_def)

end
