(* ===== verification/Mapped_File.thy ===== *)
theory Mapped_File
  imports Vmm
begin

text \<open>
  Mapped files: \<open>generic_file_load_mapped_page\<close> of \<^verbatim>\<open>fs/file.c\<close>, the \<open>load_page\<close> operation that file systems give to their areas. It is the
  operation that the handler of page faults in \<^verbatim>\<open>Vmm\<close> calls through its argument.

  \<open>rd f\<close> is the read operation of file \<open>f\<close>, if it has one: from an offset it delivers the bytes that it stores in the buffer of one page, its
  result and the new offset. \<open>junk\<close> is what the buffer holds before. The bytes are copied to the user address through the directory \<open>cur\<close>,
  which is the active one; a result that is negative or larger than the buffer makes the copy leave the buffer, which is \<open>None\<close>.
\<close>

type_synonym file_read = "u32 \<Rightarrow> u8 list \<times> int \<times> u32"

definition user_memcpy :: "mem \<Rightarrow> ptr \<Rightarrow> u32 \<Rightarrow> u8 list \<Rightarrow> mem" where
  "user_memcpy m pgd v d = for_upto (length d) (\<lambda>k m. m(user_addr m pgd (v + of_nat k) := d ! k)) m"

definition generic_file_load_mapped_page ::
    "(nat \<Rightarrow> file_read option) \<Rightarrow> (nat \<Rightarrow> u8) \<Rightarrow> ptr \<Rightarrow> ptr \<Rightarrow> load_page" where
  "generic_file_load_mapped_page rd junk kpgd cur vm a vaddr offset =
     (let area = vm_objs vm a; aligned_offset = PG_RND_DOWN offset
      in case vma_file area of
           None \<Rightarrow> None
         | Some f \<Rightarrow>
             (case rd f of
                None \<Rightarrow> Some (vm, VM_FAULT_CRASH)
              | Some read \<Rightarrow>
                  let (d, n, aligned_offset) = read aligned_offset
                  in if aligned_offset \<le> offset then Some (vm, VM_FAULT_BUSERROR)
                     else do {
                       let is_kernel_task = (vma_pgd area = kpgd);
                       (pg, _) \<leftarrow> map_addr (vm_pg vm) (vma_pgd area) vaddr 1 (of_bool (\<not> is_kernel_task)) 1;
                       if n < 0 \<or> n > 4096 then None
                       else
                         let buf = map (\<lambda>i. if i < length d then d ! i else junk i) [0..<nat n]
                         in Some (vm\<lparr>vm_pg := pg\<lparr>pg_mem := user_memcpy (pg_mem pg) cur vaddr buf\<rparr>\<rparr>, VM_FAULT_IGNORE) }))"

section \<open>Copies to user pages\<close>

lemma user_memcpy_put:
  assumes inv: "pgd_inv st fls pgd" and v: "unat v + length d \<le> 3221225472"
    and mapped: "\<And>k. k < length d \<Longrightarrow> page_entry (pg_mem st) pgd (v + of_nat k) \<noteq> 0 \<and>
      user_addr (pg_mem st) pgd (v + of_nat k) = p + of_nat k \<and> \<not> heap_byte (p + of_nat k)"
  shows "user_memcpy (pg_mem st) pgd v d = put_bytes (pg_mem st) p d"
proof -
  let ?m = "pg_mem st"
  let ?put = "\<lambda>k. for_upto k (\<lambda>i m. m(p + of_nat i := d ! i)) ?m"
  have heap: "k \<le> length d \<Longrightarrow> heap_byte b \<Longrightarrow> ?put k b = ?m b" for k b using mapped by (induction k) auto
  have "k \<le> length d \<Longrightarrow> for_upto k (\<lambda>k m. m(user_addr m pgd (v + of_nat k) := d ! k)) ?m = ?put k" for k
  proof (induction k)
    case (Suc k)
    have "unat (v + of_nat k) < 3221225472" using v Suc.prems by (simp add: unat_word_ariths of_nat_unat_u32)
    note t = tables_heap_only[OF inv this, of "?put k"]
    have "load32 (?put k) (get_page (?put k) pgd (v + of_nat k)) = load32 ?m (get_page ?m pgd (v + of_nat k))"
      using t heap[of k] mapped[of k] Suc.prems by (auto simp: page_entry_def split: if_splits)
    then have "user_addr (?put k) pgd (v + of_nat k) = p + of_nat k" using mapped[of k] Suc.prems by (simp add: user_addr_def)
    moreover have "for_upto k (\<lambda>k m. m(user_addr m pgd (v + of_nat k) := d ! k)) ?m = ?put k" by (rule Suc.IH) (use Suc.prems in simp)
    ultimately show ?case by (simp only: for_upto_Suc)
  qed simp
  from this[of "length d"] show ?thesis by (simp add: user_memcpy_def put_bytes_def)
qed

section \<open>Faults in a mapped file\<close>

text \<open>Behind the end of the file, where a read delivers nothing, the fault is a bus error and nothing is mapped.\<close>

lemma fault_behind_file:
  assumes "vma_file (vm_objs vm a) = Some f" and "rd f = Some read" and "read (PG_RND_DOWN off) = (d, n, PG_RND_DOWN off)"
  shows "generic_file_load_mapped_page rd junk kpgd cur vm a v off = Some (vm, VM_FAULT_BUSERROR)"
proof -
  have "PG_RND_DOWN off \<le> off" by (simp add: word_le_nat_alt PG_RND_DOWN_page)
  then show ?thesis using assms by (simp add: generic_file_load_mapped_page_def)
qed

text \<open>
  C9: A fault in a page of a mapped file: when the read operation delivers the \<open>length d\<close> bytes of the file from the page's offset on, the page is
  mapped to a frame that was free, the whole page translates to it, and its first bytes are those of the file.
\<close>

theorem file_fault_loads_page:
  assumes "area = vm_objs vm a" and "v = PG_RND_DOWN cr2"
    and "pgd_inv (vm_pg vm) fls (t_pgd task)" and "pmm_wf (pg_pmm (vm_pg vm))" and "heap_frames_used (pg_pmm (vm_pg vm))"
    and "free_run (frame_used (pg_pmm (vm_pg vm))) (frame_count (pg_pmm (vm_pg vm))) 1 q"
    and "vma_phys_addr area = 0" and "vma_limit area = 0 \<or> cr2 < vma_addr area + vma_limit area" and "vma_pgd area = t_pgd task"
    and "vma_flags area AND MAP_ANON = 0" and "unat v + 4096 \<le> 3221225472"
    and "vma_ops area = Some ld" and "ops ld = Some (generic_file_load_mapped_page rd junk kpgd (t_pgd task))"
    and "vma_file area = Some fi" and "rd fi = Some read" and "off = v - vma_addr area + vma_file_off area" and "4096 dvd unat off"
    and "read off = (d, int (length d), off + of_nat (length d))" and "d \<noteq> []" and "length d \<le> 4096" and "off < off + of_nat (length d)"
    and "vma_fault_not_present ops vm task k a cr2 = Some (vm2, r)"
  shows "r = VM_FAULT_IGNORE \<and>
    (\<exists>f. free_run (frame_used (pg_pmm (vm_pg vm))) (frame_count (pg_pmm (vm_pg vm))) 1 f \<and>
       (\<forall>i < 4096. get_phys_addr (pg_mem (vm_pg vm2)) True (t_pgd task) (v + of_nat i) = push_bit 12 (of_nat f) + of_nat i \<and>
          (i < length d \<longrightarrow> pg_mem (vm_pg vm2) (ADDR_TO_VIRT (push_bit 12 (of_nat f) + of_nat i)) = d ! i)))"
proof -
  let ?pg = "vm_pg vm" and ?pgd = "t_pgd task"
  have buf: "map (\<lambda>i. if i < length d then d ! i else junk i) [0..<nat (int (length d))] = d" by (rule nth_equalityI) simp_all
  have "\<not> off + of_nat (length d) \<le> off" using assms(21) by simp
  then obtain pg phys where ma: "map_addr ?pg ?pgd v 1 (of_bool (?pgd \<noteq> kpgd)) 1 = Some (pg, phys)"
    and vm2: "vm2 = vm\<lparr>vm_pg := pg\<lparr>pg_mem := user_memcpy (pg_mem pg) ?pgd v d\<rparr>\<rparr>" and r: "r = VM_FAULT_IGNORE"
    using assms(7-10,12-18,20,22) buf unfolding assms(1,2)
    by (auto simp: vma_fault_not_present_def generic_file_load_mapped_page_def PG_RND_DOWN_aligned Let_def bind_eq_Some_conv split: if_splits)
  have dv: "4096 dvd unat v" unfolding assms(2) PG_RND_DOWN_page by simp
  have run: "free_run (frame_used (pg_pmm ?pg)) (frame_count (pg_pmm ?pg)) (unat (1 :: size_t)) q" using assms(6) by simp
  obtain f where f: "phys = push_bit 12 (of_nat f)" "free_run (frame_used (pg_pmm ?pg)) (frame_count (pg_pmm ?pg)) 1 f"
    and tr: "\<And>w. in_pages v 1 w \<Longrightarrow> get_phys_addr (pg_mem pg) True ?pgd w = phys + (w - v) \<and> page_entry (pg_mem pg) ?pgd w \<noteq> 0"
    and "\<exists>fls'. pgd_inv pg fls' ?pgd"
    using map_addr_fresh[OF assms(3,4) _ run dv _ _ ma] assms(11) by auto
  then obtain fls' where inv': "pgd_inv pg fls' ?pgd" by blast
  define p where "p = ADDR_TO_VIRT phys"
  have p: "ADDR_TO_VIRT (phys + of_nat i) = p + of_nat i" for i by (simp add: p_def ADDR_TO_VIRT_def)
  have byte: "get_phys_addr (pg_mem pg) True ?pgd (v + of_nat i) = phys + of_nat i \<and> page_entry (pg_mem pg) ?pgd (v + of_nat i) \<noteq> 0 \<and>
      user_addr (pg_mem pg) ?pgd (v + of_nat i) = p + of_nat i \<and> \<not> heap_byte (p + of_nat i)" if "i < 4096" for i
  proof -
    have "in_pages v 1 (v + of_nat i)" using in_pages_add[OF dv, of 1 i] assms(11) that by simp
    from tr[OF this] show ?thesis using user_addr_entry[of "pg_mem pg" ?pgd "v + of_nat i"] p[of i]
        frame_addr_outside_heap[OF assms(5) f(2) assms(4), of i] that f(1) by simp
  qed
  have put: "user_memcpy (pg_mem pg) ?pgd v d = put_bytes (pg_mem pg) p d"
    by (rule user_memcpy_put[OF inv']) (use assms(11,20) byte in auto)
  have hb: "put_bytes (pg_mem pg) p d b = pg_mem pg b" if "heap_byte b" for b
    using byte[of "unat (b - p)"] that assms(20) by (auto simp: put_bytes_apply)
  have "get_phys_addr (put_bytes (pg_mem pg) p d) True ?pgd (v + of_nat i) = phys + of_nat i \<and>
      put_bytes (pg_mem pg) p d (ADDR_TO_VIRT (phys + of_nat i)) = (if i < length d then d ! i else pg_mem pg (ADDR_TO_VIRT (phys + of_nat i)))"
    if "i < 4096" for i
  proof -
    have u: "unat (of_nat i :: u32) = i" using that by (intro of_nat_unat_u32) simp
    have "unat (v + of_nat i) < 3221225472" using assms(11) that u by (simp add: unat_word_ariths)
    from tables_heap_only[OF inv' this hb] byte[OF that]
    have "get_phys_addr (put_bytes (pg_mem pg) p d) True ?pgd (v + of_nat i) = phys + of_nat i"
      by (auto simp: get_phys_addr_def page_entry_def Let_def split: if_splits)
    then show ?thesis using u assms(20) by (simp add: p put_bytes_apply)
  qed
  then show ?thesis unfolding vm2 using r f put by (intro conjI exI[of _ f]) auto
qed

text \<open>An area of one page that maps a file with a single byte.\<close>

definition file_area :: vm_area where
  "file_area = (example_area 0x08000000 4096)\<lparr>vma_flags := 0, vma_file := Some 0, vma_ops := Some 0\<rparr>"

definition file_vm :: vmm where
  "file_vm = example_vm\<lparr>vm_objs := (\<lambda>_. file_area)\<rparr>"

definition file_ops :: "nat \<Rightarrow> load_page option" where
  "file_ops n = Some (generic_file_load_mapped_page (\<lambda>_. Some (\<lambda>off. ([7], 1, off + 1))) (\<lambda>_. 0) 0 HEAP_BASE)"

theorem file_fault_loads_page_witness:
  "\<exists>vm2 f. vma_fault_not_present file_ops file_vm example_task False 0 0x08000010 = Some (vm2, VM_FAULT_IGNORE) \<and>
     pg_mem (vm_pg vm2) (ADDR_TO_VIRT (push_bit 12 (of_nat f))) = 7"
proof -
  have v: "PG_RND_DOWN 0x08000010 = 0x08000000" by (simp add: PG_RND_DOWN_def ROUND_DOWN_def PAGE_SIZE_def)
  have z: "PG_RND_DOWN 0 = 0" by (simp add: PG_RND_DOWN_def ROUND_DOWN_def)
  obtain vm2 r where h: "vma_fault_not_present file_ops file_vm example_task False 0 0x08000010 = Some (vm2, r)"
    using example_table_map_addr v z
    by (auto simp: vma_fault_not_present_def file_ops_def generic_file_load_mapped_page_def file_vm_def file_area_def example_vm_def
        example_task_def example_area_def HEAP_BASE_val Let_def)
  have pm: "pg_pmm (vm_pg file_vm) = example_pmm" by (simp add: file_vm_def example_vm_def example_table_def)
  have "frame_count example_pmm \<le> 1024" by code_simp
  then have used: "heap_frames_used (pg_pmm (vm_pg file_vm))" unfolding pm by (auto simp: heap_frames_used_def)
  have run: "free_run (frame_used (pg_pmm (vm_pg file_vm))) (frame_count (pg_pmm (vm_pg file_vm))) 1 9"
    unfolding pm using example_pmm_free(1) by (auto simp: free_run_def all_less_2)
  have wf: "pmm_wf (pg_pmm (vm_pg file_vm))" unfolding pm by (rule example_pmm_wf)
  have inv: "pgd_inv (vm_pg file_vm) [[]] (t_pgd example_task)" using example_table_inv by (simp add: file_vm_def example_vm_def example_task_def)
  have "r = VM_FAULT_IGNORE \<and> (\<exists>f. pg_mem (vm_pg vm2) (ADDR_TO_VIRT (push_bit 12 (of_nat f))) = 7)"
    using file_fault_loads_page[OF refl v[symmetric] inv wf used run, of 0 0 file_ops "\<lambda>_. Some (\<lambda>off. ([7], 1, off + 1))" "\<lambda>_. 0" 0
        0 "\<lambda>off. ([7], 1, off + 1)" 0 "[7]" False vm2 r] h
    by (auto simp: file_vm_def file_area_def example_area_def example_task_def file_ops_def MAP_ANON_def dest!: spec[of _ "0 :: nat"])
  then show ?thesis using h by auto
qed

end
