(* ===== verification/User_Args.thy ===== *)
theory User_Args
  imports Boot_Paging Cstring Proc
begin

text \<open>
  Lists of strings that a program passes to \<open>execve\<close>: \<open>copy_userspace_null_str_list\<close> of \<^verbatim>\<open>kernel/proc.c\<close>, over the heap and the byte loops on strings;
  and the allocation of the stacks of a task.

  Memory is what the processor addresses with the directory of the task: the program below \<open>VIRT_BASE\<close>, the kernel above. \<open>Inl ()\<close> is the fault
  of a store through the null pointer that \<open>kmalloc\<close> returns when there is no memory; \<open>None\<close> is a list or a string without an end.
\<close>

section \<open>Copying lists of strings\<close>

partial_function (option) str_list_length :: "mem \<Rightarrow> ptr \<Rightarrow> u32 \<Rightarrow> u32 option" where
  "str_list_length m src n = (if load32 m (src + 4 * n) \<noteq> NULL then str_list_length m src (n + 1) else Some n)"

fun copy_strings :: "ptr \<Rightarrow> ptr \<Rightarrow> nat \<Rightarrow> nat \<Rightarrow> mem \<Rightarrow> kheap \<Rightarrow> (unit + mem \<times> kheap) option" where
  "copy_strings src dst i 0 m h = Some (Inr (m, h))"
| "copy_strings src dst i (Suc n) m h = do {
     len \<leftarrow> strlen m (load32 m (src + 4 * of_nat i));
     (m, h, p) \<leftarrow> kmalloc m h (len + 1);
     let m = store32 m (dst + 4 * of_nat i) p;
     if p = NULL then Some (Inl ())
     else do {
       m \<leftarrow> strcpy m p (load32 m (src + 4 * of_nat i));
       copy_strings src dst (Suc i) n m h } }"

definition copy_userspace_null_str_list :: "ptr \<Rightarrow> ptr \<Rightarrow> mem \<times> kheap \<times> mmu \<Rightarrow> (unit + ptr \<times> mem \<times> kheap \<times> mmu) option" where
  "copy_userspace_null_str_list task_pgd src st = do {
     let (m, h, u) = st;
     let pgd = get_current_pgd u;
     let u = activate_pgd task_pgd u;
     if src = NULL then Some (Inr (NULL, m, h, u))
     else do {
       n \<leftarrow> str_list_length m src 0;
       let len = n + 1;
       (m, h, dst) \<leftarrow> kmalloc m h (4 * len);
       if dst = NULL then Some (Inl ())
       else do {
         r \<leftarrow> copy_strings src dst 0 (nat (sint (len - 1))) m h;
         Some (case r of
             Inl e \<Rightarrow> Inl e
           | Inr (m, h) \<Rightarrow> Inr (dst, store32 m (dst + 4 * (len - 1)) (load32 m (src + 4 * (len - 1))), h, activate_pgd pgd u)) } } }"

text \<open>
  The stacks. \<open>alloc_kernel_stack\<close> returns the base and the top of a block for the kernel's stack. \<open>alloc_stack\<close> records an area for the stack of a
  program, to which it passes the number of pages, and maps the pages.
\<close>

definition alloc_kernel_stack :: "mem \<Rightarrow> kheap \<Rightarrow> (mem \<times> kheap \<times> ptr \<times> ptr) option" where
  "alloc_kernel_stack m h = do {
     (m, h, kernel_stack) \<leftarrow> kmalloc m h KSTACK_SIZE;
     Some (m, h, kernel_stack, kernel_stack + KSTACK_SIZE) }"

definition alloc_stack :: "vmm \<Rightarrow> mm_task \<Rightarrow> u32 \<Rightarrow> size_t \<Rightarrow> bool \<Rightarrow> (vmm \<times> mm_task) option" where
  "alloc_stack vm task stack sz user = do {
     let (vm, task, _) = vma_create vm task stack (PG_RND_UP sz div PAGE_SIZE) 0;
     (pg, _) \<leftarrow> map_addr (vm_pg vm) (t_pgd task) stack (PG_RND_UP sz div PAGE_SIZE) (of_bool user) 1;
     Some (vm\<lparr>vm_pg := pg\<rparr>, task) }"

text \<open>The system call \<open>thjoin\<close> only disables interrupts; it has no return statement in this case, so the result is what is left in the register.\<close>

definition sys_thjoin :: "int \<Rightarrow> kernel \<Rightarrow> mmu \<Rightarrow> mmu \<times> int" where
  "sys_thjoin garbage k u = (if t_process (cur k) = None then (u, - 1) else (u\<lparr>hwinterrupts := False\<rparr>, garbage))"

section \<open>Blocks of the heap\<close>

lemma live_bounds:
  assumes "heap_ok s" and "(b, k) \<in> heap_live s"
  shows "3225419776 \<le> unat b \<and> unat b + k \<le> 3233808384 \<and> 4 \<le> k"
proof -
  obtain fls where fls: "heap_inv (fst s) (snd s) fls" "(b, k) \<in> live_objects (snd s) fls" using assms(2) by (auto simp: heap_live_def)
  obtain j where j: "j < length (heap_cache (snd s))" "b \<in> slab_objs (heap_cache (snd s) ! j)" "k = unat (object_size (heap_cache (snd s) ! j))"
    using fls(2) by (auto simp: live_objects_def)
  have ok: "slab_ok (kheap_bitmap (snd s)) (fst s) (heap_cache (snd s) ! j) (fls ! j)" using heap_inv_slab[OF fls(1) j(1)] .
  then obtain pg where pg: "slab_at (heap_cache (snd s) ! j) pg" using slab_ok_at by blast
  have "4 \<le> k" using ok j(3) by (simp add: slab_ok_def)
  then show ?thesis using slab_objs_range[OF pg j(2)] slab_at_bounds[OF pg] j(3) by linarith
qed

lemma live_apart:
  assumes "heap_ok s" and "(b, k) \<in> heap_live s" and "(b', k') \<in> heap_live s" and "(b, k) \<noteq> (b', k')"
  shows "obj_apart b k b' k'"
proof -
  obtain fls where inv: "heap_inv (fst s) (snd s) fls" using assms(1) by (auto simp: heap_ok_def)
  have "heap_live s = live_objects (snd s) fls" using heap_live_eq[OF inv] by simp
  then obtain i j where ij: "i < length (heap_cache (snd s))" "b \<in> slab_objs (heap_cache (snd s) ! i)" "k = unat (object_size (heap_cache (snd s) ! i))"
      "j < length (heap_cache (snd s))" "b' \<in> slab_objs (heap_cache (snd s) ! j)" "k' = unat (object_size (heap_cache (snd s) ! j))"
    using assms(2,3) by (auto simp: live_objects_def)
  then have "b \<noteq> b' \<or> i \<noteq> j" using assms(4) by auto
  then show ?thesis using heap_objs_apart[OF inv ij(1,4,2,5)] ij(3,6) by simp
qed

text \<open>A write inside a live block: the heap stays as it is, and so do the bytes of the other live blocks and of the program.\<close>

lemma block_write:
  assumes "heap_ok (m, h)" and "(b, k) \<in> heap_live (m, h)" and "\<forall>a. m' a \<noteq> m a \<longrightarrow> unat b \<le> unat a \<and> unat a < unat b + k"
  shows "heap_ok (m', h)" "heap_live (m', h) = heap_live (m, h)"
    "(b', k') \<in> heap_live (m, h) \<Longrightarrow> (b', k') \<noteq> (b, k) \<Longrightarrow> same_bytes m m' b' k'" "unat a < 3225419776 \<Longrightarrow> m' a = m a"
proof -
  obtain fls where inv: "heap_inv m h fls" using assms(1) by (auto simp: heap_ok_def)
  have l: "(b, k) \<in> live_objects h fls" using assms(2) heap_live_eq[OF inv] by simp
  have "heap_inv m' h fls \<and> heap_live (m', h) = heap_live (m, h)"
    by (rule heap_inv_client_writes[OF inv]) (use l assms(3) in blast)
  then show "heap_ok (m', h)" "heap_live (m', h) = heap_live (m, h)" unfolding heap_ok_def by auto
  show "same_bytes m m' b' k'" if "(b', k') \<in> heap_live (m, h)" "(b', k') \<noteq> (b, k)"
    using live_apart[OF assms(1) that(1) assms(2) that(2)] assms(3) by (fastforce simp: same_bytes_def obj_apart_def)
  show "m' a = m a" if "unat a < 3225419776" using live_bounds[OF assms(1,2)] assms(3) that by (meson leD order_trans)
qed

text \<open>Memory below the heap is not touched by an allocation.\<close>

lemma kmalloc_low:
  assumes "heap_inv m h fls" and "0 < unat sz" "unat sz \<le> 40960" and "kmalloc m h sz = Some (m', h', p)" and "p \<noteq> NULL" and "unat a < 3225419776"
  shows "m' a = m a"
proof -
  obtain fit idx where se: "kmalloc_search (heap_cache h) (sint (request sz)) 0 0 0 = (fit, idx)" by fastforce
  show ?thesis
  proof (cases "fit = 0")
    case False
    then show ?thesis using assms(4) by (auto simp: kmalloc_unfold[OF assms(2,3)] se)
  next
    case True
    then obtain h1 i where g: "kheap_cache_grow m h (ucast (request sz)) (of_bool (sint (request sz) \<ge> 1024)) = Some (m', h1, Some i)"
      using assms(4,5) by (auto simp: kmalloc_unfold[OF assms(2,3)] se bind_eq_Some_conv split: option.splits)
    note rb = request_bounds[OF assms(2,3)]
    have gs: "unat (request sz) \<le> unat (grown_size (ucast (request sz)) (of_bool (sint (request sz) \<ge> 1024)))"
        "unat (grown_size (ucast (request sz)) (of_bool (sint (request sz) \<ge> 1024)))
          \<le> (if (of_bool (sint (request sz) \<ge> 1024) :: cbool) = 0 then 4 else 10) * 4096"
      using grown_size_request[of "request sz"] rb by auto
    have "4 \<le> unat (grown_size (ucast (request sz)) (of_bool (sint (request sz) \<ge> 1024)))" using gs(1) rb by linarith
    from kheap_cache_grow_inv[OF assms(1) g this gs(2)] obtain s where s: "i = length (heap_cache h)" "heap_cache h1 = heap_cache h @ [s]"
        "heap_inv m' h1 (fls @ [map (slab_obj s) [0..<slab_count s]])" "\<And>b. \<not> slab_range s b \<Longrightarrow> m' b = m b" by blast
    have "slab_ok (kheap_bitmap h1) m' s ((fls @ [map (slab_obj s) [0..<slab_count s]]) ! i)" using heap_inv_slab[OF s(3), of i] s(1,2) by simp
    then obtain pg where "slab_at s pg" using slab_ok_at by blast
    from slab_at_bounds(1)[OF this] show ?thesis using assms(6) by (intro s(4)) (simp add: slab_range_def)
  qed
qed

lemma same_bytes_trans: "same_bytes m m' b k \<Longrightarrow> same_bytes m' m'' b k \<Longrightarrow> same_bytes m m'' b k"
  by (simp add: same_bytes_def)

lemma unat_index: "unat b + d < 4294967296 \<Longrightarrow> unat (b + of_nat d :: u32) = unat b + d"
  by (simp add: unat_word_ariths of_nat_unat_u32)

lemma load32_same:
  assumes "same_bytes m m' b k" and "d + 4 \<le> k" and "unat b + k \<le> 4294967296"
  shows "load32 m' (b + of_nat d) = load32 m (b + of_nat d)"
proof (rule load32_cong)
  fix i :: nat assume "i < 4"
  then have "unat (b + of_nat (d + i)) = unat b + (d + i)" using assms(2,3) by (intro unat_index) linarith
  then show "m' (b + of_nat d + of_nat i) = m (b + of_nat d + of_nat i)"
    using assms(1,2) \<open>i < 4\<close> by (simp add: same_bytes_def add.assoc)
qed

lemma cstr_same:
  assumes "same_bytes m m' b k" and "length s < k" and "unat b + k \<le> 4294967296" and "cstr m b s"
  shows "cstr m' b s"
proof -
  have "m' (b + of_nat i) = m (b + of_nat i)" if "i \<le> length s" for i
    using assms(1-3) that unat_index[of b i] by (simp add: same_bytes_def)
  then show ?thesis using assms(4) by (simp add: cstr_iff)
qed

section \<open>The copies\<close>

text \<open>A list of strings in the memory of the program, ended by a null pointer; neither list nor strings exceed what \<open>kmalloc\<close> can serve.\<close>

definition user_strings :: "mem \<Rightarrow> ptr \<Rightarrow> u8 list list \<Rightarrow> bool" where
  "user_strings m src ss \<longleftrightarrow> src \<noteq> NULL \<and> unat src + 4 * Suc (length ss) \<le> 3221225472 \<and> length ss < 10240 \<and>
     (\<forall>i < length ss. load32 m (src + of_nat (4 * i)) \<noteq> NULL \<and> cstr m (load32 m (src + of_nat (4 * i))) (ss ! i) \<and>
        unat (load32 m (src + of_nat (4 * i))) + Suc (length (ss ! i)) \<le> 3221225472 \<and> length (ss ! i) < 40960) \<and>
     load32 m (src + of_nat (4 * length ss)) = NULL"

lemma low_same: "(\<And>a. unat a < 3225419776 \<Longrightarrow> m' a = m a) \<Longrightarrow> same_bytes m m' 0 3225419776"
  by (simp add: same_bytes_def)

lemma user_strings_low:
  assumes "user_strings m src ss" and "\<And>a. unat a < 3225419776 \<Longrightarrow> m' a = m a"
  shows "user_strings m' src ss"
proof -
  have l: "load32 m' (src + of_nat d) = load32 m (src + of_nat d)" if "d + 4 \<le> 4 * Suc (length ss)" for d
  proof -
    have d: "unat src + (d + 4) \<le> 3221225472" using assms(1) that unfolding user_strings_def by linarith
    then have "same_bytes m m' src (d + 4)" using assms(2) unfolding same_bytes_def by simp
    then show ?thesis by (rule load32_same) (use d in simp_all)
  qed
  have "cstr m' (load32 m (src + of_nat (4 * i))) (ss ! i)" if "i < length ss" for i
  proof -
    have c: "cstr m (load32 m (src + of_nat (4 * i))) (ss ! i)" "unat (load32 m (src + of_nat (4 * i))) + Suc (length (ss ! i)) \<le> 3221225472"
      using assms(1) that unfolding user_strings_def by blast+
    have "same_bytes m m' (load32 m (src + of_nat (4 * i))) (Suc (length (ss ! i)))" using c(2) assms(2) unfolding same_bytes_def by simp
    then show ?thesis by (rule cstr_same[OF _ _ _ c(1)]) (use c(2) in simp_all)
  qed
  moreover have "load32 m' (src + 4 * of_nat i) = load32 m (src + 4 * of_nat i)" if "i \<le> length ss" for i using l[of "4 * i"] that by simp
  ultimately show ?thesis using assms(1) unfolding user_strings_def by simp
qed

lemma str_list_length_ok:
  assumes "user_strings m src ss"
  shows "str_list_length m src 0 = Some (of_nat (length ss))"
proof -
  have "i \<le> length ss \<Longrightarrow> str_list_length m src (of_nat i) = Some (of_nat (length ss))" for i
  proof (induction "length ss - i" arbitrary: i)
    case 0
    then have "i = length ss" by simp
    then show ?case using assms by (subst str_list_length.simps) (simp add: user_strings_def)
  next
    case (Suc n)
    then have "load32 m (src + 4 * of_nat i) \<noteq> NULL" using assms by (simp add: user_strings_def)
    moreover have "str_list_length m src (of_nat (Suc i)) = Some (of_nat (length ss))" using Suc by (intro Suc.hyps) simp_all
    ultimately show ?case by (subst str_list_length.simps) (simp add: add.commute)
  qed
  from this[of 0] show ?thesis by simp
qed

definition copy_at :: "(ptr \<times> nat) set \<Rightarrow> ptr \<Rightarrow> u8 list \<Rightarrow> mem \<Rightarrow> kheap \<Rightarrow> nat \<Rightarrow> bool" where
  "copy_at old dst t m h j \<longleftrightarrow> (\<exists>p k. load32 m (dst + of_nat (4 * j)) = p \<and> (p, k) \<in> heap_live (m, h) - old \<and> length t < k \<and> cstr m p t)"

text \<open>What holds after \<open>i\<close> strings have been copied; \<open>old\<close> are the blocks that were live before.\<close>

definition copied :: "mem \<Rightarrow> (ptr \<times> nat) set \<Rightarrow> ptr \<Rightarrow> nat \<Rightarrow> u8 list list \<Rightarrow> nat \<Rightarrow> mem \<Rightarrow> kheap \<Rightarrow> bool" where
  "copied m0 old dst kd ss i m h \<longleftrightarrow> heap_ok (m, h) \<and> insert (dst, kd) old \<subseteq> heap_live (m, h) \<and> (dst, kd) \<notin> old \<and> 4 * Suc (length ss) \<le> kd \<and>
     (\<forall>a. unat a < 3225419776 \<longrightarrow> m a = m0 a) \<and> (\<forall>(b, k) \<in> old. same_bytes m0 m b k) \<and>
     (\<forall>j < i. copy_at (insert (dst, kd) old) dst (ss ! j) m h j)"

text \<open>A step that keeps the live blocks of before, the addresses stored so far and their blocks keeps the copies.\<close>

lemma copied_frame:
  assumes "copied m0 old dst kd ss i m h" and "heap_ok (m', h')" and "heap_live (m, h) \<subseteq> heap_live (m', h')"
    and "\<And>a. unat a < 3225419776 \<Longrightarrow> m' a = m a" and "\<And>b k. (b, k) \<in> old \<Longrightarrow> same_bytes m m' b k"
    and "\<And>j. j < i \<Longrightarrow> load32 m' (dst + of_nat (4 * j)) = load32 m (dst + of_nat (4 * j))"
    and "\<And>j k. j < i \<Longrightarrow> (load32 m (dst + of_nat (4 * j)), k) \<in> heap_live (m, h) - insert (dst, kd) old \<Longrightarrow>
      same_bytes m m' (load32 m (dst + of_nat (4 * j))) k"
  shows "copied m0 old dst kd ss i m' h'"
proof -
  note c = assms(1)[unfolded copied_def]
  have "copy_at (insert (dst, kd) old) dst (ss ! j) m' h' j" if j: "j < i" for j
  proof -
    let ?p = "load32 m (dst + of_nat (4 * j))"
    obtain k where k: "(?p, k) \<in> heap_live (m, h) - insert (dst, kd) old" "length (ss ! j) < k" "cstr m ?p (ss ! j)"
      using c j unfolding copy_at_def by blast
    have "unat ?p + k \<le> 4294967296" using live_bounds[of "(m, h)" ?p k] c k(1) by simp
    then have "cstr m' ?p (ss ! j)" using cstr_same[OF assms(7)[OF j k(1)] k(2) _ k(3)] by blast
    then show ?thesis unfolding copy_at_def using assms(3) assms(6)[OF j] k(1,2) by auto
  qed
  moreover have "\<forall>a. unat a < 3225419776 \<longrightarrow> m' a = m0 a" using c assms(4) by auto
  moreover have "\<forall>(b, k) \<in> old. same_bytes m0 m' b k" using c assms(5) by (auto intro: same_bytes_trans)
  ultimately show ?thesis unfolding copied_def using c assms(2,3) by blast
qed

lemma copied_block: "copied m0 old dst kd ss i m h \<Longrightarrow>
    heap_ok (m, h) \<and> (dst, kd) \<in> heap_live (m, h) \<and> 4 * Suc (length ss) \<le> kd \<and> 3225419776 \<le> unat dst \<and> unat dst + kd \<le> 3233808384"
  using live_bounds[of "(m, h)" dst kd] unfolding copied_def by auto

lemma copied_index: "copied m0 old dst kd ss i m h \<Longrightarrow> j \<le> length ss \<Longrightarrow> unat (dst + of_nat (4 * j)) = unat dst + 4 * j"
  using copied_block[of m0 old dst kd ss i m h] by (intro unat_index) simp

text \<open>Allocation of a further block.\<close>

lemma kmalloc_block:
  assumes "heap_ok (m, h)" and "0 < unat sz" and "unat sz \<le> 40960" and "kmalloc m h sz = Some (m1, h1, p)" and "p \<noteq> NULL"
  shows "\<exists>k. heap_ok (m1, h1) \<and> unat sz \<le> k \<and> (p, k) \<notin> heap_live (m, h) \<and> heap_live (m1, h1) = insert (p, k) (heap_live (m, h)) \<and>
    (\<forall>(b, j) \<in> heap_live (m, h). same_bytes m m1 b j) \<and> (\<forall>a. unat a < 3225419776 \<longrightarrow> m1 a = m a)"
proof -
  obtain fls where inv: "heap_inv m h fls" using assms(1) by (auto simp: heap_ok_def)
  have "heap_ok (m1, h1) \<and> (\<exists>k. unat sz \<le> k \<and> (p, k) \<notin> heap_live (m, h) \<and> heap_live (m1, h1) = insert (p, k) (heap_live (m, h)) \<and>
      (\<forall>(b, j) \<in> heap_live (m, h). obj_apart p k b j \<and> same_bytes m m1 b j))"
    using kh.alloc_ok[of "(m, h)" sz "(m1, h1)" p] assms by (simp add: valid_request_def kmalloc_st_def)
  then show ?thesis using kmalloc_low[OF inv assms(2-5)] by blast
qed

lemma kmalloc_returns: "heap_ok (m, h) \<Longrightarrow> 0 < unat sz \<Longrightarrow> unat sz \<le> 40960 \<Longrightarrow> \<exists>m' h' p. kmalloc m h sz = Some (m', h', p)"
  unfolding heap_ok_def fst_conv snd_conv by (elim exE) (erule (2) kmalloc_cases; blast)

lemma copied_alloc:
  assumes "copied m0 old dst kd ss i m h" and "i \<le> length ss" and "heap_ok (m1, h1)" and "heap_live (m1, h1) = insert x (heap_live (m, h))"
    and "\<forall>(b, j) \<in> heap_live (m, h). same_bytes m m1 b j" and "\<forall>a. unat a < 3225419776 \<longrightarrow> m1 a = m a"
  shows "copied m0 old dst kd ss i m1 h1 \<and> (\<forall>j < i. load32 m1 (dst + of_nat (4 * j)) = load32 m (dst + of_nat (4 * j)))"
proof -
  note b = copied_block[OF assms(1)]
  have "same_bytes m m1 dst kd" using b assms(5) by auto
  then have l: "load32 m1 (dst + of_nat (4 * j)) = load32 m (dst + of_nat (4 * j))" if "j < i" for j
    by (rule load32_same) (use that b assms(2) in simp_all)
  have "old \<subseteq> heap_live (m, h)" using assms(1) unfolding copied_def by blast
  then have "copied m0 old dst kd ss i m1 h1" using assms l by (intro copied_frame[OF assms(1,3)]) auto
  with l show ?thesis by blast
qed

text \<open>Storing into a later place of the list.\<close>

lemma copied_store:
  assumes "copied m0 old dst kd ss i m h" and "i \<le> j" and "j \<le> length ss"
  shows "copied m0 old dst kd ss i (store32 m (dst + of_nat (4 * j)) v) h \<and> heap_live (store32 m (dst + of_nat (4 * j)) v, h) = heap_live (m, h) \<and>
    (\<forall>n < i. load32 (store32 m (dst + of_nat (4 * j)) v) (dst + of_nat (4 * n)) = load32 m (dst + of_nat (4 * n)))"
proof -
  let ?d = "dst + of_nat (4 * j)" and ?m = "store32 m (dst + of_nat (4 * j)) v"
  note b = copied_block[OF assms(1)] and di = copied_index[OF assms(1,3)]
  have l: "heap_ok (m, h)" "(dst, kd) \<in> heap_live (m, h)" using b by auto
  have ch: "\<forall>a. ?m a \<noteq> m a \<longrightarrow> unat dst \<le> unat a \<and> unat a < unat dst + kd"
    using in_region_nat[of ?d 4] store32_outside[of ?d _ m v] di b assms(3) by fastforce
  note w = block_write[where m' = ?m, OF l ch]
  have o: "(dst, kd) \<notin> old" "old \<subseteq> heap_live (m, h)" using assms(1) unfolding copied_def by auto
  have ld: "load32 ?m (dst + of_nat (4 * n)) = load32 m (dst + of_nat (4 * n))" if "n < i" for n
  proof (rule load32_store32_other)
    have "unat (dst + of_nat (4 * n)) = unat dst + 4 * n" using copied_index[OF assms(1), of n] that assms(2,3) by simp
    then have "regions_disjoint (dst + of_nat (4 * n)) 4 ?d 4" using di b that assms(2,3) by (intro regions_disjoint_nat) simp_all
    then show "regions_disjoint ?d 4 (dst + of_nat (4 * n)) 4" by (simp add: regions_disjoint_def)
  qed
  have "copied m0 old dst kd ss i ?m h" using w o ld by (intro copied_frame[OF assms(1)]) blast+
  then show ?thesis using w(2) ld by blast
qed

text \<open>Writing into a block that holds none of the copies.\<close>

lemma copied_write:
  assumes "copied m0 old dst kd ss i m h" and "i \<le> length ss" and "(p, k) \<in> heap_live (m, h) - insert (dst, kd) old"
    and "\<forall>j < i. load32 m (dst + of_nat (4 * j)) \<noteq> p" and "\<forall>a. m' a \<noteq> m a \<longrightarrow> unat p \<le> unat a \<and> unat a < unat p + k"
  shows "copied m0 old dst kd ss i m' h \<and> heap_live (m', h) = heap_live (m, h) \<and> same_bytes m m' dst kd"
proof -
  note b = copied_block[OF assms(1)]
  have l: "heap_ok (m, h)" "(p, k) \<in> heap_live (m, h)" using b assms(3) by auto
  note w = block_write[where m' = m', OF l assms(5)]
  have sd: "same_bytes m m' dst kd" using w(3) b assms(3) by blast
  then have ld: "load32 m' (dst + of_nat (4 * j)) = load32 m (dst + of_nat (4 * j))" if "j < i" for j
    by (rule load32_same) (use that b assms(2) in simp_all)
  have "old \<subseteq> heap_live (m, h)" using assms(1) unfolding copied_def by auto
  then have "copied m0 old dst kd ss i m' h" using w ld assms(3,4) by (intro copied_frame[OF assms(1)]) blast+
  then show ?thesis using w(2) sd by blast
qed

lemma copied_fresh:
  assumes "copied m0 old dst kd ss i m h" and "heap_ok (m1, h1)" and "(p, k) \<notin> heap_live (m, h)" and "heap_live (m1, h1) = insert (p, k) (heap_live (m, h))"
  shows "\<forall>j < i. load32 m (dst + of_nat (4 * j)) \<noteq> p"
proof (intro allI impI notI)
  fix j assume "j < i" and p: "load32 m (dst + of_nat (4 * j)) = p"
  then obtain k' where k': "(p, k') \<in> heap_live (m, h)" using assms(1) unfolding copied_def copy_at_def by auto
  then have "obj_apart p k p k'" using assms(3,4) by (intro live_apart[OF assms(2)]) auto
  then show False using live_bounds[OF assms(2), of p k] live_bounds[OF assms(2), of p k'] k' assms(4) by (auto simp: obj_apart_def)
qed

text \<open>One string: the block that is allocated for it, the store of its address and the copy.\<close>

lemma copy_step:
  assumes "copied m0 old dst kd ss i m h" and "user_strings m0 src ss" and "i < length ss"
    and "kmalloc m h (of_nat (length (ss ! i)) + 1) = Some (m1, h1, p)" and "p \<noteq> NULL"
  defines "m2 \<equiv> store32 m1 (dst + of_nat (4 * i)) p"
  shows "\<exists>m3. strcpy m2 p (load32 m2 (src + of_nat (4 * i))) = Some m3 \<and> copied m0 old dst kd ss (Suc i) m3 h1"
proof -
  let ?t = "ss ! i" and ?q = "load32 m2 (src + of_nat (4 * i))"
  note b = copied_block[OF assms(1)]
  have len: "length ?t < 40960" using assms(2,3) unfolding user_strings_def by blast
  have sz: "unat (of_nat (length ?t) + 1 :: u32) = Suc (length ?t)" using len by (simp add: unat_word_ariths of_nat_unat_u32)
  then obtain k where k: "heap_ok (m1, h1)" "Suc (length ?t) \<le> k" "(p, k) \<notin> heap_live (m, h)" "heap_live (m1, h1) = insert (p, k) (heap_live (m, h))"
      "\<forall>(b, j) \<in> heap_live (m, h). same_bytes m m1 b j" "\<forall>a. unat a < 3225419776 \<longrightarrow> m1 a = m a"
    using kmalloc_block[OF _ _ _ assms(4,5)] b len by auto
  have c1: "copied m0 old dst kd ss i m1 h1" "\<forall>j < i. load32 m1 (dst + of_nat (4 * j)) = load32 m (dst + of_nat (4 * j))"
    using copied_alloc[OF assms(1) _ k(1,4-6)] assms(3) by simp_all
  have c2: "copied m0 old dst kd ss i m2 h1" "heap_live (m2, h1) = heap_live (m1, h1)"
      "\<forall>j < i. load32 m2 (dst + of_nat (4 * j)) = load32 m1 (dst + of_nat (4 * j))"
    unfolding m2_def using copied_store[OF c1(1) order_refl] assms(3) by simp_all
  have pb: "3225419776 \<le> unat p" "unat p + k \<le> 3233808384" using live_bounds[OF k(1), of p k] k(4) by auto
  have us: "user_strings m2 src ss" by (rule user_strings_low[OF assms(2)]) (use c2(1) in \<open>simp add: copied_def\<close>)
  have q: "cstr m2 ?q ?t" "unat ?q + Suc (length ?t) \<le> 3221225472" using us assms(3) unfolding user_strings_def by blast+
  have "regions_disjoint ?q (Suc (length ?t)) p (Suc (length ?t))" using q(2) pb k(2) by (intro regions_disjoint_nat) simp_all
  then have "regions_disjoint p (Suc (length ?t)) ?q (Suc (length ?t))" by (simp add: regions_disjoint_def)
  from strcpy_copies[OF q(1) this] obtain m3 where m3: "strcpy m2 p ?q = Some m3" "cstr m3 p ?t"
    "\<And>a. \<not> in_region p (Suc (length ?t)) a \<Longrightarrow> m3 a = m2 a" by blast
  have ch: "\<forall>a. m3 a \<noteq> m2 a \<longrightarrow> unat p \<le> unat a \<and> unat a < unat p + k"
    using in_region_nat[of p "Suc (length ?t)"] m3(3) pb k(2) by fastforce
  have fresh: "\<forall>j < i. load32 m2 (dst + of_nat (4 * j)) \<noteq> p" using c1(2) c2(3) copied_fresh[OF assms(1) k(1,3,4)] by simp
  have live2: "(p, k) \<in> heap_live (m2, h1) - insert (dst, kd) old" using c2(2) k(3,4) b assms(1) unfolding copied_def by auto
  have c3: "copied m0 old dst kd ss i m3 h1" "heap_live (m3, h1) = heap_live (m2, h1)" "same_bytes m2 m3 dst kd"
    using copied_write[OF c2(1) _ live2 fresh ch] assms(3) by simp_all
  have "load32 m3 (dst + of_nat (4 * i)) = load32 m2 (dst + of_nat (4 * i))" by (rule load32_same[OF c3(3)]) (use b assms(3) in simp_all)
  then have "copy_at (insert (dst, kd) old) dst ?t m3 h1 i" unfolding copy_at_def using live2 c3(2) k(2) m3(2) by (auto simp: m2_def)
  with c3(1) have "copied m0 old dst kd ss (Suc i) m3 h1" unfolding copied_def by (auto simp: less_Suc_eq)
  then show ?thesis using m3(1) by blast
qed

text \<open>The loop returns: every string is copied, or memory runs out.\<close>

lemma copy_strings_ok:
  assumes "copied m0 old dst kd ss i m h" and "user_strings m0 src ss" and "i + n = length ss"
  shows "copy_strings src dst i n m h = Some (Inl ()) \<or>
    (\<exists>m' h'. copy_strings src dst i n m h = Some (Inr (m', h')) \<and> copied m0 old dst kd ss (length ss) m' h')"
  using assms(1,3)
proof (induction n arbitrary: i m h)
  case (Suc n)
  have i: "i < length ss" using Suc.prems(2) by simp
  have us: "user_strings m src ss" by (rule user_strings_low[OF assms(2)]) (use Suc.prems(1) in \<open>simp add: copied_def\<close>)
  then have l: "strlen m (load32 m (src + 4 * of_nat i)) = Some (of_nat (length (ss ! i)))" and len: "length (ss ! i) < 40960"
    using i unfolding user_strings_def by (simp_all add: strlen_cstr)
  obtain m1 h1 p where k: "kmalloc m h (of_nat (length (ss ! i)) + 1) = Some (m1, h1, p)"
    using kmalloc_returns[of m h "of_nat (length (ss ! i)) + 1"] copied_block[OF Suc.prems(1)] len by (auto simp: unat_word_ariths of_nat_unat_u32)
  show ?case
  proof (cases "p = NULL")
    case False
    from copy_step[OF Suc.prems(1) assms(2) i k False] obtain m3 where m3: "copied m0 old dst kd ss (Suc i) m3 h1"
        "strcpy (store32 m1 (dst + 4 * of_nat i) p) p (load32 (store32 m1 (dst + 4 * of_nat i) p) (src + 4 * of_nat i)) = Some m3"
      by auto
    have "copy_strings src dst i (Suc n) m h = copy_strings src dst (Suc i) n m3 h1" using l k m3(2) False by (simp add: Let_def)
    then show ?thesis using Suc.IH[OF m3(1)] Suc.prems(2) by simp
  qed (use l k in \<open>simp add: Let_def\<close>)
qed simp

text \<open>
  C18: The list of arguments that \<open>execve\<close> copies. The copy returns, and unless memory runs out, the result is a new list of pointers, ended by a null
  pointer, to copies of the strings of the program in blocks that were not live before; no block that was live before is changed, the
  heap stays well-formed and the directory that was active before is active again.
\<close>

theorem copied_arguments:
  assumes "heap_ok (m, h)" and "user_strings m src ss"
  shows "\<exists>r. copy_userspace_null_str_list task_pgd src (m, h, u) = Some r \<and>
    (case r of
       Inl _ \<Rightarrow> True
     | Inr (dst, m', h', u') \<Rightarrow> heap_ok (m', h') \<and> load32 m' (dst + of_nat (4 * length ss)) = NULL \<and> cr3 u' = cr3 u \<and>
         (\<forall>i < length ss. \<exists>p k. load32 m' (dst + of_nat (4 * i)) = p \<and> (p, k) \<in> heap_live (m', h') - heap_live (m, h) \<and>
            length (ss ! i) < k \<and> cstr m' p (ss ! i)) \<and>
         (\<forall>(b, k) \<in> heap_live (m, h). same_bytes m m' b k))"
proof -
  let ?n = "length ss" and ?old = "heap_live (m, h)"
  have n: "?n < 10240" "src \<noteq> NULL" using assms(2) unfolding user_strings_def by auto
  have si: "nat (sint (of_nat ?n :: u32)) = ?n" using n(1) by (simp add: sint_u32 of_nat_unat_u32)
  have sz: "unat (4 * (of_nat ?n + 1) :: u32) = 4 * Suc ?n" using n(1) by (simp add: unat_word_ariths of_nat_unat_u32)
  have cr: "cr3 (activate_pgd (get_current_pgd u) (activate_pgd task_pgd u)) = cr3 u" by (simp add: activate_pgd_def get_current_pgd_def)
  have "0 < unat (4 * (of_nat ?n + 1) :: u32)" "unat (4 * (of_nat ?n + 1) :: u32) \<le> 40960" unfolding sz using n(1) by simp_all
  from kmalloc_returns[OF assms(1) this] obtain m1 h1 dst where k: "kmalloc m h (4 * (of_nat ?n + 1)) = Some (m1, h1, dst)" by blast
  note unfold = copy_userspace_null_str_list_def str_list_length_ok[OF assms(2)]
  show ?thesis
  proof (cases "dst = NULL")
    case True
    then show ?thesis using k n(2) by (simp add: unfold Let_def)
  next
    case False
    obtain kd where kd: "heap_ok (m1, h1)" "4 * Suc ?n \<le> kd" "(dst, kd) \<notin> ?old" "heap_live (m1, h1) = insert (dst, kd) ?old"
        "\<forall>(b, j) \<in> ?old. same_bytes m m1 b j" "\<forall>a. unat a < 3225419776 \<longrightarrow> m1 a = m a"
      using kmalloc_block[OF assms(1) _ _ k False] sz n(1) by auto
    have "copied m ?old dst kd ss 0 m1 h1" unfolding copied_def using kd by auto
    from copy_strings_ok[OF this assms(2)] consider "copy_strings src dst 0 ?n m1 h1 = Some (Inl ())"
      | m2 h2 where "copy_strings src dst 0 ?n m1 h1 = Some (Inr (m2, h2))" "copied m ?old dst kd ss ?n m2 h2" by auto
    then show ?thesis
    proof cases
      case 1
      then show ?thesis using k n(2) False si by (simp add: unfold Let_def)
    next
      case (2 m2 h2)
      have z: "load32 m2 (src + of_nat (4 * ?n)) = NULL" using user_strings_low[OF assms(2), of m2] 2(2) unfolding copied_def user_strings_def by blast
      then have "copy_userspace_null_str_list task_pgd src (m, h, u) =
          Some (Inr (dst, store32 m2 (dst + of_nat (4 * ?n)) NULL, h2, activate_pgd (get_current_pgd u) (activate_pgd task_pgd u)))"
        using k n(2) False si 2(1) by (simp add: unfold Let_def)
      moreover have "copied m ?old dst kd ss ?n (store32 m2 (dst + of_nat (4 * ?n)) NULL) h2" using copied_store[OF 2(2) order_refl order_refl] by simp
      ultimately show ?thesis using cr unfolding copied_def copy_at_def by auto
    qed
  qed
qed

text \<open>A program with the list that holds the string \<open>a\<close>, at addresses 4096 and 4200, over an empty heap.\<close>

definition demo_args :: mem where
  "demo_args = (\<lambda>_. 0)(4096 := 0x68, 4097 := 0x10, 4200 := 0x61)"

theorem copied_arguments_witness:
  "\<exists>r. copy_userspace_null_str_list 0xC0400000 4096 (demo_args, empty_heap, \<lparr>cr0 = 0, cr3 = 0x500000, cr4 = 0, mmu_paging_enabled = True,
     mmu_current_pgd = 0, hwinterrupts = False\<rparr>) = Some r \<and>
   (case r of Inl _ \<Rightarrow> True | Inr (dst, m', h', u') \<Rightarrow> cr3 u' = 0x500000 \<and> cstr m' (load32 m' dst) [0x61])"
proof -
  have "load32 demo_args 4096 = 4200" by (simp add: load32_def demo_args_def)
  moreover have "load32 demo_args 4100 = NULL" by (simp add: load32_def demo_args_def)
  moreover have "cstr demo_args 4200 [0x61]" by (simp add: demo_args_def)
  ultimately have us: "user_strings demo_args 4096 [[0x61]]" by (simp add: user_strings_def)
  have "heap_ok (demo_args, empty_heap)" using empty_heap_inv by (auto simp: heap_ok_def)
  from copied_arguments[OF this us] show ?thesis by (fastforce split: sum.splits)
qed

text \<open>A null list returns at once, without switching back to the directory that was active.\<close>

lemma null_list_keeps_directory: "copy_userspace_null_str_list task_pgd NULL (m, h, u) = Some (Inr (NULL, m, h, activate_pgd task_pgd u))"
  by (simp add: copy_userspace_null_str_list_def)

section \<open>Stacks\<close>

text \<open>The area recorded for a stack has as many bytes as the stack has pages.\<close>

lemma alloc_stack_area_in_bytes:
  assumes "t_vm_areas task = None" and "stack mod PAGE_SIZE = 0" and "alloc_stack vm task stack sz user = Some (vm', task')"
  shows "\<exists>a. t_vm_areas task' = Some [a] \<and> vma_addr (vm_objs vm' a) = stack \<and> vma_size (vm_objs vm' a) = PG_RND_UP sz div PAGE_SIZE"
  using assms by (auto simp: alloc_stack_def vma_create_def Let_def bind_eq_Some_conv)

end
