(* ===== verification/Sched_Init.thy ===== *)
theory Sched_Init
  imports Proc Interrupts
begin

text \<open>
  The start of the scheduler in \<^verbatim>\<open>kernel/sched.c\<close>: \<open>sched_init\<close> with the idle task, and the voluntary switch. The handler of interrupt 0x30 is an
  argument; \<open>raw\<close>, \<open>kstack\<close> and \<open>tty\<close> are what the allocation of a task leaves open, as in \<^verbatim>\<open>Proc\<close>, and \<open>entry\<close> is the address of \<open>__idle_thread\<close>.
\<close>

definition sched_init ::
    "'k intr_handler_t \<Rightarrow> task \<Rightarrow> u32 \<Rightarrow> nat option \<Rightarrow> u32 \<Rightarrow> kernel \<times> 'k interrupts \<Rightarrow> kernel \<times> 'k interrupts" where
  "sched_init yield_handler raw kstack tty entry st =
     (let (k, it) = st;
          k = k\<lparr>tasklist := []\<rparr>;
          it = idt_register_interrupt 0x30 yield_handler it;
          (k, idle_task) = create_kernel_task k raw kstack tty entry;
          k = upd_task idle_task (\<lambda>x. x\<lparr>t_name := ''idle'', tk_pgd := kernel_pgd k, t_process := None, t_thid := 0\<rparr>) k;
          k = sched_add k idle_task;
          k = k\<lparr>current_entry := hd (tasklist k)\<rparr>;
          k = k\<lparr>current_task := current_entry k, pit_sched_enable := True, sched_initialized := True\<rparr>
      in (k, it))"

text \<open>\<open>sched_yield\<close> raises interrupt 0x30; \<open>r\<close> are the registers that the interrupt saves.\<close>

definition sched_yield :: "nat \<Rightarrow> kernel \<Rightarrow> registers \<Rightarrow> kernel option" where
  "sched_yield n k r = (if \<not> sched_initialized k then Some k else sched_yield_handler n k r)"

text \<open>What the idle thread does before it halts the processor for ever.\<close>

definition idle_thread :: "kernel \<Rightarrow> kernel" where
  "idle_thread k = preempt_enable k"

section \<open>The idle task\<close>

text \<open>After \<open>sched_init\<close> the idle task is the only one in the list and the current one, and it starts in the kernel at its entry.\<close>

lemma sched_init_idle:
  assumes "sched_init h raw kstack tty entry (k, it) = (k', it')"
  shows "tasklist k' = [current_task k'] \<and> current_entry k' = current_task k' \<and> current_task k' = next_obj k \<and>
    t_state (cur k') = TASK_STARTING \<and> tk_pgd (cur k') = kernel_pgd k \<and> t_process (cur k') = None \<and>
    r_eip (t_regs (cur k')) = entry \<and> r_cs (t_regs (cur k')) = 0x08 \<and> sched_initialized k' \<and> pit_sched_enable k'"
  using assms
  by (auto simp: sched_init_def create_kernel_task_def create_dummy_task_def sched_add_def upd_task_def Let_def kstack_pushes_def cur_def)

text \<open>As long as the idle task is in the list and does not sleep, the search for a task to run ends.\<close>

lemma idle_task_ends_search:
  assumes "distinct (tasklist k)" and "current_entry k \<in> set (tasklist k)" and "idle \<in> set (tasklist k)" and "t_state (tasks k idle) \<noteq> TASK_SLEEPING"
  shows "\<exists>k' t. pick_next_task k = Some (k', t) \<and> t \<in> set (tasklist k) \<and> runnable k t"
proof -
  obtain xs ys where l: "tasklist k = xs @ current_entry k # ys" using assms(2) by (auto dest: split_list)
  let ?order = "ys @ xs @ [current_entry k]"
  have "idle \<in> set ?order" using assms(3) unfolding l by auto
  moreover have "runnable k idle" using assms(4) by (simp add: runnable_def)
  ultimately obtain t where t: "find (runnable k) ?order = Some t" by (metis find_None_iff option.exhaust)
  then have "t \<in> set ?order" "runnable k t" by (auto simp: find_Some_iff simp del: set_append)
  moreover have "t \<in> set (tasklist k)" using \<open>t \<in> set ?order\<close> unfolding l by auto
  ultimately show ?thesis using t pick_next_round_robin_eq[OF assms(1) l refl] by auto
qed

text \<open>Before \<open>sched_init\<close> a yield does nothing.\<close>

lemma sched_yield_early: "\<not> sched_initialized k \<Longrightarrow> sched_yield n k r = Some k"
  by (simp add: sched_yield_def)

end
