(* ===== verification/Spec2Isabelle.thy ===== *)
theory Spec2Isabelle
  imports Prelude Bitmap Linked_List Memory Cstring Strconv Ringbuffer Pmm Heap Heap_Pages Paging Vmm Task Signal Sched Proc Vfs Devices
    Initrd Ext2 Pipe Socket Fdops Format Keyboard Tty Ports Console Descriptors Interrupts Bytefile Elf Ksymbols Pci Ata Locking
    Serial Sound Boot_Paging Multiboot Diagnostics Shell
    Mapped_File User_Args Sched_Init
begin

text \<open>
  DepthOS: a verification development of the kernel's C code for i386.

  \<^bold>\<open>The program.\<close> DepthOS is a monolithic kernel. \<^verbatim>\<open>mm/\<close> allocates physical frames (\<^verbatim>\<open>pmm.c\<close>), maps them in page directories
  (\<^verbatim>\<open>paging.c\<close>), allocates kernel memory in slabs on top of mapped pages (\<^verbatim>\<open>heap.c\<close>) and manages the address space of tasks
  (\<^verbatim>\<open>vmm.c\<close>). \<^verbatim>\<open>kernel/\<close> holds tasks, processes and threads (\<^verbatim>\<open>proc.c\<close>), the scheduler driven by the timer (\<^verbatim>\<open>sched.c\<close>,
  \<^verbatim>\<open>pit.c\<close>), signals (\<^verbatim>\<open>signal.c\<close>) and devices (\<^verbatim>\<open>devices.c\<close>, \<^verbatim>\<open>partition.c\<close>). \<^verbatim>\<open>fs/\<close> and \<^verbatim>\<open>net/\<close> hold the virtual file system
  (\<^verbatim>\<open>vfs.c\<close>), its file systems, pipes, sockets and the system calls on descriptors (\<^verbatim>\<open>fdops.c\<close>). \<^verbatim>\<open>lib/\<close> provides bitmaps,
  lists, ring buffers and strings to all of them.

  \<^bold>\<open>Theories and sources.\<close> Definitions carry the names of the C functions they translate, with the prefix \<open>sys_\<close> for system calls.

  \<^item> \<^verbatim>\<open>Prelude\<close>: machine types and macros of \<^verbatim>\<open>include/depthos/\<close>, \<^verbatim>\<open>lib/math.c\<close>, \<^verbatim>\<open>lib/stdbits.c\<close>, counted loops, shared lemmas.
  \<^item> \<^verbatim>\<open>Bitmap\<close>: \<^verbatim>\<open>lib/bitmap.c\<close>, a bitmap as an array of 32-bit words; scanning finds the first run.
  \<^item> \<^verbatim>\<open>Linked_List\<close>: \<^verbatim>\<open>lib/list.c\<close> over a store of entries; the doubly linked list refines a sequence.
  \<^item> \<^verbatim>\<open>Memory\<close>, \<^verbatim>\<open>Cstring\<close>, \<^verbatim>\<open>Strconv\<close>: byte-addressed memory, \<^verbatim>\<open>lib/string.c\<close>, \<^verbatim>\<open>lib/strconv.c\<close>.
  \<^item> \<^verbatim>\<open>Ringbuffer\<close>: \<^verbatim>\<open>lib/ringbuffer.c\<close>; the contract \<open>bounded_queue\<close> and its interpretation \<open>rbq\<close>.
  \<^item> \<^verbatim>\<open>Pmm\<close>: \<^verbatim>\<open>mm/pmm.c\<close>; the contract \<open>frame_allocator\<close> and its interpretation \<open>pm\<close>.
  \<^item> \<^verbatim>\<open>Heap\<close>, \<^verbatim>\<open>Heap_Pages\<close>: \<^verbatim>\<open>mm/heap.c\<close>, slabs whose free lists are threaded through the memory they manage; the contract
    \<open>object_allocator\<close> and its interpretation \<open>kh\<close>.
  \<^item> \<^verbatim>\<open>Paging\<close>: \<^verbatim>\<open>mm/paging.c\<close>, page directories and tables as words in memory, refined to a map from pages to frames.
  \<^item> \<^verbatim>\<open>Vmm\<close>: \<^verbatim>\<open>mm/vmm.c\<close>, areas, \<open>mmap\<close> and the handling of page faults.
  \<^item> \<^verbatim>\<open>Task\<close>, \<^verbatim>\<open>Signal\<close>, \<^verbatim>\<open>Sched\<close>, \<^verbatim>\<open>Proc\<close>: \<^verbatim>\<open>kernel/proc.c\<close>, \<^verbatim>\<open>signal.c\<close>, \<^verbatim>\<open>sched.c\<close> and the tick of \<^verbatim>\<open>pit.c\<close> over one record \<open>kernel\<close>
    that holds tasks, processes, queues and user memory.
  \<^item> \<^verbatim>\<open>Boot_Paging\<close>: the rest of \<^verbatim>\<open>mm/paging.c\<close>: control registers, the kernel's own tables, the handler that joins areas and signals.
  \<^item> \<^verbatim>\<open>Sched_Init\<close>, \<^verbatim>\<open>User_Args\<close>: the start of the scheduler with the idle task; argument lists copied from a program, stacks of tasks.
  \<^item> \<^verbatim>\<open>Descriptors\<close>, \<^verbatim>\<open>Interrupts\<close>: \<^verbatim>\<open>arch/x86/\<close>: segments and task state; interrupt controllers, gates, dispatch; the timer chip; \<^verbatim>\<open>kernel/syscall.c\<close>.
  \<^item> \<^verbatim>\<open>Locking\<close>: \<^verbatim>\<open>kernel/locking.c\<close>.
  \<^item> \<^verbatim>\<open>Vfs\<close>, \<^verbatim>\<open>Devices\<close>, \<^verbatim>\<open>Initrd\<close>: \<^verbatim>\<open>fs/vfs.c\<close>, \<^verbatim>\<open>fs/file.c\<close>, \<^verbatim>\<open>fs/devfs.c\<close>, \<^verbatim>\<open>kernel/devices.c\<close>, \<^verbatim>\<open>kernel/partition.c\<close>, \<^verbatim>\<open>fs/mbr.c\<close>,
    \<^verbatim>\<open>fs/initrd.c\<close>.
  \<^item> \<^verbatim>\<open>Ext2\<close>: \<^verbatim>\<open>fs/ext2.c\<close> over a block device. \<^verbatim>\<open>Mapped_File\<close>: the pages of mapped files in \<^verbatim>\<open>fs/file.c\<close>.
  \<^item> \<^verbatim>\<open>Bytefile\<close>: the contract \<open>byte_file\<close> of reading and seeking, interpreted on the initial ram disk as \<open>ird\<close>. On it rest \<^verbatim>\<open>Elf\<close>
    (\<^verbatim>\<open>kernel/elf.c\<close>, program loading) and \<^verbatim>\<open>Ksymbols\<close> (\<^verbatim>\<open>kernel/ksymbols.c\<close>; the contract \<open>symbol_file\<close>, interpreted as \<open>irs\<close>).
  \<^item> \<^verbatim>\<open>Format\<close>: \<^verbatim>\<open>lib/vformat.c\<close> over an arbitrary output function and \<^verbatim>\<open>lib/stdio.c\<close>; the contract \<open>output_callback\<close> and its
    interpretations \<open>sn\<close> on \<open>output_str\<close>, \<open>con\<close> on the console and \<open>ser\<close> on the serial line.
  \<^item> \<^verbatim>\<open>Keyboard\<close>, \<^verbatim>\<open>Tty\<close>, \<^verbatim>\<open>Console\<close>: \<^verbatim>\<open>drivers/keyboard.c\<close>, \<^verbatim>\<open>drivers/ps2.c\<close>, \<^verbatim>\<open>kernel/tty.c\<close>, \<^verbatim>\<open>io/console.c\<close>.
  \<^item> \<^verbatim>\<open>Ports\<close>: \<^verbatim>\<open>io/ports.c\<close> over a bus. On it rest \<^verbatim>\<open>Pci\<close> (\<^verbatim>\<open>drivers/pci.c\<close>, \<^verbatim>\<open>kernel/dma-isa.c\<close>), \<^verbatim>\<open>Ata\<close> (\<^verbatim>\<open>drivers/ata.c\<close>), \<^verbatim>\<open>Serial\<close>
    (\<^verbatim>\<open>drivers/serial.c\<close>, \<^verbatim>\<open>drivers/beeper.c\<close>) and \<^verbatim>\<open>Sound\<close> (\<^verbatim>\<open>drivers/sb16.c\<close>).
  \<^item> \<^verbatim>\<open>Multiboot\<close>: \<^verbatim>\<open>kernel/multiboot.c\<close>, the data of the boot loader and the frame buffer.
  \<^item> \<^verbatim>\<open>Diagnostics\<close>, \<^verbatim>\<open>Shell\<close>: \<^verbatim>\<open>io/logging.c\<close>, \<^verbatim>\<open>kernel/trace.c\<close>, \<^verbatim>\<open>kernel/emu.c\<close>, \<^verbatim>\<open>kernel/shell.c\<close>, the printing helpers of \<^verbatim>\<open>kernel/kmain.c\<close>.
  \<^item> \<^verbatim>\<open>Pipe\<close>, \<^verbatim>\<open>Socket\<close>, \<^verbatim>\<open>Fdops\<close>: \<^verbatim>\<open>fs/pipe.c\<close>, \<^verbatim>\<open>net/local_socket.c\<close>, \<^verbatim>\<open>fs/fdops.c\<close>.

  \<^bold>\<open>How state and effects are modelled.\<close> Integers keep their width (\<open>u8\<close>, \<open>u16\<close>, \<open>u32\<close>, \<open>u64\<close> are words; a C \<open>int\<close> that is only compared
  or returned is an \<open>int\<close>, with \<open>sint\<close> where an unsigned value is converted). Kernel and user memory are functions from
  addresses to bytes where the code computes addresses (heap, page tables, ring buffers, stacks, copies); objects that are
  only reached through pointers (tasks, processes, areas, files, pipes, sockets) are numbered entries of a store, so that
  sharing is visible. Functions return the changed state. \<open>None\<close> is a fault of the kernel (a null pointer, a failed
  assertion, a panic, division by zero) or a loop that does not end; error numbers are negative results as in the source.
  A function that leaves for another task returns \<open>Switched\<close>; a system call waiting in a loop around \<open>sched_yield\<close> returns
  \<open>Blocked\<close>. Uninitialised memory and missing return values are arguments of the definitions.

  \<^bold>\<open>Arguments that stand for other code.\<close> Program loading, the cloning of page directories and path lookup in \<open>execve\<close> and
  \<open>fork\<close>, the operations of mapped files in \<^verbatim>\<open>Vmm\<close> (one of them is \<open>generic_file_load_mapped_page\<close>), the operation tables of file systems in
  \<^verbatim>\<open>Vfs\<close> and \<^verbatim>\<open>Fdops\<close>, and the drivers behind devices in \<^verbatim>\<open>Devices\<close> and \<^verbatim>\<open>Ext2\<close>. The hardware is a bus, a pair of functions on a state that the port
  instructions call; the theorems about disks and the serial line hold for a reference drive \<open>drive_at\<close> and line \<open>uart_at\<close>
  with arbitrary delays. What a DMA transfer puts into memory, the yield of the processor in a lock, the assembly stubs and the
  addresses of string literals are arguments as well.

  \<^bold>\<open>Loops and fuel.\<close> Loops over arrays are structural or have a measure. The search of the scheduler for a task that is awake, the
  byte loops over strings and the push loop of the ring buffer are \<open>partial_function (option)\<close>: \<open>None\<close> is the loop that does
  not end, and the theorems prove that it does end where it should. \<open>reschedule_to\<close>, which recurses through signal
  delivery, takes fuel; every amount above the number of queued signals gives the same result, because each level
  removes a signal. The wait loops of pipes and sockets do one round per call.

  \<^bold>\<open>What is shown.\<close>

  \<^item> Allocation: \<open>kmalloc\<close> and \<open>kfree\<close> keep the slab invariant, hand out disjoint live blocks and keep the contents of the
    others; writes of clients cannot damage the free lists; \<open>pmm_alloc\<close> is first fit, and both allocators are undone by
    their release functions.
  \<^item> Address spaces: \<open>map_page\<close>, \<open>map_addr\<close> and \<open>unmap_page\<close> implement updates of the abstract page map; areas stay
    disjoint and sorted; a fault in an anonymous mapping gets zeroed fresh frames.
  \<^item> Tasks: round-robin choice of the next task, termination of rescheduling, unique process numbers along all sequences
    of creation and reaping, the contents of a forked child and of an initial stack, removal of the threads of an exiting
    process; signals are queued in order and a handler's return restores the interrupted registers.
  \<^item> Files: the mount with the longest matching path serves a request; positions stay inside the file; descriptors are the
    lowest free ones and calls do not disturb other descriptors; directory entries stay inside the caller's buffer;
    partitions confine transfers; device numbers are unique; pipes and sockets deliver bytes in order, and pipes do not
    deadlock.
  \<^item> Ext2: reading a file without holes returns its contents through direct and singly indirect blocks; inodes are read from
    their place in the table.
  \<^item> Programs: a loadable segment gets its bytes and zeros behind them; a fault in a mapped file loads the page; arguments are copied
    into fresh blocks; the symbols of a map file are read back.
  \<^item> Hardware: the selectors and gates the kernel installs; sectors of a disk are read and written back for any delay of
    the drive; serial output sends exactly the text; the sound card is never given a second transfer before the interrupt; a
    mutex has one holder; typed keys reach the reader; what fits on a row of the console appears there.
  \<^item> Boot: the tables of \<open>paging_init\<close> translate the first 16 megabytes of the kernel linearly, which justifies the memory model
    above; the map of memory is summed to its end.
  \<^item> Library: the list, the ring buffer, string search and copy; \<open>itoa\<close> and \<open>format_int\<close> agree; formatting ends for every format
    string, stays within one byte behind the buffer, and stores text and numerals as asked.
  \<^item> Defects: theorems and lemmas that state what the code does where it departs from what it means to do (exhausted frame
    allocation, the lost area in \<open>vma_create\<close>, stopped tasks that keep running, the page directory freed under running
    threads, the lost root mount, the dangling descriptor of a failed \<open>pipe\<close>, and others next to the definitions).

  \<^bold>\<open>Not modelled.\<close> \<open>kmain\<close> and \<open>device_init\<close>, which call the initialisers of the other parts in order over the product of all their
  states; inline assembly that loads processor registers and enters user mode (\<open>elf_exec\<close>, the reload of segments) and the
  assembly stubs; log messages inside functions, dumps that only print, and the flag \<open>sched_debug\<close> that selects them; the test
  programs under \<^verbatim>\<open>tests/\<close>.
\<close>

end
